(* ===== verification/Prelude.thy ===== *)
theory Prelude
  imports Main
    "HOL-Library.List_Lexorder"
    "HOL-Library.Char_ord"
    "HOL-Library.Product_Lexorder"
    "HOL-Library.AList"
    "HOL-Library.Multiset"
begin

text \<open>
  Shared vocabulary of the development: the fragment of the Python language and of its
  standard library that the tools under \<^verbatim>\<open>src/tools\<close> and \<^verbatim>\<open>src/assembler/tools\<close> rely on.

  \<^item> Exceptions are the left summand of \<open>'e + 'a\<close>; \<open>bindE\<close>, \<open>mapE\<close> and \<open>foldE\<close> sequence
    fallible statements, comprehensions and loops.
  \<^item> A \<^verbatim>\<open>str\<close> is a \<^typ>\<open>string\<close> of code points below 256.  White space, line boundaries and
    word characters are those of Python's \<^verbatim>\<open>str\<close> methods on that range.
  \<^item> A \<^verbatim>\<open>dict\<close> is an association list in insertion order, updated by \<^const>\<open>AList.update\<close>.

  The lemmas are generic; the collection \<open>py_defs\<close> gathers the definitions that a closed
  evaluation unfolds, \<open>resE\<close> the rules that take a successful fallible computation apart.
\<close>

named_theorems py_defs
named_theorems resE

section \<open>Exceptions\<close>

definition bindE :: "'e + 'a \<Rightarrow> ('a \<Rightarrow> 'e + 'b) \<Rightarrow> 'e + 'b" where
  "bindE m f = (case m of Inl e \<Rightarrow> Inl e | Inr x \<Rightarrow> f x)"

definition ensure :: "bool \<Rightarrow> 'e \<Rightarrow> 'e + unit" where
  "ensure ok e = (if ok then Inr () else Inl e)"

fun mapE :: "('a \<Rightarrow> 'e + 'b) \<Rightarrow> 'a list \<Rightarrow> 'e + 'b list" where
  "mapE f [] = Inr []"
| "mapE f (x # xs) = bindE (f x) (\<lambda>y. bindE (mapE f xs) (\<lambda>ys. Inr (y # ys)))"

fun foldE :: "('s \<Rightarrow> 'a \<Rightarrow> 'e + 's) \<Rightarrow> 's \<Rightarrow> 'a list \<Rightarrow> 'e + 's" where
  "foldE f s [] = Inr s"
| "foldE f s (x # xs) = bindE (f s x) (\<lambda>s'. foldE f s' xs)"

definition of_option :: "'e \<Rightarrow> 'a option \<Rightarrow> 'e + 'a" where
  "of_option e x = (case x of None \<Rightarrow> Inl e | Some v \<Rightarrow> Inr v)"

text \<open>The exceptions of the language that the smaller tools raise or let through.\<close>

datatype py_error =
    ValueError string
  | KeyError string
  | IndexError
  | TypeError string
  | OSError string
  | RuntimeError string
  | AssertionError string
  | SystemExit string
  | AttributeError string

lemma bindE_simps [simp]:
  "bindE (Inl e) f = Inl e"
  "bindE (Inr x) f = f x"
  by (simp_all add: bindE_def)

lemma bindE_Inr_iff [resE]: "bindE m f = Inr y \<longleftrightarrow> (\<exists>x. m = Inr x \<and> f x = Inr y)"
  by (cases m) simp_all

lemma bindE_Inl_iff:
  "bindE m f = Inl e \<longleftrightarrow> m = Inl e \<or> (\<exists>x. m = Inr x \<and> f x = Inl e)"
  by (cases m) simp_all

lemma bindE_assoc: "bindE (bindE m f) g = bindE m (\<lambda>x. bindE (f x) g)"
  by (cases m) simp_all

lemma bindE_cong [fundef_cong]:
  "m = m' \<Longrightarrow> (\<And>x. m' = Inr x \<Longrightarrow> f x = f' x) \<Longrightarrow> bindE m f = bindE m' f'"
  by (cases m') simp_all

lemma ensure_simps [simp]:
  "ensure True e = Inr ()"
  "ensure False e = Inl e"
  by (simp_all add: ensure_def)

lemma ensure_Inr_iff [resE]: "ensure b e = Inr u \<longleftrightarrow> b"
  by (simp add: ensure_def)

lemma ensure_Inl_iff: "ensure b e = Inl e' \<longleftrightarrow> \<not> b \<and> e' = e"
  by (auto simp: ensure_def)

lemma of_option_simps [simp]:
  "of_option e None = Inl e"
  "of_option e (Some v) = Inr v"
  by (simp_all add: of_option_def)

lemma of_option_Inr_iff [resE]: "of_option e x = Inr v \<longleftrightarrow> x = Some v"
  by (cases x) simp_all

lemma mapE_Inr_iff: "mapE f xs = Inr ys \<longleftrightarrow> list_all2 (\<lambda>x y. f x = Inr y) xs ys"
  by (induction xs arbitrary: ys) (auto simp: bindE_Inr_iff list_all2_Cons1)

lemma mapE_total: "(\<And>x. x \<in> set xs \<Longrightarrow> f x = Inr (g x)) \<Longrightarrow> mapE f xs = Inr (map g xs)"
  by (induction xs) simp_all

lemma mapE_Inr_length: "mapE f xs = Inr ys \<Longrightarrow> length ys = length xs"
  by (auto simp: mapE_Inr_iff dest: list_all2_lengthD)

lemma mapE_Inr_set: "mapE f xs = Inr ys \<Longrightarrow> y \<in> set ys \<Longrightarrow> \<exists>x \<in> set xs. f x = Inr y"
  by (induction xs arbitrary: ys) (auto simp: bindE_Inr_iff)

lemma mapE_cong [fundef_cong]:
  "xs = ys \<Longrightarrow> (\<And>x. x \<in> set ys \<Longrightarrow> f x = g x) \<Longrightarrow> mapE f xs = mapE g ys"
  by (induction ys arbitrary: xs) (auto simp: bindE_def split: sum.splits)

lemma foldE_append: "foldE f s (xs @ ys) = bindE (foldE f s xs) (\<lambda>s'. foldE f s' ys)"
  by (induction xs arbitrary: s) (simp_all add: bindE_assoc)

text \<open>An invariant of the body of a fallible loop is an invariant of the loop.\<close>

lemma foldE_invariant:
  assumes "foldE f s xs = Inr t" and "P s"
    and "\<And>x s t. x \<in> set xs \<Longrightarrow> P s \<Longrightarrow> f s x = Inr t \<Longrightarrow> P t"
  shows "P t"
  using assms by (induction xs arbitrary: s) (auto simp: bindE_Inr_iff)

text \<open>The same with the part of the sequence already processed in the invariant.\<close>

lemma foldE_prefix_invariant:
  assumes "foldE f s xs = Inr t" and "P [] s"
    and "\<And>ys x s t. P ys s \<Longrightarrow> x \<in> set xs \<Longrightarrow> f s x = Inr t \<Longrightarrow> P (ys @ [x]) t"
  shows "P xs t"
proof -
  have "P (ys @ xs) t" if "P ys s" "foldE f s xs = Inr t"
    "\<And>ys x s t. P ys s \<Longrightarrow> x \<in> set xs \<Longrightarrow> f s x = Inr t \<Longrightarrow> P (ys @ [x]) t" for ys
    using that
  proof (induction xs arbitrary: ys s)
    case Nil
    then show ?case by simp
  next
    case (Cons x xs)
    from Cons.prems(2) obtain s' where s': "f s x = Inr s'" "foldE f s' xs = Inr t"
      by (auto simp: bindE_Inr_iff)
    have "P (ys @ [x]) s'" using Cons.prems(1,3) s'(1) by simp
    then have "P ((ys @ [x]) @ xs) t"
      using Cons.IH[of "ys @ [x]" s'] Cons.prems(3) s'(2) by simp
    then show ?case by simp
  qed
  from this[of "[]"] assms show ?thesis by simp
qed

section \<open>Sequences\<close>

text \<open>Python indexing: a negative index counts from the end, out of range raises.\<close>

definition py_get :: "'a list \<Rightarrow> int \<Rightarrow> 'a option" where
  "py_get xs i =
     (let n = int (length xs); j = (if i < 0 then n + i else i)
      in if 0 \<le> j \<and> j < n then Some (xs ! nat j) else None)"

text \<open>\<^verbatim>\<open>xs[-n:]\<close> with a non-negative \<^verbatim>\<open>n\<close>.\<close>

definition last_n :: "nat \<Rightarrow> 'a list \<Rightarrow> 'a list" where
  "last_n n xs = drop (length xs - n) xs"

lemma py_get_in_range: "0 \<le> i \<Longrightarrow> i < int (length xs) \<Longrightarrow> py_get xs i = Some (xs ! nat i)"
  by (simp add: py_get_def)

lemma length_last_n [simp]: "length (last_n n xs) = min n (length xs)"
  by (simp add: last_n_def)

lemma set_last_n: "set (last_n n xs) \<subseteq> set xs"
  by (simp add: last_n_def set_drop_subset)

text \<open>Order-preserving removal of later duplicates, the order of first insertion.\<close>

fun nub :: "'a list \<Rightarrow> 'a list" where
  "nub [] = []"
| "nub (x # xs) = x # filter (\<lambda>y. y \<noteq> x) (nub xs)"

lemma set_nub [simp]: "set (nub xs) = set xs"
  by (induction xs) auto

lemma distinct_nub [simp]: "distinct (nub xs)"
  by (induction xs) auto

lemma sum_list_const_le:
  fixes c :: nat
  shows "(\<And>x. x \<in> set xs \<Longrightarrow> f x \<le> c) \<Longrightarrow> sum_list (map f xs) \<le> length xs * c"
  by (induction xs) (auto simp: add_mono)

lemma mset_filter_partition: "mset (filter P xs) + mset (filter (\<lambda>x. \<not> P x) xs) = mset xs"
  by (induction xs) simp_all

lemma map_fst_zip_same [simp]: "length xs = length ys \<Longrightarrow> map fst (zip xs ys) = xs"
  by simp

lemma list_all2_map_eq: "list_all2 (\<lambda>x y. g y = f x) xs ys \<Longrightarrow> map g ys = map f xs"
  by (induction rule: list_all2_induct) simp_all

lemma list_all2_right: "list_all2 P xs ys \<Longrightarrow> y \<in> set ys \<Longrightarrow> \<exists>x \<in> set xs. P x y"
  by (induction rule: list_all2_induct) auto

lemma list_all2_left: "list_all2 P xs ys \<Longrightarrow> x \<in> set xs \<Longrightarrow> \<exists>y \<in> set ys. P x y"
  by (induction rule: list_all2_induct) auto

lemma filter_eq_nth_distinct:
  "distinct xs \<Longrightarrow> i < length xs \<Longrightarrow> filter (\<lambda>x. x = xs ! i) xs = [xs ! i]"
proof (induction xs arbitrary: i)
  case Nil
  then show ?case by simp
next
  case (Cons x xs)
  show ?case
  proof (cases i)
    case 0
    with Cons.prems show ?thesis by (auto simp: filter_empty_conv)
  next
    case (Suc j)
    with Cons.prems have "j < length xs" by simp
    with Cons.prems Suc Cons.IH[of j] show ?thesis by auto
  qed
qed

section \<open>Strings\<close>

definition is_ws :: "char \<Rightarrow> bool" where
  [py_defs]: "is_ws c = (let n = (of_char c :: nat) in
     (9 \<le> n \<and> n \<le> 13) \<or> (28 \<le> n \<and> n \<le> 32) \<or> n = 133 \<or> n = 160)"

definition is_break :: "char \<Rightarrow> bool" where
  [py_defs]: "is_break c = (let n = (of_char c :: nat) in
     (10 \<le> n \<and> n \<le> 13) \<or> (28 \<le> n \<and> n \<le> 30) \<or> n = 133)"

definition is_digit :: "char \<Rightarrow> bool" where
  [py_defs]: "is_digit c = (let n = (of_char c :: nat) in 48 \<le> n \<and> n \<le> 57)"

definition is_alpha :: "char \<Rightarrow> bool" where
  [py_defs]: "is_alpha c = (let n = (of_char c :: nat) in
     (65 \<le> n \<and> n \<le> 90) \<or> (97 \<le> n \<and> n \<le> 122))"

text \<open>The class \<^verbatim>\<open>\w\<close> of Python's \<^verbatim>\<open>re\<close> on code points below 256.\<close>

definition is_word :: "char \<Rightarrow> bool" where
  [py_defs]: "is_word c = (let n = (of_char c :: nat) in
     is_alpha c \<or> is_digit c \<or> n = 95 \<or> n = 170 \<or> n = 178 \<or> n = 179 \<or> n = 181 \<or> n = 185 \<or>
     n = 186 \<or> (188 \<le> n \<and> n \<le> 190) \<or> (192 \<le> n \<and> n \<noteq> 215 \<and> n \<noteq> 247))"

definition is_hex :: "char \<Rightarrow> bool" where
  [py_defs]: "is_hex c = (let n = (of_char c :: nat) in
     (48 \<le> n \<and> n \<le> 57) \<or> (65 \<le> n \<and> n \<le> 70) \<or> (97 \<le> n \<and> n \<le> 102))"

definition lstrip :: "string \<Rightarrow> string" where
  [py_defs]: "lstrip s = dropWhile is_ws s"

definition rstrip :: "string \<Rightarrow> string" where
  [py_defs]: "rstrip s = rev (dropWhile is_ws (rev s))"

definition strip :: "string \<Rightarrow> string" where
  [py_defs]: "strip s = rstrip (lstrip s)"

definition startswith :: "string \<Rightarrow> string \<Rightarrow> bool" where
  [py_defs]: "startswith s p = (take (length p) s = p)"

definition endswith :: "string \<Rightarrow> string \<Rightarrow> bool" where
  [py_defs]: "endswith s p = (length p \<le> length s \<and> drop (length s - length p) s = p)"

text \<open>\<open>contains p s\<close> is Python's \<^verbatim>\<open>p in s\<close>.\<close>

fun contains :: "string \<Rightarrow> string \<Rightarrow> bool" where
  "contains p [] = (p = [])"
| "contains p (c # s) = (startswith (c # s) p \<or> contains p s)"

definition replace_char :: "char \<Rightarrow> char \<Rightarrow> string \<Rightarrow> string" where
  [py_defs]: "replace_char a b s = map (\<lambda>c. if c = a then b else c) s"

text \<open>\<^verbatim>\<open>s.split(c)\<close> and \<^verbatim>\<open>s.split(c, 1)\<close> for a one-character separator.\<close>

fun split_char :: "char \<Rightarrow> string \<Rightarrow> string list" where
  "split_char a [] = [[]]"
| "split_char a (c # s) =
     (if c = a then [] # split_char a s
      else (case split_char a s of [] \<Rightarrow> [[c]] | w # ws \<Rightarrow> (c # w) # ws))"

fun split1 :: "char \<Rightarrow> string \<Rightarrow> (string \<times> string) option" where
  "split1 a [] = None"
| "split1 a (c # s) =
     (if c = a then Some ([], s)
      else map_option (\<lambda>(x, y). (c # x, y)) (split1 a s))"

text \<open>\<^verbatim>\<open>s.split()\<close>: maximal runs of characters that are not white space.\<close>

fun split_ws_aux :: "string \<Rightarrow> string \<Rightarrow> string list" where
  "split_ws_aux acc [] = (if acc = [] then [] else [rev acc])"
| "split_ws_aux acc (c # s) =
     (if is_ws c then (if acc = [] then split_ws_aux [] s else rev acc # split_ws_aux [] s)
      else split_ws_aux (c # acc) s)"

definition split_ws :: "string \<Rightarrow> string list" where
  [py_defs]: "split_ws s = split_ws_aux [] s"

text \<open>\<^verbatim>\<open>s.splitlines()\<close>: a carriage return and line feed pair is one boundary.\<close>

fun splitlines_aux :: "string \<Rightarrow> string \<Rightarrow> string list" where
  "splitlines_aux acc [] = (if acc = [] then [] else [rev acc])"
| "splitlines_aux acc (c # s) =
     (if c = CHR 0x0D \<and> take 1 s = [CHR 0x0A]
      then rev acc # splitlines_aux [] (tl s)
      else if is_break c then rev acc # splitlines_aux [] s
      else splitlines_aux (c # acc) s)"

definition splitlines :: "string \<Rightarrow> string list" where
  [py_defs]: "splitlines s = splitlines_aux [] s"

fun join :: "string \<Rightarrow> string list \<Rightarrow> string" where
  "join sep [] = []"
| "join sep [w] = w"
| "join sep (w # v # ws) = w @ sep @ join sep (v # ws)"

text \<open>
  \<^verbatim>\<open>s.upper()\<close>.  The upper case of the code points 181 and 255 lies outside the range of the
  model; they are left alone (no comparison in the tools involves them).
\<close>

definition upper_char :: "char \<Rightarrow> string" where
  [py_defs]: "upper_char c = (let n = (of_char c :: nat) in
     if 97 \<le> n \<and> n \<le> 122 \<or> (224 \<le> n \<and> n \<le> 254 \<and> n \<noteq> 247) then [char_of (n - 32)]
     else if n = 223 then ''SS'' else [c])"

definition upper :: "string \<Rightarrow> string" where
  [py_defs]: "upper s = concat (map upper_char s)"

subsection \<open>Integers written in decimal and hexadecimal\<close>

definition digit_value :: "char \<Rightarrow> int option" where
  [py_defs]: "digit_value c = (let n = (of_char c :: int) in
     if 48 \<le> n \<and> n \<le> 57 then Some (n - 48)
     else if 97 \<le> n \<and> n \<le> 122 then Some (n - 87)
     else if 65 \<le> n \<and> n \<le> 90 then Some (n - 55) else None)"

text \<open>
  Digits of a literal, with single underscores allowed between digits; \<open>sep\<close> records that
  the previous character was an underscore (or that no digit has been read yet).
\<close>

fun int_digits :: "int \<Rightarrow> bool \<Rightarrow> int \<Rightarrow> string \<Rightarrow> int option" where
  "int_digits b sep acc [] = (if sep then None else Some acc)"
| "int_digits b sep acc (c # s) =
     (if c = CHR ''_'' then (if sep then None else int_digits b True acc s)
      else (case digit_value c of
              None \<Rightarrow> None
            | Some d \<Rightarrow> if d < b then int_digits b False (acc * b + d) s else None))"

definition strip_int :: "string \<Rightarrow> string" where
  [py_defs]: "strip_int s =
     (let ascii = list_all (\<lambda>c. (of_char c :: nat) < 128) s;
          ws = (\<lambda>c. let n = (of_char c :: nat) in
                 if ascii then (9 \<le> n \<and> n \<le> 13) \<or> n = 32 else is_ws c)
      in rev (dropWhile ws (rev (dropWhile ws s))))"

text \<open>An unsigned literal; the prefix of the base may be followed by one underscore.\<close>

definition after_prefix :: "string \<Rightarrow> string" where
  [py_defs]: "after_prefix s = (case s of c # t \<Rightarrow> if c = CHR ''_'' then t else s | [] \<Rightarrow> [])"

definition has_prefix :: "char \<Rightarrow> char \<Rightarrow> string \<Rightarrow> bool" where
  [py_defs]: "has_prefix lo up s = (take 2 s = [CHR ''0'', lo] \<or> take 2 s = [CHR ''0'', up])"

definition unsigned_literal :: "int \<Rightarrow> string \<Rightarrow> int option" where
  [py_defs]: "unsigned_literal b s =
     (if b = 16 \<and> has_prefix CHR ''x'' CHR ''X'' s
      then int_digits 16 True 0 (after_prefix (drop 2 s))
      else if b = 0 then
        (if has_prefix CHR ''x'' CHR ''X'' s then int_digits 16 True 0 (after_prefix (drop 2 s))
         else if has_prefix CHR ''o'' CHR ''O'' s then int_digits 8 True 0 (after_prefix (drop 2 s))
         else if has_prefix CHR ''b'' CHR ''B'' s then int_digits 2 True 0 (after_prefix (drop 2 s))
         else (case int_digits 10 True 0 s of
                 None \<Rightarrow> None
               | Some n \<Rightarrow> if take 1 s = ''0'' \<and> n \<noteq> 0 then None else Some n))
      else int_digits b True 0 s)"

text \<open>\<open>py_int b s\<close> is \<^verbatim>\<open>int(s, b)\<close>; \<^const>\<open>None\<close> is its \<^verbatim>\<open>ValueError\<close>.\<close>

definition py_int :: "int \<Rightarrow> string \<Rightarrow> int option" where
  [py_defs]: "py_int b s0 =
     (let s = strip_int s0 in
      case s of
        c # t \<Rightarrow>
          (if c = CHR ''-'' then map_option (\<lambda>n. - n) (unsigned_literal b t)
           else if c = CHR ''+'' then unsigned_literal b t
           else unsigned_literal b s)
      | [] \<Rightarrow> None)"

text \<open>\<^verbatim>\<open>str(n)\<close> and the formats \<^verbatim>\<open>{n:x}\<close> and \<^verbatim>\<open>{n:016x}\<close> (the sign counts towards the width).\<close>

definition digit_char :: "int \<Rightarrow> char" where
  [py_defs]: "digit_char d = (if d < 10 then char_of (48 + d) else char_of (87 + d))"

function digits_of :: "int \<Rightarrow> int \<Rightarrow> string" where
  "digits_of b n =
     (if b < 2 \<or> n < b then [digit_char n] else digits_of b (n div b) @ [digit_char (n mod b)])"
  by pat_completeness auto
termination
  by (relation "measure (\<lambda>(b, n). nat n)")
    (auto simp: int_div_less_self)

declare digits_of.simps [simp del, py_defs]

definition str_int :: "int \<Rightarrow> string" where
  [py_defs]: "str_int i = (if i < 0 then CHR ''-'' # digits_of 10 (- i) else digits_of 10 i)"

definition hex_int :: "int \<Rightarrow> string" where
  [py_defs]: "hex_int i = (if i < 0 then CHR ''-'' # digits_of 16 (- i) else digits_of 16 i)"

definition hex_int_pad :: "nat \<Rightarrow> int \<Rightarrow> string" where
  [py_defs]: "hex_int_pad w i =
     (let d = digits_of 16 \<bar>i\<bar>; sg = (if i < 0 then ''-'' else [])
      in sg @ replicate (w - length d - length sg) CHR ''0'' @ d)"

section \<open>Dictionaries\<close>

text \<open>\<^verbatim>\<open>d.setdefault(k, v)\<close> and \<^verbatim>\<open>d[k] += n\<close> on a \<^verbatim>\<open>Counter\<close>.\<close>

definition setdefault :: "'k \<Rightarrow> 'v \<Rightarrow> ('k \<times> 'v) list \<Rightarrow> ('k \<times> 'v) list" where
  [py_defs]: "setdefault k v d = (case map_of d k of None \<Rightarrow> AList.update k v d | Some _ \<Rightarrow> d)"

definition count_of :: "('k \<times> int) list \<Rightarrow> 'k \<Rightarrow> int" where
  [py_defs]: "count_of d k = (case map_of d k of None \<Rightarrow> 0 | Some n \<Rightarrow> n)"

definition bump :: "'k \<Rightarrow> int \<Rightarrow> ('k \<times> int) list \<Rightarrow> ('k \<times> int) list" where
  [py_defs]: "bump k n d = AList.update k (count_of d k + n) d"

abbreviation keys :: "('k \<times> 'v) list \<Rightarrow> 'k list" where
  "keys d \<equiv> map fst d"

lemma map_of_setdefault:
  "map_of (setdefault k v d) k' =
     (if k' = k \<and> map_of d k = None then Some v else map_of d k')"
  by (auto simp: setdefault_def update_conv' split: option.splits)

lemma count_of_bump [simp]: "count_of (bump k n d) k' = count_of d k' + (if k' = k then n else 0)"
  by (simp add: bump_def count_of_def update_conv' split: option.splits)

lemma update_fresh: "k \<notin> set (keys d) \<Longrightarrow> AList.update k v d = d @ [(k, v)]"
  by (induction d) auto

lemma distinct_setdefault: "distinct (keys d) \<Longrightarrow> distinct (keys (setdefault k v d))"
  by (auto simp: setdefault_def distinct_update split: option.splits)

lemma distinct_bump: "distinct (keys d) \<Longrightarrow> distinct (keys (bump k n d))"
  by (simp add: bump_def distinct_update)

lemma sum_count_update:
  assumes "distinct (keys d)"
  shows "sum_list (map snd (AList.update k m d)) = sum_list (map snd d) - count_of d k + m"
  using assms by (induction d) (auto simp: count_of_def split: option.splits)

lemma sum_count_bump:
  "distinct (keys d) \<Longrightarrow> sum_list (map snd (bump k n d)) = sum_list (map snd d) + n"
  by (simp add: bump_def sum_count_update)

section \<open>Lemmas on strings\<close>

lemma strip_Nil [simp]: "strip [] = []"
  by (simp add: strip_def lstrip_def rstrip_def)

lemma hd_lstrip: "lstrip s \<noteq> [] \<Longrightarrow> \<not> is_ws (hd (lstrip s))"
  by (simp add: lstrip_def hd_dropWhile)

lemma lstrip_rstrip_hd:
  assumes "rstrip s \<noteq> []"
  shows "hd (rstrip s) = hd s"
proof -
  have "rstrip s @ rev (takeWhile is_ws (rev s)) = s"
    unfolding rstrip_def by (metis rev_append rev_rev_ident takeWhile_dropWhile_id)
  then show ?thesis using assms by (metis hd_append2)
qed

lemma strip_ends:
  assumes "strip s \<noteq> []"
  shows "\<not> is_ws (hd (strip s))" and "\<not> is_ws (last (strip s))"
proof -
  have l: "rstrip (lstrip s) \<noteq> []" using assms by (simp add: strip_def)
  then have "lstrip s \<noteq> []" by (auto simp: rstrip_def)
  then show "\<not> is_ws (hd (strip s))"
    using hd_lstrip[of s] lstrip_rstrip_hd[OF l] by (simp add: strip_def)
  show "\<not> is_ws (last (strip s))"
    using l by (simp add: strip_def rstrip_def last_rev hd_dropWhile)
qed

lemma strip_fixpoint:
  assumes "s = [] \<or> (\<not> is_ws (hd s) \<and> \<not> is_ws (last s))"
  shows "strip s = s"
proof (cases "s = []")
  case False
  with assms have "lstrip s = s" by (cases s) (simp_all add: lstrip_def)
  moreover have "rstrip s = s"
    using False assms by (cases s rule: rev_cases) (simp_all add: rstrip_def)
  ultimately show ?thesis by (simp add: strip_def)
qed simp

lemma strip_idem [simp]: "strip (strip s) = strip s"
  using strip_fixpoint[of "strip s"] strip_ends[of s] by blast

lemma set_strip_subset: "set (strip s) \<subseteq> set s"
  by (auto simp: strip_def lstrip_def rstrip_def dest!: set_dropWhileD)

lemma set_split_char: "w \<in> set (split_char a s) \<Longrightarrow> a \<notin> set w"
  by (induction s arbitrary: w) (auto split: list.splits if_splits)

lemma split_char_nonempty [simp]: "split_char a s \<noteq> []"
  by (induction s) (auto split: list.splits)

lemma join_Cons: "ws \<noteq> [] \<Longrightarrow> join sep (w # ws) = w @ sep @ join sep ws"
  by (cases ws) simp_all

lemma join_split_char: "join [a] (split_char a s) = s"
proof (induction s)
  case (Cons c s)
  obtain w ws where "split_char a s = w # ws" by (cases "split_char a s") auto
  with Cons.IH show ?case by (cases ws) (auto simp: join_Cons)
qed simp

lemma split_char_join:
  assumes "ws \<noteq> []" and "\<And>w. w \<in> set ws \<Longrightarrow> a \<notin> set w"
  shows "split_char a (join [a] ws) = ws"
proof -
  have single: "split_char a w = [w]" if "a \<notin> set w" for w
    using that by (induction w) auto
  have app: "split_char a (w @ a # t) = w # split_char a t" if "a \<notin> set w" for w t
    using that by (induction w) auto
  show ?thesis using assms
  proof (induction ws)
    case (Cons w ws)
    then show ?case by (cases "ws = []") (simp_all add: single app join_Cons)
  qed simp
qed

lemma split1_Some: "split1 a s = Some (x, y) \<Longrightarrow> s = x @ a # y \<and> a \<notin> set x"
  by (induction s arbitrary: x) (auto split: if_splits)

lemma split1_None: "split1 a s = None \<longleftrightarrow> a \<notin> set s"
  by (induction s) auto

lemma startswith_iff: "startswith s p \<longleftrightarrow> (\<exists>t. s = p @ t)"
  by (auto simp: startswith_def) (metis append_take_drop_id)

lemma endswith_iff: "endswith s p \<longleftrightarrow> (\<exists>t. s = t @ p)"
  by (auto simp: endswith_def) (metis append_take_drop_id)

lemma contains_iff: "contains p s \<longleftrightarrow> (\<exists>x y. s = x @ p @ y)"
proof (induction s)
  case (Cons c s)
  have "(\<exists>x y. c # s = x @ p @ y) \<longleftrightarrow> (\<exists>y. c # s = p @ y) \<or> (\<exists>x y. s = x @ p @ y)"
    by (metis append_Cons append_Nil list.exhaust list.inject)
  with Cons.IH show ?case by (simp add: startswith_iff)
qed simp

lemma splitlines_aux_line:
  assumes "\<forall>c \<in> set w. \<not> is_break c"
  shows "splitlines_aux acc (w @ CHR 0x0A # rest) = (rev acc @ w) # splitlines_aux [] rest"
  using assms
proof (induction w arbitrary: acc)
  case Nil
  then show ?case by (simp add: is_break_def)
next
  case (Cons c w)
  then have "\<not> is_break c" "c \<noteq> CHR 0x0D" by (auto simp: is_break_def)
  with Cons show ?case by simp
qed

text \<open>Writing one line per entry and reading the lines back.\<close>

lemma splitlines_unlines:
  "\<forall>w \<in> set ws. \<forall>c \<in> set w. \<not> is_break c \<Longrightarrow>
   splitlines (concat (map (\<lambda>w. w @ ''\<newline>'') ws)) = ws"
  unfolding splitlines_def by (induction ws) (simp_all add: splitlines_aux_line)

lemma splitlines_aux_no_break:
  "\<forall>c \<in> set acc. \<not> is_break c \<Longrightarrow> w \<in> set (splitlines_aux acc s) \<Longrightarrow> c \<in> set w \<Longrightarrow> \<not> is_break c"
proof (induction acc s arbitrary: w c rule: splitlines_aux.induct)
  case (1 acc)
  then show ?case by (simp split: if_splits)
next
  case (2 acc d s)
  show ?case
  proof (cases "d = CHR 0x0D \<and> take 1 s = [CHR 0x0A]")
    case True
    then have "w = rev acc \<or> w \<in> set (splitlines_aux [] (tl s))" using 2(5) by simp
    then show ?thesis using 2(1)[OF True, of w c] 2(4,6) by auto
  next
    case no_pair: False
    show ?thesis
    proof (cases "is_break d")
      case True
      then have "w = rev acc \<or> w \<in> set (splitlines_aux [] s)" using 2(5) no_pair by (simp split: if_splits)
      then show ?thesis using 2(2)[OF no_pair True, of w c] 2(4,6) by auto
    next
      case False
      then have "w \<in> set (splitlines_aux (d # acc) s)" using 2(5) no_pair by (simp split: if_splits)
      then show ?thesis using 2(3)[OF no_pair False, of w c] 2(4,6) False by simp
    qed
  qed
qed

lemma splitlines_no_break: "w \<in> set (splitlines s) \<Longrightarrow> c \<in> set w \<Longrightarrow> \<not> is_break c"
  unfolding splitlines_def by (erule splitlines_aux_no_break[rotated]) simp_all

end
