(* ===== verification/PurePath.thy ===== *)
theory PurePath
  imports Prelude
begin

text \<open>
  \<^verbatim>\<open>pathlib.PurePosixPath\<close> as the tools use it: the root, the parts without empty and dot
  components, \<^verbatim>\<open>as_posix()\<close>, \<^verbatim>\<open>name\<close> and \<^verbatim>\<open>suffix\<close>, and the object-list readers that several
  tools share.  The predicate \<open>safe_object\<close> is the contract those readers promise; the locale
  \<open>object_normalizer\<close> states what a reader needs of its normalizer and proves the reader correct
  once for every instance.
\<close>

section \<open>PurePosixPath\<close>

definition path_root :: "string \<Rightarrow> string" where
  [py_defs]: "path_root s =
     (if \<not> startswith s ''/'' then []
      else if startswith s ''//'' \<and> \<not> startswith s ''///'' then ''//'' else ''/'')"

definition path_tail :: "string \<Rightarrow> string list" where
  [py_defs]: "path_tail s = filter (\<lambda>w. w \<noteq> [] \<and> w \<noteq> ''.'') (split_char CHR ''/'' s)"

definition path_parts :: "string \<Rightarrow> string list" where
  [py_defs]: "path_parts s = (if path_root s = [] then [] else [path_root s]) @ path_tail s"

definition is_absolute :: "string \<Rightarrow> bool" where
  [py_defs]: "is_absolute s = (path_root s \<noteq> [])"

definition as_posix :: "string \<Rightarrow> string" where
  [py_defs]: "as_posix s =
     (let t = path_root s @ join ''/'' (path_tail s) in if t = [] then ''.'' else t)"

definition path_name :: "string \<Rightarrow> string" where
  [py_defs]: "path_name s = (case path_tail s of [] \<Rightarrow> [] | _ \<Rightarrow> last (path_tail s))"

text \<open>\<^verbatim>\<open>p.suffix\<close>: from the last dot of the name, unless that dot is its first or last character.\<close>

definition path_suffix :: "string \<Rightarrow> string" where
  [py_defs]: "path_suffix s =
     (let n = path_name s; ext = takeWhile (\<lambda>c. c \<noteq> CHR ''.'') (rev n)
      in if length ext + 1 < length n \<and> ext \<noteq> [] then CHR ''.'' # rev ext else [])"

text \<open>\<^verbatim>\<open>p.parent\<close> joined with a file name, for a relative path.\<close>

definition path_sibling :: "string \<Rightarrow> string \<Rightarrow> string" where
  [py_defs]: "path_sibling s n = path_root s @ join ''/'' (butlast (path_tail s) @ [n])"

lemma is_absolute_iff: "is_absolute s \<longleftrightarrow> startswith s ''/''"
  by (simp add: is_absolute_def path_root_def)

lemma join_eq_Nil: "join sep ws = [] \<longleftrightarrow> ws = [] \<or> (\<exists>w. ws = [w] \<and> w = []) \<or>
    (sep = [] \<and> (\<forall>w \<in> set ws. w = []))"
  by (induction ws rule: induct_list012) auto

lemma hd_join: "ws \<noteq> [] \<Longrightarrow> hd ws \<noteq> [] \<Longrightarrow> hd (join sep ws) = hd (hd ws)"
  by (cases ws rule: remdups_adj.cases) auto

lemma set_join_subset: "set (join sep ws) \<subseteq> set sep \<union> (\<Union>w \<in> set ws. set w)"
  by (induction ws rule: induct_list012) auto

text \<open>A relative path printed by \<^verbatim>\<open>as_posix\<close> has exactly its own parts.\<close>

lemma path_tail_as_posix:
  assumes "path_root s = []" and "path_tail s \<noteq> []"
  shows "as_posix s = join ''/'' (path_tail s)"
    and "split_char CHR ''/'' (as_posix s) = path_tail s"
    and "path_root (as_posix s) = []"
    and "path_tail (as_posix s) = path_tail s"
proof -
  let ?t = "path_tail s"
  have parts: "w \<noteq> [] \<and> w \<noteq> ''.'' \<and> CHR ''/'' \<notin> set w" if "w \<in> set ?t" for w
    using that set_split_char[of w "CHR ''/''" s] by (simp add: path_tail_def)
  have ne: "join ''/'' ?t \<noteq> []" using assms(2) parts by (auto simp: join_eq_Nil)
  show eq: "as_posix s = join ''/'' ?t" using assms(1) ne by (simp add: as_posix_def)
  show sp: "split_char CHR ''/'' (as_posix s) = ?t"
    unfolding eq using assms(2) parts by (intro split_char_join) auto
  have "hd (join ''/'' ?t) = hd (hd ?t)" using assms(2) parts by (intro hd_join) auto
  moreover have "hd ?t \<noteq> []" "CHR ''/'' \<notin> set (hd ?t)" using parts assms(2) by auto
  ultimately have "hd (as_posix s) \<noteq> CHR ''/''"
    unfolding eq by (metis list.set_sel(1))
  then show "path_root (as_posix s) = []"
    by (cases "as_posix s") (auto simp: path_root_def startswith_def)
  show "path_tail (as_posix s) = ?t"
    unfolding path_tail_def[of "as_posix s"] sp using parts by (simp add: filter_id_conv)
qed

lemma path_tail_Nil_as_posix: "path_root s = [] \<Longrightarrow> path_tail s = [] \<Longrightarrow> as_posix s = ''.''"
  by (simp add: as_posix_def)

section \<open>Object lists\<close>

text \<open>
  What every reader of an object list promises of each entry: a relative path, already in
  normal form, that cannot leave its root and names an object file.
\<close>

definition safe_object :: "string \<Rightarrow> bool" where
  "safe_object v \<longleftrightarrow>
     \<not> is_absolute v \<and> CHR 0x5C \<notin> set v \<and> endswith v ''.o'' \<and>
     (\<forall>w \<in> set (split_char CHR ''/'' v). w \<noteq> [] \<and> w \<noteq> ''.'' \<and> w \<noteq> ''..'')"

lemma set_split_char_subset: "w \<in> set (split_char a s) \<Longrightarrow> set w \<subseteq> set s"
  by (induction s arbitrary: w) (fastforce split: list.splits if_splits)+

lemma set_as_posix:
  assumes "path_root s = []" and "path_tail s \<noteq> []"
  shows "set (as_posix s) \<subseteq> insert CHR ''/'' (set s)"
  unfolding path_tail_as_posix(1)[OF assms]
  using set_join_subset[of "''/''" "path_tail s"] set_split_char_subset[of _ "CHR ''/''" s]
  by (fastforce simp: path_tail_def)

lemma relative_safe_object:
  assumes "path_root s = []" and "path_tail s \<noteq> []" and "''..'' \<notin> set (path_tail s)"
    and "CHR 0x5C \<notin> set s" and "endswith (as_posix s) ''.o''"
  shows "safe_object (as_posix s)"
proof -
  have "CHR 0x5C \<notin> set (as_posix s)" using set_as_posix[OF assms(1,2)] assms(4) by auto
  moreover have "w \<noteq> [] \<and> w \<noteq> ''.'' \<and> w \<noteq> ''..''" if "w \<in> set (path_tail s)" for w
    using that assms(3) by (auto simp: path_tail_def)
  ultimately show ?thesis
    using path_tail_as_posix[OF assms(1,2)] assms(5)
    by (simp add: safe_object_def is_absolute_def)
qed

lemma safe_object_parts:
  assumes "safe_object v"
  shows "path_root v = []" "path_tail v = split_char CHR ''/'' v" "path_parts v = path_tail v"
    and "as_posix v = v" "v \<noteq> []" "last v = CHR ''o''"
proof -
  from assms obtain t where t: "v = t @ ''.o''" by (auto simp: safe_object_def endswith_iff)
  then show ne: "v \<noteq> []" and "last v = CHR ''o''" by simp_all
  show r: "path_root v = []" using assms by (simp add: safe_object_def is_absolute_def)
  show tl: "path_tail v = split_char CHR ''/'' v"
    using assms by (simp add: safe_object_def path_tail_def filter_id_conv)
  then show "path_parts v = path_tail v" using r by (simp add: path_parts_def)
  show "as_posix v = v" using r tl ne by (simp add: as_posix_def join_split_char)
qed

lemma path_tail_Nil_not_object: "path_root s = [] \<Longrightarrow> path_tail s = [] \<Longrightarrow> \<not> endswith (as_posix s) ''.o''"
  by (simp add: path_tail_Nil_as_posix endswith_def)

lemma set_replace_char: "a \<noteq> b \<Longrightarrow> a \<notin> set (replace_char a b s)"
  by (auto simp: replace_char_def)

lemma replace_char_id: "a \<notin> set s \<Longrightarrow> replace_char a b s = s"
  by (induction s) (auto simp: replace_char_def)

text \<open>
  The loop shared by \<^verbatim>\<open>load_objects\<close> and \<^verbatim>\<open>read_object_list\<close>: comments and blank lines are
  skipped, every other line is normalized and must be new.  The set \<^verbatim>\<open>seen\<close> of the source is
  the set of the entries of \<^verbatim>\<open>result\<close>.
\<close>

fun scan_objects ::
  "(string \<Rightarrow> 'e + string) \<Rightarrow> (nat \<Rightarrow> string \<Rightarrow> 'e) \<Rightarrow> nat \<Rightarrow> string list \<Rightarrow> string list \<Rightarrow>
   'e + string list" where
  "scan_objects norm dup lineno result [] = Inr result"
| "scan_objects norm dup lineno result (raw # rest) =
     (let line = strip raw in
      if line = [] \<or> startswith line ''#''
      then scan_objects norm dup (Suc lineno) result rest
      else bindE (norm line) (\<lambda>obj.
        if obj \<in> set result then Inl (dup lineno obj)
        else scan_objects norm dup (Suc lineno) (result @ [obj]) rest))"

text \<open>The lines that carry an entry.\<close>

definition entry_lines :: "string list \<Rightarrow> string list" where
  "entry_lines ls = filter (\<lambda>l. l \<noteq> [] \<and> \<not> startswith l ''#'') (map strip ls)"

lemma scan_objects_Inr:
  assumes "scan_objects norm dup n acc ls = Inr objs"
  shows "\<exists>new. objs = acc @ new \<and> mapE norm (entry_lines ls) = Inr new \<and>
           (distinct acc \<longrightarrow> distinct objs)"
  using assms
proof (induction ls arbitrary: n acc)
  case Nil
  then show ?case by (simp add: entry_lines_def)
next
  case (Cons raw rest)
  show ?case
  proof (cases "strip raw = [] \<or> startswith (strip raw) ''#''")
    case True
    with Cons show ?thesis by (auto simp: entry_lines_def Let_def)
  next
    case False
    with Cons.prems obtain obj where obj: "norm (strip raw) = Inr obj" "obj \<notin> set acc"
      "scan_objects norm dup (Suc n) (acc @ [obj]) rest = Inr objs"
      by (auto simp: Let_def bindE_Inr_iff split: if_splits)
    from Cons.IH[OF obj(3)] obtain new where
      "objs = (acc @ [obj]) @ new" "mapE norm (entry_lines rest) = Inr new"
      "distinct (acc @ [obj]) \<longrightarrow> distinct objs" by blast
    with False obj show ?thesis by (auto simp: entry_lines_def)
  qed
qed

locale object_normalizer =
  fixes norm :: "string \<Rightarrow> 'e + string"
    and dup :: "nat \<Rightarrow> string \<Rightarrow> 'e"
  assumes norm_safe: "norm raw = Inr v \<Longrightarrow> safe_object v"
    and norm_fixed: "safe_object v \<Longrightarrow> \<not> is_ws (hd v) \<Longrightarrow> norm v = Inr v"
begin

text \<open>A successful read yields distinct safe objects, one per entry line, in file order.\<close>

lemma scan_ok:
  assumes "scan_objects norm dup n [] ls = Inr objs"
  shows "distinct objs" and "\<forall>v \<in> set objs. safe_object v"
    and "mapE norm (entry_lines ls) = Inr objs"
proof -
  from scan_objects_Inr[OF assms] have *: "mapE norm (entry_lines ls) = Inr objs" "distinct objs"
    by auto
  then show "distinct objs" "mapE norm (entry_lines ls) = Inr objs" by auto
  show "\<forall>v \<in> set objs. safe_object v"
    using mapE_Inr_set[OF *(1)] norm_safe by blast
qed

text \<open>A list that already holds distinct, unindented safe objects is read back unchanged.\<close>

lemma scan_roundtrip:
  assumes "distinct (acc @ objs)" and "\<forall>v \<in> set objs. safe_object v \<and> \<not> is_ws (hd v) \<and> hd v \<noteq> CHR ''#''"
  shows "scan_objects norm dup n acc objs = Inr (acc @ objs)"
  using assms
proof (induction objs arbitrary: n acc)
  case (Cons v vs)
  then have v: "safe_object v" "\<not> is_ws (hd v)" "hd v \<noteq> CHR ''#''" by auto
  then obtain t where "v = t @ ''.o''" by (auto simp: safe_object_def endswith_iff)
  then have ne: "v \<noteq> []" and "last v = CHR ''o''" by simp_all
  then have st: "strip v = v" using v by (intro strip_fixpoint) (simp add: is_ws_def)
  have "\<not> startswith v ''#''" using v(3) ne by (cases v) (auto simp: startswith_def)
  with ne st v norm_fixed[of v] Cons show ?case by (simp add: Let_def)
qed simp

end

end
