(* ===== verification/PrefixBisect.thy ===== *)
theory PrefixBisect
  imports PurePath
begin

text \<open>
  \<^verbatim>\<open>tools/ci/linux-runtime-prefix-bisect-v1.py\<close>: planning of an ordered-prefix bisection over
  runtime objects.  The planner keeps no state of its own; every call reads the object list and
  all verdicts observed so far and says which prefix to probe next, that the evidence is
  non-monotonic, or which object is the first bad one.

  Shown here: the normalizer and the list reader meet the contract of safe object paths; the
  verdict parser accepts exactly consistent, in-range evidence; the planner reports
  non-monotonic evidence exactly when no threshold explains it; an isolated object is the true
  first bad one; a session against a decisive oracle ends within a logarithmic number of probes.
\<close>

section \<open>Object list\<close>

datatype bisect_error =
    EmptyObjectPath
  | UnsafeObjectPath string
  | NotObjectFile string
  | DuplicateObject nat string
  | EmptyObjectList
  | ObservationSyntax string
  | InvalidPrefix string
  | PrefixOutOfRange int
  | InvalidVerdict string
  | ConflictingVerdicts int string string
  | PrefixIndexError
  | FileError

definition VALID :: "string list" where
  [py_defs]: "VALID = [''PASS'', ''FAIL'', ''INCONCLUSIVE'']"

definition normalize_object_path :: "string \<Rightarrow> bisect_error + string" where
  [py_defs]: "normalize_object_path raw =
     (let value = replace_char CHR 0x5C CHR ''/'' (strip raw) in
      if value = [] then Inl EmptyObjectPath
      else if is_absolute value \<or>
        list_ex (\<lambda>part. part \<in> set [[], ''.'', ''..'']) (path_parts value)
      then Inl (UnsafeObjectPath raw)
      else let value' = as_posix value in
        if \<not> endswith value' ''.o'' then Inl (NotObjectFile raw) else Inr value')"

definition load_objects :: "string \<Rightarrow> bisect_error + string list" where
  [py_defs]: "load_objects text =
     bindE (scan_objects normalize_object_path DuplicateObject 1 [] (splitlines text))
       (\<lambda>result. if result = [] then Inl EmptyObjectList else Inr result)"

section \<open>Observations\<close>

definition observe1 :: "nat \<Rightarrow> (int \<times> string) list \<Rightarrow> string \<Rightarrow> bisect_error + (int \<times> string) list" where
  [py_defs]: "observe1 n out raw =
     (case split1 CHR ''='' raw of
        None \<Rightarrow> Inl (ObservationSyntax raw)
      | Some (prefix_text, verdict_text) \<Rightarrow>
          (case py_int 10 prefix_text of
             None \<Rightarrow> Inl (InvalidPrefix raw)
           | Some prefix \<Rightarrow>
               let verdict = upper (strip verdict_text) in
               if prefix < 0 \<or> prefix > int n then Inl (PrefixOutOfRange prefix)
               else if verdict \<notin> set VALID then Inl (InvalidVerdict verdict)
               else (case map_of out prefix of
                       Some previous \<Rightarrow>
                         if previous \<noteq> verdict
                         then Inl (ConflictingVerdicts prefix previous verdict)
                         else Inr (AList.update prefix verdict out)
                     | None \<Rightarrow> Inr (AList.update prefix verdict out))))"

definition parse_observations :: "string list \<Rightarrow> nat \<Rightarrow> bisect_error + (int \<times> string) list" where
  [py_defs]: "parse_observations values n = foldE (observe1 n) [] values"

section \<open>The planner\<close>

datatype plan_status = NON_MONOTONIC | RETRY | NEXT | ISOLATED

record plan_result =
  pr_status :: plan_status
  pr_object_count :: int
  pr_objects_sha256 :: string
  pr_observations :: "(int \<times> string) list"
  pr_max_pass :: "int option"
  pr_min_fail :: "int option"
  pr_first_bad_prefix :: "int option"
  pr_first_bad_index :: "int option"
  pr_first_bad_object :: "string option"
  pr_next_prefix :: "int option"
  pr_next_object :: "string option"
  pr_reason :: string

definition prefixes_with :: "string \<Rightarrow> (int \<times> string) list \<Rightarrow> int list" where
  [py_defs]: "prefixes_with v observations = sort (map fst (filter (\<lambda>(p, w). w = v) observations))"

definition max_pass_of :: "(int \<times> string) list \<Rightarrow> int option" where
  [py_defs]: "max_pass_of observations =
     (let passes = prefixes_with ''PASS'' observations
      in if passes \<noteq> [] then Some (Max (set passes)) else None)"

definition min_fail_of :: "(int \<times> string) list \<Rightarrow> int option" where
  [py_defs]: "min_fail_of observations =
     (let fails = prefixes_with ''FAIL'' observations
      in if fails \<noteq> [] then Some (Min (set fails)) else None)"

definition blank_result :: "string list \<Rightarrow> (int \<times> string) list \<Rightarrow> string \<Rightarrow> plan_result" where
  [py_defs]: "blank_result objects observations objects_sha =
     \<lparr> pr_status = NEXT, pr_object_count = int (length objects),
       pr_objects_sha256 = objects_sha,
       pr_observations = sort_key fst observations,
       pr_max_pass = max_pass_of observations, pr_min_fail = min_fail_of observations,
       pr_first_bad_prefix = None, pr_first_bad_index = None, pr_first_bad_object = None,
       pr_next_prefix = None, pr_next_object = None, pr_reason = [] \<rparr>"

text \<open>The tail of the planner: the prefix to probe and the object it ends with.\<close>

definition next_result ::
  "string list \<Rightarrow> (int \<times> string) list \<Rightarrow> string \<Rightarrow> plan_status \<Rightarrow> int \<Rightarrow> string \<Rightarrow>
   bisect_error + plan_result" where
  [py_defs]: "next_result objects observations objects_sha st next_prefix reason =
     (let base = blank_result objects observations objects_sha in
      bindE (if next_prefix > 0
             then bindE (of_option PrefixIndexError (py_get objects (next_prefix - 1))) (Inr \<circ> Some)
             else Inr None)
        (\<lambda>next_object. Inr (base\<lparr>pr_status := st, pr_next_prefix := Some next_prefix,
           pr_next_object := next_object, pr_reason := reason\<rparr>)))"

definition retry_or_next :: "(int \<times> string) list \<Rightarrow> int \<Rightarrow> plan_status" where
  [py_defs]: "retry_or_next observations p =
     (if map_of observations p = Some ''INCONCLUSIVE'' then RETRY else NEXT)"

definition plan ::
  "string list \<Rightarrow> (int \<times> string) list \<Rightarrow> string \<Rightarrow> bisect_error + plan_result" where
  [py_defs]: "plan objects observations objects_sha =
     (let n = int (length objects); base = blank_result objects observations objects_sha in
      case (max_pass_of observations, min_fail_of observations) of
        (None, _) \<Rightarrow>
          next_result objects observations objects_sha (retry_or_next observations 0) 0
            ''prove GCC baseline prefix 0''
      | (Some max_pass, None) \<Rightarrow>
          next_result objects observations objects_sha (retry_or_next observations n) n
            ''prove an all-candidate failing endpoint''
      | (Some max_pass, Some min_fail) \<Rightarrow>
          if max_pass \<ge> min_fail then
            Inr (base\<lparr>pr_status := NON_MONOTONIC,
              pr_reason := ''PASS/FAIL evidence violates ordered-prefix monotonicity''\<rparr>)
          else if min_fail = max_pass + 1 then
            bindE (of_option PrefixIndexError (py_get objects (min_fail - 1))) (\<lambda>bad.
              Inr (base\<lparr>pr_status := ISOLATED, pr_first_bad_prefix := Some min_fail,
                pr_first_bad_index := Some min_fail, pr_first_bad_object := Some bad\<rparr>))
          else
            let next_prefix = (max_pass + min_fail) div 2;
                st = retry_or_next observations next_prefix in
            next_result objects observations objects_sha st next_prefix
              (if st = RETRY then ''retry inconclusive midpoint'' else ''bisect bracket''))"

text \<open>
  \<^verbatim>\<open>main\<close>: the exit status and the result that is printed.  The file is the text it holds, \<^const>\<open>None\<close>
  when it cannot be read; \<open>json_out\<close> says whether \<^verbatim>\<open>--json-out\<close> is given and, if so, whether its directory and file can be written; the digest of the object list is a parameter.  Fields of the result that
  the source leaves out of its dictionary are \<^const>\<open>None\<close>.  An \<^verbatim>\<open>PrefixIndexError\<close> is not caught by \<^verbatim>\<open>main\<close>; status 1 stands for the traceback.
\<close>

definition bisect_main ::
  "(string \<Rightarrow> string) \<Rightarrow> string option \<Rightarrow> string list \<Rightarrow> bool option \<Rightarrow> int \<times> plan_result option" where
  [py_defs]: "bisect_main sha256 objects_file observe json_out =
     (case bindE (of_option FileError objects_file) (\<lambda>text.
             bindE (load_objects text) (\<lambda>objects.
               bindE (parse_observations observe (length objects)) (\<lambda>observations.
                 bindE (plan objects observations (sha256 text)) (\<lambda>result.
                   if json_out = Some False then Inl FileError else Inr result)))) of
        Inl e \<Rightarrow> (if e = PrefixIndexError then 1 else 2, None)
      | Inr result \<Rightarrow> (if pr_status result = NON_MONOTONIC then 3 else 0, Some result))"

section \<open>The normalizer meets the contract of safe objects\<close>

interpretation bisect_norm: object_normalizer normalize_object_path DuplicateObject
proof (unfold_locales, goal_cases)
  case (1 raw v)
  let ?s = "replace_char CHR 0x5C CHR ''/'' (strip raw)"
  from 1 have *: "path_root ?s = []" "''..'' \<notin> set (path_tail ?s)" "v = as_posix ?s"
    "endswith v ''.o''"
    by (auto simp: normalize_object_path_def Let_def is_absolute_def path_parts_def list_ex_iff
        split: if_splits)
  then have "path_tail ?s \<noteq> []" using path_tail_Nil_not_object by blast
  with * show ?case using relative_safe_object[of ?s] set_replace_char[of "CHR 0x5C" "CHR ''/''"]
    by simp
next
  case (2 v)
  note p = safe_object_parts[OF 2(1)]
  have "strip v = v" using p 2(2) by (intro strip_fixpoint) (simp add: is_ws_def)
  moreover have "replace_char CHR 0x5C CHR ''/'' v = v"
    using 2(1) by (intro replace_char_id) (simp add: safe_object_def)
  ultimately show ?case
    using p 2(1) by (auto simp: normalize_object_path_def is_absolute_def list_ex_iff safe_object_def)
qed

section \<open>Reading objects and observations\<close>

text \<open>
  A list that loads is non-empty, its entries are distinct safe relative object paths, and
  they are the normalized entry lines of the file in order.
\<close>

theorem load_objects_correct:
  assumes "load_objects text = Inr objs"
  shows "objs \<noteq> [] \<and> distinct objs \<and> (\<forall>v \<in> set objs. safe_object v) \<and>
    mapE normalize_object_path (entry_lines (splitlines text)) = Inr objs"
proof -
  from assms have "scan_objects normalize_object_path DuplicateObject 1 [] (splitlines text) = Inr objs"
    and "objs \<noteq> []"
    by (auto simp: load_objects_def bindE_Inr_iff split: if_splits)
  with bisect_norm.scan_ok show ?thesis by blast
qed

theorem load_objects_correct_witness:
  "load_objects ''# cohort\<newline>lib/a.o\<newline> ./mm/b.o \<newline>'' = Inr [''lib/a.o'', ''mm/b.o''] \<and>
   distinct [''lib/a.o'', ''mm/b.o'']"
proof -
  have "load_objects ''# cohort\<newline>lib/a.o\<newline> ./mm/b.o \<newline>'' = Inr [''lib/a.o'', ''mm/b.o'']"
    by code_simp
  with load_objects_correct[OF this] show ?thesis by simp
qed

text \<open>The keys of the parsed evidence are in range and every verdict is one of the three.\<close>

definition evidence_ok :: "nat \<Rightarrow> (int \<times> string) list \<Rightarrow> bool" where
  "evidence_ok n obs \<longleftrightarrow> distinct (keys obs) \<and>
     (\<forall>(p, v) \<in> set obs. 0 \<le> p \<and> p \<le> int n \<and> v \<in> set VALID)"

definition observation_of :: "string \<Rightarrow> (int \<times> string) option" where
  "observation_of raw =
     (case split1 CHR ''='' raw of
        None \<Rightarrow> None
      | Some (x, y) \<Rightarrow> map_option (\<lambda>p. (p, upper (strip y))) (py_int 10 x))"

lemma observe1_Inr:
  "observe1 n out raw = Inr out' \<longleftrightarrow>
     (\<exists>p v. observation_of raw = Some (p, v) \<and> 0 \<le> p \<and> p \<le> int n \<and> v \<in> set VALID \<and>
        map_of out p \<in> {None, Some v} \<and> out' = AList.update p v out)"
  unfolding observe1_def observation_of_def
  by (auto simp: Let_def split: option.splits prod.splits if_splits)

lemma evidence_ok_update:
  assumes "evidence_ok n obs" "0 \<le> p" "p \<le> int n" "v \<in> set VALID"
  shows "evidence_ok n (AList.update p v obs)"
proof -
  have "set (AList.update p v obs) \<subseteq> insert (p, v) (set obs)" by (induction obs) auto
  with assms show ?thesis by (auto simp: evidence_ok_def distinct_update)
qed

text \<open>
  Parsed evidence has one in-range prefix per key and a valid verdict for each, and it records
  every observation given on the command line: repeated observations agree.
\<close>

theorem parse_observations_correct:
  assumes "parse_observations values n = Inr obs"
  shows "evidence_ok n obs \<and>
    (\<forall>raw \<in> set values. \<exists>p v. observation_of raw = Some (p, v) \<and> map_of obs p = Some v) \<and>
    (\<forall>p v. map_of obs p = Some v \<longrightarrow> (\<exists>raw \<in> set values. observation_of raw = Some (p, v)))"
  using assms unfolding parse_observations_def
proof (rule foldE_prefix_invariant[where P = "\<lambda>vs obs. evidence_ok n obs \<and>
    (\<forall>raw \<in> set vs. \<exists>p v. observation_of raw = Some (p, v) \<and> map_of obs p = Some v) \<and>
    (\<forall>p v. map_of obs p = Some v \<longrightarrow> (\<exists>raw \<in> set vs. observation_of raw = Some (p, v)))"],
    goal_cases)
  case 1
  then show ?case by (simp add: evidence_ok_def)
next
  case (2 vs raw obs obs')
  then obtain p v where pv: "observation_of raw = Some (p, v)" "0 \<le> p" "p \<le> int n"
    "v \<in> set VALID" "map_of obs p \<in> {None, Some v}" "obs' = AList.update p v obs"
    by (auto simp: observe1_Inr)
  have ok: "evidence_ok n obs'" using 2 pv by (simp add: evidence_ok_update)
  have "map_of obs' q = (if q = p then Some v else map_of obs q)" for q
    by (simp add: pv(6) update_conv')
  then have new: "map_of obs' p = Some v" and old: "map_of obs q = Some u \<Longrightarrow> map_of obs' q = Some u"
    and inv: "map_of obs' q = Some u \<Longrightarrow> q = p \<and> u = v \<or> map_of obs q = Some u" for q u
    using pv(5) by (auto split: if_splits)
  have "\<exists>p v. observation_of r = Some (p, v) \<and> map_of obs' p = Some v" if "r \<in> set (vs @ [raw])" for r
    using that 2(1) pv(1) new old by (metis Un_iff empty_iff list.set insert_iff set_append)
  moreover have "\<exists>r \<in> set (vs @ [raw]). observation_of r = Some (q, u)" if "map_of obs' q = Some u" for q u
    using inv[OF that] 2(1) pv(1) by auto
  ultimately show ?case using ok by blast
qed

theorem parse_observations_correct_witness:
  "parse_observations [''0=pass'', '' 4 = FAIL'', ''0=PASS''] 4 = Inr [(0, ''PASS''), (4, ''FAIL'')] \<and>
   evidence_ok 4 [(0, ''PASS''), (4, ''FAIL'')]"
proof -
  have "parse_observations [''0=pass'', '' 4 = FAIL'', ''0=PASS''] 4 = Inr [(0, ''PASS''), (4, ''FAIL'')]"
    by code_simp
  with parse_observations_correct[OF this] show ?thesis by blast
qed

section \<open>Soundness of the planner\<close>

text \<open>\<open>explained obs k\<close>: a first bad prefix \<open>k\<close> accounts for all decisive evidence.\<close>

definition explained :: "(int \<times> string) list \<Rightarrow> int \<Rightarrow> bool" where
  "explained obs k \<longleftrightarrow>
     (\<forall>(p, v) \<in> set obs. (v = ''PASS'' \<longrightarrow> p < k) \<and> (v = ''FAIL'' \<longrightarrow> k \<le> p))"

lemma set_prefixes_with: "set (prefixes_with v obs) = {p. (p, v) \<in> set obs}"
  by (force simp: prefixes_with_def)

lemma max_pass_of_cases:
  "max_pass_of obs = None \<longleftrightarrow> (\<forall>p. (p, ''PASS'') \<notin> set obs)"
  "max_pass_of obs = Some m \<longleftrightarrow>
     (m, ''PASS'') \<in> set obs \<and> (\<forall>p. (p, ''PASS'') \<in> set obs \<longrightarrow> p \<le> m)"
proof -
  let ?P = "{p. (p, ''PASS'') \<in> set obs}"
  have fin: "finite ?P" by (rule finite_subset[of _ "fst ` set obs"]) force+
  have e: "(prefixes_with ''PASS'' obs = []) = (?P = {})"
    by (metis set_empty set_prefixes_with)
  have d: "max_pass_of obs = (if ?P \<noteq> {} then Some (Max ?P) else None)"
    by (simp add: max_pass_of_def Let_def e set_prefixes_with)
  show "max_pass_of obs = None \<longleftrightarrow> (\<forall>p. (p, ''PASS'') \<notin> set obs)" using d by auto
  show "max_pass_of obs = Some m \<longleftrightarrow>
     (m, ''PASS'') \<in> set obs \<and> (\<forall>p. (p, ''PASS'') \<in> set obs \<longrightarrow> p \<le> m)"
    using d fin Max_eq_iff[of ?P m] by auto
qed

lemma min_fail_of_cases:
  "min_fail_of obs = None \<longleftrightarrow> (\<forall>p. (p, ''FAIL'') \<notin> set obs)"
  "min_fail_of obs = Some m \<longleftrightarrow>
     (m, ''FAIL'') \<in> set obs \<and> (\<forall>p. (p, ''FAIL'') \<in> set obs \<longrightarrow> m \<le> p)"
proof -
  let ?P = "{p. (p, ''FAIL'') \<in> set obs}"
  have fin: "finite ?P" by (rule finite_subset[of _ "fst ` set obs"]) force+
  have e: "(prefixes_with ''FAIL'' obs = []) = (?P = {})"
    by (metis set_empty set_prefixes_with)
  have d: "min_fail_of obs = (if ?P \<noteq> {} then Some (Min ?P) else None)"
    by (simp add: min_fail_of_def Let_def e set_prefixes_with)
  show "min_fail_of obs = None \<longleftrightarrow> (\<forall>p. (p, ''FAIL'') \<notin> set obs)" using d by auto
  show "min_fail_of obs = Some m \<longleftrightarrow>
     (m, ''FAIL'') \<in> set obs \<and> (\<forall>p. (p, ''FAIL'') \<in> set obs \<longrightarrow> m \<le> p)"
    using d fin Min_eq_iff[of ?P m] by auto
qed

text \<open>Evidence is explained exactly by the thresholds strictly above \<^verbatim>\<open>max_pass\<close> and up to \<^verbatim>\<open>min_fail\<close>.\<close>

lemma explained_iff:
  "explained obs k \<longleftrightarrow>
     (\<forall>m. max_pass_of obs = Some m \<longrightarrow> m < k) \<and> (\<forall>m. min_fail_of obs = Some m \<longrightarrow> k \<le> m)"
proof -
  have "(\<forall>p. (p, ''PASS'') \<in> set obs \<longrightarrow> p < k) \<longleftrightarrow> (\<forall>m. max_pass_of obs = Some m \<longrightarrow> m < k)"
    by (cases "max_pass_of obs") (auto simp: max_pass_of_cases intro: le_less_trans)
  moreover have "(\<forall>p. (p, ''FAIL'') \<in> set obs \<longrightarrow> k \<le> p) \<longleftrightarrow> (\<forall>m. min_fail_of obs = Some m \<longrightarrow> k \<le> m)"
    by (cases "min_fail_of obs") (auto simp: min_fail_of_cases intro: order_trans)
  ultimately show ?thesis by (auto simp: explained_def)
qed

lemma blank_result_fields [simp]:
  "pr_max_pass (blank_result os obs sha) = max_pass_of obs"
  "pr_min_fail (blank_result os obs sha) = min_fail_of obs"
  "pr_next_prefix (blank_result os obs sha) = None"
  by (simp_all add: blank_result_def)

lemma next_result_Inr:
  "next_result os obs sha st p why = Inr r \<Longrightarrow>
     pr_status r = st \<and> pr_next_prefix r = Some p \<and> (p > 0 \<longrightarrow> pr_next_object r = py_get os (p - 1)) \<and>
     pr_first_bad_prefix r = None"
  by (auto simp: next_result_def Let_def bindE_Inr_iff of_option_Inr_iff blank_result_def
      split: if_splits)

lemma retry_or_next_neq [simp]:
  "retry_or_next obs p \<noteq> NON_MONOTONIC" "retry_or_next obs p \<noteq> ISOLATED"
  "NON_MONOTONIC \<noteq> retry_or_next obs p" "ISOLATED \<noteq> retry_or_next obs p"
  by (simp_all add: retry_or_next_def)

lemma plan_status_cases:
  assumes "plan os obs sha = Inr r"
  shows "pr_status r = NON_MONOTONIC \<longleftrightarrow>
      (\<exists>lo hi. max_pass_of obs = Some lo \<and> min_fail_of obs = Some hi \<and> hi \<le> lo)"
    and "pr_status r = ISOLATED \<longleftrightarrow>
      (\<exists>lo. max_pass_of obs = Some lo \<and> min_fail_of obs = Some (lo + 1))"
proof -
  have "(pr_status r = NON_MONOTONIC \<longleftrightarrow>
      (\<exists>lo hi. max_pass_of obs = Some lo \<and> min_fail_of obs = Some hi \<and> hi \<le> lo)) \<and>
    (pr_status r = ISOLATED \<longleftrightarrow>
      (\<exists>lo. max_pass_of obs = Some lo \<and> min_fail_of obs = Some (lo + 1)))"
    using assms
    by (cases "max_pass_of obs"; cases "min_fail_of obs")
      (auto simp: plan_def Let_def bindE_Inr_iff of_option_Inr_iff
        dest!: next_result_Inr split: if_splits)
  then show "pr_status r = NON_MONOTONIC \<longleftrightarrow>
      (\<exists>lo hi. max_pass_of obs = Some lo \<and> min_fail_of obs = Some hi \<and> hi \<le> lo)"
    and "pr_status r = ISOLATED \<longleftrightarrow>
      (\<exists>lo. max_pass_of obs = Some lo \<and> min_fail_of obs = Some (lo + 1))" by blast+
qed

text \<open>
  The planner reports NON_MONOTONIC exactly when no first bad prefix explains the PASS and
  FAIL verdicts it was given.
\<close>

theorem plan_non_monotonic_iff:
  assumes "plan objects obs sha = Inr r"
  shows "pr_status r = NON_MONOTONIC \<longleftrightarrow> \<not> (\<exists>k. explained obs k)"
proof -
  have "(\<exists>k. explained obs k) \<longleftrightarrow>
      \<not> (\<exists>lo hi. max_pass_of obs = Some lo \<and> min_fail_of obs = Some hi \<and> hi \<le> lo)"
  proof (cases "max_pass_of obs")
    case None
    then show ?thesis by (cases "min_fail_of obs") (auto simp: explained_iff)
  next
    case (Some lo)
    then show ?thesis
      by (cases "min_fail_of obs") (auto simp: explained_iff intro: exI[of _ "lo + 1"])
  qed
  then show ?thesis using plan_status_cases(1)[OF assms] by blast
qed

theorem plan_non_monotonic_iff_witness:
  "plan [''a/x.o'', ''a/y.o''] [(2, ''PASS''), (1, ''FAIL'')] [] =
     Inr ((blank_result [''a/x.o'', ''a/y.o''] [(2, ''PASS''), (1, ''FAIL'')] [])
        \<lparr>pr_status := NON_MONOTONIC,
         pr_reason := ''PASS/FAIL evidence violates ordered-prefix monotonicity''\<rparr>) \<and>
   \<not> (\<exists>k. explained [(2, ''PASS''), (1, ''FAIL'')] k)"
proof -
  have eq: "plan [''a/x.o'', ''a/y.o''] [(2, ''PASS''), (1, ''FAIL'')] [] =
     Inr ((blank_result [''a/x.o'', ''a/y.o''] [(2, ''PASS''), (1, ''FAIL'')] [])
        \<lparr>pr_status := NON_MONOTONIC,
         pr_reason := ''PASS/FAIL evidence violates ordered-prefix monotonicity''\<rparr>)"
    by (simp add: py_defs)
  from plan_non_monotonic_iff[OF eq] eq show ?thesis by simp
qed

text \<open>
  C1. When the planner isolates an object, the evidence determines the first bad prefix: it is the
  only threshold that explains all verdicts, it lies in the list, and the object named is the one
  that this prefix adds.
\<close>

theorem plan_isolated_sound:
  assumes "plan objects obs sha = Inr r" and "pr_status r = ISOLATED"
    and "evidence_ok (length objects) obs"
  shows "\<exists>k. pr_first_bad_prefix r = Some k \<and> (\<forall>k'. explained obs k' \<longleftrightarrow> k' = k) \<and>
     1 \<le> k \<and> k \<le> int (length objects) \<and> pr_first_bad_object r = Some (objects ! nat (k - 1))"
proof -
  from plan_status_cases(2)[OF assms(1)] assms(2) obtain lo where
    lo: "max_pass_of obs = Some lo" "min_fail_of obs = Some (lo + 1)" by blast
  with assms(1) have r: "pr_first_bad_prefix r = Some (lo + 1)"
    "pr_first_bad_object r = py_get objects lo"
    by (auto simp: plan_def Let_def bindE_Inr_iff of_option_Inr_iff split: if_splits)
  from lo have "(lo, ''PASS'') \<in> set obs" "(lo + 1, ''FAIL'') \<in> set obs"
    by (simp_all add: max_pass_of_cases min_fail_of_cases)
  with assms(3) have "0 \<le> lo" "lo + 1 \<le> int (length objects)"
    by (auto simp: evidence_ok_def)
  moreover have "explained obs k' \<longleftrightarrow> k' = lo + 1" for k' using lo by (auto simp: explained_iff)
  ultimately show ?thesis using r by (auto simp: py_get_in_range)
qed

theorem plan_isolated_sound_witness:
  "\<exists>r. plan [''a/x.o'', ''a/y.o''] [(1, ''PASS''), (2, ''FAIL'')] [] = Inr r \<and>
     pr_status r = ISOLATED \<and> pr_first_bad_prefix r = Some 2 \<and> pr_first_bad_object r = Some ''a/y.o''"
proof -
  let ?obs = "[(1, ''PASS''), (2, ''FAIL'')] :: (int \<times> string) list"
  obtain r where r: "plan [''a/x.o'', ''a/y.o''] ?obs [] = Inr r" "pr_status r = ISOLATED"
    "pr_first_bad_prefix r = Some 2"
    by (simp add: py_defs py_get_def)
  have "evidence_ok (length [''a/x.o'', ''a/y.o'']) ?obs" by (simp add: evidence_ok_def VALID_def)
  from plan_isolated_sound[OF r(1,2) this] r show ?thesis by auto
qed

text \<open>On evidence in range the planner answers, and the prefix it asks for is inside the bracket.\<close>

lemma plan_total:
  assumes "evidence_ok (length objects) obs"
  shows "\<exists>r. plan objects obs sha = Inr r \<and>
    (\<forall>p. pr_next_prefix r = Some p \<longrightarrow>
       0 \<le> p \<and> p \<le> int (length objects) \<and>
       (\<forall>lo hi. max_pass_of obs = Some lo \<longrightarrow> min_fail_of obs = Some hi \<longrightarrow> lo < p \<and> p < hi))"
proof -
  let ?n = "int (length objects)"
  have range: "0 \<le> p \<and> p \<le> ?n" if "(p, v) \<in> set obs" for p v
    using that assms by (auto simp: evidence_ok_def)
  have nr: "\<exists>r. next_result objects obs sha st p why = Inr r \<and> pr_next_prefix r = Some p"
    if "0 \<le> p" "p \<le> ?n" for st p why
    using that by (cases "p > 0") (auto simp: next_result_def Let_def py_get_in_range)
  consider "max_pass_of obs = None"
    | lo where "max_pass_of obs = Some lo" "min_fail_of obs = None"
    | lo hi where "max_pass_of obs = Some lo" "min_fail_of obs = Some hi" by (meson not_None_eq)
  then show ?thesis
  proof cases
    case 1
    then show ?thesis using nr[of 0 "retry_or_next obs 0"] by (fastforce simp: plan_def Let_def)
  next
    case 2
    then show ?thesis using nr[of ?n "retry_or_next obs ?n"] by (fastforce simp: plan_def Let_def)
  next
    case 3
    then have b: "0 \<le> lo" "hi \<le> ?n"
      using range by (auto simp: max_pass_of_cases min_fail_of_cases)
    show ?thesis
    proof (cases "lo + 1 < hi")
      case True
      then have "lo < (lo + hi) div 2" "(lo + hi) div 2 < hi" by arith+
      then show ?thesis using 3 True b nr[of "(lo + hi) div 2" "retry_or_next obs ((lo + hi) div 2)"]
        by (fastforce simp: plan_def Let_def)
    next
      case False
      then show ?thesis using 3 b by (auto simp: plan_def Let_def py_get_in_range)
    qed
  qed
qed

text \<open>
  On evidence in range the planner never raises, and a prefix it asks for lies in the list and,
  once both endpoints are known, it lies strictly inside the bracket and carries no decisive verdict
  yet.
\<close>

theorem plan_next_in_bracket:
  assumes "evidence_ok (length objects) obs"
  shows "\<exists>r. plan objects obs sha = Inr r \<and>
    (\<forall>p. pr_next_prefix r = Some p \<longrightarrow>
       0 \<le> p \<and> p \<le> int (length objects) \<and>
       (\<forall>lo hi. max_pass_of obs = Some lo \<longrightarrow> min_fail_of obs = Some hi \<longrightarrow>
          lo < p \<and> p < hi \<and> (p, ''PASS'') \<notin> set obs \<and> (p, ''FAIL'') \<notin> set obs))"
  using plan_total[OF assms, of sha] by (fastforce simp: max_pass_of_cases min_fail_of_cases)

theorem plan_next_in_bracket_witness:
  "evidence_ok (length [''a/x.o'', ''a/y.o'', ''a/z.o'']) [(0, ''PASS''), (3, ''FAIL'')] \<and>
   (\<exists>r. plan [''a/x.o'', ''a/y.o'', ''a/z.o''] [(0, ''PASS''), (3, ''FAIL'')] [] = Inr r \<and>
     pr_next_prefix r = Some 1)"
proof -
  have ok: "evidence_ok (length [''a/x.o'', ''a/y.o'', ''a/z.o'']) [(0, ''PASS''), (3, ''FAIL'')]"
    by (simp add: evidence_ok_def VALID_def)
  from plan_next_in_bracket[OF ok, of "[]"] show ?thesis
    using ok by (auto simp: py_defs py_get_def)
qed

section \<open>A whole bisection\<close>

text \<open>
  A session alternates the planner with runtime verdicts: each round probes the prefix the planner
  asks for and records the verdict.  The oracle is the runtime gate; \<open>threshold k\<close> is a gate that
  fails exactly from prefix \<open>k\<close> on.
\<close>

definition probe ::
  "string list \<Rightarrow> string \<Rightarrow> (int \<Rightarrow> string) \<Rightarrow> (int \<times> string) list \<Rightarrow> (int \<times> string) list" where
  "probe objects sha oracle obs =
     (case plan objects obs sha of
        Inl e \<Rightarrow> obs
      | Inr r \<Rightarrow> (case pr_next_prefix r of None \<Rightarrow> obs | Some p \<Rightarrow> AList.update p (oracle p) obs))"

definition threshold :: "int \<Rightarrow> int \<Rightarrow> string" where
  "threshold k p = (if p < k then ''PASS'' else ''FAIL'')"

text \<open>The bracket after a probe, with verdicts that all come from the threshold oracle.\<close>

definition bracket :: "nat \<Rightarrow> int \<Rightarrow> int \<Rightarrow> int \<Rightarrow> (int \<times> string) list \<Rightarrow> bool" where
  "bracket n k lo hi obs \<longleftrightarrow> evidence_ok n obs \<and> max_pass_of obs = Some lo \<and>
     min_fail_of obs = Some hi \<and> lo < k \<and> k \<le> hi"

lemma mem_update_distinct:
  "distinct (map fst obs) \<Longrightarrow>
   (q, u) \<in> set (AList.update p w obs) \<longleftrightarrow> (if q = p then u = w else (q, u) \<in> set obs)"
  by (induction obs) (auto simp: rev_image_eqI)

lemma plan_isolated_prefix:
  "plan objects obs sha = Inr r \<Longrightarrow> max_pass_of obs = Some lo \<Longrightarrow> min_fail_of obs = Some (lo + 1) \<Longrightarrow>
   pr_status r = ISOLATED \<and> pr_first_bad_prefix r = Some (lo + 1) \<and> pr_next_prefix r = None"
  by (auto simp: plan_def Let_def bindE_Inr_iff blank_result_def)

lemma probe_inside:
  assumes b: "bracket (length objects) k lo hi obs" and gap: "lo + 1 < hi"
  defines "p \<equiv> (lo + hi) div 2"
  shows "bracket (length objects) k (if p < k then p else lo) (if p < k then hi else p)
           (probe objects sha (threshold k) obs)"
proof -
  have mm: "max_pass_of obs = Some lo" "min_fail_of obs = Some hi" "lo < k" "k \<le> hi"
    and ev: "evidence_ok (length objects) obs" using b by (auto simp: bracket_def)
  have p: "lo < p" "p < hi" using gap by (auto simp: p_def)
  obtain r where r: "plan objects obs sha = Inr r"
    using plan_total[OF ev] by blast
  then have "pr_next_prefix r = Some p"
    using mm gap by (auto simp: plan_def Let_def p_def dest: next_result_Inr)
  with r have pr: "probe objects sha (threshold k) obs = AList.update p (threshold k p) obs"
    by (simp add: probe_def)
  have lohi: "(lo, ''PASS'') \<in> set obs" "(hi, ''FAIL'') \<in> set obs"
    using mm by (simp_all add: max_pass_of_cases min_fail_of_cases)
  then have "0 \<le> lo" "hi \<le> int (length objects)" using ev by (auto simp: evidence_ok_def)
  with p have "evidence_ok (length objects) (AList.update p (threshold k p) obs)"
    by (intro evidence_ok_update[OF ev]) (auto simp: threshold_def VALID_def)
  moreover have new: "(p, v) \<notin> set obs" if "v \<in> {''PASS'', ''FAIL''}" for v
    using that mm p by (auto simp: max_pass_of_cases min_fail_of_cases)
  have mem: "(q, u) \<in> set (AList.update p w obs) \<longleftrightarrow> (if q = p then u = w else (q, u) \<in> set obs)" for q u w
    using ev by (simp add: mem_update_distinct evidence_ok_def)
  have "max_pass_of (AList.update p (threshold k p) obs) = Some (if p < k then p else lo)"
    using mm(1) p lohi new by (auto simp: max_pass_of_cases mem threshold_def)
  moreover have "min_fail_of (AList.update p (threshold k p) obs) = Some (if p < k then hi else p)"
    using mm(2) p lohi new by (auto simp: min_fail_of_cases mem threshold_def)
  ultimately show ?thesis using mm(3,4) pr by (auto simp: bracket_def)
qed

lemma probe_isolated:
  assumes "bracket (length objects) k lo (lo + 1) obs"
  shows "probe objects sha (threshold k) obs = obs"
proof -
  from assms have ev: "evidence_ok (length objects) obs"
    and mm: "max_pass_of obs = Some lo" "min_fail_of obs = Some (lo + 1)"
    by (simp_all add: bracket_def)
  obtain r where r: "plan objects obs sha = Inr r" using plan_total[OF ev] by blast
  then show ?thesis using plan_isolated_prefix[OF r mm] by (simp add: probe_def)
qed

text \<open>Each probe halves the bracket, so \<open>m\<close> probes close a bracket of width at most \<open>2 ^ m\<close>.\<close>

lemma probes_close_bracket:
  "bracket (length objects) k lo hi obs \<Longrightarrow> hi - lo \<le> 2 ^ m \<Longrightarrow>
   \<exists>lo'. bracket (length objects) k lo' (lo' + 1) ((probe objects sha (threshold k) ^^ m) obs)"
proof (induction m arbitrary: lo hi obs)
  case 0
  then have "hi = lo + 1" by (auto simp: bracket_def)
  with 0 show ?case by auto
next
  case (Suc m)
  show ?case
  proof (cases "lo + 1 < hi")
    case False
    with Suc.prems have eq: "hi = lo + 1" by (auto simp: bracket_def)
    have "probe objects sha (threshold k) obs = obs" using probe_isolated Suc.prems(1) eq by blast
    moreover have "hi - lo \<le> 2 ^ m" using eq by simp
    ultimately show ?thesis
      using Suc.IH[OF Suc.prems(1)] by (simp only: funpow_Suc_right comp_apply)
  next
    case True
    let ?p = "(lo + hi) div 2"
    let ?lo = "if ?p < k then ?p else lo" and ?hi = "if ?p < k then hi else ?p"
    have "?hi - ?lo \<le> 2 ^ m" using Suc.prems(2) by auto
    with Suc.IH[OF probe_inside[OF Suc.prems(1) True, of sha]] show ?thesis
      by (simp only: funpow_Suc_right comp_apply)
  qed
qed

text \<open>
  C26. Against a runtime gate that fails exactly from prefix \<open>k\<close> on, a session started without any
  evidence over at most \<open>2 ^ m\<close> objects has isolated \<open>k\<close> after \<open>m + 2\<close> probes.
\<close>

theorem bisection_terminates:
  assumes "1 \<le> k" and "k \<le> int (length objects)" and "length objects \<le> 2 ^ m"
  shows "\<exists>r. plan objects ((probe objects sha (threshold k) ^^ (m + 2)) []) sha = Inr r \<and>
     pr_status r = ISOLATED \<and> pr_first_bad_prefix r = Some k"
proof -
  let ?n = "int (length objects)" and ?probe = "probe objects sha (threshold k)"
  have n: "objects \<noteq> []" "0 < ?n" using assms(1,2) by auto
  have one: "?probe [] = [(0, ''PASS'')]"
    using assms by (simp add: probe_def py_defs threshold_def)
  have "max_pass_of [(0, ''PASS'')] = Some 0" "min_fail_of [(0, ''PASS'')] = None"
    by (simp_all add: max_pass_of_cases min_fail_of_cases)
  then have two: "?probe [(0, ''PASS'')] = [(0, ''PASS''), (?n, ''FAIL'')]"
    using assms n
    by (simp add: probe_def plan_def next_result_def Let_def threshold_def py_get_in_range)
  have "bracket (length objects) k 0 ?n [(0, ''PASS''), (?n, ''FAIL'')]"
    using assms n by (simp add: bracket_def evidence_ok_def VALID_def max_pass_of_cases min_fail_of_cases)
  moreover have "?n - 0 \<le> 2 ^ m" using assms(3) by (metis diff_zero of_nat_le_iff of_nat_numeral of_nat_power)
  ultimately obtain lo where b: "bracket (length objects) k lo (lo + 1) ((?probe ^^ m) [(0, ''PASS''), (?n, ''FAIL'')])"
    using probes_close_bracket by blast
  have "(?probe ^^ (m + 2)) [] = (?probe ^^ m) [(0, ''PASS''), (?n, ''FAIL'')]" (is "?obs = _")
    by (simp only: funpow_add one two numeral_2_eq_2 funpow_Suc_right funpow_0 comp_apply)
  with b have b: "bracket (length objects) k lo (lo + 1) ?obs" by simp
  then have ev: "evidence_ok (length objects) ?obs" and k: "k = lo + 1"
    and mm: "max_pass_of ?obs = Some lo" "min_fail_of ?obs = Some (lo + 1)"
    by (auto simp: bracket_def)
  obtain r where r: "plan objects ?obs sha = Inr r" using plan_total[OF ev] by blast
  with plan_isolated_prefix[OF r mm] k show ?thesis by blast
qed

theorem bisection_terminates_witness:
  "\<exists>r. plan [''a/x.o'', ''a/y.o'', ''a/z.o'']
      ((probe [''a/x.o'', ''a/y.o'', ''a/z.o''] [] (threshold 2) ^^ 4) []) [] = Inr r \<and>
     pr_status r = ISOLATED \<and> pr_first_bad_prefix r = Some 2"
  using bisection_terminates[of 2 "[''a/x.o'', ''a/y.o'', ''a/z.o'']" 2 "[]"] by simp

lemma no_pass_update:
  assumes "max_pass_of obs = None" and "v \<noteq> ''PASS''"
  shows "max_pass_of (AList.update p v obs) = None"
proof -
  have none: "max_pass_of os = None \<longleftrightarrow> (\<forall>q. (q, ''PASS'') \<notin> set os)" for os
    using set_prefixes_with[of "''PASS''" os] by (auto simp: max_pass_of_def Let_def simp flip: set_empty)
  have "set (AList.update p v os) \<subseteq> insert (p, v) (set os)" for os :: "(int \<times> string) list"
    by (induction os) auto
  with assms show ?thesis unfolding none by blast
qed

lemma probe_without_pass:
  assumes "max_pass_of obs = None"
  shows "probe objects sha gate obs = AList.update 0 (gate 0) obs"
  using assms by (simp add: probe_def plan_def next_result_def Let_def)

text \<open>
  C40. A failing baseline is never resolved: a session that starts without a PASS against a gate that fails for prefix 0 asks for
  prefix 0 after every number of probes, with the status of a new question, although that prefix is recorded as FAIL.
\<close>

theorem failed_baseline_never_ends:
  assumes "max_pass_of obs = None" and "gate 0 = ''FAIL''"
  shows "\<exists>r. plan objects ((probe objects sha gate ^^ Suc n) obs) sha = Inr r \<and> pr_status r = NEXT \<and> pr_next_prefix r = Some 0 \<and>
     map_of ((probe objects sha gate ^^ Suc n) obs) 0 = Some ''FAIL''"
proof -
  have step: "max_pass_of ((probe objects sha gate ^^ k) obs) = None" for k
  proof (induction k)
    case (Suc k)
    then show ?case using assms(2) by (simp add: probe_without_pass no_pass_update)
  qed (simp add: assms(1))
  have known: "map_of ((probe objects sha gate ^^ Suc n) obs) 0 = Some ''FAIL''"
    using probe_without_pass[OF step[of n]] assms(2) by (simp add: update_conv')
  with step[of "Suc n"] show ?thesis
    by (simp add: plan_def next_result_def retry_or_next_def Let_def del: funpow.simps)
qed

theorem failed_baseline_never_ends_witness:
  "\<exists>r. plan [''a/x.o''] ((probe [''a/x.o''] [] (threshold 0) ^^ 100) []) [] = Inr r \<and> pr_status r = NEXT \<and> pr_next_prefix r = Some 0"
proof -
  have "max_pass_of [] = None" "threshold 0 0 = ''FAIL''" by (simp_all add: max_pass_of_cases threshold_def)
  with failed_baseline_never_ends[where obs = "[]" and gate = "threshold 0" and objects = "[''a/x.o'']" and sha = "[]" and n = 99] show ?thesis by (auto simp del: funpow.simps)
qed

end
