(* ===== verification/FileStore.thy ===== *)
theory FileStore
  imports PurePath "HOL-Library.Word"
begin

text \<open>
  The file store the tools work on, and programs over it.  A path is the list of its components
  from the root; a store maps paths to directories, regular files and symbolic links.  Programs
  are functions from a store to a store and a result, so that the store left behind by an
  exception is part of the model.  The operations are those of \<^verbatim>\<open>pathlib\<close>, \<^verbatim>\<open>os\<close>, \<^verbatim>\<open>shutil\<close> and
  \<^verbatim>\<open>tempfile\<close> that the tools call.  File modes, times and failures of the device are left out.
\<close>

section \<open>Programs with a store and exceptions\<close>

type_synonym ('s, 'e, 'a) prog = "'s \<Rightarrow> 's \<times> ('e + 'a)"

definition retP :: "'a \<Rightarrow> ('s, 'e, 'a) prog" where
  [py_defs]: "retP x = (\<lambda>s. (s, Inr x))"

definition failP :: "'e \<Rightarrow> ('s, 'e, 'a) prog" where
  [py_defs]: "failP e = (\<lambda>s. (s, Inl e))"

definition bindP :: "('s, 'e, 'a) prog \<Rightarrow> ('a \<Rightarrow> ('s, 'e, 'b) prog) \<Rightarrow> ('s, 'e, 'b) prog" where
  [py_defs]: "bindP m f = (\<lambda>s. case m s of (s', Inl e) \<Rightarrow> (s', Inl e) | (s', Inr x) \<Rightarrow> f x s')"

definition getP :: "('s, 'e, 's) prog" where
  [py_defs]: "getP = (\<lambda>s. (s, Inr s))"

text \<open>A computation that reads the store and may raise, and one that replaces it.\<close>

definition readP :: "('s \<Rightarrow> 'e + 'a) \<Rightarrow> ('s, 'e, 'a) prog" where
  [py_defs]: "readP f = (\<lambda>s. (s, f s))"

definition putP :: "('s \<Rightarrow> 'e + 's) \<Rightarrow> ('s, 'e, unit) prog" where
  [py_defs]: "putP f = (\<lambda>s. case f s of Inl e \<Rightarrow> (s, Inl e) | Inr s' \<Rightarrow> (s', Inr ()))"

text \<open>\<^verbatim>\<open>try: m finally: c\<close> with a clean-up that cannot raise.\<close>

definition finallyP :: "('s, 'e, 'a) prog \<Rightarrow> ('s \<Rightarrow> 's) \<Rightarrow> ('s, 'e, 'a) prog" where
  [py_defs]: "finallyP m c = (\<lambda>s. case m s of (s', r) \<Rightarrow> (c s', r))"

fun mapP :: "('a \<Rightarrow> ('s, 'e, 'b) prog) \<Rightarrow> 'a list \<Rightarrow> ('s, 'e, 'b list) prog" where
  "mapP f [] = retP []"
| "mapP f (x # xs) = bindP (f x) (\<lambda>y. bindP (mapP f xs) (\<lambda>ys. retP (y # ys)))"

text \<open>\<open>steps R m\<close>: the store after \<open>m\<close>, whatever its result, is related to the store before.\<close>

definition steps :: "('s \<Rightarrow> 's \<Rightarrow> bool) \<Rightarrow> ('s, 'e, 'a) prog \<Rightarrow> bool" where
  "steps R m \<longleftrightarrow> (\<forall>s. R s (fst (m s)))"

lemma steps_ret [simp]: "reflp R \<Longrightarrow> steps R (retP x)"
  by (simp add: steps_def retP_def reflpD)

lemma steps_fail [simp]: "reflp R \<Longrightarrow> steps R (failP e)"
  by (simp add: steps_def failP_def reflpD)

lemma steps_read [simp]: "reflp R \<Longrightarrow> steps R (readP f)"
  by (simp add: steps_def readP_def reflpD)

lemma steps_bind:
  assumes "transp R" "steps R m" "\<And>x. steps R (f x)"
  shows "steps R (bindP m f)"
proof -
  have "R s (fst (bindP m f s))" for s
  proof (cases "m s")
    case (Pair s' r)
    have a: "R s s'" using assms(2) Pair by (auto simp: steps_def dest: spec[of _ s])
    show ?thesis
    proof (cases r)
      case (Inl e)
      with a Pair show ?thesis by (simp add: bindP_def)
    next
      case (Inr x)
      have "R s' (fst (f x s'))" using assms(3) by (simp add: steps_def)
      with a assms(1) have "R s (fst (f x s'))" by (meson transpD)
      with Pair Inr show ?thesis by (simp add: bindP_def)
    qed
  qed
  then show ?thesis by (simp add: steps_def)
qed

lemma steps_map:
  assumes "reflp R" "transp R" "\<And>x. x \<in> set xs \<Longrightarrow> steps R (f x)"
  shows "steps R (mapP f xs)"
  using assms(3) by (induction xs) (auto intro!: steps_bind assms(1,2) simp: assms(1))

lemma bindP_Inr:
  "bindP m f s = (t, Inr y) \<longleftrightarrow> (\<exists>s' x. m s = (s', Inr x) \<and> f x s' = (t, Inr y))"
  by (auto simp: bindP_def split: prod.splits sum.splits)

lemma readP_Inr [simp]: "readP f s = (t, Inr x) \<longleftrightarrow> t = s \<and> f s = Inr x"
  by (auto simp: readP_def)

lemma retP_Inr [simp]: "retP x s = (t, Inr y) \<longleftrightarrow> t = s \<and> y = x"
  by (auto simp: retP_def)

lemma putP_Inr [simp]: "putP f s = (t, Inr u) \<longleftrightarrow> f s = Inr t"
  by (auto simp: putP_def split: sum.splits)

lemma bindP_readP: "bindP (readP g) f s = (case g s of Inl e \<Rightarrow> (s, Inl e) | Inr x \<Rightarrow> f x s)"
  by (simp add: bindP_def readP_def split: sum.splits)

lemma bindP_putP: "bindP (putP g) f s = (case g s of Inl e \<Rightarrow> (s, Inl e) | Inr t \<Rightarrow> f () t)"
  by (simp add: bindP_def putP_def split: sum.splits)

section \<open>The store\<close>

type_synonym path = "string list"
type_synonym byte = "8 word"

datatype node = DirN | FileN "byte list" | LinkN bool "string list"

type_synonym fs = "path \<Rightarrow> node option"

definition node_at :: "fs \<Rightarrow> path \<Rightarrow> node option" where
  [py_defs]: "node_at fs p = (if p = [] then Some DirN else fs p)"

text \<open>
  Path resolution.  The strict variant is the lookup of the operating system: every prefix must be
  a directory and the path must exist.  The other is \<^verbatim>\<open>Path.resolve(strict=False)\<close>.  At most \<open>n\<close>
  symbolic links are followed; the callers use the limit of the operating system.
\<close>

function resolve_from :: "bool \<Rightarrow> nat \<Rightarrow> fs \<Rightarrow> path \<Rightarrow> string list \<Rightarrow> path option" where
  "resolve_from strict n fs acc [] =
     (if strict \<and> node_at fs acc = None then None else Some acc)"
| "resolve_from strict n fs acc (c # rest) =
     (if strict \<and> node_at fs acc \<noteq> Some DirN then None
      else if c = ''..'' then resolve_from strict n fs (butlast acc) rest
      else (case node_at fs (acc @ [c]) of
              Some (LinkN absolute target) \<Rightarrow>
                (case n of 0 \<Rightarrow> None
                 | Suc m \<Rightarrow> resolve_from strict m fs (if absolute then [] else acc) (target @ rest))
            | _ \<Rightarrow> resolve_from strict n fs (acc @ [c]) rest))"
  by pat_completeness auto
termination
  by (relation "measures [\<lambda>(strict, n, fs, acc, rest). n, \<lambda>(strict, n, fs, acc, rest). length rest]") auto

declare resolve_from.simps [py_defs]

definition link_limit :: nat where
  [py_defs]: "link_limit = 40"

definition resolve :: "fs \<Rightarrow> path \<Rightarrow> path option" where
  [py_defs]: "resolve fs p = resolve_from False link_limit fs [] p"

definition locate :: "fs \<Rightarrow> path \<Rightarrow> path option" where
  [py_defs]: "locate fs p = resolve_from True link_limit fs [] p"

definition stat :: "fs \<Rightarrow> path \<Rightarrow> node option" where
  [py_defs]: "stat fs p = (case locate fs p of None \<Rightarrow> None | Some q \<Rightarrow> node_at fs q)"

text \<open>The directory entry that a path names: its directory is resolved, its last component is not.\<close>

definition entry :: "fs \<Rightarrow> path \<Rightarrow> path option" where
  [py_defs]: "entry fs p =
     (if p = [] then Some []
      else case locate fs (butlast p) of
             None \<Rightarrow> None
           | Some d \<Rightarrow> if node_at fs d = Some DirN then Some (d @ [last p]) else None)"

definition lstat :: "fs \<Rightarrow> path \<Rightarrow> node option" where
  [py_defs]: "lstat fs p = (case entry fs p of None \<Rightarrow> None | Some q \<Rightarrow> node_at fs q)"

definition is_dir :: "fs \<Rightarrow> path \<Rightarrow> bool" where
  [py_defs]: "is_dir fs p = (stat fs p = Some DirN)"

definition is_file :: "fs \<Rightarrow> path \<Rightarrow> bool" where
  [py_defs]: "is_file fs p = (case stat fs p of Some (FileN b) \<Rightarrow> True | _ \<Rightarrow> False)"

definition path_exists :: "fs \<Rightarrow> path \<Rightarrow> bool" where
  [py_defs]: "path_exists fs p = (stat fs p \<noteq> None)"

definition is_symlink :: "fs \<Rightarrow> path \<Rightarrow> bool" where
  [py_defs]: "is_symlink fs p = (case lstat fs p of Some (LinkN a t) \<Rightarrow> True | _ \<Rightarrow> False)"

definition read_bytes :: "fs \<Rightarrow> path \<Rightarrow> byte list option" where
  [py_defs]: "read_bytes fs p = (case stat fs p of Some (FileN b) \<Rightarrow> Some b | _ \<Rightarrow> None)"

text \<open>Opening for writing follows links; replacing a name does not.\<close>

text \<open>
  Where opening a path for writing creates a file when there is none: a link as the last component, which
  then dangles, is followed.
\<close>

primrec create_at :: "nat \<Rightarrow> fs \<Rightarrow> path \<Rightarrow> path option" where
  "create_at 0 fs p = None"
| "create_at (Suc n) fs p =
     (case entry fs p of
        None \<Rightarrow> None
      | Some q \<Rightarrow> (case node_at fs q of
                    Some (LinkN absolute target) \<Rightarrow> create_at n fs (if absolute then target else butlast q @ target)
                  | _ \<Rightarrow> Some q))"

declare create_at.simps [py_defs]

definition write_bytes :: "byte list \<Rightarrow> path \<Rightarrow> fs \<Rightarrow> fs option" where
  [py_defs]: "write_bytes b p fs =
     (case locate fs p of
        Some q \<Rightarrow> (case node_at fs q of Some (FileN _) \<Rightarrow> Some (fs(q \<mapsto> FileN b)) | _ \<Rightarrow> None)
      | None \<Rightarrow> (case create_at (Suc link_limit) fs p of
                   Some q \<Rightarrow> if node_at fs q = None then Some (fs(q \<mapsto> FileN b)) else None
                 | None \<Rightarrow> None))"

definition replace_path :: "path \<Rightarrow> path \<Rightarrow> fs \<Rightarrow> fs option" where
  [py_defs]: "replace_path src dst fs =
     (case (entry fs src, entry fs dst) of
        (Some p, Some q) \<Rightarrow>
          (case (node_at fs p, node_at fs q) of
             (Some (FileN b), Some DirN) \<Rightarrow> None
           | (Some (FileN b), _) \<Rightarrow> Some ((fs(p := None))(q \<mapsto> FileN b))
           | _ \<Rightarrow> None)
      | _ \<Rightarrow> None)"

definition unlink_missing_ok :: "path \<Rightarrow> fs \<Rightarrow> fs" where
  [py_defs]: "unlink_missing_ok p fs =
     (case entry fs p of Some q \<Rightarrow> if q \<noteq> [] then fs(q := None) else fs | None \<Rightarrow> fs)"

text \<open>\<^verbatim>\<open>p.mkdir(parents=True, exist_ok=True)\<close>\<close>

function mkdir_parents :: "path \<Rightarrow> fs \<Rightarrow> fs option" where
  "mkdir_parents p fs =
     (if is_dir fs p then Some fs
      else if p = [] \<or> lstat fs p \<noteq> None then None
      else (case mkdir_parents (butlast p) fs of
              None \<Rightarrow> None
            | Some fs' \<Rightarrow>
                (case entry fs' p of
                   None \<Rightarrow> None
                 | Some q \<Rightarrow> if node_at fs' q = None then Some (fs'(q \<mapsto> DirN))
                             else if is_dir fs' p then Some fs' else None)))"
  by pat_completeness auto
termination
  by (relation "measure (\<lambda>(p, fs). length p)") auto

declare mkdir_parents.simps [simp del, py_defs]

text \<open>
  \<^verbatim>\<open>tempfile.mkstemp\<close>: the first candidate name that does not exist yet.  The random names the
  library tries are the argument \<open>names\<close>.
\<close>

fun mkstemp :: "path \<Rightarrow> string list \<Rightarrow> fs \<Rightarrow> (path \<times> fs) option" where
  "mkstemp dir [] fs = None"
| "mkstemp dir (n # ns) fs =
     (case entry fs (dir @ [n]) of
        None \<Rightarrow> None
      | Some q \<Rightarrow> if node_at fs q = None then Some (dir @ [n], fs(q \<mapsto> FileN []))
                  else mkstemp dir ns fs)"

section \<open>Text and binary fields\<close>

text \<open>
  \<^verbatim>\<open>read_text(encoding="utf-8")\<close> for code points below 256; a text outside that range, like one
  that is not UTF-8, is not decoded.
\<close>

fun decode_utf8 :: "byte list \<Rightarrow> string option" where
  "decode_utf8 [] = Some []"
| "decode_utf8 (b # bs) =
     (if unat b < 128 then map_option (\<lambda>s. char_of (unat b) # s) (decode_utf8 bs)
      else if b = 0xC2 \<or> b = 0xC3 then
        (case bs of
           [] \<Rightarrow> None
         | c # cs \<Rightarrow>
             if 128 \<le> unat c \<and> unat c < 192
             then map_option (\<lambda>s. char_of (64 * (unat b - 192) + (unat c - 128)) # s) (decode_utf8 cs)
             else None)
      else None)"

text \<open>\<^verbatim>\<open>s.encode()\<close>\<close>

definition encode_char :: "char \<Rightarrow> byte list" where
  [py_defs]: "encode_char c = (let n = (of_char c :: nat) in
     if n < 128 then [of_nat n] else [of_nat (192 + n div 64), of_nat (128 + n mod 64)])"

definition encode_utf8 :: "string \<Rightarrow> byte list" where
  [py_defs]: "encode_utf8 s = concat (map encode_char s)"

text \<open>\<^verbatim>\<open>struct.unpack_from\<close> with format \<^verbatim>\<open>H\<close>: two bytes in the given byte order.\<close>

definition unpack_half :: "bool \<Rightarrow> byte list \<Rightarrow> nat \<Rightarrow> nat" where
  [py_defs]: "unpack_half little b i =
     (if little then unat (b ! i) + 256 * unat (b ! Suc i)
      else 256 * unat (b ! i) + unat (b ! Suc i))"

section \<open>Well-formed stores\<close>

text \<open>Every entry sits in a directory.\<close>

definition fs_wf :: "fs \<Rightarrow> bool" where
  "fs_wf fs \<longleftrightarrow> (\<forall>p c. fs (p @ [c]) \<noteq> None \<longrightarrow> node_at fs p = Some DirN)"

definition under :: "path \<Rightarrow> path \<Rightarrow> bool" where
  [py_defs]: "under W p \<longleftrightarrow> take (length W) p = W"

text \<open>A path free of links and of parent references all of whose prefixes are directories.\<close>

definition real_dir :: "fs \<Rightarrow> path \<Rightarrow> bool" where
  "real_dir fs W \<longleftrightarrow> ''..'' \<notin> set W \<and> (\<forall>k. node_at fs (take k W) = Some DirN)"

lemma under_iff: "under W p \<longleftrightarrow> (\<exists>r. p = W @ r)"
  by (auto simp: under_def) (metis append_take_drop_id)

lemma under_snoc: "under W p \<Longrightarrow> under W (p @ [c])"
  by (auto simp: under_iff)

lemma node_at_snoc [simp]: "node_at fs (p @ [c]) = fs (p @ [c])"
  by (simp add: node_at_def)

lemma fs_wf_missing: "fs_wf fs \<Longrightarrow> node_at fs p \<noteq> Some DirN \<Longrightarrow> fs (p @ [c]) = None"
  unfolding fs_wf_def by blast

lemma fs_wf_prefix:
  assumes "fs_wf fs" "node_at fs (p @ q) \<noteq> None" "q \<noteq> []"
  shows "node_at fs p = Some DirN"
  using assms(2,3)
proof (induction q rule: rev_induct)
  case (snoc c q)
  then have "fs ((p @ q) @ [c]) \<noteq> None" using node_at_snoc[of fs "p @ q" c] by simp
  then have "node_at fs (p @ q) = Some DirN" using assms(1) unfolding fs_wf_def by blast
  with snoc.IH show ?case by (cases "q = []") auto
qed simp

lemma resolve_missing:
  assumes "fs_wf fs" "node_at fs acc = None" "''..'' \<notin> set rest"
  shows "resolve_from False n fs acc rest = Some (acc @ rest)"
  using assms(2,3)
proof (induction rest arbitrary: acc)
  case (Cons c rest)
  from Cons.prems fs_wf_missing[OF assms(1), of acc c] have "fs (acc @ [c]) = None" by simp
  with Cons show ?case by auto
qed simp

text \<open>One step of the resolution, by the kind of the next component.\<close>

lemma resolve_step:
  assumes "strict \<Longrightarrow> node_at fs acc = Some DirN"
  shows "c = ''..'' \<Longrightarrow> resolve_from strict n fs acc (c # xs) = resolve_from strict n fs (butlast acc) xs"
    and "c \<noteq> ''..'' \<Longrightarrow> fs (acc @ [c]) = Some (LinkN a t) \<Longrightarrow>
      resolve_from strict n fs acc (c # xs) =
        (case n of 0 \<Rightarrow> None | Suc m \<Rightarrow> resolve_from strict m fs (if a then [] else acc) (t @ xs))"
    and "c \<noteq> ''..'' \<Longrightarrow> \<forall>a t. fs (acc @ [c]) \<noteq> Some (LinkN a t) \<Longrightarrow>
      resolve_from strict n fs acc (c # xs) = resolve_from strict n fs (acc @ [c]) xs"
  using assms by (auto split: option.splits node.splits)

declare resolve_from.simps(2) [simp del]

lemma resolve_lax:
  "c = ''..'' \<Longrightarrow> resolve_from False n fs acc (c # xs) = resolve_from False n fs (butlast acc) xs"
  "c \<noteq> ''..'' \<Longrightarrow> fs (acc @ [c]) = Some (LinkN a t) \<Longrightarrow>
      resolve_from False n fs acc (c # xs) =
        (case n of 0 \<Rightarrow> None | Suc m \<Rightarrow> resolve_from False m fs (if a then [] else acc) (t @ xs))"
  "c \<noteq> ''..'' \<Longrightarrow> \<forall>a t. fs (acc @ [c]) \<noteq> Some (LinkN a t) \<Longrightarrow>
      resolve_from False n fs acc (c # xs) = resolve_from False n fs (acc @ [c]) xs"
  by (rule resolve_step; simp)+

lemma resolve_strict_Cons: "resolve_from True n fs acc (c # xs) = Some q \<Longrightarrow> node_at fs acc = Some DirN"
  by (auto simp: resolve_from.simps(2) split: if_splits)

lemma resolve_append:
  "resolve_from strict n fs acc (xs @ ys) = Some q \<Longrightarrow>
   \<exists>d m. m \<le> n \<and> resolve_from False n fs acc xs = Some d \<and> resolve_from strict m fs d ys = Some q"
proof (induction n arbitrary: acc xs rule: less_induct)
  case (less n)
  from less.prems show ?case
  proof (induction xs arbitrary: acc)
    case Nil
    then show ?case by auto
  next
    case (Cons c xs)
    have ns: "node_at fs acc = Some DirN" if strict
      using that Cons.prems resolve_strict_Cons by auto
    note st = resolve_step[OF ns, where c = c]
    consider "c = ''..''" | a t where "c \<noteq> ''..''" "fs (acc @ [c]) = Some (LinkN a t)"
      | "c \<noteq> ''..''" "\<forall>a t. fs (acc @ [c]) \<noteq> Some (LinkN a t)" by blast
    then show ?case
    proof cases
      case 1
      with Cons.prems st(1) have "resolve_from strict n fs (butlast acc) (xs @ ys) = Some q" by simp
      with Cons.IH 1 resolve_lax(1) show ?thesis by simp
    next
      case 2
      with Cons.prems obtain m where m: "n = Suc m"
        "resolve_from strict m fs (if a then [] else acc) ((t @ xs) @ ys) = Some q"
        by (cases n) (simp_all add: st)
      with less.IH[of m "if a then [] else acc" "t @ xs"] obtain d k where
        "k \<le> m" "resolve_from False m fs (if a then [] else acc) (t @ xs) = Some d"
        "resolve_from strict k fs d ys = Some q" by auto
      with resolve_lax(2)[where fs = fs and acc = acc, OF 2] m(1) show ?thesis by (intro exI[of _ d] exI[of _ k]) auto
    next
      case 3
      with Cons.prems st(3) have "resolve_from strict n fs (acc @ [c]) (xs @ ys) = Some q" by simp
      with Cons.IH obtain d m where "m \<le> n" "resolve_from False n fs (acc @ [c]) xs = Some d"
        "resolve_from strict m fs d ys = Some q" by blast
      with resolve_lax(3)[where fs = fs and acc = acc, OF 3] show ?thesis by auto
    qed
  qed
qed

lemma resolve_strict_lax: "resolve_from strict n fs acc xs = Some q \<Longrightarrow> resolve_from False n fs acc xs = Some q"
  using resolve_append[of strict n fs acc xs "[]" q] by (auto split: if_splits)

lemma resolve_strict_exists: "resolve_from True n fs acc xs = Some q \<Longrightarrow> node_at fs q \<noteq> None"
  using resolve_append[of True n fs acc xs "[]" q] by (auto split: if_splits)

text \<open>Resolution sees directories and links only.\<close>

definition same_tree :: "fs \<Rightarrow> fs \<Rightarrow> bool" where
  "same_tree s t \<longleftrightarrow>
     (\<forall>x. s x = Some DirN \<or> (\<exists>a l. s x = Some (LinkN a l)) \<longrightarrow> t x = s x)"

lemma same_tree_refl [simp]: "same_tree s s"
  by (simp add: same_tree_def)

lemma same_tree_trans: "same_tree s t \<Longrightarrow> same_tree t u \<Longrightarrow> same_tree s u"
  by (metis same_tree_def)

lemma same_tree_dir: "same_tree s t \<Longrightarrow> node_at s x = Some DirN \<Longrightarrow> node_at t x = Some DirN"
  by (auto simp: same_tree_def node_at_def split: if_splits)

lemma resolve_stable:
  assumes "same_tree s t"
  shows "resolve_from True n s acc xs = Some d \<Longrightarrow> node_at s d = Some DirN \<Longrightarrow>
    resolve_from True n t acc xs = Some d"
proof (induction n arbitrary: acc xs rule: less_induct)
  case (less n)
  from less.prems show ?case
  proof (induction xs arbitrary: acc)
    case Nil
    then show ?case using same_tree_dir[OF assms] by (auto split: if_splits)
  next
    case (Cons c xs)
    have sd: "node_at s acc = Some DirN" using Cons.prems resolve_strict_Cons by blast
    then have td: "node_at t acc = Some DirN" using same_tree_dir[OF assms] by blast
    note ss = resolve_step[where strict = True, OF sd, where c = c]
      and ts = resolve_step[where strict = True, OF td, where c = c]
    consider "c = ''..''" | a l where "c \<noteq> ''..''" "s (acc @ [c]) = Some (LinkN a l)"
      | "c \<noteq> ''..''" "\<forall>a l. s (acc @ [c]) \<noteq> Some (LinkN a l)" by blast
    then show ?case
    proof cases
      case 1
      with Cons ss(1) ts(1) show ?thesis by simp
    next
      case 2
      then have "t (acc @ [c]) = Some (LinkN a l)" using assms by (auto simp: same_tree_def)
      with 2 Cons.prems less.IH show ?thesis by (auto simp: ss ts split: nat.splits)
    next
      case 3
      with Cons.prems ss(3) have r: "resolve_from True n s (acc @ [c]) xs = Some d" by simp
      have "node_at s (acc @ [c]) = Some DirN"
      proof (cases xs)
        case Nil
        with r Cons.prems show ?thesis by (auto split: if_splits)
      next
        case (Cons y ys)
        with r show ?thesis using resolve_strict_Cons by blast
      qed
      then have "node_at t (acc @ [c]) = Some DirN" using same_tree_dir[OF assms] by blast
      with Cons.IH[OF r] Cons.prems(2) ts(3) 3(1) show ?thesis by simp
    qed
  qed
qed

text \<open>Adding directories where nothing was does not change where a path points.\<close>

definition adds_dirs :: "fs \<Rightarrow> fs \<Rightarrow> bool" where
  "adds_dirs s t \<longleftrightarrow> (\<forall>x. t x = s x \<or> s x = None \<and> t x = Some DirN)"

lemma adds_dirs_same_tree: "adds_dirs s t \<Longrightarrow> same_tree s t"
  by (auto simp: adds_dirs_def same_tree_def) (metis option.distinct(1))+

lemma resolve_adds_dirs:
  assumes "adds_dirs s t"
  shows "resolve_from False n t acc xs = resolve_from False n s acc xs"
proof (induction n arbitrary: acc xs rule: less_induct)
  case (less n)
  show ?case
  proof (induction xs arbitrary: acc)
    case (Cons c xs)
    have eq: "t x = Some (LinkN a l) \<longleftrightarrow> s x = Some (LinkN a l)" for x a l
      using assms by (auto simp: adds_dirs_def) (metis node.distinct(3) option.distinct(1) option.inject)+
    consider "c = ''..''" | a l where "c \<noteq> ''..''" "s (acc @ [c]) = Some (LinkN a l)"
      | "c \<noteq> ''..''" "\<forall>a l. s (acc @ [c]) \<noteq> Some (LinkN a l)" by blast
    then show ?case
      using Cons.IH less.IH by cases (auto simp: resolve_lax eq split: nat.splits)
  qed simp
qed

lemma real_dir_resolve:
  assumes "real_dir fs W"
  shows "resolve_from strict n fs [] W = Some W"
proof -
  have "resolve_from strict n fs (take k W) (drop k W) = Some W" if "k \<le> length W" for k
    using that
  proof (induction "length W - k" arbitrary: k)
    case 0
    then have "k = length W" by simp
    moreover have "node_at fs W = Some DirN" using assms by (simp add: real_dir_def) (metis take_all_iff order_refl)
    ultimately show ?case by simp
  next
    case (Suc i)
    then have k: "k < length W" by simp
    have d: "node_at fs (take k W) = Some DirN" "node_at fs (take (Suc k) W) = Some DirN"
      using assms by (simp_all add: real_dir_def)
    have "W ! k \<noteq> ''..''" using assms k nth_mem unfolding real_dir_def by metis
    moreover have "fs (take k W @ [W ! k]) = Some DirN"
      using d(2) k by (simp add: take_Suc_conv_app_nth)
    ultimately have "resolve_from strict n fs (take k W) (W ! k # drop (Suc k) W) =
        resolve_from strict n fs (take k W @ [W ! k]) (drop (Suc k) W)"
      using resolve_step(3)[where fs = fs and acc = "take k W", OF d(1)] by simp
    with Suc.hyps(1)[of "Suc k"] Suc.hyps(2) k show ?case
      by (simp add: Cons_nth_drop_Suc take_Suc_conv_app_nth)
  qed
  from this[of 0] show ?thesis by simp
qed

section \<open>Containment\<close>

text \<open>
  \<open>contained W s t\<close>: going from \<open>s\<close> to \<open>t\<close> keeps the store well formed, keeps every directory and
  link, and changes nothing outside the directory \<open>W\<close>.
\<close>

definition contained :: "path \<Rightarrow> fs \<Rightarrow> fs \<Rightarrow> bool" where
  "contained W s t \<longleftrightarrow> (fs_wf s \<and> real_dir s W \<longrightarrow>
     fs_wf t \<and> real_dir t W \<and> same_tree s t \<and> (\<forall>p. \<not> under W p \<longrightarrow> t p = s p))"

lemma contained_refl [simp]: "contained W s s"
  by (simp add: contained_def)

lemma contained_trans: "contained W s t \<Longrightarrow> contained W t u \<Longrightarrow> contained W s u"
  by (auto simp: contained_def intro: same_tree_trans)

lemma reflp_contained [simp]: "reflp (contained W)"
  by (simp add: reflp_def)

lemma transp_contained [simp]: "transp (contained W)"
  by (auto simp: transp_def intro: contained_trans)

text \<open>Updating one entry of a directory inside \<open>W\<close> that is neither a directory nor a link.\<close>

lemma contained_update:
  assumes d: "node_at s d = Some DirN" "under W d"
    and e: "s (d @ [c]) \<noteq> Some DirN" "\<forall>a l. s (d @ [c]) \<noteq> Some (LinkN a l)"
  shows "contained W s (s(d @ [c] := v))"
proof -
  let ?t = "s(d @ [c] := v)"
  have keep: "node_at ?t p = Some DirN" if "node_at s p = Some DirN" for p
    using that e(1) by (auto simp: node_at_def split: if_splits)
  have "fs_wf ?t" if wf: "fs_wf s"
    unfolding fs_wf_def
  proof (intro allI impI)
    fix p c' assume *: "?t (p @ [c']) \<noteq> None"
    show "node_at ?t p = Some DirN"
    proof (cases "p @ [c'] = d @ [c]")
      case True
      then show ?thesis using keep[OF d(1)] by simp
    next
      case False
      with * have "s (p @ [c']) \<noteq> None" by (auto split: if_splits)
      with wf have "node_at s p = Some DirN" unfolding fs_wf_def by blast
      then show ?thesis by (rule keep)
    qed
  qed
  moreover have "real_dir ?t W" if "real_dir s W" using that keep by (auto simp: real_dir_def)
  moreover have "same_tree s ?t" using e by (auto simp: same_tree_def)
  moreover have "?t p = s p" if "\<not> under W p" for p
    using that under_snoc[OF d(2), of c] by auto
  ultimately show ?thesis by (simp add: contained_def)
qed

lemma mkdir_parents_induct [case_names step]:
  assumes "\<And>p. (p \<noteq> [] \<Longrightarrow> P (butlast p)) \<Longrightarrow> P p"
  shows "P (p :: 'a list)"
  by (induction p rule: length_induct) (rule assms, simp)

text \<open>
  Creating the missing parents of a path whose resolution lies inside \<open>W\<close> stays inside \<open>W\<close>, links
  on the way included.
\<close>

lemma mkdir_parents_contained:
  assumes wf: "fs_wf s" and W: "real_dir s W"
  shows "mkdir_parents p s = Some t \<Longrightarrow> ''..'' \<notin> set p \<Longrightarrow> ''..'' \<notin> set rest \<Longrightarrow>
     resolve s (p @ rest) = Some q \<Longrightarrow> under W q \<Longrightarrow> contained W s t \<and> adds_dirs s t"
proof (induction p arbitrary: t rest rule: mkdir_parents_induct)
  case (step p)
  show ?case
  proof (cases "is_dir s p")
    case True
    with step.prems show ?thesis by (simp add: mkdir_parents.simps adds_dirs_def)
  next
    case False
    with step.prems(1) obtain t' e where ne: "p \<noteq> []" and t': "mkdir_parents (butlast p) s = Some t'"
      and e: "entry t' p = Some e"
      and t: "node_at t' e = None \<and> t = t'(e \<mapsto> DirN) \<or> node_at t' e \<noteq> None \<and> t = t'"
      by (auto simp: mkdir_parents.simps[of p s] split: if_splits option.splits)
    have p: "p = butlast p @ [last p]" using ne by simp
    have dots: "''..'' \<notin> set (butlast p)" "''..'' \<notin> set (last p # rest)"
      using step.prems(2,3) ne in_set_butlastD[of "''..''" p] last_in_set[of p] by auto
    have res: "resolve s (butlast p @ (last p # rest)) = Some q"
      using step.prems(4) p by (metis append.assoc append_Cons append_Nil)
    from step.IH[OF ne t' dots res step.prems(5)]
    have c: "contained W s t'" and a: "adds_dirs s t'" by blast+
    show ?thesis
    proof (cases "node_at t' e = None")
      case False
      with t c a show ?thesis by simp
    next
      case missing: True
      from e ne obtain d where d: "locate t' (butlast p) = Some d" "node_at t' d = Some DirN"
        "e = d @ [last p]" by (auto simp: entry_def split: option.splits if_splits)
      have wt: "fs_wf t'" "real_dir t' W" using c wf W by (auto simp: contained_def)
      have "resolve t' (butlast p @ (last p # rest)) = Some q"
        using res by (simp add: resolve_def resolve_adds_dirs[OF a])
      then obtain m where "resolve_from False m t' d (last p # rest) = Some q"
        using resolve_append[of False link_limit t' "[]" "butlast p" "last p # rest" q]
          resolve_strict_lax[of True link_limit t' "[]" "butlast p" d] d(1)
        by (auto simp: resolve_def locate_def)
      moreover have "last p \<noteq> ''..''" "t' (d @ [last p]) = None" using dots missing d(3) by auto
      ultimately have "q = e @ rest"
        using resolve_missing[OF wt(1) missing, of rest m] dots d(3) by (simp add: resolve_lax)
      with step.prems(5) obtain r where r: "e @ rest = W @ r" by (auto simp: under_iff)
      have "under W d"
      proof (rule ccontr)
        assume "\<not> under W d"
        with r d(3) have "length e \<le> length W"
          by (auto simp: under_iff append_eq_append_conv2 Cons_eq_append_conv append_eq_Cons_conv)
        then have "e = take (length e) W" using r
          by (metis append_eq_conv_conj append_take_drop_id take_append take_all diff_is_0_eq' take0 append_Nil2)
        with wt(2) have "node_at t' e = Some DirN" unfolding real_dir_def by metis
        with missing show False by simp
      qed
      from contained_update[OF d(2) this, of "last p" "Some DirN"] missing d(3)
      have "contained W t' (t'(e \<mapsto> DirN))" by simp
      moreover have "adds_dirs s (t'(e \<mapsto> DirN))" using a missing d(3)
        by (auto simp: adds_dirs_def) (metis option.distinct(1))+
      ultimately show ?thesis using t missing contained_trans[OF c] by metis
    qed
  qed
qed

section \<open>Directories that are created\<close>

lemma mkdir_parents_cases:
  assumes "mkdir_parents p s = Some t"
  obtains (exists) "is_dir s p" "t = s"
  | (new) t' q where "p \<noteq> []" "mkdir_parents (butlast p) s = Some t'" "entry t' p = Some q" "node_at t' q = None" "t = t'(q \<mapsto> DirN)"
  | (raced) "p \<noteq> []" "mkdir_parents (butlast p) s = Some t" "is_dir t p"
  using assms by (subst (asm) mkdir_parents.simps) (auto split: if_splits option.splits)

lemma mkdir_parents_adds: "mkdir_parents p s = Some t \<Longrightarrow> adds_dirs s t"
proof (induction p arbitrary: t rule: mkdir_parents_induct)
  case (step p)
  from step.prems show ?case
  proof (cases rule: mkdir_parents_cases)
    case (new t' q)
    then have "adds_dirs s t'" using step.IH by blast
    moreover have "q \<noteq> []" using new(4) by (auto simp: node_at_def)
    ultimately show ?thesis using new(4,5) by (auto simp: adds_dirs_def node_at_def) (metis option.distinct(1))
  qed (use step.IH in \<open>auto simp: adds_dirs_def\<close>)
qed

text \<open>A path without links on the way, as the resolution delivers it.\<close>

definition link_free :: "fs \<Rightarrow> path \<Rightarrow> bool" where
  "link_free s p \<longleftrightarrow> ''..'' \<notin> set p \<and> (\<forall>k a l. node_at s (take k p) \<noteq> Some (LinkN a l))"

lemma link_free_butlast: "link_free s p \<Longrightarrow> link_free s (butlast p)"
  unfolding link_free_def butlast_conv_take by (auto simp: min_def dest: in_set_takeD)

lemma link_free_snoc: "link_free s p \<Longrightarrow> c \<noteq> ''..'' \<Longrightarrow> \<forall>a l. s (p @ [c]) \<noteq> Some (LinkN a l) \<Longrightarrow> link_free s (p @ [c])"
proof -
  assume *: "link_free s p" "c \<noteq> ''..''" "\<forall>a l. s (p @ [c]) \<noteq> Some (LinkN a l)"
  have "take k (p @ [c]) = take k p \<or> take k (p @ [c]) = p @ [c]" for k by (cases "k \<le> length p") auto
  with * show ?thesis unfolding link_free_def by (metis Un_iff empty_iff empty_set node_at_snoc set_ConsD set_append)
qed

lemma resolve_link_free:
  "link_free s acc \<Longrightarrow> resolve_from False n s acc xs = Some q \<Longrightarrow> link_free s q"
proof (induction n arbitrary: acc xs rule: less_induct)
  case (less n)
  have root: "link_free s []" by (simp add: link_free_def node_at_def)
  from less.prems show ?case
  proof (induction xs arbitrary: acc)
    case (Cons c xs)
    consider "c = ''..''" | a t where "c \<noteq> ''..''" "s (acc @ [c]) = Some (LinkN a t)"
      | "c \<noteq> ''..''" "\<forall>a t. s (acc @ [c]) \<noteq> Some (LinkN a t)" by blast
    then show ?case
    proof cases
      case 1
      with Cons.prems Cons.IH [OF link_free_butlast] show ?thesis by (simp add: resolve_lax)
    next
      case 2
      with Cons.prems less.IH root show ?thesis by (auto simp: resolve_lax(2) [where fs = s and acc = acc, OF 2] split: nat.splits if_splits)
    next
      case 3
      with Cons.prems Cons.IH [OF link_free_snoc] show ?thesis by (simp add: resolve_lax)
    qed
  qed simp
qed

lemma link_free_resolve: "link_free s p \<Longrightarrow> resolve_from False n s [] p = Some p"
proof -
  assume free: "link_free s p"
  have "k \<le> length p \<Longrightarrow> resolve_from False n s (take k p) (drop k p) = Some p" for k
  proof (induction "length p - k" arbitrary: k)
    case (Suc i)
    then have k: "k < length p" by simp
    then have t: "take k p @ [p ! k] = take (Suc k) p" by (simp add: take_Suc_conv_app_nth)
    have "p ! k \<noteq> ''..''" using free k nth_mem unfolding link_free_def by metis
    moreover have "\<forall>a l. s (take k p @ [p ! k]) \<noteq> Some (LinkN a l)" using free node_at_snoc [of s "take k p" "p ! k"] unfolding t link_free_def by metis
    ultimately have "resolve_from False n s (take k p) (p ! k # drop (Suc k) p) = resolve_from False n s (take k p @ [p ! k]) (drop (Suc k) p)"
      by (rule resolve_lax(3))
    with Suc k show ?case unfolding t by (simp add: Cons_nth_drop_Suc)
  qed simp
  from this [of 0] show ?thesis by simp
qed

lemma link_free_dir:
  assumes "fs_wf s" "link_free s p" "is_dir s p"
  shows "real_dir s p"
proof -
  obtain q where q: "locate s p = Some q" "node_at s q = Some DirN" using assms(3) by (auto simp: is_dir_def stat_def split: option.splits)
  then have "q = p" using resolve_strict_lax [of True link_limit s "[]" p q] link_free_resolve [OF assms(2), of link_limit] by (simp add: locate_def)
  have "node_at s (take k p) = Some DirN" for k
  proof (cases "k < length p")
    case True
    then show ?thesis using fs_wf_prefix [OF assms(1), of "take k p" "drop k p"] q(2) \<open>q = p\<close> by simp
  qed (use q(2) \<open>q = p\<close> in simp)
  then show ?thesis using assms(2) by (simp add: real_dir_def link_free_def)
qed

lemma link_free_adds: "link_free s p \<Longrightarrow> adds_dirs s t \<Longrightarrow> link_free t p"
  unfolding link_free_def adds_dirs_def node_at_def by (metis node.distinct(3) option.inject)

lemma mkdir_parents_real:
  assumes "fs_wf s"
  shows "mkdir_parents p s = Some t \<Longrightarrow> link_free s p \<Longrightarrow> fs_wf t \<and> real_dir t p"
proof (induction p arbitrary: t rule: mkdir_parents_induct)
  case (step p)
  have adds: "adds_dirs s t" by (rule mkdir_parents_adds [OF step.prems(1)])
  from step.prems(1) show ?case
  proof (cases rule: mkdir_parents_cases)
    case exists
    then show ?thesis using assms link_free_dir step.prems(2) by blast
  next
    case raced
    then have "fs_wf t" using step.IH link_free_butlast [OF step.prems(2)] by blast
    then show ?thesis using link_free_dir raced(3) link_free_adds [OF step.prems(2) adds] by blast
  next
    case (new t' q)
    then have t': "fs_wf t'" "real_dir t' (butlast p)" using step.IH link_free_butlast [OF step.prems(2)] by blast+
    have par: "node_at t' (butlast p) = Some DirN" using t'(2) by (simp add: real_dir_def) (metis take_all_iff order_refl)
    have "entry t' p = Some p"
      using real_dir_resolve [OF t'(2), of True link_limit] par new(1) by (simp add: entry_def locate_def)
    then have q: "q = p" using new(3) by simp
    have pp: "p = butlast p @ [last p]" using new(1) by simp
    have keep: "node_at t x = Some DirN" if "node_at t' x = Some DirN" for x using that new(5) by (auto simp: node_at_def)
    have "fs_wf t" unfolding fs_wf_def
    proof (intro allI impI)
      fix x c assume "t (x @ [c]) \<noteq> None"
      then have "x @ [c] = p \<or> t' (x @ [c]) \<noteq> None" using new(5) q by (auto split: if_splits)
      then show "node_at t x = Some DirN" using t'(1) par keep pp unfolding fs_wf_def by (metis butlast_snoc)
    qed
    moreover have "node_at t (take k p) = Some DirN" for k
    proof (cases "k < length p")
      case True
      then have "take k p = take k (butlast p)" by (simp add: take_butlast)
      then show ?thesis using keep t'(2) by (simp add: real_dir_def)
    qed (use new(5) q in \<open>simp add: node_at_def\<close>)
    ultimately show ?thesis using step.prems(2) by (simp add: real_dir_def link_free_def)
  qed
qed

section \<open>Stores without links\<close>

definition no_links :: "fs \<Rightarrow> bool" where
  "no_links fs \<longleftrightarrow> (\<forall>x a l. fs x \<noteq> Some (LinkN a l))"

lemma resolve_plain:
  "no_links fs \<Longrightarrow> ''..'' \<notin> set xs \<Longrightarrow> resolve_from False n fs acc xs = Some (acc @ xs)"
  by (induction xs arbitrary: acc) (auto simp: resolve_lax no_links_def)

lemma locate_plain:
  assumes "fs_wf fs" "no_links fs" "''..'' \<notin> set p"
  shows "locate fs p = (if node_at fs p = None then None else Some p)"
proof -
  have "resolve_from True n fs acc xs = (if node_at fs (acc @ xs) = None then None else Some (acc @ xs))"
    if "''..'' \<notin> set xs" for n acc xs
    using that
  proof (induction xs arbitrary: acc)
    case (Cons c xs)
    show ?case
    proof (cases "node_at fs acc = Some DirN")
      case True
      then show ?thesis using Cons assms(2)
        by (auto simp: resolve_step[where strict = True, OF True] no_links_def)
    next
      case False
      then have "resolve_from True n fs acc (c # xs) = None" by (simp add: resolve_from.simps)
      moreover have "node_at fs (acc @ c # xs) = None"
        using fs_wf_prefix[OF assms(1), of acc "c # xs"] False by blast
      ultimately show ?thesis by simp
    qed
  qed simp
  from this[of p link_limit "[]"] assms(3) show ?thesis by (simp add: locate_def)
qed

lemma stat_plain: "fs_wf fs \<Longrightarrow> no_links fs \<Longrightarrow> ''..'' \<notin> set p \<Longrightarrow> stat fs p = node_at fs p"
  by (simp add: stat_def locate_plain)

lemma entry_plain:
  assumes "fs_wf fs" "no_links fs" "''..'' \<notin> set p" "p \<noteq> []"
  shows "entry fs p = (if node_at fs (butlast p) = Some DirN then Some p else None)"
proof -
  have "''..'' \<notin> set (butlast p)" using assms(3) by (meson in_set_butlastD)
  then show ?thesis using assms by (simp add: entry_def locate_plain)
qed

lemma lstat_plain:
  assumes "fs_wf fs" "no_links fs" "''..'' \<notin> set p" "p \<noteq> []"
  shows "lstat fs p = fs p"
proof (cases "node_at fs (butlast p) = Some DirN")
  case True
  with assms show ?thesis by (simp add: lstat_def entry_plain node_at_def)
next
  case False
  then have "fs (butlast p @ [last p]) = None" using fs_wf_missing[OF assms(1)] by blast
  with False assms show ?thesis by (simp add: lstat_def entry_plain)
qed

lemma no_links_symlink: "no_links fs \<Longrightarrow> \<not> is_symlink fs p"
  by (auto simp: is_symlink_def lstat_def node_at_def no_links_def split: option.splits node.splits if_splits)

text \<open>A store that agrees with the operating system's invariants and has no links.\<close>

definition plain :: "fs \<Rightarrow> bool" where
  "plain fs \<longleftrightarrow> fs_wf fs \<and> no_links fs \<and> fs [] = None"

lemma plain_update:
  assumes "plain s" "node_at s d = Some DirN" "s (d @ [c]) \<noteq> Some DirN"
    and "\<forall>a l. v \<noteq> Some (LinkN a l)"
  shows "plain (s(d @ [c] := v))"
proof -
  have root: "real_dir s []" "under [] d" by (simp_all add: real_dir_def node_at_def under_def)
  have nl: "\<forall>a l. s (d @ [c]) \<noteq> Some (LinkN a l)" using assms(1) by (simp add: plain_def no_links_def)
  have "contained [] s (s(d @ [c] := v))" using contained_update[OF assms(2) root(2) assms(3) nl] .
  then have "fs_wf (s(d @ [c] := v))" using root assms(1) by (simp add: contained_def plain_def)
  then show ?thesis using assms(1,4) by (auto simp: plain_def no_links_def)
qed

lemma mkdir_parents_plain:
  assumes "plain s"
  shows "mkdir_parents p s = Some t \<Longrightarrow> ''..'' \<notin> set p \<Longrightarrow>
    plain t \<and> node_at t p = Some DirN \<and>
    (\<forall>x. t x = s x \<or> s x = None \<and> t x = Some DirN \<and> (\<exists>k. x = take k p))"
proof (induction p arbitrary: t rule: mkdir_parents_induct)
  case (step p)
  note pl = assms[unfolded plain_def]
  show ?case
  proof (cases "is_dir s p")
    case True
    with step.prems assms show ?thesis
      by (simp add: mkdir_parents.simps is_dir_def stat_plain plain_def)
  next
    case False
    with step.prems(1) obtain t' e where ne: "p \<noteq> []" and t': "mkdir_parents (butlast p) s = Some t'"
      and e: "entry t' p = Some e"
      and t: "node_at t' e = None \<and> t = t'(e \<mapsto> DirN) \<or> is_dir t' p \<and> t = t'"
      by (auto simp: mkdir_parents.simps[of p s] split: if_splits option.splits)
    have dots: "''..'' \<notin> set (butlast p)" using step.prems(2) by (meson in_set_butlastD)
    from step.IH[OF ne t' dots] have pt: "plain t'" and d: "node_at t' (butlast p) = Some DirN"
      and x: "\<forall>x. t' x = s x \<or> s x = None \<and> t' x = Some DirN \<and> (\<exists>k. x = take k (butlast p))" by blast+
    have ep: "e = p" using e pt ne step.prems(2) by (simp add: entry_plain plain_def split: if_splits)
    have tk: "\<exists>k'. take k (butlast p) = take k' p" for k
      by (metis butlast_conv_take take_take)
    have x': "t' x = s x \<or> s x = None \<and> t' x = Some DirN \<and> (\<exists>k. x = take k p)" for x
      using x tk by metis
    show ?thesis
    proof (cases "node_at t' e = None \<and> t = t'(e \<mapsto> DirN)")
      case True
      have p: "p = butlast p @ [last p]" using ne by simp
      have pn: "t' p = None" using True ep ne by (simp add: node_at_def)
      then have "t' (butlast p @ [last p]) \<noteq> Some DirN" using p by simp
      from plain_update[OF pt d this, of "Some DirN"] have "plain t" using True ep p by simp
      moreover have "t x = s x \<or> s x = None \<and> t x = Some DirN \<and> (\<exists>k. x = take k p)" for x
      proof (cases "x = p")
        case True
        have "s p = None" using x' [of p] pn by auto
        then show ?thesis using True \<open>node_at t' e = None \<and> _\<close> ep by (auto intro: exI[of _ "length p"])
      next
        case False
        then show ?thesis using x'[of x] True ep by simp
      qed
      moreover have "node_at t p = Some DirN" using True ep ne by (simp add: node_at_def)
      ultimately show ?thesis by blast
    next
      case False
      with t have "t = t'" "is_dir t' p" by auto
      then show ?thesis using x' pt step.prems(2) by (simp add: is_dir_def stat_plain plain_def)
    qed
  qed
qed

section \<open>Working in one directory\<close>

text \<open>The path \<open>par\<close> leads to the directory \<open>d\<close> inside \<open>W\<close>.\<close>

definition dir_ok :: "path \<Rightarrow> path \<Rightarrow> path \<Rightarrow> fs \<Rightarrow> bool" where
  "dir_ok W par d s \<longleftrightarrow> fs_wf s \<and> real_dir s W \<and> under W d \<and> locate s par = Some d \<and>
     node_at s d = Some DirN"

definition leaf :: "node option \<Rightarrow> bool" where
  "leaf v \<longleftrightarrow> v \<noteq> Some DirN \<and> (\<forall>a l. v \<noteq> Some (LinkN a l))"

lemma leaf_simps [simp]: "leaf None" "leaf (Some (FileN b))" "\<not> leaf (Some DirN)"
  by (simp_all add: leaf_def)

lemma dir_ok_step:
  assumes "dir_ok W par d s" "contained W s t"
  shows "dir_ok W par d t"
proof -
  have t: "fs_wf t" "real_dir t W" "same_tree s t" using assms by (auto simp: contained_def dir_ok_def)
  have "locate t par = Some d" using resolve_stable[OF t(3)] assms(1) by (simp add: locate_def dir_ok_def)
  with t assms(1) same_tree_dir[OF t(3)] show ?thesis by (simp add: dir_ok_def)
qed

lemma dir_ok_update: "dir_ok W par d s \<Longrightarrow> leaf (s (d @ [c])) \<Longrightarrow> contained W s (s(d @ [c] := v))"
  by (rule contained_update) (auto simp: dir_ok_def leaf_def)

lemma dir_ok_entry: "dir_ok W par d s \<Longrightarrow> entry s (par @ [c]) = Some (d @ [c])"
  by (simp add: entry_def dir_ok_def)

lemma mkstemp_dir_ok:
  "dir_ok W par d s \<Longrightarrow> mkstemp par names s = Some (p, t) \<Longrightarrow>
   \<exists>n \<in> set names. p = par @ [n] \<and> s (d @ [n]) = None \<and> t = s(d @ [n] \<mapsto> FileN [])"
proof (induction names)
  case (Cons n ns)
  then show ?case using dir_ok_entry[OF Cons.prems(1), of n]
    by (cases "s (d @ [n]) = None") auto
qed simp

lemma write_bytes_dir_ok:
  assumes "dir_ok W par d s" "s (d @ [n]) = Some (FileN b0)" "n \<noteq> ''..''"
    and "write_bytes b (par @ [n]) s = Some t"
  shows "t = s(d @ [n] \<mapsto> FileN b)"
proof (cases "locate s (par @ [n])")
  case None
  with assms(2,4) dir_ok_entry[OF assms(1), of n] show ?thesis by (simp add: write_bytes_def)
next
  case (Some q)
  then obtain d' m where "resolve_from False link_limit s [] par = Some d'"
    and q: "resolve_from True m s d' [n] = Some q"
    using resolve_append[of True link_limit s "[]" par "[n]" q] by (auto simp: locate_def)
  then have "d' = d" using assms(1) resolve_strict_lax[of True link_limit s "[]" par d]
    by (simp add: dir_ok_def locate_def)
  with q assms(1-3) have "q = d @ [n]"
    using resolve_step(3)[where strict = True and fs = s and acc = d and c = n and n = m and xs = "[]"]
    by (simp add: dir_ok_def)
  with Some assms(2,4) show ?thesis by (simp add: write_bytes_def)
qed

text \<open>Writing to a temporary file, renaming it and cleaning up stay inside the directory.\<close>

lemma temp_file_contained:
  assumes d: "dir_ok W par d s" and tmp: "s (d @ [n]) = Some (FileN b0)" and n: "n \<noteq> ''..''"
    and dst: "\<forall>a l. s (d @ [c]) \<noteq> Some (LinkN a l)"
  shows "write_bytes b (par @ [n]) s = Some t \<Longrightarrow>
           contained W s t \<and> t (d @ [n]) = Some (FileN b) \<and> (\<forall>a l. t (d @ [c]) \<noteq> Some (LinkN a l))"
    and "replace_path (par @ [n]) (par @ [c]) s = Some t \<Longrightarrow> contained W s t \<and> leaf (t (d @ [n]))"
    and "contained W s (unlink_missing_ok (par @ [n]) s)"
proof -
  assume "write_bytes b (par @ [n]) s = Some t"
  then have "t = s(d @ [n] \<mapsto> FileN b)" using write_bytes_dir_ok[OF d tmp n] by blast
  then show "contained W s t \<and> t (d @ [n]) = Some (FileN b) \<and> (\<forall>a l. t (d @ [c]) \<noteq> Some (LinkN a l))"
    using dir_ok_update[OF d, of n] tmp dst by auto
next
  assume "replace_path (par @ [n]) (par @ [c]) s = Some t"
  then have t: "t = (s(d @ [n] := None))(d @ [c] \<mapsto> FileN b0)" and c: "s (d @ [c]) \<noteq> Some DirN"
    using dir_ok_entry[OF d, of n] dir_ok_entry[OF d, of c] tmp
    by (auto simp: replace_path_def split: option.splits node.splits)
  let ?s = "s(d @ [n] := None)"
  have 1: "contained W s ?s" using dir_ok_update[OF d] tmp by simp
  have lf: "leaf (?s (d @ [c]))" using c dst by (auto simp: leaf_def)
  have "contained W ?s t" unfolding t by (rule dir_ok_update[OF dir_ok_step[OF d 1] lf])
  with contained_trans[OF 1] show "contained W s t \<and> leaf (t (d @ [n]))" by (auto simp: t)
next
  show "contained W s (unlink_missing_ok (par @ [n]) s)"
    using dir_ok_update[OF d, of n] tmp by (simp add: unlink_missing_ok_def dir_ok_entry[OF d])
qed

lemma unlink_contained:
  "dir_ok W par d s \<Longrightarrow> leaf (s (d @ [n])) \<Longrightarrow> contained W s (unlink_missing_ok (par @ [n]) s)"
  by (simp add: unlink_missing_ok_def dir_ok_entry dir_ok_update)

section \<open>Copying files in a store without links\<close>

lemma plain_dir_ok:
  "plain s \<Longrightarrow> ''..'' \<notin> set p \<Longrightarrow> node_at s p = Some DirN \<Longrightarrow> dir_ok [] p p s"
  by (simp add: dir_ok_def plain_def locate_plain real_dir_def under_def node_at_def)

lemma read_bytes_plain:
  "plain s \<Longrightarrow> ''..'' \<notin> set p \<Longrightarrow> read_bytes s p = Some b \<longleftrightarrow> s p = Some (FileN b)"
  by (auto simp: read_bytes_def stat_plain plain_def node_at_def fs_wf_def split: option.splits node.splits if_splits)

lemma finallyP_Inr: "finallyP m c s = (t, Inr x) \<longleftrightarrow> (\<exists>u. m s = (u, Inr x) \<and> t = c u)"
  by (auto simp: finallyP_def split: prod.splits)

text \<open>A file may change only at \<open>dst\<close>; elsewhere at most directories appear.\<close>

definition only_file :: "path \<Rightarrow> fs \<Rightarrow> fs \<Rightarrow> bool" where
  "only_file dst s t \<longleftrightarrow> (\<forall>x. x \<noteq> dst \<longrightarrow> t x = s x \<or> s x = None \<and> t x = Some DirN)"

lemma only_file_keeps: "only_file dst s t \<Longrightarrow> x \<noteq> dst \<Longrightarrow> s x = Some (FileN b) \<Longrightarrow> t x = Some (FileN b)"
  by (metis only_file_def option.distinct(1))

lemma only_file_source: "only_file dst s t \<Longrightarrow> x \<noteq> dst \<Longrightarrow> t x = Some (FileN b) \<Longrightarrow> s x = Some (FileN b)"
  by (metis only_file_def node.distinct(1) option.inject)

lemma only_file_trans: "only_file dst s t \<Longrightarrow> only_file dst t u \<Longrightarrow> only_file dst s u"
  unfolding only_file_def by metis

lemma write_bytes_plain:
  assumes "plain s" "''..'' \<notin> set p" "p \<noteq> []" "write_bytes b p s = Some t"
  shows "t = s(p \<mapsto> FileN b) \<and> plain t"
proof -
  have pl: "fs_wf s" "no_links s" "s [] = None" using assms(1) by (auto simp: plain_def)
  have pp: "p = butlast p @ [last p]" using assms(3) by simp
  have lp: "locate s p = (if s p = None then None else Some p)"
    using locate_plain[OF pl(1,2) assms(2)] assms(3) by (simp add: node_at_def)
  have *: "t = s(p \<mapsto> FileN b) \<and> s p \<noteq> Some DirN \<and> node_at s (butlast p) = Some DirN"
  proof (cases "s p")
    case None
    with assms(3,4) lp show ?thesis
      by (auto simp: write_bytes_def node_at_def entry_plain[OF pl(1,2) assms(2,3)] split: if_splits option.splits)
  next
    case (Some v)
    have "node_at s (butlast p) = Some DirN" using fs_wf_missing[OF pl(1), of "butlast p" "last p"] Some pp by auto
    with Some assms(3,4) lp show ?thesis by (auto simp: write_bytes_def node_at_def split: node.splits)
  qed
  then have "plain (s(butlast p @ [last p] := Some (FileN b)))"
    using pp by (intro plain_update[OF assms(1)]) auto
  with * pp show ?thesis by simp
qed

text \<open>The bytes of the source of \<open>x\<close> are at its destination, and the result \<open>y\<close> agrees with them.\<close>

definition copied ::
  "('x \<Rightarrow> path) \<Rightarrow> ('x \<Rightarrow> path) \<Rightarrow> ('x \<Rightarrow> byte list \<Rightarrow> 'y \<Rightarrow> bool) \<Rightarrow> fs \<Rightarrow> fs \<Rightarrow> 'x \<Rightarrow> 'y \<Rightarrow> bool" where
  "copied src dst says s t x y \<longleftrightarrow> (\<exists>b. s (src x) = Some (FileN b) \<and> t (dst x) = Some (FileN b) \<and> says x b y)"

text \<open>
  The contract of a step that copies one file: in a store without links it reads its source and
  leaves the bytes at its destination, and nothing else but new directories changes.  Sources are
  never destinations and destinations are distinct.  The lemma carries the contract from one step to
  the whole loop.
\<close>

locale file_copier =
  fixes step :: "'x \<Rightarrow> (fs, 'e, 'y) prog"
    and src dst :: "'x \<Rightarrow> path"
    and good :: "'x \<Rightarrow> bool"
    and key :: "'x \<Rightarrow> 'k"
    and says :: "'x \<Rightarrow> byte list \<Rightarrow> 'y \<Rightarrow> bool"
  assumes step_copies: "good x \<Longrightarrow> plain s \<Longrightarrow> step x s = (t, Inr y) \<Longrightarrow>
      \<exists>b. s (src x) = Some (FileN b) \<and> plain t \<and> t (dst x) = Some (FileN b) \<and> only_file (dst x) s t \<and> says x b y"
    and src_apart: "good x \<Longrightarrow> good y' \<Longrightarrow> src x \<noteq> dst y'"
    and dst_inj: "good x \<Longrightarrow> good y' \<Longrightarrow> dst x = dst y' \<Longrightarrow> key x = key y'"
begin

lemma copies_all:
  "plain s \<Longrightarrow> mapP step xs s = (t, Inr ys) \<Longrightarrow> distinct (map key xs) \<Longrightarrow> \<forall>x \<in> set xs. good x \<Longrightarrow>
   plain t \<and> list_all2 (copied src dst says s t) xs ys \<and>
   (\<forall>p b. s p = Some (FileN b) \<longrightarrow> p \<notin> dst ` set xs \<longrightarrow> t p = Some (FileN b))"
proof (induction xs arbitrary: s ys)
  case Nil
  then show ?case by simp
next
  case (Cons x xs)
  from Cons.prems(2) obtain s1 y ys' where r: "step x s = (s1, Inr y)" "mapP step xs s1 = (t, Inr ys')" "ys = y # ys'"
    by (auto simp: bindP_Inr)
  have gx: "good x" and gxs: "\<forall>x \<in> set xs. good x" using Cons.prems(4) by auto
  obtain b where b: "s (src x) = Some (FileN b)" "plain s1" "s1 (dst x) = Some (FileN b)"
    "only_file (dst x) s s1" "says x b y" using step_copies[OF gx Cons.prems(1) r(1)] by blast
  from Cons.IH[OF b(2) r(2) _ gxs] Cons.prems(3) have IH: "plain t" "list_all2 (copied src dst says s1 t) xs ys'"
    "\<forall>p b. s1 p = Some (FileN b) \<longrightarrow> p \<notin> dst ` set xs \<longrightarrow> t p = Some (FileN b)" by auto
  have "dst x \<notin> dst ` set xs"
  proof
    assume "dst x \<in> dst ` set xs"
    then obtain z where "z \<in> set xs" "dst x = dst z" by blast
    with dst_inj[OF gx] gxs Cons.prems(3) show False by force
  qed
  then have "copied src dst says s t x y" using b IH(3) by (auto simp: copied_def)
  moreover have "list_all2 (copied src dst says s t) xs ys'"
    using IH(2)
  proof (rule list.rel_mono_strong)
    fix z w assume z: "z \<in> set xs" "copied src dst says s1 t z w"
    then have "src z \<noteq> dst x" using src_apart[OF _ gx] gxs by blast
    with z only_file_source[OF b(4)] show "copied src dst says s t z w" by (auto simp: copied_def)
  qed
  moreover have "t p = Some (FileN b')" if "s p = Some (FileN b')" "p \<notin> dst ` set (x # xs)" for p b'
    using that only_file_keeps[OF b(4)] IH(3) by auto
  ultimately show ?case using IH(1) r(3) by auto
qed

end

section \<open>Text round trip\<close>

lemma decode_encode_char: "decode_utf8 (encode_char c @ bs) = map_option (\<lambda>s. c # s) (decode_utf8 bs)"
proof -
  define n where "n = (of_char c :: nat)"
  have n: "n < 256" "char_of n = c" by (simp_all add: n_def)
  show ?thesis
  proof (cases "n < 128")
    case True
    then have "unat (of_nat n :: byte) = n" by (simp add: unat_of_nat)
    with True n show ?thesis by (simp add: encode_char_def n_def[symmetric])
  next
    case False
    have d: "n div 64 = 2 \<or> n div 64 = 3" using False n(1) by auto
    have m: "unat (of_nat (128 + n mod 64) :: byte) = 128 + n mod 64"
      unfolding unat_of_nat by simp
    have u: "unat (of_nat (192 + n div 64) :: byte) = 192 + n div 64"
      unfolding unat_of_nat using d by auto
    have w: "(of_nat (192 + n div 64) :: byte) = 0xC2 \<or> (of_nat (192 + n div 64) :: byte) = 0xC3" using d by auto
    have "64 * (n div 64) + n mod 64 = n" by simp
    then show ?thesis using False n m u w
      by (simp add: encode_char_def n_def[symmetric] del: of_nat_add)
  qed
qed

lemma decode_encode: "decode_utf8 (encode_utf8 s) = Some s"
  by (induction s) (simp_all add: encode_utf8_def decode_encode_char)

end
