(* ===== verification/Json.thy ===== *)
theory Json
  imports Prelude
begin

text \<open>
  JSON values and \<^verbatim>\<open>json.dumps(value, indent=2, sort_keys=...)\<close>, the form in which the tools write
  their reports.  An object is an association list in insertion order.
\<close>

datatype json =
    JNull
  | JBool bool
  | JInt int
  | JStr string
  | JList "json list"
  | JObj "(string \<times> json) list"

definition escape_char :: "char \<Rightarrow> string" where
  [py_defs]: "escape_char c =
     (let n = (of_char c :: int) in
      if n = 34 then [CHR 0x5C, CHR 0x22]
      else if n = 92 then [CHR 0x5C, CHR 0x5C]
      else if n = 10 then [CHR 0x5C, CHR ''n'']
      else if n = 13 then [CHR 0x5C, CHR ''r'']
      else if n = 9 then [CHR 0x5C, CHR ''t'']
      else if n = 8 then [CHR 0x5C, CHR ''b'']
      else if n = 12 then [CHR 0x5C, CHR ''f'']
      else if 32 \<le> n \<and> n \<le> 126 then [c]
      else [CHR 0x5C, CHR ''u'', CHR ''0'', CHR ''0'', digit_char (n div 16), digit_char (n mod 16)])"

definition json_string :: "string \<Rightarrow> string" where
  [py_defs]: "json_string s = CHR 0x22 # concat (map escape_char s) @ [CHR 0x22]"

definition newline_indent :: "nat \<Rightarrow> string" where
  [py_defs]: "newline_indent level = CHR 0x0A # replicate (2 * level) CHR '' ''"

definition json_block :: "nat \<Rightarrow> char \<Rightarrow> char \<Rightarrow> string list \<Rightarrow> string" where
  [py_defs]: "json_block level left right items =
     (if items = [] then [left, right]
      else [left] @ newline_indent (Suc level) @ join ('','' @ newline_indent (Suc level)) items @
           newline_indent level @ [right])"

fun dumps :: "bool \<Rightarrow> nat \<Rightarrow> json \<Rightarrow> string" where
  "dumps sort_keys level JNull = ''null''"
| "dumps sort_keys level (JBool b) = (if b then ''true'' else ''false'')"
| "dumps sort_keys level (JInt i) = str_int i"
| "dumps sort_keys level (JStr s) = json_string s"
| "dumps sort_keys level (JList xs) =
     json_block level CHR ''['' CHR '']'' (map (dumps sort_keys (Suc level)) xs)"
| "dumps sort_keys level (JObj kvs) =
     (let items = map (\<lambda>(k, v). (k, dumps sort_keys (Suc level) v)) kvs;
          items' = (if sort_keys then sort_key fst items else items)
      in json_block level CHR ''{'' CHR ''}'' (map (\<lambda>(k, t). json_string k @ '': '' @ t) items'))"

text \<open>\<^verbatim>\<open>d.get(k)\<close>, \<^verbatim>\<open>d[k]\<close>, and numbers as Python sees them: a Boolean is an integer too.\<close>

definition jget :: "(string \<times> json) list \<Rightarrow> string \<Rightarrow> json option" where
  [py_defs]: "jget d k = map_of d k"

definition jitem :: "(string \<times> json) list \<Rightarrow> string \<Rightarrow> py_error + json" where
  [py_defs]: "jitem d k = of_option (KeyError k) (map_of d k)"

definition as_int :: "json \<Rightarrow> int option" where
  [py_defs]: "as_int v = (case v of JInt i \<Rightarrow> Some i | JBool b \<Rightarrow> Some (if b then 1 else 0) | _ \<Rightarrow> None)"

definition as_str :: "json \<Rightarrow> string option" where
  [py_defs]: "as_str v = (case v of JStr t \<Rightarrow> Some t | _ \<Rightarrow> None)"

definition as_dict :: "json \<Rightarrow> (string \<times> json) list option" where
  [py_defs]: "as_dict v = (case v of JObj d \<Rightarrow> Some d | _ \<Rightarrow> None)"

lemma as_str_Some [resE]: "as_str v = Some t \<longleftrightarrow> v = JStr t"
  by (auto simp: as_str_def split: json.splits)

lemma as_dict_Some [resE]: "as_dict v = Some d \<longleftrightarrow> v = JObj d"
  by (auto simp: as_dict_def split: json.splits)

lemma bind_as_str [resE]: "Option.bind x as_str = Some t \<longleftrightarrow> x = Some (JStr t)"
  by (cases x) (auto simp: as_str_Some)

definition json_of_option :: "('a \<Rightarrow> json) \<Rightarrow> 'a option \<Rightarrow> json" where
  [py_defs]: "json_of_option f x = (case x of None \<Rightarrow> JNull | Some v \<Rightarrow> f v)"

end
