(* ===== verification/ObjectSet.thy ===== *)
theory ObjectSet
  imports FileStore Json
begin

text \<open>
  \<^verbatim>\<open>tools/ci/linux-runtime-object-set-v1.py\<close>: preparation of an object-set experiment.  Every
  object of an ordered universe is reset from the known-good baseline tree and the selected ones
  are overlaid with the candidate tree, inside a work tree.

  Shown here: the selection modes; validation happens before any write; writes never leave the
  resolved work root, links included; a prepared object has the content of its source; a dry run
  writes nothing.
\<close>

section \<open>Paths and object lists\<close>

datatype object_set_error =
    EmptyObjectPath
  | AbsoluteObjectPath string
  | UnsafeObjectPath string
  | NotObjectFile string
  | DuplicateObject nat string
  | EmptyObjectList
  | EscapesRoot string path
  | MissingObject string string
  | SymlinkObject string string
  | NotElf string
  | UnsupportedClass string nat
  | UnsupportedData string nat
  | NotRelocatable string nat
  | DuplicateExplicit string
  | ModeArguments string
  | PrefixOutOfRange int
  | OutsideUniverse "string list"
  | UnknownMode string
  | SymlinkDestination path
  | NotDirectory string path
  | ProvenanceMismatch string string string
  | OSFailure
  | LinkLoop
  | DecodeFailure

definition normalize_object_path :: "string \<Rightarrow> object_set_error + string" where
  [py_defs]: "normalize_object_path raw =
     (let value = replace_char CHR 0x5C CHR ''/'' (strip raw) in
      if value = [] then Inl EmptyObjectPath
      else if is_absolute value \<or> startswith value ''/'' then Inl (AbsoluteObjectPath raw)
      else if list_ex (\<lambda>part. part \<in> set [[], ''.'', ''..'']) (path_parts value)
      then Inl (UnsafeObjectPath raw)
      else let normalized = as_posix value in
        if \<not> endswith normalized ''.o'' then Inl (NotObjectFile raw) else Inr normalized)"

definition read_object_list :: "string \<Rightarrow> object_set_error + string list" where
  [py_defs]: "read_object_list text =
     bindE (scan_objects normalize_object_path DuplicateObject 1 [] (splitlines text))
       (\<lambda>result. if result = [] then Inl EmptyObjectList else Inr result)"

definition ensure_within :: "fs \<Rightarrow> path \<Rightarrow> path \<Rightarrow> string \<Rightarrow> object_set_error + path" where
  [py_defs]: "ensure_within fs root p label =
     bindE (of_option LinkLoop (resolve fs root)) (\<lambda>root_real.
       bindE (of_option LinkLoop (resolve fs p)) (\<lambda>path_real.
         if under root_real path_real then Inr path_real else Inl (EscapesRoot label p)))"

section \<open>ELF headers\<close>

definition elf_magic :: "byte list" where
  [py_defs]: "elf_magic = [0x7F, 0x45, 0x4C, 0x46]"

definition assert_elf_rel :: "byte list \<Rightarrow> string \<Rightarrow> object_set_error + unit" where
  [py_defs]: "assert_elf_rel contents label =
     (let header = take 20 contents in
      if length header < 18 \<or> take 4 header \<noteq> elf_magic then Inl (NotElf label)
      else let elf_class = unat (header ! 4); elf_data = unat (header ! 5) in
        if elf_class \<notin> set [1, 2] then Inl (UnsupportedClass label elf_class)
        else if elf_data = 1 \<or> elf_data = 2 then
          (let e_type = unpack_half (elf_data = 1) header 16 in
           if e_type \<noteq> 1 then Inl (NotRelocatable label e_type) else Inr ())
        else Inl (UnsupportedData label elf_data))"

definition checked_object :: "fs \<Rightarrow> path \<Rightarrow> string \<Rightarrow> string \<Rightarrow> object_set_error + path" where
  [py_defs]: "checked_object fs root rel label =
     (let p = root @ path_tail rel in
      bindE (ensure_within fs root p label) (\<lambda>_.
        if \<not> is_file fs p then Inl (MissingObject label rel)
        else if is_symlink fs p then Inl (SymlinkObject label rel)
        else bindE (of_option OSFailure (read_bytes fs p)) (\<lambda>b.
          bindE (assert_elf_rel b (label @ '' '' @ rel)) (\<lambda>_. Inr p))))"

section \<open>Selection\<close>

fun parse_explicit_from :: "string list \<Rightarrow> string list \<Rightarrow> object_set_error + string list" where
  "parse_explicit_from result [] = Inr result"
| "parse_explicit_from result (raw # rest) =
     bindE (normalize_object_path raw) (\<lambda>obj.
       if obj \<in> set result then Inl (DuplicateExplicit obj)
       else parse_explicit_from (result @ [obj]) rest)"

definition parse_explicit :: "string list \<Rightarrow> object_set_error + string list" where
  [py_defs]: "parse_explicit values = parse_explicit_from [] values"

record args =
  baseline_root :: path
  candidate_root :: path
  work_root :: path
  objects_file :: path
  mode :: string
  prefix_arg :: "int option"
  object_arg :: "string list"
  manifest_arg :: "path option"
  dry_run :: bool

definition choose_objects :: "string list \<Rightarrow> args \<Rightarrow> object_set_error + string list" where
  [py_defs]: "choose_objects universe a =
     bindE (parse_explicit (object_arg a)) (\<lambda>explicit.
       if mode a = ''baseline'' then
         (if explicit \<noteq> [] \<or> prefix_arg a \<noteq> None then Inl (ModeArguments (mode a)) else Inr [])
       else if mode a = ''all'' then
         (if explicit \<noteq> [] \<or> prefix_arg a \<noteq> None then Inl (ModeArguments (mode a)) else Inr universe)
       else if mode a = ''prefix'' then
         (case prefix_arg a of
            None \<Rightarrow> Inl (ModeArguments (mode a))
          | Some n \<Rightarrow>
              if explicit \<noteq> [] then Inl (ModeArguments (mode a))
              else if n < 0 \<or> n > int (length universe) then Inl (PrefixOutOfRange n)
              else Inr (take (nat n) universe))
       else if mode a \<in> set [''subset'', ''single'', ''all-except''] then
         (if prefix_arg a \<noteq> None then Inl (ModeArguments (mode a))
          else if mode a = ''single'' \<and> length explicit \<noteq> 1 then Inl (ModeArguments (mode a))
          else if mode a \<in> set [''subset'', ''all-except''] \<and> explicit = []
          then Inl (ModeArguments (mode a))
          else let unknown = filter (\<lambda>obj. obj \<notin> set universe) explicit in
            if unknown \<noteq> [] then Inl (OutsideUniverse unknown)
            else if mode a = ''all-except'' then Inr (filter (\<lambda>obj. obj \<notin> set explicit) universe)
            else Inr (filter (\<lambda>obj. obj \<in> set explicit) universe))
       else Inl (UnknownMode (mode a)))"

section \<open>Copying and preparing\<close>

text \<open>
  The names \<^verbatim>\<open>mkstemp\<close> tries are its prefix followed by random text; \<open>rnd dst\<close> is the sequence of
  random texts for a destination.
\<close>

definition copy2 :: "path \<Rightarrow> path \<Rightarrow> (fs, object_set_error, unit) prog" where
  [py_defs]: "copy2 src dst = putP (\<lambda>s. bindE (of_option OSFailure (read_bytes s src)) (\<lambda>b.
     of_option OSFailure (write_bytes b dst s)))"

definition mkstempP :: "path \<Rightarrow> string list \<Rightarrow> (fs, object_set_error, path) prog" where
  [py_defs]: "mkstempP dir names = (\<lambda>s. case mkstemp dir names s of
     None \<Rightarrow> (s, Inl OSFailure) | Some (p, s') \<Rightarrow> (s', Inr p))"

definition copy_atomic ::
  "(path \<Rightarrow> string list) \<Rightarrow> path \<Rightarrow> path \<Rightarrow> path \<Rightarrow> (fs, object_set_error, unit) prog" where
  [py_defs]: "copy_atomic rnd src dst work =
     bindP (readP (\<lambda>s. ensure_within s work dst ''work destination'')) (\<lambda>_.
     bindP (putP (\<lambda>s. of_option OSFailure (mkdir_parents (butlast dst) s))) (\<lambda>_.
     bindP (readP (\<lambda>s. ensure_within s work (butlast dst) ''work parent'')) (\<lambda>_.
     bindP (readP (\<lambda>s. ensure (\<not> is_symlink s dst) (SymlinkDestination dst))) (\<lambda>_.
     bindP (mkstempP (butlast dst) (map (\<lambda>r. ''.'' @ last dst @ ''.'' @ r) (rnd dst))) (\<lambda>temp.
       finallyP
         (bindP (copy2 src temp) (\<lambda>_. putP (\<lambda>s. of_option OSFailure (replace_path temp dst s))))
         (unlink_missing_ok temp))))))"

record entry_record =
  en_index :: nat
  en_path :: string
  en_provenance :: string
  en_baseline_sha256 :: string
  en_candidate_sha256 :: "string option"
  en_result_sha256 :: string
  en_source :: path

record manifest =
  mf_mode :: string
  mf_dry_run :: bool
  mf_baseline_root :: path
  mf_candidate_root :: path
  mf_work_root :: path
  mf_objects_file :: path
  mf_selected :: "string list"
  mf_objects :: "entry_record list"

text \<open>The body of the preparation loop for one object of the universe.\<close>

definition prepare1 ::
  "(byte list \<Rightarrow> string) \<Rightarrow> (path \<Rightarrow> string list) \<Rightarrow> bool \<Rightarrow> path \<Rightarrow> string list \<Rightarrow>
   (string \<times> path) list \<Rightarrow> (string \<times> path) list \<Rightarrow> nat \<times> string \<Rightarrow>
   (fs, object_set_error, entry_record) prog" where
  [py_defs]: "prepare1 sha256 rnd dry work selected baseline_paths candidate_paths ir =
     (case ir of (index, rel) \<Rightarrow>
       let base = the (map_of baseline_paths rel); cand = map_of candidate_paths rel;
           dst = work @ path_tail rel;
           sha256_file = (\<lambda>p. readP (\<lambda>s. bindE (of_option OSFailure (read_bytes s p)) (Inr \<circ> sha256)))
       in
       bindP (sha256_file base) (\<lambda>baseline_sha.
       bindP (case cand of None \<Rightarrow> retP None
              | Some c \<Rightarrow> bindP (sha256_file c) (\<lambda>h. retP (Some h))) (\<lambda>candidate_sha.
       let final_source = (case cand of None \<Rightarrow> base | Some c \<Rightarrow> c);
           expected_sha = (case candidate_sha of None \<Rightarrow> baseline_sha | Some h \<Rightarrow> h) in
       bindP
         (if \<not> dry then
            bindP (copy_atomic rnd base dst work) (\<lambda>_.
            bindP (case cand of None \<Rightarrow> retP () | Some c \<Rightarrow> copy_atomic rnd c dst work) (\<lambda>_.
            bindP (readP (\<lambda>s. bindE (of_option OSFailure (read_bytes s dst)) (\<lambda>b.
                     assert_elf_rel b (''prepared object '' @ rel)))) (\<lambda>_.
            bindP (sha256_file dst) (\<lambda>result_sha.
              if result_sha \<noteq> expected_sha
              then failP (ProvenanceMismatch rel expected_sha result_sha)
              else retP result_sha))))
          else retP expected_sha) (\<lambda>result_sha.
       retP \<lparr> en_index = index, en_path = rel,
              en_provenance = (if rel \<in> set selected then ''minic'' else ''gcc-baseline''),
              en_baseline_sha256 = baseline_sha, en_candidate_sha256 = candidate_sha,
              en_result_sha256 = result_sha, en_source = final_source \<rparr>))))"

definition str_path :: "path \<Rightarrow> string" where
  [py_defs]: "str_path p = ''/'' @ join ''/'' p"

definition json_of_entry :: "entry_record \<Rightarrow> json" where
  [py_defs]: "json_of_entry e = JObj
     [(''index'', JInt (int (en_index e))), (''path'', JStr (en_path e)),
      (''provenance'', JStr (en_provenance e)), (''baseline_sha256'', JStr (en_baseline_sha256 e)),
      (''candidate_sha256'', json_of_option JStr (en_candidate_sha256 e)),
      (''result_sha256'', JStr (en_result_sha256 e)), (''source'', JStr (str_path (en_source e)))]"

definition json_of_manifest :: "manifest \<Rightarrow> json" where
  [py_defs]: "json_of_manifest m = JObj
     [(''schema'', JStr ''minic-linux-runtime-object-set-v1''), (''mode'', JStr (mf_mode m)),
      (''dry_run'', JBool (mf_dry_run m)), (''baseline_root'', JStr (str_path (mf_baseline_root m))),
      (''candidate_root'', JStr (str_path (mf_candidate_root m))),
      (''work_root'', JStr (str_path (mf_work_root m))),
      (''objects_file'', JStr (str_path (mf_objects_file m))),
      (''universe_count'', JInt (int (length (mf_objects m)))),
      (''selected_count'', JInt (int (length (mf_selected m)))),
      (''selected_objects'', JList (map JStr (mf_selected m))),
      (''objects'', JList (map json_of_entry (mf_objects m)))]"

definition manifest_bytes :: "manifest \<Rightarrow> byte list" where
  [py_defs]: "manifest_bytes m = encode_utf8 (dumps True 0 (json_of_manifest m) @ ''\<newline>'')"

text \<open>The checks that come before the first write, and what they establish.\<close>

definition prepare_inputs ::
  "args \<Rightarrow> fs \<Rightarrow> object_set_error +
     path \<times> path \<times> path \<times> string list \<times> string list \<times> (string \<times> path) list \<times> (string \<times> path) list" where
  [py_defs]: "prepare_inputs a s =
     bindE (of_option LinkLoop (resolve s (baseline_root a))) (\<lambda>baseline.
     bindE (of_option LinkLoop (resolve s (candidate_root a))) (\<lambda>candidate.
     bindE (of_option LinkLoop (resolve s (work_root a))) (\<lambda>work.
     bindE (ensure (is_dir s baseline) (NotDirectory ''baseline'' baseline)) (\<lambda>_.
     bindE (ensure (is_dir s candidate) (NotDirectory ''candidate'' candidate)) (\<lambda>_.
     bindE (ensure (path_exists s work \<longrightarrow> is_dir s work) (NotDirectory ''work'' work)) (\<lambda>_.
     bindE (of_option OSFailure (read_bytes s (objects_file a))) (\<lambda>b.
     bindE (of_option DecodeFailure (decode_utf8 b)) (\<lambda>text.
     bindE (read_object_list text) (\<lambda>universe.
     bindE (choose_objects universe a) (\<lambda>selected.
     bindE (mapE (\<lambda>rel. bindE (checked_object s baseline rel ''baseline object'')
                            (\<lambda>p. Inr (rel, p))) universe) (\<lambda>baseline_paths.
     bindE (mapE (\<lambda>rel. bindE (checked_object s candidate rel ''candidate object'')
                            (\<lambda>p. Inr (rel, p))) selected) (\<lambda>candidate_paths.
       Inr (baseline, candidate, work, universe, selected, baseline_paths, candidate_paths)))))))))))))"

text \<open>The manifest, and the file it is written to when one is asked for.\<close>

definition report ::
  "args \<Rightarrow> path \<Rightarrow> path \<Rightarrow> path \<Rightarrow> string list \<Rightarrow> entry_record list \<Rightarrow> (fs, object_set_error, manifest) prog" where
  [py_defs]: "report a baseline candidate work selected entries =
     bindP (readP (\<lambda>s. of_option LinkLoop (resolve s (objects_file a)))) (\<lambda>objects.
     let m = \<lparr> mf_mode = mode a, mf_dry_run = dry_run a, mf_baseline_root = baseline,
               mf_candidate_root = candidate, mf_work_root = work, mf_objects_file = objects,
               mf_selected = selected, mf_objects = entries \<rparr> in
     bindP (case manifest_arg a of
              None \<Rightarrow> retP ()
            | Some mp \<Rightarrow>
                if dry_run a then retP ()
                else bindP (putP (\<lambda>s. of_option OSFailure (mkdir_parents (butlast mp) s))) (\<lambda>_.
                  putP (\<lambda>s. of_option OSFailure (write_bytes (manifest_bytes m) mp s))))
       (\<lambda>_. retP m))"

definition prepare ::
  "(byte list \<Rightarrow> string) \<Rightarrow> (path \<Rightarrow> string list) \<Rightarrow> args \<Rightarrow> (fs, object_set_error, manifest) prog" where
  [py_defs]: "prepare sha256 rnd a =
     bindP (readP (prepare_inputs a)) (\<lambda>(baseline, candidate, work, universe, selected,
        baseline_paths, candidate_paths).
     bindP (if dry_run a then retP () else putP (\<lambda>s. of_option OSFailure (mkdir_parents work s))) (\<lambda>_.
     bindP (mapP (prepare1 sha256 rnd (dry_run a) work selected baseline_paths candidate_paths)
              (zip [1..<Suc (length universe)] universe)) (\<lambda>entries.
       report a baseline candidate work selected entries)))"

text \<open>\<^verbatim>\<open>main\<close>: exit status and manifest.  Link loops and decoding failures are not caught by it.\<close>

definition object_set_main ::
  "(byte list \<Rightarrow> string) \<Rightarrow> (path \<Rightarrow> string list) \<Rightarrow> args \<Rightarrow> fs \<Rightarrow> fs \<times> int \<times> manifest option" where
  [py_defs]: "object_set_main sha256 rnd a s =
     (case prepare sha256 rnd a s of
        (t, Inl e) \<Rightarrow> (t, if e \<in> set [LinkLoop, DecodeFailure, UnknownMode (mode a)] then 1 else 2, None)
      | (t, Inr m) \<Rightarrow> (t, 0, Some m))"

section \<open>The normalizer meets the contract of safe objects\<close>

interpretation object_set_norm: object_normalizer normalize_object_path DuplicateObject
proof (unfold_locales, goal_cases)
  case (1 raw v)
  let ?s = "replace_char CHR 0x5C CHR ''/'' (strip raw)"
  from 1 have *: "path_root ?s = []" "''..'' \<notin> set (path_tail ?s)" "v = as_posix ?s"
    "endswith v ''.o''"
    by (auto simp: normalize_object_path_def Let_def is_absolute_def path_parts_def list_ex_iff
        split: if_splits)
  then have "path_tail ?s \<noteq> []" using path_tail_Nil_not_object by blast
  with * show ?case using relative_safe_object[of ?s] set_replace_char[of "CHR 0x5C" "CHR ''/''"]
    by simp
next
  case (2 v)
  note p = safe_object_parts[OF 2(1)]
  have "strip v = v" using p 2(2) by (intro strip_fixpoint) (simp add: is_ws_def)
  moreover have "replace_char CHR 0x5C CHR ''/'' v = v"
    using 2(1) by (intro replace_char_id) (simp add: safe_object_def)
  moreover have "\<not> startswith v ''/''" using 2(1) by (simp add: safe_object_def is_absolute_iff)
  ultimately show ?case
    using p 2(1) by (auto simp: normalize_object_path_def is_absolute_def list_ex_iff safe_object_def)
qed

lemma safe_object_tail:
  assumes "safe_object v"
  shows "path_tail v \<noteq> []" "''..'' \<notin> set (path_tail v)" "[] \<notin> set (path_tail v)"
  using safe_object_parts(2)[OF assms] assms by (auto simp: safe_object_def)

lemma safe_object_tail_inj: "safe_object v \<Longrightarrow> safe_object w \<Longrightarrow> path_tail v = path_tail w \<Longrightarrow> v = w"
  by (metis join_split_char safe_object_parts(2))

lemma read_object_list_ok:
  assumes "read_object_list text = Inr universe"
  shows "universe \<noteq> [] \<and> distinct universe \<and> (\<forall>v \<in> set universe. safe_object v)"
proof -
  from assms have "scan_objects normalize_object_path DuplicateObject 1 [] (splitlines text) = Inr universe"
    and "universe \<noteq> []"
    by (auto simp: read_object_list_def bindE_Inr_iff split: if_splits)
  with object_set_norm.scan_ok show ?thesis by blast
qed

section \<open>Writes stay inside the work root\<close>

lemma ensure_within_Inr:
  "real_dir s W \<Longrightarrow> ensure_within s W p label = Inr q \<Longrightarrow> resolve s p = Some q \<and> under W q"
  by (auto simp: ensure_within_def resolve_def real_dir_resolve resE split: if_splits)

lemma mkstemp_locate:
  "mkstemp par names s = Some r \<Longrightarrow> \<exists>d. locate s par = Some d \<and> node_at s d = Some DirN"
  by (cases names) (auto simp: entry_def split: option.splits if_splits)

lemma temp_phase_contained:
  assumes d: "dir_ok W par d s" and tmp: "s (d @ [n]) = Some (FileN b0)" and n: "n \<noteq> ''..''"
    and dst: "\<forall>a l. s (d @ [c]) \<noteq> Some (LinkN a l)"
  shows "contained W s (fst (finallyP
     (bindP (copy2 src (par @ [n])) (\<lambda>_. putP (\<lambda>s. of_option OSFailure (replace_path (par @ [n]) (par @ [c]) s))))
     (unlink_missing_ok (par @ [n])) s))" (is "contained W s (fst (finallyP ?m ?c s))")
proof (cases "\<exists>b t. read_bytes s src = Some b \<and> write_bytes b (par @ [n]) s = Some t")
  case False
  then have "fst (?m s) = s"
    by (auto simp: bindP_def copy2_def putP_def of_option_def bindE_def split: option.splits sum.splits)
  then show ?thesis using temp_file_contained(3)[OF d tmp n dst] by (simp add: finallyP_def split_beta)
next
  case True
  then obtain b t where t: "read_bytes s src = Some b" "write_bytes b (par @ [n]) s = Some t" by blast
  from temp_file_contained(1)[OF d tmp n dst t(2)] have w: "contained W s t"
    "t (d @ [n]) = Some (FileN b)" "\<forall>a l. t (d @ [c]) \<noteq> Some (LinkN a l)" by blast+
  note dt = dir_ok_step[OF d w(1)]
  show ?thesis
  proof (cases "replace_path (par @ [n]) (par @ [c]) t")
    case None
    then have "fst (?m s) = t" using t by (simp add: bindP_def copy2_def putP_def)
    then show ?thesis
      using contained_trans[OF w(1) temp_file_contained(3)[OF dt w(2) n w(3)]]
      by (simp add: finallyP_def split_beta)
  next
    case (Some u)
    from temp_file_contained(2)[OF dt w(2) n w(3) Some] have u: "contained W t u" "leaf (u (d @ [n]))" by blast+
    have "fst (?m s) = u" using t Some by (simp add: bindP_def copy2_def putP_def)
    then show ?thesis
      using contained_trans[OF w(1) contained_trans[OF u(1) unlink_contained[OF dir_ok_step[OF dt u(1)] u(2)]]]
      by (simp add: finallyP_def split_beta)
  qed
qed

lemma copy_atomic_contained:
  assumes dst: "dst = W @ rel" "rel \<noteq> []" "''..'' \<notin> set rel" "[] \<notin> set rel"
  shows "contained W s (fst (copy_atomic rnd src dst W s))"
proof (cases "fs_wf s \<and> real_dir s W")
  case True
  then have wf: "fs_wf s" and W: "real_dir s W" by auto
  let ?par = "butlast dst" and ?c = "last dst"
  have "dst \<noteq> []" using dst by simp
  then have pc: "dst = ?par @ [?c]" by simp
  have dots: "''..'' \<notin> set dst" using dst W by (simp add: real_dir_def)
  then have pd: "''..'' \<notin> set ?par" "''..'' \<notin> set [?c]" using pc
    by (metis Un_iff set_append)+
  consider (bad) e where "ensure_within s W dst ''work destination'' = Inl e"
    | (nodir) q where "ensure_within s W dst ''work destination'' = Inr q" "mkdir_parents ?par s = None"
    | (dir) q s1 where "ensure_within s W dst ''work destination'' = Inr q" "mkdir_parents ?par s = Some s1"
    by (cases "ensure_within s W dst ''work destination''"; cases "mkdir_parents ?par s") auto
  then show ?thesis
  proof cases
    case dir
    then have q: "resolve s (?par @ [?c]) = Some q" "under W q"
      using ensure_within_Inr[OF W dir(1)] pc by simp_all
    from mkdir_parents_contained[OF wf W dir(2) pd q] have s1: "contained W s s1" by blast
    then have W1: "real_dir s1 W" and wf1: "fs_wf s1" using wf W by (auto simp: contained_def)
    let ?names = "map (\<lambda>r. ''.'' @ last dst @ ''.'' @ r) (rnd dst)"
    show ?thesis
    proof (cases "(\<exists>e. ensure_within s1 W ?par ''work parent'' = Inl e) \<or> is_symlink s1 dst \<or>
        mkstemp ?par ?names s1 = None")
      case True
      then have "fst (copy_atomic rnd src dst W s) = s1"
        using dir by (cases "ensure_within s1 W ?par ''work parent''")
          (auto simp: copy_atomic_def bindP_def readP_def putP_def mkstempP_def ensure_def)
      with s1 show ?thesis by simp
    next
      case False
      then obtain pr p s2 where f: "ensure_within s1 W ?par ''work parent'' = Inr pr"
        "\<not> is_symlink s1 dst" "mkstemp ?par ?names s1 = Some (p, s2)"
        by (cases "ensure_within s1 W ?par ''work parent''") auto
      obtain d where d: "locate s1 ?par = Some d" "node_at s1 d = Some DirN"
        using mkstemp_locate[OF f(3)] by blast
      have "d = pr" "under W pr" using ensure_within_Inr[OF W1 f(1)]
          resolve_strict_lax[of True link_limit s1 "[]" ?par d] d(1) by (auto simp: resolve_def locate_def)
      with d W1 wf1 have ok: "dir_ok W ?par d s1" by (simp add: dir_ok_def)
      from mkstemp_dir_ok[OF ok f(3)] obtain n where n: "n \<in> set ?names" "p = ?par @ [n]"
        "s1 (d @ [n]) = None" "s2 = s1(d @ [n] \<mapsto> FileN [])" by blast
      have "last rel \<noteq> []" using dst(2,4) last_in_set[of rel] by metis
      then have nd: "n \<noteq> ''..''" using n(1) dst by (auto simp: append_eq_Cons_conv)
      have c2: "contained W s1 s2" unfolding n(4) by (rule dir_ok_update[OF ok]) (simp add: n(3))
      have "\<forall>a l. s1 (d @ [?c]) \<noteq> Some (LinkN a l)"
        using f(2) dir_ok_entry[OF ok, of ?c] pc by (auto simp: is_symlink_def lstat_def split: node.splits)
      then have nl: "\<forall>a l. s2 (d @ [?c]) \<noteq> Some (LinkN a l)" by (simp add: n(4))
      have "fst (copy_atomic rnd src dst W s) = fst (finallyP
         (bindP (copy2 src p) (\<lambda>_. putP (\<lambda>s. of_option OSFailure (replace_path p dst s))))
         (unlink_missing_ok p) s2)"
        using dir f by (simp add: copy_atomic_def bindP_def readP_def putP_def mkstempP_def ensure_def)
      moreover have tmp: "s2 (d @ [n]) = Some (FileN [])" by (simp add: n(4))
      note temp_phase_contained[OF dir_ok_step[OF ok c2] tmp nd nl, of src,
          folded n(2), folded pc]
      ultimately show ?thesis using contained_trans[OF s1 contained_trans[OF c2]] by metis
    qed
  qed (simp_all add: copy_atomic_def bindP_def readP_def putP_def)
qed (auto simp: contained_def)

lemma prepare1_contained:
  assumes "safe_object rel"
  shows "steps (contained W) (prepare1 sha256 rnd dry W selected bps cps (index, rel))"
proof -
  note t = safe_object_tail[OF assms]
  have c: "steps (contained W) (copy_atomic rnd src (W @ path_tail rel) W)" for src
    unfolding steps_def using copy_atomic_contained[OF refl t] by blast
  show ?thesis unfolding prepare1_def Let_def prod.case
    by (intro steps_bind transp_contained steps_read reflp_contained steps_ret)
      (auto intro!: steps_bind c simp: split: option.splits)
qed

lemma prepare_inputs_ok:
  assumes "prepare_inputs a s = Inr (baseline, candidate, work, universe, selected, bps, cps)"
  shows "resolve s (baseline_root a) = Some baseline \<and> resolve s (candidate_root a) = Some candidate \<and>
    resolve s (work_root a) = Some work \<and> choose_objects universe a = Inr selected \<and>
    (universe \<noteq> [] \<and> distinct universe \<and> (\<forall>v \<in> set universe. safe_object v)) \<and>
    mapE (\<lambda>rel. bindE (checked_object s baseline rel ''baseline object'') (\<lambda>p. Inr (rel, p))) universe = Inr bps \<and>
    mapE (\<lambda>rel. bindE (checked_object s candidate rel ''candidate object'') (\<lambda>p. Inr (rel, p))) selected = Inr cps"
  using assms by (auto simp: prepare_inputs_def resE dest!: read_object_list_ok)

lemma prepare1_dry: "steps (\<lambda>s t :: fs. t = s) (prepare1 sha256 rnd True W sel bps cps ir)"
  unfolding prepare1_def Let_def
  by (cases ir) (auto intro!: steps_bind simp: reflp_def transp_def split: option.splits)

lemma prepare_dry:
  assumes dry: "dry_run a"
  shows "fst (prepare sha256 rnd a s) = s"
proof -
  let ?R = "\<lambda>s t :: fs. t = s"
  have R: "reflp ?R" "transp ?R" by (auto simp: reflp_def transp_def)
  have "steps ?R (mapP (prepare1 sha256 rnd True W sel bps cps) xs)" for W sel bps cps xs
    by (intro steps_map R prepare1_dry)
  then have "steps ?R (prepare sha256 rnd a)"
    using R dry unfolding prepare_def report_def Let_def
    by (auto intro!: steps_bind split: option.splits prod.splits)
  then show ?thesis by (simp add: steps_def)
qed

text \<open>
  The loop over the objects, in a store where the work directory is there.
\<close>

lemma prepare_loop_contained:
  assumes "\<forall>v \<in> set universe. safe_object v"
  shows "contained W s (fst (mapP (prepare1 sha256 rnd dry W selected bps cps) (zip [1..<Suc (length universe)] universe) s))"
proof -
  have "steps (contained W) (mapP (prepare1 sha256 rnd dry W selected bps cps) (zip [1..<Suc (length universe)] universe))"
    using assms by (intro steps_map) (auto intro!: prepare1_contained dest!: set_zip_rightD)
  then show ?thesis by (simp add: steps_def)
qed

text \<open>The steps of a run that writes, once its inputs are valid.\<close>

lemma prepare_run:
  assumes "prepare_inputs a s = Inr (baseline, candidate, work, universe, selected, bps, cps)" and "\<not> dry_run a"
  shows "prepare sha256 rnd a s =
    (case mkdir_parents work s of
       None \<Rightarrow> (s, Inl OSFailure)
     | Some s1 \<Rightarrow> bindP (mapP (prepare1 sha256 rnd False work selected bps cps) (zip [1..<Suc (length universe)] universe))
         (report a baseline candidate work selected) s1)"
  using assms by (simp add: prepare_def bindP_readP bindP_putP del: upt_Suc split: option.splits)

lemma prepare_run_dry:
  assumes "prepare_inputs a s = Inr (baseline, candidate, work, universe, selected, bps, cps)" and "dry_run a"
  shows "prepare sha256 rnd a s =
    bindP (mapP (prepare1 sha256 rnd True work selected bps cps) (zip [1..<Suc (length universe)] universe))
      (report a baseline candidate work selected) s"
proof -
  have "bindP (retP ()) f = f ()" for f :: "unit \<Rightarrow> (fs, object_set_error, manifest) prog"
    by (rule ext) (simp add: bindP_def retP_def)
  with assms show ?thesis by (simp add: prepare_def bindP_readP del: upt_Suc)
qed

lemma report_run:
  assumes "\<not> dry_run a" and "report a baseline candidate work selected entries s = (t, v)"
  shows "t = s \<and> (\<exists>e. v = Inl e) \<or>
    (\<exists>objects. resolve s (objects_file a) = Some objects \<and>
      (let m = \<lparr> mf_mode = mode a, mf_dry_run = False, mf_baseline_root = baseline,
               mf_candidate_root = candidate, mf_work_root = work, mf_objects_file = objects,
               mf_selected = selected, mf_objects = entries \<rparr> in
       case manifest_arg a of
         None \<Rightarrow> t = s \<and> v = Inr m
       | Some mp \<Rightarrow> (\<exists>s3. mkdir_parents (butlast mp) s = Some s3 \<and>
           (t = s3 \<and> v = Inl OSFailure \<or> v = Inr m \<and> write_bytes (manifest_bytes m) mp s3 = Some t))))"
  using assms
  by (auto simp: report_def bindP_def readP_def putP_def retP_def of_option_def Let_def
      split: option.splits sum.splits if_splits prod.splits)

text \<open>
  What may happen outside of the work directory \<open>W\<close>: directories appear there, and at the end the manifest is written at the path that was asked for,
  which changes one file.
\<close>

definition dirs_appear :: "path \<Rightarrow> fs \<Rightarrow> fs \<Rightarrow> bool" where
  "dirs_appear W s u \<longleftrightarrow> (\<forall>p. \<not> under W p \<longrightarrow> u p = s p \<or> s p = None \<and> u p = Some DirN)"

definition manifest_written :: "args \<Rightarrow> object_set_error + manifest \<Rightarrow> fs \<Rightarrow> fs \<Rightarrow> bool" where
  "manifest_written a r u t \<longleftrightarrow> \<not> dry_run a \<and> (\<exists>mp m q. manifest_arg a = Some mp \<and> r = Inr m \<and>
     write_bytes (manifest_bytes m) mp u = Some t \<and> t = u(q \<mapsto> FileN (manifest_bytes m)))"

lemma dirs_appear_refl: "dirs_appear W s s"
  by (simp add: dirs_appear_def)

lemma dirs_appear_adds: "dirs_appear W s u \<Longrightarrow> adds_dirs u v \<Longrightarrow> dirs_appear W s v"
  unfolding dirs_appear_def adds_dirs_def by metis

lemma write_bytes_at: "write_bytes b p s = Some t \<Longrightarrow> \<exists>q. t = s(q \<mapsto> FileN b)"
  by (auto simp: write_bytes_def split: option.splits node.splits if_splits)

lemma adds_dirs_refl: "adds_dirs s s"
  by (simp add: adds_dirs_def)

lemma report_outside:
  assumes "\<not> dry_run a" and "report a baseline candidate W selected entries s = (t, v)"
  shows "\<exists>u. adds_dirs s u \<and> (t = u \<or> manifest_written a v u t)"
proof -
  consider "t = s" | mp where "mkdir_parents (butlast mp) s = Some t"
    | mp u m where "manifest_arg a = Some mp" "mkdir_parents (butlast mp) s = Some u" "v = Inr m" "write_bytes (manifest_bytes m) mp u = Some t"
    using report_run [OF assms] by (auto simp: Let_def split: option.splits)
  then show ?thesis
  proof cases
    case 1
    then show ?thesis using adds_dirs_refl by blast
  next
    case (2 mp)
    then show ?thesis using mkdir_parents_adds by blast
  next
    case (3 mp u m)
    then have "manifest_written a v u t" using write_bytes_at [OF 3(4)] assms(1) by (auto simp: manifest_written_def)
    then show ?thesis using mkdir_parents_adds [OF 3(2)] by blast
  qed
qed

text \<open>
  C2. Whatever the store holds, symbolic links included, whether the work directory exists or not, and whether the preparation succeeds or
  raises half-way: outside of the resolved work directory no file, link or directory changes or disappears.  All that can happen there is that missing
  directories are created (those above the work directory and above the manifest), and that, only when a manifest was asked for and the preparation succeeds, the text
  of the manifest is at the end written to the path that was asked for, which changes one file.
\<close>

theorem prepare_stays_inside_work:
  assumes "fs_wf s" and "resolve s (work_root a) = Some W" and "prepare sha256 rnd a s = (t, r)"
  shows "\<exists>u. dirs_appear W s u \<and> (t = u \<or> manifest_written a r u t)"
proof (cases "\<exists>x s1. prepare_inputs a s = Inr x \<and> \<not> dry_run a \<and> mkdir_parents W s = Some s1")
  case True
  then obtain baseline candidate work universe selected bps cps s1 where real: "\<not> dry_run a" and mk: "mkdir_parents W s = Some s1"
    and x: "prepare_inputs a s = Inr (baseline, candidate, work, universe, selected, bps, cps)" by auto
  note ok = prepare_inputs_ok [OF x]
  have work: "work = W" and safe: "\<forall>v \<in> set universe. safe_object v" using ok assms(2) by auto
  have free: "link_free s W"
    using assms(2) resolve_link_free [of s "[]" link_limit "work_root a" W] by (simp add: resolve_def link_free_def node_at_def)
  have s1: "adds_dirs s s1" "fs_wf s1" "real_dir s1 W"
    using mkdir_parents_adds [OF mk] mkdir_parents_real [OF assms(1) mk free] by blast+
  let ?loop = "mapP (prepare1 sha256 rnd (dry_run a) W selected bps cps) (zip [1..<Suc (length universe)] universe)"
  obtain s2 l where loop: "?loop s1 = (s2, l)" by fastforce
  then have "contained W s1 s2" using prepare_loop_contained [OF safe, of W s1 sha256 rnd "dry_run a" selected bps cps] by simp
  then have s2: "dirs_appear W s s2" using s1 by (auto simp: contained_def dirs_appear_def adds_dirs_def)
  have run: "prepare sha256 rnd a s = (case l of Inl e \<Rightarrow> (s2, Inl e) | Inr entries \<Rightarrow> report a baseline candidate W selected entries s2)"
    using prepare_run [OF x real] work real mk loop by (simp add: bindP_def del: upt_Suc)
  show ?thesis
  proof (cases l)
    case (Inl e)
    with run s2 assms(3) show ?thesis by auto
  next
    case (Inr entries)
    with run assms(3) have "report a baseline candidate W selected entries s2 = (t, r)" by simp
    from report_outside [OF real this] show ?thesis using dirs_appear_adds [OF s2] by blast
  qed
next
  case False
  have "fst (prepare sha256 rnd a s) = s"
  proof (cases "prepare_inputs a s")
    case (Inr x)
    then obtain baseline candidate work universe selected bps cps where
      x: "prepare_inputs a s = Inr (baseline, candidate, work, universe, selected, bps, cps)" by (cases x) auto
    then have "work = W" using prepare_inputs_ok [OF x] assms(2) by simp
    moreover have "dry_run a \<or> mkdir_parents W s = None" using False x by (cases "mkdir_parents W s") auto
    ultimately show ?thesis using prepare_run [OF x] prepare_dry [of a] by (cases "dry_run a") auto
  qed (simp add: prepare_def bindP_readP)
  then show ?thesis using assms(3) dirs_appear_refl by auto
qed

text \<open>
  A dry run never changes the store, and neither does a run whose inputs do not validate: a
  missing, linked or malformed object is found before the first write.
\<close>

theorem prepare_validates_first:
  assumes "dry_run a \<or> (\<exists>e. prepare_inputs a s = Inl e)"
  shows "fst (prepare sha256 rnd a s) = s"
proof (cases "dry_run a")
  case False
  with assms obtain e where "prepare_inputs a s = Inl e" by auto
  then show ?thesis by (simp add: prepare_def bindP_readP)
qed (rule prepare_dry)

section \<open>What a preparation produces\<close>

lemma copy_atomic_plain:
  assumes s: "plain s" and dots: "''..'' \<notin> set dst" "''..'' \<notin> set src" and dst: "dst \<noteq> []" "last dst \<noteq> []"
    and src: "s src = Some (FileN b)"
    and run: "copy_atomic rnd src dst W s = (t, Inr ())"
  shows "plain t \<and> t dst = Some (FileN b) \<and> only_file dst s t"
proof -
  let ?par = "butlast dst" and ?c = "last dst"
  have pc: "dst = ?par @ [?c]" using dst by simp
  have pd: "''..'' \<notin> set ?par" using dots(1) by (meson in_set_butlastD)
  from run obtain s1 p s2 s3 s4 where r: "mkdir_parents ?par s = Some s1"
    "mkstemp ?par (map (\<lambda>r. ''.'' @ ?c @ ''.'' @ r) (rnd dst)) s1 = Some (p, s2)"
    "bindE (of_option OSFailure (read_bytes s2 src)) (\<lambda>b. of_option OSFailure (write_bytes b p s2)) = Inr s3"
    "replace_path p dst s3 = Some s4" "t = unlink_missing_ok p s4"
    by (auto simp: copy_atomic_def bindP_Inr finallyP_Inr copy2_def mkstempP_def of_option_Inr_iff
        split: option.splits)
  from mkdir_parents_plain[OF s r(1) pd] have s1: "plain s1" "node_at s1 ?par = Some DirN"
    "\<forall>x. s1 x = s x \<or> s x = None \<and> s1 x = Some DirN" by blast+
  note ok = plain_dir_ok[OF s1(1) pd s1(2)]
  from mkstemp_dir_ok[OF ok r(2)] obtain n where n: "n \<in> set (map (\<lambda>r. ''.'' @ ?c @ ''.'' @ r) (rnd dst))"
    "p = ?par @ [n]" "s1 p = None" "s2 = s1(p \<mapsto> FileN [])" by blast
  have len: "length n \<ge> length ?c + 2" using n(1) by auto
  then have nd: "n \<noteq> ''..''" "n \<noteq> ?c" using dst(2) by auto
  then have pne: "p \<noteq> dst" using n(2) pc by (metis append1_eq_conv)
  have s1src: "s1 src = Some (FileN b)" using s1(3) src by (metis option.distinct(1))
  then have srcp: "src \<noteq> p" using n(3) by auto
  have "contained [] s1 s2" unfolding n(4) n(2) by (rule dir_ok_update[OF ok]) (use n(2,3) in simp)
  note ok2 = dir_ok_step[OF ok this]
  have p2: "plain s2"
    using plain_update[OF s1(1,2), of n "Some (FileN [])"] n(2-4) by simp
  have "read_bytes s2 src = Some b" unfolding read_bytes_plain[OF p2 dots(2)] using s1src srcp by (simp add: n(4))
  with r(3) have "write_bytes b (?par @ [n]) s2 = Some s3" using n(2) by (simp add: of_option_Inr_iff)
  then have s3: "s3 = s2(p \<mapsto> FileN b)" using write_bytes_dir_ok[OF ok2 _ nd(1)] n(2,4) by auto
  have p3: "plain s3" using plain_update[OF p2, of ?par n "Some (FileN b)"] ok2 n(2,4) s3
    by (simp add: dir_ok_def)
  have d3: "node_at s3 ?par = Some DirN" using ok2 s3 n(2) by (auto simp: dir_ok_def node_at_def)
  note ok3 = plain_dir_ok[OF p3 pd d3]
  have e: "entry s3 p = Some p" "entry s3 dst = Some dst"
    using dir_ok_entry[OF ok3, of n] dir_ok_entry[OF ok3, of ?c] n(2) pc by simp_all
  have s4: "s4 = (s3(p := None))(dst \<mapsto> FileN b)" and dd: "s3 dst \<noteq> Some DirN"
    using r(4) e n(2) dst(1) s3 by (auto simp: replace_path_def node_at_def split: option.splits node.splits)
  have at4: "s4 x = (if x = dst then Some (FileN b) else s1 x)" for x
    using s4 s3 n(3,4) pne by auto
  then have s4': "s4 = s1(dst \<mapsto> FileN b)" by auto
  have "s1 dst \<noteq> Some DirN" using dd s3 n(4) pne by auto
  then have p4: "plain s4" unfolding s4' using plain_update[OF s1(1,2), of ?c "Some (FileN b)"] pc by simp
  have "entry s4 p = Some p \<or> entry s4 p = None"
    using entry_plain[of s4 p] p4 n(2) pd nd(1) by (auto simp: plain_def)
  then have "t = s4" using r(5) at4[of p] n(3) pne by (auto simp: unlink_missing_ok_def)
  with p4 at4 s1(3) show ?thesis unfolding only_file_def by (auto simp: s4')
qed

lemma prepare1_plain:
  assumes s: "plain s" and rel: "safe_object rel"
    and base: "map_of bps rel = Some base" and cand: "cand = map_of cps rel"
    and srcs: "''..'' \<notin> set base" "\<forall>c. cand = Some c \<longrightarrow> ''..'' \<notin> set c \<and> c \<noteq> W @ path_tail rel"
    and W: "''..'' \<notin> set W"
    and run: "prepare1 sha256 rnd False W selected bps cps (i, rel) s = (t, Inr e)"
  shows "\<exists>b. s (case cand of None \<Rightarrow> base | Some c \<Rightarrow> c) = Some (FileN b) \<and> plain t \<and>
    t (W @ path_tail rel) = Some (FileN b) \<and> only_file (W @ path_tail rel) s t \<and>
    en_path e = rel \<and> en_result_sha256 e = sha256 b \<and>
    en_provenance e = (if rel \<in> set selected then ''minic'' else ''gcc-baseline'')"
proof -
  let ?dst = "W @ path_tail rel"
  note tl = safe_object_tail[OF rel]
  have dst: "''..'' \<notin> set ?dst" "?dst \<noteq> []" "last ?dst \<noteq> []"
    using tl W last_in_set[of "path_tail rel"] by (auto simp del: last_in_set)
  from run obtain b s1 where b: "s base = Some (FileN b)"
    and c1: "copy_atomic rnd base ?dst W s = (s1, Inr ())"
    and rest: "(case cand of None \<Rightarrow> s1 = t | Some c \<Rightarrow> (\<exists>bc. s c = Some (FileN bc)) \<and> copy_atomic rnd c ?dst W s1 = (t, Inr ()))"
    and e: "en_path e = rel" "en_provenance e = (if rel \<in> set selected then ''minic'' else ''gcc-baseline'')"
      "\<exists>br. read_bytes t ?dst = Some br \<and> en_result_sha256 e = sha256 br"
    by (cases cand) (auto simp: prepare1_def Let_def base cand[symmetric] bindP_Inr resE failP_def
        read_bytes_plain[OF s srcs(1)] read_bytes_plain[OF s] srcs split: if_splits)
  from copy_atomic_plain[OF s dst(1) srcs(1) dst(2,3) b c1]
  have s1: "plain s1" "s1 ?dst = Some (FileN b)" "only_file ?dst s s1" by blast+
  show ?thesis
  proof (cases cand)
    case None
    with rest have "t = s1" by simp
    with None s1 b e dst(1) show ?thesis by (auto simp: read_bytes_plain)
  next
    case (Some c)
    then obtain bc where bc: "s c = Some (FileN bc)" and c2: "copy_atomic rnd c ?dst W s1 = (t, Inr ())"
      using rest by auto
    have c: "''..'' \<notin> set c" "c \<noteq> ?dst" using srcs(2) Some by auto
    have "s1 c = Some (FileN bc)" using only_file_keeps[OF s1(3) c(2) bc] .
    from copy_atomic_plain[OF s1(1) dst(1) c(1) dst(2,3) this c2]
    have "plain t" "t ?dst = Some (FileN bc)" "only_file ?dst s1 t" by blast+
    with Some bc e dst(1) only_file_trans[OF s1(3)] show ?thesis by (auto simp: read_bytes_plain)
  qed
qed

lemma checked_paths:
  "mapE (\<lambda>rel. bindE (checked_object s root rel label) (\<lambda>p. Inr (rel, p))) xs = Inr ps \<Longrightarrow>
   ps = map (\<lambda>rel. (rel, root @ path_tail rel)) xs"
proof (induction xs arbitrary: ps)
  case (Cons x xs)
  then show ?case
    by (auto simp: resE checked_object_def Let_def split: if_splits)
qed simp

lemma map_of_pairs: "map_of (map (\<lambda>x. (x, f x)) xs) x = (if x \<in> set xs then Some (f x) else None)"
  by (induction xs) auto

text \<open>
  The manifest one expects: the bytes of the trees before the run, one entry per object of the
  universe, numbered from one.
\<close>

definition bytes_at :: "fs \<Rightarrow> path \<Rightarrow> byte list" where
  "bytes_at s p = (case s p of Some (FileN b) \<Rightarrow> b | _ \<Rightarrow> [])"

definition source_of :: "args \<Rightarrow> string list \<Rightarrow> string \<Rightarrow> path" where
  "source_of a selected rel = (if rel \<in> set selected then candidate_root a else baseline_root a) @ path_tail rel"

definition expected_entry :: "(byte list \<Rightarrow> string) \<Rightarrow> args \<Rightarrow> string list \<Rightarrow> fs \<Rightarrow> nat \<times> string \<Rightarrow> entry_record" where
  "expected_entry sha256 a selected s ir = (case ir of (i, rel) \<Rightarrow>
     \<lparr> en_index = i, en_path = rel,
       en_provenance = (if rel \<in> set selected then ''minic'' else ''gcc-baseline''),
       en_baseline_sha256 = sha256 (bytes_at s (baseline_root a @ path_tail rel)),
       en_candidate_sha256 =
         (if rel \<in> set selected then Some (sha256 (bytes_at s (candidate_root a @ path_tail rel))) else None),
       en_result_sha256 = sha256 (bytes_at s (source_of a selected rel)),
       en_source = source_of a selected rel \<rparr>)"

definition expected_manifest ::
  "(byte list \<Rightarrow> string) \<Rightarrow> args \<Rightarrow> string list \<Rightarrow> string list \<Rightarrow> fs \<Rightarrow> manifest" where
  "expected_manifest sha256 a universe selected s =
     \<lparr> mf_mode = mode a, mf_dry_run = dry_run a, mf_baseline_root = baseline_root a,
       mf_candidate_root = candidate_root a, mf_work_root = work_root a, mf_objects_file = objects_file a,
       mf_selected = selected,
       mf_objects = map (expected_entry sha256 a selected s) (zip [1..<Suc (length universe)] universe) \<rparr>"

text \<open>The preparation loop copies files in the sense of the contract of the store.\<close>

definition prep_src :: "path \<Rightarrow> path \<Rightarrow> string list \<Rightarrow> nat \<times> string \<Rightarrow> path" where
  "prep_src baseline candidate selected ir =
     (if snd ir \<in> set selected then candidate else baseline) @ path_tail (snd ir)"

definition prep_dst :: "path \<Rightarrow> nat \<times> string \<Rightarrow> path" where
  "prep_dst work ir = work @ path_tail (snd ir)"

definition prep_good :: "path \<Rightarrow> path \<Rightarrow> path \<Rightarrow> string list \<Rightarrow> nat \<times> string \<Rightarrow> bool" where
  "prep_good baseline candidate work universe ir \<longleftrightarrow>
     ''..'' \<notin> set (work @ baseline @ candidate) \<and>
     (\<forall>x y. baseline @ x \<noteq> work @ y \<and> candidate @ x \<noteq> work @ y) \<and>
     snd ir \<in> set universe \<and> safe_object (snd ir)"

definition prep_says :: "(byte list \<Rightarrow> string) \<Rightarrow> string list \<Rightarrow> nat \<times> string \<Rightarrow> byte list \<Rightarrow> entry_record \<Rightarrow> bool" where
  "prep_says sha256 selected ir b e \<longleftrightarrow> en_path e = snd ir \<and> en_result_sha256 e = sha256 b \<and>
     en_provenance e = (if snd ir \<in> set selected then ''minic'' else ''gcc-baseline'')"

interpretation preparer: file_copier
  "prepare1 sha256 rnd False work selected (map (\<lambda>rel. (rel, baseline @ path_tail rel)) universe)
     (map (\<lambda>rel. (rel, candidate @ path_tail rel)) selected)"
  "prep_src baseline candidate selected" "prep_dst work" "prep_good baseline candidate work universe" snd
  "prep_says sha256 selected" for sha256 rnd work selected baseline candidate universe
proof (unfold_locales, goal_cases)
  case (1 ir s t e)
  obtain i rel where ir: "ir = (i, rel)" by (cases ir)
  have g: "''..'' \<notin> set work" "''..'' \<notin> set baseline" "''..'' \<notin> set candidate" "rel \<in> set universe"
    "safe_object rel" "candidate \<noteq> work" using 1(1) ir by (auto simp: prep_good_def)
  note tl = safe_object_tail[OF g(5)]
  from prepare1_plain[OF 1(2) g(5) _ refl _ _ g(1) 1(3)[unfolded ir], of "baseline @ path_tail rel"] g tl ir
  show ?case by (auto simp: map_of_pairs prep_src_def prep_dst_def prep_says_def)
next
  case (2 x y)
  then show ?case by (auto simp: prep_src_def prep_dst_def prep_good_def)
next
  case (3 x y)
  then show ?case using safe_object_tail_inj by (auto simp: prep_dst_def prep_good_def)
qed

lemma prepare1_entry:
  assumes s: "plain s" and rel: "safe_object rel" "rel \<in> set universe"
    and dots: "''..'' \<notin> set (baseline_root a @ candidate_root a)"
    and run: "prepare1 sha256 rnd dry W selected (map (\<lambda>rel. (rel, baseline_root a @ path_tail rel)) universe)
      (map (\<lambda>rel. (rel, candidate_root a @ path_tail rel)) selected) (i, rel) s = (t, Inr e)"
  shows "e = expected_entry sha256 a selected s (i, rel)"
proof -
  have d: "''..'' \<notin> set (baseline_root a @ path_tail rel)" "''..'' \<notin> set (candidate_root a @ path_tail rel)"
    using dots safe_object_tail[OF rel(1)] by auto
  have at: "bytes_at s p = b" if "s p = Some (FileN b)" for p b using that by (simp add: bytes_at_def)
  show ?thesis using run rel(2)
    by (cases "rel \<in> set selected"; cases dry)
      (auto simp: prepare1_def Let_def map_of_pairs bindP_Inr resE failP_def read_bytes_plain[OF s d(1)]
        read_bytes_plain[OF s d(2)] expected_entry_def source_of_def at split: if_splits)
qed

lemma mapP_invariant:
  "mapP f xs s = (t, Inr ys) \<Longrightarrow> I s \<Longrightarrow>
   (\<And>x s t y. x \<in> set xs \<Longrightarrow> I s \<Longrightarrow> f x s = (t, Inr y) \<Longrightarrow> I t \<and> y = g x) \<Longrightarrow> I t \<and> ys = map g xs"
proof (induction xs arbitrary: s ys)
  case (Cons x xs)
  from Cons.prems(1) obtain u y ys' where r: "f x s = (u, Inr y)" "mapP f xs u = (t, Inr ys')" "ys = y # ys'"
    by (auto simp: bindP_Inr)
  have "I u \<and> y = g x" using Cons.prems(3)[of x s u y] Cons.prems(2) r(1) by simp
  with Cons.IH[OF r(2)] Cons.prems(3) r(3) show ?case by (metis list.set_intros(2) list.simps(9))
qed simp

text \<open>The store as the loop sees it: the two source trees stay as they were.\<close>

definition sources_kept :: "args \<Rightarrow> fs \<Rightarrow> fs \<Rightarrow> bool" where
  "sources_kept a s u \<longleftrightarrow> plain u \<and>
     (\<forall>x. bytes_at u (baseline_root a @ x) = bytes_at s (baseline_root a @ x) \<and>
          bytes_at u (candidate_root a @ x) = bytes_at s (candidate_root a @ x))"

lemma sources_kept_entry: "sources_kept a s u \<Longrightarrow> expected_entry sha256 a selected u ir = expected_entry sha256 a selected s ir"
  by (cases ir) (simp add: sources_kept_def expected_entry_def source_of_def)

lemma only_file_bytes: "only_file dst s t \<Longrightarrow> x \<noteq> dst \<Longrightarrow> bytes_at t x = bytes_at s x"
  by (auto simp: only_file_def bytes_at_def dest!: spec [of _ x])

text \<open>The universe an object list names.\<close>

definition universe_of :: "args \<Rightarrow> fs \<Rightarrow> string list \<Rightarrow> bool" where
  "universe_of a s universe \<longleftrightarrow> (\<exists>b text. read_bytes s (objects_file a) = Some b \<and> decode_utf8 b = Some text \<and>
     read_object_list text = Inr universe)"

lemma prepare_inputs_universe:
  "prepare_inputs a s = Inr (baseline, candidate, work, universe, selected, bps, cps) \<Longrightarrow> universe_of a s universe"
  by (auto simp: prepare_inputs_def resE universe_of_def)

lemma report_manifest:
  assumes "report a baseline candidate work selected entries s = (t, Inr m)" "plain s" "''..'' \<notin> set (objects_file a)"
  shows "m = \<lparr> mf_mode = mode a, mf_dry_run = dry_run a, mf_baseline_root = baseline,
               mf_candidate_root = candidate, mf_work_root = work, mf_objects_file = objects_file a,
               mf_selected = selected, mf_objects = entries \<rparr>"
proof -
  have "resolve s (objects_file a) = Some (objects_file a)"
    using assms(2,3) resolve_plain[of s "objects_file a" link_limit "[]"] by (simp add: resolve_def plain_def)
  with assms(1) show ?thesis by (auto simp: report_def Let_def bindP_Inr resE split: option.splits)
qed

lemma report_plain:
  assumes "\<not> dry_run a" "report a baseline candidate work selected entries s = (t, Inr m)" "plain s"
    and "''..'' \<notin> set ((case manifest_arg a of None \<Rightarrow> [] | Some mp \<Rightarrow> mp))"
  shows "(\<forall>mp. manifest_arg a = Some mp \<longrightarrow> t mp = Some (FileN (manifest_bytes m))) \<and>
    (\<forall>p b. s p = Some (FileN b) \<longrightarrow> manifest_arg a = Some p \<or> t p = Some (FileN b))"
proof (cases "manifest_arg a")
  case None
  with report_run[OF assms(1,2)] show ?thesis by (auto simp: Let_def)
next
  case (Some mp)
  with report_run[OF assms(1,2)] obtain s3 where s3: "mkdir_parents (butlast mp) s = Some s3"
    "write_bytes (manifest_bytes m) mp s3 = Some t" by (auto simp: Let_def)
  have d: "''..'' \<notin> set mp" "''..'' \<notin> set (butlast mp)" using assms(4) Some by (auto dest: in_set_butlastD)
  from mkdir_parents_plain[OF assms(3) s3(1) d(2)] have p3: "plain s3"
    "\<forall>x. s3 x = s x \<or> s x = None \<and> s3 x = Some DirN" by blast+
  have ne: "mp \<noteq> []"
  proof
    assume "mp = []"
    with s3(2) show False by (simp add: write_bytes_def locate_def node_at_def)
  qed
  have t: "t = s3(mp \<mapsto> FileN (manifest_bytes m))" using write_bytes_plain[OF p3(1) d(1) ne s3(2)] by blast
  have "s3 p = Some (FileN b)" if "s p = Some (FileN b)" for p b using p3(2) that by (metis option.distinct(1))
  with t Some show ?thesis by auto
qed

lemma prepare_loop_plain:
  assumes s: "sources_kept a s s1" and safe: "\<forall>v \<in> set universe. safe_object v" "distinct universe"
    and dots: "''..'' \<notin> set (work_root a @ baseline_root a @ candidate_root a)"
    and apart: "\<forall>x y. baseline_root a @ x \<noteq> work_root a @ y \<and> candidate_root a @ x \<noteq> work_root a @ y"
    and loop: "mapP (prepare1 sha256 rnd False (work_root a) selected
        (map (\<lambda>rel. (rel, baseline_root a @ path_tail rel)) universe)
        (map (\<lambda>rel. (rel, candidate_root a @ path_tail rel)) selected)) (zip [1..<Suc (length universe)] universe) s1 = (t, Inr es)"
  shows "plain t \<and> es = map (expected_entry sha256 a selected s) (zip [1..<Suc (length universe)] universe) \<and>
    (\<forall>rel \<in> set universe. \<exists>b. s1 (source_of a selected rel) = Some (FileN b) \<and> t (work_root a @ path_tail rel) = Some (FileN b))"
proof -
  let ?irs = "zip [1..<Suc (length universe)] universe"
  have irs: "map snd ?irs = universe" using map_snd_zip[of "[1..<Suc (length universe)]" universe] by (simp del: upt_Suc)
  have good: "\<forall>ir \<in> set ?irs. prep_good (baseline_root a) (candidate_root a) (work_root a) universe ir"
    using dots apart safe by (auto simp: prep_good_def dest: set_zip_rightD)
  have p1: "plain s1" using s by (simp add: sources_kept_def)
  from preparer.copies_all[OF p1 loop _ good] irs safe(2)
  have l2: "list_all2 (copied (prep_src (baseline_root a) (candidate_root a) selected) (prep_dst (work_root a))
      (prep_says sha256 selected) s1 t) ?irs es" by metis
  have placed: "\<exists>b. s1 (source_of a selected rel) = Some (FileN b) \<and> t (work_root a @ path_tail rel) = Some (FileN b)"
    if "rel \<in> set universe" for rel
  proof -
    from that irs obtain ir where ir: "ir \<in> set ?irs" "snd ir = rel" by (metis (no_types, lifting) imageE set_map)
    from l2 ir(1) obtain e where "copied (prep_src (baseline_root a) (candidate_root a) selected) (prep_dst (work_root a))
      (prep_says sha256 selected) s1 t ir e" by (metis list_all2_conv_all_nth in_set_conv_nth)
    with ir(2) show ?thesis by (auto simp: copied_def prep_src_def prep_dst_def source_of_def)
  qed
  have step: "sources_kept a s v \<and> e = expected_entry sha256 a selected s ir"
    if "ir \<in> set ?irs" and u: "sources_kept a s u" and r: "prepare1 sha256 rnd False (work_root a) selected
        (map (\<lambda>rel. (rel, baseline_root a @ path_tail rel)) universe)
        (map (\<lambda>rel. (rel, candidate_root a @ path_tail rel)) selected) ir u = (v, Inr e)" for ir u v e
  proof -
    obtain i rel where ir: "ir = (i, rel)" by (cases ir)
    with that have rel: "rel \<in> set universe" "safe_object rel" using safe by (auto dest: set_zip_rightD)
    have pu: "plain u" using u by (simp add: sources_kept_def)
    from preparer.step_copies[OF _ pu r] good that(1)
    have v: "plain v" "only_file (prep_dst (work_root a) ir) u v" by blast+
    then have "sources_kept a s v" using u only_file_bytes[OF v(2)] apart by (simp add: sources_kept_def prep_dst_def)
    moreover have "e = expected_entry sha256 a selected u ir"
      using prepare1_entry[OF pu rel(2,1) _ r[unfolded ir]] dots ir by simp
    ultimately show ?thesis using sources_kept_entry[OF u] by metis
  qed
  have "sources_kept a s t \<and> es = map (expected_entry sha256 a selected s) ?irs"
    by (rule mapP_invariant[where I = "sources_kept a s" and g = "expected_entry sha256 a selected s", OF loop s]) (rule step)
  with placed show ?thesis by (auto simp: sources_kept_def)
qed

lemma prepare_dry_manifest:
  assumes s: "plain s" and dry: "dry_run a"
    and x: "prepare_inputs a s = Inr (baseline_root a, candidate_root a, work_root a, universe, selected,
       map (\<lambda>rel. (rel, baseline_root a @ path_tail rel)) universe, map (\<lambda>rel. (rel, candidate_root a @ path_tail rel)) selected)"
    and safe: "\<forall>v \<in> set universe. safe_object v"
    and dots: "''..'' \<notin> set (baseline_root a @ candidate_root a)" "''..'' \<notin> set (objects_file a)"
    and run: "prepare sha256 rnd a s = (t, Inr m)"
  shows "m = expected_manifest sha256 a universe selected s"
proof -
  let ?p1 = "prepare1 sha256 rnd True (work_root a) selected (map (\<lambda>rel. (rel, baseline_root a @ path_tail rel)) universe)
     (map (\<lambda>rel. (rel, candidate_root a @ path_tail rel)) selected)"
  from run[unfolded prepare_run_dry[OF x dry]] obtain s2 es where loop: "mapP ?p1 (zip [1..<Suc (length universe)] universe) s = (s2, Inr es)"
    and rep: "report a (baseline_root a) (candidate_root a) (work_root a) selected es s2 = (t, Inr m)"
    unfolding bindP_Inr by blast
  have "v = u \<and> e = expected_entry sha256 a selected u ir"
    if "ir \<in> set (zip [1..<Suc (length universe)] universe)" and u: "plain u" and r: "?p1 ir u = (v, Inr e)" for ir u v e
  proof -
    obtain i rel where ir: "ir = (i, rel)" by (cases ir)
    with that have rel: "rel \<in> set universe" "safe_object rel" using safe by (auto dest: set_zip_rightD)
    have "fst (?p1 ir u) = u" using prepare1_dry by (simp add: steps_def)
    then have "v = u" using r by simp
    with prepare1_entry[OF u rel(2,1) dots(1) r[unfolded ir]] ir show ?thesis by simp
  qed
  with s have step: "v = s \<and> e = expected_entry sha256 a selected s ir"
    if "ir \<in> set (zip [1..<Suc (length universe)] universe)" "u = s" "?p1 ir u = (v, Inr e)" for ir u v e
    using that by blast
  have "s2 = s \<and> es = map (expected_entry sha256 a selected s) (zip [1..<Suc (length universe)] universe)"
    by (rule mapP_invariant[where I = "\<lambda>u. u = s" and g = "expected_entry sha256 a selected s", OF loop refl]) (rule step)
  with report_manifest[OF rep _ dots(2)] s show ?thesis by (simp add: expected_manifest_def dry del: upt_Suc)
qed

text \<open>
  C25. When a preparation over a store without links succeeds, and the baseline and candidate trees
  lie outside the work tree and do not contain it (no path given on the command line has dots), then
  the manifest it returns is, field for field, the expected one: the mode and the roots of the command line, the selection
  of the universe that the object list names, and one entry per object of the universe, in order and numbered from one, with
  the provenance, the digests of what the baseline and the candidate held before the run, the digest of the result and the
  source it came from.  In a dry run nothing changes.  Otherwise each prepared object holds byte for byte
  what its source held before the run, unless the manifest itself was asked for at that very path; and when a manifest was asked for, the
  file holds the text of the manifest that is returned.
\<close>

theorem prepare_manifest_truthful:
  assumes "plain s"
    and "''..'' \<notin> set (work_root a @ baseline_root a @ candidate_root a @ objects_file a @ (case manifest_arg a of None \<Rightarrow> [] | Some mp \<Rightarrow> mp))"
    and "\<forall>x y. baseline_root a @ x \<noteq> work_root a @ y \<and> candidate_root a @ x \<noteq> work_root a @ y"
    and "prepare sha256 rnd a s = (t, Inr m)"
  shows "\<exists>universe selected. universe_of a s universe \<and> choose_objects universe a = Inr selected \<and>
    m = expected_manifest sha256 a universe selected s \<and>
    (dry_run a \<longrightarrow> t = s) \<and>
    (\<not> dry_run a \<longrightarrow>
       (\<forall>rel \<in> set universe. manifest_arg a = Some (work_root a @ path_tail rel) \<or>
          (\<exists>b. s (source_of a selected rel) = Some (FileN b) \<and> t (work_root a @ path_tail rel) = Some (FileN b))) \<and>
       (\<forall>mp. manifest_arg a = Some mp \<longrightarrow> t mp = Some (FileN (manifest_bytes m))))"
proof -
  have pl: "fs_wf s" "no_links s" using assms(1) by (simp_all add: plain_def)
  from assms(4) obtain baseline candidate work universe selected bps cps where
    x: "prepare_inputs a s = Inr (baseline, candidate, work, universe, selected, bps, cps)"
    by (auto simp: prepare_def bindP_Inr split: prod.splits)
  note ok = prepare_inputs_ok[OF x]
  have roots: "baseline = baseline_root a" "candidate = candidate_root a" "work = work_root a"
    using ok assms(2) resolve_plain[OF pl(2), of _ link_limit "[]"] by (auto simp: resolve_def)
  have bc: "bps = map (\<lambda>rel. (rel, baseline @ path_tail rel)) universe"
    "cps = map (\<lambda>rel. (rel, candidate @ path_tail rel)) selected"
    using ok checked_paths by blast+
  have safe: "\<forall>v \<in> set universe. safe_object v" "distinct universe" using ok by blast+
  have dots: "''..'' \<notin> set (work_root a @ baseline_root a @ candidate_root a)" "''..'' \<notin> set (objects_file a)"
    using assms(2) by auto
  have uo: "universe_of a s universe" "choose_objects universe a = Inr selected"
    using prepare_inputs_universe[OF x] ok by blast+
  show ?thesis
  proof (cases "dry_run a")
    case True
    have "t = s" using prepare_dry[OF True, of sha256 rnd s] assms(4) by simp
    moreover have "m = expected_manifest sha256 a universe selected s"
      using prepare_dry_manifest[OF assms(1) True x[unfolded bc roots] safe(1) _ dots(2) assms(4)] dots(1) by simp
    ultimately show ?thesis using uo True by blast
  next
    case False
    from assms(4)[unfolded prepare_run[OF x False]] obtain s1 es s2 where s1: "mkdir_parents work s = Some s1"
      and loop: "mapP (prepare1 sha256 rnd False work selected bps cps) (zip [1..<Suc (length universe)] universe) s1 = (s2, Inr es)"
      and rep: "report a baseline candidate work selected es s2 = (t, Inr m)"
      by (auto simp: bindP_Inr simp del: upt_Suc split: option.splits)
    from mkdir_parents_plain[OF assms(1) s1] roots dots have p1: "plain s1"
      and d1: "\<forall>x. s1 x = s x \<or> s x = None \<and> s1 x = Some DirN" by auto
    have b1: "bytes_at s1 x = bytes_at s x" for x using d1 by (auto simp: bytes_at_def dest!: spec [of _ x])
    have "sources_kept a s s1" using p1 b1 by (simp add: sources_kept_def)
    from prepare_loop_plain[OF this safe dots(1) assms(3) loop[unfolded bc roots]]
    have s2: "plain s2" "es = map (expected_entry sha256 a selected s) (zip [1..<Suc (length universe)] universe)"
      "\<forall>rel \<in> set universe. \<exists>b. s1 (source_of a selected rel) = Some (FileN b) \<and> s2 (work_root a @ path_tail rel) = Some (FileN b)"
      by blast+
    have src: "s1 x = Some (FileN b) \<Longrightarrow> s x = Some (FileN b)" for x b
      using d1 by (metis node.distinct(1) option.inject)
    have m: "m = expected_manifest sha256 a universe selected s"
      using report_manifest[OF rep s2(1) dots(2)] roots s2(2) by (simp add: expected_manifest_def del: upt_Suc)
    have "''..'' \<notin> set (case manifest_arg a of None \<Rightarrow> [] | Some mp \<Rightarrow> mp)" using assms(2) by simp
    note keep = report_plain[OF False rep s2(1) this]
    have "manifest_arg a = Some (work_root a @ path_tail rel) \<or>
        (\<exists>b. s (source_of a selected rel) = Some (FileN b) \<and> t (work_root a @ path_tail rel) = Some (FileN b))"
      if "rel \<in> set universe" for rel
      using s2(3) that src keep by metis
    with keep m uo False show ?thesis by blast
  qed
qed

section \<open>Selection modes\<close>

lemma parse_explicit_distinct:
  "parse_explicit_from acc raws = Inr ex \<Longrightarrow> distinct acc \<Longrightarrow> distinct ex \<and> set acc \<subseteq> set ex"
proof (induction raws arbitrary: acc)
  case (Cons r rs)
  then obtain obj where "obj \<notin> set acc" "parse_explicit_from (acc @ [obj]) rs = Inr ex"
    by (auto simp: bindE_Inr_iff split: if_splits)
  with Cons.IH[of "acc @ [obj]"] Cons.prems(2) show ?case by auto
qed simp

text \<open>
  A successful selection keeps the order of the universe, and for the objects named on the
  command line it is: nothing in baseline mode, everything in all mode, the first n in prefix mode,
  exactly the named objects in subset and single mode (one object in single mode), and exactly the
  others in all-except mode; every named object belongs to the universe.
\<close>

theorem choose_objects_spec:
  assumes "choose_objects universe a = Inr sel" and "distinct universe"
  shows "sel = filter (\<lambda>v. v \<in> set sel) universe \<and>
    (\<exists>explicit. parse_explicit (object_arg a) = Inr explicit \<and> set explicit \<subseteq> set universe \<and>
      (mode a = ''baseline'' \<longrightarrow> sel = []) \<and> (mode a = ''all'' \<longrightarrow> sel = universe) \<and>
      (mode a = ''prefix'' \<longrightarrow> (\<exists>n \<le> length universe. prefix_arg a = Some (int n) \<and> sel = take n universe)) \<and>
      (mode a = ''subset'' \<longrightarrow> sel \<noteq> [] \<and> set sel = set explicit) \<and>
      (mode a = ''single'' \<longrightarrow> sel = explicit \<and> length sel = 1) \<and>
      (mode a = ''all-except'' \<longrightarrow> set sel = set universe - set explicit \<and> sel \<noteq> universe))"
proof -
  from assms(1) obtain ex where ex: "parse_explicit (object_arg a) = Inr ex"
    by (auto simp: choose_objects_def bindE_Inr_iff)
  consider "mode a = ''baseline''" "sel = []" "ex = []" | "mode a = ''all''" "sel = universe" "ex = []"
    | n where "mode a = ''prefix''" "prefix_arg a = Some (int n)" "n \<le> length universe"
        "sel = take n universe" "ex = []"
    | "mode a \<in> {''subset'', ''single''}" "sel = filter (\<lambda>v. v \<in> set ex) universe" "set ex \<subseteq> set universe"
        "ex \<noteq> []" "mode a = ''single'' \<longrightarrow> length ex = 1"
    | "mode a = ''all-except''" "sel = filter (\<lambda>v. v \<notin> set ex) universe" "set ex \<subseteq> set universe" "ex \<noteq> []"
    using assms(1) ex that(3)[of "nat (the (prefix_arg a))"]
    by (force simp: choose_objects_def Let_def filter_empty_conv split: if_splits option.splits)
  then show ?thesis
  proof cases
    case 1
    with ex show ?thesis by (auto simp: filter_empty_conv)
  next
    case 2
    with ex show ?thesis by (auto simp: filter_id_conv)
  next
    case (3 n)
    have "filter (\<lambda>v. v \<in> set (take n universe)) (take n universe @ drop n universe) = take n universe"
      using assms(2) set_take_disj_set_drop_if_distinct[of universe n n]
      by (simp only: filter_append) (auto simp: filter_id_conv filter_empty_conv)
    with 3 ex show ?thesis by auto
  next
    case 4
    have one: "sel = ex" if "length ex = 1"
    proof -
      from that obtain v where v: "ex = [v]" by (cases ex) auto
      then obtain i where "i < length universe" "universe ! i = v" using 4(3) by (auto simp: in_set_conv_nth)
      then show ?thesis using 4(2) v filter_eq_nth_distinct[OF assms(2), of i] by simp
    qed
    have se: "set sel = set ex" using 4 by auto
    then have "sel \<noteq> []" "sel = filter (\<lambda>v. v \<in> set sel) universe" using 4(2,4) by (metis set_empty, metis)
    with 4 ex one se show ?thesis by auto
  next
    case 5
    have "set sel = set universe - set ex" using 5 by auto
    moreover have "sel \<noteq> universe" using 5(3,4) calculation last_in_set[of ex] by blast
    ultimately show ?thesis using 5 ex by (auto intro: filter_cong)
  qed
qed

section \<open>Witnesses\<close>

definition demo_elf :: "byte \<Rightarrow> byte list" where
  "demo_elf b = [0x7F, 0x45, 0x4C, 0x46, 2, 1, 1, 0, 0, 0, 0, 0, 0, 0, 0, 0, 1, 0, b]"

definition demo_fs :: fs where
  "demo_fs = [[''l''] \<mapsto> FileN [0x78, 0x2E, 0x6F, 0x0A, 0x79, 0x2E, 0x6F],
     [''b''] \<mapsto> DirN, [''b'', ''x.o''] \<mapsto> FileN (demo_elf 1), [''b'', ''y.o''] \<mapsto> FileN (demo_elf 2),
     [''c''] \<mapsto> DirN, [''c'', ''y.o''] \<mapsto> FileN (demo_elf 3), [''w''] \<mapsto> DirN]"

definition demo_args :: args where
  "demo_args = \<lparr> baseline_root = [''b''], candidate_root = [''c''], work_root = [''w''],
     objects_file = [''l''], mode = ''single'', prefix_arg = None, object_arg = [''y.o''],
     manifest_arg = None, dry_run = False \<rparr>"

definition demo_sha :: "byte list \<Rightarrow> string" where
  "demo_sha b = map (\<lambda>x. char_of (unat x)) b"

lemma demo_plain: "plain demo_fs" "real_dir demo_fs [''w'']"
proof -
  have d: "\<forall>p c. demo_fs (p @ [c]) \<noteq> None \<longrightarrow> node_at demo_fs p = Some DirN"
    by (auto simp: demo_fs_def node_at_def append_eq_Cons_conv split: if_splits)
  moreover have "no_links demo_fs" by (auto simp: no_links_def demo_fs_def split: if_splits)
  ultimately show "plain demo_fs" by (simp add: plain_def fs_wf_def demo_fs_def)
  show "real_dir demo_fs [''w'']"
    by (auto simp: real_dir_def take_Cons node_at_def demo_fs_def split: nat.splits)
qed

lemma demo_run: "\<exists>t m. prepare demo_sha (\<lambda>_. [''0'']) demo_args demo_fs = (t, Inr m) \<and>
    mf_selected m = [''y.o''] \<and> map en_path (mf_objects m) = [''x.o'', ''y.o'']"
proof -
  let ?r = "snd (prepare demo_sha (\<lambda>_. [''0'']) demo_args demo_fs)"
  have "(case ?r of Inl e \<Rightarrow> False | Inr m \<Rightarrow> mf_selected m = [''y.o''] \<and>
     map en_path (mf_objects m) = [''x.o'', ''y.o''])" by code_simp
  then show ?thesis by (cases "prepare demo_sha (\<lambda>_. [''0'']) demo_args demo_fs") (auto split: sum.splits)
qed

theorem choose_objects_spec_witness:
  "choose_objects [''x.o'', ''y.o''] demo_args = Inr [''y.o''] \<and>
   [''y.o''] = filter (\<lambda>v. v \<in> set [''y.o'']) [''x.o'', ''y.o'']"
proof -
  have r: "choose_objects [''x.o'', ''y.o''] demo_args = Inr [''y.o'']" by code_simp
  from choose_objects_spec[OF r] show ?thesis by (simp add: r)
qed

text \<open>The run of the demonstration, with a manifest outside of the work tree, in a directory that is missing.\<close>

definition demo_args_m :: args where
  "demo_args_m = demo_args\<lparr>manifest_arg := Some [''r'', ''m.json'']\<rparr>"

lemma demo_run_m: "\<exists>t m. prepare demo_sha (\<lambda>_. [''0'']) demo_args_m demo_fs = (t, Inr m) \<and>
    mf_selected m = [''y.o''] \<and> map en_path (mf_objects m) = [''x.o'', ''y.o'']"
proof -
  let ?r = "snd (prepare demo_sha (\<lambda>_. [''0'']) demo_args_m demo_fs)"
  have "(case ?r of Inl e \<Rightarrow> False | Inr m \<Rightarrow> mf_selected m = [''y.o''] \<and>
     map en_path (mf_objects m) = [''x.o'', ''y.o''])" by code_simp
  then show ?thesis by (cases "prepare demo_sha (\<lambda>_. [''0'']) demo_args_m demo_fs") (auto split: sum.splits)
qed

theorem prepare_manifest_truthful_witness:
  "\<exists>t m. prepare demo_sha (\<lambda>_. [''0'']) demo_args_m demo_fs = (t, Inr m) \<and>
     m = expected_manifest demo_sha demo_args_m [''x.o'', ''y.o''] [''y.o''] demo_fs \<and>
     t [''w'', ''y.o''] = Some (FileN (demo_elf 3)) \<and> t [''w'', ''x.o''] = Some (FileN (demo_elf 1)) \<and>
     t [''r'', ''m.json''] = Some (FileN (manifest_bytes m))"
proof -
  obtain t m where r: "prepare demo_sha (\<lambda>_. [''0'']) demo_args_m demo_fs = (t, Inr m)"
    and m: "mf_selected m = [''y.o'']" "map en_path (mf_objects m) = [''x.o'', ''y.o'']"
    using demo_run_m by (elim exE conjE)
  have a: "\<not> dry_run demo_args_m" "manifest_arg demo_args_m = Some [''r'', ''m.json'']" "work_root demo_args_m = [''w'']"
    "baseline_root demo_args_m = [''b'']" "candidate_root demo_args_m = [''c'']" "objects_file demo_args_m = [''l'']"
    by (simp_all add: demo_args_m_def demo_args_def)
  have dots: "''..'' \<notin> set (work_root demo_args_m @ baseline_root demo_args_m @ candidate_root demo_args_m @
      objects_file demo_args_m @ (case manifest_arg demo_args_m of None \<Rightarrow> [] | Some mp \<Rightarrow> mp))"
    and apart: "\<forall>x y. baseline_root demo_args_m @ x \<noteq> work_root demo_args_m @ y \<and>
      candidate_root demo_args_m @ x \<noteq> work_root demo_args_m @ y"
    by (simp_all add: a)
  obtain universe selected where u: "m = expected_manifest demo_sha demo_args_m universe selected demo_fs"
    "\<forall>rel \<in> set universe. manifest_arg demo_args_m = Some (work_root demo_args_m @ path_tail rel) \<or>
       (\<exists>b. demo_fs (source_of demo_args_m selected rel) = Some (FileN b) \<and>
          t (work_root demo_args_m @ path_tail rel) = Some (FileN b))"
    "t [''r'', ''m.json''] = Some (FileN (manifest_bytes m))"
    using prepare_manifest_truthful[OF demo_plain(1) dots apart r] a(1,2) by blast
  have sel: "selected = [''y.o'']" using m(1) u(1) by (simp add: expected_manifest_def)
  have "map en_path (map (expected_entry demo_sha demo_args_m selected demo_fs) (zip [1..<Suc (length universe)] universe)) = universe"
    using map_snd_zip[of "[1..<Suc (length universe)]" universe]
    by (simp add: comp_def expected_entry_def split_beta del: upt_Suc)
  then have uni: "universe = [''x.o'', ''y.o'']" using m(2) u(1) by (simp add: expected_manifest_def del: upt_Suc)
  have tails: "path_tail ''x.o'' = [''x.o'']" "path_tail ''y.o'' = [''y.o'']" by code_simp+
  have "t [''w'', ''x.o''] = Some (FileN (demo_elf 1))" "t [''w'', ''y.o''] = Some (FileN (demo_elf 3))"
    using u(2) by (simp_all add: uni sel a tails source_of_def demo_fs_def)
  with r u(1,3) uni sel show ?thesis by blast
qed

definition demo_linked :: fs where
  "demo_linked = demo_fs([''w'', ''x.o''] \<mapsto> LinkN True [''etc''])"

theorem prepare_stays_inside_work_witness:
  "fst (prepare demo_sha (\<lambda>_. [''0'']) demo_args_m demo_linked) [''etc''] \<in> {None, Some DirN} \<and>
   fst (prepare demo_sha (\<lambda>_. [''0'']) demo_args_m demo_linked) [''b'', ''x.o''] = Some (FileN (demo_elf 1))"
proof -
  have d: "\<forall>p c. demo_linked (p @ [c]) \<noteq> None \<longrightarrow> node_at demo_linked p = Some DirN"
    by (auto simp: demo_linked_def demo_fs_def node_at_def append_eq_Cons_conv split: if_splits)
  then have wf: "fs_wf demo_linked" by (simp add: fs_wf_def)
  have W: "real_dir demo_linked [''w'']"
    by (auto simp: real_dir_def take_Cons node_at_def demo_linked_def demo_fs_def split: nat.splits)
  have res: "resolve demo_linked (work_root demo_args_m) = Some [''w'']"
    using real_dir_resolve[OF W] by (simp add: resolve_def demo_args_m_def demo_args_def)
  have failed: "\<forall>m. snd (prepare demo_sha (\<lambda>_. [''0'']) demo_args_m demo_linked) \<noteq> Inr m"
  proof -
    have "(case snd (prepare demo_sha (\<lambda>_. [''0'']) demo_args_m demo_linked) of Inl e \<Rightarrow> True | Inr m \<Rightarrow> False)" by code_simp
    then show ?thesis by (auto split: sum.splits)
  qed
  obtain t r where run: "prepare demo_sha (\<lambda>_. [''0'']) demo_args_m demo_linked = (t, r)" by fastforce
  then have "dirs_appear [''w''] demo_linked t"
    using prepare_stays_inside_work [OF wf res run] failed by (auto simp: manifest_written_def)
  then show ?thesis using run by (auto simp: dirs_appear_def under_def demo_linked_def demo_fs_def dest: spec [of _ "[''etc'']"] spec [of _ "[''b'', ''x.o'']"])
qed

theorem prepare_validates_first_witness:
  "prepare_inputs (demo_args\<lparr>object_arg := [''x.o'']\<rparr>) demo_fs =
     Inl (MissingObject ''candidate object'' ''x.o'') \<and>
   fst (prepare demo_sha (\<lambda>_. [''0'']) (demo_args\<lparr>object_arg := [''x.o'']\<rparr>) demo_fs) = demo_fs"
proof -
  have r: "prepare_inputs (demo_args\<lparr>object_arg := [''x.o'']\<rparr>) demo_fs =
     Inl (MissingObject ''candidate object'' ''x.o'')" by code_simp
  with prepare_validates_first[of "demo_args\<lparr>object_arg := [''x.o'']\<rparr>" demo_fs demo_sha] show ?thesis by blast
qed

end
