(* ===== verification/Binary64.thy ===== *)
theory Binary64
  imports Prelude
begin

text \<open>
  Python's \<^verbatim>\<open>float\<close> on the numbers that the reports compute with: quotients of integers, \<^verbatim>\<open>round(x, 3)\<close>, sums and
  differences, comparisons and the formats \<^verbatim>\<open>.2f\<close> and \<^verbatim>\<open>.3f\<close>.  A finite number is a dyadic fraction, a
  numerator and the exponent of a power of two as denominator; every operation is exact arithmetic
  followed by rounding to 53 significant bits, ties to even.  Overflow and the subnormal range are out of
  reach of these numbers: all quotients are by constants below a million and all operands are counts of nanoseconds.
\<close>

text \<open>Rounding a quotient of integers to the nearest integer, ties to even.\<close>

definition round_half_even :: "int \<Rightarrow> int \<Rightarrow> int" where
  [py_defs]: "round_half_even p q =
     (let d = p div q; r = p mod q in if 2 * r < q \<or> 2 * r = q \<and> even d then d else d + 1)"

text \<open>The scale at which a quotient has the 53 significant bits of a binary64 number.\<close>

function double_scale :: "int \<Rightarrow> int \<Rightarrow> nat \<Rightarrow> nat" where
  "double_scale p q e = (if p \<le> 0 \<or> q * 2 ^ 52 \<le> p * 2 ^ e then e else double_scale p q (Suc e))"
  by pat_completeness auto
termination by (relation "measure (\<lambda>(p, q, e). nat (q * 2 ^ 52 - p * 2 ^ e))") auto

declare double_scale.simps [simp del]

text \<open>The number of low bits that a quotient beyond \<open>2 ^ 53\<close> loses.\<close>

function double_excess :: "int \<Rightarrow> int \<Rightarrow> nat \<Rightarrow> nat" where
  "double_excess p q k = (if q \<le> 0 \<or> p < q * 2 ^ 53 * 2 ^ k then k else double_excess p q (Suc k))"
  by pat_completeness auto
termination by (relation "measure (\<lambda>(p, q, k). nat (p + 1 - q * 2 ^ 53 * 2 ^ k))") auto

declare double_excess.simps [simp del]

type_synonym float64 = "int \<times> nat"

definition quotient64 :: "int \<Rightarrow> int \<Rightarrow> float64" where
  [py_defs]: "quotient64 p q =
     (let e = double_scale \<bar>p\<bar> q 0; k = double_excess \<bar>p\<bar> q 0
      in (round_half_even (p * 2 ^ e) (q * 2 ^ k) * 2 ^ k, e))"

text \<open>The integer nearest to a scaled number, which is what \<^verbatim>\<open>round(x, n)\<close> and the fixed formats compute.\<close>

definition scaled :: "int \<Rightarrow> float64 \<Rightarrow> int" where
  [py_defs]: "scaled c x = round_half_even (fst x * c) (2 ^ snd x)"

definition round3 :: "float64 \<Rightarrow> float64" where
  [py_defs]: "round3 x = quotient64 (scaled 1000 x) 1000"

definition plus64 :: "float64 \<Rightarrow> float64 \<Rightarrow> float64" where
  [py_defs]: "plus64 x y = quotient64 (fst x * 2 ^ snd y + fst y * 2 ^ snd x) (2 ^ (snd x + snd y))"

definition minus64 :: "float64 \<Rightarrow> float64 \<Rightarrow> float64" where
  [py_defs]: "minus64 x y = plus64 x (- fst y, snd y)"

definition less64 :: "float64 \<Rightarrow> float64 \<Rightarrow> bool" where
  [py_defs]: "less64 x y \<longleftrightarrow> fst x * 2 ^ snd y < fst y * 2 ^ snd x"

text \<open>
  \<^verbatim>\<open>sum(xs)\<close> of floats, which since Python 3.12 keeps a compensation for the lost low bits (Neumaier) and adds
  it at the end.
\<close>

definition abs64 :: "float64 \<Rightarrow> float64" where
  [py_defs]: "abs64 x = (\<bar>fst x\<bar>, snd x)"

definition sum_step64 :: "float64 \<times> float64 \<Rightarrow> float64 \<Rightarrow> float64 \<times> float64" where
  [py_defs]: "sum_step64 fc x =
     (case fc of (f, c) \<Rightarrow>
        let t = plus64 f x in
        (t, plus64 c (if less64 (abs64 f) (abs64 x) then plus64 (minus64 x t) f else plus64 (minus64 f t) x)))"

fun sum64 :: "float64 list \<Rightarrow> float64" where
  "sum64 [] = (0, 0)"
| "sum64 (x # xs) = (case foldl sum_step64 (x, (0, 0)) xs of (f, c) \<Rightarrow> if fst c \<noteq> 0 then plus64 f c else f)"

text \<open>The formats \<^verbatim>\<open>.2f\<close> and \<^verbatim>\<open>.3f\<close>: the sign of a negative number stays when it rounds to zero.\<close>

definition fixed :: "nat \<Rightarrow> float64 \<Rightarrow> string" where
  [py_defs]: "fixed digits x =
     (let n = \<bar>scaled (10 ^ digits) x\<bar>; d = str_int (n mod 10 ^ digits) in
      (if fst x < 0 then ''-'' else []) @ str_int (n div 10 ^ digits) @ ''.'' @
      replicate (digits - length d) CHR ''0'' @ d)"

lemma round_half_even_exact: "0 < q \<Longrightarrow> round_half_even (d * q) q = d"
  by (simp add: round_half_even_def)

lemma round_half_even_error:
  assumes "0 < q"
  shows "2 * \<bar>round_half_even p q * q - p\<bar> \<le> q"
proof -
  define d r where "d = p div q" and "r = p mod q"
  have p: "p = d * q + r" and r: "0 \<le> r" "r < q" using assms by (simp_all add: d_def r_def)
  show ?thesis
  proof (cases "2 * r < q \<or> 2 * r = q \<and> even d")
    case True
    then have "round_half_even p q = d" by (simp add: round_half_even_def Let_def flip: d_def r_def)
    with True p r show ?thesis by auto
  next
    case False
    then have "round_half_even p q = d + 1" by (simp add: round_half_even_def Let_def flip: d_def r_def)
    with False p r show ?thesis by (simp add: distrib_right)
  qed
qed

end
