(* ===== verification/ShardPlan.thy ===== *)
theory ShardPlan
  imports PurePath Json Binary64 "HOL-Library.Word"
begin

text \<open>
  The schedulers that split the C owners of a kernel build over seven shards:
  the stride of \<^verbatim>\<open>linux-runtime-gcc-shards-v1.py\<close>, the capped longest-processing-time plan of
  \<^verbatim>\<open>linux-perf-time-balanced-shard-plan-v1.py\<close>, and the digest-bound assignments of
  \<^verbatim>\<open>linux_minipp_seven_balanced_plan_v1.py\<close> and \<^verbatim>\<open>linux_gnu_balanced_plan_v1.py\<close>.

  The locale \<open>shard_scheduler\<close> is what the producers and the merger rely on: seven groups that
  partition the owners.  It is interpreted for the stride and for the digest-bound assignment.
\<close>

section \<open>Fixed stride\<close>

definition objects_of :: "string \<Rightarrow> py_error + string list" where
  [py_defs]: "objects_of text =
     (let names = map strip (filter (\<lambda>x. strip x \<noteq> [] \<and> \<not> startswith (lstrip x) ''#'') (splitlines text)) in
      if names = [] \<or> \<not> distinct names then Inl (ValueError ''empty or duplicate object list'')
      else case filter (\<lambda>name. is_absolute name \<or> ''..'' \<in> set (path_parts name) \<or>
                          length (path_parts name) < 2 \<or> \<not> endswith name ''.o'' \<or> CHR 0x5C \<in> set name) names of
             [] \<Rightarrow> Inr names
           | bad # _ \<Rightarrow> Inl (ValueError (''unsafe object path: '' @ bad)))"

text \<open>\<^verbatim>\<open>xs[start::step]\<close> for a non-negative start.\<close>

fun stride :: "nat \<Rightarrow> nat \<Rightarrow> 'a list \<Rightarrow> 'a list" where
  "stride k n [] = []"
| "stride 0 n (x # xs) = x # stride (n - 1) n xs"
| "stride (Suc k) n (x # xs) = stride k n xs"

definition members :: "'a list \<Rightarrow> int \<Rightarrow> int \<Rightarrow> py_error + 'a list" where
  [py_defs]: "members all_objects shard n =
     (if n \<noteq> 7 \<or> \<not> (0 \<le> shard \<and> shard < n)
      then Inl (ValueError ''this producer requires exactly seven fixed shards'')
      else Inr (stride (nat shard) (nat n) all_objects))"

section \<open>Longest processing time with a capacity\<close>

record bin =
  b_shard :: nat
  b_weight_ms :: int
  b_members :: "string list"

definition place :: "nat \<Rightarrow> bin list \<Rightarrow> string \<times> int \<times> int \<Rightarrow> py_error + bin list" where
  [py_defs]: "place cap bins row =
     (case row of (name, ms, old) \<Rightarrow>
        let choices = filter (\<lambda>b. length (b_members b) < cap) bins in
        if choices = [] then Inl (ValueError ''capacity exhausted'')
        else let chosen = arg_min_list (\<lambda>b. (b_weight_ms b, length (b_members b), b_shard b)) choices in
          Inr (map (\<lambda>b. if b_shard b = b_shard chosen
                        then b\<lparr>b_members := b_members b @ [name], b_weight_ms := b_weight_ms b + ms\<rparr>
                        else b) bins))"

definition empty_bins :: "nat \<Rightarrow> bin list" where
  [py_defs]: "empty_bins n = map (\<lambda>i. \<lparr> b_shard = i, b_weight_ms = 0, b_members = [] \<rparr>) [0..<n]"

definition plan :: "(string \<times> int \<times> int) list \<Rightarrow> nat \<Rightarrow> py_error + bin list" where
  [py_defs]: "plan data n =
     (if n \<noteq> 7 \<or> data = [] then Inl (ValueError ''only a nonempty seven-shard plan is supported'')
      else let cap = (length data + n - 1) div n in
        bindE (foldE (place cap) (empty_bins n)
                 (sort_key (\<lambda>(name, ms, old). (- ms, name)) data)) (\<lambda>bins.
          if sum_list (map (\<lambda>b. length (b_members b)) bins) \<noteq> length data
          then Inl (ValueError ''incomplete result'') else Inr bins))"

text \<open>
  The rows of a metrics file.  Each row is a JSON object; \<^verbatim>\<open>isinstance(old, int)\<close> accepts a Boolean,
  \<^verbatim>\<open>type(v) is int\<close> does not.
\<close>

definition parse_row ::
  "string \<Rightarrow> (string \<times> int \<times> int) list \<Rightarrow> (string \<times> json) list \<Rightarrow> py_error + (string \<times> int \<times> int) list" where
  [py_defs]: "parse_row mode validated item =
     (let required = (if mode = ''minic'' then [''minic_wall_ms'']
        else [''gnu_pp_wall_ms'', ''minipp_wall_ms'', ''minic_wall_ms'', ''minias_wall_ms'']) in
      bindE (jitem item ''object'') (\<lambda>v.
      bindE (of_option (TypeError ''object'') (as_str v)) (\<lambda>name.
      bindE (ensure (\<not> (is_absolute name \<or> ''..'' \<in> set (path_parts name) \<or> length (path_parts name) < 2 \<or>
                        \<not> endswith name ''.o'' \<or> CHR 0x5C \<in> set name \<or> name \<in> fst ` set validated))
               (ValueError (''invalid/duplicate object: '' @ name))) (\<lambda>_.
      bindE (ensure (jget item ''status'' = Some (JStr ''PASS'') \<and> jget item ''shard'' \<noteq> None)
               (ValueError (''uncertified or unsharded object: '' @ name))) (\<lambda>_.
      bindE (jitem item ''shard'') (\<lambda>old.
      bindE (ensure (case as_int old of None \<Rightarrow> False | Some i \<Rightarrow> 0 \<le> i \<and> i < 7)
               (ValueError (''old shard out of range: '' @ name))) (\<lambda>_.
      bindE (mapE (jitem item) required) (\<lambda>costs.
      bindE (ensure (list_all (\<lambda>v. case v of JInt i \<Rightarrow> 0 \<le> i | _ \<Rightarrow> False) costs)
               (ValueError (''missing or invalid integer per-stage time: '' @ name))) (\<lambda>_.
        Inr (validated @ [(name, sum_list (map (\<lambda>v. the (as_int v)) costs), the (as_int old))]))))))))))"

definition parse :: "(string \<times> json) list list \<Rightarrow> string \<Rightarrow> py_error + (string \<times> int \<times> int) list" where
  [py_defs]: "parse rows mode = foldE (parse_row mode) [] rows"

text \<open>
  The forecast.  \<open>old\<close> is indexed by the historical shard of each row; the saving is a floating point number, or the
  integer 0, here \<open>None\<close>, when no shard took any time.
\<close>

record forecast =
  historical_ms :: "int list"
  predicted_ms :: "int list"
  historical_critical_ms :: int
  predicted_critical_ms :: int
  saving_pct :: "float64 option"

definition saving :: "int \<Rightarrow> int \<Rightarrow> float64 option" where
  [py_defs]: "saving old new = (if old \<noteq> 0 then Some (round3 (quotient64 ((old - new) * 100) old)) else None)"

definition compare_plans :: "(string \<times> int \<times> int) list \<Rightarrow> bin list \<Rightarrow> py_error + forecast" where
  [py_defs]: "compare_plans rows bins =
     bindE (foldE (\<lambda>old (name, ms, shard).
              if - 7 \<le> shard \<and> shard < 7
              then let i = nat (if shard < 0 then 7 + shard else shard) in Inr (old[i := old ! i + ms])
              else Inl IndexError) (replicate 7 0) rows) (\<lambda>old.
       let new = map b_weight_ms bins in
       if sum_list old \<noteq> sum_list new
       then Inl (ValueError ''planned and historical work totals differ'')
       else if new = [] then Inl (ValueError ''max() arg is an empty sequence'')
       else Inr \<lparr> historical_ms = old, predicted_ms = new,
                  historical_critical_ms = Max (set old), predicted_critical_ms = Max (set new),
                  saving_pct = saving (Max (set old)) (Max (set new)) \<rparr>)"

definition time_balanced_main ::
  "(string \<times> json) list list \<Rightarrow> string \<Rightarrow> string \<Rightarrow> py_error + (bin list \<times> forecast)" where
  [py_defs]: "time_balanced_main data manifest mode =
     (let names = map strip (filter (\<lambda>l. strip l \<noteq> [] \<and> \<not> startswith (lstrip l) ''#'') (splitlines manifest)) in
      if \<not> distinct names \<or> names = [] then Inl (ValueError ''duplicate/empty C owner manifest'')
      else bindE (parse data mode) (\<lambda>rows.
        if set names \<noteq> fst ` set rows
        then Inl (ValueError ''timing data does not match exact C owner manifest'')
        else bindE (plan rows 7) (\<lambda>assignments.
          bindE (compare_plans rows assignments) (\<lambda>stats. Inr (assignments, stats)))))"

section \<open>Digest-bound assignments\<close>

text \<open>
  \<^verbatim>\<open>base64.b64decode(s, validate=True)\<close>, in the strict mode of current releases: whole groups of
  four characters, padding only at the end.
\<close>

definition b64_value :: "char \<Rightarrow> nat option" where
  [py_defs]: "b64_value c = (let n = (of_char c :: nat) in
     if 65 \<le> n \<and> n \<le> 90 then Some (n - 65)
     else if 97 \<le> n \<and> n \<le> 122 then Some (n - 71)
     else if 48 \<le> n \<and> n \<le> 57 then Some (n + 4)
     else if n = 43 then Some 62 else if n = 47 then Some 63 else None)"

fun b64decode :: "string \<Rightarrow> nat list option" where
  "b64decode [] = Some []"
| "b64decode (a # b # c # d # rest) =
     (case (b64_value a, b64_value b) of
        (Some x, Some y) \<Rightarrow>
          if d = CHR ''='' then
            (if rest \<noteq> [] then None
             else if c = CHR ''='' then Some [4 * x + y div 16]
             else map_option (\<lambda>z. [4 * x + y div 16, 16 * (y mod 16) + z div 4]) (b64_value c))
          else (case (b64_value c, b64_value d, b64decode rest) of
                  (Some z, Some w, Some bs) \<Rightarrow>
                    Some ([4 * x + y div 16, 16 * (y mod 16) + z div 4, 64 * (z mod 4) + w] @ bs)
                | _ \<Rightarrow> None)
      | _ \<Rightarrow> None)"
| "b64decode _ = None"

text \<open>\<^verbatim>\<open>struct.unpack("<nH", packed)\<close>\<close>

fun unpack_le16 :: "nat list \<Rightarrow> int list" where
  "unpack_le16 (lo # hi # rest) = int (lo + 256 * hi) # unpack_le16 rest"
| "unpack_le16 _ = []"

text \<open>The digest of a text is a parameter \<open>sha256\<close> of everything below.\<close>

definition owner_digest :: "(string \<Rightarrow> string) \<Rightarrow> string list \<Rightarrow> string" where
  [py_defs]: "owner_digest sha256 names = sha256 (join ''\<newline>'' names @ ''\<newline>'')"

definition time_balanced_members ::
  "(string \<Rightarrow> string) \<Rightarrow> string list \<Rightarrow> (string \<times> json) list \<Rightarrow> py_error + string list list \<times> int list" where
  [py_defs]: "time_balanced_members sha256 owner_names evidence =
     (let names = sort owner_names in
      bindE (ensure (length names = 2064 \<and> distinct names \<and>
                     jget evidence ''schema'' = Some (JStr ''linux-minipp-seven-balanced-owner-costs-v1'') \<and>
                     jget evidence ''owner_count'' = Some (JInt 2064) \<and>
                     jget evidence ''source_run'' = Some (JInt 38870185276) \<and>
                     jget evidence ''source_commit'' = Some (JStr ''24b0247401d1f973c4aa4f3495d7298cc7dd4cc1'') \<and>
                     jget evidence ''packed_type'' = Some (JStr
                       ''base64 little-endian uint16 milliseconds ordered by sorted(owner paths)''))
               (ValueError ''balanced shard: wrong historical measurement identity'')) (\<lambda>_.
      bindE (ensure (Some (JStr (owner_digest sha256 names)) = jget evidence ''sorted_owner_sha256'')
               (ValueError ''balanced shard: owner universe differs from measured 2064'')) (\<lambda>_.
      bindE (of_option (ValueError ''balanced shard: invalid pinned weights'')
               (jget evidence ''weights_le16_base64'')) (\<lambda>v.
      bindE (of_option (TypeError ''weights_le16_base64'') (as_str v)) (\<lambda>encoded.
      bindE (of_option (ValueError ''balanced shard: invalid pinned weights'') (b64decode encoded)) (\<lambda>packed.
      bindE (ensure (length packed = length names * 2)
               (ValueError ''balanced shard: wrong packed duration count'')) (\<lambda>_.
      let costs = unpack_le16 packed in
      bindE (ensure (\<not> Min (set costs) \<le> 0 \<and> Some (JInt (sum_list costs)) = jget evidence ''total_cost_ms'')
               (ValueError ''balanced shard: corrupt or missing per-owner time'')) (\<lambda>_.
      bindE (plan (map (\<lambda>(idx, owner, weight). (owner, weight, int (idx mod 7)))
                     (zip [0..<length names] (zip names costs))) 7) (\<lambda>bins.
      let selected = map b_members bins in
      bindE (ensure (length selected = 7 \<and> sort (concat selected) = names \<and>
                     sort (map length selected) = 294 # replicate 6 295)
               (ValueError ''balanced shard: lost, duplicate, or over-capacity owner'')) (\<lambda>_.
        Inr (selected, map b_weight_ms bins)))))))))))"

definition digit_int :: "char \<Rightarrow> nat" where
  [py_defs]: "digit_int c = of_char c - 48"

text \<open>\<^verbatim>\<open>[[owner for owner in owners if assigned[owner] == shard] for shard in range(7)]\<close>\<close>

definition assigned_groups :: "string list \<Rightarrow> string list \<Rightarrow> string \<Rightarrow> string list list" where
  [py_defs]: "assigned_groups owners order digits =
     (let assigned = zip order (map digit_int digits)
      in map (\<lambda>shard. filter (\<lambda>owner. map_of assigned owner = Some shard) owners) [0..<7])"

definition minipp_balanced_members ::
  "(string \<Rightarrow> string) \<Rightarrow> string list \<Rightarrow> (string \<times> json) list \<Rightarrow> py_error + string list list" where
  [py_defs]: "minipp_balanced_members sha256 owners doc =
     (let order = sort owners in
      bindE (ensure (jget doc ''schema'' = Some (JStr ''minipp-native-balanced-seven-plan-v1''))
               (ValueError ''balanced plan schema mismatch'')) (\<lambda>_.
      bindE (ensure (jget doc ''owner_count'' = Some (JInt 2064) \<and> length owners = 2064)
               (ValueError ''balanced owner count must be exactly 2064'')) (\<lambda>_.
      bindE (ensure (distinct owners \<and> list_all (\<lambda>s. \<not> (is_absolute s \<or> ''..'' \<in> set (path_parts s) \<or>
                        length (path_parts s) < 2 \<or> \<not> endswith s ''.o'' \<or> CHR 0x5C \<in> set s)) owners)
               (ValueError ''invalid or duplicate balanced owner path'')) (\<lambda>_.
      bindE (ensure (Some (JStr (owner_digest sha256 order)) = jget doc ''sorted_owner_sha256'')
               (ValueError ''balanced plan does not match actual 2064-owner universe'')) (\<lambda>_.
      bindE (of_option (ValueError ''balanced plan assignment tampered or invalid'')
               (Option.bind (jget doc ''digits_by_sorted_owner'') as_str)) (\<lambda>digits.
      bindE (ensure (length digits = length owners \<and> list_all (\<lambda>ch. ch \<in> set ''0123456'') digits \<and>
                     Some (JStr (sha256 digits)) = jget doc ''assignment_sha256'')
               (ValueError ''balanced plan assignment tampered or invalid'')) (\<lambda>_.
      let groups = assigned_groups owners order digits; flat = concat groups in
      bindE (ensure (map length groups = [295, 295, 294, 295, 295, 295, 295])
               (ValueError ''unbalanced shard counts'')) (\<lambda>_.
      bindE (ensure (length flat = length owners \<and> set flat = set owners)
               (ValueError ''missing or duplicated owners in balanced plan'')) (\<lambda>_.
      bindE (ensure (jget doc ''old_shard_ms'' =
                       Some (JList (map JInt [714578, 855220, 772024, 879790, 744647, 427654, 781140])) \<and>
                     jget doc ''forecast_shard_ms'' =
                       Some (JList (map JInt [739298, 739298, 739291, 739297, 739290, 739290, 739289])) \<and>
                     sum_list [714578, 855220, 772024, 879790, 744647, 427654, 781140 :: int] =
                       sum_list [739298, 739298, 739291, 739297, 739290, 739290, 739289] \<and>
                     jget doc ''reference_run'' = Some (JInt 38870185276))
               (ValueError ''balanced plan cost evidence mismatch'')) (\<lambda>_.
        Inr groups))))))))))"

definition gnu_balanced_members ::
  "(string \<Rightarrow> string) \<Rightarrow> string list \<Rightarrow> (string \<times> json) list \<Rightarrow> py_error + string list list" where
  [py_defs]: "gnu_balanced_members sha256 owners doc =
     (let names = sort owners in
      bindE (ensure (jget doc ''schema'' = Some (JStr ''minic-gnu-seven-balanced-v1'') \<and>
                     jget doc ''reference_run'' = Some (JInt 39033023656))
               (ValueError ''GNU balanced plan provenance mismatch'')) (\<lambda>_.
      bindE (ensure (length owners = 2064 \<and> distinct owners)
               (ValueError ''GNU balanced owner count or duplicates'')) (\<lambda>_.
      bindE (ensure (list_all (\<lambda>s. \<not> (is_absolute s \<or> ''..'' \<in> set (path_parts s) \<or> \<not> endswith s ''.o'')) owners)
               (ValueError ''unsafe GNU balanced owner'')) (\<lambda>_.
      bindE (ensure (Some (JStr (owner_digest sha256 names)) = jget doc ''sorted_owner_sha256'')
               (ValueError ''GNU balanced owner universe SHA mismatch'')) (\<lambda>_.
      bindE (of_option (ValueError ''invalid GNU balanced assignment'')
               (Option.bind (jget doc ''digits_by_sorted_owner'') as_str)) (\<lambda>digits.
      bindE (ensure (length digits = 2064 \<and> list_all (\<lambda>c. c \<in> set ''0123456'') digits)
               (ValueError ''invalid GNU balanced assignment'')) (\<lambda>_.
      bindE (ensure (Some (JStr (sha256 digits)) = jget doc ''assignment_sha256'')
               (ValueError ''GNU balanced assignment SHA mismatch'')) (\<lambda>_.
      let groups = assigned_groups owners names digits in
      bindE (ensure (map length groups = [295, 295, 295, 295, 295, 295, 294])
               (ValueError ''GNU balanced unexpected shard capacities'')) (\<lambda>_.
      bindE (of_option (TypeError ''observed_reference_stage_totals_ms'')
               (case jget doc ''observed_reference_stage_totals_ms'' of None \<Rightarrow> Some [] | Some v \<Rightarrow> as_dict v)) (\<lambda>totals.
      bindE (ensure (jget totals ''minic'' = Some (JInt 1175746))
               (ValueError ''GNU balanced reference runtime data mismatch'')) (\<lambda>_.
        Inr groups)))))))))))"

section \<open>What a scheduler promises\<close>

lemma distinct_concat_index:
  "distinct (concat gs) \<Longrightarrow> i < length gs \<Longrightarrow> j < length gs \<Longrightarrow> x \<in> set (gs ! i) \<Longrightarrow> x \<in> set (gs ! j) \<Longrightarrow> i = j"
proof (induction gs arbitrary: i j)
  case (Cons g gs)
  have "set g \<inter> (\<Union>h \<in> set gs. set h) = {}" using Cons.prems(1) by auto
  then have *: "x \<in> set (gs ! k) \<Longrightarrow> k < length gs \<Longrightarrow> x \<notin> set g" for k
    using nth_mem[of k gs] by blast
  show ?case using Cons * by (cases i; cases j) auto
qed simp

locale shard_scheduler =
  fixes shards :: "'o list \<Rightarrow> 'e + 'o list list"
  assumes seven: "shards os = Inr gs \<Longrightarrow> length gs = 7"
    and partition: "shards os = Inr gs \<Longrightarrow> mset (concat gs) = mset os"
begin

lemma owner_once:
  assumes "shards os = Inr gs" "distinct os" "x \<in> set os"
  shows "\<exists>!i. i < 7 \<and> x \<in> set (gs ! i)"
proof -
  have d: "distinct (concat gs)" using partition[OF assms(1)] assms(2) by (metis mset_eq_imp_distinct_iff)
  have "x \<in> set (concat gs)" using partition[OF assms(1)] assms(3) by (metis set_mset_mset)
  then obtain i where i: "i < 7" "x \<in> set (gs ! i)"
    using seven[OF assms(1)] by (metis in_set_conv_nth UN_E set_concat)
  then have "j = i" if "j < 7" "x \<in> set (gs ! j)" for j
    using that distinct_concat_index[OF d, of j i x] seven[OF assms(1)] by simp
  with i show ?thesis by blast
qed

lemma shard_subset: "shards os = Inr gs \<Longrightarrow> g \<in> set gs \<Longrightarrow> set g \<subseteq> set os"
  by (metis partition set_concat set_mset_mset UN_upper)

lemma shard_sizes: "shards os = Inr gs \<Longrightarrow> sum_list (map length gs) = length os"
  by (metis partition length_concat size_mset)

end

section \<open>The stride is a scheduler\<close>

lemma mset_concat_upt: "mset (concat (map f [0..<n])) = (\<Sum>k<n. mset (f k))"
  by (induction n) simp_all

lemma stride_partition: "0 < n \<Longrightarrow> (\<Sum>k<n. mset (stride k n xs)) = mset xs"
proof (induction xs)
  case (Cons x xs)
  then obtain m where n: "n = Suc m" by (cases n) auto
  have "(\<Sum>k<n. mset (stride k n (x # xs))) = {#x#} + (mset (stride m n xs) + (\<Sum>k<m. mset (stride k n xs)))"
    unfolding n by (subst sum.lessThan_Suc_shift) simp
  also have "\<dots> = {#x#} + (\<Sum>k<n. mset (stride k n xs))" unfolding n by simp
  finally show ?case using Cons by simp
qed simp

lemma stride_length:
  "k < n \<Longrightarrow> length xs \<le> k + n * length (stride k n xs) \<and> n * length (stride k n xs) + k < length xs + n"
proof (induction k n xs rule: stride.induct)
  case (2 n x xs)
  then have "length xs \<le> (n - 1) + n * length (stride (n - 1) n xs)"
    "n * length (stride (n - 1) n xs) + (n - 1) < length xs + n" by auto
  with 2(2) show ?case by (auto simp: algebra_simps)
next
  case (3 k n x xs)
  then show ?case by auto
qed simp

definition stride_shards :: "'a list \<Rightarrow> py_error + 'a list list" where
  [py_defs]: "stride_shards names = mapE (\<lambda>index. members names (int index) 7) [0..<7]"

lemma stride_shards_eq: "stride_shards names = Inr (map (\<lambda>k. stride k 7 names) [0..<7])"
  unfolding stride_shards_def by (rule mapE_total) (auto simp: members_def)

interpretation stride_sched: shard_scheduler stride_shards
proof (unfold_locales, goal_cases)
  case (1 os gs)
  then show ?case by (auto simp: stride_shards_eq)
next
  case (2 os gs)
  then show ?case using mset_concat_upt[of "\<lambda>k. stride k 7 os" 7] stride_partition[of 7 os]
    by (simp add: stride_shards_eq)
qed

text \<open>
  The seven strides are always accepted and partition the owners: every owner is in exactly one
  shard, no shard holds a foreign owner, and the sizes of two shards differ by at most one.
\<close>

theorem stride_shards_partition:
  assumes "distinct names"
  shows "\<exists>gs. stride_shards names = Inr gs \<and> length gs = 7 \<and>
    (\<forall>x \<in> set names. \<exists>!i. i < 7 \<and> x \<in> set (gs ! i)) \<and> (\<forall>g \<in> set gs. set g \<subseteq> set names) \<and>
    (\<forall>g \<in> set gs. \<forall>h \<in> set gs. length g \<le> length h + 1)"
proof -
  let ?gs = "map (\<lambda>k. stride k 7 names) [0..<7]"
  have r: "stride_shards names = Inr ?gs" by (rule stride_shards_eq)
  have "length g \<le> length h + 1" if "g \<in> set ?gs" "h \<in> set ?gs" for g h
  proof -
    from that obtain i j where ij: "i < 7" "j < 7" "g = stride i 7 names" "h = stride j 7 names" by auto
    from stride_length[OF ij(1), of names] stride_length[OF ij(2), of names] ij show ?thesis by auto
  qed
  with r stride_sched.owner_once[OF r assms] stride_sched.shard_subset[OF r] stride_sched.seven[OF r]
  show ?thesis by blast
qed

theorem stride_shards_partition_witness:
  "\<exists>gs. stride_shards [''a/0.o'', ''a/1.o'', ''a/2.o'', ''a/3.o'', ''a/4.o'', ''a/5.o'', ''a/6.o'', ''a/7.o''] = Inr gs \<and>
     gs ! 0 = [''a/0.o'', ''a/7.o''] \<and> (\<forall>g \<in> set gs. \<forall>h \<in> set gs. length g \<le> length h + 1)"
  using stride_shards_partition[of "[''a/0.o'', ''a/1.o'', ''a/2.o'', ''a/3.o'', ''a/4.o'', ''a/5.o'', ''a/6.o'', ''a/7.o'']"]
  by (auto simp: stride_shards_eq numeral_eq_Suc)

section \<open>The capped longest-processing-time plan\<close>

text \<open>The bin chosen for an item gains it; every other bin stays as it is.\<close>

definition put :: "string \<Rightarrow> int \<Rightarrow> bin \<Rightarrow> bin" where
  "put name ms b = b\<lparr>b_members := b_members b @ [name], b_weight_ms := b_weight_ms b + ms\<rparr>"

lemma put_fields [simp]:
  "b_shard (put name ms b) = b_shard b" "b_members (put name ms b) = b_members b @ [name]"
  "b_weight_ms (put name ms b) = b_weight_ms b + ms"
  by (simp_all add: put_def)

lemma place_Inr:
  assumes "place cap bins (name, ms, old) = Inr bins'" and "distinct (map b_shard bins)"
  shows "\<exists>i < length bins. length (b_members (bins ! i)) < cap \<and> bins' = bins[i := put name ms (bins ! i)] \<and>
    (\<forall>b \<in> set bins. length (b_members b) < cap \<longrightarrow> b_weight_ms (bins ! i) \<le> b_weight_ms b)"
proof -
  let ?ch = "filter (\<lambda>b. length (b_members b) < cap) bins"
  let ?key = "\<lambda>b. (b_weight_ms b, length (b_members b), b_shard b)"
  let ?c = "arg_min_list ?key ?ch"
  from assms(1) have ne: "?ch \<noteq> []" and b': "bins' = map (\<lambda>b. if b_shard b = b_shard ?c then put name ms b else b) bins"
    by (auto simp: place_def Let_def put_def split: if_splits)
  from ne have c: "?c \<in> set ?ch" by (rule arg_min_list_in)
  then obtain i where i: "i < length bins" "bins ! i = ?c" by (auto simp: in_set_conv_nth)
  have "bins' = bins[i := put name ms (bins ! i)]"
  proof (rule nth_equalityI)
    show "length bins' = length (bins[i := put name ms (bins ! i)])" by (simp add: b')
    fix j assume "j < length bins'"
    then have j: "j < length bins" by (simp add: b')
    have "b_shard (bins ! j) = b_shard ?c \<longleftrightarrow> j = i"
      using assms(2) i j by (auto simp: distinct_conv_nth) (metis i(2))
    with i j show "bins' ! j = bins[i := put name ms (bins ! i)] ! j" by (auto simp: b' nth_list_update)
  qed
  moreover have "b_weight_ms ?c \<le> b_weight_ms b" if "b \<in> set bins" "length (b_members b) < cap" for b
  proof -
    have "?key ?c = Min (?key ` set ?ch)" using ne by (rule f_arg_min_list_f)
    also have "\<dots> \<le> ?key b" using that by (intro Min_le) auto
    finally show ?thesis by (auto simp: less_eq_prod_def)
  qed
  ultimately show ?thesis using i c by auto
qed

lemma mset_concat_update:
  "i < length xs \<Longrightarrow> mset (concat (map f (xs[i := x]))) + mset (f (xs ! i)) = mset (concat (map f xs)) + mset (f x)"
  by (induction xs arbitrary: i) (auto split: nat.split)

text \<open>The invariant of the placement loop after the rows \<open>done\<close>.\<close>

definition placed :: "nat \<Rightarrow> nat \<Rightarrow> (string \<times> int \<times> int) list \<Rightarrow> bin list \<Rightarrow> bool" where
  "placed n cap rows bins \<longleftrightarrow> map b_shard bins = [0..<n] \<and>
     mset (concat (map b_members bins)) = mset (map fst rows) \<and>
     (\<forall>b \<in> set bins. length (b_members b) \<le> cap) \<and>
     (\<forall>b \<in> set bins. b_weight_ms b = (\<Sum>(x, ms, old) \<leftarrow> rows. if x \<in> set (b_members b) then ms else 0))"

lemma placed_length: "placed n cap rows bins \<Longrightarrow> length bins = n \<and> sum_list (map (\<lambda>b. length (b_members b)) bins) = length rows"
proof -
  assume *: "placed n cap rows bins"
  then have "length (concat (map b_members bins)) = length rows"
    unfolding placed_def by (metis length_map size_mset)
  moreover have "length bins = n" using * unfolding placed_def by (metis length_map length_upt diff_zero)
  ultimately show ?thesis by (simp add: length_concat comp_def)
qed

lemma sum_split_name:
  "(\<Sum>(x, ms, old) \<leftarrow> rows. if x \<in> set (ys @ [name]) then ms else 0) =
   (\<Sum>(x, ms, old) \<leftarrow> rows. if x \<in> set ys then ms else 0) + (0::int)" if "name \<notin> fst ` set rows"
  using that by (induction rows) auto

lemma placed_step:
  assumes inv: "placed n cap rows bins" and new: "name \<notin> fst ` set rows"
    and st: "place cap bins (name, ms, old) = Inr bins'"
  shows "placed n cap (rows @ [(name, ms, old)]) bins'"
proof -
  have sh: "map b_shard bins = [0..<n]" using inv by (simp add: placed_def)
  then have ds: "distinct (map b_shard bins)" by simp
  obtain i where i: "i < length bins" "length (b_members (bins ! i)) < cap"
    "bins' = bins[i := put name ms (bins ! i)]" using place_Inr[OF st ds] by blast
  have nn: "name \<notin> set (b_members b)" if "b \<in> set bins" for b
  proof
    assume "name \<in> set (b_members b)"
    with that have "name \<in> set (concat (map b_members bins))" by auto
    moreover have "set (concat (map b_members bins)) = fst ` set rows"
      using inv unfolding placed_def by (metis set_map set_mset_mset)
    ultimately show False using new by blast
  qed
  have "map b_shard bins' = [0..<n]" 
    by (metis i(1,3) list_update_id map_update nth_map put_fields(1) sh)
  moreover have "mset (concat (map b_members bins')) = mset (map fst (rows @ [(name, ms, old)]))"
    using mset_concat_update[OF i(1), of b_members "put name ms (bins ! i)"] inv i(3)
    by (simp add: placed_def)
  moreover have sub: "b = put name ms (bins ! i) \<or> b \<in> set bins" if "b \<in> set bins'" for b
    using that set_update_subset_insert[of bins i "put name ms (bins ! i)"] unfolding i(3) by blast
  then have "length (b_members b) \<le> cap" if "b \<in> set bins'" for b
    using sub[OF that] i inv by (auto simp: placed_def)
  moreover have "b_weight_ms b = (\<Sum>(x, m, old) \<leftarrow> rows @ [(name, ms, old)]. if x \<in> set (b_members b) then m else 0)"
    if "b \<in> set bins'" for b
  proof -
    from sub[OF that] consider "b = put name ms (bins ! i)" | "b \<in> set bins" by blast
    then show ?thesis
    proof cases
      case 1
      then show ?thesis using inv i(1) sum_split_name[OF new, of "b_members (bins ! i)"] by (simp add: placed_def)
    next
      case 2
      then show ?thesis using inv nn by (simp add: placed_def)
    qed
  qed
  ultimately show ?thesis by (simp add: placed_def)
qed

lemma place_progress:
  assumes "placed n cap rows bins" "length rows < n * cap"
  shows "\<exists>bins'. place cap bins row = Inr bins'"
proof -
  have "\<exists>b \<in> set bins. length (b_members b) < cap"
  proof (rule ccontr)
    assume "\<not> ?thesis"
    then have "cap * length bins \<le> sum_list (map (\<lambda>b. length (b_members b)) bins)"
      by (induction bins) (auto simp: not_less add_mono)
    with placed_length[OF assms(1)] assms(2) show False by (simp add: mult.commute)
  qed
  then show ?thesis by (cases row) (auto simp: place_def Let_def filter_empty_conv)
qed

lemma place_all:
  assumes "placed n cap rows bins" "distinct (map fst (rows @ todo))" "length (rows @ todo) \<le> n * cap"
  shows "\<exists>bins'. foldE (place cap) bins todo = Inr bins' \<and> placed n cap (rows @ todo) bins'"
  using assms
proof (induction todo arbitrary: rows bins)
  case (Cons row todo)
  obtain name ms old where row: "row = (name, ms, old)" by (cases row)
  obtain bins' where b: "place cap bins row = Inr bins'" using place_progress[OF Cons.prems(1), of row] Cons.prems(3) by auto
  have "placed n cap (rows @ [row]) bins'"
    using placed_step[OF Cons.prems(1) _ b[unfolded row]] Cons.prems(2) row by auto
  from Cons.IH[OF this] Cons.prems b show ?case by simp
qed simp

text \<open>The placement loop ends with a full plan.\<close>

lemma plan_partition_rows:
  assumes "data \<noteq> []" and "distinct (map fst data)"
  shows "\<exists>bins. plan data 7 = Inr bins \<and> map b_shard bins = [0..<7] \<and>
    mset (concat (map b_members bins)) = mset (map fst data) \<and>
    (\<forall>b \<in> set bins. length (b_members b) \<le> (length data + 6) div 7) \<and>
    (\<forall>b \<in> set bins. b_weight_ms b = (\<Sum>(x, ms, old) \<leftarrow> data. if x \<in> set (b_members b) then ms else 0))"
proof -
  let ?rows = "sort_key (\<lambda>(name, ms, old). (- ms, name)) data" and ?cap = "(length data + 6) div 7"
  have ms: "mset ?rows = mset data" by simp
  have d: "distinct (map fst ?rows)" using assms(2) by (metis mset_map mset_eq_imp_distinct_iff ms)
  have "placed 7 ?cap [] (empty_bins 7)" by (auto simp: placed_def empty_bins_def comp_def map_idI)
  moreover have "length ?rows \<le> 7 * ?cap" by simp
  ultimately obtain bins where b: "foldE (place ?cap) (empty_bins 7) ?rows = Inr bins" "placed 7 ?cap ?rows bins"
    using place_all[of 7 ?cap "[]" "empty_bins 7" ?rows] d by auto
  have "plan data 7 = Inr bins"
    using b assms(1) placed_length[OF b(2)] by (simp add: plan_def Let_def add.commute)
  moreover have "(\<Sum>(x, ms, old) \<leftarrow> ?rows. if x \<in> S then ms else 0) = (\<Sum>(x, ms, old) \<leftarrow> data. if x \<in> S then ms else 0)" for S
    by (simp only: mset_map ms flip: sum_mset_sum_list)
  moreover have "mset (map fst ?rows) = mset (map fst data)" using ms by (metis mset_map)
  ultimately show ?thesis using b(2) by (auto simp: placed_def)
qed

text \<open>
  C22. On a non-empty list of distinct owners the plan never runs out of capacity: it yields seven bins
  that partition the owners, no bin holds more than a seventh of them rounded up, and the weight of a
  bin is the sum of the costs of its members.
\<close>

theorem plan_partition:
  assumes "data \<noteq> []" and "distinct (map fst data)"
  shows "\<exists>bins. plan data 7 = Inr bins \<and> map b_shard bins = [0..<7] \<and>
    mset (concat (map b_members bins)) = mset (map fst data) \<and>
    (\<forall>b \<in> set bins. length (b_members b) \<le> (length data + 6) div 7) \<and>
    (\<forall>b \<in> set bins. b_weight_ms b = (\<Sum>(x, ms, old) \<leftarrow> data. if x \<in> set (b_members b) then ms else 0))"
  by (rule plan_partition_rows[OF assms])

theorem plan_partition_witness:
  "\<exists>bins. plan [(''a/x.o'', 5, 0), (''a/y.o'', 9, 1)] 7 = Inr bins \<and>
     mset (concat (map b_members bins)) = mset [''a/x.o'', ''a/y.o'']"
  using plan_partition[of "[(''a/x.o'', 5, 0), (''a/y.o'', 9, 1)]"] by auto

text \<open>Rows that were parsed can always be planned and compared.\<close>

lemma parse_row_Inr:
  assumes "parse_row mode validated item = Inr out"
  shows "\<exists>name ms old. out = validated @ [(name, ms, old)] \<and> name \<notin> fst ` set validated \<and>
    0 \<le> ms \<and> 0 \<le> old \<and> old < 7 \<and> jget item ''object'' = Some (JStr name)"
proof -
  from assms obtain name old costs where o: "out = validated @ [(name, sum_list (map (\<lambda>v. the (as_int v)) costs), the (as_int old))]"
    and n: "name \<notin> fst ` set validated" "jget item ''object'' = Some (JStr name)"
    and c: "list_all (\<lambda>v. case v of JInt i \<Rightarrow> 0 \<le> i | _ \<Rightarrow> False) costs"
    and old: "case as_int old of None \<Rightarrow> False | Some i \<Rightarrow> 0 \<le> i \<and> i < 7"
    by (auto simp: parse_row_def Let_def resE jitem_def jget_def)
  have "0 \<le> sum_list (map (\<lambda>v. the (as_int v)) costs)"
    using c by (intro sum_list_nonneg) (auto simp: list_all_iff as_int_def split: json.splits)
  with o n old show ?thesis by (auto split: option.splits)
qed

lemma parse_ok:
  assumes "parse rows mode = Inr out"
  shows "distinct (map fst out) \<and> (\<forall>(x, ms, old) \<in> set out. 0 \<le> ms \<and> 0 \<le> old \<and> old < 7)"
  using assms unfolding parse_def
  by (rule foldE_invariant) (auto dest!: parse_row_Inr)

lemma sum_list_add_at: "i < length xs \<Longrightarrow> sum_list (xs[i := xs ! i + v]) = sum_list xs + (v :: int)"
  by (induction xs arbitrary: i) (auto split: nat.split)

lemma historical_total:
  fixes acc :: "int list"
  shows "\<forall>(x, ms, old) \<in> set rows. 0 \<le> old \<and> old < 7 \<Longrightarrow> length acc = 7 \<Longrightarrow>
   \<exists>old. foldE (\<lambda>old (name, ms, shard).
        if - 7 \<le> shard \<and> shard < 7
        then let i = nat (if shard < 0 then 7 + shard else shard) in Inr (old[i := old ! i + ms])
        else Inl IndexError) acc rows = Inr old \<and> length old = 7 \<and>
     sum_list old = sum_list acc + (\<Sum>(x, ms, o') \<leftarrow> rows. ms)" (is "_ \<Longrightarrow> _ \<Longrightarrow> \<exists>old. foldE ?f _ _ = _ \<and> _ \<and> _")
proof (induction rows arbitrary: acc)
  case (Cons row rows)
  obtain x ms o' where row: "row = (x, ms, o')" by (cases row)
  with Cons.prems have r: "0 \<le> o'" "o' < 7" by auto
  let ?acc = "acc[nat o' := acc ! nat o' + ms]"
  have "?f acc row = Inr ?acc" using r row by (simp add: Let_def)
  moreover have "sum_list ?acc = sum_list acc + ms"
    using r Cons.prems(2) sum_list_add_at[of "nat o'" acc ms] by (simp add: nat_less_iff)
  moreover obtain old where "foldE ?f ?acc rows = Inr old" "length old = 7"
    "sum_list old = sum_list ?acc + (\<Sum>(x, ms, o') \<leftarrow> rows. ms)" using Cons.IH[of ?acc] Cons.prems by auto
  ultimately show ?case using row by auto
qed simp

lemma sum_by_bins:
  assumes "map b_shard bins = [0..<n]" "mset (concat (map b_members bins)) = mset (map fst data)"
    "distinct (map fst data)"
    "\<forall>b \<in> set bins. b_weight_ms b = (\<Sum>(x, ms, old) \<leftarrow> data. if x \<in> set (b_members b) then ms else 0)"
  shows "sum_list (map b_weight_ms bins) = (\<Sum>(x, ms, old) \<leftarrow> data. ms)"
proof -
  have d: "distinct (concat (map b_members bins))" using assms(2,3) by (metis mset_eq_imp_distinct_iff)
  have once: "(\<Sum>b \<leftarrow> bins. if x \<in> set (b_members b) then ms else (0::int)) = ms" if "x \<in> fst ` set data" for x ms
  proof -
    have "x \<in> set (concat (map b_members bins))" using that assms(2) by (metis set_map set_mset_mset)
    with d show ?thesis
    proof (induction bins)
      case (Cons b bs)
      show ?case
      proof (cases "x \<in> set (b_members b)")
        case True
        with Cons.prems have "\<forall>b \<in> set bs. x \<notin> set (b_members b)" by fastforce
        then have "(\<Sum>b \<leftarrow> bs. if x \<in> set (b_members b) then ms else (0::int)) = 0"
          by (induction bs) auto
        with True show ?thesis by simp
      next
        case False
        with Cons show ?thesis by auto
      qed
    qed simp
  qed
  have "sum_list (map b_weight_ms bins) = (\<Sum>b \<leftarrow> bins. \<Sum>(x, ms, old) \<leftarrow> data. if x \<in> set (b_members b) then ms else 0)"
    using assms(4) by (intro arg_cong[where f = sum_list] map_cong) auto
  also have "\<dots> = (\<Sum>(x, ms, old) \<leftarrow> data. \<Sum>b \<leftarrow> bins. if x \<in> set (b_members b) then ms else 0)"
    by (induction bins) (auto simp: sum_list_addf case_prod_beta')
  also have "\<dots> = (\<Sum>(x, ms, old) \<leftarrow> data. ms)"
    using once by (intro arg_cong[where f = sum_list] map_cong) force+
  finally show ?thesis .
qed

text \<open>
  A run on metrics that cover the manifest exactly always produces its report: parsed rows are
  planned, the planned total equals the historical total, and no shard is planned above the total.
\<close>

theorem time_balanced_main_total:
  assumes "parse data mode = Inr rows" and "names \<noteq> []" and "distinct names"
    and "names = map strip (filter (\<lambda>l. strip l \<noteq> [] \<and> \<not> startswith (lstrip l) ''#'') (splitlines manifest))"
    and "set names = fst ` set rows"
  shows "\<exists>bins st. time_balanced_main data manifest mode = Inr (bins, st) \<and>
    mset (concat (map b_members bins)) = mset names \<and>
    sum_list (historical_ms st) = sum_list (predicted_ms st) \<and>
    sum_list (predicted_ms st) = (\<Sum>(x, ms, old) \<leftarrow> rows. ms) \<and>
    historical_critical_ms st \<in> set (historical_ms st) \<and>
    (\<forall>w \<in> set (predicted_ms st). w \<le> predicted_critical_ms st)"
proof -
  note ok = parse_ok[OF assms(1)]
  have ne: "rows \<noteq> []" using assms(2,5) by auto
  obtain bins where p: "plan rows 7 = Inr bins" "map b_shard bins = [0..<7]"
    "mset (concat (map b_members bins)) = mset (map fst rows)"
    "\<forall>b \<in> set bins. b_weight_ms b = (\<Sum>(x, ms, old) \<leftarrow> rows. if x \<in> set (b_members b) then ms else 0)"
    using plan_partition_rows[OF ne] ok by blast
  have tot: "sum_list (map b_weight_ms bins) = (\<Sum>(x, ms, old) \<leftarrow> rows. ms)"
    using sum_by_bins[OF p(2,3) _ p(4)] ok by blast
  have rng: "\<forall>(x, ms, old) \<in> set rows. 0 \<le> old \<and> old < 7" using ok by fast
  obtain old where old: "foldE (\<lambda>old (name, ms, shard).
        if - 7 \<le> shard \<and> shard < 7
        then let i = nat (if shard < 0 then 7 + shard else shard) in Inr (old[i := old ! i + ms])
        else Inl IndexError) (replicate 7 0) rows = Inr old" "length old = 7"
     "sum_list old = (\<Sum>(x, ms, o') \<leftarrow> rows. ms)"
    using historical_total[of rows "replicate 7 0"] rng by (auto simp: sum_list_replicate)
  have "length bins = 7" using p(2) by (metis length_map length_upt diff_zero)
  then have bne: "map b_weight_ms bins \<noteq> []" by auto
  let ?st = "\<lparr> historical_ms = old, predicted_ms = map b_weight_ms bins,
     historical_critical_ms = Max (set old), predicted_critical_ms = Max (set (map b_weight_ms bins)),
     saving_pct = saving (Max (set old)) (Max (set (map b_weight_ms bins))) \<rparr>"
  have "compare_plans rows bins = Inr ?st"
    unfolding compare_plans_def old(1) using old(3) tot bne by (simp add: Let_def)
  then have "time_balanced_main data manifest mode = Inr (bins, ?st)"
    using assms p(1) unfolding time_balanced_main_def assms(4)[symmetric] by (simp add: Let_def)
  moreover have "mset (map fst rows) = mset names"
    using ok assms(3,5) by (metis set_eq_iff_mset_eq_distinct set_map)
  moreover have "Max (set old) \<in> set old" using old(2) by (intro Max_in) auto
  ultimately show ?thesis using p(3) tot old(3) by auto
qed

text \<open>A metrics row, as the producer of the metrics writes it.\<close>

definition demo_row :: "string \<Rightarrow> int \<Rightarrow> (string \<times> json) list" where
  "demo_row name ms = [(''object'', JStr name), (''status'', JStr ''PASS''), (''shard'', JInt 3), (''minic_wall_ms'', JInt ms)]"

theorem time_balanced_main_total_witness:
  "\<exists>bins st. time_balanced_main [demo_row ''a/x.o'' 5, demo_row ''a/y.o'' 9] ''a/y.o\<newline>a/x.o\<newline>'' ''minic'' = Inr (bins, st) \<and>
     sum_list (predicted_ms st) = 14"
proof -
  have p: "parse [demo_row ''a/x.o'' 5, demo_row ''a/y.o'' 9] ''minic'' = Inr [(''a/x.o'', 5, 3), (''a/y.o'', 9, 3)]"
    by code_simp
  have n: "[''a/y.o'', ''a/x.o''] = map strip (filter (\<lambda>l. strip l \<noteq> [] \<and> \<not> startswith (lstrip l) ''#'') (splitlines ''a/y.o\<newline>a/x.o\<newline>''))"
    by code_simp
  from time_balanced_main_total[OF p _ _ n] show ?thesis by auto
qed

section \<open>Digest-bound assignments are schedulers\<close>

lemma mset_filter_upt:
  "mset (concat (map (\<lambda>k. filter (\<lambda>x. f x = Some k) xs) [0..<n])) = mset (filter (\<lambda>x. \<exists>k<n. f x = Some k) xs)"
proof (induction xs)
  case (Cons x xs)
  have "mset (concat (map (\<lambda>k. filter (\<lambda>x. f x = Some k) (x # xs)) [0..<n])) =
      mset (concat (map (\<lambda>k. filter (\<lambda>x. f x = Some k) xs) [0..<n])) + (if \<exists>k<n. f x = Some k then {#x#} else {#})"
    by (induction n) (auto simp: less_Suc_eq)
  with Cons show ?case by simp
qed (induction n, simp_all)

text \<open>Every owner has a digit, so no owner is lost.\<close>

lemma assigned_groups_partition:
  assumes "length digits = length order" "mset order = mset owners" "list_all (\<lambda>c. c \<in> set ''0123456'') digits"
  shows "length (assigned_groups owners order digits) = 7"
    and "mset (concat (assigned_groups owners order digits)) = mset owners"
proof -
  let ?a = "zip order (map digit_int digits)"
  show "length (assigned_groups owners order digits) = 7" by (simp add: assigned_groups_def)
  have "\<exists>k<7. map_of ?a x = Some k" if "x \<in> set owners" for x
  proof -
    have "x \<in> set order" using that assms(2) by (metis set_mset_mset)
    then obtain k where k: "map_of ?a x = Some k"
      using assms(1) map_of_zip_is_Some[of order "map digit_int digits" x] by auto
    then have "k \<in> set (map digit_int digits)" by (auto dest!: map_of_SomeD set_zip_rightD)
    moreover have "\<forall>c \<in> set ''0123456''. digit_int c < 7" by (simp add: digit_int_def)
    ultimately have "k < 7" using assms(3) unfolding list_all_iff by fastforce
    with k show ?thesis by blast
  qed
  then have "filter (\<lambda>x. \<exists>k<7. map_of ?a x = Some k) owners = owners" by (simp add: filter_id_conv)
  with mset_filter_upt[of "map_of ?a" owners 7] show "mset (concat (assigned_groups owners order digits)) = mset owners"
    by (simp add: assigned_groups_def)
qed

lemma gnu_balanced_Inr:
  assumes "gnu_balanced_members sha256 owners doc = Inr gs"
  shows "\<exists>digits. jget doc ''digits_by_sorted_owner'' = Some (JStr digits) \<and> length digits = length owners \<and>
    list_all (\<lambda>c. c \<in> set ''0123456'') digits \<and> distinct owners \<and> gs = assigned_groups owners (sort owners) digits"
  using assms by (auto simp: gnu_balanced_members_def Let_def resE)

interpretation gnu_sched: shard_scheduler "\<lambda>owners. gnu_balanced_members sha256 owners doc" for sha256 doc
proof (unfold_locales, goal_cases)
  case (1 os gs)
  then show ?case using gnu_balanced_Inr[OF 1] by (auto simp: assigned_groups_def)
next
  case (2 os gs)
  then show ?case using gnu_balanced_Inr[OF 2] assigned_groups_partition(2)[of _ "sort os" os] by auto
qed

lemma minipp_balanced_Inr:
  assumes "minipp_balanced_members sha256 owners doc = Inr gs"
  shows "\<exists>digits. jget doc ''digits_by_sorted_owner'' = Some (JStr digits) \<and> length digits = length owners \<and>
    list_all (\<lambda>c. c \<in> set ''0123456'') digits \<and> distinct owners \<and> gs = assigned_groups owners (sort owners) digits"
  using assms by (auto simp: minipp_balanced_members_def Let_def resE)

interpretation minipp_sched: shard_scheduler "\<lambda>owners. minipp_balanced_members sha256 owners doc" for sha256 doc
proof (unfold_locales, goal_cases)
  case (1 os gs)
  then show ?case using minipp_balanced_Inr[OF 1] by (auto simp: assigned_groups_def)
next
  case (2 os gs)
  then show ?case using minipp_balanced_Inr[OF 2] assigned_groups_partition(2)[of _ "sort os" os] by auto
qed

lemma sort_mset_eq: "mset xs = mset ys \<Longrightarrow> sort xs = sort (ys :: 'a :: linorder list)"
  by (metis mset_sort properties_for_sort sorted_sort)

lemma assigned_groups_mset:
  "mset owners' = mset owners \<Longrightarrow>
   map mset (assigned_groups owners' order digits) = map mset (assigned_groups owners order digits)"
  by (auto simp: assigned_groups_def mset_filter)

text \<open>
  The GNU assignment accepted for one listing of the owners is accepted for every other order of
  the same owners and assigns each of them to the same shard; in both listings every owner is in
  exactly one shard.
\<close>

theorem gnu_balanced_order_independent:
  assumes "gnu_balanced_members sha256 owners doc = Inr gs" and "mset owners' = mset owners"
  shows "\<exists>gs'. gnu_balanced_members sha256 owners' doc = Inr gs' \<and> map mset gs' = map mset gs \<and>
    (\<forall>x \<in> set owners. \<exists>!i. i < 7 \<and> x \<in> set (gs ! i)) \<and> (\<forall>x \<in> set owners. \<exists>!i. i < 7 \<and> x \<in> set (gs' ! i))"
proof -
  have eqs: "length owners' = length owners" "distinct owners' = distinct owners" "set owners' = set owners"
    "sort owners' = sort owners"
    using mset_eq_length[OF assms(2)] mset_eq_imp_distinct_iff[OF assms(2)] mset_eq_setD[OF assms(2)]
      sort_mset_eq[OF assms(2)] by blast+
  have ll: "list_all P owners' = list_all P owners" for P using eqs(3) by (simp add: list_all_iff)
  have len: "map length (assigned_groups owners' order digits) = map length (assigned_groups owners order digits)" for order digits
    using arg_cong[OF assigned_groups_mset[OF assms(2), of order digits], of "map size"]
    by (simp add: comp_def)
  obtain gs' where gs': "gnu_balanced_members sha256 owners' doc = Inr gs'"
    using assms(1) unfolding gnu_balanced_members_def eqs ll by (auto simp: Let_def resE len)
  obtain digits where "gs = assigned_groups owners (sort owners) digits" "gs' = assigned_groups owners' (sort owners) digits"
    "distinct owners"
    using gnu_balanced_Inr[OF assms(1)] gnu_balanced_Inr[OF gs'] eqs(4) by auto
  then show ?thesis using gs' assigned_groups_mset[OF assms(2)] gnu_sched.owner_once[OF assms(1)]
      gnu_sched.owner_once[OF gs'] eqs by simp
qed

subsection \<open>A universe of 2064 owners\<close>

definition demo_owner :: "nat \<Rightarrow> string" where
  "demo_owner i = replicate (Suc i) CHR ''a'' @ ''/x.o''"

definition demo_owners :: "string list" where
  "demo_owners = map demo_owner [0..<2064]"

definition demo_digits :: string where
  "demo_digits = concat (map (replicate 295) ''012345'') @ replicate 294 CHR ''6''"

definition demo_doc :: "(string \<times> json) list" where
  "demo_doc = [(''schema'', JStr ''minic-gnu-seven-balanced-v1''), (''reference_run'', JInt 39033023656),
     (''sorted_owner_sha256'', JStr ''h''), (''digits_by_sorted_owner'', JStr demo_digits),
     (''assignment_sha256'', JStr ''h''),
     (''observed_reference_stage_totals_ms'', JObj [(''minic'', JInt 1175746)])]"

lemma demo_owner_less: "i < j \<Longrightarrow> demo_owner i < demo_owner j"
proof (induction i arbitrary: j)
  case 0
  then obtain k where "j = Suc k" by (cases j) auto
  moreover have "CHR ''/'' < CHR ''a''" by code_simp
  ultimately show ?case by (simp add: demo_owner_def)
next
  case (Suc i)
  then obtain k where "j = Suc k" "i < k" by (cases j) auto
  with Suc.IH[of k] show ?case by (simp add: demo_owner_def)
qed

lemma demo_owners_sorted: "sort demo_owners = demo_owners" "distinct demo_owners"
proof -
  have sw: "sorted_wrt (<) demo_owners"
    unfolding demo_owners_def sorted_wrt_map
    by (rule sorted_wrt_mono_rel[OF _ sorted_wrt_upt]) (rule demo_owner_less)
  then show "distinct demo_owners" "sort demo_owners = demo_owners"
    by (simp_all add: strict_sorted_iff sort_key_id_if_sorted)
qed

lemma demo_owner_path:
  "path_root (demo_owner i) = []" "path_parts (demo_owner i) = [replicate (Suc i) CHR ''a'', ''x.o'']"
  "endswith (demo_owner i) ''.o''"
proof -
  have "split_char CHR ''/'' (join ''/'' [replicate (Suc i) CHR ''a'', ''x.o'']) = [replicate (Suc i) CHR ''a'', ''x.o'']"
    by (rule split_char_join) auto
  then have sp: "split_char CHR ''/'' (demo_owner i) = [replicate (Suc i) CHR ''a'', ''x.o'']"
    by (simp add: demo_owner_def)
  show r: "path_root (demo_owner i) = []" by (simp add: demo_owner_def path_root_def startswith_def)
  show "path_parts (demo_owner i) = [replicate (Suc i) CHR ''a'', ''x.o'']"
    unfolding path_parts_def path_tail_def r sp by simp
  show "endswith (demo_owner i) ''.o''" by (auto simp: endswith_iff demo_owner_def)
qed

lemma assigned_count:
  "length xs = length ds \<Longrightarrow> distinct xs \<Longrightarrow>
   length (filter (\<lambda>x. map_of (zip xs ds) x = Some k) xs) = length (filter (\<lambda>d. d = k) ds)"
proof (induction xs ds rule: list_induct2)
  case (Cons x xs d ds)
  then have "filter (\<lambda>y. map_of (zip (x # xs) (d # ds)) y = Some k) xs = filter (\<lambda>y. map_of (zip xs ds) y = Some k) xs"
    by (intro filter_cong) auto
  with Cons show ?case by simp
qed simp

lemma assigned_lengths:
  assumes "length digits = length xs" "distinct xs"
  shows "map length (assigned_groups xs xs digits) =
    map (\<lambda>k. length (filter (\<lambda>d. d = k) (map digit_int digits))) [0..<7]"
  unfolding assigned_groups_def Let_def map_map comp_def
  using assms by (intro map_cong refl assigned_count) simp_all

lemma demo_gnu: "\<exists>gs. gnu_balanced_members (\<lambda>_. ''h'') demo_owners demo_doc = Inr gs"
proof -
  have len: "length demo_owners = 2064" "length demo_digits = 2064"
    by (simp_all add: demo_owners_def demo_digits_def)
  have safe: "list_all (\<lambda>s. \<not> (is_absolute s \<or> ''..'' \<in> set (path_parts s) \<or> \<not> endswith s ''.o'')) demo_owners"
    by (auto simp: list_all_iff demo_owners_def demo_owner_path is_absolute_def)
  have dg: "list_all (\<lambda>c. c \<in> set ''0123456'') demo_digits"
    by (auto simp: list_all_iff demo_digits_def)
  have di: "map digit_int demo_digits = concat (map (replicate 295) [0, 1, 2, 3, 4, 5]) @ replicate 294 6"
    by (simp add: demo_digits_def digit_int_def)
  have "map length (assigned_groups demo_owners demo_owners demo_digits) = [295, 295, 295, 295, 295, 295, 294]"
    using assigned_lengths[of demo_digits demo_owners] len demo_owners_sorted(2)
    by (simp add: di upt_rec filter_replicate)
  then show ?thesis
    using len safe dg demo_owners_sorted
    by (simp add: gnu_balanced_members_def demo_doc_def jget_def as_str_def as_dict_def owner_digest_def Let_def)
qed

theorem gnu_balanced_order_independent_witness:
  "\<exists>gs gs'. gnu_balanced_members (\<lambda>_. ''h'') demo_owners demo_doc = Inr gs \<and>
     gnu_balanced_members (\<lambda>_. ''h'') (rev demo_owners) demo_doc = Inr gs' \<and> map mset gs' = map mset gs"
proof -
  obtain gs where gs: "gnu_balanced_members (\<lambda>_. ''h'') demo_owners demo_doc = Inr gs" using demo_gnu by blast
  with gnu_balanced_order_independent[OF gs, of "rev demo_owners"] show ?thesis by auto
qed

end
