(* ===== verification/ShardMerge.thy ===== *)
theory ShardMerge
  imports ShardPlan FileStore
begin

text \<open>
  \<^verbatim>\<open>tools/ci/linux-runtime-gcc-shards-v1.py\<close>: writing the member list of one shard, and the
  fail-closed reassembly of the seven shards.  The digest (\<open>sha\<close>), the JSON reader (\<open>loads\<close>) and the
  list of the paths that exist (\<open>ls\<close>, for \<^verbatim>\<open>rglob\<close>) are arguments.

  Shown here: the store changes only after every shard has been verified; what a merge installs is
  byte for byte what the shards delivered and what their manifests pin; once seven shards of a
  scheduler verify, they cover the universe, so the final union test cannot fail.
\<close>

section \<open>Headers\<close>

definition header_ok :: "byte list \<Rightarrow> nat \<Rightarrow> bool" where
  [py_defs]: "header_ok h elf_class =
     (let header_length = (if elf_class = 32 then 52 else 64);
          expected_ident = [0x7F, 0x45, 0x4C, 0x46] @ (if elf_class = 32 then [1] else [2]) @ [1] in
      length h = header_length \<and> take 6 h = expected_ident \<and>
      unpack_half True h 16 = 1 \<and> unpack_half True h 18 = 243)"

definition flags_of :: "byte list \<Rightarrow> nat \<Rightarrow> byte list" where
  [py_defs]: "flags_of h elf_class = take 4 (drop (if elf_class = 32 then 36 else 48) h)"

definition check_elf :: "byte list \<Rightarrow> byte list \<Rightarrow> string \<Rightarrow> nat \<Rightarrow> py_error + unit" where
  [py_defs]: "check_elf ref candidate name elf_class =
     (if elf_class \<notin> set [32, 64] then Inl (ValueError ''unsupported RISC-V ELF class'')
      else let header_length = (if elf_class = 32 then 52 else 64);
               h = take header_length ref; c = take header_length candidate in
        if \<not> header_ok h elf_class \<or> \<not> header_ok c elf_class
        then Inl (ValueError (''not ELF LE RISC-V ET_REL: '' @ name))
        else if flags_of c elf_class \<noteq> flags_of h elf_class
        then Inl (ValueError (''RISC-V ABI flags mismatch: '' @ name))
        else Inr ())"

section \<open>Reading\<close>

definition read_text :: "fs \<Rightarrow> path \<Rightarrow> py_error + string" where
  [py_defs]: "read_text s p =
     bindE (of_option (OSError ''read'') (read_bytes s p)) (\<lambda>b. of_option (ValueError ''utf-8'') (decode_utf8 b))"

definition sha_file :: "(byte list \<Rightarrow> string) \<Rightarrow> fs \<Rightarrow> path \<Rightarrow> py_error + string" where
  [py_defs]: "sha_file sha s p = bindE (of_option (OSError ''read'') (read_bytes s p)) (\<lambda>b. Inr (sha b))"

definition contract :: "(byte list \<Rightarrow> string) \<Rightarrow> string list \<Rightarrow> string" where
  [py_defs]: "contract sha parts = sha (encode_utf8 (join ''\<newline>'' parts @ ''\<newline>''))"

text \<open>
  The two manifest formats, \<^verbatim>\<open>([0-9a-f]{64})  (.+)\<close> and \<^verbatim>\<open>([0-9a-f]{64})  minic/(.+)\<close>, matched against
  a whole line without line feeds.
\<close>

definition manifest_line :: "string \<Rightarrow> string \<Rightarrow> (string \<times> string) option" where
  [py_defs]: "manifest_line lead line =
     (let digest = take 64 line; rest = drop 64 line; sep = ''  '' @ lead; name = drop (length sep) rest in
      if length digest = 64 \<and> list_all (\<lambda>c. c \<in> set ''0123456789abcdef'') digest \<and> startswith rest sep \<and>
         name \<noteq> [] \<and> CHR 0x0A \<notin> set name
      then Some (digest, name) else None)"

record shard_args =
  sa_full :: path
  sa_shards :: path
  sa_evidence :: path
  sa_provenance :: path
  sa_out :: path
  sa_minic :: path
  sa_assembler :: path
  sa_elf_class :: nat
  sa_balanced_plan :: "path option"

definition universe_of :: "fs \<Rightarrow> path \<Rightarrow> py_error + string list" where
  [py_defs]: "universe_of s full =
     bindE (read_text s full) (\<lambda>text. bindE (objects_of text) (\<lambda>names.
       if \<not> (1200 \<le> length names \<and> length names \<le> 3000)
       then Inl (ValueError ''not a plausible certified full C universe'') else Inr names))"

definition partitions_of ::
  "(byte list \<Rightarrow> string) \<Rightarrow> (string \<Rightarrow> (string \<times> json) list option) \<Rightarrow> fs \<Rightarrow> path option \<Rightarrow> string list \<Rightarrow>
   py_error + string list list" where
  [py_defs]: "partitions_of sha loads s balanced_plan names =
     (case balanced_plan of
        Some p \<Rightarrow> bindE (read_text s p) (\<lambda>text. bindE (of_option (ValueError ''json'') (loads text)) (\<lambda>doc.
          gnu_balanced_members (sha \<circ> encode_utf8) names doc))
      | None \<Rightarrow> stride_shards names)"

text \<open>\<^verbatim>\<open>split\<close>: the member list of one shard is written next to its header line.\<close>

definition split_shard ::
  "(byte list \<Rightarrow> string) \<Rightarrow> (string \<Rightarrow> (string \<times> json) list option) \<Rightarrow> path \<Rightarrow> int \<Rightarrow> int \<Rightarrow> path option \<Rightarrow> path \<Rightarrow>
   (fs, py_error, string list) prog" where
  [py_defs]: "split_shard sha loads full shard n balanced_plan out =
     bindP (readP (\<lambda>s. bindE (universe_of s full) (\<lambda>names.
       case balanced_plan of
         Some p \<Rightarrow> bindE (partitions_of sha loads s (Some p) names) (\<lambda>all_members.
           of_option IndexError (py_get all_members shard))
       | None \<Rightarrow> members names shard n))) (\<lambda>shard_objects.
     bindP (putP (\<lambda>s. of_option (OSError ''mkdir'') (mkdir_parents (butlast out) s))) (\<lambda>_.
     bindP (putP (\<lambda>s. of_option (OSError ''write'') (write_bytes (encode_utf8
       (''# MiniC GNU-golden shard; not standalone runtime evidence\<newline>'' @ join ''\<newline>'' shard_objects @ ''\<newline>'')) out s)))
       (\<lambda>_. retP shard_objects)))"

section \<open>Merging\<close>

record identity =
  id_cfg :: string
  id_gnu_image :: string
  id_compiler :: string
  id_assembler :: string
  id_gold_manifest :: string
  id_golden :: "(string \<times> string) list"

definition config_of :: "string \<Rightarrow> string" where
  [py_defs]: "config_of text =
     (case filter (\<lambda>l. startswith l ''config_sha256='') (splitlines text) of
        [] \<Rightarrow> [] | l # _ \<Rightarrow> (case split1 CHR ''='' l of None \<Rightarrow> [] | Some (a, b) \<Rightarrow> b))"

definition load_identity :: "(byte list \<Rightarrow> string) \<Rightarrow> shard_args \<Rightarrow> fs \<Rightarrow> py_error + identity" where
  [py_defs]: "load_identity sha a s =
     bindE (read_text s (sa_provenance a @ [''gcc-baseline.txt''])) (\<lambda>baseline.
     bindE (sha_file sha s (sa_out a @ [''.config''])) (\<lambda>config.
     bindE (ensure (config_of baseline = config) (ValueError ''certified GNU config identity mismatch'')) (\<lambda>_.
     bindE (read_text s (sa_provenance a @ [''gcc-objects.sha256''])) (\<lambda>text.
     bindE (foldE (\<lambda>golden line. case manifest_line [] line of
                     None \<Rightarrow> Inl (ValueError ''bad GCC reference object manifest'')
                   | Some (digest, name) \<Rightarrow> Inr (AList.update name digest golden)) [] (splitlines text)) (\<lambda>golden.
     bindE (sha_file sha s (sa_minic a)) (\<lambda>compiler.
     bindE (sha_file sha s (sa_assembler a)) (\<lambda>assembler.
     bindE (sha_file sha s (sa_out a @ [''arch'', ''riscv'', ''boot'', ''Image''])) (\<lambda>gnu_image.
     bindE (sha_file sha s (sa_provenance a @ [''gcc-objects.sha256''])) (\<lambda>gold_manifest.
       Inr \<lparr> id_cfg = config_of baseline, id_gnu_image = gnu_image, id_compiler = compiler,
             id_assembler = assembler, id_gold_manifest = gold_manifest, id_golden = golden \<rparr>)))))))))"

definition id_parts :: "identity \<Rightarrow> string list" where
  [py_defs]: "id_parts i = [id_cfg i, id_gnu_image i, id_compiler i, id_assembler i, id_gold_manifest i]"

text \<open>One candidate object against its manifest line and its GNU reference.\<close>

definition verify_candidate ::
  "(byte list \<Rightarrow> string) \<Rightarrow> shard_args \<Rightarrow> fs \<Rightarrow> identity \<Rightarrow> path \<Rightarrow> (string \<times> path) list \<Rightarrow> string \<times> string \<Rightarrow>
   py_error + (string \<times> path) list" where
  [py_defs]: "verify_candidate sha a s i shard_dir collected nl =
     (case nl of (name, line) \<Rightarrow>
      bindE (case manifest_line ''minic/'' line of
               Some (digest, n) \<Rightarrow> if n = name then Inr digest
                 else Inl (ValueError (''unexpected candidate manifest entry: '' @ name))
             | None \<Rightarrow> Inl (ValueError (''unexpected candidate manifest entry: '' @ name))) (\<lambda>digest.
      let candidate = shard_dir @ [''minic''] @ path_tail name; reference = sa_out a @ path_tail name in
      bindE (ensure (\<not> is_symlink s candidate \<and> is_file s candidate \<and> sha_file sha s candidate = Inr digest)
               (ValueError (''candidate object hash mismatch: '' @ name))) (\<lambda>_.
      bindE (sha_file sha s reference) (\<lambda>r.
      bindE (ensure (map_of (id_golden i) name = Some r) (ValueError (''GCC golden object changed: '' @ name))) (\<lambda>_.
      bindE (of_option (OSError ''read'') (read_bytes s reference)) (\<lambda>rb.
      bindE (of_option (OSError ''read'') (read_bytes s candidate)) (\<lambda>cb.
      bindE (check_elf rb cb name (sa_elf_class a)) (\<lambda>_.
      bindE (ensure (name \<notin> fst ` set collected) (ValueError (''duplicate object from shards: '' @ name))) (\<lambda>_.
        Inr (collected @ [(name, candidate)]))))))))))"

definition relative_files :: "path list \<Rightarrow> fs \<Rightarrow> path \<Rightarrow> string list" where
  [py_defs]: "relative_files ls s d =
     map (\<lambda>p. join ''/'' (drop (length d) p)) (filter (\<lambda>p. under d p \<and> p \<noteq> d \<and> is_file s p) ls)"

definition log_complete :: "string \<Rightarrow> nat \<Rightarrow> bool" where
  [py_defs]: "log_complete log n \<longleftrightarrow>
     contains (''COHORT_ABI=PASS objects='' @ str_int (int n)) log \<and>
     contains (''COHORT_PRODUCE_ONLY=PASS objects='' @ str_int (int n)) log \<and>
     (contains (''COHORT_COMPILE=PASS objects='' @ str_int (int n)) log \<or>
      contains (''COHORT_CANDIDATE_CACHE=HIT objects='' @ str_int (int n)) log)"

definition verify_shard ::
  "(byte list \<Rightarrow> string) \<Rightarrow> path list \<Rightarrow> shard_args \<Rightarrow> fs \<Rightarrow> identity \<Rightarrow> (string \<times> path) list \<Rightarrow> nat \<times> string list \<Rightarrow>
   py_error + (string \<times> path) list" where
  [py_defs]: "verify_shard sha ls a s i collected ix =
     (case ix of (index, part) \<Rightarrow>
      let shard_dir = sa_shards a @ [''shard-'' @ str_int (int index)];
          part_file = shard_dir @ [''full-objects.txt''] in
      bindE (bindE (read_text s part_file) objects_of) (\<lambda>listed.
      bindE (ensure (listed = part) (ValueError ''shard has noncanonical target membership'')) (\<lambda>_.
      bindE (sha_file sha s part_file) (\<lambda>part_sha.
      bindE (read_text s (shard_dir @ [''minic-identity.txt''])) (\<lambda>identity_text.
      bindE (ensure (strip identity_text = contract sha (id_parts i @ [part_sha]))
               (ValueError ''MiniC/GNU/cache identity mismatch in shard'')) (\<lambda>_.
      bindE (read_text s (shard_dir @ [''cohort.log''])) (\<lambda>log.
      bindE (ensure (log_complete log (length part))
               (ValueError ''shard missing complete MiniC route/ABI evidence'')) (\<lambda>_.
      bindE (read_text s (shard_dir @ [''minic-manifest.sha256''])) (\<lambda>manifest.
      bindE (ensure (length (splitlines manifest) = length part)
               (ValueError ''partial candidate manifest in shard'')) (\<lambda>_.
      bindE (ensure (set (relative_files ls s (shard_dir @ [''minic''])) = set part)
               (ValueError ''extra or missing candidate objects in shard'')) (\<lambda>_.
        foldE (verify_candidate sha a s i shard_dir) collected (zip part (splitlines manifest)))))))))))))"

text \<open>Everything \<^verbatim>\<open>merge\<close> does before its first write.\<close>

definition merge_inputs ::
  "(byte list \<Rightarrow> string) \<Rightarrow> (string \<Rightarrow> (string \<times> json) list option) \<Rightarrow> path list \<Rightarrow> shard_args \<Rightarrow> fs \<Rightarrow>
   py_error + string list \<times> identity \<times> (string \<times> path) list" where
  [py_defs]: "merge_inputs sha loads ls a s =
     bindE (universe_of s (sa_full a)) (\<lambda>names.
     bindE (load_identity sha a s) (\<lambda>i.
     bindE (partitions_of sha loads s (sa_balanced_plan a) names) (\<lambda>partitions.
     bindE (foldE (verify_shard sha ls a s i) [] (zip [0..<7] partitions)) (\<lambda>collected.
     bindE (ensure (fst ` set collected = set names)
              (ValueError ''shard union is not exactly the full C universe'')) (\<lambda>_.
     bindE (ensure (\<not> (path_exists s (sa_evidence a @ [''minic'']) \<or>
                       path_exists s (sa_evidence a @ [''minic-identity.txt''])))
              (ValueError ''refuse to merge over pre-existing candidate data'')) (\<lambda>_.
       Inr (names, i, collected)))))))"

definition mkdir_new :: "path \<Rightarrow> fs \<Rightarrow> fs option" where
  [py_defs]: "mkdir_new p s =
     (case entry s p of None \<Rightarrow> None | Some q \<Rightarrow> if node_at s q = None then Some (s(q \<mapsto> DirN)) else None)"

definition install :: "(byte list \<Rightarrow> string) \<Rightarrow> path \<Rightarrow> (string \<times> path) list \<Rightarrow> string \<Rightarrow> (fs, py_error, string) prog" where
  [py_defs]: "install sha target_dir collected name =
     (let dest = target_dir @ path_tail name in
      bindP (putP (\<lambda>s. of_option (OSError ''mkdir'') (mkdir_parents (butlast dest) s))) (\<lambda>_.
      bindP (putP (\<lambda>s. bindE (of_option (KeyError name) (map_of collected name)) (\<lambda>src.
               bindE (of_option (OSError ''read'') (read_bytes s src)) (\<lambda>b.
                 of_option (OSError ''write'') (write_bytes b dest s))))) (\<lambda>_.
      bindP (readP (\<lambda>s. sha_file sha s dest)) (\<lambda>h. retP (h @ ''  minic/'' @ name)))))"

definition merge ::
  "(byte list \<Rightarrow> string) \<Rightarrow> (string \<Rightarrow> (string \<times> json) list option) \<Rightarrow> path list \<Rightarrow> shard_args \<Rightarrow>
   (fs, py_error, string list) prog" where
  [py_defs]: "merge sha loads ls a =
     bindP (readP (merge_inputs sha loads ls a)) (\<lambda>(names, i, collected).
     bindP (putP (\<lambda>s. of_option (OSError ''mkdir'') (mkdir_parents (sa_evidence a) s))) (\<lambda>_.
     bindP (putP (\<lambda>s. of_option (OSError ''mkdir'') (mkdir_new (sa_evidence a @ [''minic'']) s))) (\<lambda>_.
     bindP (mapP (install sha (sa_evidence a @ [''minic'']) collected) names) (\<lambda>manifests.
     bindP (putP (\<lambda>s. of_option (OSError ''write'') (write_bytes (encode_utf8 (join ''\<newline>'' manifests @ ''\<newline>''))
              (sa_evidence a @ [''minic-manifest.sha256'']) s))) (\<lambda>_.
     bindP (readP (\<lambda>s. sha_file sha s (sa_full a))) (\<lambda>full_sha.
     bindP (putP (\<lambda>s. of_option (OSError ''write'') (write_bytes
              (encode_utf8 (contract sha (id_parts i @ [full_sha]) @ ''\<newline>''))
              (sa_evidence a @ [''minic-identity.txt'']) s))) (\<lambda>_.
       retP manifests)))))))"

text \<open>\<^verbatim>\<open>main\<close>: exceptions of the listed kinds give status 2, others are not caught.\<close>

definition shard_status :: "py_error + 'a \<Rightarrow> int" where
  [py_defs]: "shard_status r = (case r of Inr x \<Rightarrow> 0
     | Inl (OSError m) \<Rightarrow> 2 | Inl (ValueError m) \<Rightarrow> 2 | Inl (AssertionError m) \<Rightarrow> 2 | Inl e \<Rightarrow> 1)"

section \<open>Verified shards cover the universe\<close>

interpretation merge_sched: shard_scheduler "partitions_of sha loads s balanced_plan" for sha loads s balanced_plan
proof (unfold_locales, goal_cases)
  case (1 os gs)
  then show ?case
    by (auto simp: partitions_of_def resE split: option.splits intro: stride_sched.seven gnu_sched.seven)
next
  case (2 os gs)
  then show ?case
    by (auto simp: partitions_of_def resE split: option.splits intro: stride_sched.partition gnu_sched.partition)
qed

text \<open>What the checks of one object establish.\<close>

definition verified :: "(byte list \<Rightarrow> string) \<Rightarrow> shard_args \<Rightarrow> fs \<Rightarrow> identity \<Rightarrow> string \<Rightarrow> path \<Rightarrow> bool" where
  "verified sha a s i name src \<longleftrightarrow>
     (\<exists>cb rb. read_bytes s src = Some cb \<and> \<not> is_symlink s src \<and>
        read_bytes s (sa_out a @ path_tail name) = Some rb \<and> map_of (id_golden i) name = Some (sha rb) \<and>
        check_elf rb cb name (sa_elf_class a) = Inr ())"

lemma verify_candidate_Inr:
  assumes "verify_candidate sha a s i d collected (name, line) = Inr c'"
  shows "c' = collected @ [(name, d @ [''minic''] @ path_tail name)] \<and> name \<notin> fst ` set collected \<and>
    verified sha a s i name (d @ [''minic''] @ path_tail name) \<and>
    (\<exists>cb. read_bytes s (d @ [''minic''] @ path_tail name) = Some cb \<and> manifest_line ''minic/'' line = Some (sha cb, name))"
  using assms
  by (auto simp: verify_candidate_def Let_def resE sha_file_def verified_def split: option.splits if_splits prod.splits)

lemma verify_candidates_Inr:
  "foldE (verify_candidate sha a s i d) collected nls = Inr c' \<Longrightarrow> distinct (map fst collected) \<Longrightarrow>
   c' = collected @ map (\<lambda>(name, line). (name, d @ [''minic''] @ path_tail name)) nls \<and> distinct (map fst c') \<and>
   (\<forall>(name, line) \<in> set nls. verified sha a s i name (d @ [''minic''] @ path_tail name))"
proof (induction nls arbitrary: collected)
  case (Cons nl nls)
  obtain name line where nl: "nl = (name, line)" by (cases nl)
  from Cons.prems(1) obtain c1 where c1: "verify_candidate sha a s i d collected (name, line) = Inr c1"
    "foldE (verify_candidate sha a s i d) c1 nls = Inr c'" by (auto simp: nl bindE_Inr_iff)
  note v = verify_candidate_Inr[OF c1(1)]
  then have "distinct (map fst c1)" using Cons.prems(2) by auto
  note IH = Cons.IH[OF c1(2) this]
  show ?case
  proof (intro conjI)
    show "c' = collected @ map (\<lambda>(name, line). (name, d @ [''minic''] @ path_tail name)) (nl # nls)"
      using IH v by (simp add: nl)
    show "distinct (map fst c')" using IH by blast
    show "\<forall>(name, line) \<in> set (nl # nls). verified sha a s i name (d @ [''minic''] @ path_tail name)"
      using IH v by (simp add: nl)
  qed
qed simp

definition shard_dir_of :: "shard_args \<Rightarrow> nat \<Rightarrow> path" where
  "shard_dir_of a index = sa_shards a @ [''shard-'' @ str_int (int index)]"

lemma map_fst_zip_len: "length xs = length ys \<Longrightarrow> map (\<lambda>(x, y). f x) (zip xs ys) = map f xs"
  by (induction xs ys rule: list_induct2) auto

lemma verify_shard_Inr:
  assumes "verify_shard sha ls a s i collected (index, part) = Inr c'" "distinct (map fst collected)"
  shows "c' = collected @ map (\<lambda>name. (name, shard_dir_of a index @ [''minic''] @ path_tail name)) part \<and>
    distinct (map fst c') \<and>
    (\<forall>name \<in> set part. verified sha a s i name (shard_dir_of a index @ [''minic''] @ path_tail name))"
proof -
  from assms(1) obtain manifest where m: "length (splitlines manifest) = length part"
    "foldE (verify_candidate sha a s i (shard_dir_of a index)) collected (zip part (splitlines manifest)) = Inr c'"
    unfolding verify_shard_def Let_def prod.case shard_dir_of_def bindE_Inr_iff ensure_Inr_iff by blast
  note v = verify_candidates_Inr[OF m(2) assms(2)]
  have "\<exists>line. (name, line) \<in> set (zip part (splitlines manifest))" if "name \<in> set part" for name
    using that m(1) in_set_impl_in_set_zip1[of part "splitlines manifest" name] by metis
  then have "\<forall>name \<in> set part. verified sha a s i name (shard_dir_of a index @ [''minic''] @ path_tail name)"
    using v by fast
  moreover have "c' = collected @ map (\<lambda>name. (name, shard_dir_of a index @ [''minic''] @ path_tail name)) part"
    using v m(1) by (simp add: map_fst_zip_len)
  ultimately show ?thesis using v by blast
qed

lemma verify_shards_Inr:
  "foldE (verify_shard sha ls a s i) collected ixs = Inr c' \<Longrightarrow> distinct (map fst collected) \<Longrightarrow>
   \<forall>(n, p) \<in> set collected. verified sha a s i n p \<Longrightarrow>
   map fst c' = map fst collected @ concat (map snd ixs) \<and> distinct (map fst c') \<and>
   (\<forall>(n, p) \<in> set c'. verified sha a s i n p) \<and>
   (\<forall>(n, p) \<in> set c' - set collected. \<exists>index. p = shard_dir_of a index @ [''minic''] @ path_tail n)"
proof (induction ixs arbitrary: collected)
  case (Cons ix ixs)
  obtain index part where ix: "ix = (index, part)" by (cases ix)
  from Cons.prems(1) obtain c1 where c1: "verify_shard sha ls a s i collected (index, part) = Inr c1"
    "foldE (verify_shard sha ls a s i) c1 ixs = Inr c'" by (auto simp: ix bindE_Inr_iff)
  note v = verify_shard_Inr[OF c1(1) Cons.prems(2)]
  then have c1v: "\<forall>(n, p) \<in> set c1. verified sha a s i n p"
    and c1p: "\<forall>(n, p) \<in> set c1 - set collected. \<exists>index. p = shard_dir_of a index @ [''minic''] @ path_tail n"
    and c1f: "map fst c1 = map fst collected @ part"
    using Cons.prems(3) by (auto simp: comp_def)
  from Cons.IH[OF c1(2) _ c1v] v have IH: "map fst c' = map fst c1 @ concat (map snd ixs)"
    "distinct (map fst c')" "\<forall>(n, p) \<in> set c'. verified sha a s i n p"
    "\<forall>(n, p) \<in> set c' - set c1. \<exists>index. p = shard_dir_of a index @ [''minic''] @ path_tail n" by blast+
  show ?case
  proof (intro conjI)
    show "map fst c' = map fst collected @ concat (map snd (ix # ixs))" using IH(1) c1f by (simp add: ix)
    show "\<forall>(n, p) \<in> set c' - set collected. \<exists>index. p = shard_dir_of a index @ [''minic''] @ path_tail n"
      using IH(4) c1p by blast
  qed (use IH in blast)+
qed simp

text \<open>
  C3. Whatever scheduler is chosen, once all seven shards verify, the collected objects are distinct
  and are exactly the universe, and each of them passed its own checks: no object can be missing from
  or added to a merge, and the tests for duplicates and for the union never reject a verified set.
\<close>

theorem merge_union_exact:
  assumes "partitions_of sha loads s balanced_plan names = Inr partitions"
    and "foldE (verify_shard sha ls a s i) [] (zip [0..<7] partitions) = Inr collected"
  shows "mset (map fst collected) = mset names \<and> distinct names \<and>
    (\<forall>(name, src) \<in> set collected. verified sha a s i name src)"
proof -
  have len: "length [0..<7] = length partitions" using merge_sched.seven[OF assms(1)] by simp
  have "map snd (zip [0..<7] partitions) = partitions" using map_snd_zip[OF len] .
  with verify_shards_Inr[OF assms(2)] have v: "map fst collected = concat partitions" "distinct (map fst collected)"
    "\<forall>(name, src) \<in> set collected. verified sha a s i name src" by auto
  moreover have m: "mset (concat partitions) = mset names" using merge_sched.partition[OF assms(1)] .
  ultimately show ?thesis using mset_eq_imp_distinct_iff[OF m] by simp
qed

subsection \<open>Seven small shards\<close>

definition demo_sha :: "byte list \<Rightarrow> string" where
  "demo_sha b = replicate 64 CHR ''0''"

definition demo_header :: "byte list" where
  "demo_header = [0x7F, 0x45, 0x4C, 0x46, 2, 1] @ replicate 10 0 @ [1, 0, 243, 0] @ replicate 44 0"

definition demo_name :: "char \<Rightarrow> string" where
  "demo_name c = ''d/'' @ [c] @ ''.o''"

definition demo_names :: "string list" where
  "demo_names = map demo_name ''0123456''"

definition demo_store :: fs where
  "demo_store p =
     (case p of
        [x, y, z] \<Rightarrow>
          if x = ''s'' then
            (let c = last y in
             if z = ''full-objects.txt'' then Some (FileN (encode_utf8 (demo_name c)))
             else if z = ''minic-identity.txt'' then Some (FileN (encode_utf8 (demo_sha [])))
             else if z = ''cohort.log'' then Some (FileN (encode_utf8
               ''COHORT_ABI=PASS objects=1 COHORT_PRODUCE_ONLY=PASS objects=1 COHORT_COMPILE=PASS objects=1''))
             else if z = ''minic-manifest.sha256'' then Some (FileN (encode_utf8 (demo_sha [] @ ''  minic/'' @ demo_name c)))
             else Some DirN)
          else Some (FileN demo_header)
      | [x, y, z, d, f] \<Rightarrow> Some (FileN demo_header)
      | _ \<Rightarrow> Some DirN)"

definition demo_shard_args :: shard_args where
  "demo_shard_args = \<lparr> sa_full = [''f''], sa_shards = [''s''], sa_evidence = [''e''], sa_provenance = [''p''], sa_out = [''o''],
     sa_minic = [''m''], sa_assembler = [''a''], sa_elf_class = 64, sa_balanced_plan = None \<rparr>"

definition demo_identity :: identity where
  "demo_identity = \<lparr> id_cfg = [], id_gnu_image = [], id_compiler = [], id_assembler = [], id_gold_manifest = [],
     id_golden = map (\<lambda>n. (n, demo_sha [])) demo_names \<rparr>"

definition demo_ls :: "path list" where
  "demo_ls = map (\<lambda>c. [''s'', ''shard-'' @ [c], ''minic'', ''d'', [c] @ ''.o'']) ''0123456''"

lemma demo_shards:
  "partitions_of demo_sha (\<lambda>_. None) demo_store None demo_names = Inr (map (\<lambda>n. [n]) demo_names)"
  by code_simp

lemma demo_text:
  "\<forall>c \<in> set ''0123456''. objects_of (demo_name c) = Inr [demo_name c] \<and> path_tail (demo_name c) = [''d'', [c] @ ''.o''] \<and>
     manifest_line ''minic/'' (demo_sha [] @ ''  minic/'' @ demo_name c) = Some (demo_sha [], demo_name c) \<and>
     splitlines (demo_sha [] @ ''  minic/'' @ demo_name c) = [demo_sha [] @ ''  minic/'' @ demo_name c] \<and>
     map_of (id_golden demo_identity) (demo_name c) = Some (demo_sha [])"
  by code_simp

lemma demo_consts:
  "strip (demo_sha []) = demo_sha []" "check_elf demo_header demo_header n 64 = Inr ()"
  "log_complete ''COHORT_ABI=PASS objects=1 COHORT_PRODUCE_ONLY=PASS objects=1 COHORT_COMPILE=PASS objects=1'' (Suc 0)"
  "contract demo_sha parts = demo_sha []"
proof -
  show "strip (demo_sha []) = demo_sha []" by code_simp
  show "log_complete ''COHORT_ABI=PASS objects=1 COHORT_PRODUCE_ONLY=PASS objects=1 COHORT_COMPILE=PASS objects=1'' (Suc 0)"
    by code_simp
  have "header_ok (take 64 demo_header) 64" by code_simp
  then show "check_elf demo_header demo_header n 64 = Inr ()" by (simp add: check_elf_def)
  show "contract demo_sha parts = demo_sha []" by (simp add: contract_def demo_sha_def)
qed

lemma demo_stat:
  "y \<noteq> ''..'' \<Longrightarrow> z \<noteq> ''..'' \<Longrightarrow> stat demo_store [''s'', y, z] = demo_store [''s'', y, z]"
  "y \<noteq> ''..'' \<Longrightarrow> d \<noteq> ''..'' \<Longrightarrow> f \<noteq> ''..'' \<Longrightarrow> stat demo_store [''s'', y, ''minic'', d, f] = Some (FileN demo_header)"
  "y \<noteq> ''..'' \<Longrightarrow> d \<noteq> ''..'' \<Longrightarrow> f \<noteq> ''..'' \<Longrightarrow> \<not> is_symlink demo_store [''s'', y, ''minic'', d, f]"
  "d \<noteq> ''..'' \<Longrightarrow> f \<noteq> ''..'' \<Longrightarrow> stat demo_store [''o'', d, f] = Some (FileN demo_header)"
  by (simp_all add: stat_def locate_def is_symlink_def lstat_def entry_def resolve_from.simps node_at_def
      demo_store_def link_limit_def Let_def)

lemma demo_shard1:
  assumes "c \<in> set ''0123456''" "str_int (int index) = [c]" "demo_name c \<notin> fst ` set collected"
  shows "verify_shard demo_sha demo_ls demo_shard_args demo_store demo_identity collected (index, [demo_name c]) =
    Inr (collected @ [(demo_name c, [''s'', ''shard-'' @ [c], ''minic'', ''d'', [c] @ ''.o''])])"
proof -
  note t = demo_text[rule_format, OF assms(1)]
  have dots: "''shard-'' @ [c] \<noteq> ''..''" "[c] @ ''.o'' \<noteq> ''..''" by simp_all
  have rt: "read_text demo_store [''s'', ''shard-'' @ [c], ''full-objects.txt''] = Inr (demo_name c)"
    "read_text demo_store [''s'', ''shard-'' @ [c], ''minic-identity.txt''] = Inr (demo_sha [])"
    "read_text demo_store [''s'', ''shard-'' @ [c], ''cohort.log''] =
       Inr ''COHORT_ABI=PASS objects=1 COHORT_PRODUCE_ONLY=PASS objects=1 COHORT_COMPILE=PASS objects=1''"
    "read_text demo_store [''s'', ''shard-'' @ [c], ''minic-manifest.sha256''] = Inr (demo_sha [] @ ''  minic/'' @ demo_name c)"
    by (simp_all add: read_text_def read_bytes_def demo_stat demo_store_def decode_encode)
  have sf: "sha_file demo_sha demo_store [''s'', ''shard-'' @ [c], ''full-objects.txt''] = Inr (demo_sha [])"
    by (simp add: sha_file_def read_bytes_def demo_stat demo_store_def demo_sha_def)
  have rb: "read_bytes demo_store [''s'', ''shard-'' @ [c], ''minic'', ''d'', [c] @ ''.o''] = Some demo_header"
    "read_bytes demo_store [''o'', ''d'', [c] @ ''.o''] = Some demo_header"
    by (simp_all add: read_bytes_def demo_stat)
  have rf: "set (relative_files demo_ls demo_store [''s'', ''shard-'' @ [c], ''minic'']) = {demo_name c}"
    using assms(1) by (auto simp: relative_files_def demo_ls_def under_def is_file_def demo_stat demo_name_def)
  have vc: "verify_candidate demo_sha demo_shard_args demo_store demo_identity [''s'', ''shard-'' @ [c]] collected
      (demo_name c, demo_sha [] @ ''  minic/'' @ demo_name c) =
    Inr (collected @ [(demo_name c, [''s'', ''shard-'' @ [c], ''minic'', ''d'', [c] @ ''.o''])])"
    using t assms(3) rb dots
    by (simp add: verify_candidate_def demo_shard_args_def sha_file_def is_file_def demo_stat demo_consts
        demo_sha_def[of "_ # _"] demo_sha_def[of demo_header] demo_sha_def[of "[]", symmetric])
  show ?thesis
    using t rt sf rf vc assms(2) by (simp add: verify_shard_def demo_shard_args_def demo_consts Let_def)
qed

lemma demo_verified:
  "foldE (verify_shard demo_sha demo_ls demo_shard_args demo_store demo_identity) []
     (zip [0..<7] (map (\<lambda>n. [n]) demo_names)) =
   Inr (map (\<lambda>c. (demo_name c, [''s'', ''shard-'' @ [c], ''minic'', ''d'', [c] @ ''.o''])) ''0123456'')"
proof -
  have "\<forall>c \<in> set ''0123456''. str_int (int (digit_int c)) = [c]" by code_simp
  then have one: "verify_shard demo_sha demo_ls demo_shard_args demo_store demo_identity collected (digit_int c, [demo_name c]) =
    Inr (collected @ [(demo_name c, [''s'', ''shard-'' @ [c], ''minic'', ''d'', [c] @ ''.o''])])"
    if "c \<in> set ''0123456''" "demo_name c \<notin> fst ` set collected" for c collected
    using that demo_shard1 by blast
  have many: "foldE (verify_shard demo_sha demo_ls demo_shard_args demo_store demo_identity) collected
      (map (\<lambda>c. (digit_int c, [demo_name c])) cs) =
    Inr (collected @ map (\<lambda>c. (demo_name c, [''s'', ''shard-'' @ [c], ''minic'', ''d'', [c] @ ''.o''])) cs)"
    if "set cs \<subseteq> set ''0123456''" "distinct cs" "\<forall>c \<in> set cs. demo_name c \<notin> fst ` set collected" for cs collected
    using that
  proof (induction cs arbitrary: collected)
    case (Cons c cs)
    then have "c \<in> set ''0123456''" "demo_name c \<notin> fst ` set collected" by auto
    note o = one[OF this]
    have "\<forall>d \<in> set cs. demo_name d \<notin> fst ` set (collected @ [(demo_name c, [''s'', ''shard-'' @ [c], ''minic'', ''d'', [c] @ ''.o''])])"
      using Cons.prems by (auto simp: demo_name_def)
    from Cons.IH[OF _ _ this] Cons.prems o show ?case by simp
  qed simp
  have "zip [0..<7] (map (\<lambda>n. [n]) demo_names) = map (\<lambda>c. (digit_int c, [demo_name c])) ''0123456''" by code_simp
  with many[of "''0123456''" "[]"] show ?thesis by simp
qed

theorem merge_union_exact_witness:
  "mset (map fst (map (\<lambda>c. (demo_name c, [''s'', ''shard-'' @ [c], ''minic'', ''d'', [c] @ ''.o''])) ''0123456'')) = mset demo_names"
  using merge_union_exact[OF demo_shards demo_verified] by simp

section \<open>What a merge does to the store\<close>

lemma merge_inputs_ok:
  assumes "merge_inputs sha loads ls a s = Inr (names, i, collected)"
  shows "universe_of s (sa_full a) = Inr names \<and> load_identity sha a s = Inr i \<and> mset (map fst collected) = mset names \<and>
    distinct names \<and> (\<forall>(name, src) \<in> set collected. verified sha a s i name src \<and>
      (\<exists>index. src = shard_dir_of a index @ [''minic''] @ path_tail name)) \<and>
    \<not> path_exists s (sa_evidence a @ [''minic'']) \<and> \<not> path_exists s (sa_evidence a @ [''minic-identity.txt''])"
proof -
  from assms obtain ps where p: "universe_of s (sa_full a) = Inr names" "load_identity sha a s = Inr i"
    "partitions_of sha loads s (sa_balanced_plan a) names = Inr ps"
    "foldE (verify_shard sha ls a s i) [] (zip [0..<7] ps) = Inr collected"
    "\<not> path_exists s (sa_evidence a @ [''minic''])" "\<not> path_exists s (sa_evidence a @ [''minic-identity.txt''])"
    by (auto simp: merge_inputs_def resE)
  have len: "length [0..<7] = length ps" using merge_sched.seven[OF p(3)] by simp
  have "map snd (zip [0..<7] ps) = ps" using map_snd_zip[OF len] .
  with verify_shards_Inr[OF p(4)] have v: "map fst collected = concat ps"
    "\<forall>(name, src) \<in> set collected. verified sha a s i name src"
    "\<forall>(n, p) \<in> set collected. \<exists>index. p = shard_dir_of a index @ [''minic''] @ path_tail n"
    "distinct (map fst collected)" by auto
  have m: "mset (concat ps) = mset names" using merge_sched.partition[OF p(3)] .
  with v(1,4) have "mset (map fst collected) = mset names" "distinct names"
    using mset_eq_imp_distinct_iff[OF m] by simp_all
  with p v(2,3) show ?thesis by blast
qed

text \<open>
  A merge that changes the store has verified every object of the universe first, against the
  shard's own manifest, the GNU reference and the ELF contract, and has found no candidate data in
  the evidence directory: a rejected merge leaves nothing behind.
\<close>

theorem merge_rejects_without_effect:
  "fst (merge sha loads ls a s) = s \<or>
   (\<exists>names i collected. merge_inputs sha loads ls a s = Inr (names, i, collected) \<and>
      mset (map fst collected) = mset names \<and> list_all (\<lambda>(name, src). verified sha a s i name src) collected \<and>
      \<not> path_exists s (sa_evidence a @ [''minic'']) \<and> \<not> path_exists s (sa_evidence a @ [''minic-identity.txt'']))"
proof (cases "merge_inputs sha loads ls a s")
  case (Inl e)
  then show ?thesis by (simp add: merge_def bindP_readP)
next
  case (Inr x)
  obtain names i collected where x: "x = (names, i, collected)" by (cases x)
  note ok = merge_inputs_ok[OF Inr[unfolded x]]
  then have "list_all (\<lambda>(name, src). verified sha a s i name src) collected"
    unfolding list_all_iff by fast
  with ok Inr x show ?thesis by auto
qed

text \<open>Installing one object is a copy in the sense of the contract of the store.\<close>

definition inst_src :: "(string \<times> path) list \<Rightarrow> string \<Rightarrow> path" where
  "inst_src collected name = the (map_of collected name)"

definition inst_dst :: "path \<Rightarrow> string \<Rightarrow> path" where
  "inst_dst target name = target @ path_tail name"

definition inst_good :: "path \<Rightarrow> (string \<times> path) list \<Rightarrow> string \<Rightarrow> bool" where
  "inst_good target collected name \<longleftrightarrow> ''..'' \<notin> set (target @ path_tail name) \<and> path_tail name \<noteq> [] \<and>
     as_posix name = name \<and> path_root name = [] \<and>
     (\<exists>src. map_of collected name = Some src \<and> ''..'' \<notin> set src \<and> (\<forall>y. src \<noteq> target @ y))"

definition inst_says :: "(byte list \<Rightarrow> string) \<Rightarrow> string \<Rightarrow> byte list \<Rightarrow> string \<Rightarrow> bool" where
  "inst_says sha name b line \<longleftrightarrow> line = sha b @ ''  minic/'' @ name"

lemma install_plain:
  assumes s: "plain s" and g: "inst_good target collected name" and run: "install sha target collected name s = (t, Inr line)"
  shows "\<exists>b. s (inst_src collected name) = Some (FileN b) \<and> plain t \<and> t (inst_dst target name) = Some (FileN b) \<and>
    only_file (inst_dst target name) s t \<and> inst_says sha name b line"
proof -
  let ?dst = "target @ path_tail name"
  from g obtain src where src: "map_of collected name = Some src" "''..'' \<notin> set src" "\<forall>y. src \<noteq> target @ y"
    and dst: "''..'' \<notin> set ?dst" "?dst \<noteq> []" by (auto simp: inst_good_def)
  from run obtain s1 b h where r: "mkdir_parents (butlast ?dst) s = Some s1" "read_bytes s1 src = Some b"
    "write_bytes b ?dst s1 = Some t" "sha_file sha t ?dst = Inr h" "line = h @ ''  minic/'' @ name"
    using src(1) by (auto simp: install_def Let_def bindP_Inr resE)
  have "''..'' \<notin> set (butlast ?dst)" using dst(1) by (meson in_set_butlastD)
  from mkdir_parents_plain[OF s r(1) this] have s1: "plain s1"
    "\<forall>x. s1 x = s x \<or> s x = None \<and> s1 x = Some DirN" by blast+
  have t: "t = s1(?dst \<mapsto> FileN b)" "plain t" using write_bytes_plain[OF s1(1) dst r(3)] by blast+
  have "s1 src = Some (FileN b)" using r(2) read_bytes_plain[OF s1(1) src(2)] by blast
  then have "s src = Some (FileN b)" using s1(2) by (metis node.distinct(1) option.inject)
  moreover have "only_file ?dst s t" using s1(2) t(1) by (auto simp: only_file_def)
  moreover have "h = sha b" using r(4) read_bytes_plain[OF t(2) dst(1), of b] t(1) by (auto simp: sha_file_def resE)
  ultimately show ?thesis using t r(5) src(1) by (simp add: inst_src_def inst_dst_def inst_says_def)
qed

lemma path_tail_inj:
  "path_root v = [] \<Longrightarrow> path_root w = [] \<Longrightarrow> as_posix v = v \<Longrightarrow> as_posix w = w \<Longrightarrow> path_tail v = path_tail w \<Longrightarrow> v = w"
  by (metis as_posix_def)

interpretation installer: file_copier "install sha target collected" "inst_src collected" "inst_dst target"
  "inst_good target collected" "\<lambda>name. name" "inst_says sha" for sha target collected
proof (unfold_locales, goal_cases)
  case (1 x s t y)
  show ?case by (rule install_plain[OF 1(2,1,3)])
next
  case (2 x y)
  then show ?case by (auto simp: inst_good_def inst_src_def inst_dst_def)
next
  case (3 x y)
  then show ?case by (auto simp: inst_good_def inst_dst_def intro: path_tail_inj)
qed

text \<open>
  In a store without links, the installation loop of a merge puts under the evidence directory,
  for every object, exactly the bytes of the candidate that was collected for it, and the manifest
  line it produces pins the digest of those bytes under the name of the object.
\<close>

theorem merge_installs_candidates:
  assumes "plain s" and "mapP (install sha target collected) names s = (t, Inr manifests)"
    and "distinct names" and "\<forall>name \<in> set names. inst_good target collected name"
  shows "length manifests = length names \<and> (\<forall>k < length names. \<exists>src b. map_of collected (names ! k) = Some src \<and>
      s src = Some (FileN b) \<and> t (target @ path_tail (names ! k)) = Some (FileN b) \<and>
      manifests ! k = sha b @ ''  minic/'' @ names ! k)"
proof -
  have "list_all2 (copied (inst_src collected) (inst_dst target) (inst_says sha) s t) names manifests"
    using installer.copies_all[OF assms(1,2) _ assms(4)] assms(3) by simp
  then have l: "length manifests = length names"
    and c: "\<forall>k < length names. copied (inst_src collected) (inst_dst target) (inst_says sha) s t (names ! k) (manifests ! k)"
    by (auto simp: list_all2_conv_all_nth)
  have "\<exists>src b. map_of collected (names ! k) = Some src \<and> s src = Some (FileN b) \<and>
      t (target @ path_tail (names ! k)) = Some (FileN b) \<and> manifests ! k = sha b @ ''  minic/'' @ names ! k"
    if "k < length names" for k
    using c that assms(4) nth_mem[OF that]
    by (fastforce simp: copied_def inst_src_def inst_dst_def inst_says_def inst_good_def)
  with l show ?thesis by blast
qed

definition demo_tree :: fs where
  "demo_tree = [[''c''] \<mapsto> DirN, [''c'', ''x.o''] \<mapsto> FileN [1, 2], [''e''] \<mapsto> DirN, [''e'', ''minic''] \<mapsto> DirN]"

theorem merge_installs_candidates_witness:
  "\<exists>t. mapP (install demo_sha [''e'', ''minic''] [(''d/x.o'', [''c'', ''x.o''])]) [''d/x.o''] demo_tree =
      (t, Inr [demo_sha [1, 2] @ ''  minic/d/x.o'']) \<and> t [''e'', ''minic'', ''d'', ''x.o''] = Some (FileN [1, 2])"
proof -
  let ?m = "mapP (install demo_sha [''e'', ''minic''] [(''d/x.o'', [''c'', ''x.o''])]) [''d/x.o''] demo_tree"
  have "snd ?m = Inr [demo_sha [1, 2] @ ''  minic/d/x.o'']" by code_simp
  then obtain t where r: "?m = (t, Inr [demo_sha [1, 2] @ ''  minic/d/x.o''])" by (cases ?m) auto
  have "\<forall>p c. demo_tree (p @ [c]) \<noteq> None \<longrightarrow> node_at demo_tree p = Some DirN"
    by (auto simp: demo_tree_def node_at_def append_eq_Cons_conv split: if_splits)
  moreover have "no_links demo_tree" by (auto simp: no_links_def demo_tree_def split: if_splits)
  ultimately have pl: "plain demo_tree" by (simp add: plain_def fs_wf_def demo_tree_def)
  have p: "path_tail ''d/x.o'' = [''d'', ''x.o'']" "as_posix ''d/x.o'' = ''d/x.o''" "path_root ''d/x.o'' = []" by code_simp+
  then have "\<forall>name \<in> set [''d/x.o'']. inst_good [''e'', ''minic''] [(''d/x.o'', [''c'', ''x.o''])] name"
    by (simp add: inst_good_def)
  from merge_installs_candidates[OF pl r _ this] r p show ?thesis by (simp add: demo_tree_def)
qed

end
