(* ===== verification/SymbolTable.thy ===== *)
theory SymbolTable
  imports Prelude
begin

text \<open>
  The symbol table that the runtime tools build from the output of \<^verbatim>\<open>nm\<close>, and address lookup in it
  with \<^verbatim>\<open>bisect.bisect_right\<close>.  The locale \<open>symbol_resolver\<close> states what a lookup promises; the tools that
  have their own copy of the lookup interpret it on that copy.
\<close>

text \<open>The loop of \<^verbatim>\<open>bisect_right\<close>.\<close>

function bisect_right_loop :: "int list \<Rightarrow> int \<Rightarrow> nat \<Rightarrow> nat \<Rightarrow> nat" where
  "bisect_right_loop xs a lo hi =
     (if lo < hi then
        let mid = (lo + hi) div 2 in
        if a < xs ! mid then bisect_right_loop xs a lo mid else bisect_right_loop xs a (Suc mid) hi
      else lo)"
  by pat_completeness auto
termination
  by (relation "measure (\<lambda>(xs, a, lo, hi). hi - lo)") auto

declare bisect_right_loop.simps [simp del, py_defs]

definition bisect_right :: "int list \<Rightarrow> int \<Rightarrow> nat" where
  [py_defs]: "bisect_right xs a = bisect_right_loop xs a 0 (length xs)"

text \<open>One line of \<^verbatim>\<open>nm\<close> output, and the table of a whole listing.\<close>

definition nm_line :: "string \<Rightarrow> (int \<times> string) option" where
  [py_defs]: "nm_line line =
     (let parts = split_ws line in
      if length parts < 3 then None
      else map_option (\<lambda>address. (address, parts ! 2)) (py_int 16 (parts ! 0)))"

definition nm_entries :: "string \<Rightarrow> (int \<times> string) list" where
  [py_defs]: "nm_entries text = List.map_filter nm_line (splitlines text)"

definition nm_table :: "string \<Rightarrow> (int \<times> string) list \<times> int list \<times> (string \<times> int) list" where
  [py_defs]: "nm_table text =
     (let entries = nm_entries text; symbols = sort entries in
      (symbols, map fst symbols, fold (\<lambda>(address, name) by_name. setdefault name address by_name) entries []))"

lemma bisect_right_loop_bounds:
  assumes sorted: "sorted xs"
  shows "lo \<le> hi \<Longrightarrow> hi \<le> length xs \<Longrightarrow> \<forall>i < lo. xs ! i \<le> a \<Longrightarrow> \<forall>i. hi \<le> i \<longrightarrow> i < length xs \<longrightarrow> a < xs ! i \<Longrightarrow>
    bisect_right_loop xs a lo hi \<le> length xs \<and>
    (\<forall>i < bisect_right_loop xs a lo hi. xs ! i \<le> a) \<and>
    (\<forall>i. bisect_right_loop xs a lo hi \<le> i \<longrightarrow> i < length xs \<longrightarrow> a < xs ! i)"
proof (induction "hi - lo" arbitrary: lo hi rule: less_induct)
  case less
  let ?mid = "(lo + hi) div 2"
  show ?case
  proof (cases "lo < hi")
    case False
    then have "bisect_right_loop xs a lo hi = lo" by (simp add: bisect_right_loop.simps)
    with False less.prems show ?thesis by auto
  next
    case True
    then have mid: "lo \<le> ?mid" "?mid < hi" "?mid < length xs" using less.prems(2) by auto
    show ?thesis
    proof (cases "a < xs ! ?mid")
      case lt: True
      have eq: "bisect_right_loop xs a lo hi = bisect_right_loop xs a lo ?mid"
        using True lt by (simp add: bisect_right_loop.simps[of xs a lo hi])
      have up: "\<forall>i. ?mid \<le> i \<longrightarrow> i < length xs \<longrightarrow> a < xs ! i"
        using sorted_nth_mono[OF sorted, of ?mid] lt by fastforce
      have "?mid - lo < hi - lo" "?mid \<le> length xs" using mid by simp_all
      from less.hyps[OF this(1) mid(1) this(2) less.prems(3) up] show ?thesis unfolding eq .
    next
      case ge: False
      have eq: "bisect_right_loop xs a lo hi = bisect_right_loop xs a (Suc ?mid) hi"
        using True ge by (simp add: bisect_right_loop.simps[of xs a lo hi])
      have down: "\<forall>i < Suc ?mid. xs ! i \<le> a"
      proof (intro allI impI)
        fix i assume "i < Suc ?mid"
        then show "xs ! i \<le> a" using sorted_nth_mono[OF sorted, of i ?mid] ge mid by simp
      qed
      have "hi - Suc ?mid < hi - lo" "Suc ?mid \<le> hi" using mid by simp_all
      from less.hyps[OF this less.prems(2) down less.prems(4)] show ?thesis unfolding eq .
    qed
  qed
qed

lemma bisect_right_spec:
  assumes "sorted xs"
  shows "bisect_right xs a \<le> length xs" "i < bisect_right xs a \<Longrightarrow> xs ! i \<le> a"
    "bisect_right xs a \<le> i \<Longrightarrow> i < length xs \<Longrightarrow> a < xs ! i"
  using bisect_right_loop_bounds[OF assms, of 0 "length xs" a] by (auto simp: bisect_right_def)

lemma nm_table_sorted:
  "nm_table text = (symbols, addresses, by_name) \<Longrightarrow> sorted symbols \<and> addresses = map fst symbols"
  by (auto simp: nm_table_def Let_def)

lemma map_of_fold_setdefault:
  "map_of (fold (\<lambda>(a, n) d. setdefault n a d) es d0) n =
     (case map_of d0 n of Some a \<Rightarrow> Some a | None \<Rightarrow> map_of (map prod.swap es) n)"
proof (induction es arbitrary: d0)
  case (Cons e es)
  obtain a m where e: "e = (a, m)" by (cases e)
  show ?case unfolding e using Cons.IH[of "setdefault m a d0"]
    by (auto simp: map_of_setdefault split: option.splits)
qed (simp split: option.splits)

text \<open>A name stands for the address on its first line.\<close>

lemma nm_table_by_name:
  "nm_table text = (symbols, addresses, by_name) \<Longrightarrow> map_of by_name n = map_of (map prod.swap (nm_entries text)) n"
  using map_of_fold_setdefault[of "nm_entries text" "[]" n] by (auto simp: nm_table_def Let_def)

locale symbol_resolver =
  fixes res :: "(int \<times> string) list \<Rightarrow> int list \<Rightarrow> int \<Rightarrow> string \<times> int"
  assumes res_none: "sorted syms \<Longrightarrow> \<forall>(b, n) \<in> set syms. a < b \<Longrightarrow> res syms (map fst syms) a = (''?'', 0)"
    and res_some: "sorted syms \<Longrightarrow> (b0, n0) \<in> set syms \<Longrightarrow> b0 \<le> a \<Longrightarrow>
      \<exists>b n. (b, n) \<in> set syms \<and> b \<le> a \<and> (\<forall>(b', n') \<in> set syms. b' \<le> a \<longrightarrow> b' \<le> b) \<and>
        res syms (map fst syms) a = (n, a - b)"
begin

lemma res_offset: "sorted syms \<Longrightarrow> 0 \<le> snd (res syms (map fst syms) a)"
proof (cases "\<exists>(b, n) \<in> set syms. b \<le> a")
  case True
  assume "sorted syms"
  with True res_some show ?thesis by fastforce
next
  case False
  assume "sorted syms"
  with False res_none[of syms a] show ?thesis by fastforce
qed

text \<open>Between two consecutive symbol addresses the lookup names the lower symbol.\<close>

lemma res_between:
  assumes "sorted syms" "(b, n) \<in> set syms" "b \<le> a" "\<forall>(b', n') \<in> set syms. b' \<le> b \<or> a < b'"
    "\<forall>n'. (b, n') \<in> set syms \<longrightarrow> n' = n"
  shows "res syms (map fst syms) a = (n, a - b)"
proof -
  from res_some[OF assms(1-3)] obtain b1 n1 where r: "(b1, n1) \<in> set syms" "b1 \<le> a"
    "\<forall>(b', n') \<in> set syms. b' \<le> a \<longrightarrow> b' \<le> b1" "res syms (map fst syms) a = (n1, a - b1)" by blast
  have "b \<le> b1" using r(3) assms(2,3) by auto
  moreover have "b1 \<le> b" using assms(4) r(1,2) by force
  ultimately show ?thesis using r assms(5) by auto
qed

end

text \<open>The lookup shared by the tools meets the contract.\<close>

definition nearest :: "(int \<times> string) list \<Rightarrow> int list \<Rightarrow> int \<Rightarrow> string \<times> int" where
  [py_defs]: "nearest symbols addresses address =
     (let index = int (bisect_right addresses address) - 1 in
      if index < 0 then (''?'', 0)
      else case symbols ! nat index of (base, name) \<Rightarrow> (name, address - base))"

interpretation nearest_symbol: symbol_resolver nearest
proof (unfold_locales, goal_cases)
  case (1 syms a)
  have s: "sorted (map fst syms)" using 1(1) by (auto simp: sorted_iff_nth_mono less_eq_prod_def) fastforce
  have "bisect_right (map fst syms) a = 0"
  proof (rule ccontr)
    assume "bisect_right (map fst syms) a \<noteq> 0"
    then have "map fst syms ! 0 \<le> a" "syms \<noteq> []"
      using bisect_right_spec(1)[OF s, of a] bisect_right_spec(2)[OF s, where a = a and i = 0] by auto
    then show False using 1(2) by (cases syms) auto
  qed
  then show ?case by (simp add: nearest_def)
next
  case (2 syms b0 n0 a)
  have s: "sorted (map fst syms)" using 2(1) by (auto simp: sorted_iff_nth_mono less_eq_prod_def) fastforce
  let ?k = "bisect_right (map fst syms) a"
  note k = bisect_right_spec(1)[OF s, of a] bisect_right_spec(2,3)[OF s, where a = a]
  obtain j where j: "j < length syms" "syms ! j = (b0, n0)" using 2(2) by (auto simp: in_set_conv_nth)
  then have "j < ?k" using k(3)[of j] 2(3) by (metis fst_conv leI length_map not_le nth_map)
  then have k0: "0 < ?k" by simp
  obtain b n where bn: "syms ! (?k - 1) = (b, n)" by (cases "syms ! (?k - 1)")
  have kl: "?k - 1 < length syms" using k0 k(1) by simp
  have "b \<le> a" using k(2)[of "?k - 1"] k0 kl bn by (metis diff_less fst_conv nth_map zero_less_one)
  moreover have "b' \<le> b" if mem: "(b', n') \<in> set syms" and le: "b' \<le> a" for b' n'
  proof -
    obtain i where i: "i < length syms" "syms ! i = (b', n')" using mem by (auto simp: in_set_conv_nth)
    then have "i < ?k" using k(3)[of i] le by (metis fst_conv leI length_map not_le nth_map)
    then have "map fst syms ! i \<le> map fst syms ! (?k - 1)" using s kl by (intro sorted_nth_mono) auto
    then show ?thesis using i bn kl by simp
  qed
  moreover have "nearest syms (map fst syms) a = (n, a - b)"
    using k0 bn by (simp add: nearest_def Let_def nat_diff_distrib)
  moreover have "(b, n) \<in> set syms" using bn kl by (metis nth_mem)
  ultimately show ?case by blast
qed

end
