(* ===== verification/PyRegex.thy ===== *)
theory PyRegex
  imports Prelude
begin

text \<open>
  Python's \<^verbatim>\<open>re\<close> on the patterns the tools use: a backtracking matcher that lists the ways a pattern
  can match at a position in order of preference, \<^verbatim>\<open>search\<close> as the first position with a match,
  and \<^verbatim>\<open>finditer\<close> as successive searches.  The matcher is total: a repetition is unfolded at most once
  per remaining character and never on an empty iteration.

  Shown here: a match consumes a prefix of the text that belongs to the language of the pattern,
  and every prefix in the language is found.
\<close>

datatype re =
    REps
  | RSet "char \<Rightarrow> bool"
  | RSeq re re
  | RAlt re re
  | RStar re
  | RLazy re
  | RGroup nat re
  | RBol
  | REol
  | RBound
  | RNotAhead "char \<Rightarrow> bool"
  | RNotBehind "char \<Rightarrow> bool"

record match_state =
  ms_pos :: nat
  ms_prev :: "char option"
  ms_rest :: string
  ms_caps :: "(nat \<times> string) list"

text \<open>Greedy and lazy repetition of a one-step matcher.\<close>

fun star_iter :: "bool \<Rightarrow> nat \<Rightarrow> (match_state \<Rightarrow> match_state list) \<Rightarrow> match_state \<Rightarrow> match_state list" where
  "star_iter lazy 0 f m = [m]"
| "star_iter lazy (Suc n) f m =
     (let deeper = concat (map (\<lambda>m'. if length (ms_rest m') < length (ms_rest m) then star_iter lazy n f m' else []) (f m))
      in if lazy then m # deeper else deeper @ [m])"

definition word_at :: "match_state \<Rightarrow> bool" where
  [py_defs]: "word_at m = (case ms_rest m of [] \<Rightarrow> False | c # cs \<Rightarrow> is_word c)"

definition word_before :: "match_state \<Rightarrow> bool" where
  [py_defs]: "word_before m = (case ms_prev m of None \<Rightarrow> False | Some c \<Rightarrow> is_word c)"

text \<open>\<^verbatim>\<open>^\<close> and \<^verbatim>\<open>$\<close> without the multi-line flag; \<^verbatim>\<open>$\<close> also matches before a final line feed.\<close>

primrec matches :: "re \<Rightarrow> match_state \<Rightarrow> match_state list" where
  "matches REps m = [m]"
| "matches (RSet P) m = (case ms_rest m of
     [] \<Rightarrow> []
   | c # cs \<Rightarrow> if P c then [m\<lparr>ms_pos := Suc (ms_pos m), ms_prev := Some c, ms_rest := cs\<rparr>] else [])"
| "matches (RSeq r q) m = concat (map (matches q) (matches r m))"
| "matches (RAlt r q) m = matches r m @ matches q m"
| "matches (RStar r) m = star_iter False (length (ms_rest m)) (matches r) m"
| "matches (RLazy r) m = star_iter True (length (ms_rest m)) (matches r) m"
| "matches (RGroup k r) m = map (\<lambda>m'. m'\<lparr>ms_caps :=
      AList.update k (take (length (ms_rest m) - length (ms_rest m')) (ms_rest m)) (ms_caps m')\<rparr>) (matches r m)"
| "matches RBol m = (if ms_prev m = None then [m] else [])"
| "matches REol m = (if ms_rest m = [] \<or> ms_rest m = ''\<newline>'' then [m] else [])"
| "matches RBound m = (if word_before m \<noteq> word_at m then [m] else [])"
| "matches (RNotAhead P) m = (case ms_rest m of [] \<Rightarrow> [m] | c # cs \<Rightarrow> if P c then [] else [m])"
| "matches (RNotBehind P) m = (case ms_prev m of None \<Rightarrow> [m] | Some c \<Rightarrow> if P c then [] else [m])"

text \<open>Abbreviations of the pattern syntax.\<close>

fun RLit :: "string \<Rightarrow> re" where
  "RLit [] = REps"
| "RLit [c] = RSet (\<lambda>d. d = c)"
| "RLit (c # cs) = RSeq (RSet (\<lambda>d. d = c)) (RLit cs)"

definition RPlus :: "re \<Rightarrow> re" where
  [py_defs]: "RPlus r = RSeq r (RStar r)"

definition ROpt :: "re \<Rightarrow> re" where
  [py_defs]: "ROpt r = RAlt r REps"

fun RRep :: "nat \<Rightarrow> re \<Rightarrow> re" where
  "RRep 0 r = REps"
| "RRep (Suc n) r = RSeq r (RRep n r)"

fun RSeqs :: "re list \<Rightarrow> re" where
  "RSeqs [] = REps"
| "RSeqs [r] = r"
| "RSeqs (r # rs) = RSeq r (RSeqs rs)"

fun RAlts :: "re list \<Rightarrow> re" where
  "RAlts [] = RSet (\<lambda>_. False)"
| "RAlts [r] = r"
| "RAlts (r # rs) = RAlt r (RAlts rs)"

text \<open>The dot: every character but the line feed.\<close>

definition dot :: "char \<Rightarrow> bool" where
  [py_defs]: "dot c = (c \<noteq> CHR 0x0A)"

definition start_state :: "nat \<Rightarrow> char option \<Rightarrow> string \<Rightarrow> match_state" where
  [py_defs]: "start_state i pv s = \<lparr> ms_pos = i, ms_prev = pv, ms_rest = s, ms_caps = [] \<rparr>"

record re_match =
  rm_start :: nat
  rm_end :: nat
  rm_prev :: "char option"
  rm_rest :: string
  rm_groups :: "(nat \<times> string) list"

definition match_at :: "re \<Rightarrow> nat \<Rightarrow> char option \<Rightarrow> string \<Rightarrow> re_match option" where
  [py_defs]: "match_at r i pv s = (case matches r (start_state i pv s) of
     [] \<Rightarrow> None
   | m # _ \<Rightarrow> Some \<lparr> rm_start = i, rm_end = ms_pos m, rm_prev = ms_prev m, rm_rest = ms_rest m, rm_groups = ms_caps m \<rparr>)"

fun search_from :: "re \<Rightarrow> nat \<Rightarrow> char option \<Rightarrow> string \<Rightarrow> re_match option" where
  "search_from r i pv [] = match_at r i pv []"
| "search_from r i pv (c # s) =
     (case match_at r i pv (c # s) of Some m \<Rightarrow> Some m | None \<Rightarrow> search_from r (Suc i) (Some c) s)"

definition re_search :: "re \<Rightarrow> string \<Rightarrow> re_match option" where
  [py_defs]: "re_search r s = search_from r 0 None s"

definition re_match :: "re \<Rightarrow> string \<Rightarrow> re_match option" where
  [py_defs]: "re_match r s = match_at r 0 None s"

definition re_fullmatch :: "re \<Rightarrow> string \<Rightarrow> re_match option" where
  [py_defs]: "re_fullmatch r s = (case filter (\<lambda>m. ms_rest m = []) (matches r (start_state 0 None s)) of
     [] \<Rightarrow> None
   | m # _ \<Rightarrow> Some \<lparr> rm_start = 0, rm_end = ms_pos m, rm_prev = ms_prev m, rm_rest = [], rm_groups = ms_caps m \<rparr>)"

definition group :: "re_match \<Rightarrow> nat \<Rightarrow> string" where
  [py_defs]: "group m k = (case map_of (rm_groups m) k of None \<Rightarrow> [] | Some t \<Rightarrow> t)"

text \<open>
  \<^verbatim>\<open>finditer\<close> for patterns that do not match the empty string; \<open>fuel\<close> is the number of matches
  looked for, of which there are at most as many as characters.
\<close>

fun finditer_from :: "nat \<Rightarrow> re \<Rightarrow> nat \<Rightarrow> char option \<Rightarrow> string \<Rightarrow> re_match list" where
  "finditer_from 0 r i pv s = []"
| "finditer_from (Suc fuel) r i pv s =
     (case search_from r i pv s of
        None \<Rightarrow> []
      | Some m \<Rightarrow> if length (rm_rest m) < length s
                  then m # finditer_from fuel r (rm_end m) (rm_prev m) (rm_rest m) else [m])"

definition finditer :: "re \<Rightarrow> string \<Rightarrow> re_match list" where
  [py_defs]: "finditer r s = finditer_from (length s) r 0 None s"

section \<open>The language of a pattern\<close>

text \<open>Patterns without assertions, and the strings they describe.\<close>

primrec plain_re :: "re \<Rightarrow> bool" where
  "plain_re REps = True"
| "plain_re (RSet P) = True"
| "plain_re (RSeq r q) = (plain_re r \<and> plain_re q)"
| "plain_re (RAlt r q) = (plain_re r \<and> plain_re q)"
| "plain_re (RStar r) = plain_re r"
| "plain_re (RLazy r) = plain_re r"
| "plain_re (RGroup k r) = plain_re r"
| "plain_re RBol = False"
| "plain_re REol = False"
| "plain_re RBound = False"
| "plain_re (RNotAhead P) = False"
| "plain_re (RNotBehind P) = False"

inductive_set star_lang :: "string set \<Rightarrow> string set" for L where
  star_Nil: "[] \<in> star_lang L"
| star_step: "u \<in> L \<Longrightarrow> v \<in> star_lang L \<Longrightarrow> u @ v \<in> star_lang L"

primrec lang :: "re \<Rightarrow> string set" where
  "lang REps = {[]}"
| "lang (RSet P) = {[c] | c. P c}"
| "lang (RSeq r q) = {u @ v | u v. u \<in> lang r \<and> v \<in> lang q}"
| "lang (RAlt r q) = lang r \<union> lang q"
| "lang (RStar r) = star_lang (lang r)"
| "lang (RLazy r) = star_lang (lang r)"
| "lang (RGroup k r) = lang r"
| "lang RBol = {}"
| "lang REol = {}"
| "lang RBound = {}"
| "lang (RNotAhead P) = {}"
| "lang (RNotBehind P) = {}"

text \<open>\<open>moves L f\<close>: the matcher \<open>f\<close> consumes exactly the prefixes that belong to \<open>L\<close>.\<close>

definition moves :: "string set \<Rightarrow> (match_state \<Rightarrow> match_state list) \<Rightarrow> bool" where
  "moves L f \<longleftrightarrow>
     (\<forall>m. \<forall>m' \<in> set (f m). \<exists>u \<in> L. ms_rest m = u @ ms_rest m' \<and> ms_pos m' = ms_pos m + length u) \<and>
     (\<forall>m u v. ms_rest m = u @ v \<longrightarrow> u \<in> L \<longrightarrow> (\<exists>m' \<in> set (f m). ms_rest m' = v))"

lemma movesD1: "moves L f \<Longrightarrow> m' \<in> set (f m) \<Longrightarrow> \<exists>u \<in> L. ms_rest m = u @ ms_rest m' \<and> ms_pos m' = ms_pos m + length u"
  by (auto simp: moves_def)

lemma movesD2: "moves L f \<Longrightarrow> ms_rest m = u @ v \<Longrightarrow> u \<in> L \<Longrightarrow> \<exists>m' \<in> set (f m). ms_rest m' = v"
  by (auto simp: moves_def)

text \<open>A string in the repetition is a sequence of non-empty pieces.\<close>

lemma star_lang_nonempty: "w \<in> star_lang L \<Longrightarrow> w = [] \<or> (\<exists>u v. w = u @ v \<and> u \<noteq> [] \<and> u \<in> L \<and> v \<in> star_lang L)"
proof (induction rule: star_lang.induct)
  case (star_step u v)
  then show ?case by (cases "u = []") auto
qed simp

lemma set_star_Suc:
  "set (star_iter lazy (Suc n) f m) =
     insert m (\<Union>m' \<in> {m' \<in> set (f m). length (ms_rest m') < length (ms_rest m)}. set (star_iter lazy n f m'))"
  by (auto simp: Let_def)

lemma star_iter_sound:
  assumes "moves L f"
  shows "m' \<in> set (star_iter lazy n f m) \<Longrightarrow>
    \<exists>u \<in> star_lang L. ms_rest m = u @ ms_rest m' \<and> ms_pos m' = ms_pos m + length u"
proof (induction n arbitrary: m)
  case 0
  then show ?case by (auto intro: star_lang.intros)
next
  case (Suc n)
  from Suc.prems consider "m' = m" | m1 where "m1 \<in> set (f m)" "m' \<in> set (star_iter lazy n f m1)"
    unfolding set_star_Suc by blast
  then show ?case
  proof cases
    case 1
    then show ?thesis by (auto intro: star_lang.intros)
  next
    case 2
    from movesD1[OF assms 2(1)] Suc.IH[OF 2(2)] show ?thesis
      by (metis add.assoc append.assoc length_append star_step)
  qed
qed

lemma star_iter_complete:
  assumes "moves L f"
  shows "length (ms_rest m) \<le> n \<Longrightarrow> ms_rest m = u @ v \<Longrightarrow> u \<in> star_lang L \<Longrightarrow>
    \<exists>m' \<in> set (star_iter lazy n f m). ms_rest m' = v"
proof (induction n arbitrary: m u)
  case 0
  then show ?case by auto
next
  case (Suc n)
  from star_lang_nonempty[OF Suc.prems(3)] consider "u = []"
    | x y where "u = x @ y" "x \<noteq> []" "x \<in> L" "y \<in> star_lang L" by blast
  then show ?case
  proof cases
    case 1
    then show ?thesis using Suc.prems(2) unfolding set_star_Suc by auto
  next
    case 2
    with Suc.prems(2) movesD2[OF assms, of m x "y @ v"] obtain m1 where
      m1: "m1 \<in> set (f m)" "ms_rest m1 = y @ v" by auto
    then have "length (ms_rest m1) < length (ms_rest m)" using Suc.prems(2) 2 by simp
    moreover from this Suc.IH[of m1 y] m1 2 Suc.prems(1) obtain m' where
      "m' \<in> set (star_iter lazy n f m1)" "ms_rest m' = v" by auto
    ultimately show ?thesis using m1(1) unfolding set_star_Suc by blast
  qed
qed

lemma moves_star: "moves L f \<Longrightarrow> moves (star_lang L) (\<lambda>m. star_iter lazy (length (ms_rest m)) f m)"
  using star_iter_sound star_iter_complete[OF _ order_refl] unfolding moves_def[of "star_lang L"] by blast

text \<open>The matcher implements the language of every pattern without assertions.\<close>

lemma matches_lang: "plain_re r \<Longrightarrow> moves (lang r) (matches r)"
proof (induction r)
  case (RSeq r q)
  then have r: "moves (lang r) (matches r)" and q: "moves (lang q) (matches q)" by auto
  show ?case unfolding moves_def
  proof (intro conjI allI ballI impI)
    fix m m' assume "m' \<in> set (matches (RSeq r q) m)"
    then obtain m1 where m1: "m1 \<in> set (matches r m)" "m' \<in> set (matches q m1)" by auto
    from movesD1[OF r m1(1)] movesD1[OF q m1(2)]
    show "\<exists>u \<in> lang (RSeq r q). ms_rest m = u @ ms_rest m' \<and> ms_pos m' = ms_pos m + length u" by fastforce
  next
    fix m :: match_state and u v assume *: "ms_rest m = u @ v" "u \<in> lang (RSeq r q)"
    then obtain x y where xy: "u = x @ y" "x \<in> lang r" "y \<in> lang q" by auto
    with movesD2[OF r, of m x "y @ v"] * obtain m1 where m1: "m1 \<in> set (matches r m)" "ms_rest m1 = y @ v" by auto
    with movesD2[OF q m1(2) xy(3)] show "\<exists>m' \<in> set (matches (RSeq r q) m). ms_rest m' = v" by auto
  qed
next
  case (RStar r)
  then show ?case using moves_star[of "lang r" "matches r" False] by (simp add: moves_def)
next
  case (RLazy r)
  then show ?case using moves_star[of "lang r" "matches r" True] by (simp add: moves_def)
next
  case (RSet P)
  then show ?case by (fastforce simp: moves_def split: list.splits)
next
  case (RAlt r q)
  then show ?case by (fastforce simp: moves_def)
next
  case (RGroup k r)
  then show ?case by (fastforce simp: moves_def)
qed (auto simp: moves_def)

text \<open>A search result is a match, and the search fails only when nothing matches anywhere.\<close>

lemma search_from_Some:
  "search_from r i pv s = Some m \<Longrightarrow>
   \<exists>u v. s = u @ v \<and> rm_start m = i + length u \<and> match_at r (i + length u) (if u = [] then pv else Some (last u)) v = Some m"
proof (induction s arbitrary: i pv)
  case Nil
  then have "rm_start m = i" by (auto simp: match_at_def split: list.splits)
  with Nil show ?case by (intro exI[of _ "[]"] exI[of _ "[]"]) auto
next
  case (Cons c s)
  show ?case
  proof (cases "match_at r i pv (c # s)")
    case (Some m')
    with Cons.prems have "m' = m" by simp
    moreover from this Some have "rm_start m = i" by (auto simp: match_at_def split: list.splits)
    ultimately show ?thesis using Some by (intro exI[of _ "[]"] exI[of _ "c # s"]) auto
  next
    case None
    with Cons.prems Cons.IH[of "Suc i" "Some c"] obtain u v where
      "s = u @ v" "rm_start m = Suc i + length u"
      "match_at r (Suc i + length u) (if u = [] then Some c else Some (last u)) v = Some m" by auto
    then show ?thesis by (intro exI[of _ "c # u"] exI[of _ v]) auto
  qed
qed

lemma match_at_lang:
  assumes "plain_re r" "match_at r i pv s = Some m"
  shows "\<exists>w \<in> lang r. s = w @ rm_rest m \<and> rm_start m = i \<and> rm_end m = i + length w"
proof -
  from assms(2) obtain st sts where "matches r (start_state i pv s) = st # sts"
    "rm_start m = i" "rm_end m = ms_pos st" "rm_rest m = ms_rest st"
    by (auto simp: match_at_def split: list.splits)
  moreover from this have "st \<in> set (matches r (start_state i pv s))" by simp
  ultimately show ?thesis using movesD1[OF matches_lang[OF assms(1)]] by (fastforce simp: start_state_def)
qed

lemma search_from_None:
  "search_from r i pv s = None \<Longrightarrow> s = u @ v \<Longrightarrow>
   match_at r (i + length u) (if u = [] then pv else Some (last u)) v = None"
proof (induction s arbitrary: i pv u)
  case (Cons c s)
  from Cons.prems(1) have n: "match_at r i pv (c # s) = None" "search_from r (Suc i) (Some c) s = None"
    by (auto split: option.splits)
  show ?case
  proof (cases u)
    case Nil
    with n Cons.prems(2) show ?thesis by simp
  next
    case (Cons d u')
    with Cons.prems(2) Cons.IH[OF n(2), of u'] show ?thesis by (cases "u' = []") auto
  qed
qed auto

section \<open>Progress\<close>

text \<open>The least number of characters a match consumes; assertions consume none.\<close>

primrec re_min :: "re \<Rightarrow> nat" where
  "re_min REps = 0"
| "re_min (RSet P) = 1"
| "re_min (RSeq r q) = re_min r + re_min q"
| "re_min (RAlt r q) = min (re_min r) (re_min q)"
| "re_min (RStar r) = 0"
| "re_min (RLazy r) = 0"
| "re_min (RGroup k r) = re_min r"
| "re_min RBol = 0"
| "re_min REol = 0"
| "re_min RBound = 0"
| "re_min (RNotAhead P) = 0"
| "re_min (RNotBehind P) = 0"

lemma star_iter_shrinks: "m' \<in> set (star_iter lazy n f m) \<Longrightarrow> length (ms_rest m') \<le> length (ms_rest m)"
proof (induction n arbitrary: m)
  case (Suc n)
  then show ?case unfolding set_star_Suc by fastforce
qed simp

lemma matches_min: "m' \<in> set (matches r m) \<Longrightarrow> length (ms_rest m') + re_min r \<le> length (ms_rest m)"
proof (induction r arbitrary: m m')
  case (RSeq r q)
  from RSeq.prems obtain m1 where "m1 \<in> set (matches r m)" "m' \<in> set (matches q m1)" by auto
  with RSeq.IH(1)[of m1 m] RSeq.IH(2)[of m' m1] show ?case by simp
next
  case (RSet P)
  then show ?case by (cases "ms_rest m") (auto split: if_splits)
next
  case (RAlt r q)
  then show ?case by (auto simp: min_def) (metis add_leD2 add_le_cancel_left le_trans nat_le_linear)+
qed (auto split: list.splits if_splits option.splits dest: star_iter_shrinks)

lemma match_at_min: "match_at r i pv s = Some m \<Longrightarrow> length (rm_rest m) + re_min r \<le> length s"
  using matches_min[of _ r "start_state i pv s"]
  by (fastforce simp: match_at_def start_state_def split: list.splits)

text \<open>A matcher moves forward by the text it consumes, whatever the assertions of the pattern.\<close>

definition advances :: "match_state \<Rightarrow> match_state \<Rightarrow> bool" where
  "advances m m' \<longleftrightarrow> (\<exists>u. ms_rest m = u @ ms_rest m' \<and> ms_pos m' = ms_pos m + length u)"

lemma advances_refl [simp]: "advances m m"
  by (simp add: advances_def)

lemma advances_trans: "advances m m1 \<Longrightarrow> advances m1 m2 \<Longrightarrow> advances m m2"
  unfolding advances_def by (metis add.assoc append.assoc length_append)

lemma star_iter_advances:
  assumes "\<And>m m'. m' \<in> set (f m) \<Longrightarrow> advances m m'"
  shows "m' \<in> set (star_iter lazy n f m) \<Longrightarrow> advances m m'"
proof (induction n arbitrary: m)
  case (Suc n)
  from Suc.prems consider "m' = m" | m1 where "m1 \<in> set (f m)" "m' \<in> set (star_iter lazy n f m1)"
    unfolding set_star_Suc by blast
  then show ?case using assms Suc.IH by cases (auto intro: advances_trans)
qed simp

lemma matches_advances: "m' \<in> set (matches r m) \<Longrightarrow> advances m m'"
proof (induction r arbitrary: m m')
  case (RSeq r q)
  from RSeq.prems obtain m1 where "m1 \<in> set (matches r m)" "m' \<in> set (matches q m1)" by auto
  with RSeq.IH show ?case by (blast intro: advances_trans)
next
  case (RSet P)
  then show ?case by (cases "ms_rest m") (auto simp: advances_def split: if_splits)
next
  case (RStar r)
  then show ?case using star_iter_advances[of "matches r"] by auto
next
  case (RLazy r)
  then show ?case using star_iter_advances[of "matches r"] by auto
next
  case (RGroup k r)
  then show ?case by (fastforce simp: advances_def)
qed (auto split: list.splits if_splits option.splits)

lemma match_at_rest: "match_at r i pv s = Some m \<Longrightarrow> drop (rm_end m - i) s = rm_rest m"
  using matches_advances[of _ r "start_state i pv s"]
  by (fastforce simp: match_at_def start_state_def advances_def split: list.splits)

lemma re_match_shrinks:
  "re_match r s = Some m \<Longrightarrow> length (drop (rm_end m) s) + re_min r \<le> length s"
  using match_at_rest[of r 0 None s m] match_at_min[of r 0 None s m] by (simp add: re_match_def)


lemma fullmatch_lang:
  assumes "plain_re r"
  shows "re_fullmatch r s \<noteq> None \<longleftrightarrow> s \<in> lang r"
proof -
  have moves: "moves (lang r) (matches r)" using assms by (rule matches_lang)
  have "re_fullmatch r s \<noteq> None \<longleftrightarrow> (\<exists>m \<in> set (matches r (start_state 0 None s)). ms_rest m = [])"
    by (auto simp: re_fullmatch_def filter_empty_conv split: list.split dest: Cons_eq_filterD)
      (metis (mono_tags, lifting) Cons_eq_filterD in_set_conv_decomp)
  also have "\<dots> \<longleftrightarrow> s \<in> lang r"
  proof
    assume "\<exists>m \<in> set (matches r (start_state 0 None s)). ms_rest m = []"
    then show "s \<in> lang r" using movesD1 [OF moves] by (fastforce simp: start_state_def)
  next
    assume "s \<in> lang r"
    then show "\<exists>m \<in> set (matches r (start_state 0 None s)). ms_rest m = []"
      using movesD2 [OF moves, of "start_state 0 None s" s "[]"] by (simp add: start_state_def)
  qed
  finally show ?thesis .
qed

text \<open>The repetition of a class of characters.\<close>

lemma star_lang_set: "star_lang {[c] | c. P c} = {s. list_all P s}"
proof (intro set_eqI iffI)
  fix s assume "s \<in> star_lang {[c] | c. P c}"
  then show "s \<in> {s. list_all P s}" by induction auto
next
  fix s assume "s \<in> {s. list_all P s}"
  then show "s \<in> star_lang {[c] | c. P c}"
  proof (induction s)
    case Nil
    show ?case by (rule star_Nil)
  next
    case (Cons c s)
    then have "[c] @ s \<in> star_lang {[c] | c. P c}" by (intro star_step) auto
    then show ?case by simp
  qed
qed

lemma lang_plus_set: "lang (RPlus (RSet P)) = {s. s \<noteq> [] \<and> list_all P s}"
proof (intro set_eqI iffI)
  fix s assume "s \<in> {s. s \<noteq> [] \<and> list_all P s}"
  then have "s = [hd s] @ tl s" "P (hd s)" "list_all P (tl s)" by (cases s; simp)+
  then show "s \<in> lang (RPlus (RSet P))" by (simp only: RPlus_def lang.simps star_lang_set) blast
qed (auto simp: RPlus_def star_lang_set)

end
