(* ===== verification/Frontier.thy ===== *)
theory Frontier
  imports SymbolTable PyRegex
begin

text \<open>
  \<^verbatim>\<open>tools/ci/linux-runtime-frontier-v1.py\<close>: classification of a kernel boot against a certified first
  fault.  The inputs are the texts of the interrupt log, the symbol listing, the trace and the
  console, and the configuration document as a record.

  Shown here: address lookup names the nearest symbol; an address is relocated exactly in the window
  below the linked image; the fault that is judged is the first unexpected one; a zero exit status is
  given exactly for proven progress.
\<close>

section \<open>Numbers, symbols and faults\<close>

text \<open>A JSON number or a string that spells one.\<close>

datatype num = NInt int | NStr string

definition parse_int :: "num \<Rightarrow> py_error + int" where
  [py_defs]: "parse_int v = (case v of NInt i \<Rightarrow> Inr i | NStr t \<Rightarrow> of_option (ValueError t) (py_int 0 t))"

definition load_symbols :: "string \<Rightarrow> (int \<times> string) list \<times> int list \<times> (string \<times> int) list" where
  [py_defs]: "load_symbols text = nm_table text"

definition resolve :: "(int \<times> string) list \<Rightarrow> int list \<Rightarrow> int \<Rightarrow> string \<times> int" where
  [py_defs]: "resolve symbols addresses address = nearest symbols addresses address"

record fault =
  ft_epc :: int
  ft_tval :: int
  ft_desc :: string
  ft_lookup :: int
  ft_relocated :: bool
  ft_symbol :: string
  ft_offset :: int
  ft_start :: nat

definition FAULT_RE :: re where
  [py_defs]: "FAULT_RE = RSeqs [RLit ''epc:0x'', RGroup 1 (RPlus (RSet is_hex)), RStar (RSet dot),
     RLit ''tval:0x'', RGroup 2 (RPlus (RSet is_hex)), RStar (RSet dot),
     RLit ''desc='', RGroup 3 (RPlus (RSet (\<lambda>c. \<not> is_ws c)))]"

definition is_expected_mmu_transition_fault :: "fault \<Rightarrow> bool" where
  [py_defs]: "is_expected_mmu_transition_fault f \<longleftrightarrow>
     ft_desc f = ''exec_page_fault'' \<and> ft_relocated f \<and> ft_tval f = ft_epc f \<and>
     ft_symbol f = ''relocate_enable_mmu'' \<and> ft_offset f = 0x48"

text \<open>\<^verbatim>\<open>int(match.group(k), 16)\<close>: the group holds hexadecimal digits only, so the conversion succeeds.\<close>

definition hex_group :: "re_match \<Rightarrow> nat \<Rightarrow> int" where
  [py_defs]: "hex_group m k = (case py_int 16 (group m k) of None \<Rightarrow> 0 | Some i \<Rightarrow> i)"

definition relocate :: "int \<Rightarrow> int option \<Rightarrow> int \<Rightarrow> int \<times> bool" where
  [py_defs]: "relocate phys_entry relocation_delta epc =
     (case relocation_delta of
        None \<Rightarrow> (epc, False)
      | Some delta \<Rightarrow> if epc \<ge> phys_entry \<and> epc < phys_entry + delta then (epc + delta, True) else (epc, False))"

definition parse_faults ::
  "string \<Rightarrow> (int \<times> string) list \<Rightarrow> int list \<Rightarrow> int \<Rightarrow> int option \<Rightarrow> fault list" where
  [py_defs]: "parse_faults text symbols addresses phys_entry relocation_delta =
     map (\<lambda>m. let epc = hex_group m 1; (look, relocated) = relocate phys_entry relocation_delta epc;
                 (symbol, offset) = resolve symbols addresses look in
               \<lparr> ft_epc = epc, ft_tval = hex_group m 2, ft_desc = group m 3, ft_lookup = look,
                 ft_relocated = relocated, ft_symbol = symbol, ft_offset = offset, ft_start = rm_start m \<rparr>)
       (filter (\<lambda>m. contains ''fault'' (group m 3)) (finditer FAULT_RE text))"

definition address_candidates :: "(string \<times> int) list \<Rightarrow> string \<Rightarrow> int option \<Rightarrow> int list" where
  [py_defs]: "address_candidates by_name name relocation_delta =
     (case map_of by_name name of
        None \<Rightarrow> []
      | Some address \<Rightarrow> address # (case relocation_delta of
            None \<Rightarrow> []
          | Some delta \<Rightarrow> if address \<ge> delta then [address - delta] else []))"

definition symbol_executed :: "string \<Rightarrow> (string \<times> int) list \<Rightarrow> string \<Rightarrow> int option \<Rightarrow> bool" where
  [py_defs]: "symbol_executed trace_prefix by_name name relocation_delta =
     list_ex (\<lambda>address. contains (''0x'' @ hex_int address @ '':'') trace_prefix \<or>
                        contains (''0x'' @ hex_int_pad 16 address @ '':'') trace_prefix)
       (address_candidates by_name name relocation_delta)"

section \<open>Classification\<close>

record norm_fault =
  nf_desc :: string
  nf_symbol :: string
  nf_offset :: int

definition normalized_fault :: "fault option \<Rightarrow> norm_fault option" where
  [py_defs]: "normalized_fault f = map_option (\<lambda>f. \<lparr> nf_desc = ft_desc f, nf_symbol = ft_symbol f, nf_offset = ft_offset f \<rparr>) f"

text \<open>The fault of the certified baseline; its offset may be spelled as a string.\<close>

record expected_fault =
  ex_desc :: string
  ex_symbol :: string
  ex_offset :: num

definition same_fault :: "norm_fault option \<Rightarrow> expected_fault option \<Rightarrow> py_error + bool" where
  [py_defs]: "same_fault actual expected =
     (case (actual, expected) of
        (Some f, Some e) \<Rightarrow>
          if nf_desc f = ex_desc e \<and> nf_symbol f = ex_symbol e
          then bindE (parse_int (ex_offset e)) (\<lambda>i. Inr (nf_offset f = i)) else Inr False
      | _ \<Rightarrow> Inr False)"

record config =
  cf_phys_entry :: num
  cf_baseline_fault :: "expected_fault option"
  cf_baseline_marker :: string
  cf_progress_markers :: "(string \<times> string) list"
  cf_console_any :: "string list"
  cf_symbol_any :: "string list"

datatype verdict = SAME_FAULT | MOVED_LATER | REGRESSED | INCONCLUSIVE | FRONTIER_PASS

record observation =
  ob_fault :: "norm_fault option"
  ob_progress_rank :: int
  ob_pass_marker_hit :: bool

text \<open>\<^verbatim>\<open>xs.index(x)\<close> for an element of the list.\<close>

fun list_index :: "'a list \<Rightarrow> 'a \<Rightarrow> nat" where
  "list_index [] x = 0"
| "list_index (y # ys) x = (if y = x then 0 else Suc (list_index ys x))"

definition classify_observation :: "observation \<Rightarrow> config \<Rightarrow> py_error + verdict \<times> string" where
  [py_defs]: "classify_observation ob cfg =
     (let marker_names = map fst (cf_progress_markers cfg); progress_rank = ob_progress_rank ob in
      if cf_baseline_marker cfg \<notin> set marker_names
      then Inl (ValueError (''baseline progress marker not present: '' @ cf_baseline_marker cfg))
      else let baseline_rank = int (list_index marker_names (cf_baseline_marker cfg)) in
        if ob_fault ob \<noteq> None then
          bindE (same_fault (ob_fault ob) (cf_baseline_fault cfg)) (\<lambda>same.
            if same then Inr (SAME_FAULT, ''normalized first fault matches certified baseline'')
            else if progress_rank > baseline_rank
            then Inr (MOVED_LATER, ''different first fault after a later certified progress marker'')
            else if progress_rank < baseline_rank
            then Inr (REGRESSED, ''different first fault before the certified baseline progress marker'')
            else Inr (INCONCLUSIVE, ''different first fault without proof that execution moved later''))
        else if ob_pass_marker_hit ob
        then Inr (FRONTIER_PASS, ''explicit frontier pass marker reached with no unexpected kernel fault'')
        else if progress_rank > baseline_rank
        then Inr (MOVED_LATER, ''no unexpected fault and execution reached a later progress marker'')
        else Inr (INCONCLUSIVE, ''no unexpected fault, but no explicit proof of forward progress''))"

section \<open>The main program\<close>

definition link_anchor :: "(string \<times> int) list \<Rightarrow> (string \<times> int) option" where
  [py_defs]: "link_anchor by_name =
     (case filter (\<lambda>c. map_of by_name c \<noteq> None) [''_start'', ''_text'', ''_stext''] of
        [] \<Rightarrow> None | c # _ \<Rightarrow> Some (c, the (map_of by_name c)))"

definition relocation_delta_of :: "(string \<times> int) list \<Rightarrow> int \<Rightarrow> int option" where
  [py_defs]: "relocation_delta_of by_name phys_entry =
     (case link_anchor by_name of
        None \<Rightarrow> None | Some (c, address) \<Rightarrow> if address > phys_entry then Some (address - phys_entry) else None)"

text \<open>The trace is cut where it records the fault that is judged.\<close>

definition trace_cut :: "string \<Rightarrow> fault option \<Rightarrow> nat" where
  [py_defs]: "trace_cut trace first_fault =
     (case first_fault of
        None \<Rightarrow> length trace
      | Some f \<Rightarrow> (case filter (\<lambda>m. hex_group m 1 = ft_epc f \<and> hex_group m 2 = ft_tval f \<and> group m 3 = ft_desc f)
                          (finditer FAULT_RE trace) of
                     [] \<Rightarrow> length trace | m # _ \<Rightarrow> rm_start m))"

text \<open>The loop over the markers: the highest one that was hit and the names of all that were.\<close>

definition progress ::
  "(string \<Rightarrow> bool) \<Rightarrow> (string \<times> string) list \<Rightarrow> int \<times> string list" where
  [py_defs]: "progress hit markers =
     fold (\<lambda>(index, name, symbol) (rank, reached). if hit symbol then (int index, reached @ [name]) else (rank, reached))
       (zip [0..<length markers] markers) (- 1, [])"

record frontier_result =
  fr_verdict :: verdict
  fr_reason :: string
  fr_qemu_rc :: int
  fr_fault :: "norm_fault option"
  fr_fault_detail :: "fault option"
  fr_progress_rank :: int
  fr_progress_reached :: "string list"
  fr_highest_progress :: "string option"
  fr_pass_markers :: "string list"
  fr_unexpected :: nat
  fr_kernel_faults :: nat
  fr_link_anchor :: "(string \<times> int) option"
  fr_relocation_delta :: "int option"

definition exit_code :: "verdict \<Rightarrow> int" where
  [py_defs]: "exit_code v = (if v \<in> set [FRONTIER_PASS, MOVED_LATER] then 0
     else if v \<in> set [SAME_FAULT, REGRESSED] then 1 else 2)"

definition frontier_main ::
  "config \<Rightarrow> string \<Rightarrow> string \<Rightarrow> string \<Rightarrow> string \<Rightarrow> string \<Rightarrow> py_error + frontier_result \<times> int" where
  [py_defs]: "frontier_main cfg interrupts nm trace console qemu_rc =
     bindE (parse_int (cf_phys_entry cfg)) (\<lambda>phys_entry.
     case load_symbols nm of (symbols, addresses, by_name) \<Rightarrow>
     let relocation_delta = relocation_delta_of by_name phys_entry;
         faults = parse_faults interrupts symbols addresses phys_entry relocation_delta;
         kernel_faults = filter (\<lambda>f. ft_epc f \<ge> phys_entry) faults;
         unexpected = filter (\<lambda>f. \<not> is_expected_mmu_transition_fault f) kernel_faults;
         first_fault = (case unexpected of [] \<Rightarrow> None | f # _ \<Rightarrow> Some f);
         trace_prefix = take (trace_cut trace first_fault) trace;
         (progress_rank, reached) =
           progress (\<lambda>symbol. symbol_executed trace_prefix by_name symbol relocation_delta) (cf_progress_markers cfg);
         pass_hits = map (\<lambda>m. ''console:'' @ m) (filter (\<lambda>m. contains m console) (cf_console_any cfg)) @
           map (\<lambda>m. ''symbol:'' @ m)
             (filter (\<lambda>m. symbol_executed trace by_name m relocation_delta) (cf_symbol_any cfg)) in
     bindE (classify_observation \<lparr> ob_fault = normalized_fault first_fault, ob_progress_rank = progress_rank,
              ob_pass_marker_hit = pass_hits \<noteq> [] \<rparr> cfg) (\<lambda>(verdict, reason).
     bindE (of_option (ValueError qemu_rc) (py_int 10 qemu_rc)) (\<lambda>rc.
       Inr (\<lparr> fr_verdict = verdict, fr_reason = reason, fr_qemu_rc = rc, fr_fault = normalized_fault first_fault,
              fr_fault_detail = first_fault, fr_progress_rank = progress_rank, fr_progress_reached = reached,
              fr_highest_progress = (if reached = [] then None else Some (last reached)),
              fr_pass_markers = pass_hits, fr_unexpected = length unexpected,
              fr_kernel_faults = length kernel_faults, fr_link_anchor = link_anchor by_name,
              fr_relocation_delta = relocation_delta \<rparr>, exit_code verdict))))"

section \<open>Lookup\<close>

interpretation frontier_lookup: symbol_resolver resolve
  using nearest_symbol.symbol_resolver_axioms unfolding resolve_def[abs_def] .

text \<open>
  For the table of any symbol listing, an address at or above some symbol resolves to a symbol
  with the greatest address not above it and the distance from it; an address below every symbol
  resolves to the unknown symbol.
\<close>

theorem resolve_nearest_symbol:
  assumes "load_symbols nm = (symbols, addresses, by_name)"
  shows "case resolve symbols addresses a of (name, offset) \<Rightarrow>
    (if \<exists>(b, n) \<in> set symbols. b \<le> a
     then (a - offset, name) \<in> set symbols \<and> 0 \<le> offset \<and> (\<forall>(b, n) \<in> set symbols. b \<le> a \<longrightarrow> b \<le> a - offset)
     else name = ''?'' \<and> offset = 0)"
proof -
  have s: "sorted symbols" "addresses = map fst symbols"
    using nm_table_sorted[of nm] assms by (auto simp: load_symbols_def)
  show ?thesis
  proof (cases "\<exists>(b, n) \<in> set symbols. b \<le> a")
    case True
    then obtain b0 n0 where "(b0, n0) \<in> set symbols" "b0 \<le> a" by blast
    from frontier_lookup.res_some[OF s(1) this] True s(2) show ?thesis by auto
  next
    case False
    then have "\<forall>(b, n) \<in> set symbols. a < b" by force
    from frontier_lookup.res_none[OF s(1) this] False s(2) show ?thesis by auto
  qed
qed

theorem resolve_nearest_symbol_witness:
  "load_symbols ''80200010 T b\<newline>80200000 T a\<newline>'' =
     ([(0x80200000, ''a''), (0x80200010, ''b'')], [0x80200000, 0x80200010], [(''b'', 0x80200010), (''a'', 0x80200000)]) \<and>
   resolve [(0x80200000, ''a''), (0x80200010, ''b'')] [0x80200000, 0x80200010] 0x80200014 = (''b'', 4)"
proof -
  have l: "load_symbols ''80200010 T b\<newline>80200000 T a\<newline>'' =
     ([(0x80200000, ''a''), (0x80200010, ''b'')], [0x80200000, 0x80200010], [(''b'', 0x80200010), (''a'', 0x80200000)])"
    by code_simp
  from resolve_nearest_symbol[OF l, of "0x80200014"] l show ?thesis by (auto split: prod.splits if_splits)
qed

section \<open>Relocation\<close>

text \<open>
  A parsed fault is described at the address where the image is linked: below the physical entry
  and from the linked anchor on the address is used as it is, in the window between them it is moved
  up by the distance to the anchor, so the address looked up is never inside the window; the symbol
  and the offset are those of the address looked up.
\<close>

theorem parse_faults_relocation:
  assumes "f \<in> set (parse_faults text symbols addresses phys_entry (relocation_delta_of by_name phys_entry))"
  shows "contains ''fault'' (ft_desc f) \<and> resolve symbols addresses (ft_lookup f) = (ft_symbol f, ft_offset f) \<and>
    (case relocation_delta_of by_name phys_entry of
       None \<Rightarrow> \<not> ft_relocated f \<and> ft_lookup f = ft_epc f
     | Some delta \<Rightarrow> \<exists>c. link_anchor by_name = Some (c, phys_entry + delta) \<and> 0 < delta \<and>
         \<not> (phys_entry \<le> ft_lookup f \<and> ft_lookup f < phys_entry + delta) \<and>
         ft_relocated f = (phys_entry \<le> ft_epc f \<and> ft_epc f < phys_entry + delta) \<and>
         ft_lookup f = ft_epc f + (if ft_relocated f then delta else 0))"
  using assms
  by (auto simp: parse_faults_def Let_def relocate_def relocation_delta_of_def split: option.splits prod.splits if_splits)

theorem parse_faults_relocation_witness:
  "\<exists>f. f \<in> set (parse_faults ''epc:0x80200004, tval:0x0, desc=fault_load'' [(0xC0000000, ''_start'')] [0xC0000000] 0x80200000
        (relocation_delta_of [(''_start'', 0xC0000000)] 0x80200000)) \<and> ft_lookup f = 0xC0000004 \<and> ft_symbol f = ''_start''"
proof -
  have p: "parse_faults ''epc:0x80200004, tval:0x0, desc=fault_load'' [(0xC0000000, ''_start'')] [0xC0000000] 0x80200000
        (relocation_delta_of [(''_start'', 0xC0000000)] 0x80200000) =
      [\<lparr> ft_epc = 0x80200004, ft_tval = 0, ft_desc = ''fault_load'', ft_lookup = 0xC0000004, ft_relocated = True,
         ft_symbol = ''_start'', ft_offset = 4, ft_start = 0 \<rparr>]" by code_simp
  have "\<exists>f. f \<in> set (parse_faults ''epc:0x80200004, tval:0x0, desc=fault_load'' [(0xC0000000, ''_start'')] [0xC0000000] 0x80200000
        (relocation_delta_of [(''_start'', 0xC0000000)] 0x80200000))" unfolding p by simp
  then obtain f where f: "f \<in> set (parse_faults ''epc:0x80200004, tval:0x0, desc=fault_load'' [(0xC0000000, ''_start'')] [0xC0000000] 0x80200000
        (relocation_delta_of [(''_start'', 0xC0000000)] 0x80200000))" by blast
  from parse_faults_relocation[OF f] f show ?thesis unfolding p by auto
qed

section \<open>Progress and verdict\<close>

lemma sorted_last_Max: "sorted (xs :: nat list) \<Longrightarrow> xs \<noteq> [] \<Longrightarrow> last xs = Max (set xs)"
proof (induction xs rule: rev_induct)
  case (snoc x xs)
  then have "\<forall>y \<in> set xs. y \<le> x" by (simp add: sorted_append)
  then show ?case by (intro Max_eqI[symmetric]) auto
qed simp

lemma progress_spec:
  "progress hit markers =
     (case filter (\<lambda>i. hit (snd (markers ! i))) [0..<length markers] of
        [] \<Rightarrow> (- 1, []) | is \<Rightarrow> (int (last is), map (\<lambda>i. fst (markers ! i)) is))"
proof -
  let ?step = "\<lambda>(index, name, symbol) (rank, reached). if hit symbol then (int index, reached @ [name]) else (rank, reached)"
  have "fold ?step (zip [0..<length (take n markers)] (take n markers)) (- 1, []) =
     (case filter (\<lambda>i. hit (snd (markers ! i))) [0..<n] of
        [] \<Rightarrow> (- 1, []) | is \<Rightarrow> (int (last is), map (\<lambda>i. fst (markers ! i)) is))" if "n \<le> length markers" for n
    using that
  proof (induction n)
    case (Suc n)
    let ?is = "filter (\<lambda>i. hit (snd (markers ! i))) [0..<n]"
    have z: "zip [0..<length (take (Suc n) markers)] (take (Suc n) markers) =
        zip [0..<length (take n markers)] (take n markers) @ [(n, markers ! n)]"
      using Suc.prems by (simp add: take_Suc_conv_app_nth)
    show ?case unfolding z using Suc by (cases "markers ! n"; cases ?is) auto
  qed simp
  from this[of "length markers"] show ?thesis by (simp add: progress_def)
qed

text \<open>
  The progress rank is the index of the last configured marker that was executed, the reported
  names are those of all executed markers in configuration order, and the rank is minus one exactly
  when no marker was executed.
\<close>

theorem progress_highest_marker:
  "case progress hit markers of (rank, reached) \<Rightarrow>
     reached = map fst (filter (\<lambda>(name, symbol). hit symbol) markers) \<and>
     (if \<exists>i < length markers. hit (snd (markers ! i))
      then rank = int (Max {i. i < length markers \<and> hit (snd (markers ! i))}) else rank = - 1)"
proof -
  let ?is = "filter (\<lambda>i. hit (snd (markers ! i))) [0..<length markers]"
  have set: "set ?is = {i. i < length markers \<and> hit (snd (markers ! i))}" by auto
  have names: "map (\<lambda>i. fst (markers ! i)) ?is = map fst (filter (\<lambda>(name, symbol). hit symbol) markers)"
  proof -
    have "filter (\<lambda>(name, symbol). hit symbol) markers = filter (\<lambda>(name, symbol). hit symbol) (map ((!) markers) [0..<length markers])"
      by (simp add: map_nth)
    also have "\<dots> = map ((!) markers) ?is" by (simp add: filter_map comp_def case_prod_beta')
    finally show ?thesis by (simp add: comp_def)
  qed
  show ?thesis
  proof (cases "?is = []")
    case True
    then have "\<not> (\<exists>i < length markers. hit (snd (markers ! i)))" by (auto simp: filter_empty_conv)
    with True names show ?thesis by (simp add: progress_spec)
  next
    case False
    have "sorted ?is" by (rule sorted_wrt_filter) simp
    then have "last ?is = Max (set ?is)" using False by (rule sorted_last_Max)
    moreover have "\<exists>i < length markers. hit (snd (markers ! i))" using False by (auto simp: filter_empty_conv)
    ultimately show ?thesis using False names set by (cases ?is) (auto simp: progress_spec)
  qed
qed

lemma frontier_main_Inr:
  assumes "frontier_main cfg interrupts nm trace console qemu_rc = Inr (r, code)"
  obtains phys symbols addresses by_name where "parse_int (cf_phys_entry cfg) = Inr phys"
    "load_symbols nm = (symbols, addresses, by_name)"
    "fr_fault_detail r = (case filter (\<lambda>f. \<not> is_expected_mmu_transition_fault f) (filter (\<lambda>f. phys \<le> ft_epc f)
        (parse_faults interrupts symbols addresses phys (relocation_delta_of by_name phys))) of [] \<Rightarrow> None | f # _ \<Rightarrow> Some f)"
    "fr_fault r = normalized_fault (fr_fault_detail r)" "code = exit_code (fr_verdict r)"
    "classify_observation \<lparr> ob_fault = fr_fault r, ob_progress_rank = fr_progress_rank r,
        ob_pass_marker_hit = fr_pass_markers r \<noteq> [] \<rparr> cfg = Inr (fr_verdict r, fr_reason r)"
proof -
  obtain symbols addresses by_name where l: "load_symbols nm = (symbols, addresses, by_name)"
    by (cases "load_symbols nm") auto
  from assms show ?thesis
    unfolding frontier_main_def l prod.case bindE_Inr_iff Let_def split_beta
    by (auto simp: of_option_Inr_iff simp del: filter_filter intro!: that[OF _ l])
qed

text \<open>
  C23. The exit status of a classification is zero exactly for proven progress: no unexpected fault
  together with a pass marker or a marker beyond the baseline, or a first fault that differs from the
  certified one after a marker beyond the baseline.  It is one exactly when the certified fault
  repeats or a different fault comes before the baseline marker.
\<close>

theorem frontier_exit_status:
  assumes "frontier_main cfg interrupts nm trace console qemu_rc = Inr (r, code)"
  defines "base \<equiv> int (list_index (map fst (cf_progress_markers cfg)) (cf_baseline_marker cfg))"
  shows "(code = 0 \<longleftrightarrow>
      (fr_fault r = None \<and> (fr_pass_markers r \<noteq> [] \<or> base < fr_progress_rank r)) \<or>
      (fr_fault r \<noteq> None \<and> same_fault (fr_fault r) (cf_baseline_fault cfg) = Inr False \<and> base < fr_progress_rank r)) \<and>
    (code = 1 \<longleftrightarrow> fr_fault r \<noteq> None \<and>
      (same_fault (fr_fault r) (cf_baseline_fault cfg) = Inr True \<or>
       same_fault (fr_fault r) (cf_baseline_fault cfg) = Inr False \<and> fr_progress_rank r < base)) \<and>
    code \<in> {0, 1, 2}"
proof -
  from assms(1) obtain phys where ob: "code = exit_code (fr_verdict r)"
    "classify_observation \<lparr> ob_fault = fr_fault r, ob_progress_rank = fr_progress_rank r,
        ob_pass_marker_hit = fr_pass_markers r \<noteq> [] \<rparr> cfg = Inr (fr_verdict r, fr_reason r)"
    by (rule frontier_main_Inr)
  from ob(2)[unfolded classify_observation_def Let_def, folded base_def] show ?thesis
    unfolding ob(1)
    by (cases "fr_fault r") (auto simp: exit_code_def bindE_Inr_iff split: if_splits)
qed

text \<open>
  The fault that is judged is the first unexpected one: every kernel fault recorded before it is
  the expected fault of switching on the memory management unit, and without such a fault every
  kernel fault is of that kind.
\<close>

theorem frontier_first_unexpected:
  assumes "frontier_main cfg interrupts nm trace console qemu_rc = Inr (r, code)"
    and "parse_int (cf_phys_entry cfg) = Inr phys" and "load_symbols nm = (symbols, addresses, by_name)"
  shows "\<exists>before after. filter (\<lambda>f. phys \<le> ft_epc f)
      (parse_faults interrupts symbols addresses phys (relocation_delta_of by_name phys)) =
        before @ (case fr_fault_detail r of None \<Rightarrow> [] | Some f \<Rightarrow> f # after) \<and>
    (\<forall>f \<in> set before. is_expected_mmu_transition_fault f) \<and>
    (\<forall>f. fr_fault_detail r = Some f \<longrightarrow> \<not> is_expected_mmu_transition_fault f)"
proof -
  let ?ks = "filter (\<lambda>f. phys \<le> ft_epc f)
      (parse_faults interrupts symbols addresses phys (relocation_delta_of by_name phys))"
  let ?ok = "is_expected_mmu_transition_fault"
  have d: "fr_fault_detail r = (case filter (\<lambda>f. \<not> ?ok f) ?ks of [] \<Rightarrow> None | f # _ \<Rightarrow> Some f)"
    using assms(1) by (rule frontier_main_Inr) (use assms(2,3) in simp)
  have "?ks = takeWhile ?ok ?ks @ dropWhile ?ok ?ks" by simp
  moreover have "filter (\<lambda>f. \<not> ?ok f) ?ks = filter (\<lambda>f. \<not> ?ok f) (dropWhile ?ok ?ks)"
    by (metis (no_types, lifting) append_Nil filter_False filter_append set_takeWhileD takeWhile_dropWhile_id)
  moreover have "\<forall>f \<in> set (takeWhile ?ok ?ks). ?ok f" by (auto dest: set_takeWhileD)
  ultimately show ?thesis using d hd_dropWhile[of ?ok ?ks]
    by (cases "dropWhile ?ok ?ks") (fastforce split: list.splits)+
qed

definition demo_config :: config where
  "demo_config = \<lparr> cf_phys_entry = NStr ''0x80200000'',
     cf_baseline_fault = Some \<lparr> ex_desc = ''fault_load'', ex_symbol = ''strlen'', ex_offset = NStr ''0x6'' \<rparr>,
     cf_baseline_marker = ''entry'', cf_progress_markers = [(''entry'', ''_start''), (''later'', ''b'')],
     cf_console_any = [''up''], cf_symbol_any = [] \<rparr>"

lemma demo_frontier:
  "\<exists>r. frontier_main demo_config ''epc:0x80200008, tval:0x0, desc=fault_load'' ''80200000 T _start\<newline>80200004 T b\<newline>''
      ''0x80200000: 0x80200004:'' ''boot'' ''124'' = Inr (r, 0) \<and> fr_fault_detail r \<noteq> None"
proof -
  let ?m = "frontier_main demo_config ''epc:0x80200008, tval:0x0, desc=fault_load'' ''80200000 T _start\<newline>80200004 T b\<newline>''
      ''0x80200000: 0x80200004:'' ''boot'' ''124''"
  have "(case ?m of Inl e \<Rightarrow> False | Inr (r, c) \<Rightarrow> c = 0 \<and> fr_fault_detail r \<noteq> None)" by code_simp
  then show ?thesis by (auto split: sum.splits prod.splits)
qed

theorem frontier_exit_status_witness:
  "\<exists>r. frontier_main demo_config ''epc:0x80200008, tval:0x0, desc=fault_load'' ''80200000 T _start\<newline>80200004 T b\<newline>''
      ''0x80200000: 0x80200004:'' ''boot'' ''124'' = Inr (r, 0) \<and> 0 < fr_progress_rank r"
proof -
  obtain r where r: "frontier_main demo_config ''epc:0x80200008, tval:0x0, desc=fault_load'' ''80200000 T _start\<newline>80200004 T b\<newline>''
      ''0x80200000: 0x80200004:'' ''boot'' ''124'' = Inr (r, 0)" "fr_fault_detail r \<noteq> None"
    using demo_frontier by (elim exE conjE)
  from r(1) have "fr_fault r = normalized_fault (fr_fault_detail r)" by (rule frontier_main_Inr)
  then have "fr_fault r \<noteq> None" using r(2) by (simp add: normalized_fault_def)
  with frontier_exit_status[OF r(1)] r(1) show ?thesis by (simp add: demo_config_def)
qed

theorem frontier_first_unexpected_witness:
  "\<exists>r f. frontier_main demo_config ''epc:0x80200008, tval:0x0, desc=fault_load'' ''80200000 T _start\<newline>80200004 T b\<newline>''
      ''0x80200000: 0x80200004:'' ''boot'' ''124'' = Inr (r, 0) \<and> fr_fault_detail r = Some f \<and>
      \<not> is_expected_mmu_transition_fault f"
proof -
  obtain r where r: "frontier_main demo_config ''epc:0x80200008, tval:0x0, desc=fault_load'' ''80200000 T _start\<newline>80200004 T b\<newline>''
      ''0x80200000: 0x80200004:'' ''boot'' ''124'' = Inr (r, 0)" "fr_fault_detail r \<noteq> None"
    using demo_frontier by (elim exE conjE)
  have p: "parse_int (cf_phys_entry demo_config) = Inr 0x80200000" by code_simp
  obtain symbols addresses by_name where l: "load_symbols ''80200000 T _start\<newline>80200004 T b\<newline>'' = (symbols, addresses, by_name)"
    by (cases "load_symbols ''80200000 T _start\<newline>80200004 T b\<newline>''") auto
  from frontier_first_unexpected[OF r(1) p l] r show ?thesis by auto
qed

end
