(* ===== verification/TextLines.thy ===== *)
theory TextLines
  imports Prelude
begin

text \<open>
  Iterating a file opened as text: universal newlines, every line keeps its line feed.
\<close>

fun universal_newlines :: "string \<Rightarrow> string" where
  "universal_newlines [] = []"
| "universal_newlines (c # s) =
     (if c = CHR 0x0D then CHR 0x0A # universal_newlines (if take 1 s = [CHR 0x0A] then tl s else s)
      else c # universal_newlines s)"

fun lines_keep :: "string \<Rightarrow> string \<Rightarrow> string list" where
  "lines_keep acc [] = (if acc = [] then [] else [rev acc])"
| "lines_keep acc (c # s) =
     (if c = CHR 0x0A then rev (c # acc) # lines_keep [] s else lines_keep (c # acc) s)"

definition file_lines :: "string \<Rightarrow> string list" where
  [py_defs]: "file_lines text = lines_keep [] (universal_newlines text)"

lemma universal_newlines_id: "CHR 0x0D \<notin> set s \<Longrightarrow> universal_newlines s = s"
  by (induction s) auto

lemma universal_newlines_clean: "CHR 0x0D \<notin> set (universal_newlines s)"
  by (induction s rule: universal_newlines.induct) auto

end
