(* ===== verification/QemuWatch.thy ===== *)
theory QemuWatch
  imports Frontier TextLines
begin

text \<open>
  \<^verbatim>\<open>tools/ci/linux-runtime-qemu-watch-v1.py\<close>: running the emulator until the frontier classifier is
  decisive, and the summaries of the trace it leaves.  The emulator and the clock are an environment
  that says, for every round of the poll loop, what the program observes; the classifier is the model
  of \<^verbatim>\<open>Frontier\<close>.  The elapsed time, the printed lines and the text of \<^verbatim>\<open>watch-result.json\<close> are left out; their data is the
  record \<open>watch_result\<close>.

  Shown here: the loop ends as soon as the emulator exits, the deadline passes or a probe is
  decisive, and for exactly one of these reasons; the bounded trace summaries are the last entries of
  the compressed trace.
\<close>

section \<open>Probing\<close>

definition snapshot_interrupts :: "string option \<Rightarrow> string" where
  [py_defs]: "snapshot_interrupts trace =
     (case trace of None \<Rightarrow> [] | Some text \<Rightarrow> concat (filter (contains ''riscv_cpu_do_interrupt'') (file_lines text)))"

text \<open>
  One run of the classifier: its result document, or the document an earlier probe left when the
  classifier raised, and its exit status (one for an uncaught exception).
\<close>

definition classify ::
  "config \<Rightarrow> string \<Rightarrow> string \<Rightarrow> string \<Rightarrow> int \<Rightarrow> frontier_result option \<Rightarrow> frontier_result option \<times> int" where
  [py_defs]: "classify cfg nm trace console qemu_rc json_out =
     (case frontier_main cfg (snapshot_interrupts (Some trace)) nm trace console (str_int qemu_rc) of
        Inl e \<Rightarrow> (json_out, 1)
      | Inr (r, code) \<Rightarrow> (Some r, code))"

definition probe_decisive :: "frontier_result option \<Rightarrow> bool" where
  [py_defs]: "probe_decisive result =
     (case result of
        None \<Rightarrow> False
      | Some r \<Rightarrow>
          if fr_verdict r \<in> set [SAME_FAULT, REGRESSED, FRONTIER_PASS] then True
          else if fr_verdict r = MOVED_LATER then fr_fault r \<noteq> None
          else fr_verdict r = INCONCLUSIVE \<and> fr_fault r \<noteq> None)"

definition verdict_name :: "verdict \<Rightarrow> string" where
  [py_defs]: "verdict_name v = (case v of SAME_FAULT \<Rightarrow> ''SAME_FAULT'' | MOVED_LATER \<Rightarrow> ''MOVED_LATER''
     | REGRESSED \<Rightarrow> ''REGRESSED'' | INCONCLUSIVE \<Rightarrow> ''INCONCLUSIVE'' | FRONTIER_PASS \<Rightarrow> ''FRONTIER_PASS'')"

section \<open>The poll loop\<close>

text \<open>
  What a round observes: the clock, in nanoseconds, the exit status of the emulator if it has one,
  the trace and console files; and the status that stopping the emulator would give.
\<close>

record tick =
  tk_now :: int
  tk_native_rc :: "int option"
  tk_trace :: string
  tk_console :: string
  tk_stop_rc :: int

record watch_state =
  ws_round :: nat
  ws_polls :: nat
  ws_probe_json :: "frontier_result option"

record watch_stop =
  st_round :: nat
  st_reason :: string
  st_qemu_rc :: int
  st_polls :: nat
  st_terminal_probe :: "frontier_result option"

text \<open>One round: it stops the loop or leads to the next round.\<close>

definition watch_round ::
  "config \<Rightarrow> string \<Rightarrow> int \<Rightarrow> (nat \<Rightarrow> tick) \<Rightarrow> watch_state \<Rightarrow> watch_stop + watch_state" where
  [py_defs]: "watch_round cfg nm deadline env s =
     (let t = env (ws_round s) in
      case tk_native_rc t of
        Some rc \<Rightarrow> Inl \<lparr> st_round = ws_round s, st_reason = ''qemu-exit'', st_qemu_rc = rc,
                      st_polls = ws_polls s, st_terminal_probe = None \<rparr>
      | None \<Rightarrow>
          if tk_now t \<ge> deadline
          then Inl \<lparr> st_round = ws_round s, st_reason = ''hard-timeout'', st_qemu_rc = tk_stop_rc t,
                    st_polls = ws_polls s, st_terminal_probe = None \<rparr>
          else let result = fst (classify cfg nm (tk_trace t) (tk_console t) 124 (ws_probe_json s));
                   polls = Suc (ws_polls s) in
            if probe_decisive result
            then let v = fr_verdict (the result) in
              Inl \<lparr> st_round = ws_round s,
                    st_reason = ''oracle:'' @ verdict_name v @ (if v = INCONCLUSIVE then '':fault'' else []),
                    st_qemu_rc = tk_stop_rc t, st_polls = polls, st_terminal_probe = result \<rparr>
            else Inr \<lparr> ws_round = Suc (ws_round s), ws_polls = polls, ws_probe_json = result \<rparr>)"

partial_function (option) watch_loop ::
  "config \<Rightarrow> string \<Rightarrow> int \<Rightarrow> (nat \<Rightarrow> tick) \<Rightarrow> watch_state \<Rightarrow> watch_stop option" where
  [code]: "watch_loop cfg nm deadline env s =
     (case watch_round cfg nm deadline env s of
        Inl stop \<Rightarrow> Some stop
      | Inr s' \<Rightarrow> watch_loop cfg nm deadline env s')"

definition watch_start :: watch_state where
  [py_defs]: "watch_start = \<lparr> ws_round = 0, ws_polls = 0, ws_probe_json = None \<rparr>"

section \<open>Symbols of the trace\<close>

definition TRACE_PC_RE :: re where
  [py_defs]: "TRACE_PC_RE = RSeqs [RLit ''0x'', RGroup 1 (RPlus (RSet is_hex)), RLit '':'']"

definition load_nm :: "string \<Rightarrow> (int \<times> string) list \<times> int list \<times> (string \<times> int) list" where
  [py_defs]: "load_nm text = nm_table text"

definition resolve_pc :: "(int \<times> string) list \<Rightarrow> int list \<Rightarrow> int \<Rightarrow> string \<times> int" where
  [py_defs]: "resolve_pc symbols addresses pc = nearest symbols addresses pc"

text \<open>\<^verbatim>\<open>a or b\<close> on optional integers: an address of zero counts as missing.\<close>

definition truthy_or :: "int option \<Rightarrow> int option \<Rightarrow> int option" where
  [py_defs]: "truthy_or a b = (case a of Some i \<Rightarrow> if i \<noteq> 0 then a else b | None \<Rightarrow> b)"

definition relocation_state :: "(string \<times> int) list \<Rightarrow> int \<Rightarrow> int option \<times> int option" where
  [py_defs]: "relocation_state by_name phys_entry =
     (let anchor = truthy_or (truthy_or (map_of by_name ''_start'') (map_of by_name ''_text'')) (map_of by_name ''_stext'');
          relocation_delta = (case anchor of None \<Rightarrow> None | Some a \<Rightarrow> if a > phys_entry then Some (a - phys_entry) else None)
      in (relocation_delta, map_option (\<lambda>d. phys_entry + d) relocation_delta))"

record trace_entry =
  te_pc :: int
  te_lookup :: int
  te_relocated :: bool
  te_symbol :: string
  te_offset :: int

definition resolved_trace_entry ::
  "(int \<times> string) list \<Rightarrow> int list \<Rightarrow> int option \<Rightarrow> int option \<Rightarrow> int \<Rightarrow> int \<Rightarrow> trace_entry" where
  [py_defs]: "resolved_trace_entry symbols addresses relocation_delta linked_floor pc phys_entry =
     (let moved = (relocation_delta \<noteq> None \<and> pc \<ge> phys_entry \<and> pc < the linked_floor);
          look = (if moved then pc + the relocation_delta else pc);
          (symbol, offset) = resolve_pc symbols addresses look in
      \<lparr> te_pc = pc, te_lookup = look, te_relocated = moved, te_symbol = symbol, te_offset = offset \<rparr>)"

text \<open>The resolved program counters of a trace, one per line that has one.\<close>

definition trace_pcs :: "string \<Rightarrow> int list" where
  [py_defs]: "trace_pcs trace = map (\<lambda>m. hex_group m 1) (List.map_filter (re_search TRACE_PC_RE) (file_lines trace))"

definition trace_entries :: "string \<Rightarrow> string \<Rightarrow> int \<Rightarrow> trace_entry list" where
  [py_defs]: "trace_entries trace nm phys_entry =
     (case load_nm nm of (symbols, addresses, by_name) \<Rightarrow>
      case relocation_state by_name phys_entry of (relocation_delta, linked_floor) \<Rightarrow>
      map (\<lambda>pc. resolved_trace_entry symbols addresses relocation_delta linked_floor pc phys_entry) (trace_pcs trace))"

text \<open>\<^verbatim>\<open>deque(maxlen=limit)\<close>: appending drops the oldest entry when the limit is reached.\<close>

definition deque_append :: "nat \<Rightarrow> 'a list \<Rightarrow> 'a \<Rightarrow> 'a list" where
  [py_defs]: "deque_append limit d x = last_n limit (d @ [x])"

definition te_key :: "trace_entry \<Rightarrow> string \<times> int" where
  [py_defs]: "te_key e = (te_symbol e, te_offset e)"

definition tail_step ::
  "nat \<Rightarrow> trace_entry list \<times> (string \<times> int) option \<Rightarrow> trace_entry \<Rightarrow> trace_entry list \<times> (string \<times> int) option" where
  [py_defs]: "tail_step limit st e =
     (case st of (tail, last_key) \<Rightarrow>
        if Some (te_key e) = last_key then (tail, last_key) else (deque_append limit tail e, Some (te_key e)))"

definition trace_tail_symbols :: "string option \<Rightarrow> string \<Rightarrow> int \<Rightarrow> nat \<Rightarrow> trace_entry list" where
  [py_defs]: "trace_tail_symbols trace nm phys_entry limit =
     (case trace of
        None \<Rightarrow> []
      | Some text \<Rightarrow> fst (foldl (tail_step limit) ([], None) (trace_entries text nm phys_entry)))"

definition FIRST_TARGET_SYMBOLS :: "string list" where
  [py_defs]: "FIRST_TARGET_SYMBOLS = [''spin_bug'', ''minic_spin_diag_bad_magic'', ''minic_spin_diag_recursion'',
     ''minic_spin_diag_cpu_recursion'']"

record first_target =
  tg_target :: string
  tg_entry :: trace_entry
  tg_context :: "trace_entry list"

fun first_target_from ::
  "nat \<Rightarrow> string list \<Rightarrow> trace_entry list \<Rightarrow> string option \<Rightarrow> trace_entry list \<Rightarrow> first_target option" where
  "first_target_from limit targets history last_symbol [] = None"
| "first_target_from limit targets history last_symbol (e # es) =
     (if te_symbol e \<in> set targets
      then Some \<lparr> tg_target = te_symbol e, tg_entry = e, tg_context = history \<rparr>
      else if Some (te_symbol e) \<noteq> last_symbol
      then first_target_from limit targets (deque_append limit history e) (Some (te_symbol e)) es
      else first_target_from limit targets history last_symbol es)"

definition trace_first_symbol_context ::
  "string option \<Rightarrow> string \<Rightarrow> string list \<Rightarrow> int \<Rightarrow> nat \<Rightarrow> first_target option" where
  [py_defs]: "trace_first_symbol_context trace nm target_names phys_entry context_limit =
     (case trace of
        None \<Rightarrow> None
      | Some text \<Rightarrow>
          let present_targets = filter (\<lambda>n. map_of (snd (snd (load_nm nm))) n \<noteq> None) target_names in
          if present_targets = [] then None
          else first_target_from context_limit present_targets [] None (trace_entries text nm phys_entry))"

record stall =
  sl_loop_symbols :: "string list"
  sl_suffix_entries :: nat
  sl_context :: "trace_entry list"

record stall_state =
  ss_history :: "trace_entry list"
  ss_candidate :: "trace_entry list"
  ss_suffix :: nat
  ss_last :: "string option"

definition stall_step :: "nat \<Rightarrow> string list \<Rightarrow> stall_state \<Rightarrow> trace_entry \<Rightarrow> stall_state" where
  [py_defs]: "stall_step limit loop_symbols s e =
     (if te_symbol e \<in> set loop_symbols
      then s\<lparr>ss_candidate := (if ss_suffix s = 0 then ss_history s else ss_candidate s), ss_suffix := Suc (ss_suffix s)\<rparr>
      else if Some (te_symbol e) \<noteq> ss_last s
      then s\<lparr>ss_suffix := 0, ss_history := deque_append limit (ss_history s) e, ss_last := Some (te_symbol e)\<rparr>
      else s\<lparr>ss_suffix := 0\<rparr>)"

definition stall_start :: stall_state where
  [py_defs]: "stall_start = \<lparr> ss_history = [], ss_candidate = [], ss_suffix = 0, ss_last = None \<rparr>"

definition trace_stall_context ::
  "string option \<Rightarrow> string \<Rightarrow> trace_entry list \<Rightarrow> int \<Rightarrow> nat \<Rightarrow> nat \<Rightarrow> stall option" where
  [py_defs]: "trace_stall_context trace nm tail_symbols phys_entry context_limit min_suffix_entries =
     (case trace of
        None \<Rightarrow> None
      | Some text \<Rightarrow>
          let loop_symbols = nub (filter (\<lambda>n. n \<noteq> [] \<and> n \<noteq> ''?'') (map te_symbol tail_symbols)) in
          if tail_symbols = [] \<or> loop_symbols = [] \<or> length loop_symbols > 4 then None
          else let s = foldl (stall_step context_limit loop_symbols) stall_start (trace_entries text nm phys_entry) in
            if ss_suffix s < min_suffix_entries then None
            else Some \<lparr> sl_loop_symbols = sort loop_symbols, sl_suffix_entries = ss_suffix s, sl_context = ss_candidate s \<rparr>)"

definition console_hints :: "string option \<Rightarrow> nat \<Rightarrow> string list" where
  [py_defs]: "console_hints console limit =
     (case console of
        None \<Rightarrow> []
      | Some text \<Rightarrow>
          let needles = [''BUG:'', ''Oops'', ''spinlock'', ''lockup'', ''Unable to handle'', ''Kernel panic'',
                         ''Call Trace'', ''epc :'', ''ra :'', ''status:''] in
          last_n limit (filter (\<lambda>line. list_ex (\<lambda>n. contains n line) needles) (splitlines text)))"

section \<open>The main program\<close>

record watch_result =
  wr_stop_reason :: string
  wr_polls :: nat
  wr_qemu_rc :: int
  wr_probe_verdict :: string
  wr_final_verdict :: verdict
  wr_classifier_rc :: int
  wr_tail :: "trace_entry list"
  wr_first_target :: "first_target option"
  wr_stall :: "stall option"
  wr_hints :: "string list"

text \<open>
  After the loop the files are classified once more; without a result the status is three.  \<open>final\<close>
  gives the trace and console as they are after the emulator has stopped.
\<close>

definition watch_finish ::
  "config \<Rightarrow> string \<Rightarrow> string \<Rightarrow> string \<Rightarrow> watch_stop \<Rightarrow> watch_result option \<times> int" where
  [py_defs]: "watch_finish cfg nm trace console stop =
     (case classify cfg nm trace console (st_qemu_rc stop) None of
        (None, rc) \<Rightarrow> (None, 3)
      | (Some r, rc) \<Rightarrow>
          let tail_symbols = trace_tail_symbols (Some trace) nm 0x80200000 32 in
          (Some \<lparr> wr_stop_reason = st_reason stop, wr_polls = st_polls stop, wr_qemu_rc = st_qemu_rc stop,
             wr_probe_verdict = (case st_terminal_probe stop of None \<Rightarrow> ''none'' | Some p \<Rightarrow> verdict_name (fr_verdict p)),
             wr_final_verdict = fr_verdict r, wr_classifier_rc = rc, wr_tail = tail_symbols,
             wr_first_target = trace_first_symbol_context (Some trace) nm FIRST_TARGET_SYMBOLS 0x80200000 64,
             wr_stall = trace_stall_context (Some trace) nm tail_symbols 0x80200000 24 64,
             wr_hints = console_hints (Some console) 80 \<rparr>, rc))"

definition watch_main ::
  "config \<Rightarrow> string \<Rightarrow> int \<Rightarrow> int \<Rightarrow> (nat \<Rightarrow> tick) \<Rightarrow> string \<Rightarrow> string \<Rightarrow> (watch_result option \<times> int) option" where
  [py_defs]: "watch_main cfg nm start timeout_ms env final_trace final_console =
     map_option (watch_finish cfg nm final_trace final_console)
       (watch_loop cfg nm (start + timeout_ms * 1000000) env watch_start)"

section \<open>The poll loop ends, and for a stated reason\<close>

text \<open>The result document after the probe of each round, and the state in which a round starts.\<close>

fun probes :: "config \<Rightarrow> string \<Rightarrow> (nat \<Rightarrow> tick) \<Rightarrow> nat \<Rightarrow> frontier_result option" where
  "probes cfg nm env 0 = fst (classify cfg nm (tk_trace (env 0)) (tk_console (env 0)) 124 None)"
| "probes cfg nm env (Suc j) =
     fst (classify cfg nm (tk_trace (env (Suc j))) (tk_console (env (Suc j))) 124 (probes cfg nm env j))"

definition state_at :: "config \<Rightarrow> string \<Rightarrow> (nat \<Rightarrow> tick) \<Rightarrow> nat \<Rightarrow> watch_state" where
  "state_at cfg nm env j = \<lparr> ws_round = j, ws_polls = j,
     ws_probe_json = (case j of 0 \<Rightarrow> None | Suc i \<Rightarrow> probes cfg nm env i) \<rparr>"

definition halts :: "config \<Rightarrow> string \<Rightarrow> int \<Rightarrow> (nat \<Rightarrow> tick) \<Rightarrow> nat \<Rightarrow> bool" where
  "halts cfg nm deadline env j \<longleftrightarrow> tk_native_rc (env j) \<noteq> None \<or> deadline \<le> tk_now (env j) \<or>
     probe_decisive (probes cfg nm env j)"

definition stop_at :: "config \<Rightarrow> string \<Rightarrow> int \<Rightarrow> (nat \<Rightarrow> tick) \<Rightarrow> nat \<Rightarrow> watch_stop" where
  "stop_at cfg nm deadline env j =
     (case tk_native_rc (env j) of
        Some rc \<Rightarrow> \<lparr> st_round = j, st_reason = ''qemu-exit'', st_qemu_rc = rc, st_polls = j, st_terminal_probe = None \<rparr>
      | None \<Rightarrow>
          if deadline \<le> tk_now (env j)
          then \<lparr> st_round = j, st_reason = ''hard-timeout'', st_qemu_rc = tk_stop_rc (env j), st_polls = j,
                 st_terminal_probe = None \<rparr>
          else let v = fr_verdict (the (probes cfg nm env j)) in
            \<lparr> st_round = j, st_reason = ''oracle:'' @ verdict_name v @ (if v = INCONCLUSIVE then '':fault'' else []),
              st_qemu_rc = tk_stop_rc (env j), st_polls = Suc j, st_terminal_probe = probes cfg nm env j \<rparr>)"

lemma probes_classify:
  "fst (classify cfg nm (tk_trace (env j)) (tk_console (env j)) 124 (ws_probe_json (state_at cfg nm env j))) = probes cfg nm env j"
  by (cases j) (simp_all add: state_at_def)

lemma watch_round_state_at:
  "watch_round cfg nm deadline env (state_at cfg nm env j) =
     (if halts cfg nm deadline env j then Inl (stop_at cfg nm deadline env j) else Inr (state_at cfg nm env (Suc j)))"
proof -
  have f: "ws_round (state_at cfg nm env j) = j" "ws_polls (state_at cfg nm env j) = j" by (simp_all add: state_at_def)
  have next_state: "state_at cfg nm env (Suc j) = \<lparr> ws_round = Suc j, ws_polls = Suc j, ws_probe_json = probes cfg nm env j \<rparr>"
    by (simp add: state_at_def)
  show ?thesis
    unfolding watch_round_def f probes_classify next_state halts_def stop_at_def Let_def
    by (auto split: option.splits)
qed

lemma watch_loop_from:
  assumes "halts cfg nm deadline env n" "\<forall>i. j \<le> i \<longrightarrow> i < n \<longrightarrow> \<not> halts cfg nm deadline env i" "j \<le> n"
  shows "watch_loop cfg nm deadline env (state_at cfg nm env j) = Some (stop_at cfg nm deadline env n)"
  using assms
proof (induction "n - j" arbitrary: j)
  case 0
  then have "j = n" by simp
  with 0 show ?case by (subst watch_loop.simps) (simp add: watch_round_state_at)
next
  case (Suc d)
  then have "\<not> halts cfg nm deadline env j" "d = n - Suc j" "Suc j \<le> n" by auto
  with Suc show ?case by (subst watch_loop.simps) (simp add: watch_round_state_at)
qed

text \<open>
  C24. If the emulator has exited or the deadline has passed by some round, the poll loop ends by that
  round.  It ends in the first round in which the emulator has exited, the deadline has passed or the
  probe is decisive, with these reasons in this order of precedence, and no earlier round had any of
  them; the number of probes counts the rounds that were probed.
\<close>

theorem watch_loop_terminates:
  assumes "tk_native_rc (env k) \<noteq> None \<or> deadline \<le> tk_now (env k)"
  shows "\<exists>n \<le> k. \<exists>stop. watch_loop cfg nm deadline env watch_start = Some stop \<and> st_round stop = n \<and>
    (\<forall>j < n. tk_native_rc (env j) = None \<and> tk_now (env j) < deadline \<and> \<not> probe_decisive (probes cfg nm env j)) \<and>
    (case tk_native_rc (env n) of
       Some rc \<Rightarrow> st_reason stop = ''qemu-exit'' \<and> st_qemu_rc stop = rc \<and> st_polls stop = n
     | None \<Rightarrow> if deadline \<le> tk_now (env n) then st_reason stop = ''hard-timeout'' \<and> st_polls stop = n
               else probe_decisive (probes cfg nm env n) \<and> st_terminal_probe stop = probes cfg nm env n \<and> st_polls stop = Suc n)"
proof -
  let ?h = "halts cfg nm deadline env"
  define n where "n = (LEAST n. ?h n)"
  have "?h k" using assms by (auto simp: halts_def)
  then have n: "?h n" "n \<le> k" "\<forall>j < n. \<not> ?h j"
    unfolding n_def by (auto intro: LeastI Least_le dest: not_less_Least)
  have start: "watch_start = state_at cfg nm env 0" by (simp add: watch_start_def state_at_def)
  have "watch_loop cfg nm deadline env watch_start = Some (stop_at cfg nm deadline env n)"
    unfolding start using n by (intro watch_loop_from) auto
  moreover have "\<forall>j < n. tk_native_rc (env j) = None \<and> tk_now (env j) < deadline \<and> \<not> probe_decisive (probes cfg nm env j)"
    using n(3) by (auto simp: halts_def not_le)
  ultimately show ?thesis using n(1,2)
    by (intro exI[of _ n] exI[of _ "stop_at cfg nm deadline env n"] conjI)
      (auto simp: stop_at_def Let_def halts_def split: option.splits)
qed

definition demo_env :: "nat \<Rightarrow> tick" where
  "demo_env j = \<lparr> tk_now = 400 * int j, tk_native_rc = None, tk_trace = [], tk_console = [], tk_stop_rc = - 15 \<rparr>"

theorem watch_loop_terminates_witness:
  "\<exists>stop. watch_loop demo_config [] 1000 demo_env watch_start = Some stop \<and> st_round stop \<le> 3"
proof -
  have "tk_native_rc (demo_env 3) \<noteq> None \<or> 1000 \<le> tk_now (demo_env 3)" by (simp add: demo_env_def)
  from watch_loop_terminates[where env = demo_env and k = 3 and cfg = demo_config and nm = "[]", OF this]
  show ?thesis by blast
qed

section \<open>Bounded summaries of the trace\<close>

interpretation watch_lookup: symbol_resolver resolve_pc
  using nearest_symbol.symbol_resolver_axioms unfolding resolve_pc_def[abs_def] .

text \<open>The compressed trace: only the first entry of a run with the same symbol and offset.\<close>

fun compress :: "(string \<times> int) option \<Rightarrow> trace_entry list \<Rightarrow> trace_entry list" where
  "compress k [] = []"
| "compress k (e # es) = (if Some (te_key e) = k then compress k es else e # compress (Some (te_key e)) es)"

lemma last_n_append: "last_n k (last_n k xs @ [x]) = last_n k (xs @ [x])"
proof (cases "length xs \<le> k")
  case True
  then show ?thesis by (simp add: last_n_def)
next
  case False
  then have "Suc (length xs - k) = Suc (length xs) - k" by simp
  moreover have "drop 1 (drop (length xs - k) xs) = drop (Suc (length xs - k)) xs" by simp
  ultimately show ?thesis using False by (simp add: last_n_def)
qed

lemma tail_fold:
  "fst (foldl (tail_step limit) (last_n limit acc, k) es) = last_n limit (acc @ compress k es)"
proof (induction es arbitrary: acc k)
  case (Cons e es)
  show ?case
  proof (cases "Some (te_key e) = k")
    case True
    with Cons show ?thesis by (simp add: tail_step_def)
  next
    case False
    then have "tail_step limit (last_n limit acc, k) e = (last_n limit (acc @ [e]), Some (te_key e))"
      by (simp add: tail_step_def deque_append_def last_n_append)
    with Cons.IH[of "acc @ [e]" "Some (te_key e)"] False show ?thesis by simp
  qed
qed simp

lemma compress_hd: "compress k es = e # r \<Longrightarrow> Some (te_key e) \<noteq> k"
  by (induction es arbitrary: k) (auto split: if_splits)

lemma compress_adjacent: "successively (\<lambda>x y. te_key x \<noteq> te_key y) (compress k es)"
proof (induction es arbitrary: k)
  case (Cons e es)
  have "te_key (hd (compress (Some (te_key e)) es)) \<noteq> te_key e" if "compress (Some (te_key e)) es \<noteq> []"
    using compress_hd[of "Some (te_key e)" es] that by (cases "compress (Some (te_key e)) es") auto
  then show ?case using Cons.IH[of k] Cons.IH[of "Some (te_key e)"]
    by (auto simp: successively_Cons eq_commute[of "te_key e"])
qed simp

lemma compress_last:
  "compress k es = [] \<and> (\<forall>e \<in> set es. Some (te_key e) = k) \<or>
   compress k es \<noteq> [] \<and> te_key (last (compress k es)) = te_key (last es)"
proof (induction es arbitrary: k)
  case (Cons e es)
  from Cons.IH[of k] Cons.IH[of "Some (te_key e)"] show ?case
    by (cases es) (auto split: if_splits dest: last_in_set)
qed simp

lemma successively_drop: "successively P xs \<Longrightarrow> successively P (drop n xs)"
  by (metis append_take_drop_id successively_append_iff)

text \<open>
  The tail reported for a trace is exactly the last \<open>limit\<close> entries of the compressed trace: it is
  never longer than the limit, neighbouring entries differ in symbol or offset, and a non-empty trace
  with a positive limit ends in the tail's last entry.
\<close>

theorem trace_tail_symbols_spec:
  "let es = trace_entries text nm phys_entry; tail = trace_tail_symbols (Some text) nm phys_entry limit in
   tail = last_n limit (compress None es) \<and> length tail \<le> limit \<and>
   successively (\<lambda>x y. te_key x \<noteq> te_key y) tail \<and>
   (if es = [] \<or> limit = 0 then tail = [] else tail \<noteq> [] \<and> te_key (last tail) = te_key (last es))"
proof -
  let ?es = "trace_entries text nm phys_entry"
  have t: "trace_tail_symbols (Some text) nm phys_entry limit = last_n limit (compress None ?es)"
    using tail_fold[of limit "[]" None ?es] by (simp add: trace_tail_symbols_def last_n_def)
  have "successively (\<lambda>x y. te_key x \<noteq> te_key y) (last_n limit (compress None ?es))"
    unfolding last_n_def by (rule successively_drop[OF compress_adjacent])
  moreover have "if ?es = [] \<or> limit = 0 then last_n limit (compress None ?es) = []
      else last_n limit (compress None ?es) \<noteq> [] \<and> te_key (last (last_n limit (compress None ?es))) = te_key (last ?es)"
    using compress_last[of None ?es] by (cases ?es) (auto simp: last_n_def last_drop)
  ultimately show ?thesis by (simp add: t Let_def)
qed

lemma first_target_from_Some:
  "first_target_from limit targets history last_symbol es = Some tg \<Longrightarrow> length history \<le> limit \<Longrightarrow>
   \<exists>pre post. es = pre @ tg_entry tg # post \<and> tg_target tg = te_symbol (tg_entry tg) \<and> tg_target tg \<in> set targets \<and>
     (\<forall>e \<in> set pre. te_symbol e \<notin> set targets) \<and> set (tg_context tg) \<subseteq> set history \<union> set pre \<and> length (tg_context tg) \<le> limit"
proof (induction limit targets history last_symbol es rule: first_target_from.induct)
  case (2 limit targets history last_symbol e es)
  show ?case
  proof (cases "te_symbol e \<in> set targets")
    case True
    with 2(3,4) show ?thesis by (intro exI[of _ "[]"] exI[of _ es]) auto
  next
    case False
    have sub: "set (deque_append limit history e) \<subseteq> insert e (set history)" "length (deque_append limit history e) \<le> limit"
      using set_last_n[of limit "history @ [e]"] by (auto simp: deque_append_def)
    from False 2(3) consider "Some (te_symbol e) \<noteq> last_symbol"
        "first_target_from limit targets (deque_append limit history e) (Some (te_symbol e)) es = Some tg"
      | "Some (te_symbol e) = last_symbol" "first_target_from limit targets history last_symbol es = Some tg"
      by (auto split: if_splits)
    then show ?thesis
    proof cases
      case 1
      from 2(1)[OF False 1 sub(2)] obtain pre post where "es = pre @ tg_entry tg # post"
        "tg_target tg = te_symbol (tg_entry tg)" "tg_target tg \<in> set targets" "\<forall>e \<in> set pre. te_symbol e \<notin> set targets"
        "set (tg_context tg) \<subseteq> set (deque_append limit history e) \<union> set pre" "length (tg_context tg) \<le> limit" by blast
      with False sub(1) show ?thesis by (intro exI[of _ "e # pre"] exI[of _ post]) auto
    next
      case same: 2
      from 2(2)[OF False _ same(2) 2(4)] same(1) obtain pre post where "es = pre @ tg_entry tg # post"
        "tg_target tg = te_symbol (tg_entry tg)" "tg_target tg \<in> set targets" "\<forall>e \<in> set pre. te_symbol e \<notin> set targets"
        "set (tg_context tg) \<subseteq> set history \<union> set pre" "length (tg_context tg) \<le> limit" by blast
      with False show ?thesis by (intro exI[of _ "e # pre"] exI[of _ post]) auto
    qed
  qed
qed simp


lemma first_target_from_None:
  "first_target_from limit targets history last_symbol es = None \<longleftrightarrow> (\<forall>e \<in> set es. te_symbol e \<notin> set targets)"
  by (induction limit targets history last_symbol es rule: first_target_from.induct) auto

text \<open>
  The diagnostic target reported for a trace is the first entry whose symbol is one of the linked
  diagnostic targets; its context holds at most \<open>limit\<close> entries, all of them before it and none of
  them at a target; nothing is reported exactly when no linked target occurs in the trace.
\<close>

theorem trace_first_target_spec:
  "let linked = set names \<inter> fst ` set (snd (snd (load_nm nm))); es = trace_entries text nm phys_entry in
   case trace_first_symbol_context (Some text) nm names phys_entry limit of
     None \<Rightarrow> list_all (\<lambda>e. te_symbol e \<notin> linked) es
   | Some tg \<Rightarrow> \<exists>pre post. es = pre @ tg_entry tg # post \<and>
        tg_target tg = te_symbol (tg_entry tg) \<and> tg_target tg \<in> linked \<and>
        list_all (\<lambda>e. te_symbol e \<notin> linked) pre \<and> set (tg_context tg) \<subseteq> set pre \<and>
        length (tg_context tg) \<le> limit"
proof -
  let ?by = "snd (snd (load_nm nm))" and ?es = "trace_entries text nm phys_entry"
  let ?t = "filter (\<lambda>n. map_of ?by n \<noteq> None) names"
  have t: "set ?t = set names \<inter> fst ` set ?by" by (auto simp: map_of_eq_None_iff)
  have eq: "trace_first_symbol_context (Some text) nm names phys_entry limit =
      (if ?t = [] then None else first_target_from limit ?t [] None ?es)"
    by (simp add: trace_first_symbol_context_def Let_def)
  show ?thesis
  proof (cases "trace_first_symbol_context (Some text) nm names phys_entry limit")
    case None
    then have "\<forall>e \<in> set ?es. te_symbol e \<notin> set ?t"
      using first_target_from_None[of limit ?t "[]" None ?es] eq by (cases "?t = []") (simp_all del: filter_False)
    with None t show ?thesis by (simp add: list_all_iff Let_def)
  next
    case (Some tg)
    with eq have "first_target_from limit ?t [] None ?es = Some tg" by (auto split: if_splits)
    from first_target_from_Some[OF this] obtain pre post where p: "?es = pre @ tg_entry tg # post"
      "tg_target tg = te_symbol (tg_entry tg)" "tg_target tg \<in> set ?t" "\<forall>e \<in> set pre. te_symbol e \<notin> set ?t"
      "set (tg_context tg) \<subseteq> set pre" "length (tg_context tg) \<le> limit" by auto
    from p(3,4) have "tg_target tg \<in> set names \<inter> fst ` set ?by"
      "list_all (\<lambda>e. te_symbol e \<notin> set names \<inter> fst ` set ?by) pre" unfolding t list_all_iff by blast+
    with p(1,2,5,6) show ?thesis unfolding Let_def Some option.case by (intro exI[of _ pre] exI[of _ post] conjI)
  qed
qed

lemma stall_fold:
  fixes limit :: nat and loop_symbols :: "string list"
  defines "run \<equiv> foldl (stall_step limit loop_symbols) stall_start"
  shows "ss_suffix (run es) = length (takeWhile (\<lambda>e. te_symbol e \<in> set loop_symbols) (rev es)) \<and>
   length (ss_history (run es)) \<le> limit \<and> length (ss_candidate (run es)) \<le> limit \<and>
   (\<forall>e \<in> set (ss_history (run es)). te_symbol e \<notin> set loop_symbols) \<and>
   (\<forall>e \<in> set (ss_candidate (run es)). te_symbol e \<notin> set loop_symbols)"
proof (induction es rule: rev_induct)
  case Nil
  then show ?case by (simp add: run_def stall_start_def)
next
  case (snoc e es)
  have step: "run (es @ [e]) = stall_step limit loop_symbols (run es) e" by (simp add: run_def)
  show ?case
  proof (cases "te_symbol e \<in> set loop_symbols")
    case True
    with snoc show ?thesis by (simp add: step stall_step_def)
  next
    case False
    have "set (deque_append limit (ss_history (run es)) e) \<subseteq> insert e (set (ss_history (run es)))"
      using set_last_n[of limit "ss_history (run es) @ [e]"] by (auto simp: deque_append_def)
    then have "\<forall>x \<in> set (deque_append limit (ss_history (run es)) e). te_symbol x \<notin> set loop_symbols"
      using snoc False by blast
    moreover have "length (deque_append limit (ss_history (run es)) e) \<le> limit" by (simp add: deque_append_def)
    ultimately show ?thesis using snoc False by (simp add: step stall_step_def)
  qed
qed

text \<open>
  A stall is reported only when the trace ends in at least the required number of entries whose
  symbols all belong to a loop of one to four symbols taken from the tail; the count is the length of
  that final run, the loop symbols are listed in order, and the context holds at most \<open>limit\<close> entries
  from outside the loop.
\<close>

theorem trace_stall_spec:
  assumes "trace_stall_context (Some text) nm tail phys_entry limit least = Some sl"
  shows "sl_suffix_entries sl =
      length (takeWhile (\<lambda>e. te_symbol e \<in> set (sl_loop_symbols sl)) (rev (trace_entries text nm phys_entry))) \<and>
    least \<le> sl_suffix_entries sl \<and> sorted (sl_loop_symbols sl) \<and> distinct (sl_loop_symbols sl) \<and>
    length (sl_loop_symbols sl) \<in> {1..4} \<and> set (sl_loop_symbols sl) \<subseteq> te_symbol ` set tail \<and>
    length (sl_context sl) \<le> limit \<and> (\<forall>e \<in> set (sl_context sl). te_symbol e \<notin> set (sl_loop_symbols sl))"
proof -
  define l where "l = nub (filter (\<lambda>n. n \<noteq> [] \<and> n \<noteq> ''?'') (map te_symbol tail))"
  let ?s = "foldl (stall_step limit l) stall_start (trace_entries text nm phys_entry)"
  have ld: "distinct l" "set l \<subseteq> te_symbol ` set tail" by (auto simp: l_def)
  from assms[unfolded trace_stall_context_def, folded l_def]
  have sl: "l \<noteq> []" "length l \<le> 4" "least \<le> ss_suffix ?s"
    "sl = \<lparr> sl_loop_symbols = sort l, sl_suffix_entries = ss_suffix ?s, sl_context = ss_candidate ?s \<rparr>"
    by (auto simp: Let_def not_less split: if_splits)
  have "length l \<in> {1..4}" using sl(1,2) by (simp add: Suc_le_eq)
  then show ?thesis using sl(3) stall_fold[of limit l "trace_entries text nm phys_entry"] ld
    unfolding sl(4) by simp
qed

text \<open>A loop of two symbols.\<close>

definition demo_loop_trace :: string where
  "demo_loop_trace = ''0x80200004:\<newline>0x80200000:\<newline>0x80200000:\<newline>''"

theorem trace_stall_spec_witness:
  "\<exists>sl. trace_stall_context (Some demo_loop_trace) ''80200000 T a\<newline>80200004 T b\<newline>''
      [\<lparr> te_pc = 0x80200000, te_lookup = 0x80200000, te_relocated = False, te_symbol = ''a'', te_offset = 0 \<rparr>] 0x80200000 24 2 = Some sl \<and>
     sl_suffix_entries sl = 2 \<and> 2 \<le> sl_suffix_entries sl"
proof -
  let ?m = "trace_stall_context (Some demo_loop_trace) ''80200000 T a\<newline>80200004 T b\<newline>''
      [\<lparr> te_pc = 0x80200000, te_lookup = 0x80200000, te_relocated = False, te_symbol = ''a'', te_offset = 0 \<rparr>] 0x80200000 24 2"
  have "(case ?m of None \<Rightarrow> False | Some sl \<Rightarrow> sl_suffix_entries sl = 2)" by code_simp
  then obtain sl where sl: "?m = Some sl" "sl_suffix_entries sl = 2" by (auto split: option.splits)
  with trace_stall_spec[OF sl(1)] show ?thesis by auto
qed

end
