(* ===== verification/CensusScan.thy ===== *)
theory CensusScan
  imports PyRegex
begin

text \<open>
  The scanner of \<^verbatim>\<open>src/assembler/tools/census.py\<close>: comments, operands and section names, the
  classification of one assembly line, and \<open>census_directory\<close>, which tallies all lines of all files
  of a directory.

  A \<^verbatim>\<open>Counter\<close> is an association list updated by \<^const>\<open>bump\<close>, the dictionary of counters an
  association list of those under the names of the source, a set of features a list without
  duplicates; a directory is the list of its regular files, each with the components of its relative
  path and its text.  The order in which Python iterates over the small set of expression features is
  left open by the language; it does not reach a report, whose counters and features are sorted, and
  the model uses the order of insertion.  Progress lines and times are not modelled.

  Shown here: comment stripping against the scan it shortcuts, and the conservation laws of the
  tallies, as an invariant of one scanned line that every loop around it keeps.
\<close>

section \<open>Lexical helpers\<close>

definition KNOWN_PSEUDOS :: "string list" where
  [py_defs]: "KNOWN_PSEUDOS =
     [''beqz'', ''bgez'', ''bgt'', ''bgtu'', ''bgtz'', ''ble'', ''bleu'', ''blez'', ''bltz'',
      ''bnez'', ''call'', ''j'', ''jr'', ''la'', ''lla'', ''li'', ''mv'', ''neg'', ''negw'',
      ''nop'', ''not'', ''ret'', ''seqz'', ''sext.b'', ''sext.h'', ''sext.w'', ''sgtz'',
      ''sltz'', ''snez'', ''tail'', ''zext.b'', ''zext.h'', ''zext.w'']"

definition DIRECT_SECTION_DIRECTIVES :: "string list" where
  [py_defs]: "DIRECT_SECTION_DIRECTIVES = [''.text'', ''.data'', ''.bss'', ''.rodata'', ''.sdata'', ''.sbss'']"

definition SECTION_DIRECTIVES :: "string list" where
  [py_defs]: "SECTION_DIRECTIVES = [''.section'', ''.pushsection'']"

definition EXAMPLE_LIMIT :: nat where
  [py_defs]: "EXAMPLE_LIMIT = 4"

definition sym_start :: "char \<Rightarrow> bool" where
  [py_defs]: "sym_start c = (c \<in> set ''.$_'' \<or> is_alpha c)"

definition sym_char :: "char \<Rightarrow> bool" where
  [py_defs]: "sym_char c = (sym_start c \<or> is_digit c)"

definition ident_start :: "char \<Rightarrow> bool" where
  [py_defs]: "ident_start c = (c = CHR ''_'' \<or> is_alpha c)"

definition ident_char :: "char \<Rightarrow> bool" where
  [py_defs]: "ident_char c = (ident_start c \<or> is_digit c)"

abbreviation RWs :: re where "RWs \<equiv> RStar (RSet is_ws)"

definition SYMBOL :: re where
  [py_defs]: "SYMBOL = RSeq (RSet sym_start) (RStar (RSet sym_char))"

definition LABEL_RE :: re where
  [py_defs]: "LABEL_RE = RSeqs [RBol, RWs, RAlt SYMBOL (RPlus (RSet is_digit)), RLit '':'', RWs]"

definition DIRECTIVE_RE :: re where
  [py_defs]: "DIRECTIVE_RE = RSeqs [RBol, RWs,
     RGroup 1 (RSeqs [RLit ''.'', RSet ident_char, RStar (RSet (\<lambda>c. ident_char c \<or> c = CHR ''.''))]),
     RBound, RGroup 2 (RStar (RSet dot)), REol]"

definition MNEMONIC_RE :: re where
  [py_defs]: "MNEMONIC_RE = RSeqs [RBol, RWs,
     RGroup 1 (RSeq (RSet is_alpha) (RStar (RSet (\<lambda>c. ident_char c \<or> c = CHR ''.'')))),
     RBound, RGroup 2 (RStar (RSet dot)), REol]"

definition RELOC_RE :: re where
  [py_defs]: "RELOC_RE = RSeqs [RLit ''%'', RGroup 1 (RSeq (RSet ident_start) (RStar (RSet ident_char))), RWs, RLit ''('']"

definition AT_SUFFIX_RE :: re where
  [py_defs]: "AT_SUFFIX_RE = RSeq (RLit ''@'') (RGroup 1 (RSeq (RSet ident_start) (RStar (RSet ident_char))))"

definition NUMERIC_LOCAL_RE :: re where
  [py_defs]: "NUMERIC_LOCAL_RE = RSeqs [RNotBehind ident_char, RPlus (RSet is_digit),
     RSet (\<lambda>c. c \<in> set ''fb''), RNotAhead ident_char]"

definition SYMBOL_DIFF_RE :: re where
  [py_defs]: "SYMBOL_DIFF_RE = RSeqs [SYMBOL, RWs, RLit ''-'', RWs, SYMBOL]"

definition SYMBOL_ADDEND_RE :: re where
  [py_defs]: "SYMBOL_ADDEND_RE = RSeqs [SYMBOL, RWs, RSet (\<lambda>c. c \<in> set ''+-''), RWs,
     RAlt (RSeqs [RLit ''0'', RSet (\<lambda>c. c \<in> set ''xX''), RPlus (RSet is_hex)]) (RPlus (RSet is_digit))]"

definition DOT_EXPR_RE :: re where
  [py_defs]: "DOT_EXPR_RE = RSeqs [RAlt RBol (RSet (\<lambda>c. c = CHR '','' \<or> is_ws c)), RLit ''.'', RWs, RSet (\<lambda>c. c \<in> set ''+-'')]"

text \<open>The state of the character loops: inside an escape, and the quote that is open.\<close>

fun strip_comment_loop :: "bool \<Rightarrow> char option \<Rightarrow> string \<Rightarrow> string" where
  "strip_comment_loop escaped qt [] = []"
| "strip_comment_loop escaped qt (ch # cs) =
     (if escaped then ch # strip_comment_loop False qt cs
      else if ch = CHR 0x5C then ch # strip_comment_loop True qt cs
      else if qt \<noteq> None then ch # strip_comment_loop False (if Some ch = qt then None else qt) cs
      else if ch = CHR 0x22 \<or> ch = CHR 0x27 then ch # strip_comment_loop False (Some ch) cs
      else if ch = CHR ''#'' then []
      else ch # strip_comment_loop False None cs)"

definition strip_comment :: "string \<Rightarrow> string" where
  [py_defs]: "strip_comment line = (if CHR ''#'' \<notin> set line then line else strip_comment_loop False None line)"

text \<open>The loop of \<^verbatim>\<open>first_operand\<close> returns the index of the first comma outside quotes.\<close>

fun first_comma :: "bool \<Rightarrow> char option \<Rightarrow> nat \<Rightarrow> string \<Rightarrow> nat option" where
  "first_comma escaped qt i [] = None"
| "first_comma escaped qt i (ch # cs) =
     (if escaped then first_comma False qt (Suc i) cs
      else if ch = CHR 0x5C then first_comma True qt (Suc i) cs
      else if qt \<noteq> None then first_comma False (if Some ch = qt then None else qt) (Suc i) cs
      else if ch = CHR 0x22 \<or> ch = CHR 0x27 then first_comma False (Some ch) (Suc i) cs
      else if ch = CHR '','' then Some i
      else first_comma False None (Suc i) cs)"

definition first_operand :: "string \<Rightarrow> string" where
  [py_defs]: "first_operand text0 =
     (let text = strip text0 in
      if text = [] then []
      else case first_comma False None 0 text of
        Some i \<Rightarrow> strip (take i text)
      | None \<Rightarrow> strip text)"

definition normalize_section_name :: "string \<Rightarrow> string" where
  [py_defs]: "normalize_section_name raw0 =
     (let raw1 = strip raw0;
          raw = (if length raw1 \<ge> 2 \<and> hd raw1 = CHR 0x22 \<and> last raw1 = CHR 0x22 then tl (butlast raw1) else raw1)
      in if raw = [] then ''<empty>'' else raw)"

definition SECTION_PREFIXES :: "string list" where
  [py_defs]: "SECTION_PREFIXES =
     [''.text'', ''.rodata'', ''.data'', ''.bss'', ''.sdata'', ''.sbss'',
      ''.init'', ''.exit'', ''.discard'', ''.debug'', ''.note'']"

fun section_family_from :: "string list \<Rightarrow> string \<Rightarrow> string" where
  "section_family_from [] sec = ''<custom-section>''"
| "section_family_from (prefix # prefixes) sec =
     (if sec = prefix then prefix
      else if startswith sec (prefix @ ''.'') then prefix @ ''.*''
      else section_family_from prefixes sec)"

definition section_family :: "string \<Rightarrow> string" where
  [py_defs]: "section_family sec = section_family_from SECTION_PREFIXES sec"

definition expression_features :: "string \<Rightarrow> string list" where
  [py_defs]: "expression_features text =
     (if CHR ''%'' \<in> set text \<and> re_search RELOC_RE text \<noteq> None then [''expr:reloc-function''] else []) @
     (if (CHR ''f'' \<in> set text \<or> CHR ''b'' \<in> set text) \<and> re_search NUMERIC_LOCAL_RE text \<noteq> None
      then [''expr:numeric-local-ref''] else []) @
     (if CHR ''-'' \<in> set text \<and> re_search SYMBOL_DIFF_RE text \<noteq> None then [''expr:symbol-difference''] else []) @
     (if (CHR ''+'' \<in> set text \<or> CHR ''-'' \<in> set text) \<and> re_search SYMBOL_ADDEND_RE text \<noteq> None
      then [''expr:symbol-addend''] else []) @
     (if CHR ''.'' \<in> set text \<and> (CHR ''+'' \<in> set text \<or> CHR ''-'' \<in> set text) \<and> re_search DOT_EXPR_RE text \<noteq> None
      then [''expr:dot-relative''] else []) @
     (if CHR ''('' \<in> set text \<and> CHR '')'' \<in> set text then [''expr:parenthesized''] else [])"

section \<open>Tallies\<close>

record example =
  ex_file :: string
  ex_line :: int
  ex_text :: string

type_synonym counters = "(string \<times> (string \<times> int) list) list"

definition add_example :: "(string \<times> example list) list \<Rightarrow> string \<Rightarrow> string \<Rightarrow> int \<Rightarrow> string \<Rightarrow> (string \<times> example list) list" where
  [py_defs]: "add_example examples feature file_key line_no text =
     (let examples' = setdefault feature [] examples;
          bucket = the (map_of examples' feature) in
      if length bucket \<ge> EXAMPLE_LIMIT then examples'
      else AList.update feature (bucket @ [\<lparr> ex_file = file_key, ex_line = line_no, ex_text = rstrip text \<rparr>]) examples')"

definition COUNTERS :: "string list" where
  [py_defs]: "COUNTERS = [''mnemonics'', ''directives'', ''pseudos'', ''relocations'', ''at_suffixes'',
     ''sections'', ''options'', ''cfi_directives'', ''expression_forms'', ''feature_occurrences'']"

definition empty_counters :: counters where
  [py_defs]: "empty_counters = map (\<lambda>k. (k, [])) COUNTERS"

text \<open>\<^verbatim>\<open>counters[name][item] += 1\<close> for one of the names above.\<close>

definition tick_counter :: "string \<Rightarrow> string \<Rightarrow> counters \<Rightarrow> counters" where
  [py_defs]: "tick_counter name item cs = map (\<lambda>(k, c). (k, if k = name then bump item 1 c else c)) cs"

record scan =
  sc_counters :: counters
  sc_stats :: "(string \<times> int) list"
  sc_features :: "string list"
  sc_examples :: "(string \<times> example list) list"

definition count_stat :: "string \<Rightarrow> scan \<Rightarrow> scan" where
  [py_defs]: "count_stat name s = s\<lparr>sc_stats := bump name 1 (sc_stats s)\<rparr>"

text \<open>
  The four statements by which the scanner records a feature, after the tick of the specific
  counter, if there is one.
\<close>

definition record_feature :: "string \<times> int \<times> string \<Rightarrow> string \<Rightarrow> scan \<Rightarrow> scan" where
  [py_defs]: "record_feature here feature s =
     (case here of (file_key, line_no, raw_line) \<Rightarrow>
        s\<lparr>sc_counters := tick_counter ''feature_occurrences'' feature (sc_counters s),
          sc_features := List.insert feature (sc_features s),
          sc_examples := add_example (sc_examples s) feature file_key line_no raw_line\<rparr>)"

definition record_item :: "string \<times> int \<times> string \<Rightarrow> string \<Rightarrow> string \<Rightarrow> string \<Rightarrow> scan \<Rightarrow> scan" where
  [py_defs]: "record_item here name item feature s =
     record_feature here feature (s\<lparr>sc_counters := tick_counter name item (sc_counters s)\<rparr>)"

section \<open>One line\<close>

lemma lstrip_length: "length (lstrip s) \<le> length s"
  by (simp add: lstrip_def length_dropWhile_le)

text \<open>Labels before the statement: \<^verbatim>\<open>while LABEL_RE.match(text)\<close>.\<close>

function strip_labels :: "bool \<Rightarrow> string \<Rightarrow> bool \<times> string" where
  "strip_labels had text =
     (case re_match LABEL_RE text of
        None \<Rightarrow> (had, text)
      | Some m \<Rightarrow> strip_labels True (lstrip (drop (rm_end m) text)))"
  by pat_completeness auto

termination
proof (relation "measure (\<lambda>(had, text). length text)")
  fix had :: bool and tx m assume "re_match LABEL_RE tx = Some m"
  from re_match_shrinks[OF this] have "length (drop (rm_end m) tx) < length tx"
    by (simp add: LABEL_RE_def SYMBOL_def RPlus_def)
  then show "((True, lstrip (drop (rm_end m) tx)), (had, tx)) \<in> measure (\<lambda>(had, t). length t)"
    using lstrip_length[of "drop (rm_end m) tx"] by simp
qed simp

declare strip_labels.simps [simp del]

definition scan_section :: "string \<times> int \<times> string \<Rightarrow> string \<Rightarrow> string \<Rightarrow> scan \<Rightarrow> scan" where
  [py_defs]: "scan_section here directive operands s =
     (if directive \<in> set DIRECT_SECTION_DIRECTIVES
      then record_item here ''sections'' directive (''section-family:'' @ section_family directive) s
      else if directive \<in> set SECTION_DIRECTIVES
      then let sec = normalize_section_name (first_operand operands) in
        record_item here ''sections'' sec (''section-family:'' @ section_family sec) s
      else s)"

definition scan_directive :: "string \<times> int \<times> string \<Rightarrow> string \<Rightarrow> string \<Rightarrow> scan \<Rightarrow> scan" where
  [py_defs]: "scan_directive here directive operands s0 =
     (let s1 = record_item here ''directives'' directive (''directive:'' @ directive) (count_stat ''directive_lines'' s0);
          s2 = scan_section here directive operands s1;
          s3 = (if directive = ''.option''
                then let opt = (if first_operand operands \<noteq> [] then hd (split_ws (first_operand operands)) else ''<empty>'')
                  in record_item here ''options'' opt (''option:'' @ opt) s2
                else s2)
      in if startswith directive ''.cfi_''
         then record_item here ''cfi_directives'' directive (''cfi:'' @ directive) s3 else s3)"

definition scan_mnemonic :: "string \<times> int \<times> string \<Rightarrow> string \<Rightarrow> scan \<Rightarrow> scan" where
  [py_defs]: "scan_mnemonic here mnemonic s0 =
     (let s1 = record_item here ''mnemonics'' mnemonic (''insn:'' @ mnemonic) (count_stat ''instruction_lines'' s0)
      in if mnemonic \<in> set KNOWN_PSEUDOS
         then record_item here ''pseudos'' mnemonic (''pseudo:'' @ mnemonic) s1 else s1)"

definition scan_operands :: "string \<times> int \<times> string \<Rightarrow> string \<Rightarrow> scan \<Rightarrow> scan" where
  [py_defs]: "scan_operands here text s0 =
     (let relocs = (if CHR ''%'' \<in> set text then map (\<lambda>m. group m 1) (finditer RELOC_RE text) else []);
          s1 = foldl (\<lambda>s reloc. record_item here ''relocations'' reloc (''reloc:'' @ reloc) s) s0 relocs;
          suffixes = (if CHR ''@'' \<in> set text then map (\<lambda>m. group m 1) (finditer AT_SUFFIX_RE text) else []);
          s2 = foldl (\<lambda>s suffix. record_item here ''at_suffixes'' suffix (''at:'' @ suffix) s) s1 suffixes
      in foldl (\<lambda>s feature. case split1 CHR '':'' feature of
                    Some (p, name) \<Rightarrow> record_item here ''expression_forms'' name feature s
                  | None \<Rightarrow> s) s2 (expression_features text))"

definition scan_statement :: "string \<times> int \<times> string \<Rightarrow> string \<Rightarrow> scan \<Rightarrow> scan" where
  [py_defs]: "scan_statement here text s0 =
     (let s = scan_operands here text s0 in
      case re_match DIRECTIVE_RE text of
        Some m \<Rightarrow> scan_directive here (group m 1) (strip (group m 2)) s
      | None \<Rightarrow>
        (case re_match MNEMONIC_RE text of
           Some m \<Rightarrow> scan_mnemonic here (group m 1) s
         | None \<Rightarrow> record_feature here ''syntax:unclassified'' (count_stat ''unclassified_lines'' s)))"

definition scan_line :: "string \<Rightarrow> scan \<Rightarrow> int \<times> string \<Rightarrow> scan" where
  [py_defs]: "scan_line file_key s0 nl =
     (case nl of (line_no, raw_line) \<Rightarrow>
        let text0 = strip (strip_comment raw_line) in
        if text0 = [] then s0
        else
          let s1 = count_stat ''nonempty_lines'' s0; (had_label, text) = strip_labels False text0;
              s2 = (if had_label then count_stat ''label_lines'' s1 else s1) in
          if had_label \<and> text = [] then s2
          else scan_statement (file_key, line_no, raw_line) text s2)"

section \<open>One directory\<close>

record census =
  cs_counters :: counters
  cs_examples :: "(string \<times> example list) list"
  cs_file_features :: "(string \<times> string list) list"
  cs_files :: "(string \<times> (string \<times> int) list) list"
  cs_scalar :: "(string \<times> int) list"

definition enumerate1 :: "'a list \<Rightarrow> (int \<times> 'a) list" where
  [py_defs]: "enumerate1 xs = zip (map int [1..<Suc (length xs)]) xs"

text \<open>\<^verbatim>\<open>Counter.update\<close> with another counter adds the counts.\<close>

definition counter_update :: "(string \<times> int) list \<Rightarrow> (string \<times> int) list \<Rightarrow> (string \<times> int) list" where
  [py_defs]: "counter_update c d = foldl (\<lambda>acc (k, n). bump k n acc) c d"

definition file_key_of :: "string \<Rightarrow> string list \<Rightarrow> string" where
  [py_defs]: "file_key_of label parts =
     (let rel = join ''/'' parts in if label \<noteq> [] then label @ '':'' @ rel else rel)"

definition scan_file :: "string \<Rightarrow> census \<Rightarrow> string list \<times> string \<Rightarrow> census" where
  [py_defs]: "scan_file label c file =
     (case file of (parts, content) \<Rightarrow>
        let file_key = file_key_of label parts; raw_lines = splitlines content;
            s = foldl (scan_line file_key)
                  \<lparr> sc_counters = cs_counters c, sc_stats = [(''physical_lines'', int (length raw_lines))],
                    sc_features = [], sc_examples = cs_examples c \<rparr> (enumerate1 raw_lines)
        in \<lparr> cs_counters = sc_counters s, cs_examples = sc_examples s,
             cs_file_features = AList.update file_key (sort (sc_features s)) (cs_file_features c),
             cs_files = AList.update file_key (sort_key fst (sc_stats s)) (cs_files c),
             cs_scalar = counter_update (cs_scalar c) (sc_stats s) \<rparr>)"

definition assembly_files :: "(string list \<times> string) list \<Rightarrow> (string list \<times> string) list" where
  [py_defs]: "assembly_files files = sort_key fst (filter (\<lambda>(parts, content). parts \<noteq> [] \<and> endswith (last parts) ''.s'') files)"

definition empty_census :: census where
  [py_defs]: "empty_census = \<lparr> cs_counters = empty_counters, cs_examples = [], cs_file_features = [], cs_files = [], cs_scalar = [] \<rparr>"

definition SCALARS :: "string list" where
  [py_defs]: "SCALARS = [''physical_lines'', ''nonempty_lines'', ''label_lines'', ''instruction_lines'',
     ''directive_lines'', ''unclassified_lines'']"

definition sorted_counter :: "(string \<times> int) list \<Rightarrow> (string \<times> int) list" where
  [py_defs]: "sorted_counter counter = sort_key (\<lambda>(k, n). (- n, k)) counter"

text \<open>A report; its totals are the scalar values and the counters, in the order of \<^verbatim>\<open>empty_totals\<close>.\<close>

record report =
  rp_label :: string
  rp_root :: string
  rp_scalars :: "(string \<times> int) list"
  rp_counters :: counters
  rp_files :: "(string \<times> (string \<times> int) list) list"
  rp_features :: "(string \<times> string list) list"
  rp_examples :: "(string \<times> example list) list"
  rp_sources :: "(string \<times> int) list"

definition census_directory :: "(string list \<times> string) list \<Rightarrow> string \<Rightarrow> string \<Rightarrow> report" where
  [py_defs]: "census_directory files root label =
     (let fs = assembly_files files; c = foldl (scan_file label) empty_census fs in
      \<lparr> rp_label = label, rp_root = root,
        rp_scalars = (''files'', int (length fs)) # map (\<lambda>k. (k, count_of (cs_scalar c) k)) SCALARS,
        rp_counters = map (\<lambda>(k, n). (k, sorted_counter n)) (cs_counters c),
        rp_files = cs_files c, rp_features = cs_file_features c, rp_examples = cs_examples c,
        rp_sources = [(label, int (length fs))] \<rparr>)"

section \<open>Conservation\<close>

definition wf_counters :: "counters \<Rightarrow> bool" where
  "wf_counters cs \<longleftrightarrow> keys cs = COUNTERS \<and> list_all (\<lambda>(k, c). distinct (keys c)) cs"

definition tot :: "string \<Rightarrow> counters \<Rightarrow> int" where
  "tot k cs = (case map_of cs k of None \<Rightarrow> 0 | Some c \<Rightarrow> sum_list (map snd c))"

lemma tick_counter_wf: "wf_counters cs \<Longrightarrow> wf_counters (tick_counter name item cs)"
  by (auto simp: wf_counters_def tick_counter_def list_all_iff distinct_bump comp_def case_prod_unfold)

lemma map_of_tick_counter:
  "map_of (tick_counter name item cs) k = map_option (\<lambda>c. if k = name then bump item 1 c else c) (map_of cs k)"
  by (induction cs) (auto simp: tick_counter_def)

lemma tot_tick_counter:
  assumes "wf_counters cs" and "name \<in> set COUNTERS"
  shows "tot k (tick_counter name item cs) = tot k cs + of_bool (k = name)"
proof (cases "map_of cs k")
  case None
  then have "k \<notin> set (keys cs)" by (simp add: map_of_eq_None_iff)
  with assms have "k \<noteq> name" by (auto simp: wf_counters_def)
  with None show ?thesis by (simp add: tot_def map_of_tick_counter)
next
  case (Some c)
  then have "distinct (keys c)" using assms(1) by (auto simp: wf_counters_def list_all_iff dest!: map_of_SomeD)
  with Some show ?thesis by (simp add: tot_def map_of_tick_counter sum_count_bump)
qed

text \<open>
  The laws a tally keeps with the line counts \<open>st\<close> of all files up to now: every instruction line has
  one mnemonic, every directive line one directive, and every recorded feature belongs to exactly one
  entry of a specific counter or to one unclassified line.
\<close>

definition balanced :: "counters \<Rightarrow> (string \<Rightarrow> int) \<Rightarrow> bool" where
  "balanced cs st \<longleftrightarrow> wf_counters cs \<and> tot ''mnemonics'' cs = st ''instruction_lines'' \<and>
     tot ''directives'' cs = st ''directive_lines'' \<and>
     tot ''feature_occurrences'' cs = (\<Sum>k \<leftarrow> butlast COUNTERS. tot k cs) + st ''unclassified_lines'' \<and>
     tot ''pseudos'' cs \<le> tot ''mnemonics'' cs \<and> tot ''cfi_directives'' cs \<le> tot ''directives'' cs"

definition stat :: "(string \<Rightarrow> int) \<Rightarrow> scan \<Rightarrow> string \<Rightarrow> int" where
  "stat b s k = b k + count_of (sc_stats s) k"

definition scan_ok :: "(string \<Rightarrow> int) \<Rightarrow> scan \<Rightarrow> bool" where
  "scan_ok b s \<longleftrightarrow> balanced (sc_counters s) (stat b s) \<and> distinct (keys (sc_stats s))"

lemma distinct_count_stat: "distinct (keys (sc_stats s)) \<Longrightarrow> distinct (keys (sc_stats (count_stat n s)))"
  by (simp add: count_stat_def distinct_bump)

lemma record_item_simps [simp]:
  "sc_stats (record_item here name item feature s) = sc_stats s"
  "sc_stats (record_feature here feature s) = sc_stats s"
  "sc_counters (record_feature here feature s) = tick_counter ''feature_occurrences'' feature (sc_counters s)"
  "sc_counters (record_item here name item feature s) =
     tick_counter ''feature_occurrences'' feature (tick_counter name item (sc_counters s))"
  "sc_counters (count_stat n s) = sc_counters s"
  "count_of (sc_stats (count_stat n s)) k = count_of (sc_stats s) k + of_bool (k = n)"
  by (simp_all add: record_item_def record_feature_def count_stat_def case_prod_unfold)

lemmas tally_simps = tick_counter_wf tot_tick_counter COUNTERS_def distinct_count_stat

lemma record_item_ok:
  assumes "scan_ok b s" and "name \<in> set [''relocations'', ''at_suffixes'', ''sections'', ''options'', ''expression_forms'']"
  shows "scan_ok b (record_item here name item feature s)"
  using assms by (auto simp: scan_ok_def balanced_def stat_def tally_simps)

lemma scan_operands_ok:
  assumes "scan_ok b s"
  shows "scan_ok b (scan_operands here tx s) \<and> sc_stats (scan_operands here tx s) = sc_stats s"
proof -
  let ?P = "\<lambda>t. scan_ok b t \<and> sc_stats t = sc_stats s"
  have fold: "?P (foldl f t xs)" if "?P t" "\<And>t x. ?P t \<Longrightarrow> ?P (f t x)" for f :: "scan \<Rightarrow> string \<Rightarrow> scan" and t xs
    using that by (induction xs arbitrary: t) auto
  have 1: "?P (foldl (\<lambda>s r. record_item here ''relocations'' r (''reloc:'' @ r) s) s xs)" for xs
    by (rule fold) (use assms record_item_ok in auto)
  have 2: "?P (foldl (\<lambda>s r. record_item here ''at_suffixes'' r (''at:'' @ r) s) t xs)" if "?P t" for t xs
    by (rule fold) (use that record_item_ok in auto)
  have 3: "?P (foldl (\<lambda>s f. case split1 CHR '':'' f of Some (p, n) \<Rightarrow> record_item here ''expression_forms'' n f s | None \<Rightarrow> s) t xs)"
    if "?P t" for t xs
    by (rule fold) (use that record_item_ok in \<open>auto split: option.splits\<close>)
  show ?thesis unfolding scan_operands_def Let_def by (intro 3 2 1)
qed

lemma scan_mnemonic_ok:
  assumes "scan_ok b s"
  shows "scan_ok b (scan_mnemonic here m s)"
  using assms by (auto simp: scan_mnemonic_def Let_def scan_ok_def balanced_def stat_def tally_simps)

lemma scan_directive_ok:
  assumes "scan_ok b s"
  shows "scan_ok b (scan_directive here d a s)"
proof -
  define s1 where "s1 = record_item here ''directives'' d (''directive:'' @ d) (count_stat ''directive_lines'' s)"
  have s1: "scan_ok b s1" "tot ''cfi_directives'' (sc_counters s1) + 1 \<le> tot ''directives'' (sc_counters s1)"
    using assms by (auto simp: s1_def scan_ok_def balanced_def stat_def tally_simps)
  define P where "P = (\<lambda>t. scan_ok b t \<and> tot ''cfi_directives'' (sc_counters t) + 1 \<le> tot ''directives'' (sc_counters t))"
  have item: "P (record_item here n i f t)" if "P t" "n \<in> set [''sections'', ''options'']" for n i f t
  proof -
    from that have "wf_counters (sc_counters t)" by (simp add: P_def scan_ok_def balanced_def)
    then show ?thesis using that record_item_ok[of b t n here i f] by (auto simp: P_def tally_simps)
  qed
  have s2: "P (scan_section here d a s1)" using s1 item by (auto simp: scan_section_def Let_def P_def)
  define s3 where "s3 = (if d = ''.option''
       then let opt = (if first_operand a \<noteq> [] then hd (split_ws (first_operand a)) else ''<empty>'')
         in record_item here ''options'' opt (''option:'' @ opt) (scan_section here d a s1)
       else scan_section here d a s1)"
  have s3: "P s3" using s2 item unfolding s3_def Let_def by auto
  have eq: "scan_directive here d a s = (if startswith d ''.cfi_''
       then record_item here ''cfi_directives'' d (''cfi:'' @ d) s3 else s3)"
    by (simp only: scan_directive_def s1_def s3_def Let_def)
  show ?thesis using s3 unfolding eq
    by (auto simp: P_def scan_ok_def balanced_def stat_def tally_simps)
qed

lemma scan_directive_stats [simp]:
  "count_of (sc_stats (scan_directive here d a s)) k = count_of (sc_stats s) k + of_bool (k = ''directive_lines'')"
  "count_of (sc_stats (scan_mnemonic here m s)) k = count_of (sc_stats s) k + of_bool (k = ''instruction_lines'')"
  by (simp_all add: scan_directive_def scan_section_def scan_mnemonic_def Let_def)

definition stmts :: "(string \<times> int) list \<Rightarrow> int" where
  "stmts st = count_of st ''instruction_lines'' + count_of st ''directive_lines'' + count_of st ''unclassified_lines''"

lemma scan_statement_ok:
  assumes "scan_ok b s"
  shows "scan_ok b (scan_statement here tx s)" and "stmts (sc_stats (scan_statement here tx s)) = stmts (sc_stats s) + 1"
    and "k \<notin> set [''instruction_lines'', ''directive_lines'', ''unclassified_lines''] \<Longrightarrow>
      count_of (sc_stats (scan_statement here tx s)) k = count_of (sc_stats s) k"
proof -
  note ops = scan_operands_ok[OF assms, of here tx]
  have "scan_ok b (record_feature here f (count_stat ''unclassified_lines'' t))" if "scan_ok b t" for f t
    using that by (auto simp: scan_ok_def balanced_def stat_def tally_simps)
  then show "scan_ok b (scan_statement here tx s)" using ops scan_directive_ok scan_mnemonic_ok
    by (auto simp: scan_statement_def Let_def split: option.splits)
  show "stmts (sc_stats (scan_statement here tx s)) = stmts (sc_stats s) + 1"
    using ops by (auto simp: scan_statement_def Let_def stmts_def split: option.splits)
  show "k \<notin> set [''instruction_lines'', ''directive_lines'', ''unclassified_lines''] \<Longrightarrow>
      count_of (sc_stats (scan_statement here tx s)) k = count_of (sc_stats s) k"
    using ops by (auto simp: scan_statement_def Let_def split: option.splits)
qed

text \<open>The relations between the line counts of a file after \<open>n\<close> of its lines.\<close>

definition lines_ok :: "int \<Rightarrow> (string \<times> int) list \<Rightarrow> bool" where
  "lines_ok n st \<longleftrightarrow> stmts st \<le> count_of st ''nonempty_lines'' \<and>
     count_of st ''nonempty_lines'' \<le> stmts st + count_of st ''label_lines'' \<and>
     count_of st ''label_lines'' \<le> count_of st ''nonempty_lines'' \<and> count_of st ''nonempty_lines'' \<le> n"

lemma count_stat_ok: "n \<in> set [''nonempty_lines'', ''label_lines''] \<Longrightarrow> scan_ok b s \<Longrightarrow> scan_ok b (count_stat n s)"
  by (auto simp: scan_ok_def balanced_def stat_def distinct_count_stat)

lemma scan_line_ok:
  assumes "scan_ok b s" and "lines_ok n (sc_stats s)"
  shows "scan_ok b (scan_line key s nl)" and "lines_ok (n + 1) (sc_stats (scan_line key s nl))"
    and "count_of (sc_stats (scan_line key s nl)) ''physical_lines'' = count_of (sc_stats s) ''physical_lines''"
proof -
  obtain i raw where nl: "nl = (i, raw)" by (cases nl)
  define t0 where "t0 = strip (strip_comment raw)"
  obtain had tx where lab: "strip_labels False t0 = (had, tx)" by (cases "strip_labels False t0")
  define s2 where "s2 = (if had then count_stat ''label_lines'' (count_stat ''nonempty_lines'' s) else count_stat ''nonempty_lines'' s)"
  have s2: "scan_ok b s2" using assms(1) by (simp add: s2_def count_stat_ok)
  have eq: "scan_line key s nl = (if t0 = [] then s else if had \<and> tx = [] then s2 else scan_statement (key, i, raw) tx s2)"
    by (simp add: scan_line_def nl Let_def lab s2_def flip: t0_def)
  note st = scan_statement_ok[OF s2, where here = "(key, i, raw)" and tx = tx]
  show "scan_ok b (scan_line key s nl)" using assms(1) s2 st(1) by (simp add: eq)
  show "count_of (sc_stats (scan_line key s nl)) ''physical_lines'' = count_of (sc_stats s) ''physical_lines''"
    using st(3)[where k = "''physical_lines''"] by (simp add: eq s2_def)
  have "stmts (sc_stats s2) = stmts (sc_stats s)" by (simp add: s2_def stmts_def)
  then show "lines_ok (n + 1) (sc_stats (scan_line key s nl))"
    using assms(2) st(2) st(3)[where k = "''nonempty_lines''"] st(3)[where k = "''label_lines''"]
    by (auto simp: eq lines_ok_def s2_def)
qed

lemma scan_lines_ok:
  assumes "scan_ok b s" and "lines_ok n (sc_stats s)"
  shows "scan_ok b (foldl (scan_line key) s ls) \<and> lines_ok (n + int (length ls)) (sc_stats (foldl (scan_line key) s ls)) \<and>
    count_of (sc_stats (foldl (scan_line key) s ls)) ''physical_lines'' = count_of (sc_stats s) ''physical_lines''"
  using assms
proof (induction ls arbitrary: s n)
  case (Cons l ls)
  from scan_line_ok[OF Cons.prems, of key l] Cons.IH[of "scan_line key s l" "n + 1"]
  show ?case by (simp add: algebra_simps)
qed simp

lemma counter_update_count:
  "distinct (keys d) \<Longrightarrow> count_of (counter_update c d) k = count_of c k + count_of d k"
proof (induction d arbitrary: c)
  case (Cons x d)
  obtain a n where [simp]: "x = (a, n)" by (cases x)
  from Cons.prems have "map_of d a = None" by (simp add: map_of_eq_None_iff)
  then have "count_of (x # d) k = count_of d k + (if k = a then n else 0)" by (simp add: count_of_def)
  with Cons show ?case by (simp add: counter_update_def)
qed (simp add: counter_update_def count_of_def)

text \<open>The laws for a directory: those of a scan, with the counts summed over the files scanned.\<close>

definition census_ok :: "census \<Rightarrow> bool" where
  "census_ok c \<longleftrightarrow> balanced (cs_counters c) (count_of (cs_scalar c)) \<and>
     lines_ok (count_of (cs_scalar c) ''physical_lines'') (cs_scalar c)"

lemma length_enumerate1 [simp]: "length (enumerate1 xs) = length xs"
  by (simp add: enumerate1_def del: upt_Suc)

lemma scan_file_ok:
  assumes "census_ok c"
  shows "census_ok (scan_file label c fl)"
proof -
  obtain parts content where f0: "fl = (parts, content)" by (cases fl)
  define key where "key = file_key_of label parts"
  define s0 where "s0 = \<lparr> sc_counters = cs_counters c, sc_stats = [(''physical_lines'', int (length (splitlines content)))],
      sc_features = [], sc_examples = cs_examples c \<rparr>"
  define s where "s = foldl (scan_line key) s0 (enumerate1 (splitlines content))"
  have "scan_ok (count_of (cs_scalar c)) s0" "lines_ok 0 (sc_stats s0)"
    using assms by (auto simp: s0_def scan_ok_def census_ok_def balanced_def stat_def lines_ok_def stmts_def count_of_def)
  from scan_lines_ok[OF this, of key "enumerate1 (splitlines content)", folded s_def]
  have s: "scan_ok (count_of (cs_scalar c)) s" "lines_ok (count_of (sc_stats s) ''physical_lines'') (sc_stats s)"
    by (auto simp: s0_def count_of_def)
  have "distinct (keys (sc_stats s))" using s(1) by (simp add: scan_ok_def)
  note cnt = counter_update_count[OF this, of "cs_scalar c"]
  have f: "cs_counters (scan_file label c fl) = sc_counters s"
    "cs_scalar (scan_file label c fl) = counter_update (cs_scalar c) (sc_stats s)"
    by (simp_all add: scan_file_def f0 Let_def s_def s0_def key_def)
  show ?thesis using assms s
    by (simp add: census_ok_def f scan_ok_def balanced_def stat_def cnt lines_ok_def stmts_def)
qed

lemma census_fold_ok: "census_ok c \<Longrightarrow> census_ok (foldl (scan_file label) c files)"
  by (induction files arbitrary: c) (auto intro: scan_file_ok)

lemma empty_census_ok: "census_ok empty_census"
proof -
  have "tot k empty_counters = 0" for k by (auto simp: tot_def empty_counters_def split: option.splits dest!: map_of_SomeD)
  moreover have "wf_counters empty_counters" by (simp add: wf_counters_def empty_counters_def comp_def list_all_iff)
  ultimately show ?thesis
    by (simp add: census_ok_def empty_census_def balanced_def lines_ok_def stmts_def count_of_def COUNTERS_def)
qed

lemma sum_list_mset_eq:
  fixes xs ys :: "(string \<times> int) list"
  assumes "mset xs = mset ys"
  shows "sum_list (map snd xs) = sum_list (map snd ys)"
proof -
  have "mset (map snd xs) = mset (map snd ys)" using assms by simp
  then show ?thesis by (simp only: flip: sum_mset_sum_list)
qed

lemma map_of_sorted: "map_of (map (\<lambda>(n, c). (n, sorted_counter c)) cs) k = map_option sorted_counter (map_of cs k)"
  by (induction cs) auto

lemma tot_sorted: "tot k (map (\<lambda>(n, c). (n, sorted_counter c)) cs) = tot k cs"
proof -
  have "sum_list (map snd (sorted_counter c)) = sum_list (map snd c)" for c
    unfolding sorted_counter_def by (rule sum_list_mset_eq) simp
  then show ?thesis by (simp add: tot_def map_of_sorted split: option.splits)
qed

text \<open>
  C28. The totals of a report obey conservation laws, whatever the directory: the mnemonic counts add up
  to the instruction lines, the directive counts to the directive lines, the occurrences of all
  features to the entries of all specific counters plus the unclassified lines; pseudo instructions
  are instructions and unwind directives are directives; every classified line is non-empty, and a
  non-empty line is classified or holds only labels.
\<close>

theorem census_conservation:
  "let r = census_directory files root label; n = count_of (rp_scalars r);
       classified = n ''instruction_lines'' + n ''directive_lines'' + n ''unclassified_lines'' in
   tot ''mnemonics'' (rp_counters r) = n ''instruction_lines'' \<and>
   tot ''directives'' (rp_counters r) = n ''directive_lines'' \<and>
   tot ''feature_occurrences'' (rp_counters r) =
     (\<Sum>k \<leftarrow> butlast COUNTERS. tot k (rp_counters r)) + n ''unclassified_lines'' \<and>
   tot ''pseudos'' (rp_counters r) \<le> n ''instruction_lines'' \<and>
   tot ''cfi_directives'' (rp_counters r) \<le> n ''directive_lines'' \<and>
   classified \<le> n ''nonempty_lines'' \<and> n ''nonempty_lines'' \<le> classified + n ''label_lines'' \<and>
   n ''label_lines'' \<le> n ''nonempty_lines'' \<and> n ''nonempty_lines'' \<le> n ''physical_lines''"
proof -
  define c where "c = foldl (scan_file label) empty_census (assembly_files files)"
  have ok: "census_ok c" unfolding c_def by (rule census_fold_ok[OF empty_census_ok])
  let ?r = "census_directory files root label"
  have r: "rp_counters ?r = map (\<lambda>(k, n). (k, sorted_counter n)) (cs_counters c)"
    "rp_scalars ?r = (''files'', int (length (assembly_files files))) # map (\<lambda>k. (k, count_of (cs_scalar c) k)) SCALARS"
    by (simp_all add: census_directory_def Let_def c_def)
  have n: "count_of (rp_scalars ?r) k = count_of (cs_scalar c) k" if "k \<in> set SCALARS" for k
    using that by (auto simp: r(2) SCALARS_def count_of_def)
  show ?thesis using ok unfolding Let_def r(1) tot_sorted
    by (simp add: n SCALARS_def census_ok_def balanced_def lines_ok_def stmts_def)
qed

section \<open>Quotes, escapes and delimiters\<close>

text \<open>
  The reference semantics of quoting: the state after a piece of text is whether an escape is open and
  which quote is open.  A delimiter counts where neither is.
\<close>

fun lex_step :: "bool \<times> char option \<Rightarrow> char \<Rightarrow> bool \<times> char option" where
  "lex_step (escaped, qt) c =
     (if escaped then (False, qt)
      else if c = CHR 0x5C then (True, qt)
      else case qt of
        Some d \<Rightarrow> (False, if c = d then None else qt)
      | None \<Rightarrow> (False, if c = CHR 0x22 \<or> c = CHR 0x27 then Some c else None))"

definition delimits :: "char \<Rightarrow> bool \<times> char option \<Rightarrow> string \<Rightarrow> nat \<Rightarrow> bool" where
  "delimits d st s i \<longleftrightarrow> i < length s \<and> s ! i = d \<and> foldl lex_step st (take i s) = (False, None)"

fun lex_cut :: "char \<Rightarrow> bool \<times> char option \<Rightarrow> string \<Rightarrow> nat" where
  "lex_cut d st [] = 0"
| "lex_cut d st (c # cs) = (if st = (False, None) \<and> c = d then 0 else Suc (lex_cut d (lex_step st c) cs))"

lemma delimits_Cons [simp]:
  "delimits d st (c # cs) 0 \<longleftrightarrow> c = d \<and> st = (False, None)"
  "delimits d st (c # cs) (Suc i) \<longleftrightarrow> delimits d (lex_step st c) cs i"
  by (auto simp: delimits_def)

lemma lex_cut_delimits:
  "lex_cut d st s \<le> length s \<and> (\<forall>i < lex_cut d st s. \<not> delimits d st s i) \<and>
   (lex_cut d st s < length s \<longrightarrow> delimits d st s (lex_cut d st s))"
proof (induction d st s rule: lex_cut.induct)
  case (2 d st c cs)
  then show ?case by (auto simp: less_Suc_eq_0_disj)
qed simp

lemma strip_comment_loop_cut: "strip_comment_loop e q s = take (lex_cut CHR ''#'' (e, q) s) s"
  by (induction e q s rule: strip_comment_loop.induct) auto

lemma first_comma_cut:
  "first_comma e q i s = (let n = lex_cut CHR '','' (e, q) s in if n < length s then Some (i + n) else None)"
  by (induction e q i s rule: first_comma.induct) (auto simp: Let_def)

lemma strip_comment_cut: "strip_comment s = take (lex_cut CHR ''#'' (False, None) s) s"
proof (cases "CHR ''#'' \<in> set s")
  case False
  then have "\<not> delimits CHR ''#'' st s i" for st i by (metis delimits_def nth_mem)
  with lex_cut_delimits[of "CHR ''#''" "(False, None)" s] have "lex_cut CHR ''#'' (False, None) s = length s"
    by (meson le_neq_implies_less)
  with False show ?thesis by (simp add: strip_comment_def)
qed (simp add: strip_comment_def strip_comment_loop_cut)

text \<open>
  Comment stripping, with its shortcut for lines without a hash sign, keeps exactly the text before
  the first hash sign outside quotes and escapes, and the first operand is exactly the trimmed text
  before the first comma outside quotes and escapes.
\<close>

theorem census_delimiters:
  "(\<exists>n \<le> length line. strip_comment line = take n line \<and>
      (\<forall>i < n. \<not> delimits CHR ''#'' (False, None) line i) \<and>
      (n = length line \<or> delimits CHR ''#'' (False, None) line n)) \<and>
   (\<exists>n \<le> length (strip line). first_operand line = strip (take n (strip line)) \<and>
      (\<forall>i < n. \<not> delimits CHR '','' (False, None) (strip line) i) \<and>
      (n = length (strip line) \<or> delimits CHR '','' (False, None) (strip line) n))"
proof -
  define n where "n = lex_cut CHR ''#'' (False, None) line"
  have 1: "n \<le> length line" "strip_comment line = take n line" "\<forall>i < n. \<not> delimits CHR ''#'' (False, None) line i"
    "n = length line \<or> delimits CHR ''#'' (False, None) line n"
    using lex_cut_delimits[of "CHR ''#''" "(False, None)" line] by (auto simp: strip_comment_cut n_def)
  define m where "m = lex_cut CHR '','' (False, None) (strip line)"
  have 2: "m \<le> length (strip line)" "\<forall>i < m. \<not> delimits CHR '','' (False, None) (strip line) i"
    "m = length (strip line) \<or> delimits CHR '','' (False, None) (strip line) m"
    using lex_cut_delimits[of "CHR '',''" "(False, None)" "strip line"] by (auto simp: m_def)
  have "first_operand line = strip (take m (strip line))"
    using 2(1) by (auto simp: first_operand_def Let_def first_comma_cut simp flip: m_def)
  with 1 2 show ?thesis by blast
qed

text \<open>A hash sign in a string is kept, the comment after it is not.\<close>

definition demo_quoted_line :: string where
  "demo_quoted_line = ''.ascii '' @ [CHR 0x22] @ ''a#,b'' @ [CHR 0x22] @ '', 1 # note''"

theorem census_delimiters_witness:
  "strip_comment demo_quoted_line = ''.ascii '' @ [CHR 0x22] @ ''a#,b'' @ [CHR 0x22] @ '', 1 '' \<and>
   first_operand demo_quoted_line = ''.ascii '' @ [CHR 0x22] @ ''a#,b'' @ [CHR 0x22] \<and>
   (\<exists>n \<le> length demo_quoted_line. strip_comment demo_quoted_line = take n demo_quoted_line \<and>
      (\<forall>i < n. \<not> delimits CHR ''#'' (False, None) demo_quoted_line i) \<and>
      (n = length demo_quoted_line \<or> delimits CHR ''#'' (False, None) demo_quoted_line n))"
proof (intro conjI)
  show "strip_comment demo_quoted_line = ''.ascii '' @ [CHR 0x22] @ ''a#,b'' @ [CHR 0x22] @ '', 1 ''" by code_simp
  show "first_operand demo_quoted_line = ''.ascii '' @ [CHR 0x22] @ ''a#,b'' @ [CHR 0x22]" by code_simp
qed (use census_delimiters[of demo_quoted_line] in blast)

section \<open>Features, occurrences and examples\<close>

text \<open>Every change the scanner makes to its state is one of three steps.\<close>

inductive scan_step :: "scan \<Rightarrow> scan \<Rightarrow> bool" where
  counted: "scan_step s (count_stat n s)"
| feature: "scan_step s (record_feature here f s)"
| item: "name \<in> set (butlast COUNTERS) \<Longrightarrow> scan_step s (record_item here name i f s)"

lemmas one_step = r_into_rtranclp[of scan_step]

lemma counted_then: "scan_step\<^sup>*\<^sup>* (count_stat n s) t \<Longrightarrow> scan_step\<^sup>*\<^sup>* s t"
  by (meson counted converse_rtranclp_into_rtranclp)

lemma foldl_steps:
  assumes "\<And>s x. scan_step\<^sup>*\<^sup>* s (f s x)"
  shows "scan_step\<^sup>*\<^sup>* s (foldl f s xs)"
proof (induction xs arbitrary: s)
  case (Cons x xs)
  from assms[of s x] Cons.IH[of "f s x"] show ?case by simp
qed simp

lemma scan_operands_steps: "scan_step\<^sup>*\<^sup>* s (scan_operands here tx s)"
proof -
  have i: "scan_step\<^sup>*\<^sup>* t (record_item here name x f t)"
    if "name \<in> set [''relocations'', ''at_suffixes'', ''expression_forms'']" for name x f t
    by (rule one_step, rule scan_step.item) (use that in \<open>auto simp: COUNTERS_def\<close>)
  have 3: "scan_step\<^sup>*\<^sup>* t (case split1 CHR '':'' f of Some (p, n) \<Rightarrow> record_item here ''expression_forms'' n f t | None \<Rightarrow> t)" for t f
    using i[of "''expression_forms''"] by (auto split: option.splits)
  show ?thesis unfolding scan_operands_def Let_def
    by (rule rtranclp_trans[OF rtranclp_trans, OF foldl_steps foldl_steps foldl_steps])
      (use i[of "''relocations''"] i[of "''at_suffixes''"] 3 in simp_all)
qed

lemma scan_directive_steps: "scan_step\<^sup>*\<^sup>* s (scan_directive here d a s)"
proof -
  have i: "scan_step t (record_item here name x f t)"
    if "name \<in> set [''directives'', ''sections'', ''options'', ''cfi_directives'']" for name x f t
    by (rule scan_step.item) (use that in \<open>auto simp: COUNTERS_def\<close>)
  define s1 where "s1 = record_item here ''directives'' d (''directive:'' @ d) (count_stat ''directive_lines'' s)"
  have "scan_step\<^sup>*\<^sup>* s s1" unfolding s1_def by (rule counted_then, rule one_step, rule i) simp
  also have "scan_step\<^sup>*\<^sup>* s1 (scan_section here d a s1)" by (auto simp: scan_section_def Let_def intro!: one_step i)
  also define s3 where "s3 = (if d = ''.option''
       then let opt = (if first_operand a \<noteq> [] then hd (split_ws (first_operand a)) else ''<empty>'')
         in record_item here ''options'' opt (''option:'' @ opt) (scan_section here d a s1)
       else scan_section here d a s1)"
  have "scan_step\<^sup>*\<^sup>* (scan_section here d a s1) s3" unfolding s3_def Let_def by (auto intro!: one_step i)
  also have "scan_step\<^sup>*\<^sup>* s3 (scan_directive here d a s)"
    unfolding scan_directive_def Let_def s1_def[symmetric] s3_def[unfolded Let_def, symmetric] by (auto intro!: one_step i)
  finally show ?thesis .
qed

lemma scan_statement_steps: "scan_step\<^sup>*\<^sup>* s (scan_statement here tx s)"
proof -
  have m: "scan_step\<^sup>*\<^sup>* t (scan_mnemonic here m t)" for m t
  proof -
    have i: "scan_step t (record_item here name x f t)" if "name \<in> set [''mnemonics'', ''pseudos'']" for name x f t
      by (rule scan_step.item) (use that in \<open>auto simp: COUNTERS_def\<close>)
    have "scan_step\<^sup>*\<^sup>* t (record_item here ''mnemonics'' m (''insn:'' @ m) (count_stat ''instruction_lines'' t))"
      by (rule counted_then, rule one_step, rule i) simp
    moreover from this have "scan_step\<^sup>*\<^sup>* t (record_item here ''pseudos'' m (''pseudo:'' @ m)
        (record_item here ''mnemonics'' m (''insn:'' @ m) (count_stat ''instruction_lines'' t)))"
      by (rule rtranclp.rtrancl_into_rtrancl) (rule i, simp)
    ultimately show ?thesis unfolding scan_mnemonic_def Let_def by presburger
  qed
  have u: "scan_step\<^sup>*\<^sup>* t (record_feature here f (count_stat n t))" for t f n
    by (rule counted_then, rule one_step, rule feature)
  show ?thesis unfolding scan_statement_def Let_def
    by (rule rtranclp_trans[OF scan_operands_steps[of s here tx]])
      (simp split: option.splits add: m u scan_directive_steps)
qed

lemma scan_line_steps: "scan_step\<^sup>*\<^sup>* s (scan_line key s nl)"
proof -
  have c1: "scan_step\<^sup>*\<^sup>* s (count_stat k s)" for k by (rule one_step, rule counted)
  then have c2: "scan_step\<^sup>*\<^sup>* s (count_stat n (count_stat k s))" for n k by (rule rtranclp.rtrancl_into_rtrancl) (rule counted)
  show ?thesis
    using c1 c2 rtranclp_trans[OF c1 scan_statement_steps] rtranclp_trans[OF c2 scan_statement_steps]
    by (simp add: scan_line_def Let_def split: prod.splits)
qed

definition occurrences :: "counters \<Rightarrow> string \<Rightarrow> int" where
  "occurrences cs f = (case map_of cs ''feature_occurrences'' of None \<Rightarrow> 0 | Some c \<Rightarrow> count_of c f)"

definition bucket :: "(string \<times> example list) list \<Rightarrow> string \<Rightarrow> example list" where
  "bucket ex f = (case map_of ex f of None \<Rightarrow> [] | Some b \<Rightarrow> b)"

lemma occurrences_tick:
  "wf_counters cs \<Longrightarrow> occurrences (tick_counter name i cs) f =
     occurrences cs f + of_bool (name = ''feature_occurrences'' \<and> f = i)"
proof -
  assume "wf_counters cs"
  then have "''feature_occurrences'' \<in> set (keys cs)" by (simp add: wf_counters_def COUNTERS_def)
  then obtain c where "map_of cs ''feature_occurrences'' = Some c"
    using map_of_eq_None_iff[of cs "''feature_occurrences''"] by auto
  then show ?thesis by (simp add: occurrences_def map_of_tick_counter)
qed

lemma bucket_add_example:
  "length (bucket (add_example ex f k n t) g) =
     (if g = f then min EXAMPLE_LIMIT (Suc (length (bucket ex f))) else length (bucket ex g))"
  if "length (bucket ex f) \<le> EXAMPLE_LIMIT"
  using that by (auto simp: add_example_def bucket_def Let_def map_of_setdefault update_conv' split: option.splits)

text \<open>
  Given the features \<open>B\<close> of the earlier files: a feature has been counted exactly when it belongs to
  them or to the current file, and its bucket holds one example per occurrence up to the limit.
\<close>

definition features_ok :: "string set \<Rightarrow> scan \<Rightarrow> bool" where
  "features_ok B s \<longleftrightarrow> wf_counters (sc_counters s) \<and> (\<forall>f. 0 \<le> occurrences (sc_counters s) f \<and>
     (0 < occurrences (sc_counters s) f \<longleftrightarrow> f \<in> B \<union> set (sc_features s)) \<and>
     int (length (bucket (sc_examples s) f)) = min (int EXAMPLE_LIMIT) (occurrences (sc_counters s) f))"

lemma record_feature_features:
  assumes "features_ok B s"
  shows "features_ok B (record_feature here f s)"
proof -
  obtain k n t where h: "here = (k, n, t)" by (metis prod_cases3)
  from assms have "int (length (bucket (sc_examples s) f)) = min (int EXAMPLE_LIMIT) (occurrences (sc_counters s) f)"
    by (simp add: features_ok_def)
  then have len: "length (bucket (sc_examples s) f) \<le> EXAMPLE_LIMIT" by linarith
  show ?thesis unfolding features_ok_def
  proof (intro conjI allI)
    fix g
    from assms have g: "0 \<le> occurrences (sc_counters s) g" "0 < occurrences (sc_counters s) g \<longleftrightarrow> g \<in> B \<union> set (sc_features s)"
      "int (length (bucket (sc_examples s) g)) = min (int EXAMPLE_LIMIT) (occurrences (sc_counters s) g)"
      and wf: "wf_counters (sc_counters s)" by (auto simp: features_ok_def)
    from g(1) wf show "0 \<le> occurrences (sc_counters (record_feature here f s)) g" by (simp add: occurrences_tick)
    from g wf show "0 < occurrences (sc_counters (record_feature here f s)) g \<longleftrightarrow> g \<in> B \<union> set (sc_features (record_feature here f s))"
      by (auto simp: occurrences_tick record_feature_def h)
    from g wf len show "int (length (bucket (sc_examples (record_feature here f s)) g)) =
        min (int EXAMPLE_LIMIT) (occurrences (sc_counters (record_feature here f s)) g)"
      by (auto simp: occurrences_tick record_feature_def h bucket_add_example)
  qed (use assms in \<open>simp add: features_ok_def tick_counter_wf\<close>)
qed

lemma scan_steps_features: "scan_step\<^sup>*\<^sup>* s t \<Longrightarrow> features_ok B s \<Longrightarrow> features_ok B t"
proof (induction rule: rtranclp_induct)
  case (step y z)
  from step.hyps(2) step.IH[OF step.prems] show ?case
  proof cases
    case (item name here i f)
    from item(2) have "name \<noteq> ''feature_occurrences''" by (auto simp: COUNTERS_def)
    with \<open>features_ok B y\<close> have "features_ok B (y\<lparr>sc_counters := tick_counter name i (sc_counters y)\<rparr>)"
      by (auto simp: features_ok_def occurrences_tick tick_counter_wf)
    then show ?thesis unfolding item(1) record_item_def by (rule record_feature_features)
  qed (auto simp: record_feature_features, auto simp: features_ok_def count_stat_def)
qed

definition census_features :: "(string \<times> string list) list \<Rightarrow> string set" where
  "census_features d = \<Union> (set ` snd ` set d)"

lemma census_features_update:
  assumes "k \<notin> fst ` set d"
  shows "census_features (AList.update k v d) = census_features d \<union> set v"
  using assms by (induction d) (auto simp: census_features_def)

definition census_exact :: "census \<Rightarrow> bool" where
  "census_exact c \<longleftrightarrow> features_ok (census_features (cs_file_features c))
     \<lparr> sc_counters = cs_counters c, sc_stats = [], sc_features = [], sc_examples = cs_examples c \<rparr>"

lemma scan_file_exact:
  assumes "census_exact c" and "file_key_of label (fst fl) \<notin> fst ` set (cs_file_features c)"
  shows "census_exact (scan_file label c fl)"
proof -
  obtain parts content where f0: "fl = (parts, content)" by (cases fl)
  define key where "key = file_key_of label parts"
  define s0 where "s0 = \<lparr> sc_counters = cs_counters c, sc_stats = [(''physical_lines'', int (length (splitlines content)))],
      sc_features = [], sc_examples = cs_examples c \<rparr>"
  define s where "s = foldl (scan_line key) s0 (enumerate1 (splitlines content))"
  have "features_ok (census_features (cs_file_features c)) s0"
    using assms(1) by (simp add: census_exact_def features_ok_def s0_def)
  moreover have "scan_step\<^sup>*\<^sup>* s0 s" unfolding s_def by (rule foldl_steps) (rule scan_line_steps)
  ultimately have "features_ok (census_features (cs_file_features c)) s" by (rule scan_steps_features[rotated])
  moreover have "cs_counters (scan_file label c fl) = sc_counters s" "cs_examples (scan_file label c fl) = sc_examples s"
    "cs_file_features (scan_file label c fl) = AList.update key (sort (sc_features s)) (cs_file_features c)"
    by (simp_all add: scan_file_def f0 Let_def s_def s0_def key_def)
  ultimately show ?thesis using census_features_update[OF assms(2)]
    by (simp add: census_exact_def features_ok_def f0 key_def)
qed

lemma census_fold_exact:
  assumes "census_exact c" and "distinct (map (file_key_of label \<circ> fst) fs)"
    and "\<forall>f \<in> set fs. file_key_of label (fst f) \<notin> fst ` set (cs_file_features c)"
  shows "census_exact (foldl (scan_file label) c fs)"
  using assms
proof (induction fs arbitrary: c)
  case (Cons f fs)
  have "fst ` set (cs_file_features (scan_file label c f)) = insert (file_key_of label (fst f)) (fst ` set (cs_file_features c))"
    by (cases f) (simp add: scan_file_def Let_def dom_update)
  with Cons.prems(2,3) have "\<forall>g \<in> set fs. file_key_of label (fst g) \<notin> fst ` set (cs_file_features (scan_file label c f))"
    by (auto simp: image_iff)
  with Cons show ?case by (simp add: scan_file_exact)
qed simp

text \<open>
  When the files of a directory have different keys, a feature is counted exactly when it is a
  feature of some file, and a counted feature comes with one example per occurrence up to the limit
  of four.
\<close>

theorem census_features_exact:
  assumes "distinct (map (file_key_of label \<circ> fst) (assembly_files files))"
    and "census_directory files root label = r"
  shows "(0 < occurrences (rp_counters r) f \<longleftrightarrow> (\<exists>(key, features) \<in> set (rp_features r). f \<in> set features)) \<and>
    int (length (bucket (rp_examples r) f)) = min 4 (occurrences (rp_counters r) f)"
proof -
  define c where "c = foldl (scan_file label) empty_census (assembly_files files)"
  have "census_exact empty_census"
    by (simp add: census_exact_def empty_census_def features_ok_def census_features_def wf_counters_def
        empty_counters_def comp_def list_all_iff occurrences_def count_of_def COUNTERS_def bucket_def)
  then have c: "census_exact c" unfolding c_def
    using assms(1) by (rule census_fold_exact) (simp add: empty_census_def)
  have r: "rp_counters r = map (\<lambda>(k, n). (k, sorted_counter n)) (cs_counters c)" "rp_features r = cs_file_features c"
    "rp_examples r = cs_examples c" unfolding assms(2)[symmetric] by (simp_all add: census_directory_def Let_def c_def)
  have m: "map_of (rp_counters r) k = map_option sorted_counter (map_of (cs_counters c) k)" for k
    unfolding r(1) by (rule map_of_sorted)
  have s: "count_of (sorted_counter x) f = count_of x f" if "(k, x) \<in> set (cs_counters c)" for k x
  proof -
    from c that have "distinct (keys x)" by (auto simp: census_exact_def features_ok_def wf_counters_def list_all_iff)
    then have "map_of (sorted_counter x) = map_of x"
      unfolding sorted_counter_def by (intro map_of_inject_set[THEN iffD2]) (auto simp: distinct_map sort_key_inj_key_eq)
    then show ?thesis by (simp add: count_of_def)
  qed
  have "occurrences (rp_counters r) f = occurrences (cs_counters c) f"
    by (cases "map_of (cs_counters c) ''feature_occurrences''") (auto simp: occurrences_def m s dest!: map_of_SomeD)
  then show ?thesis using c
    by (simp add: census_exact_def features_ok_def r census_features_def EXAMPLE_LIMIT_def case_prod_unfold)
qed

text \<open>Five calls, four examples.\<close>

theorem census_features_exact_witness:
  "\<exists>r. census_directory [([''a.s''], ''ret\<newline>ret\<newline>ret\<newline>ret\<newline>ret\<newline>'')] ''.'' ''d'' = r \<and>
     occurrences (rp_counters r) ''pseudo:ret'' = 5 \<and> length (bucket (rp_examples r) ''pseudo:ret'') = 4"
proof -
  let ?fs = "[([''a.s''], ''ret\<newline>ret\<newline>ret\<newline>ret\<newline>ret\<newline>'')]"
  have d: "distinct (map (file_key_of ''d'' \<circ> fst) (assembly_files ?fs))" by code_simp
  have "occurrences (rp_counters (census_directory ?fs ''.'' ''d'')) ''pseudo:ret'' = 5" by code_simp
  with census_features_exact[OF d refl, where f = "''pseudo:ret''" and root = "''.''"] show ?thesis by auto
qed

end
