(* ===== verification/CensusReport.thy ===== *)
theory CensusReport
  imports CensusScan Json Binary64
begin

text \<open>
  The reports of \<^verbatim>\<open>src/assembler/tools/census.py\<close>: their JSON form, \<open>merge_reports\<close>,
  \<open>greedy_cover\<close>, the rendered summary and the command line.

  A report read back for merging is a JSON value.  The model takes the parts of it in the shape in
  which \<^verbatim>\<open>census_directory\<close> writes them, and answers a part of another shape with a type error; a
  missing part, a wrong schema and a repeated file key are treated as in the source.

  The percentages of the cover are floating point numbers in the source, printed with three
  decimals.  The model computes the binary64 quotient, rounds it to thousandths as \<^verbatim>\<open>round\<close> does and
  keeps the number of thousandths.

  Shown here: merging adds up the tallies of its inputs and rejects exactly the repeated file keys,
  and the greedy cover ends, covers every feature and never gains more than in the step before.
\<close>

section \<open>JSON form\<close>

definition json_of_counter :: "(string \<times> int) list \<Rightarrow> json" where
  [py_defs]: "json_of_counter c = JObj (map (\<lambda>(k, n). (k, JInt n)) c)"

definition json_of_example :: "example \<Rightarrow> json" where
  [py_defs]: "json_of_example e = JObj [(''file'', JStr (ex_file e)), (''line'', JInt (ex_line e)), (''text'', JStr (ex_text e))]"

definition json_of_source :: "string \<times> int \<Rightarrow> json" where
  [py_defs]: "json_of_source s = JObj [(''label'', JStr (fst s)), (''files'', JInt (snd s))]"

definition SCHEMA_VERSION :: int where
  [py_defs]: "SCHEMA_VERSION = 1"

definition json_of_report :: "report \<Rightarrow> json" where
  [py_defs]: "json_of_report r = JObj
     [(''schema'', JInt SCHEMA_VERSION), (''label'', JStr (rp_label r)), (''root'', JStr (rp_root r)),
      (''totals'', JObj (map (\<lambda>(k, n). (k, JInt n)) (rp_scalars r) @ map (\<lambda>(k, c). (k, json_of_counter c)) (rp_counters r))),
      (''files'', JObj (map (\<lambda>(k, st). (k, json_of_counter st)) (rp_files r))),
      (''file_features'', JObj (map (\<lambda>(k, fs). (k, JList (map JStr fs))) (rp_features r))),
      (''examples'', JObj (map (\<lambda>(k, es). (k, JList (map json_of_example es))) (rp_examples r))),
      (''sources'', JList (map json_of_source (rp_sources r)))]"

definition to_int :: "json \<Rightarrow> py_error + int" where
  [py_defs]: "to_int v = (case v of
       JInt i \<Rightarrow> Inr i
     | JBool b \<Rightarrow> Inr (if b then 1 else 0)
     | JStr t \<Rightarrow> of_option (ValueError t) (py_int 10 t)
     | _ \<Rightarrow> Inl (TypeError ''int''))"

definition counter_from :: "json \<Rightarrow> py_error + (string \<times> int) list" where
  [py_defs]: "counter_from v = (case v of
       JObj d \<Rightarrow> mapE (\<lambda>(k, x). bindE (to_int x) (\<lambda>n. Inr (k, n))) d
     | _ \<Rightarrow> Inr [])"

definition dict_of :: "json \<Rightarrow> py_error + (string \<times> json) list" where
  [py_defs]: "dict_of v = of_option (AttributeError ''items'') (as_dict v)"

definition list_of :: "json \<Rightarrow> py_error + json list" where
  [py_defs]: "list_of v = (case v of JList xs \<Rightarrow> Inr xs | _ \<Rightarrow> Inl (TypeError ''list''))"

definition str_of :: "json \<Rightarrow> py_error + string" where
  [py_defs]: "str_of v = of_option (TypeError ''str'') (as_str v)"

text \<open>\<^verbatim>\<open>d.get(k, default)\<close>.\<close>

definition get_or :: "(string \<times> json) list \<Rightarrow> string \<Rightarrow> json \<Rightarrow> json" where
  [py_defs]: "get_or d k v = (case map_of d k of None \<Rightarrow> v | Some x \<Rightarrow> x)"

definition example_of :: "json \<Rightarrow> py_error + example" where
  [py_defs]: "example_of v = bindE (dict_of v) (\<lambda>d.
     bindE (bindE (jitem d ''file'') str_of) (\<lambda>f. bindE (bindE (jitem d ''line'') to_int) (\<lambda>n.
     bindE (bindE (jitem d ''text'') str_of) (\<lambda>t. Inr \<lparr> ex_file = f, ex_line = n, ex_text = t \<rparr>))))"

definition source_of :: "json \<Rightarrow> py_error + string \<times> int" where
  [py_defs]: "source_of v = bindE (dict_of v) (\<lambda>d.
     bindE (bindE (jitem d ''label'') str_of) (\<lambda>l. bindE (bindE (jitem d ''files'') to_int) (\<lambda>n. Inr (l, n))))"

section \<open>Merging\<close>

record merged =
  mg_scalar :: "(string \<times> int) list"
  mg_counters :: counters
  mg_files :: "(string \<times> (string \<times> int) list) list"
  mg_features :: "(string \<times> string list) list"
  mg_examples :: "(string \<times> example list) list"
  mg_sources :: "(string \<times> int) list"

definition ALL_SCALARS :: "string list" where
  [py_defs]: "ALL_SCALARS = ''files'' # SCALARS"

definition merge_scalars :: "(string \<times> json) list \<Rightarrow> (string \<times> int) list \<Rightarrow> py_error + (string \<times> int) list" where
  [py_defs]: "merge_scalars totals scalar =
     foldE (\<lambda>sc key. bindE (to_int (get_or totals key (JInt 0))) (\<lambda>n. Inr (bump key n sc))) scalar ALL_SCALARS"

definition merge_counters :: "(string \<times> json) list \<Rightarrow> counters \<Rightarrow> py_error + counters" where
  [py_defs]: "merge_counters totals cs =
     mapE (\<lambda>(key, c). bindE (counter_from (get_or totals key (JObj []))) (\<lambda>d. Inr (key, counter_update c d))) cs"

definition merge_files ::
  "(string \<times> json) list \<Rightarrow> (string \<times> (string \<times> int) list) list \<Rightarrow> py_error + (string \<times> (string \<times> int) list) list" where
  [py_defs]: "merge_files new files =
     foldE (\<lambda>fs (file_key, stats).
       if file_key \<in> set (keys fs)
       then Inl (SystemExit (''duplicate assembly file key while merging: '' @ file_key))
       else bindE (bindE (dict_of stats) (\<lambda>d. counter_from (JObj d))) (\<lambda>st. Inr (AList.update file_key st fs))) files new"

definition merge_features ::
  "(string \<times> json) list \<Rightarrow> (string \<times> string list) list \<Rightarrow> py_error + (string \<times> string list) list" where
  [py_defs]: "merge_features new features =
     foldE (\<lambda>fs (file_key, v). bindE (bindE (list_of v) (mapE str_of)) (\<lambda>xs. Inr (AList.update file_key xs fs))) features new"

fun fill_bucket :: "'a list \<Rightarrow> 'a list \<Rightarrow> 'a list" where
  "fill_bucket b [] = b"
| "fill_bucket b (e # es) = (if length b \<ge> EXAMPLE_LIMIT then b else fill_bucket (b @ [e]) es)"

definition merge_examples ::
  "(string \<times> json) list \<Rightarrow> (string \<times> example list) list \<Rightarrow> py_error + (string \<times> example list) list" where
  [py_defs]: "merge_examples new examples =
     foldE (\<lambda>ex (feature, v). bindE (bindE (list_of v) (mapE example_of)) (\<lambda>es.
       let ex' = setdefault feature [] ex in
       Inr (AList.update feature (fill_bucket (the (map_of ex' feature)) es) ex'))) examples new"

definition merge_one :: "merged \<Rightarrow> string \<times> json \<Rightarrow> py_error + merged" where
  [py_defs]: "merge_one g pr =
     (case pr of (path, v) \<Rightarrow>
      bindE (dict_of v) (\<lambda>report.
      bindE (ensure (Option.bind (map_of report ''schema'') as_int = Some SCHEMA_VERSION)
               (SystemExit (''unsupported census schema in '' @ path))) (\<lambda>_.
      bindE (bindE (jitem report ''totals'') dict_of) (\<lambda>totals.
      bindE (merge_scalars totals (mg_scalar g)) (\<lambda>scalar.
      bindE (merge_counters totals (mg_counters g)) (\<lambda>counters.
      bindE (bindE (dict_of (get_or report ''files'' (JObj []))) (\<lambda>d. merge_files d (mg_files g))) (\<lambda>files.
      bindE (bindE (dict_of (get_or report ''file_features'' (JObj []))) (\<lambda>d. merge_features d (mg_features g))) (\<lambda>features.
      bindE (bindE (dict_of (get_or report ''examples'' (JObj []))) (\<lambda>d. merge_examples d (mg_examples g))) (\<lambda>examples.
      bindE (bindE (list_of (get_or report ''sources'' (JList []))) (mapE source_of)) (\<lambda>sources.
        Inr \<lparr> mg_scalar = scalar, mg_counters = counters, mg_files = files, mg_features = features,
              mg_examples = examples, mg_sources = mg_sources g @ sources \<rparr>))))))))))"

definition merge_start :: merged where
  [py_defs]: "merge_start = \<lparr> mg_scalar = [], mg_counters = empty_counters, mg_files = [], mg_features = [],
     mg_examples = [], mg_sources = [] \<rparr>"

definition merge_reports :: "(string \<times> json) list \<Rightarrow> string \<Rightarrow> py_error + report" where
  [py_defs]: "merge_reports inputs label =
     bindE (foldE merge_one merge_start inputs) (\<lambda>g.
       Inr \<lparr> rp_label = label, rp_root = ''<merged>'',
             rp_scalars = map (\<lambda>k. (k, count_of (mg_scalar g) k)) ALL_SCALARS,
             rp_counters = map (\<lambda>(k, c). (k, sorted_counter c)) (mg_counters g),
             rp_files = mg_files g, rp_features = mg_features g, rp_examples = mg_examples g,
             rp_sources = mg_sources g \<rparr>)"

section \<open>The greedy cover\<close>

definition percent_thousandths :: "int \<Rightarrow> int \<Rightarrow> int" where
  [py_defs]: "percent_thousandths covered everything =
     (let e = double_scale (100 * covered) everything 0; m = round_half_even (100 * covered * 2 ^ e) everything
      in round_half_even (m * 1000) (2 ^ e))"

record cover_row =
  cr_file :: string
  cr_new_features :: nat
  cr_covered_features :: nat
  cr_total_features :: nat
  cr_coverage_thousandths :: int

definition best_of :: "(string \<times> string list) list \<Rightarrow> string list \<Rightarrow> string \<times> string list" where
  [py_defs]: "best_of by_file uncovered =
     foldl (\<lambda>(best_file, best_gain) (file_key, features).
       let gain = filter (\<lambda>f. f \<in> set uncovered) features in
       if length gain > length best_gain \<or> length gain = length best_gain \<and> gain \<noteq> [] \<and> file_key < best_file
       then (file_key, gain) else (best_file, best_gain)) ([], []) by_file"

lemma best_of_invariant:
  fixes P :: "string \<Rightarrow> string list \<Rightarrow> bool"
  assumes "P [] []" and "\<And>k fs. (k, fs) \<in> set by_file \<Longrightarrow> P k (filter (\<lambda>f. f \<in> set uncovered) fs)"
  shows "case best_of by_file uncovered of (k, g) \<Rightarrow> P k g"
proof -
  have "case foldl (\<lambda>(bf, bg) (k, fs). let gain = filter (\<lambda>f. f \<in> set uncovered) fs in
       if length gain > length bg \<or> length gain = length bg \<and> gain \<noteq> [] \<and> k < bf
       then (k, gain) else (bf, bg)) a xs of (k, g) \<Rightarrow> P k g"
    if "set xs \<subseteq> set by_file" "case a of (k, g) \<Rightarrow> P k g" for a xs
    using that
  proof (induction xs arbitrary: a)
    case (Cons x xs)
    then show ?case using assms(2) by (cases a; cases x) (auto simp: Let_def)
  qed simp
  from this[of by_file "([], [])"] assms(1) show ?thesis by (simp add: best_of_def)
qed

lemma best_of_uncovered: "best_of by_file uncovered = (k, g) \<Longrightarrow> set g \<subseteq> set uncovered"
  using best_of_invariant[of "\<lambda>k g. set g \<subseteq> set uncovered" by_file uncovered] by auto

function cover_loop :: "nat \<Rightarrow> (string \<times> string list) list \<Rightarrow> string list \<Rightarrow> nat \<Rightarrow> cover_row list" where
  "cover_loop everything by_file uncovered covered =
     (if uncovered = [] then []
      else let (best_file, best_gain) = best_of by_file uncovered in
        if best_gain = [] then []
        else let covered' = covered + length best_gain in
          \<lparr> cr_file = best_file, cr_new_features = length best_gain, cr_covered_features = covered',
            cr_total_features = everything,
            cr_coverage_thousandths = (if everything \<noteq> 0 then percent_thousandths (int covered') (int everything) else 100000) \<rparr>
          # cover_loop everything (AList.delete best_file by_file) (filter (\<lambda>f. f \<notin> set best_gain) uncovered) covered')"
  by pat_completeness auto

termination
proof (relation "measure (\<lambda>(everything, by_file, uncovered, covered). length uncovered)")
  fix everything :: nat and by_file uncovered covered x xa y
  assume "uncovered \<noteq> []" and "x = best_of by_file uncovered" and "(xa, y) = x" and "y \<noteq> []"
  then have "hd y \<in> set y" "hd y \<in> set uncovered" using best_of_uncovered[of by_file uncovered xa y] by auto
  then have "length (filter (\<lambda>f. f \<notin> set y) uncovered) < length uncovered" by (metis length_filter_less)
  then show "((everything, AList.delete xa by_file, filter (\<lambda>f. f \<notin> set y) uncovered, xb), everything, by_file, uncovered, covered)
      \<in> measure (\<lambda>(everything, by_file, uncovered, covered). length uncovered)" for xb by simp
qed simp

declare cover_loop.simps [simp del]

definition greedy_cover :: "report \<Rightarrow> cover_row list" where
  [py_defs]: "greedy_cover r =
     (let by_file = map (\<lambda>(file_key, features). (file_key, nub features)) (rp_features r);
          uncovered = nub (concat (map snd by_file))
      in cover_loop (length uncovered) by_file uncovered 0)"

section \<open>Rendering and the command line\<close>

definition fmt3 :: "int \<Rightarrow> string" where
  [py_defs]: "fmt3 n = str_int (n div 1000) @ ''.'' @
     (let d = str_int (n mod 1000) in replicate (3 - length d) CHR ''0'' @ d)"

definition render_counter :: "string \<Rightarrow> (string \<times> int) list \<Rightarrow> nat option \<Rightarrow> string list" where
  [py_defs]: "render_counter title mapping limit =
     (let rows = (case limit of None \<Rightarrow> mapping | Some n \<Rightarrow> take n mapping) in
      [''## '' @ title, [], ''| Item | Count |'', ''| --- | ---: |''] @
      (if rows = [] then [''| _none_ | 0 |'']
       else map (\<lambda>(name, n). ''| `'' @ name @ ''` | '' @ str_int n @ '' |'') rows) @ [[]])"

text \<open>The title has a dash outside the range of the model's characters: its three UTF-8 bytes stand for it.\<close>

definition em_dash :: string where
  [py_defs]: "em_dash = [CHR 0xE2, CHR 0x80, CHR 0x94]"

definition counter_named :: "report \<Rightarrow> string \<Rightarrow> (string \<times> int) list" where
  [py_defs]: "counter_named r k = (case map_of (rp_counters r) k of None \<Rightarrow> [] | Some c \<Rightarrow> c)"

definition or_unnamed :: "string \<Rightarrow> string" where
  [py_defs]: "or_unnamed label = (if label = [] then ''unnamed'' else label)"

definition summary_head :: "report \<Rightarrow> string list" where
  [py_defs]: "summary_head r =
     (let n = (\<lambda>k. str_int (count_of (rp_scalars r) k)); u = (\<lambda>k. str_int (int (length (counter_named r k)))) in
      [''# MiniAS assembly census '' @ em_dash @ '' '' @ or_unnamed (rp_label r), [],
       ''- assembly files: **'' @ n ''files'' @ ''**'',
       ''- physical lines: **'' @ n ''physical_lines'' @ ''**'',
       ''- instruction lines: **'' @ n ''instruction_lines'' @ ''**'',
       ''- directive lines: **'' @ n ''directive_lines'' @ ''**'',
       ''- label lines: **'' @ n ''label_lines'' @ ''**'',
       ''- unclassified lines: **'' @ n ''unclassified_lines'' @ ''**'',
       ''- unique mnemonics: **'' @ u ''mnemonics'' @ ''**'',
       ''- unique directives: **'' @ u ''directives'' @ ''**'',
       ''- unique relocation operators: **'' @ u ''relocations'' @ ''**'',
       ''- semantic feature keys: **'' @ u ''feature_occurrences'' @ ''**'', []])"

definition rare_features :: "report \<Rightarrow> (string \<times> int) list" where
  [py_defs]: "rare_features r =
     sort_key (\<lambda>(f, n). (n, f)) (filter (\<lambda>(f, n). n \<le> 5) (counter_named r ''feature_occurrences''))"

definition cover_lines :: "cover_row list \<Rightarrow> string list" where
  [py_defs]: "cover_lines cover =
     (if cover = [] then [''| 0 | _none_ | 0 | 100.000% |'']
      else map (\<lambda>(index, row). ''| '' @ str_int index @ '' | `'' @ cr_file row @ ''` | '' @
             str_int (int (cr_new_features row)) @ '' | '' @ fmt3 (cr_coverage_thousandths row) @ ''% |'') (enumerate1 cover))"

definition render_summary :: "report \<Rightarrow> string" where
  [py_defs]: "render_summary r = join ''\<newline>''
     (summary_head r @
      render_counter ''Instruction mnemonics'' (counter_named r ''mnemonics'') None @
      render_counter ''Known pseudo/alias mnemonics'' (counter_named r ''pseudos'') None @
      render_counter ''Assembler directives'' (counter_named r ''directives'') None @
      render_counter ''Relocation operators'' (counter_named r ''relocations'') None @
      render_counter ''Sections'' (counter_named r ''sections'') None @
      render_counter ''.option values'' (counter_named r ''options'') None @
      render_counter ''CFI directives'' (counter_named r ''cfi_directives'') None @
      render_counter ''Expression forms'' (counter_named r ''expression_forms'') None @
      [''## Rare features (<=5 occurrences)'', [], ''| Feature | Count |'', ''| --- | ---: |''] @
      (if rare_features r \<noteq> [] then map (\<lambda>(f, n). ''| `'' @ f @ ''` | '' @ str_int n @ '' |'') (rare_features r)
       else [''| _none_ | 0 |'']) @ [[]] @
      [''## Greedy feature-cover corpus'', [],
       ''This is a deterministic set-cover heuristic over mnemonics, directives,'',
       ''relocation operators, sections, options, CFI forms, pseudo aliases and'',
       ''expression-shape features. It is intended to seed fast MiniAS gates;'',
       ''the full frozen corpus remains the promotion gate.'', [],
       ''| # | File | New features | Cumulative coverage |'',
       ''| ---: | --- | ---: | ---: |''] @
      cover_lines (greedy_cover r) @ [[]])"

definition write_cover :: "report \<Rightarrow> string" where
  [py_defs]: "write_cover r = concat (map (\<lambda>row. cr_file row @ [CHR 0x09] @ str_int (int (cr_new_features row)) @
     [CHR 0x09] @ fmt3 (cr_coverage_thousandths row) @ ''\<newline>'') (greedy_cover r))"

text \<open>
  The command line: a directory (\<open>None\<close> when it does not exist) or the reports to merge; the results
  are the texts of the files written, in the order in which they are written, and the line printed.
\<close>

datatype census_mode = InputDir string "(string list \<times> string) list option" | MergeFiles "(string \<times> json) list"

record census_output =
  co_report :: string
  co_summary :: "string option"
  co_cover :: "string option"
  co_line :: string

definition census_main :: "census_mode \<Rightarrow> string \<Rightarrow> bool \<Rightarrow> bool \<Rightarrow> py_error + census_output" where
  [py_defs]: "census_main md label want_summary want_cover =
     bindE (case md of
         InputDir root None \<Rightarrow> Inl (SystemExit (''assembly input directory does not exist: '' @ root))
       | InputDir root (Some files) \<Rightarrow> Inr (census_directory files root label)
       | MergeFiles inputs \<Rightarrow> merge_reports inputs (if label = [] then ''merged'' else label)) (\<lambda>r.
     let u = (\<lambda>k. str_int (int (length (counter_named r k)))) in
     Inr \<lparr> co_report = dumps True 0 (json_of_report r) @ ''\<newline>'',
           co_summary = (if want_summary then Some (render_summary r) else None),
           co_cover = (if want_cover then Some (write_cover r) else None),
           co_line = ''MINIAS_CENSUS label='' @ or_unnamed (rp_label r) @
             '' files='' @ str_int (count_of (rp_scalars r) ''files'') @
             '' mnemonics='' @ u ''mnemonics'' @ '' directives='' @ u ''directives'' @
             '' relocations='' @ u ''relocations'' @ '' features='' @ u ''feature_occurrences'' @
             '' unclassified='' @ str_int (count_of (rp_scalars r) ''unclassified_lines'') \<rparr>)"

section \<open>The cover is complete\<close>

lemma best_of_choice:
  "best_of by_file uncovered = (k, g) \<Longrightarrow> g \<noteq> [] \<Longrightarrow>
     \<exists>fs. (k, fs) \<in> set by_file \<and> g = filter (\<lambda>f. f \<in> set uncovered) fs"
  using best_of_invariant[of "\<lambda>k g. g = [] \<or> (\<exists>fs. (k, fs) \<in> set by_file \<and> g = filter (\<lambda>f. f \<in> set uncovered) fs)"
      by_file uncovered] by auto

lemma best_of_max:
  assumes "best_of by_file uncovered = (k, g)" and "(k', fs) \<in> set by_file"
  shows "length (filter (\<lambda>f. f \<in> set uncovered) fs) \<le> length g"
proof -
  let ?f = "\<lambda>(bf, bg) (k, fs). let gain = filter (\<lambda>f. f \<in> set uncovered) fs in
       if length gain > length bg \<or> length gain = length bg \<and> gain \<noteq> [] \<and> k < bf
       then (k, gain) else (bf, bg)"
  have "length (snd a) \<le> length (snd (foldl ?f a xs)) \<and>
      (\<forall>(k, fs) \<in> set xs. length (filter (\<lambda>f. f \<in> set uncovered) fs) \<le> length (snd (foldl ?f a xs)))" for a xs
  proof (induction xs arbitrary: a)
    case (Cons x xs)
    have "length (snd a) \<le> length (snd (?f a x))" "length (filter (\<lambda>f. f \<in> set uncovered) (snd x)) \<le> length (snd (?f a x))"
      by (auto simp: Let_def case_prod_unfold not_less)
    with Cons[of "?f a x"] show ?case by (auto simp del: split_paired_Ex)
  qed simp
  from this[of "([], [])" by_file] assms show ?thesis by (auto simp: best_of_def)
qed

text \<open>One turn of the loop.\<close>

lemma cover_loop_cases:
  obtains (stop) "cover_loop n by_file uncovered covered = []"
      "uncovered = [] \<or> (\<forall>(k, fs) \<in> set by_file. set fs \<inter> set uncovered = {})"
  | (row) k fs g rest row where "cover_loop n by_file uncovered covered = row # rest"
      "rest = cover_loop n (AList.delete k by_file) (filter (\<lambda>f. f \<notin> set g) uncovered) (covered + length g)"
      "(k, fs) \<in> set by_file" "g = filter (\<lambda>f. f \<in> set uncovered) fs" "g \<noteq> []" "uncovered \<noteq> []"
      "cr_file row = k" "cr_new_features row = length g" "cr_covered_features row = covered + length g"
      "cr_coverage_thousandths row = (if n \<noteq> 0 then percent_thousandths (int (covered + length g)) (int n) else 100000)"
      "\<forall>(k', fs') \<in> set by_file. length (filter (\<lambda>f. f \<in> set uncovered) fs') \<le> length g"
      "length (filter (\<lambda>f. f \<notin> set g) uncovered) < length uncovered"
proof -
  obtain k g where kg: "best_of by_file uncovered = (k, g)" by (cases "best_of by_file uncovered")
  consider "uncovered = []" | "uncovered \<noteq> []" "g = []" | "uncovered \<noteq> []" "g \<noteq> []" by blast
  then show thesis
  proof cases
    case 1
    then show ?thesis by (intro stop) (simp_all add: cover_loop.simps)
  next
    case 2
    have "set fs \<inter> set uncovered = {}" if "(k', fs) \<in> set by_file" for k' fs
      using best_of_max[OF kg that] 2 by (auto simp: filter_empty_conv)
    with 2 kg show ?thesis by (intro stop) (auto simp: cover_loop.simps)
  next
    case 3
    from best_of_choice[OF kg 3(2)] obtain fs where fs: "(k, fs) \<in> set by_file" "g = filter (\<lambda>f. f \<in> set uncovered) fs" by auto
    from 3(2) have "hd g \<in> set g" "hd g \<in> set uncovered" using best_of_uncovered[OF kg] by auto
    then have "length (filter (\<lambda>f. f \<notin> set g) uncovered) < length uncovered" by (metis length_filter_less)
    then show ?thesis
      by (intro row[OF _ refl fs 3(2,1)])
        (use 3 best_of_max[OF kg] in \<open>auto simp: cover_loop.simps[of n by_file uncovered covered] kg Let_def\<close>)
  qed
qed

definition dict_lists :: "(string \<times> string list) list \<Rightarrow> bool" where
  "dict_lists d \<longleftrightarrow> distinct (keys d) \<and> (\<forall>(k, fs) \<in> set d. distinct fs)"

definition coverable :: "(string \<times> string list) list \<Rightarrow> string list \<Rightarrow> bool" where
  "coverable d u \<longleftrightarrow> distinct u \<and> set u \<subseteq> (\<Union>(k, fs) \<in> set d. set fs)"

lemma coverable_next:
  assumes "dict_lists d" "coverable d u" "(k, fs) \<in> set d"
  shows "dict_lists (AList.delete k d)"
    and "coverable (AList.delete k d) (filter (\<lambda>f. f \<notin> set (filter (\<lambda>f. f \<in> set u) fs)) u)"
proof -
  have mem: "(k', fs') \<in> set (AList.delete k d) \<longleftrightarrow> (k', fs') \<in> set d \<and> k' \<noteq> k" for k' fs'
    by (auto simp: AList.delete_eq)
  have uniq: "(k, fs') \<in> set d \<Longrightarrow> fs' = fs" for fs'
    using assms(1,3) by (auto simp: dict_lists_def dest: eq_key_imp_eq_value)
  show "dict_lists (AList.delete k d)" using assms(1) by (auto simp: dict_lists_def mem intro: distinct_delete)
  show "coverable (AList.delete k d) (filter (\<lambda>f. f \<notin> set (filter (\<lambda>f. f \<in> set u) fs)) u)"
    using assms(2) uniq by (fastforce simp: coverable_def mem)
qed

definition news :: "cover_row list \<Rightarrow> nat list" where
  "news rows = map cr_new_features rows"

lemma cover_loop_bounded:
  "\<forall>(k, fs) \<in> set d. length (filter (\<lambda>f. f \<in> set u) fs) \<le> b \<Longrightarrow> \<forall>x \<in> set (news (cover_loop n d u c)). x \<le> b"
proof (induction "length u" arbitrary: d u c rule: less_induct)
  case less
  show ?case
  proof (cases rule: cover_loop_cases[of n d u c])
    case (row k fs g rest row)
    let ?u = "filter (\<lambda>f. f \<notin> set g) u"
    have "length (filter (\<lambda>f. f \<in> set ?u) fs') \<le> b" if "(k', fs') \<in> set (AList.delete k d)" for k' fs'
    proof -
      from that less.prems have "length (filter (\<lambda>f. f \<in> set u) fs') \<le> b" by (auto simp: AList.delete_eq)
      moreover have "length (filter (\<lambda>f. f \<in> set ?u) fs') \<le> length (filter (\<lambda>f. f \<in> set u) fs')"
        by (induction fs') auto
      ultimately show ?thesis by simp
    qed
    then have "\<forall>x \<in> set (news rest). x \<le> b" unfolding row(2) by (intro less.hyps[OF row(12)]) auto
    moreover have "length g \<le> b" using less.prems row(3,4) by auto
    ultimately show ?thesis using row(1,8) by (simp add: news_def)
  qed (simp add: news_def)
qed

definition selected_features :: "(string \<times> string list) list \<Rightarrow> cover_row list \<Rightarrow> string set" where
  "selected_features d rows = (\<Union>row \<in> set rows. case map_of d (cr_file row) of None \<Rightarrow> {} | Some fs \<Rightarrow> set fs)"

lemma cover_loop_files: "cr_file ` set (cover_loop n d u c) \<subseteq> fst ` set d \<and> distinct (map cr_file (cover_loop n d u c))"
proof (induction "length u" arbitrary: d u c rule: less_induct)
  case less
  show ?case
  proof (cases rule: cover_loop_cases[of n d u c])
    case (row k fs g rest row)
    from less[OF row(12), of "AList.delete k d" "c + length g"]
    have "cr_file ` set rest \<subseteq> fst ` set d - {k}" "distinct (map cr_file rest)" by (auto simp: row(2) AList.delete_eq)
    moreover have "k \<in> fst ` set d" using row(3) by force
    ultimately show ?thesis using row(1,7) by auto
  qed simp
qed

lemma cover_loop_decreasing: "sorted_wrt (\<ge>) (news (cover_loop n d u c)) \<and> 0 \<notin> set (news (cover_loop n d u c))"
proof (induction "length u" arbitrary: d u c rule: less_induct)
  case less
  show ?case
  proof (cases rule: cover_loop_cases[of n d u c])
    case (row k fs g rest row)
    have le: "length (filter (\<lambda>f. f \<in> set (filter (\<lambda>f. f \<notin> set g) u)) fs') \<le> length (filter (\<lambda>f. f \<in> set u) fs')" for fs'
      by (induction fs') auto
    have "\<forall>(k', fs') \<in> set (AList.delete k d). length (filter (\<lambda>f. f \<in> set (filter (\<lambda>f. f \<notin> set g) u)) fs') \<le> length g"
    proof (clarify)
      fix k' fs' assume "(k', fs') \<in> set (AList.delete k d)"
      then have "length (filter (\<lambda>f. f \<in> set u) fs') \<le> length g" using row(11) by (auto simp: AList.delete_eq)
      with le[of fs'] show "length (filter (\<lambda>f. f \<in> set (filter (\<lambda>f. f \<notin> set g) u)) fs') \<le> length g" by linarith
    qed
    from cover_loop_bounded[OF this] less[OF row(12), of "AList.delete k d" "c + length g"] row(1,5,8)
    show ?thesis by (auto simp: row(2) news_def)
  qed (simp add: news_def)
qed

lemma cover_loop_complete:
  assumes "dict_lists d" and "coverable d u"
  shows "set u \<subseteq> selected_features d (cover_loop n d u c) \<and> sum_list (news (cover_loop n d u c)) = length u \<and>
    (u \<noteq> [] \<longrightarrow> (let r = last (cover_loop n d u c) in cover_loop n d u c \<noteq> [] \<and> cr_covered_features r = c + length u \<and>
       cr_coverage_thousandths r = (if n \<noteq> 0 then percent_thousandths (int (c + length u)) (int n) else 100000)))"
  using assms
proof (induction "length u" arbitrary: d u c rule: less_induct)
  case less
  show ?case
  proof (cases rule: cover_loop_cases[of n d u c])
    case stop
    have "u = []"
    proof (rule ccontr)
      assume "u \<noteq> []"
      then have "hd u \<in> set u" by simp
      with less.prems(2) obtain k fs where "(k, fs) \<in> set d" "hd u \<in> set fs" by (auto simp: coverable_def)
      moreover from this stop(2) \<open>u \<noteq> []\<close> have "set fs \<inter> set u = {}" by auto
      ultimately show False using \<open>hd u \<in> set u\<close> by blast
    qed
    with stop show ?thesis by (simp add: news_def)
  next
    case (row k fs g rest row)
    let ?u = "filter (\<lambda>f. f \<notin> set g) u" and ?d = "AList.delete k d"
    note nx = coverable_next[OF less.prems row(3), folded row(4)]
    note ih = less.hyps[OF row(12) nx, of "c + length g", folded row(2)]
    have "length g = length (filter (\<lambda>f. f \<in> set g) u)"
    proof -
      have "distinct g" using less.prems(1) row(3,4) by (auto simp: dict_lists_def)
      moreover have "distinct u" using less.prems(2) by (simp add: coverable_def)
      moreover have "set g \<subseteq> set u" using row(4) by auto
      moreover from this have "set (filter (\<lambda>f. f \<in> set g) u) = set g" by auto
      ultimately show ?thesis by (metis distinct_card distinct_filter)
    qed
    then have len: "length u = length g + length ?u" using sum_length_filter_compl[of "\<lambda>f. f \<in> set g" u] by simp
    have mk: "map_of d k = Some fs" using less.prems(1) row(3) by (simp add: dict_lists_def)
    have "selected_features ?d rest \<subseteq> selected_features d rest"
      by (auto simp: selected_features_def delete_conv' split: option.splits if_splits) 
    with ih have "set ?u \<subseteq> selected_features d rest" by blast
    moreover have "set g \<subseteq> set fs" "set u \<subseteq> set g \<union> set ?u" using row(4) by auto
    moreover have "selected_features d (row # rest) = set fs \<union> selected_features d rest"
      using mk row(7) by (simp add: selected_features_def)
    ultimately have "set u \<subseteq> selected_features d (row # rest)" by blast
    moreover have "last (row # rest) = (if ?u = [] then row else last rest)" and "?u = [] \<Longrightarrow> rest = []"
      using ih by (auto simp: row(2) cover_loop.simps Let_def)
    ultimately show ?thesis using ih len row(1,6,8,9,10) by (auto simp: news_def Let_def add.assoc)
  qed
qed

lemma percent_full: "0 < n \<Longrightarrow> percent_thousandths n n = 100000"
proof -
  assume n: "0 < n"
  define e where "e = double_scale (100 * n) n 0"
  have "round_half_even (100 * n * 2 ^ e) n = 100 * 2 ^ e"
    using round_half_even_exact[OF n, of "100 * 2 ^ e"] by (simp add: mult.commute mult.left_commute)
  moreover have "round_half_even (100 * 2 ^ e * 1000) (2 ^ e) = 100000"
    using round_half_even_exact[of "2 ^ e" 100000] by (simp add: mult.commute mult.left_commute)
  ultimately show ?thesis by (simp add: percent_thousandths_def Let_def flip: e_def)
qed

text \<open>
  C27. The greedy cover always ends with every feature covered: the files chosen are different files
  of the report, together they have all its features, the gains are positive, never increase and add
  up to the number of features, and the last row reports complete coverage, one hundred percent.
\<close>

theorem greedy_cover_complete:
  assumes "distinct (keys (rp_features r))"
  shows "let rows = greedy_cover r; goal = \<Union> (set ` snd ` set (rp_features r)) in
    selected_features (rp_features r) rows = goal \<and>
    distinct (map cr_file rows) \<and> cr_file ` set rows \<subseteq> fst ` set (rp_features r) \<and>
    0 \<notin> set (news rows) \<and> sorted_wrt (\<ge>) (news rows) \<and> sum_list (news rows) = card goal \<and>
    (goal \<noteq> {} \<longrightarrow> rows \<noteq> [] \<and> cr_covered_features (last rows) = card goal \<and>
       cr_coverage_thousandths (last rows) = 100000)"
proof -
  define d where "d = map (\<lambda>(file_key, features). (file_key, nub features)) (rp_features r)"
  define u where "u = nub (concat (map snd d))"
  define rows where "rows = cover_loop (length u) d u 0"
  define goal where "goal = \<Union> (set ` snd ` set (rp_features r))"
  have rows: "greedy_cover r = rows" by (simp add: greedy_cover_def Let_def d_def u_def rows_def)
  have kd: "keys d = keys (rp_features r)" by (simp add: d_def comp_def case_prod_unfold)
  have u1: "set u = goal" by (force simp: u_def d_def goal_def)
  have "distinct u" by (simp add: u_def)
  with u1 have u: "set u = goal" "length u = card goal" using distinct_card[of u] by auto
  have dl: "dict_lists d" unfolding dict_lists_def kd using assms by (auto simp: d_def)
  have cv: "coverable d u" unfolding coverable_def by (auto simp: u_def)
  have mo: "map_of d k = map_option nub (map_of (rp_features r) k)" for k unfolding d_def by (induction "rp_features r") (auto simp: map_of_map)
  then have sel: "selected_features (rp_features r) rows = selected_features d rows"
    by (auto simp: selected_features_def split: option.splits)
  have "selected_features (rp_features r) rows \<subseteq> goal"
    by (force simp: selected_features_def goal_def split: option.splits dest: map_of_SomeD)
  moreover note cover_loop_complete[OF dl cv, of "length u" 0, folded rows_def]
  moreover have "cr_file ` set rows \<subseteq> fst ` set (rp_features r)" "distinct (map cr_file rows)"
    using cover_loop_files[of "length u" d u 0] kd unfolding rows_def by (metis list.set_map)+
  moreover note cover_loop_decreasing[of "length u" d u 0, folded rows_def]
  moreover have "goal \<noteq> {} \<longleftrightarrow> u \<noteq> []" using u(1) by auto
  ultimately show ?thesis unfolding rows Let_def goal_def[symmetric]
    using sel u percent_full[of "int (card goal)"] by (auto simp: Let_def)
qed

text \<open>Three files, two of which suffice.\<close>

definition demo_report :: report where
  "demo_report = \<lparr> rp_label = [], rp_root = [], rp_scalars = [], rp_counters = [], rp_files = [],
     rp_features = [(''a'', [''x'', ''y'']), (''b'', [''y'']), (''c'', [''y'', ''z''])], rp_examples = [], rp_sources = [] \<rparr>"

theorem greedy_cover_complete_witness:
  "map cr_file (greedy_cover demo_report) = [''a'', ''c''] \<and> news (greedy_cover demo_report) = [2, 1] \<and>
   selected_features (rp_features demo_report) (greedy_cover demo_report) = {''x'', ''y'', ''z''}"
proof -
  have d: "distinct (keys (rp_features demo_report))" by (simp add: demo_report_def)
  have "map cr_file (greedy_cover demo_report) = [''a'', ''c''] \<and> news (greedy_cover demo_report) = [2, 1]" by code_simp
  moreover have "\<Union> (set ` snd ` set (rp_features demo_report)) = {''x'', ''y'', ''z''}" by (auto simp: demo_report_def)
  ultimately show ?thesis using greedy_cover_complete[OF d] by (simp add: Let_def)
qed

section \<open>Merging adds up\<close>

definition wf_report :: "report \<Rightarrow> bool" where
  "wf_report r \<longleftrightarrow> keys (rp_scalars r) = ALL_SCALARS \<and> wf_counters (rp_counters r)"

lemma wf_sorted: "wf_counters cs \<Longrightarrow> wf_counters (map (\<lambda>(k, c). (k, sorted_counter c)) cs)"
proof -
  have "distinct (map fst (sort_key f c))" if "distinct (map fst c)" for f :: "string \<times> int \<Rightarrow> int \<times> string" and c
    using that by (metis distinct_map distinct_sort set_sort)
  then show "wf_counters cs \<Longrightarrow> ?thesis"
    by (auto simp: wf_counters_def list_all_iff comp_def case_prod_unfold sorted_counter_def)
qed

lemma census_directory_wf: "wf_report (census_directory files root label)"
proof -
  have "census_ok (foldl (scan_file label) empty_census (assembly_files files))"
    by (rule census_fold_ok[OF empty_census_ok])
  then have "wf_counters (cs_counters (foldl (scan_file label) empty_census (assembly_files files)))"
    by (simp add: census_ok_def balanced_def)
  then show ?thesis using wf_sorted by (simp add: wf_report_def census_directory_def Let_def ALL_SCALARS_def comp_def)
qed

lemma counter_from_json [simp]: "counter_from (json_of_counter c) = Inr c"
  unfolding counter_from_def json_of_counter_def by (induction c) (auto simp: to_int_def)

definition totals_of :: "report \<Rightarrow> (string \<times> json) list" where
  "totals_of r = map (\<lambda>(k, n). (k, JInt n)) (rp_scalars r) @ map (\<lambda>(k, c). (k, json_of_counter c)) (rp_counters r)"

lemma map_of_map_pair: "map_of (map (\<lambda>(k, v). (k, f k v)) d) k = map_option (f k) (map_of d k)"
  by (induction d) auto

lemma totals_scalar:
  assumes "wf_report r" and "k \<in> set ALL_SCALARS"
  shows "to_int (get_or (totals_of r) k (JInt 0)) = Inr (count_of (rp_scalars r) k)"
proof -
  from assms have "k \<in> set (keys (rp_scalars r))" by (simp add: wf_report_def)
  then obtain n where "map_of (rp_scalars r) k = Some n" using map_of_eq_None_iff[of "rp_scalars r" k] by auto
  then show ?thesis by (simp add: get_or_def totals_of_def map_of_map_pair map_add_def to_int_def count_of_def split: option.splits)
qed

lemma totals_counter:
  assumes "wf_report r" and "k \<in> set COUNTERS"
  shows "counter_from (get_or (totals_of r) k (JObj [])) = Inr (counter_named r k)"
proof -
  from assms have "k \<notin> set (keys (rp_scalars r))" by (auto simp: wf_report_def ALL_SCALARS_def SCALARS_def COUNTERS_def)
  then have "map_of (rp_scalars r) k = None" by (simp add: map_of_eq_None_iff)
  moreover from assms have "k \<in> set (keys (rp_counters r))" by (simp add: wf_report_def wf_counters_def)
  then obtain c where "map_of (rp_counters r) k = Some c" using map_of_eq_None_iff[of "rp_counters r" k] by auto
  ultimately show ?thesis by (simp add: get_or_def totals_of_def map_of_map_pair map_add_def counter_named_def)
qed

lemma merge_scalars_ok:
  assumes "wf_report r"
  shows "\<exists>sc. merge_scalars (totals_of r) scalar = Inr sc \<and>
    (\<forall>k \<in> set ALL_SCALARS. count_of sc k = count_of scalar k + count_of (rp_scalars r) k)"
proof -
  have "\<exists>sc. foldE (\<lambda>sc key. bindE (to_int (get_or (totals_of r) key (JInt 0))) (\<lambda>n. Inr (bump key n sc))) s ks = Inr sc \<and>
      (\<forall>k. count_of sc k = count_of s k + (if k \<in> set ks then count_of (rp_scalars r) k else 0))"
    if "set ks \<subseteq> set ALL_SCALARS" "distinct ks" for s ks
    using that
  proof (induction ks arbitrary: s)
    case (Cons k ks)
    then show ?case using Cons.IH[of "bump k (count_of (rp_scalars r) k) s"] totals_scalar[OF assms, of k] by auto
  qed simp
  from this[of ALL_SCALARS scalar] show ?thesis unfolding merge_scalars_def
    by (auto simp: ALL_SCALARS_def SCALARS_def)
qed

lemma merge_counters_ok:
  assumes "wf_report r" and "keys cs = COUNTERS"
  shows "merge_counters (totals_of r) cs = Inr (map (\<lambda>(k, c). (k, counter_update c (counter_named r k))) cs)"
  unfolding merge_counters_def
proof (rule mapE_total)
  fix x assume "x \<in> set cs"
  then have "fst x \<in> set COUNTERS" using assms(2) by (metis image_eqI list.set_map)
  then show "(case x of (key, c) \<Rightarrow> bindE (counter_from (get_or (totals_of r) key (JObj []))) (\<lambda>d. Inr (key, counter_update c d))) =
      Inr (case x of (k, c) \<Rightarrow> (k, counter_update c (counter_named r k)))"
    using totals_counter[OF assms(1)] by (cases x) simp
qed

definition duplicate_key :: "string \<Rightarrow> py_error" where
  "duplicate_key key = SystemExit (''duplicate assembly file key while merging: '' @ key)"

abbreviation json_files :: "(string \<times> (string \<times> int) list) list \<Rightarrow> (string \<times> json) list" where
  "json_files fs \<equiv> map (\<lambda>(k, st). (k, json_of_counter st)) fs"

lemma merge_files_Cons:
  "merge_files (json_files ((k, st) # new)) fs =
     (if k \<in> set (keys fs) then Inl (duplicate_key k) else merge_files (json_files new) (fs @ [(k, st)]))"
proof -
  have "bindE (dict_of (json_of_counter st)) (\<lambda>d. counter_from (JObj d)) = Inr st"
    using counter_from_json[of st] by (simp add: dict_of_def as_dict_def json_of_counter_def)
  then show ?thesis unfolding merge_files_def duplicate_key_def by (simp add: update_fresh)
qed

lemma merge_files_ok:
  "if distinct (keys fs @ keys new) then merge_files (json_files new) fs = Inr (fs @ new)
   else distinct (keys fs) \<longrightarrow> (\<exists>key \<in> set (keys new). merge_files (json_files new) fs = Inl (duplicate_key key))"
proof (induction new arbitrary: fs)
  case Nil
  show ?case by (simp add: merge_files_def)
next
  case (Cons x new)
  obtain k st where x: "x = (k, st)" by (cases x)
  note eq = merge_files_Cons[of k st new fs, folded x]
  show ?case
  proof (cases "k \<in> set (keys fs)")
    case True
    then have "\<not> distinct (keys fs @ keys (x # new))" by (simp add: x)
    moreover have "merge_files (json_files (x # new)) fs = Inl (duplicate_key k)" using True unfolding eq by (rule if_P)
    ultimately show ?thesis by (auto simp only: if_False x list.map fst_conv list.set)
  next
    case False
    then have d: "distinct (keys fs @ keys (x # new)) \<longleftrightarrow> distinct (keys (fs @ [x]) @ keys new)" by (auto simp: x)
    have e: "merge_files (json_files (x # new)) fs = merge_files (json_files new) (fs @ [x])"
      using False unfolding eq by (rule if_not_P)
    have f: "distinct (keys fs) \<longrightarrow> distinct (keys (fs @ [x]))" using False by (auto simp: x)
    from Cons.IH[of "fs @ [x]"] f show ?thesis unfolding d e by (auto split: if_splits)
  qed
qed

lemma merge_features_ok: "\<exists>x. merge_features (map (\<lambda>(k, fs). (k, JList (map JStr fs))) new) features = Inr x"
proof -
  have "mapE str_of (map JStr fs) = Inr fs" for fs by (induction fs) (auto simp: str_of_def as_str_def)
  then show ?thesis unfolding merge_features_def by (induction new arbitrary: features) (auto simp: list_of_def)
qed

lemma merge_examples_ok: "\<exists>x. merge_examples (map (\<lambda>(k, es). (k, JList (map json_of_example es))) new) examples = Inr x"
proof -
  have "example_of (json_of_example e) = Inr e" for e
    by (simp add: example_of_def json_of_example_def dict_of_def as_dict_def jitem_def str_of_def as_str_def to_int_def)
  then have "mapE example_of (map json_of_example es) = Inr es" for es by (induction es) auto
  then show ?thesis unfolding merge_examples_def by (induction new arbitrary: examples) (auto simp: list_of_def Let_def)
qed

lemma merge_sources_ok: "mapE source_of (map json_of_source ss) = Inr ss"
proof -
  have "source_of (json_of_source s) = Inr s" for s
    by (simp add: source_of_def json_of_source_def dict_of_def as_dict_def jitem_def str_of_def as_str_def to_int_def)
  then show ?thesis by (induction ss) auto
qed

definition totals_match :: "report list \<Rightarrow> (string \<times> int) list \<Rightarrow> (string \<Rightarrow> string \<Rightarrow> int) \<Rightarrow> bool" where
  "totals_match rs scalars cnt \<longleftrightarrow>
     (\<forall>k \<in> set ALL_SCALARS. count_of scalars k = (\<Sum>r \<leftarrow> rs. count_of (rp_scalars r) k)) \<and>
     (\<forall>k \<in> set COUNTERS. \<forall>x. cnt k x = (\<Sum>r \<leftarrow> rs. count_of (counter_named r k) x))"

definition named :: "counters \<Rightarrow> string \<Rightarrow> string \<Rightarrow> int" where
  "named cs k x = count_of (case map_of cs k of None \<Rightarrow> [] | Some c \<Rightarrow> c) x"

definition merge_inv :: "report list \<Rightarrow> merged \<Rightarrow> bool" where
  "merge_inv rs g \<longleftrightarrow> mg_files g = concat (map rp_files rs) \<and> keys (mg_counters g) = COUNTERS \<and>
     list_all (\<lambda>(k, c). distinct (keys c)) (mg_counters g) \<and> totals_match rs (mg_scalar g) (named (mg_counters g))"

lemma distinct_counter_update: "distinct (keys c) \<Longrightarrow> distinct (keys (counter_update c d))"
  unfolding counter_update_def by (induction d arbitrary: c) (auto simp: distinct_bump)

lemma merge_one_eq:
  "wf_report r \<Longrightarrow> keys (mg_counters g) = COUNTERS \<Longrightarrow> \<exists>sc fe ex so. merge_one g (path, json_of_report r) =
     bindE (merge_files (json_files (rp_files r)) (mg_files g)) (\<lambda>files.
       Inr \<lparr> mg_scalar = sc, mg_counters = map (\<lambda>(k, c). (k, counter_update c (counter_named r k))) (mg_counters g),
             mg_files = files, mg_features = fe, mg_examples = ex, mg_sources = so \<rparr>) \<and>
     (\<forall>k \<in> set ALL_SCALARS. count_of sc k = count_of (mg_scalar g) k + count_of (rp_scalars r) k)"
proof -
  assume wf: "wf_report r" and ks: "keys (mg_counters g) = COUNTERS"
  obtain sc where sc: "merge_scalars (totals_of r) (mg_scalar g) = Inr sc"
    "\<forall>k \<in> set ALL_SCALARS. count_of sc k = count_of (mg_scalar g) k + count_of (rp_scalars r) k"
    using merge_scalars_ok[OF wf] by blast
  note cs = merge_counters_ok[OF wf ks]
  obtain fe where fe: "merge_features (map (\<lambda>(k, fs). (k, JList (map JStr fs))) (rp_features r)) (mg_features g) = Inr fe"
    using merge_features_ok by blast
  obtain ex where ex: "merge_examples (map (\<lambda>(k, es). (k, JList (map json_of_example es))) (rp_examples r)) (mg_examples g) = Inr ex"
    using merge_examples_ok by blast
  have "merge_one g (path, json_of_report r) =
     bindE (merge_files (json_files (rp_files r)) (mg_files g)) (\<lambda>files.
       Inr \<lparr> mg_scalar = sc, mg_counters = map (\<lambda>(k, c). (k, counter_update c (counter_named r k))) (mg_counters g),
             mg_files = files, mg_features = fe, mg_examples = ex, mg_sources = mg_sources g @ rp_sources r \<rparr>)"
    unfolding merge_one_def json_of_report_def totals_of_def[symmetric]
    by (simp add: dict_of_def as_dict_def as_int_def jitem_def get_or_def list_of_def sc cs fe ex merge_sources_ok)
  with sc(2) show ?thesis by blast
qed

lemma merge_one_ok:
  assumes "wf_report r" and "merge_inv rs g" and "distinct (keys (mg_files g))"
  shows "if distinct (keys (mg_files g) @ keys (rp_files r))
    then \<exists>g'. merge_one g (path, json_of_report r) = Inr g' \<and> merge_inv (rs @ [r]) g'
    else \<exists>key. merge_one g (path, json_of_report r) = Inl (duplicate_key key)"
proof -
  have ks: "keys (mg_counters g) = COUNTERS" using assms(2) by (simp add: merge_inv_def)
  obtain sc fe ex so where eq: "merge_one g (path, json_of_report r) =
     bindE (merge_files (json_files (rp_files r)) (mg_files g)) (\<lambda>files.
       Inr \<lparr> mg_scalar = sc, mg_counters = map (\<lambda>(k, c). (k, counter_update c (counter_named r k))) (mg_counters g),
             mg_files = files, mg_features = fe, mg_examples = ex, mg_sources = so \<rparr>)"
    and sc: "\<forall>k \<in> set ALL_SCALARS. count_of sc k = count_of (mg_scalar g) k + count_of (rp_scalars r) k"
    using merge_one_eq[OF assms(1) ks] by blast
  show ?thesis
  proof (cases "distinct (keys (mg_files g) @ keys (rp_files r))")
    case True
    let ?cs = "map (\<lambda>(k, c). (k, counter_update c (counter_named r k))) (mg_counters g)"
    let ?g = "\<lparr> mg_scalar = sc, mg_counters = ?cs, mg_files = mg_files g @ rp_files r, mg_features = fe, mg_examples = ex, mg_sources = so \<rparr>"
    have "merge_one g (path, json_of_report r) = Inr ?g"
      unfolding eq using merge_files_ok[of "mg_files g" "rp_files r"] True by (simp only: if_True bindE_simps)
    moreover have "named ?cs k x = named (mg_counters g) k x + count_of (counter_named r k) x" if "k \<in> set COUNTERS" for k x
    proof -
      from that ks obtain c where c: "map_of (mg_counters g) k = Some c"
        using map_of_eq_None_iff[of "mg_counters g" k] by (metis list.set_map not_None_eq)
      have m: "map_of ?cs k = map_option (\<lambda>c. counter_update c (counter_named r k)) (map_of (mg_counters g) k)"
        by (rule map_of_map_pair)
      have "distinct (keys (counter_named r k))" using assms(1)
        by (auto simp: wf_report_def wf_counters_def counter_named_def list_all_iff split: option.splits dest!: map_of_SomeD)
      from counter_update_count[OF this] c m show ?thesis by (simp add: named_def)
    qed
    then have "merge_inv (rs @ [r]) ?g" using assms(2) sc
      by (auto simp: merge_inv_def totals_match_def comp_def case_prod_unfold list_all_iff distinct_counter_update)
    ultimately show ?thesis using True by auto
  next
    case False
    with merge_files_ok[of "mg_files g" "rp_files r"] assms(3)
    obtain key where "merge_files (json_files (rp_files r)) (mg_files g) = Inl (duplicate_key key)" by (metis (no_types, lifting))
    then show ?thesis using False by (auto simp: eq)
  qed
qed

lemma merge_fold_ok:
  assumes "\<forall>r \<in> set rs. wf_report (snd r)" and "merge_inv done g" and "distinct (keys (mg_files g))"
  shows "if distinct (keys (mg_files g) @ concat (map (keys \<circ> rp_files \<circ> snd) rs))
    then \<exists>g'. foldE merge_one g (map (\<lambda>(p, r). (p, json_of_report r)) rs) = Inr g' \<and> merge_inv (done @ map snd rs) g'
    else \<exists>key. foldE merge_one g (map (\<lambda>(p, r). (p, json_of_report r)) rs) = Inl (duplicate_key key)"
  using assms
proof (induction rs arbitrary: g "done")
  case Nil
  then show ?case by auto
next
  case (Cons x rs)
  obtain p r where x: "x = (p, r)" by (cases x)
  have one: "if distinct (keys (mg_files g) @ keys (rp_files r))
    then \<exists>g'. merge_one g (p, json_of_report r) = Inr g' \<and> merge_inv (done @ [r]) g'
    else \<exists>key. merge_one g (p, json_of_report r) = Inl (duplicate_key key)"
    by (rule merge_one_ok) (use Cons.prems in \<open>auto simp: x\<close>)
  show ?case
  proof (cases "distinct (keys (mg_files g) @ keys (rp_files r))")
    case True
    with one obtain g' where g': "merge_one g (p, json_of_report r) = Inr g'" "merge_inv (done @ [r]) g'" by auto
    have f: "mg_files g' = mg_files g @ rp_files r" using g'(2) Cons.prems(2) by (simp add: merge_inv_def)
    have d: "distinct (keys (mg_files g'))" using True by (simp add: f)
    have w: "\<forall>r \<in> set rs. wf_report (snd r)" using Cons.prems(1) by simp
    have dd: "distinct (keys (mg_files g) @ concat (map (keys \<circ> rp_files \<circ> snd) (x # rs))) \<longleftrightarrow>
      distinct (keys (mg_files g') @ concat (map (keys \<circ> rp_files \<circ> snd) rs))" by (simp add: f x)
    have fe: "foldE merge_one g (map (\<lambda>(p, r). (p, json_of_report r)) (x # rs)) =
      foldE merge_one g' (map (\<lambda>(p, r). (p, json_of_report r)) rs)" by (simp add: x g'(1))
    have ap: "done @ map snd (x # rs) = (done @ [r]) @ map snd rs" by (simp add: x)
    show ?thesis unfolding dd fe ap by (rule Cons.IH[OF w g'(2) d])
  next
    case False
    then have "\<not> distinct (keys (mg_files g) @ concat (map (keys \<circ> rp_files \<circ> snd) (x # rs)))" by (auto simp: x)
    moreover obtain key where "merge_one g (p, json_of_report r) = Inl (duplicate_key key)"
      using one unfolding if_not_P[OF False] by blast
    then have "foldE merge_one g (map (\<lambda>(p, r). (p, json_of_report r)) (x # rs)) = Inl (duplicate_key key)" by (simp add: x)
    then have "\<exists>key. foldE merge_one g (map (\<lambda>(p, r). (p, json_of_report r)) (x # rs)) = Inl (duplicate_key key)" by (rule exI)
    ultimately show ?thesis by (simp only: if_False)
  qed
qed

text \<open>
  Merging reports in the form in which they are written adds up their tallies, file by file: every
  line count and every counter of the result is the sum over the inputs and the result lists exactly
  the files of the inputs; it fails, and only then, when two inputs have a file key in common.
\<close>

theorem merge_reports_adds_up:
  assumes "\<forall>r \<in> set rs. wf_report (snd r)"
  shows "if distinct (concat (map (keys \<circ> rp_files \<circ> snd) rs))
    then \<exists>m. merge_reports (map (\<lambda>(p, r). (p, json_of_report r)) rs) label = Inr m \<and> wf_report m \<and>
      rp_files m = concat (map (rp_files \<circ> snd) rs) \<and>
      (\<forall>k \<in> set ALL_SCALARS. count_of (rp_scalars m) k = (\<Sum>r \<leftarrow> rs. count_of (rp_scalars (snd r)) k)) \<and>
      (\<forall>k \<in> set COUNTERS. \<forall>x. count_of (counter_named m k) x = (\<Sum>r \<leftarrow> rs. count_of (counter_named (snd r) k) x))
    else \<exists>key. merge_reports (map (\<lambda>(p, r). (p, json_of_report r)) rs) label = Inl (duplicate_key key)"
proof -
  have "totals_match [] [] (named empty_counters)"
    by (auto simp: totals_match_def named_def count_of_def empty_counters_def split: option.splits dest!: map_of_SomeD)
  then have "merge_inv [] merge_start"
    by (simp add: merge_inv_def merge_start_def empty_counters_def comp_def list_all_iff)
  moreover have "mg_files merge_start = []" by (simp add: merge_start_def)
  ultimately have fold: "if distinct (concat (map (keys \<circ> rp_files \<circ> snd) rs))
    then \<exists>g'. foldE merge_one merge_start (map (\<lambda>(p, r). (p, json_of_report r)) rs) = Inr g' \<and> merge_inv (map snd rs) g'
    else \<exists>key. foldE merge_one merge_start (map (\<lambda>(p, r). (p, json_of_report r)) rs) = Inl (duplicate_key key)"
    using merge_fold_ok[OF assms, of "[]" merge_start] by (simp split: if_split_asm)
  show ?thesis
  proof (cases "distinct (concat (map (keys \<circ> rp_files \<circ> snd) rs))")
    case True
    with fold obtain g where g: "foldE merge_one merge_start (map (\<lambda>(p, r). (p, json_of_report r)) rs) = Inr g"
      "merge_inv (map snd rs) g" by auto
    let ?m = "\<lparr> rp_label = label, rp_root = ''<merged>'', rp_scalars = map (\<lambda>k. (k, count_of (mg_scalar g) k)) ALL_SCALARS,
       rp_counters = map (\<lambda>(k, c). (k, sorted_counter c)) (mg_counters g),
       rp_files = mg_files g, rp_features = mg_features g, rp_examples = mg_examples g, rp_sources = mg_sources g \<rparr>"
    have m: "merge_reports (map (\<lambda>(p, r). (p, json_of_report r)) rs) label = Inr ?m" by (simp add: merge_reports_def g(1))
    have wf: "wf_counters (mg_counters g)" using g(2) by (simp add: merge_inv_def wf_counters_def)
    have sc: "count_of (rp_scalars ?m) k = count_of (mg_scalar g) k" if "k \<in> set ALL_SCALARS" for k
      using that by (simp add: count_of_def map_of_map_restrict)
    have cn: "count_of (counter_named ?m k) x = named (mg_counters g) k x" for k x
    proof (cases "map_of (mg_counters g) k")
      case (Some c)
      with wf have "distinct (keys c)" by (auto simp: wf_counters_def list_all_iff dest!: map_of_SomeD)
      then have "map_of (sorted_counter c) = map_of c"
        unfolding sorted_counter_def by (intro map_of_inject_set[THEN iffD2]) (auto simp: distinct_map sort_key_inj_key_eq)
      with Some show ?thesis by (simp add: counter_named_def map_of_sorted named_def count_of_def)
    qed (simp add: counter_named_def map_of_sorted named_def)
    have "wf_report ?m" using wf_sorted[OF wf] by (simp add: wf_report_def comp_def)
    moreover have "rp_files ?m = concat (map (rp_files \<circ> snd) rs)" using g(2) by (simp add: merge_inv_def)
    moreover note g(2)[unfolded merge_inv_def totals_match_def]
    ultimately show ?thesis using True m sc cn by (auto simp: comp_def)
  qed (use fold in \<open>auto simp: merge_reports_def\<close>)
qed

text \<open>Two reports with one file each, and the same report twice.\<close>

definition demo_tally :: "string \<Rightarrow> int \<Rightarrow> report" where
  "demo_tally key n = \<lparr> rp_label = key, rp_root = [], rp_scalars = map (\<lambda>k. (k, n)) ALL_SCALARS,
     rp_counters = map (\<lambda>k. (k, [(''ret'', n)])) COUNTERS, rp_files = [(key, [])], rp_features = [],
     rp_examples = [], rp_sources = [] \<rparr>"

lemma demo_tally_wf: "wf_report (demo_tally key n)"
  by (simp add: wf_report_def demo_tally_def wf_counters_def comp_def list_all_iff)

theorem merge_reports_adds_up_witness:
  "(\<exists>m. merge_reports (map (\<lambda>(p, r). (p, json_of_report r)) [(''1'', demo_tally ''x'' 1), (''2'', demo_tally ''y'' 2)]) ''both'' = Inr m \<and>
      count_of (rp_scalars m) ''instruction_lines'' = 3 \<and> count_of (counter_named m ''mnemonics'') ''ret'' = 3) \<and>
   (\<exists>key. merge_reports (map (\<lambda>(p, r). (p, json_of_report r)) [(''1'', demo_tally ''x'' 1), (''2'', demo_tally ''x'' 2)]) ''both'' =
      Inl (duplicate_key key))"
proof
  let ?rs = "[(''1'', demo_tally ''x'' 1), (''2'', demo_tally ''y'' 2)]"
  have wf: "\<forall>r \<in> set ?rs. wf_report (snd r)" by (simp add: demo_tally_wf)
  have d: "distinct (concat (map (keys \<circ> rp_files \<circ> snd) ?rs))" by (simp add: demo_tally_def)
  have s: "(\<Sum>r \<leftarrow> ?rs. count_of (rp_scalars (snd r)) ''instruction_lines'') = 3"
    "(\<Sum>r \<leftarrow> ?rs. count_of (counter_named (snd r) ''mnemonics'') ''ret'') = 3" by code_simp+
  have k: "''instruction_lines'' \<in> set ALL_SCALARS" "''mnemonics'' \<in> set COUNTERS"
    by (simp_all add: ALL_SCALARS_def SCALARS_def COUNTERS_def)
  from merge_reports_adds_up[OF wf, of "''both''", unfolded if_P[OF d]] obtain m where
    "merge_reports (map (\<lambda>(p, r). (p, json_of_report r)) ?rs) ''both'' = Inr m"
    "\<forall>k \<in> set ALL_SCALARS. count_of (rp_scalars m) k = (\<Sum>r \<leftarrow> ?rs. count_of (rp_scalars (snd r)) k)"
    "\<forall>k \<in> set COUNTERS. \<forall>x. count_of (counter_named m k) x = (\<Sum>r \<leftarrow> ?rs. count_of (counter_named (snd r) k) x)"
    by (elim exE conjE)
  with s k show "\<exists>m. merge_reports (map (\<lambda>(p, r). (p, json_of_report r)) ?rs) ''both'' = Inr m \<and>
      count_of (rp_scalars m) ''instruction_lines'' = 3 \<and> count_of (counter_named m ''mnemonics'') ''ret'' = 3" by metis
next
  let ?rs = "[(''1'', demo_tally ''x'' 1), (''2'', demo_tally ''x'' 2)]"
  have wf: "\<forall>r \<in> set ?rs. wf_report (snd r)" by (simp add: demo_tally_wf)
  have d: "\<not> distinct (concat (map (keys \<circ> rp_files \<circ> snd) ?rs))" by (simp add: demo_tally_def)
  show "\<exists>key. merge_reports (map (\<lambda>(p, r). (p, json_of_report r)) ?rs) ''both'' = Inl (duplicate_key key)"
    by (rule merge_reports_adds_up[OF wf, of "''both''", unfolded if_not_P[OF d]])
qed

end
