(* ===== verification/Shlex.thy ===== *)
theory Shlex
  imports Prelude
begin

text \<open>
  \<^verbatim>\<open>shlex.split\<close> of Python's standard library, as the tools use it to take recorded compiler commands
  apart: POSIX quoting, white space between words, no comments.  \<open>None\<close> is the \<^verbatim>\<open>ValueError\<close> of a text
  that ends inside a quotation or after a backslash.

  Shown here: words without special characters survive being joined and split again.
\<close>

datatype shlex_mode = Gap | InWord | InQuote char | Escaped shlex_mode

definition shlex_ws :: "char \<Rightarrow> bool" where
  [py_defs]: "shlex_ws c \<longleftrightarrow> c \<in> set [CHR '' '', CHR 0x09, CHR 0x0D, CHR 0x0A]"

definition shlex_quote :: "char \<Rightarrow> bool" where
  [py_defs]: "shlex_quote c \<longleftrightarrow> c = CHR 0x27 \<or> c = CHR 0x22"

text \<open>The word read so far is kept in reverse.\<close>

fun shlex_from :: "shlex_mode \<Rightarrow> string \<Rightarrow> string \<Rightarrow> string list option" where
  "shlex_from Gap w [] = Some []"
| "shlex_from InWord w [] = Some [rev w]"
| "shlex_from (InQuote q) w [] = None"
| "shlex_from (Escaped m) w [] = None"
| "shlex_from Gap w (c # cs) =
     (if shlex_ws c then shlex_from Gap [] cs
      else if c = CHR 0x5C then shlex_from (Escaped InWord) [] cs
      else if shlex_quote c then shlex_from (InQuote c) [] cs
      else shlex_from InWord [c] cs)"
| "shlex_from InWord w (c # cs) =
     (if shlex_ws c then map_option (\<lambda>ws. rev w # ws) (shlex_from Gap [] cs)
      else if shlex_quote c then shlex_from (InQuote c) w cs
      else if c = CHR 0x5C then shlex_from (Escaped InWord) w cs
      else shlex_from InWord (c # w) cs)"
| "shlex_from (InQuote q) w (c # cs) =
     (if c = q then shlex_from InWord w cs
      else if c = CHR 0x5C \<and> q = CHR 0x22 then shlex_from (Escaped (InQuote q)) w cs
      else shlex_from (InQuote q) (c # w) cs)"
| "shlex_from (Escaped m) w (c # cs) =
     (case m of
        InQuote q \<Rightarrow> shlex_from m (if c \<noteq> CHR 0x5C \<and> c \<noteq> q then c # CHR 0x5C # w else c # w) cs
      | _ \<Rightarrow> shlex_from m (c # w) cs)"

definition shlex_split :: "string \<Rightarrow> string list option" where
  [py_defs]: "shlex_split s = shlex_from Gap [] s"

definition plain_word :: "string \<Rightarrow> bool" where
  "plain_word w \<longleftrightarrow> w \<noteq> [] \<and> list_all (\<lambda>c. \<not> shlex_ws c \<and> \<not> shlex_quote c \<and> c \<noteq> CHR 0x5C) w"

lemma shlex_in_word:
  "list_all (\<lambda>c. \<not> shlex_ws c \<and> \<not> shlex_quote c \<and> c \<noteq> CHR 0x5C) v \<Longrightarrow>
   shlex_from InWord w (v @ rest) = shlex_from InWord (rev v @ w) rest"
  by (induction v arbitrary: w) auto

lemma shlex_split_join: "\<forall>w \<in> set ws. plain_word w \<Longrightarrow> shlex_split (join '' '' ws) = Some ws"
  unfolding shlex_split_def
proof (induction ws)
  case (Cons w ws)
  obtain c v where w: "w = c # v" "\<not> shlex_ws c" "\<not> shlex_quote c" "c \<noteq> CHR 0x5C"
    "list_all (\<lambda>c. \<not> shlex_ws c \<and> \<not> shlex_quote c \<and> c \<noteq> CHR 0x5C) v"
    using Cons.prems by (cases w) (auto simp: plain_word_def)
  show ?case
  proof (cases ws)
    case Nil
    with w shlex_in_word[OF w(5), of "[c]" "[]"] show ?thesis by simp
  next
    case (Cons x xs)
    then have "join '' '' (w # ws) = c # (v @ CHR '' '' # join '' '' ws)" using w(1) by simp
    with w(2-4) shlex_in_word[OF w(5), of "[c]"] Cons.IH Cons.prems show ?thesis
      by (simp add: w(1) shlex_ws_def)
  qed
qed simp

end
