(* ===== verification/KbuildGuard.thy ===== *)
theory KbuildGuard
  imports FileStore PurePath PyRegex Json Shlex
begin

text \<open>
  \<^verbatim>\<open>src/tools/ci/linux-runtime-kbuild-regeneration-guard-v1.py\<close>: the guard that decides what may be
  done when the kernel build regenerates headers or objects between two links.

  The store is that of \<^theory_text>\<open>FileStore\<close>.  Arguments of the model stand for what is outside the file:
  \<open>sha\<close> (SHA-256), \<open>loads\<close> (\<^verbatim>\<open>json.loads\<close>, \<open>None\<close> when it raises), \<open>ls\<close> (the order in which \<^verbatim>\<open>rglob\<close> lists
  the paths of the store), \<open>env\<close> and \<open>exe\<close> (environment variables, executable files) and the programs
  that are started, as functions on the store.  Printed lines and times are not modelled, and messages are
  kept without the paths and lists interpolated into some of them.  Text read
  with \<^verbatim>\<open>errors="replace"\<close> keeps its ASCII part; any other character becomes a stand-in that no pattern
  of the tool mentions.

  Shown here: what the impact analysis guarantees for the objects it leaves alone, that a rejected
  repair changes nothing, and what a successful repair leaves in the output tree.
\<close>

datatype guard_error = GuardError string | GuardOSError string | GuardValueError string | GuardCrash string

definition SCHEMA :: string where
  [py_defs]: "SCHEMA = ''minic-gnu-kbuild-regeneration-guard-v1''"

definition EXCLUDE_HEADERS :: "string list" where
  [py_defs]: "EXCLUDE_HEADERS = [''include/generated/utsversion.h'']"

text \<open>In multi-line mode an anchor holds at the ends of the text and next to a line feed.\<close>

abbreviation RLineStart :: re where "RLineStart \<equiv> RNotBehind (\<lambda>c. c \<noteq> CHR 0x0A)"
abbreviation RLineEnd :: re where "RLineEnd \<equiv> RNotAhead (\<lambda>c. c \<noteq> CHR 0x0A)"

definition CC :: re where
  [py_defs]: "CC = RSeqs [RLineStart, RPlus (RSet is_ws), RLit ''CC'', RPlus (RSet is_ws),
     RGroup 1 (RSeq (RPlus (RSet (\<lambda>c. \<not> is_ws c))) (RLit ''.o'')), RStar (RSet is_ws), RLineEnd]"

definition guard_sha :: "(byte list \<Rightarrow> string) \<Rightarrow> fs \<Rightarrow> path \<Rightarrow> guard_error + string" where
  [py_defs]: "guard_sha sha s p = bindE (of_option (GuardOSError ''open'') (read_bytes s p)) (\<lambda>b. Inr (sha b))"

definition read_text :: "fs \<Rightarrow> path \<Rightarrow> guard_error + string" where
  [py_defs]: "read_text s p = bindE (of_option (GuardOSError ''open'') (read_bytes s p)) (\<lambda>b.
     of_option (GuardValueError ''decode'') (decode_utf8 b))"

definition read_text_replace :: "fs \<Rightarrow> path \<Rightarrow> guard_error + string" where
  [py_defs]: "read_text_replace s p = bindE (of_option (GuardOSError ''open'') (read_bytes s p)) (\<lambda>b.
     Inr (case decode_utf8 b of Some t \<Rightarrow> t
          | None \<Rightarrow> map (\<lambda>x. if unat x < 128 then char_of (unat x) else CHR 0xFF) b))"

section \<open>Generated headers\<close>

definition rglob :: "path list \<Rightarrow> fs \<Rightarrow> path \<Rightarrow> path list" where
  [py_defs]: "rglob ls s root = filter (\<lambda>p. under root p \<and> p \<noteq> root \<and> s p \<noteq> None) ls"

definition rel_posix :: "path \<Rightarrow> path \<Rightarrow> string" where
  [py_defs]: "rel_posix out p = join ''/'' (drop (length out) p)"

definition generated_roots :: "path \<Rightarrow> path list" where
  [py_defs]: "generated_roots out =
     [out @ [''include'', ''generated''], out @ [''arch'', ''riscv'', ''include'', ''generated'']]"

definition generated1 ::
  "(byte list \<Rightarrow> string) \<Rightarrow> fs \<Rightarrow> path \<Rightarrow> (string \<times> string) list \<Rightarrow> path \<Rightarrow> guard_error + (string \<times> string) list" where
  [py_defs]: "generated1 sha s out result p =
     (if is_dir s p \<and> \<not> is_symlink s p then Inr result
      else if \<not> is_file s p \<or> is_symlink s p then Inl (GuardError ''generated input absent or unsafe'')
      else let rel = rel_posix out p in
        if rel \<in> set EXCLUDE_HEADERS then Inr result
        else bindE (guard_sha sha s p) (\<lambda>h. Inr (AList.update rel h result)))"

definition generated ::
  "(byte list \<Rightarrow> string) \<Rightarrow> path list \<Rightarrow> fs \<Rightarrow> path \<Rightarrow> guard_error + (string \<times> string) list" where
  [py_defs]: "generated sha ls s out =
     bindE (foldE (generated1 sha s out) []
       (concat (map (\<lambda>root. if path_exists s root then rglob ls s root else []) (generated_roots out)))) (\<lambda>result.
     if result = [] then Inl (GuardError ''no generated-header evidence'') else Inr (sort_key fst result))"

definition object_path1 :: "string list \<Rightarrow> string \<Rightarrow> guard_error + string list" where
  [py_defs]: "object_path1 objects line =
     (let item = strip line in
      if item = [] \<or> startswith item ''#'' then Inr objects
      else if is_absolute item \<or> ''..'' \<in> set (path_parts item) \<or> length (path_parts item) < 2 \<or>
              path_suffix item \<noteq> ''.o'' \<or> item \<in> set objects
      then Inl (GuardError (''unsafe or duplicate object path: '' @ item))
      else Inr (objects @ [item]))"

definition object_paths :: "fs \<Rightarrow> path \<Rightarrow> guard_error + string list" where
  [py_defs]: "object_paths s file_path =
     bindE (read_text s file_path) (\<lambda>t. foldE object_path1 [] (splitlines t))"

definition write_text :: "path \<Rightarrow> string \<Rightarrow> (fs, guard_error, unit) prog" where
  [py_defs]: "write_text p t = putP (\<lambda>s. of_option (GuardOSError ''write'') (write_bytes (encode_utf8 t) p s))"

definition mkdirP :: "path \<Rightarrow> (fs, guard_error, unit) prog" where
  [py_defs]: "mkdirP p = putP (\<lambda>s. of_option (GuardOSError ''mkdir'') (mkdir_parents p s))"

definition snapshot :: "(byte list \<Rightarrow> string) \<Rightarrow> path list \<Rightarrow> path \<Rightarrow> path \<Rightarrow> (fs, guard_error, unit) prog" where
  [py_defs]: "snapshot sha ls out dest =
     bindP (readP (\<lambda>s. generated sha ls s out)) (\<lambda>headers.
     bindP (mkdirP (butlast dest)) (\<lambda>_.
       write_text dest (dumps True 0 (JObj [(''schema'', JStr SCHEMA),
         (''headers'', JObj (map (\<lambda>(k, h). (k, JStr h)) headers))]) @ ''\<newline>'')))"

section \<open>Dependents of a changed header\<close>

text \<open>The dependency file of an object: \<^verbatim>\<open>.<name>.cmd\<close> beside it.\<close>

definition cmd_file :: "path \<Rightarrow> string \<Rightarrow> path" where
  [py_defs]: "cmd_file golden name = golden @ butlast (path_tail name) @ [''.'' @ path_name name @ ''.cmd'']"

definition DEPS_RE :: re where
  [py_defs]: "DEPS_RE = RSeqs [RLineStart, RLit ''deps_'', RPlus (RSet (\<lambda>c. c \<noteq> CHR 0x0A)), RStar (RSet is_ws), RLit '':='']"

definition header_char :: "char \<Rightarrow> bool" where
  [py_defs]: "header_char c \<longleftrightarrow> is_alpha c \<or> is_digit c \<or> c \<in> set ''_./-''"

definition header_re :: "string \<Rightarrow> re" where
  [py_defs]: "header_re header = RSeqs [RNotBehind header_char, RLit header, RNotAhead header_char]"

definition dependent1 :: "fs \<Rightarrow> path \<Rightarrow> string list \<Rightarrow> string list \<Rightarrow> string \<Rightarrow> guard_error + string list" where
  [py_defs]: "dependent1 s golden_out changed affected name =
     (let depfile = cmd_file golden_out name in
      if \<not> is_file s depfile \<or> is_symlink s depfile
      then Inl (GuardError (''missing pinned Kbuild dependency closure: '' @ name))
      else bindE (read_text_replace s depfile) (\<lambda>body.
        if re_search DEPS_RE body = None
        then Inl (GuardError (''no pinned Kbuild dependency closure: '' @ name))
        else if \<exists>header \<in> set changed. re_search (header_re header) body \<noteq> None
        then Inr (affected @ [name]) else Inr affected))"

definition selected_generated_header_dependents ::
  "fs \<Rightarrow> path \<Rightarrow> string list \<Rightarrow> string list \<Rightarrow> guard_error + string list" where
  [py_defs]: "selected_generated_header_dependents s golden_out names changed =
     foldE (dependent1 s golden_out changed) [] names"

text \<open>\<^verbatim>\<open>d.get(k)\<close> does not tell a missing key from a null.\<close>

definition get_value :: "(string \<times> json) list \<Rightarrow> string \<Rightarrow> json option" where
  [py_defs]: "get_value d k = (case map_of d k of Some JNull \<Rightarrow> None | v \<Rightarrow> v)"

definition header_values :: "(string \<times> string) list \<Rightarrow> (string \<times> json) list" where
  [py_defs]: "header_values hs = map (\<lambda>(k, h). (k, JStr h)) hs"

definition changed_keys :: "(string \<times> json) list \<Rightarrow> (string \<times> json) list \<Rightarrow> string list" where
  [py_defs]: "changed_keys now previous =
     sort (filter (\<lambda>k. get_value now k \<noteq> get_value previous k) (nub (keys now @ keys previous)))"

definition load_baseline :: "(string \<Rightarrow> json option) \<Rightarrow> fs \<Rightarrow> path \<Rightarrow> guard_error + (string \<times> json) list" where
  [py_defs]: "load_baseline loads s evidence =
     bindE (read_text s evidence) (\<lambda>t. bindE (of_option (GuardValueError ''json'') (loads t)) (\<lambda>v.
       of_option (GuardCrash ''AttributeError'') (as_dict v)))"

definition ALLOWED_HEADERS :: "string list" where
  [py_defs]: "ALLOWED_HEADERS = [''include/generated/vdso-offsets.h'', ''include/generated/compile.h'']"

definition impact_inputs ::
  "(byte list \<Rightarrow> string) \<Rightarrow> (string \<Rightarrow> json option) \<Rightarrow> path list \<Rightarrow> path \<Rightarrow> path \<Rightarrow> path \<Rightarrow> path \<Rightarrow> fs \<Rightarrow>
   guard_error + string list \<times> string list" where
  [py_defs]: "impact_inputs sha loads ls out evidence golden selected s =
     bindE (load_baseline loads s evidence) (\<lambda>baseline.
     bindE (ensure (get_value baseline ''schema'' = Some (JStr SCHEMA)) (GuardError ''invalid generated-header snapshot'')) (\<lambda>_.
     bindE (generated sha ls s out) (\<lambda>now.
     bindE (of_option (GuardError ''missing golden generated-header identities'')
              (Option.bind (get_value baseline ''headers'') as_dict)) (\<lambda>previous.
     let changed = changed_keys (header_values now) previous in
     bindE (ensure (set changed \<subseteq> set ALLOWED_HEADERS)
              (GuardError (''unsupported generated-header changes: '' @ join '','' changed))) (\<lambda>_.
     bindE (if changed \<noteq> [] then bindE (object_paths s selected) (\<lambda>names.
              selected_generated_header_dependents s golden names changed) else Inr []) (\<lambda>impacted.
     bindE (ensure (length impacted \<le> 16) (GuardError ''changed generated-header fanout too large'')) (\<lambda>_.
       Inr (changed, impacted))))))))"

definition header_impact ::
  "(byte list \<Rightarrow> string) \<Rightarrow> (string \<Rightarrow> json option) \<Rightarrow> path list \<Rightarrow> path \<Rightarrow> path \<Rightarrow> path \<Rightarrow> path \<Rightarrow> path \<Rightarrow>
   (fs, guard_error, string list \<times> string list) prog" where
  [py_defs]: "header_impact sha loads ls out evidence golden selected affected_file =
     bindP (readP (impact_inputs sha loads ls out evidence golden selected)) (\<lambda>(changed, impacted).
     bindP (mkdirP (butlast affected_file)) (\<lambda>_.
     bindP (write_text affected_file (concat (map (\<lambda>x. x @ ''\<newline>'') impacted))) (\<lambda>_.
       retP (changed, impacted))))"

section \<open>Recorded compiler commands\<close>

definition SAVED_RE :: re where
  [py_defs]: "SAVED_RE = RSeqs [RBol, RAlt (RLit ''savedcmd'') (RLit ''cmd''), RLit ''_'',
     RPlus (RSet (\<lambda>c. c \<noteq> CHR 0x0A)), RLit '':='']"

text \<open>\<^verbatim>\<open>x.partition(":=")[2]\<close>\<close>

fun after_assign :: "string \<Rightarrow> string" where
  "after_assign [] = []"
| "after_assign (c # cs) = (if startswith (c # cs) '':='' then drop 1 cs else after_assign cs)"

definition saved_commands :: "string \<Rightarrow> string list" where
  [py_defs]: "saved_commands t = map (\<lambda>x. strip (after_assign x)) (filter (\<lambda>x. re_match SAVED_RE x \<noteq> None) (splitlines t))"

text \<open>The arguments that follow an occurrence of \<open>opt\<close>.\<close>

fun values_of :: "string \<Rightarrow> string list \<Rightarrow> string list" where
  "values_of opt (a # b # rest) = (if a = opt then [b] else []) @ values_of opt (b # rest)"
| "values_of opt _ = []"

text \<open>C sources among the arguments, forced includes left out.\<close>

fun sources_of :: "string list \<Rightarrow> string list" where
  "sources_of (a # b # rest) =
     (if endswith b ''.c'' \<and> a \<noteq> ''-include'' \<and> a \<noteq> ''-imacros'' then [b] else []) @ sources_of (b # rest)"
| "sources_of _ = []"

definition SHELL_TOKENS :: "string list" where
  [py_defs]: "SHELL_TOKENS = ['';'', ''|'', ''&&'', ''||'', ''>'', ''<'']"

definition check_cc_args :: "string \<Rightarrow> string list \<Rightarrow> guard_error + string list" where
  [py_defs]: "check_cc_args name cc_args =
     bindE (ensure (cc_args \<noteq> [] \<and> path_name (hd cc_args) = ''riscv64-linux-gnu-gcc'')
              (GuardError (''not frozen riscv64 GCC command: '' @ name))) (\<lambda>_.
     bindE (ensure (''-c'' \<in> set cc_args \<and> ''-E'' \<notin> set cc_args \<and> ''-S'' \<notin> set cc_args)
              (GuardError (''not a C-object compilation: '' @ name))) (\<lambda>_.
     bindE (ensure (values_of ''-o'' cc_args = [name]) (GuardError (''GCC output differs from frozen target: '' @ name))) (\<lambda>_.
     bindE (ensure (length (sources_of cc_args) = 1) (GuardError (''not exactly one C source: '' @ name))) (\<lambda>_.
     bindE (ensure (set cc_args \<inter> set SHELL_TOKENS = {})
              (GuardError (''unsupported shell tokens in frozen GCC command: '' @ name))) (\<lambda>_.
       Inr (tl cc_args))))))"

definition pinned_kbuild_cc_args :: "fs \<Rightarrow> path \<Rightarrow> string \<Rightarrow> guard_error + string list" where
  [py_defs]: "pinned_kbuild_cc_args s golden_out name =
     (let cmdfile = cmd_file golden_out name in
      bindE (ensure (is_file s cmdfile \<and> \<not> is_symlink s cmdfile)
               (GuardError (''missing frozen GCC compilation command: '' @ name))) (\<lambda>_.
      bindE (read_text_replace s cmdfile) (\<lambda>t.
      case saved_commands t of
        [cmd] \<Rightarrow> bindE (of_option (GuardError (''invalid GCC command quoting: '' @ name)) (shlex_split cmd)) (check_cc_args name)
      | _ \<Rightarrow> Inl (GuardError (''non-unique GCC compilation command: '' @ name)))))"

section \<open>Replaying affected objects\<close>

definition posix_of :: "path \<Rightarrow> string" where
  [py_defs]: "posix_of p = ''/'' @ join ''/'' p"

definition resolved :: "fs \<Rightarrow> path \<Rightarrow> guard_error + string" where
  [py_defs]: "resolved s p = bindE (of_option (GuardOSError ''resolve'') (resolve s p)) (\<lambda>q. Inr (posix_of q))"

definition KEEP_FLAGS :: "string list" where
  [py_defs]: "KEEP_FLAGS = [''COHORT_FRAME_CAPTURE_ONLY'', ''COHORT_NETWORK_CAPTURE_ONLY'', ''COHORT_SPINLOCK_CAPTURE_ONLY'',
     ''COHORT_REPAIR_RUNTIME_OWNER'', ''COHORT_REPAIR_INET_CSK_OWNER'', ''COHORT_REPAIR_INET_HASHTABLES_OWNER'',
     ''COHORT_MINIAS_DYNAMIC_HEADERS'']"

definition native_pp :: "(string \<Rightarrow> string option) \<Rightarrow> bool" where
  [py_defs]: "native_pp env \<longleftrightarrow> env ''COHORT_MINIPP_DYNAMIC_HEADERS'' = Some ''1''"

definition env_path :: "(string \<Rightarrow> string option) \<Rightarrow> string \<Rightarrow> string \<Rightarrow> path" where
  [py_defs]: "env_path env k dflt = path_tail (case env k of None \<Rightarrow> dflt | Some v \<Rightarrow> v)"

text \<open>The variables set for the started wrapper, over the inherited environment.\<close>

definition base_environment :: "(string \<Rightarrow> string option) \<Rightarrow> fs \<Rightarrow> path \<Rightarrow> path \<Rightarrow> path \<Rightarrow> guard_error + (string \<times> string) list" where
  [py_defs]: "base_environment env s minic success hashes =
     bindE (resolved s minic) (\<lambda>m. bindE (resolved s success) (\<lambda>ok. bindE (resolved s hashes) (\<lambda>hs.
       Inr [(''MINIC'', m), (''REAL_CC'', ''/usr/bin/riscv64-linux-gnu-gcc''),
            (''MINIC_KEEP_INTERMEDIATES'', if \<exists>v \<in> set KEEP_FLAGS. env v = Some ''1'' then ''1'' else ''0''),
            (''MINIC_PRESERVE_FAILURE_INPUTS'', ''1''), (''MINIC_KBUILD_SUCCESS_TRACE'', ok),
            (''MINIC_KBUILD_OBJECT_HASH_TRACE'', hs)])))"

definition native_environment :: "(string \<Rightarrow> string option) \<Rightarrow> (path \<Rightarrow> bool) \<Rightarrow> fs \<Rightarrow> guard_error + (string \<times> string) list" where
  [py_defs]: "native_environment env exe s =
     (if \<not> native_pp env then Inr []
      else let binary = env_path env ''COHORT_MINIPP_HEADER_CPP'' ''/nonexistent-minipp'';
               linux_src = env_path env ''COHORT_MINIPP_LINUX_SRC'' ''/nonexistent-linux'' in
        bindE (ensure (is_file s binary \<and> exe binary \<and> is_dir s linux_src)
                 (GuardError ''native dynamic MiniPP binary or Linux source missing'')) (\<lambda>_.
        bindE (ensure (env ''COHORT_MINIAS_DYNAMIC_HEADERS'' = Some ''1'')
                 (GuardError ''native dynamic MiniPP requires native MiniAS reconciliation'')) (\<lambda>_.
        bindE (resolved s binary) (\<lambda>b. bindE (resolved s linux_src) (\<lambda>l.
        bindE (case env ''COHORT_MINIPP_PROFILE_SNAPSHOT'' of
                 Some v \<Rightarrow> if v = [] then Inr []
                   else bindE (of_option (GuardOSError ''resolve'') (resolve s (path_tail v))) (\<lambda>pinned.
                     bindE (ensure (is_file s pinned) (GuardError ''pinned native MiniPP macro profile not found'')) (\<lambda>_.
                       Inr [(''MINIPP_PREDEFINES_SNAPSHOT'', posix_of pinned)]))
               | None \<Rightarrow> Inr []) (\<lambda>profile.
          Inr ([(''MINIC_KBUILD_MINIPP'', b), (''MINIPP_LINUX_SRC'', l)] @ profile @
               (if env ''COHORT_MINIPP_NATIVE_MACRO_RULES'' = Some ''1''
                then [(''MINIPP_PREDEFINES_NATIVE_RULES'', ''1'')] else []))))))))"

text \<open>A started program: its command line and variables, and what it does to the store.\<close>

type_synonym program = "string list \<Rightarrow> (string \<times> string) list \<Rightarrow> fs \<Rightarrow> fs \<times> int \<times> string"

definition native_markers :: "string \<Rightarrow> string list" where
  [py_defs]: "native_markers stdout = filter (\<lambda>l. startswith l ''MINIPP_DYNAMIC_HEADER_PP=PASS '') (splitlines stdout)"

definition replay1 ::
  "program \<Rightarrow> bool \<Rightarrow> (string \<times> string) list \<Rightarrow> path \<Rightarrow> path \<Rightarrow> path \<Rightarrow> string \<Rightarrow> (fs, guard_error, unit) prog" where
  [py_defs]: "replay1 run native vars out golden_out wrapper name =
     bindP (readP (\<lambda>s. pinned_kbuild_cc_args s golden_out name)) (\<lambda>cc_args.
     let path = out @ path_tail name in
     bindP (readP (\<lambda>s. ensure (\<not> is_symlink s path) (GuardError (''unsafe final candidate symlink: '' @ name)))) (\<lambda>_.
     bindP (putP (\<lambda>s. if lstat s path = Some DirN then Inl (GuardOSError ''unlink'') else Inr (unlink_missing_ok path s))) (\<lambda>_.
     bindP (readP (\<lambda>s. resolved s wrapper)) (\<lambda>w.
     bindP (\<lambda>s. case run (w # cc_args) vars s of (s', rc, stdout) \<Rightarrow> (s', Inr (rc, stdout))) (\<lambda>(rc, stdout).
     bindP (readP (\<lambda>s. ensure (rc = 0) (GuardError (''dynamic header native producer failed: '' @ name)))) (\<lambda>_.
     bindP (readP (\<lambda>s. if native
              then ensure (\<exists>m. native_markers stdout = [m] \<and> contains (''output='' @ name @ '' '') m)
                     (GuardError (''native MiniPP production provenance missing: '' @ name)) else Inr ())) (\<lambda>_.
       readP (\<lambda>s. ensure (is_file s path \<and> read_bytes s path \<noteq> Some [])
                (GuardError (''direct MiniC replay produced no object: '' @ name))))))))))"

definition replay_affected ::
  "program \<Rightarrow> (string \<Rightarrow> string option) \<Rightarrow> (path \<Rightarrow> bool) \<Rightarrow> path \<Rightarrow> path \<Rightarrow> path \<Rightarrow> path \<Rightarrow> path \<Rightarrow> path \<Rightarrow> path \<Rightarrow>
   (fs, guard_error, unit) prog" where
  [py_defs]: "replay_affected run env exe out golden_out selected wrapper minic success hashes =
     bindP (readP (\<lambda>s. ensure (is_file s wrapper \<and> is_file s minic) (GuardError ''missing MiniC or exact stage2 wrapper''))) (\<lambda>_.
     bindP (readP (\<lambda>s. object_paths s selected)) (\<lambda>names.
     bindP (readP (\<lambda>s. ensure (1 \<le> length names \<and> length names \<le> 16) (GuardError ''replay must target 1..16 C objects''))) (\<lambda>_.
     bindP (write_text success []) (\<lambda>_.
     bindP (write_text hashes []) (\<lambda>_.
     bindP (readP (\<lambda>s. base_environment env s minic success hashes)) (\<lambda>vars.
     bindP (readP (native_environment env exe)) (\<lambda>native_vars.
     bindP (mapP (replay1 run (native_pp env) (vars @ native_vars) out golden_out wrapper) names) (\<lambda>_.
       retP ()))))))))"

section \<open>Capturing one source\<close>

fun clean_options :: "string list \<Rightarrow> guard_error + string list" where
  "clean_options [] = Inr []"
| "clean_options (item # rest) =
     (if item \<in> set [''-c'', ''-MD'', ''-MMD'', ''-MP''] \<or> startswith item ''-Wp,-MMD,'' \<or> startswith item ''-Wp,-MD,''
      then clean_options rest
      else if item \<in> set [''-o'', ''-MF'', ''-MT'', ''-MQ'']
      then (case rest of [] \<Rightarrow> Inl (GuardError (''truncated option in pinned earlycon gcc flags: '' @ item))
            | _ # rest' \<Rightarrow> clean_options rest')
      else bindE (clean_options rest) (\<lambda>clean. Inr (item # clean)))"

definition earlycon :: string where
  [py_defs]: "earlycon = ''drivers/tty/serial/earlycon.o''"

text \<open>A program run with a time limit: \<open>None\<close> when it is exceeded, which the tool does not catch.\<close>

type_synonym timed_program = "string list \<Rightarrow> fs \<Rightarrow> (fs \<times> int \<times> string \<times> string) option"

definition capture_stage :: "timed_program \<Rightarrow> path \<Rightarrow> string \<times> string list \<Rightarrow> (fs, guard_error, unit) prog" where
  [py_defs]: "capture_stage tool destination stage =
     (case stage of (log_name, cmd) \<Rightarrow>
        bindP (\<lambda>s. case tool cmd s of None \<Rightarrow> (s, Inl (GuardCrash ''TimeoutExpired''))
                 | Some (s', rc, stdout, stderr) \<Rightarrow> (s', Inr (rc, stdout, stderr))) (\<lambda>(rc, stdout, stderr).
        bindP (write_text (destination @ [log_name]) (last_n 16000 stdout @ last_n 16000 stderr)) (\<lambda>_.
          readP (\<lambda>s. ensure (rc = 0) (GuardError (''exact earlycon source capture phase failed: '' @ last_n 600 stderr))))))"

definition has_bytes :: "byte list \<Rightarrow> byte list \<Rightarrow> bool" where
  [py_defs]: "has_bytes needle hay \<longleftrightarrow> (\<exists>i \<in> set [0..<Suc (length hay)]. take (length needle) (drop i hay) = needle)"

definition capture_manifest :: "(byte list \<Rightarrow> string) \<Rightarrow> byte list \<Rightarrow> byte list \<Rightarrow> string \<Rightarrow> string" where
  [py_defs]: "capture_manifest sha i_bytes s_bytes minic_sha =
     ''schema=linux-earlycon-source-capture-v1\<newline>'' @
     ''gnu_i_sha256='' @ sha i_bytes @ ''\<newline>minic_s_sha256='' @ sha s_bytes @
     ''\<newline>gnu_i_bytes='' @ str_int (int (length i_bytes)) @ ''\<newline>minic_s_bytes='' @ str_int (int (length s_bytes)) @
     ''\<newline>minic_sha256='' @ minic_sha @ ''\<newline>''"

definition capture_exact_earlycon ::
  "(byte list \<Rightarrow> string) \<Rightarrow> timed_program \<Rightarrow> path \<Rightarrow> path \<Rightarrow> path \<Rightarrow> (fs, guard_error, unit) prog" where
  [py_defs]: "capture_exact_earlycon sha tool golden_out minic destination =
     bindP (readP (\<lambda>s. pinned_kbuild_cc_args s golden_out earlycon)) (\<lambda>cc_args.
     bindP (readP (\<lambda>s. clean_options cc_args)) (\<lambda>clean.
     bindP (readP (\<lambda>s. ensure (\<exists>x \<in> set clean. endswith x ''earlycon.c'')
              (GuardError ''pinned earlycon command has no earlycon.c input''))) (\<lambda>_.
     bindP (mkdirP destination) (\<lambda>_.
     let dest_i = destination @ [''earlycon-exact.i'']; dest_s = destination @ [''earlycon-minic.s''] in
     bindP (readP (\<lambda>s. resolved s minic)) (\<lambda>m.
     bindP (mapP (capture_stage tool destination)
              [(''gcc-E.log'', [''/usr/bin/riscv64-linux-gnu-gcc'', ''-E'', ''-P''] @ clean @ [''-o'', posix_of dest_i]),
               (''minic-S.log'', [m, ''-S'', posix_of dest_i, ''-o'', posix_of dest_s])]) (\<lambda>_.
     bindP (readP (\<lambda>s. ensure (is_file s dest_i \<and> is_file s dest_s) (GuardError ''earlycon preprocessed source or assembly missing''))) (\<lambda>_.
     bindP (readP (\<lambda>s. of_option (GuardOSError ''open'') (read_bytes s dest_i))) (\<lambda>bi.
     bindP (readP (\<lambda>s. ensure (int (length bi) \<le> 48 * 1024 * 1024) (GuardError ''earlycon input too large for bounded artifact''))) (\<lambda>_.
     bindP (readP (\<lambda>s. ensure (has_bytes (encode_utf8 ''setup_earlycon'') bi)
              (GuardError ''exact GNU-preprocessed source lacks setup_earlycon''))) (\<lambda>_.
     bindP (readP (\<lambda>s. of_option (GuardOSError ''open'') (read_bytes s dest_s))) (\<lambda>bs.
     bindP (readP (\<lambda>s. guard_sha sha s minic)) (\<lambda>minic_sha.
       write_text (destination @ [''source-identity.txt'']) (capture_manifest sha bi bs minic_sha)))))))))))))"

section \<open>Stability and repair\<close>

text \<open>Equality of dictionaries does not depend on the order of their items.\<close>

definition same_headers :: "json option \<Rightarrow> (string \<times> string) list \<Rightarrow> bool" where
  [py_defs]: "same_headers v hs \<longleftrightarrow> (case v of
       Some (JObj d) \<Rightarrow> list_all (\<lambda>k. map_of d k = map_of (header_values hs) k) (keys d @ keys hs)
     | _ \<Rightarrow> False)"

definition verify_stable :: "(byte list \<Rightarrow> string) \<Rightarrow> (string \<Rightarrow> json option) \<Rightarrow> path list \<Rightarrow> path \<Rightarrow> path \<Rightarrow> fs \<Rightarrow> guard_error + unit" where
  [py_defs]: "verify_stable sha loads ls out evidence s =
     (let changed = GuardError ''generated headers changed after MiniC dependent TU recompilation'' in
      bindE (load_baseline loads s evidence) (\<lambda>baseline.
      bindE (ensure (get_value baseline ''schema'' = Some (JStr SCHEMA)) changed) (\<lambda>_.
      bindE (generated sha ls s out) (\<lambda>now.
        ensure (same_headers (map_of baseline ''headers'') now) changed))))"

text \<open>
  The headers of the baseline, for the report of the changes; only a missing key is defaulted, and
  other values have no keys to look up.
\<close>

definition baseline_headers :: "(string \<times> json) list \<Rightarrow> guard_error + (string \<times> json) list" where
  [py_defs]: "baseline_headers baseline =
     (case map_of baseline ''headers'' of
        None \<Rightarrow> Inr []
      | Some v \<Rightarrow> of_option (GuardCrash ''baseline headers'') (as_dict v))"

definition repair_headers ::
  "(byte list \<Rightarrow> string) \<Rightarrow> path list \<Rightarrow> path \<Rightarrow> path option \<Rightarrow> (string \<times> json) list \<Rightarrow> (string \<times> string) list \<Rightarrow>
   string list \<Rightarrow> fs \<Rightarrow> guard_error + unit" where
  [py_defs]: "repair_headers sha ls out golden baseline after selected_names s =
     (if same_headers (map_of baseline ''headers'') after then Inr ()
      else bindE (baseline_headers baseline) (\<lambda>previous.
        let changed = changed_keys (header_values after) previous in
        case golden of
          None \<Rightarrow> Inl (GuardError (''generated header content changed, MUST re-preprocess without pinned dependency evidence: ''
                    @ join '','' (take 25 changed)))
        | Some golden_out \<Rightarrow>
            bindE (selected_generated_header_dependents s golden_out selected_names changed) (\<lambda>affected.
              ensure (affected = []) (GuardError (''generated header content changed; only affected MiniC TUs must re-preprocess: headers=''
                @ join '','' (take 25 changed) @ '' affected='' @ join '','' (take 40 affected))))))"

definition mismatch1 ::
  "(byte list \<Rightarrow> string) \<Rightarrow> fs \<Rightarrow> path \<Rightarrow> path \<Rightarrow> string list \<Rightarrow> string \<Rightarrow> guard_error + string list" where
  [py_defs]: "mismatch1 sha s out minic bad name =
     (let path = out @ path_tail name; candidate = minic @ path_tail name in
      bindE (ensure (is_file s path \<and> is_file s candidate) (GuardError (''missing selected candidate/output: '' @ name))) (\<lambda>_.
      bindE (guard_sha sha s path) (\<lambda>a. bindE (guard_sha sha s candidate) (\<lambda>b.
        Inr (if a \<noteq> b then bad @ [name] else bad)))))"

definition repair_inputs ::
  "(byte list \<Rightarrow> string) \<Rightarrow> (string \<Rightarrow> json option) \<Rightarrow> path list \<Rightarrow> path \<Rightarrow> path \<Rightarrow> path \<Rightarrow> path \<Rightarrow> path \<Rightarrow> path option \<Rightarrow>
   fs \<Rightarrow> guard_error + string list" where
  [py_defs]: "repair_inputs sha loads ls out minic selected log evidence golden s =
     bindE (load_baseline loads s evidence) (\<lambda>baseline.
     bindE (ensure (get_value baseline ''schema'' = Some (JStr SCHEMA)) (GuardError ''invalid generated-header baseline schema'')) (\<lambda>_.
     bindE (generated sha ls s out) (\<lambda>after.
     bindE (object_paths s selected) (\<lambda>selected_names.
     bindE (repair_headers sha ls out golden baseline after selected_names s) (\<lambda>_.
     bindE (read_text s log) (\<lambda>log_text.
     let recompiled = map (\<lambda>m. group m 1) (finditer CC log_text) in
     bindE (foldE (mismatch1 sha s out minic) [] selected_names) (\<lambda>bad.
     let unknown = sort (filter (\<lambda>n. n \<notin> set recompiled) bad) in
     bindE (ensure (unknown = []) (GuardError (''MiniC candidate mismatch without Kbuild CC proof: '' @ join '','' (take 25 unknown)))) (\<lambda>_.
       Inr bad))))))))"

definition repair_copy :: "path \<Rightarrow> path \<Rightarrow> string \<Rightarrow> (fs, guard_error, unit) prog" where
  [py_defs]: "repair_copy out minic name =
     putP (\<lambda>s. bindE (of_option (GuardOSError ''open'') (read_bytes s (minic @ path_tail name))) (\<lambda>b.
       of_option (GuardOSError ''write'') (write_bytes b (out @ path_tail name) s)))"

definition repair ::
  "(byte list \<Rightarrow> string) \<Rightarrow> (string \<Rightarrow> json option) \<Rightarrow> path list \<Rightarrow> path \<Rightarrow> path \<Rightarrow> path \<Rightarrow> path \<Rightarrow> path \<Rightarrow> path option \<Rightarrow>
   (fs, guard_error, string list) prog" where
  [py_defs]: "repair sha loads ls out minic selected log evidence golden =
     bindP (readP (repair_inputs sha loads ls out minic selected log evidence golden)) (\<lambda>bad.
     bindP (mapP (repair_copy out minic) bad) (\<lambda>_. retP bad))"

section \<open>The command line\<close>

record guard_args =
  ga_mode :: string
  ga_out :: path
  ga_evidence :: path
  ga_minic :: "path option"
  ga_selected :: "path option"
  ga_link_log :: "path option"
  ga_affected_file :: "path option"
  ga_wrapper :: "path option"
  ga_success_trace :: "path option"
  ga_digest_trace :: "path option"
  ga_golden_out :: "path option"

definition guard_main ::
  "(byte list \<Rightarrow> string) \<Rightarrow> (string \<Rightarrow> json option) \<Rightarrow> path list \<Rightarrow> program \<Rightarrow> timed_program \<Rightarrow> (string \<Rightarrow> string option) \<Rightarrow>
   (path \<Rightarrow> bool) \<Rightarrow> guard_args \<Rightarrow> (fs, guard_error, unit) prog" where
  [py_defs]: "guard_main sha loads ls run tool env exe a =
     (let unitP = (\<lambda>m. bindP m (\<lambda>_. retP ())) in
      if ga_mode a = ''snapshot'' then
        bindP (snapshot sha ls (ga_out a) (ga_evidence a)) (\<lambda>_. bindP (readP (\<lambda>s. generated sha ls s (ga_out a))) (\<lambda>_. retP ()))
      else if ga_mode a = ''impact'' then
        (case (ga_golden_out a, ga_selected a, ga_affected_file a) of
           (Some g, Some sel, Some aff) \<Rightarrow> bindP (header_impact sha loads ls (ga_out a) (ga_evidence a) g sel aff) (\<lambda>_. retP ())
         | _ \<Rightarrow> failP (GuardError ''impact requires --golden-out, --selected, --affected-file''))
      else if ga_mode a = ''stable'' then readP (verify_stable sha loads ls (ga_out a) (ga_evidence a))
      else if ga_mode a = ''capture'' then
        (case (ga_golden_out a, ga_minic a) of
           (Some g, Some m) \<Rightarrow> capture_exact_earlycon sha tool g m (ga_evidence a)
         | _ \<Rightarrow> failP (GuardError ''capture requires pinned --golden-out and --minic''))
      else if ga_mode a = ''replay'' then
        (case (ga_golden_out a, ga_selected a, ga_wrapper a, ga_minic a, ga_success_trace a, ga_digest_trace a) of
           (Some g, Some sel, Some w, Some m, Some ok, Some d) \<Rightarrow> replay_affected run env exe (ga_out a) g sel w m ok d
         | _ \<Rightarrow> failP (GuardError ''replay requires frozen gcc commands and all MiniC attestations''))
      else (case (ga_minic a, ga_selected a, ga_link_log a) of
           (Some m, Some sel, Some l) \<Rightarrow> unitP (repair sha loads ls (ga_out a) m sel l (ga_evidence a) (ga_golden_out a))
         | _ \<Rightarrow> failP (GuardError ''repair requires --minic, --selected, --link-log'')))"

text \<open>The exit status; an exception that is not caught ends the interpreter with status one.\<close>

definition guard_status :: "guard_error + unit \<Rightarrow> int" where
  [py_defs]: "guard_status r = (case r of Inr u \<Rightarrow> 0 | Inl (GuardCrash m) \<Rightarrow> 1 | Inl e \<Rightarrow> 8)"

section \<open>What the header pattern finds\<close>

lemma matches_RLit:
  "matches (RLit w) m = (if startswith (ms_rest m) w
     then [m\<lparr>ms_pos := ms_pos m + length w, ms_prev := (if w = [] then ms_prev m else Some (last w)),
             ms_rest := drop (length w) (ms_rest m)\<rparr>] else [])"
proof (induction w arbitrary: m rule: RLit.induct)
  case (3 c d w)
  then show ?case by (cases "ms_rest m") (auto simp: startswith_def)
qed (auto simp: startswith_def split: list.splits)

lemma matches_assertions:
  "matches (RNotBehind P) m = (if (case ms_prev m of None \<Rightarrow> True | Some c \<Rightarrow> \<not> P c) then [m] else [])"
  "matches (RNotAhead P) m = (if ms_rest m = [] \<or> \<not> P (hd (ms_rest m)) then [m] else [])"
  by (auto split: option.splits list.splits)

definition delimited :: "string \<Rightarrow> string \<Rightarrow> bool" where
  "delimited h body \<longleftrightarrow> (\<exists>u v. body = u @ h @ v \<and> (u = [] \<or> \<not> header_char (last u)) \<and> (v = [] \<or> \<not> header_char (hd v)))"

lemma match_at_header:
  "match_at (header_re h) i pv s \<noteq> None \<longleftrightarrow>
     (case pv of None \<Rightarrow> True | Some c \<Rightarrow> \<not> header_char c) \<and> (\<exists>v. s = h @ v \<and> (v = [] \<or> \<not> header_char (hd v)))"
proof -
  have "match_at (header_re h) i pv s \<noteq> None \<longleftrightarrow> matches (header_re h) (start_state i pv s) \<noteq> []"
    by (auto simp: match_at_def split: list.splits)
  also have "\<dots> \<longleftrightarrow> (case pv of None \<Rightarrow> True | Some c \<Rightarrow> \<not> header_char c) \<and> startswith s h \<and>
      (drop (length h) s = [] \<or> \<not> header_char (hd (drop (length h) s)))"
    by (simp add: header_re_def start_state_def matches_RLit matches_assertions del: matches.simps(11,12))
  also have "\<dots> \<longleftrightarrow> (case pv of None \<Rightarrow> True | Some c \<Rightarrow> \<not> header_char c) \<and> (\<exists>v. s = h @ v \<and> (v = [] \<or> \<not> header_char (hd v)))"
    by (auto simp: startswith_iff)
  finally show ?thesis .
qed

lemma search_header: "re_search (header_re h) body \<noteq> None \<longleftrightarrow> delimited h body"
proof
  assume "re_search (header_re h) body \<noteq> None"
  then obtain m where "search_from (header_re h) 0 None body = Some m" by (auto simp: re_search_def)
  from search_from_Some[OF this] obtain u w where uw: "body = u @ w"
    "match_at (header_re h) (length u) (if u = [] then None else Some (last u)) w = Some m" by auto
  then have "match_at (header_re h) (length u) (if u = [] then None else Some (last u)) w \<noteq> None" by simp
  from this[unfolded match_at_header] uw(1) show "delimited h body"
    unfolding delimited_def by (auto split: if_splits)
next
  assume "delimited h body"
  then obtain u v where uv: "body = u @ (h @ v)" "u = [] \<or> \<not> header_char (last u)" "v = [] \<or> \<not> header_char (hd v)"
    by (auto simp: delimited_def)
  then have "match_at (header_re h) (length u) (if u = [] then None else Some (last u)) (h @ v) \<noteq> None"
    unfolding match_at_header by auto
  with search_from_None[of "header_re h" 0 None body u "h @ v"] uv(1)
  show "re_search (header_re h) body \<noteq> None" by (auto simp: re_search_def)
qed

text \<open>An object depends on a changed header when its recorded closure mentions the header.\<close>

definition depends_on :: "fs \<Rightarrow> path \<Rightarrow> string list \<Rightarrow> string \<Rightarrow> bool" where
  "depends_on s golden changed name \<longleftrightarrow>
     (\<exists>body. read_text_replace s (cmd_file golden name) = Inr body \<and> (\<exists>h \<in> set changed. delimited h body))"

definition closure_known :: "fs \<Rightarrow> path \<Rightarrow> string \<Rightarrow> bool" where
  "closure_known s golden name \<longleftrightarrow> is_file s (cmd_file golden name) \<and> \<not> is_symlink s (cmd_file golden name) \<and>
     (\<exists>body. read_text_replace s (cmd_file golden name) = Inr body \<and> re_search DEPS_RE body \<noteq> None)"

lemma dependents_spec:
  "selected_generated_header_dependents s golden names changed = Inr affected \<Longrightarrow>
   affected = filter (depends_on s golden changed) names \<and> (\<forall>n \<in> set names. closure_known s golden n)"
  unfolding selected_generated_header_dependents_def
proof (erule foldE_prefix_invariant[where P = "\<lambda>ys a. a = filter (depends_on s golden changed) ys \<and> (\<forall>n \<in> set ys. closure_known s golden n)"])
  fix ys n a b assume *: "a = filter (depends_on s golden changed) ys \<and> (\<forall>n \<in> set ys. closure_known s golden n)"
    "dependent1 s golden changed a n = Inr b"
  from *(2)[unfolded dependent1_def Let_def search_header] obtain body where
    "read_text_replace s (cmd_file golden n) = Inr body" "closure_known s golden n"
    "b = a @ [n] \<and> (\<exists>h \<in> set changed. delimited h body) \<or> b = a \<and> \<not> (\<exists>h \<in> set changed. delimited h body)"
    by (auto simp: resE closure_known_def split: if_splits)
  moreover from this have "depends_on s golden changed n \<longleftrightarrow> (\<exists>h \<in> set changed. delimited h body)"
    by (auto simp: depends_on_def)
  ultimately show "b = filter (depends_on s golden changed) (ys @ [n]) \<and> (\<forall>n \<in> set (ys @ [n]). closure_known s golden n)"
    using *(1) by auto
qed simp

text \<open>
  C33. A successful impact analysis is sound: only the two tolerated headers have changed, every other
  generated input has the recorded digest, and if anything changed, the affected objects are exactly
  the selected ones whose recorded dependency closure mentions a changed header as a whole path,
  with a known closure for every selected object and at most sixteen affected.
\<close>

theorem header_impact_sound:
  assumes "header_impact sha loads ls out evidence golden selected affected_file s = (t, Inr (changed, impacted))"
  shows "set changed \<subseteq> set ALLOWED_HEADERS \<and> length impacted \<le> 16 \<and>
    (\<exists>now previous. generated sha ls s out = Inr now \<and>
       (\<exists>baseline. load_baseline loads s evidence = Inr baseline \<and> map_of baseline ''headers'' = Some (JObj previous)) \<and>
       (\<forall>k. k \<notin> set changed \<longrightarrow> get_value (header_values now) k = get_value previous k)) \<and>
    (if changed = [] then impacted = []
     else \<exists>names. object_paths s selected = Inr names \<and> impacted = filter (depends_on s golden changed) names \<and>
       (\<forall>n \<in> set names. closure_known s golden n))"
proof -
  from assms have "impact_inputs sha loads ls out evidence golden selected s = Inr (changed, impacted)"
    by (auto simp: header_impact_def bindP_Inr)
  then obtain baseline now previous where b: "load_baseline loads s evidence = Inr baseline"
    "generated sha ls s out = Inr now" "Option.bind (get_value baseline ''headers'') as_dict = Some previous"
    "changed = changed_keys (header_values now) previous" "set changed \<subseteq> set ALLOWED_HEADERS" "length impacted \<le> 16"
    "(if changed \<noteq> [] then bindE (object_paths s selected) (\<lambda>names.
        selected_generated_header_dependents s golden names changed) else Inr []) = Inr impacted"
    by (auto simp: impact_inputs_def resE Let_def simp del: changed_keys_def)
  have "get_value (header_values now) k = get_value previous k" if "k \<notin> set changed" for k
  proof (cases "k \<in> set (keys (header_values now)) \<union> set (keys previous)")
    case True
    with that b(4) show ?thesis by (auto simp: changed_keys_def)
  next
    case False
    then have "map_of (header_values now) k = None" "map_of previous k = None" by (auto simp: map_of_eq_None_iff)
    then show ?thesis by (simp add: get_value_def)
  qed
  moreover have "map_of baseline ''headers'' = Some (JObj previous)"
    using b(3) by (auto simp: get_value_def resE split: option.splits json.splits)
  moreover have "if changed = [] then impacted = []
     else \<exists>names. object_paths s selected = Inr names \<and> impacted = filter (depends_on s golden changed) names \<and>
       (\<forall>n \<in> set names. closure_known s golden n)"
    using b(7) dependents_spec by (auto simp: resE split: if_splits)
  ultimately show ?thesis using b(1,2,5,6) by blast
qed

section \<open>Repair\<close>

lemma mapP_fail: "mapP f xs s = (t, Inl e) \<Longrightarrow> \<exists>x \<in> set xs. \<exists>u v. f x u = (v, Inl e)"
proof (induction xs arbitrary: s)
  case (Cons x xs)
  then show ?case by (fastforce simp: bindP_def retP_def split: prod.splits sum.splits)
qed (simp add: retP_def)

text \<open>
  C34. The guard fails closed: when a repair is rejected for any reason of the guard's own, a changed
  header that a selected object depends on, a missing object, a mismatch without a recorded
  compilation, the store is exactly as it was.
\<close>

theorem repair_rejects_unchanged:
  assumes "repair sha loads ls out minic selected log evidence golden s = (t, Inl (GuardError m))"
  shows "t = s"
proof (cases "repair_inputs sha loads ls out minic selected log evidence golden s")
  case (Inl e)
  with assms show ?thesis by (simp add: repair_def bindP_readP)
next
  case (Inr bad)
  with assms have "bindP (mapP (repair_copy out minic) bad) (\<lambda>_. retP bad) s = (t, Inl (GuardError m))"
    by (simp add: repair_def bindP_readP)
  then have "mapP (repair_copy out minic) bad s = (t, Inl (GuardError m))"
    by (auto simp: bindP_def retP_def split: prod.splits sum.splits)
  from mapP_fail[OF this] obtain x u v where "repair_copy out minic x u = (v, Inl (GuardError m))" by blast
  then show ?thesis by (auto simp: repair_copy_def putP_def bindE_Inl_iff of_option_def split: sum.splits option.splits)
qed

lemma object_path1_Inr:
  "object_path1 os line = Inr os' \<Longrightarrow> os' = os \<or> (\<exists>n. os' = os @ [n] \<and> ''..'' \<notin> set (path_tail n) \<and> path_tail n \<noteq> [])"
proof -
  have "''..'' \<in> set (path_parts n)" if "''..'' \<in> set (path_tail n)" for n using that by (simp add: path_parts_def)
  moreover have "path_tail n \<noteq> []" if "\<not> is_absolute n" "\<not> length (path_parts n) < 2" for n
    using that by (auto simp: path_parts_def is_absolute_def)
  ultimately show "object_path1 os line = Inr os' \<Longrightarrow> ?thesis"
    unfolding object_path1_def Let_def by (auto split: if_splits)
qed

lemma object_paths_safe:
  assumes "object_paths s p = Inr names"
  shows "\<forall>n \<in> set names. ''..'' \<notin> set (path_tail n) \<and> path_tail n \<noteq> []"
proof -
  from assms obtain t where "foldE object_path1 [] (splitlines t) = Inr names" by (auto simp: object_paths_def resE)
  then show ?thesis
    by (rule foldE_invariant[where P = "\<lambda>os. \<forall>n \<in> set os. ''..'' \<notin> set (path_tail n) \<and> path_tail n \<noteq> []"])
      (auto dest!: object_path1_Inr)
qed

lemma sort_eq_Nil [simp]: "sort_key f xs = [] \<longleftrightarrow> xs = []"
  by (metis length_0_conv length_sort)

definition digests_differ :: "(byte list \<Rightarrow> string) \<Rightarrow> fs \<Rightarrow> path \<Rightarrow> path \<Rightarrow> string \<Rightarrow> bool" where
  "digests_differ sha s out minic n \<longleftrightarrow> guard_sha sha s (out @ path_tail n) \<noteq> guard_sha sha s (minic @ path_tail n)"

lemma mismatches_spec:
  "foldE (mismatch1 sha s out minic) [] names = Inr bad \<Longrightarrow>
   bad = filter (digests_differ sha s out minic) names \<and>
   (\<forall>n \<in> set names. is_file s (out @ path_tail n) \<and> is_file s (minic @ path_tail n))"
proof (erule foldE_prefix_invariant[where P = "\<lambda>ys b. b = filter (digests_differ sha s out minic) ys \<and>
    (\<forall>n \<in> set ys. is_file s (out @ path_tail n) \<and> is_file s (minic @ path_tail n))"])
  fix ys n a b assume *: "a = filter (digests_differ sha s out minic) ys \<and>
      (\<forall>n \<in> set ys. is_file s (out @ path_tail n) \<and> is_file s (minic @ path_tail n))" "mismatch1 sha s out minic a n = Inr b"
  from *(2) have "is_file s (out @ path_tail n)" "is_file s (minic @ path_tail n)"
    "b = (if digests_differ sha s out minic n then a @ [n] else a)"
    by (auto simp: mismatch1_def Let_def resE digests_differ_def split: if_splits)
  with *(1) show "b = filter (digests_differ sha s out minic) (ys @ [n]) \<and>
      (\<forall>n \<in> set (ys @ [n]). is_file s (out @ path_tail n) \<and> is_file s (minic @ path_tail n))" by auto
qed simp

lemma repair_copies:
  assumes "plain s" and "mapP (repair_copy out minic) bad s = (t, Inr us)"
    and "''..'' \<notin> set (out @ minic)" and "\<forall>x y. out @ x \<noteq> minic @ y"
    and "\<forall>n \<in> set bad. ''..'' \<notin> set (path_tail n) \<and> path_tail n \<noteq> []"
  shows "plain t \<and> (\<forall>p. p \<notin> (\<lambda>n. out @ path_tail n) ` set bad \<longrightarrow> t p = s p) \<and>
    (\<forall>n \<in> set bad. \<exists>b. s (minic @ path_tail n) = Some (FileN b) \<and> t (out @ path_tail n) = Some (FileN b))"
  using assms
proof (induction bad arbitrary: s us)
  case (Cons n bad)
  let ?d = "out @ path_tail n"
  from Cons.prems(2) obtain s1 us' where s1: "repair_copy out minic n s = (s1, Inr ())" "mapP (repair_copy out minic) bad s1 = (t, Inr us')"
    by (auto simp: bindP_Inr)
  from s1(1) obtain b where b: "read_bytes s (minic @ path_tail n) = Some b" "write_bytes b ?d s = Some s1"
    by (auto simp: repair_copy_def resE)
  have nd: "''..'' \<notin> set ?d" "''..'' \<notin> set (minic @ path_tail n)" "?d \<noteq> []" using Cons.prems(3,5) by auto
  from write_bytes_plain[OF Cons.prems(1) nd(1,3) b(2)] have w: "s1 = s(?d \<mapsto> FileN b)" "plain s1" by auto
  have src: "s (minic @ path_tail n) = Some (FileN b)" using read_bytes_plain[OF Cons.prems(1) nd(2), of b] b(1) by simp
  from Cons.IH[OF w(2) s1(2) Cons.prems(3,4)] Cons.prems(5)
  have IH: "plain t" "\<forall>p. p \<notin> (\<lambda>n. out @ path_tail n) ` set bad \<longrightarrow> t p = s1 p"
    "\<forall>n \<in> set bad. \<exists>b. s1 (minic @ path_tail n) = Some (FileN b) \<and> t (out @ path_tail n) = Some (FileN b)" by auto
  have keep: "s1 (minic @ x) = s (minic @ x)" for x using Cons.prems(4) by (simp add: w(1)) (metis)
  have "\<exists>b. s (minic @ path_tail n') = Some (FileN b) \<and> t (out @ path_tail n') = Some (FileN b)" if "n' \<in> set (n # bad)" for n'
  proof (cases "n' \<in> set bad")
    case True
    with IH(3) keep show ?thesis by metis
  next
    case False
    with that have n': "n' = n" by simp
    show ?thesis
    proof (cases "?d \<in> (\<lambda>n. out @ path_tail n) ` set bad")
      case True
      then obtain k where k: "k \<in> set bad" "path_tail k = path_tail n" by auto
      with IH(3) keep n' show ?thesis by metis
    next
      case False
      with IH(2) have "t ?d = s1 ?d" by blast
      with src n' show ?thesis by (simp add: w(1))
    qed
  qed
  moreover have "t p = s p" if "p \<notin> (\<lambda>n. out @ path_tail n) ` set (n # bad)" for p
    using that IH(2) by (auto simp: w(1))
  ultimately show ?case using IH(1) by blast
qed simp

text \<open>
  C35. After a successful repair over a store without links, with separate output and candidate trees,
  every selected output has the digest of its candidate.  The repaired objects are exactly the
  selected ones whose digests differed before, each of them was compiled according to the link log,
  each now holds the candidate's bytes, and nothing else in the store has changed.
\<close>

theorem repair_restores_candidates:
  assumes "plain s" and "repair sha loads ls out minic selected log evidence golden s = (t, Inr bad)"
    and "''..'' \<notin> set (out @ minic)" and "\<forall>x y. out @ x \<noteq> minic @ y"
  shows "\<exists>names log_text. object_paths s selected = Inr names \<and> read_text s log = Inr log_text \<and>
    bad = filter (digests_differ sha s out minic) names \<and>
    set bad \<subseteq> (\<lambda>m. group m 1) ` set (finditer CC log_text) \<and>
    (\<forall>n \<in> set names. \<not> digests_differ sha t out minic n) \<and>
    (\<forall>n \<in> set bad. t (out @ path_tail n) = s (minic @ path_tail n)) \<and>
    (\<forall>p. p \<notin> (\<lambda>n. out @ path_tail n) ` set bad \<longrightarrow> t p = s p)"
proof -
  from assms(2) obtain us where ri: "repair_inputs sha loads ls out minic selected log evidence golden s = Inr bad"
    and cp: "mapP (repair_copy out minic) bad s = (t, Inr us)" by (auto simp: repair_def bindP_Inr)
  from ri obtain names log_text where n: "object_paths s selected = Inr names" "read_text s log = Inr log_text"
    "foldE (mismatch1 sha s out minic) [] names = Inr bad"
    "filter (\<lambda>n. n \<notin> (\<lambda>m. group m 1) ` set (finditer CC log_text)) bad = []"
    by (auto simp: repair_inputs_def resE Let_def)
  note bad = mismatches_spec[OF n(3)] and safe = object_paths_safe[OF n(1)]
  from bad safe have sb: "\<forall>n \<in> set bad. ''..'' \<notin> set (path_tail n) \<and> path_tail n \<noteq> []" by auto
  note c = repair_copies[OF assms(1) cp assms(3,4) sb]
  have t: "plain t" and other: "\<And>p. p \<notin> (\<lambda>n. out @ path_tail n) ` set bad \<Longrightarrow> t p = s p"
    and cand: "\<forall>n \<in> set bad. \<exists>b. s (minic @ path_tail n) = Some (FileN b) \<and> t (out @ path_tail n) = Some (FileN b)" using c by auto
  have mk: "t (minic @ x) = s (minic @ x)" for x by (rule other) (use assms(4) in \<open>metis imageE\<close>)
  have gs: "guard_sha sha u p = (case u p of Some (FileN b) \<Rightarrow> Inr (sha b) | _ \<Rightarrow> Inl (GuardOSError ''open''))"
    if "plain u" "''..'' \<notin> set p" "p \<noteq> []" for u p
    using that by (auto simp: guard_sha_def read_bytes_def stat_plain plain_def node_at_def split: option.splits node.splits)
  have "\<not> digests_differ sha t out minic n" if m: "n \<in> set names" for n
  proof -
    have p: "''..'' \<notin> set (out @ path_tail n)" "out @ path_tail n \<noteq> []" "''..'' \<notin> set (minic @ path_tail n)" "minic @ path_tail n \<noteq> []"
      using assms(3) safe m by auto
    show ?thesis
    proof (cases "out @ path_tail n \<in> (\<lambda>n. out @ path_tail n) ` set bad")
      case True
      then obtain k where "k \<in> set bad" "path_tail k = path_tail n" by auto
      with cand obtain b where "s (minic @ path_tail n) = Some (FileN b)" "t (out @ path_tail n) = Some (FileN b)" by metis
      then show ?thesis by (simp add: digests_differ_def gs[OF t p(1,2)] gs[OF t p(3,4)] mk)
    next
      case False
      then have "n \<notin> set bad" by auto
      with bad m have "\<not> digests_differ sha s out minic n" by auto
      then show ?thesis 
        by (simp add: digests_differ_def gs[OF t p(1,2)] gs[OF t p(3,4)] gs[OF assms(1) p(1,2)] gs[OF assms(1) p(3,4)] mk other[OF False])
    qed
  qed
  moreover have "t (out @ path_tail n) = s (minic @ path_tail n)" if "n \<in> set bad" for n using cand that by fastforce
  moreover have "set bad \<subseteq> (\<lambda>m. group m 1) ` set (finditer CC log_text)" using n(4) by (auto simp: filter_empty_conv)
  ultimately show ?thesis using n(1,2) bad other by blast
qed

text \<open>
  A kernel tree with one selected object that the build has overwritten, and one generated header;
  the second tree has a changed header that the object depends on.
\<close>

definition demo_tree :: fs where
  "demo_tree = [[''o''] \<mapsto> DirN, [''o'', ''include''] \<mapsto> DirN, [''o'', ''include'', ''generated''] \<mapsto> DirN,
     [''o'', ''include'', ''generated'', ''compile.h''] \<mapsto> FileN [0x61],
     [''o'', ''d''] \<mapsto> DirN, [''o'', ''d'', ''x.o''] \<mapsto> FileN [1],
     [''m''] \<mapsto> DirN, [''m'', ''d''] \<mapsto> DirN, [''m'', ''d'', ''x.o''] \<mapsto> FileN [2],
     [''g''] \<mapsto> DirN, [''g'', ''d''] \<mapsto> DirN,
     [''g'', ''d'', ''.x.o.cmd''] \<mapsto> FileN (encode_utf8 ''deps_x := include/generated/compile.h''),
     [''sel''] \<mapsto> FileN (encode_utf8 ''d/x.o''), [''log''] \<mapsto> FileN (encode_utf8 '' CC d/x.o''), [''ev''] \<mapsto> FileN []]"

definition demo_digest :: "byte list \<Rightarrow> string" where
  "demo_digest b = map (\<lambda>x. char_of (unat x)) b"

definition demo_baseline :: "string \<Rightarrow> string \<Rightarrow> json option" where
  "demo_baseline h t = Some (JObj [(''schema'', JStr SCHEMA), (''headers'', JObj [(''include/generated/compile.h'', JStr h)])])"

definition demo_paths :: "path list" where
  "demo_paths = [[''o'', ''include'', ''generated'', ''compile.h'']]"

lemma demo_tree_plain: "plain demo_tree"
proof -
  have "\<forall>p c. demo_tree (p @ [c]) \<noteq> None \<longrightarrow> node_at demo_tree p = Some DirN"
    by (auto simp: demo_tree_def node_at_def append_eq_Cons_conv split: if_splits)
  moreover have "no_links demo_tree" by (auto simp: no_links_def demo_tree_def split: if_splits)
  ultimately show ?thesis by (simp add: plain_def fs_wf_def demo_tree_def)
qed

theorem repair_restores_candidates_witness:
  "\<exists>t. repair demo_digest (demo_baseline ''a'') demo_paths [''o''] [''m''] [''sel''] [''log''] [''ev''] None demo_tree = (t, Inr [''d/x.o'']) \<and>
     t [''o'', ''d'', ''x.o''] = Some (FileN [2])"
proof -
  let ?r = "repair demo_digest (demo_baseline ''a'') demo_paths [''o''] [''m''] [''sel''] [''log''] [''ev''] None demo_tree"
  have "snd ?r = Inr [''d/x.o'']" by code_simp
  then obtain t where r: "?r = (t, Inr [''d/x.o''])" by (cases ?r) simp
  from repair_restores_candidates[OF demo_tree_plain r]
  have "\<forall>n \<in> set [''d/x.o'']. t ([''o''] @ path_tail n) = demo_tree ([''m''] @ path_tail n)" by auto
  moreover have "path_tail ''d/x.o'' = [''d'', ''x.o'']" by code_simp
  ultimately have "t [''o'', ''d'', ''x.o''] = Some (FileN [2])" by (simp add: demo_tree_def)
  with r show ?thesis by blast
qed

theorem repair_rejects_unchanged_witness:
  "\<exists>m. repair demo_digest (demo_baseline ''b'') demo_paths [''o''] [''m''] [''sel''] [''log''] [''ev''] None demo_tree =
     (demo_tree, Inl (GuardError m))"
proof -
  let ?r = "repair demo_digest (demo_baseline ''b'') demo_paths [''o''] [''m''] [''sel''] [''log''] [''ev''] None demo_tree"
  have "case snd ?r of Inl (GuardError m) \<Rightarrow> True | _ \<Rightarrow> False" by code_simp
  then obtain t m where r: "?r = (t, Inl (GuardError m))" by (cases ?r) (auto split: sum.splits guard_error.splits)
  with repair_rejects_unchanged[OF r] show ?thesis by blast
qed

theorem header_impact_sound_witness:
  "\<exists>t. header_impact demo_digest (demo_baseline ''b'') demo_paths [''o''] [''ev''] [''g''] [''sel''] [''aff''] demo_tree =
       (t, Inr ([''include/generated/compile.h''], [''d/x.o''])) \<and>
     depends_on demo_tree [''g''] [''include/generated/compile.h''] ''d/x.o''"
proof -
  let ?r = "header_impact demo_digest (demo_baseline ''b'') demo_paths [''o''] [''ev''] [''g''] [''sel''] [''aff''] demo_tree"
  have "snd ?r = Inr ([''include/generated/compile.h''], [''d/x.o''])" by code_simp
  then obtain t where r: "?r = (t, Inr ([''include/generated/compile.h''], [''d/x.o'']))" by (cases ?r) simp
  from header_impact_sound[OF r] obtain names where
    "[''d/x.o''] = filter (depends_on demo_tree [''g''] [''include/generated/compile.h'']) names" by auto
  then have "''d/x.o'' \<in> set (filter (depends_on demo_tree [''g''] [''include/generated/compile.h'']) names)" by (metis list.set_intros(1))
  then have "depends_on demo_tree [''g''] [''include/generated/compile.h''] ''d/x.o''" by simp
  with r show ?thesis by blast
qed

end
