(* ===== verification/Grouping.thy ===== *)
theory Grouping
  imports Prelude
begin

text \<open>
  Grouping as the reports do it: a \<^verbatim>\<open>defaultdict(list)\<close> to which items are appended under their key, and
  the ranking of the groups by decreasing size and then by key.  Shown here: a group is the
  subsequence of the items with its key, a ranking is sorted, and the groups partition the items.
\<close>

definition group_add :: "'k \<Rightarrow> 'a \<Rightarrow> ('k \<times> 'a list) list \<Rightarrow> ('k \<times> 'a list) list" where
  [py_defs]: "group_add k x d = AList.update k ((case map_of d k of None \<Rightarrow> [] | Some g \<Rightarrow> g) @ [x]) d"

definition group_all :: "('a \<Rightarrow> 'k) \<Rightarrow> 'a list \<Rightarrow> ('k \<times> 'a list) list" where
  [py_defs]: "group_all key xs = foldl (\<lambda>d x. group_add (key x) x d) [] xs"

definition ranked :: "('k :: linorder \<times> 'a list) list \<Rightarrow> ('k \<times> 'a list) list" where
  [py_defs]: "ranked d = sort_key (\<lambda>(k, g). (- int (length g), k)) d"

lemma group_all_snoc [simp]: "group_all key (xs @ [x]) = group_add (key x) x (group_all key xs)"
  by (simp add: group_all_def)

lemma distinct_group_all: "distinct (keys (group_all key xs))"
  by (induction xs rule: rev_induct) (simp_all add: group_add_def distinct_update, simp add: group_all_def)

lemma map_of_group_all:
  "map_of (group_all key xs) k =
     (if filter (\<lambda>x. key x = k) xs = [] then None else Some (filter (\<lambda>x. key x = k) xs))"
proof (induction xs rule: rev_induct)
  case Nil
  then show ?case by (simp add: group_all_def)
next
  case (snoc x xs)
  then show ?case by (auto simp: group_add_def update_conv' simp del: filter_empty_conv)
qed

lemma group_all_mem: "(k, g) \<in> set (group_all key xs) \<longleftrightarrow> g = filter (\<lambda>x. key x = k) xs \<and> g \<noteq> []"
proof -
  have "(k, g) \<in> set (group_all key xs) \<longleftrightarrow> map_of (group_all key xs) k = Some g"
    using map_of_eq_Some_iff[OF distinct_group_all, of key xs k g] by simp
  then show ?thesis by (auto simp: map_of_group_all simp del: filter_empty_conv)
qed

lemma mset_group_add:
  "distinct (keys d) \<Longrightarrow> mset (concat (map snd (group_add k x d))) = add_mset x (mset (concat (map snd d)))"
proof -
  assume "distinct (keys d)"
  then have "mset (concat (map snd (AList.update k (g @ [x]) d))) = add_mset x (mset (concat (map snd d)))"
    if "g = (case map_of d k of None \<Rightarrow> [] | Some g \<Rightarrow> g)" for g
    using that by (induction d) (auto split: option.splits)
  then show ?thesis by (simp add: group_add_def)
qed

lemma mset_group_all: "mset (concat (map snd (group_all key xs))) = mset xs"
proof (induction xs rule: rev_induct)
  case Nil
  then show ?case by (simp add: group_all_def)
next
  case (snoc x xs)
  then show ?case by (simp add: mset_group_add[OF distinct_group_all])
qed

definition rank_key :: "'k :: linorder \<times> 'a list \<Rightarrow> int \<times> 'k" where
  "rank_key kg = (- int (length (snd kg)), fst kg)"

lemma ranked_alt: "ranked d = sort_key rank_key d"
  by (simp add: ranked_def rank_key_def[abs_def] case_prod_unfold)

lemma ranked_sorted: "sorted_wrt (\<lambda>x y. rank_key x \<le> rank_key y) (ranked d)"
  using sorted_sort_key[of rank_key d] by (simp add: ranked_alt sorted_map)

lemma ranked_mset: "mset (concat (map snd (ranked d))) = mset (concat (map snd d))"
proof -
  have "mset (concat (map snd xs)) = \<Sum>\<^sub># (image_mset (\<lambda>kg. mset (snd kg)) (mset xs))" for xs :: "('b \<times> 'a list) list"
    by (induction xs) auto
  then show ?thesis by (simp add: ranked_alt)
qed

text \<open>
  What a report promises of a ranking of \<open>xs\<close> by \<open>key\<close>: every group is the non-empty subsequence of
  its key, no key occurs twice, the groups together are the items, larger groups come first and
  equally large ones in the order of their keys.
\<close>

definition ranking_of :: "('a \<Rightarrow> 'k :: linorder) \<Rightarrow> 'a list \<Rightarrow> ('k \<times> 'a list) list \<Rightarrow> bool" where
  "ranking_of key xs rs \<longleftrightarrow>
     (\<forall>(k, g) \<in> set rs. g = filter (\<lambda>x. key x = k) xs \<and> g \<noteq> []) \<and> distinct (keys rs) \<and>
     mset (concat (map snd rs)) = mset xs \<and>
     sorted_wrt (\<lambda>(k, g) (k', g'). length g' < length g \<or> length g' = length g \<and> k < k') rs"

lemma sorted_wrt_keys: "distinct (keys rs) \<Longrightarrow> sorted_wrt P rs \<Longrightarrow> sorted_wrt (\<lambda>x y. P x y \<and> fst x \<noteq> fst y) rs"
  by (induction rs) (auto simp: rev_image_eqI)

lemma ranked_group_all: "ranking_of key xs (ranked (group_all key xs))"
proof -
  let ?rs = "ranked (group_all key xs)"
  have d: "distinct (keys ?rs)"
    using distinct_group_all[of key xs] by (simp add: ranked_alt distinct_map)
  have "sorted_wrt (\<lambda>x y. rank_key x \<le> rank_key y) ?rs" by (rule ranked_sorted)
  with d have "sorted_wrt (\<lambda>x y. rank_key x \<le> rank_key y \<and> fst x \<noteq> fst y) ?rs" by (rule sorted_wrt_keys)
  then have "sorted_wrt (\<lambda>(k, g) (k', g'). length g' < length g \<or> length g' = length g \<and> k < k') ?rs"
    by (rule sorted_wrt_mono_rel[rotated]) (auto simp: rank_key_def)
  moreover have "\<forall>(k, g) \<in> set ?rs. g = filter (\<lambda>x. key x = k) xs \<and> g \<noteq> []"
    using group_all_mem[of _ _ key xs] by (auto simp: ranked_alt)
  ultimately show ?thesis using d by (simp add: ranking_of_def ranked_mset mset_group_all)
qed

end
