(* ===== verification/PyRepr.thy ===== *)
theory PyRepr
  imports Json
begin

text \<open>
  \<^verbatim>\<open>repr\<close> and \<^verbatim>\<open>str\<close> of the values that come from JSON documents and of lists of strings.
\<close>

text \<open>\<^verbatim>\<open>repr(v)\<close> and \<^verbatim>\<open>str(v)\<close> of a field of a row.\<close>

definition repr_char :: "char \<Rightarrow> char \<Rightarrow> string" where
  [py_defs]: "repr_char q c =
     (let n = (of_char c :: int) in
      if c = q \<or> n = 92 then [CHR 0x5C, c]
      else if n = 10 then [CHR 0x5C, CHR ''n'']
      else if n = 13 then [CHR 0x5C, CHR ''r'']
      else if n = 9 then [CHR 0x5C, CHR ''t'']
      else if 32 \<le> n \<and> n \<le> 126 \<or> 161 \<le> n \<and> n \<noteq> 173 then [c]
      else [CHR 0x5C, CHR ''x'', digit_char (n div 16), digit_char (n mod 16)])"

definition repr_str :: "string \<Rightarrow> string" where
  [py_defs]: "repr_str t =
     (let q = (if CHR 0x27 \<in> set t \<and> CHR 0x22 \<notin> set t then CHR 0x22 else CHR 0x27) in
      [q] @ concat (map (repr_char q) t) @ [q])"

fun py_repr :: "json \<Rightarrow> string" where
  "py_repr JNull = ''None''"
| "py_repr (JBool b) = (if b then ''True'' else ''False'')"
| "py_repr (JInt i) = str_int i"
| "py_repr (JStr t) = repr_str t"
| "py_repr (JList xs) = ''['' @ join '', '' (map py_repr xs) @ '']''"
| "py_repr (JObj kvs) = ''{'' @ join '', '' (map (\<lambda>(k, v). repr_str k @ '': '' @ py_repr v) kvs) @ ''}''"

definition py_str :: "json \<Rightarrow> string" where
  [py_defs]: "py_str v = (case v of JStr t \<Rightarrow> t | _ \<Rightarrow> py_repr v)"

definition repr_list :: "string list \<Rightarrow> string" where
  [py_defs]: "repr_list xs = py_repr (JList (map JStr xs))"

end
