(* ===== verification/CoreStrict.thy ===== *)
theory CoreStrict
  imports Grouping PyRegex PyRepr
begin

text \<open>
  \<^verbatim>\<open>src/tools/ci/classify-core-strict-frontier.py\<close>: the results of a strict replay, one row per input, are
  split into passes, unsupported functions, errors and missing inputs, and the unsupported ones are
  grouped and ranked by function, by feature family and by fingerprint.

  A row is a JSON object.  The value of a field is turned into text as \<^verbatim>\<open>str\<close> does for strings,
  numbers, Booleans and null; other values do not occur in such rows and are given by their JSON
  text.  The files read are arguments: the text of the header with the enumerations, and a function
  from file names below the directory of traces to their texts (\<open>None\<close> without such a directory).

  Shown here: the classes are disjoint and complete, the three rankings partition the unsupported
  rows, and the exit status and the printed counts agree with them.
\<close>

definition UNSUPPORTED_RE :: re where
  [py_defs]: "UNSUPPORTED_RE = RSeqs [RBol, RLit ''Core IR shadow does not yet support function '', RSet (\<lambda>c. c = CHR 0x27),
     RGroup 1 (RPlus (RSet (\<lambda>c. c \<noteq> CHR 0x27))), RSet (\<lambda>c. c = CHR 0x27), REol]"

definition marker_char :: "char \<Rightarrow> bool" where
  [py_defs]: "marker_char c \<longleftrightarrow> (let n = (of_char c :: nat) in 65 \<le> n \<and> n \<le> 90) \<or> is_digit c \<or> c = CHR ''_''"

definition TRACE_MARKER_RE :: re where
  [py_defs]: "TRACE_MARKER_RE = RSeqs [RBol, RGroup 1 (RSeq (RLit ''CORE_'') (RPlus (RSet marker_char))), RBound]"

definition name_start :: "char \<Rightarrow> bool" where
  [py_defs]: "name_start c \<longleftrightarrow> is_alpha c \<or> c = CHR ''_''"

definition name_char :: "char \<Rightarrow> bool" where
  [py_defs]: "name_char c \<longleftrightarrow> name_start c \<or> is_digit c"

definition NAME_RE :: re where
  [py_defs]: "NAME_RE = RSeq (RSet name_start) (RStar (RSet name_char))"

definition TRACE_FIELD_RE :: re where
  [py_defs]: "TRACE_FIELD_RE = RSeqs [RBound, RGroup 1 NAME_RE, RLit ''='', RGroup 2 (RPlus (RSet (\<lambda>c. \<not> is_ws c)))]"

definition EXPRESSION_KIND_FIELDS :: "string list" where
  [py_defs]: "EXPRESSION_KIND_FIELDS = [''source_kind'', ''operand_kind'', ''condition_kind'', ''expression_kind'',
     ''target_kind'', ''callee_kind'', ''argument_kind'', ''value_kind'']"

definition VOLATILE_TRACE_FIELDS :: "string list" where
  [py_defs]: "VOLATILE_TRACE_FIELDS = [''function'', ''status'', ''span'', ''break_target'', ''block'', ''block_id'',
     ''value'', ''value_id'', ''object'', ''object_id'', ''local'', ''local_id'', ''statement'', ''statement_id'']"

section \<open>Enumerations\<close>

text \<open>\<^verbatim>\<open>re.sub(pattern, "", text)\<close> for patterns that do not match the empty string.\<close>

fun erase_between :: "nat \<Rightarrow> re_match list \<Rightarrow> string \<Rightarrow> string" where
  "erase_between i [] s = s"
| "erase_between i (m # ms) s = take (rm_start m - i) s @ erase_between (rm_end m) ms (drop (rm_end m - i) s)"

definition re_erase :: "re \<Rightarrow> string \<Rightarrow> string" where
  [py_defs]: "re_erase r s = erase_between 0 (finditer r s) s"

definition ENUM_RE :: "string \<Rightarrow> re" where
  [py_defs]: "ENUM_RE enum_name = RSeqs [RLit ''typedef'', RPlus (RSet is_ws), RLit ''enum'', RPlus (RSet is_ws), RLit enum_name,
     RStar (RSet is_ws), RLit ''{'', RGroup 1 (RLazy (RSet (\<lambda>_. True))), RLit ''}'', RStar (RSet is_ws),
     RLit enum_name, RStar (RSet is_ws), RLit '';'']"

definition BLOCK_COMMENT_RE :: re where
  [py_defs]: "BLOCK_COMMENT_RE = RSeqs [RLit ''/*'', RLazy (RSet (\<lambda>_. True)), RLit ''*/'']"

definition LINE_COMMENT_RE :: re where
  [py_defs]: "LINE_COMMENT_RE = RSeq (RLit ''//'') (RStar (RSet dot))"

definition enum_item :: "(int \<times> string) list \<times> int \<Rightarrow> string \<Rightarrow> (int \<times> string) list \<times> int" where
  [py_defs]: "enum_item st raw_item =
     (case st of (names, value) \<Rightarrow>
        let item = strip (re_erase LINE_COMMENT_RE raw_item);
            add = (\<lambda>name v. (if re_fullmatch NAME_RE name \<noteq> None then AList.update v name names else names, v)) in
        if item = [] then (names, value)
        else case split1 CHR ''='' item of
          Some (n, raw_value) \<Rightarrow>
            (case py_int 0 (strip raw_value) of None \<Rightarrow> (names, value) | Some v \<Rightarrow> add (strip n) v)
        | None \<Rightarrow> add item (value + 1))"

definition parse_enum_names :: "string option \<Rightarrow> string \<Rightarrow> (int \<times> string) list" where
  [py_defs]: "parse_enum_names header enum_name =
     (case header of
        None \<Rightarrow> []
      | Some text \<Rightarrow>
          (case re_search (ENUM_RE enum_name) text of
             None \<Rightarrow> []
           | Some m \<Rightarrow> fst (foldl enum_item ([], -1) (split_char CHR '','' (re_erase BLOCK_COMMENT_RE (group m 1))))))"

section \<open>Traces\<close>

type_synonym flds = "(string \<times> string) list"

definition parse_trace_line :: "string \<Rightarrow> (string \<times> flds) option" where
  [py_defs]: "parse_trace_line text =
     (case re_match TRACE_MARKER_RE (strip text) of
        None \<Rightarrow> None
      | Some m \<Rightarrow> Some (group m 1,
          foldl (\<lambda>d f. AList.update (group f 1) (group f 2) d) [] (finditer TRACE_FIELD_RE text)))"

definition symbolize_kind :: "(int \<times> string) list \<Rightarrow> flds \<Rightarrow> string \<Rightarrow> flds" where
  [py_defs]: "symbolize_kind expression_names symbolic key =
     (case Option.bind (map_of symbolic key) (py_int 0) of
        None \<Rightarrow> symbolic
      | Some value \<Rightarrow>
          if value < 0 then AList.update key ''none'' symbolic
          else case map_of expression_names value of
            None \<Rightarrow> symbolic | Some n \<Rightarrow> AList.update key n symbolic)"

definition symbolize_trace_fields :: "flds \<Rightarrow> (int \<times> string) list \<Rightarrow> (int \<times> string) list \<Rightarrow> flds" where
  [py_defs]: "symbolize_trace_fields flds expression_names statement_names =
     (let symbolic = foldl (symbolize_kind expression_names) flds EXPRESSION_KIND_FIELDS in
      if map_of symbolic ''stage'' = Some ''statement'' then
        (case Option.bind (Option.bind (map_of symbolic ''kind'') (py_int 0)) (map_of statement_names) of
           None \<Rightarrow> symbolic | Some n \<Rightarrow> AList.update ''kind'' n symbolic)
      else symbolic)"

definition normalized_marker :: "string \<Rightarrow> flds \<Rightarrow> string" where
  [py_defs]: "normalized_marker marker flds =
     (let parts = map (\<lambda>(key, value). key @ ''='' @ value) (filter (\<lambda>(key, value). key \<notin> set VOLATILE_TRACE_FIELDS) flds)
      in marker @ (if parts \<noteq> [] then '' '' @ join '' '' parts else []))"

definition get_str :: "(string \<times> json) list \<Rightarrow> string \<Rightarrow> string" where
  [py_defs]: "get_str row k = (case map_of row k of None \<Rightarrow> [] | Some v \<Rightarrow> py_str v)"

definition unsupported_function :: "string \<Rightarrow> string option" where
  [py_defs]: "unsupported_function message = map_option (\<lambda>m. group m 1) (re_match UNSUPPORTED_RE message)"

record trace_result =
  tr_feature_family :: string
  tr_reason_fingerprint :: string
  tr_trace_lines :: "string list"

type_synonym trace_entry = "string \<times> flds \<times> string"

definition trace_entry_of ::
  "string \<Rightarrow> (int \<times> string) list \<Rightarrow> (int \<times> string) list \<Rightarrow> string \<Rightarrow> trace_entry option" where
  [py_defs]: "trace_entry_of target_function expression_names statement_names raw_line =
     (case parse_trace_line raw_line of
        None \<Rightarrow> None
      | Some (marker, flds) \<Rightarrow>
          if target_function \<noteq> [] \<and> map_of flds ''function'' \<noteq> Some target_function then None
          else if map_of flds ''status'' \<notin> {None, Some ''1''} then None
          else Some (marker, symbolize_trace_fields flds expression_names statement_names, strip raw_line))"

definition fast_family :: "flds \<Rightarrow> string" where
  [py_defs]: "fast_family flds =
     (case (map_of flds ''stage'' = Some ''statement'', map_of flds ''kind'', map_of flds ''condition_kind'') of
        (True, Some k, _) \<Rightarrow> ''statement:'' @ k
      | (_, _, Some c) \<Rightarrow> ''expression:'' @ c
      | _ \<Rightarrow> normalized_marker ''CORE_FAST_TRACE'' flds)"

definition specialized_family :: "string \<Rightarrow> flds \<Rightarrow> string" where
  [py_defs]: "specialized_family marker flds =
     (case filter (\<lambda>v. v \<noteq> ''none'') (List.map_filter (map_of flds) EXPRESSION_KIND_FIELDS) of
        k # _ \<Rightarrow> ''expression:'' @ k
      | [] \<Rightarrow> normalized_marker marker flds)"

definition classify_trace :: "trace_entry list \<Rightarrow> trace_result" where
  [py_defs]: "classify_trace parsed =
     (let fast_trace = find (\<lambda>(marker, flds, line). marker = ''CORE_FAST_TRACE'') parsed;
          specialized_trace = find (\<lambda>(marker, flds, line). marker \<noteq> ''CORE_FAST_TRACE'') parsed;
          family = (case (fast_trace, specialized_trace) of
                      (Some (_, flds, _), _) \<Rightarrow> fast_family flds
                    | (None, Some (marker, flds, _)) \<Rightarrow> specialized_family marker flds
                    | (None, None) \<Rightarrow> ''NO_CORE_TRACE'');
          part = (\<lambda>tr. case tr of None \<Rightarrow> [] | Some (marker, flds, line) \<Rightarrow> [normalized_marker marker flds]);
          fingerprint_parts = part fast_trace @ part specialized_trace
      in \<lparr> tr_feature_family = family,
           tr_reason_fingerprint = (if fingerprint_parts \<noteq> [] then join '' | '' fingerprint_parts else family),
           tr_trace_lines = map (\<lambda>(marker, flds, line). line) (take 8 parsed) \<rparr>)"

definition trace_info ::
  "(string \<times> json) list \<Rightarrow> (string \<Rightarrow> string option) option \<Rightarrow> (int \<times> string) list \<Rightarrow> (int \<times> string) list \<Rightarrow> trace_result" where
  [py_defs]: "trace_info row stderr_root expression_names statement_names =
     (case stderr_root of
        None \<Rightarrow> \<lparr> tr_feature_family = ''trace-unavailable'', tr_reason_fingerprint = ''trace-unavailable'', tr_trace_lines = [] \<rparr>
      | Some files \<Rightarrow>
          (case files (get_str row ''input'' @ ''.stderr'') of
             None \<Rightarrow> \<lparr> tr_feature_family = ''trace-missing'', tr_reason_fingerprint = ''trace-missing'', tr_trace_lines = [] \<rparr>
           | Some text \<Rightarrow>
               let target_function = (case unsupported_function (get_str row ''message'') of None \<Rightarrow> [] | Some f \<Rightarrow> f) in
               classify_trace (List.map_filter (trace_entry_of target_function expression_names statement_names) (splitlines text))))"

section \<open>Classification\<close>

record enriched =
  er_row :: "(string \<times> json) list"
  er_function :: string
  er_trace :: trace_result

definition er_family :: "enriched \<Rightarrow> string" where
  [py_defs]: "er_family e = tr_feature_family (er_trace e)"

definition er_fingerprint :: "enriched \<Rightarrow> string" where
  [py_defs]: "er_fingerprint e = tr_reason_fingerprint (er_trace e)"

text \<open>The enriched row: the fields of the row with those of the analysis written over them.\<close>

definition enriched_dict :: "enriched \<Rightarrow> (string \<times> json) list" where
  [py_defs]: "enriched_dict e =
     AList.update ''trace_lines'' (JList (map JStr (tr_trace_lines (er_trace e))))
     (AList.update ''reason_fingerprint'' (JStr (er_fingerprint e))
     (AList.update ''feature_family'' (JStr (er_family e))
     (AList.update ''function'' (JStr (er_function e)) (er_row e))))"

record strict_state =
  st_passes :: int
  st_unsupported :: "(string \<times> enriched list) list"
  st_families :: "(string \<times> enriched list) list"
  st_fingerprints :: "(string \<times> enriched list) list"
  st_enriched :: "enriched list"
  st_errors :: "(string \<times> json) list list"
  st_missing :: "(string \<times> json) list list"

definition strict_start :: strict_state where
  [py_defs]: "strict_start = \<lparr> st_passes = 0, st_unsupported = [], st_families = [], st_fingerprints = [], st_enriched = [],
     st_errors = [], st_missing = [] \<rparr>"

definition strict_row ::
  "(string \<Rightarrow> string option) option \<Rightarrow> (int \<times> string) list \<Rightarrow> (int \<times> string) list \<Rightarrow> strict_state \<Rightarrow> (string \<times> json) list \<Rightarrow> strict_state" where
  [py_defs]: "strict_row stderr_root expression_names statement_names st row =
     (if get_str row ''status'' = ''PASS'' then st\<lparr>st_passes := st_passes st + 1\<rparr>
      else if get_str row ''status'' = ''PREPROCESS_MISSING'' then st\<lparr>st_missing := st_missing st @ [row]\<rparr>
      else case unsupported_function (get_str row ''message'') of
        None \<Rightarrow> st\<lparr>st_errors := st_errors st @ [row]\<rparr>
      | Some f \<Rightarrow>
          let e = \<lparr> er_row = row, er_function = f, er_trace = trace_info row stderr_root expression_names statement_names \<rparr> in
          st\<lparr>st_unsupported := group_add (er_function e) e (st_unsupported st),
             st_families := group_add (er_family e) e (st_families st),
             st_fingerprints := group_add (er_fingerprint e) e (st_fingerprints st),
             st_enriched := st_enriched st @ [e]\<rparr>)"

record strict_summary =
  sm_selected :: int
  sm_state :: strict_state
  sm_blockers :: "(string \<times> enriched list) list"
  sm_features :: "(string \<times> enriched list) list"
  sm_fingerprints :: "(string \<times> enriched list) list"

definition classify_rows ::
  "(string \<Rightarrow> string option) option \<Rightarrow> string option \<Rightarrow> (string \<times> json) list list \<Rightarrow> strict_summary" where
  [py_defs]: "classify_rows stderr_root header rows =
     (let expression_names = parse_enum_names header ''MinicExpressionKind'';
          statement_names = parse_enum_names header ''MinicStatementKind'';
          st = foldl (strict_row stderr_root expression_names statement_names) strict_start rows
      in \<lparr> sm_selected = int (length rows), sm_state = st, sm_blockers = ranked (st_unsupported st),
           sm_features = ranked (st_families st), sm_fingerprints = ranked (st_fingerprints st) \<rparr>)"

section \<open>Reports\<close>

definition functions_of :: "enriched list \<Rightarrow> string list" where
  [py_defs]: "functions_of g = sort (nub (map er_function g))"

definition number :: "int \<Rightarrow> string" where
  [py_defs]: "number n = str_int n"

definition len :: "'a list \<Rightarrow> string" where
  [py_defs]: "len xs = str_int (int (length xs))"

definition rank_numbers :: "'a list \<Rightarrow> (int \<times> 'a) list" where
  [py_defs]: "rank_numbers xs = zip (map int [1..<Suc (length xs)]) xs"

definition item_str :: "enriched \<Rightarrow> string \<Rightarrow> py_error + string" where
  [py_defs]: "item_str e k = bindE (jitem (enriched_dict e) k) (\<lambda>v. Inr (py_str v))"

text \<open>\<^verbatim>\<open>group[:max(0, examples)]\<close>\<close>

definition shown :: "int \<Rightarrow> 'a list \<Rightarrow> 'a list" where
  [py_defs]: "shown examples g = take (nat (max 0 examples)) g"

definition get_or_none :: "(string \<times> json) list \<Rightarrow> string \<Rightarrow> string" where
  [py_defs]: "get_or_none row k = (case map_of row k of None \<Rightarrow> ''None'' | Some v \<Rightarrow> py_str v)"

definition blocker_lines :: "int \<Rightarrow> int \<times> string \<times> enriched list \<Rightarrow> py_error + string list" where
  [py_defs]: "blocker_lines examples rkg =
     (case rkg of (rank, function, g) \<Rightarrow>
        bindE (mapE (\<lambda>e. bindE (item_str e ''index'') (\<lambda>i. bindE (item_str e ''input'') (\<lambda>inp.
          Inr (''CORE_STRICT500_EXAMPLE function='' @ function @ '' index='' @ i @ '' input='' @ inp)))) (shown examples g)) (\<lambda>ls.
        Inr ((''CORE_STRICT500_BLOCKER rank='' @ number rank @ '' count='' @ len g @ '' function='' @ function) # ls)))"

definition feature_lines :: "int \<Rightarrow> int \<times> string \<times> enriched list \<Rightarrow> py_error + string list" where
  [py_defs]: "feature_lines examples rkg =
     (case rkg of (rank, family, g) \<Rightarrow>
        bindE (mapE (\<lambda>e. bindE (item_str e ''index'') (\<lambda>i. bindE (item_str e ''input'') (\<lambda>inp.
          Inr (''CORE_STRICT500_FEATURE_EXAMPLE family='' @ family @ '' index='' @ i @ '' input='' @ inp @
               '' function='' @ er_function e)))) (shown examples g)) (\<lambda>ls.
        Inr ((''CORE_STRICT500_FEATURE rank='' @ number rank @ '' count='' @ len g @ '' family='' @ family @
              '' functions='' @ len (functions_of g)) # ls)))"

definition printed_lines :: "int \<Rightarrow> strict_summary \<Rightarrow> py_error + string list" where
  [py_defs]: "printed_lines examples sm =
     (let st = sm_state sm in
      bindE (mapE (blocker_lines examples) (rank_numbers (sm_blockers sm))) (\<lambda>bs.
      bindE (mapE (feature_lines examples) (rank_numbers (sm_features sm))) (\<lambda>fs.
      Inr ([''CORE_STRICT500_SUMMARY selected='' @ number (sm_selected sm) @ '' pass='' @ number (st_passes st) @
             '' unsupported='' @ len (st_enriched st) @ '' error='' @ len (st_errors st) @
             '' preprocess_missing='' @ len (st_missing st) @ '' distinct_blockers='' @ len (sm_blockers sm) @
             '' distinct_feature_families='' @ len (sm_features sm)] @ concat bs @
           map (\<lambda>row. ''CORE_STRICT500_ERROR index='' @ get_or_none row ''index'' @ '' input='' @ get_or_none row ''input'' @
                 '' message='' @ get_or_none row ''message'') (st_errors st) @
           map (\<lambda>row. ''CORE_STRICT500_MISSING index='' @ get_or_none row ''index'' @ '' input='' @ get_or_none row ''input'')
             (st_missing st) @ concat fs))))"

definition group_json :: "string \<Rightarrow> bool \<Rightarrow> string \<times> enriched list \<Rightarrow> py_error + json" where
  [py_defs]: "group_json title with_functions kg =
     (case kg of (k, g) \<Rightarrow>
        bindE (mapE (\<lambda>e. jitem (enriched_dict e) ''index'') g) (\<lambda>indices.
        bindE (mapE (\<lambda>e. jitem (enriched_dict e) ''input'') g) (\<lambda>inputs.
        Inr (JObj ([(title, JStr k), (''count'', JInt (int (length g)))] @
          (if with_functions then [(''functions'', JList (map JStr (functions_of g)))] else []) @
          [(''indices'', JList indices), (''inputs'', JList inputs)])))))"

definition summary_json :: "strict_summary \<Rightarrow> py_error + json" where
  [py_defs]: "summary_json sm =
     (let st = sm_state sm in
      bindE (mapE (group_json ''function'' False) (sm_blockers sm)) (\<lambda>bs.
      bindE (mapE (group_json ''family'' True) (sm_features sm)) (\<lambda>fs.
      bindE (mapE (group_json ''fingerprint'' True) (sm_fingerprints sm)) (\<lambda>ps.
      Inr (JObj [(''selected'', JInt (sm_selected sm)), (''pass'', JInt (st_passes st)),
        (''unsupported'', JInt (int (length (st_enriched st)))), (''error'', JInt (int (length (st_errors st)))),
        (''preprocess_missing'', JInt (int (length (st_missing st)))),
        (''blockers'', JList bs), (''feature_families'', JList fs), (''reason_fingerprints'', JList ps),
        (''unsupported_rows'', JList (map (JObj \<circ> enriched_dict) (st_enriched st))),
        (''errors'', JList (map JObj (st_errors st))), (''missing'', JList (map JObj (st_missing st)))])))))"

text \<open>\<^verbatim>\<open>{n:>3}\<close>\<close>

definition pad3 :: "int \<Rightarrow> string" where
  [py_defs]: "pad3 n = (let d = str_int n in replicate (3 - length d) CHR '' '' @ d)"

definition reason_text :: "strict_summary \<Rightarrow> string" where
  [py_defs]: "reason_text sm =
     join ''\<newline>''
       ([''CORE_STRICT500_UNSUPPORTED_REASON_CENSUS'', ''unsupported='' @ len (st_enriched (sm_state sm)),
         ''distinct_feature_families='' @ len (sm_features sm),
         ''distinct_reason_fingerprints='' @ len (sm_fingerprints sm), [], ''feature_families:''] @
        concat (map (\<lambda>(rank, family, g).
          [''  '' @ pad3 rank @ ''. count='' @ pad3 (int (length g)) @ '' family='' @ family,
           ''       functions='' @ join '', '' (take 12 (functions_of g))]) (rank_numbers (sm_features sm))) @
        [[], ''reason_fingerprints:''] @
        map (\<lambda>(rank, fingerprint, g). ''  '' @ pad3 rank @ ''. count='' @ pad3 (int (length g)) @ '' '' @ fingerprint)
          (rank_numbers (sm_fingerprints sm))) @ ''\<newline>''"

record strict_output =
  so_printed :: "string list"
  so_json :: string
  so_reason :: string
  so_status :: int

text \<open>The rows come from the JSON text of the results; a row that is not an object has no \<^verbatim>\<open>get\<close>.\<close>

definition strict_main ::
  "(string \<Rightarrow> string option) option \<Rightarrow> string option \<Rightarrow> int \<Rightarrow> bool \<Rightarrow> json list \<Rightarrow> py_error + strict_output" where
  [py_defs]: "strict_main stderr_root header examples require_no_errors rows =
     bindE (mapE (\<lambda>v. of_option (AttributeError ''get'') (as_dict v)) rows) (\<lambda>dicts.
     let sm = classify_rows stderr_root header dicts in
     bindE (printed_lines examples sm) (\<lambda>printed.
     bindE (summary_json sm) (\<lambda>summary.
     Inr \<lparr> so_printed = printed, so_json = dumps True 0 summary @ ''\<newline>'', so_reason = reason_text sm,
           so_status = (if require_no_errors \<and> (st_errors (sm_state sm) \<noteq> [] \<or> st_missing (sm_state sm) \<noteq> []) then 1 else 0) \<rparr>)))"

section \<open>The classes and the rankings\<close>

datatype row_class = Passed | Missing | Unsupported | Failed

definition row_class :: "(string \<times> json) list \<Rightarrow> row_class" where
  "row_class row =
     (if get_str row ''status'' = ''PASS'' then Passed
      else if get_str row ''status'' = ''PREPROCESS_MISSING'' then Missing
      else if unsupported_function (get_str row ''message'') = None then Failed else Unsupported)"

definition strict_inv :: "(string \<times> json) list list \<Rightarrow> strict_state \<Rightarrow> bool" where
  "strict_inv rows st \<longleftrightarrow> st_passes st = int (length (filter (\<lambda>r. row_class r = Passed) rows)) \<and>
     st_missing st = filter (\<lambda>r. row_class r = Missing) rows \<and>
     st_errors st = filter (\<lambda>r. row_class r = Failed) rows \<and>
     map er_row (st_enriched st) = filter (\<lambda>r. row_class r = Unsupported) rows \<and>
     st_unsupported st = group_all er_function (st_enriched st) \<and>
     st_families st = group_all er_family (st_enriched st) \<and>
     st_fingerprints st = group_all er_fingerprint (st_enriched st)"

lemma strict_fold_inv: "strict_inv rows (foldl (strict_row root en sn) strict_start rows)"
proof (induction rows rule: rev_induct)
  case Nil
  show ?case by (simp add: strict_inv_def strict_start_def group_all_def)
next
  case (snoc r rows)
  let ?st = "foldl (strict_row root en sn) strict_start rows"
  show ?case
  proof (cases "row_class r")
    case Unsupported
    then obtain f where "unsupported_function (get_str r ''message'') = Some f" "get_str r ''status'' \<noteq> ''PASS''"
      "get_str r ''status'' \<noteq> ''PREPROCESS_MISSING''" by (auto simp: row_class_def split: if_splits)
    with snoc Unsupported show ?thesis by (simp add: strict_inv_def strict_row_def Let_def)
  next
    case Failed
    then have "unsupported_function (get_str r ''message'') = None" "get_str r ''status'' \<noteq> ''PASS''"
      "get_str r ''status'' \<noteq> ''PREPROCESS_MISSING''" by (auto simp: row_class_def split: if_splits)
    with snoc Failed show ?thesis by (simp add: strict_inv_def strict_row_def)
  next
    case Passed
    then have "get_str r ''status'' = ''PASS''" by (auto simp: row_class_def split: if_splits)
    with snoc Passed show ?thesis by (simp add: strict_inv_def strict_row_def)
  next
    case Missing
    then have "get_str r ''status'' = ''PREPROCESS_MISSING''" by (auto simp: row_class_def split: if_splits)
    with snoc Missing show ?thesis by (simp add: strict_inv_def strict_row_def)
  qed
qed

lemma class_counts:
  "length rows = length (filter (\<lambda>r. row_class r = Passed) rows) + length (filter (\<lambda>r. row_class r = Missing) rows) +
     length (filter (\<lambda>r. row_class r = Failed) rows) + length (filter (\<lambda>r. row_class r = Unsupported) rows)"
proof (induction rows)
  case (Cons r rows)
  then show ?case by (cases "row_class r") auto
qed simp

text \<open>
  C36. Whatever the rows and the traces: every row falls into exactly one class and keeps its place in
  it, the counts of the classes add up to the number of rows, and the three rankings are rankings of
  the unsupported rows: by function, by feature family and by fingerprint, each a partition with the
  larger groups first.
\<close>

theorem core_strict_partition:
  "let sm = classify_rows stderr_root header rows; st = sm_state sm in
   sm_selected sm = st_passes st + int (length (st_enriched st)) + int (length (st_errors st)) + int (length (st_missing st)) \<and>
   map er_row (st_enriched st) = filter (\<lambda>r. row_class r = Unsupported) rows \<and>
   st_errors st = filter (\<lambda>r. row_class r = Failed) rows \<and> st_missing st = filter (\<lambda>r. row_class r = Missing) rows \<and>
   ranking_of er_function (st_enriched st) (sm_blockers sm) \<and>
   ranking_of er_family (st_enriched st) (sm_features sm) \<and>
   ranking_of er_fingerprint (st_enriched st) (sm_fingerprints sm)"
proof -
  let ?sm = "classify_rows stderr_root header rows"
  have inv: "strict_inv rows (sm_state ?sm)" by (simp add: classify_rows_def Let_def strict_fold_inv)
  have r: "sm_selected ?sm = int (length rows)" "sm_blockers ?sm = ranked (st_unsupported (sm_state ?sm))"
    "sm_features ?sm = ranked (st_families (sm_state ?sm))" "sm_fingerprints ?sm = ranked (st_fingerprints (sm_state ?sm))"
    by (simp_all add: classify_rows_def Let_def)
  from inv have "length (st_enriched (sm_state ?sm)) = length (filter (\<lambda>r. row_class r = Unsupported) rows)"
    by (metis length_map strict_inv_def)
  with inv class_counts[of rows] show ?thesis by (simp add: Let_def r strict_inv_def ranked_group_all)
qed

end
