(* ===== verification/PhaseTrace.thy ===== *)
theory PhaseTrace
  imports PyRegex Binary64
begin

text \<open>
  The phase attribution of \<^verbatim>\<open>src/tools/ci/linux-perf-phase-trace-v1.py\<close>: it runs two compilers on one input,
  reads the timestamped lines of their standard error and reports how long each stage of the compiler
  took.  An event is a time in nanoseconds and a line.  The compiler is an argument: a run gives the
  events, the exit status, the output (\<^const>\<open>None\<close> when there is no such file) and the elapsed time.
  Where a message of the source ends with the \<^verbatim>\<open>repr\<close> of a set or of events, the model keeps the text before it.
\<close>

section \<open>Stages\<close>

type_synonym event = "int \<times> string"

definition STAGES :: "string list" where
  [py_defs]: "STAGES = [''parse'', ''normalize'', ''core-set'', ''core-validate'', ''layout'', ''codegen'']"

definition stage_char :: "char \<Rightarrow> bool" where
  [py_defs]: "stage_char c = (let n = (of_char c :: nat) in 97 \<le> n \<and> n \<le> 122 \<or> n = 45)"

definition PAT :: re where
  [py_defs]: "PAT = RSeqs [RLit ''MINIC_BOOTSTRAP_TRACE stage='', RGroup 1 (RPlus (RSet stage_char)), RLit '' state='',
     RGroup 2 (RPlus (RSet stage_char)), RLit '' functions='', RGroup 3 (RPlus (RSet is_digit))]"

text \<open>\<^verbatim>\<open>int(text)\<close> of a text; the digits matched by \<^verbatim>\<open>\d+\<close> always have a value.\<close>

definition int_of :: "string \<Rightarrow> py_error + int" where
  [py_defs]: "int_of t = of_option (ValueError t) (py_int 10 t)"

text \<open>The marker of a line: the stage when it is one of those asked for, the action and the count.\<close>

definition marker :: "string list \<Rightarrow> string \<Rightarrow> (string \<times> string \<times> string) option" where
  [py_defs]: "marker stages line =
     (case re_search PAT line of
        None \<Rightarrow> None
      | Some m \<Rightarrow> if group m 1 \<in> set stages then Some (group m 1, group m 2, group m 3) else None)"

definition ms_of :: "int \<Rightarrow> float64" where
  [py_defs]: "ms_of ns = round3 (quotient64 ns 1000000)"

record attribution =
  at_begin :: "(string \<times> int) list"
  at_elapsed :: "(string \<times> float64) list"
  at_funcs :: "(string \<times> int) list"

definition attribute1 :: "attribution \<Rightarrow> event \<Rightarrow> py_error + attribution" where
  [py_defs]: "attribute1 a ev =
     (case marker STAGES (snd ev) of
        None \<Rightarrow> Inr a
      | Some (stage, action, n) \<Rightarrow>
          if action = ''begin'' then
            (if stage \<in> fst ` set (at_begin a) then Inl (RuntimeError (''duplicate begin '' @ stage))
             else bindE (int_of n) (\<lambda>functions.
               Inr (a\<lparr>at_begin := AList.update stage (fst ev) (at_begin a),
                      at_funcs := AList.update stage functions (at_funcs a)\<rparr>)))
          else if action = ''end-ok'' then
            (case map_of (at_begin a) stage of
               None \<Rightarrow> Inl (RuntimeError (''unmatched end '' @ stage))
             | Some begun \<Rightarrow>
                 if stage \<in> fst ` set (at_elapsed a) then Inl (RuntimeError (''unmatched end '' @ stage))
                 else Inr (a\<lparr>at_elapsed := AList.update stage (ms_of (fst ev - begun)) (at_elapsed a)\<rparr>))
          else if action = ''end-fail'' then Inl (RuntimeError (''compiler trace failed stage '' @ stage))
          else Inr a)"

definition attribute :: "event list \<Rightarrow> py_error + (string \<times> float64) list \<times> (string \<times> int) list" where
  [py_defs]: "attribute events =
     bindE (foldE attribute1 \<lparr> at_begin = [], at_elapsed = [], at_funcs = [] \<rparr> events) (\<lambda>a.
     bindE (ensure (fst ` set (at_elapsed a) = set STAGES) (RuntimeError ''missing stage trace'')) (\<lambda>_.
       Inr (at_elapsed a, at_funcs a)))"

text \<open>The second reading of the same events keeps the last begin and the last end of each stage.\<close>

definition boundary1 :: "(string \<times> int) list \<times> (string \<times> int) list \<Rightarrow> event \<Rightarrow> (string \<times> int) list \<times> (string \<times> int) list" where
  [py_defs]: "boundary1 se ev =
     (case (se, marker STAGES (snd ev)) of
        ((starts, ends), None) \<Rightarrow> (starts, ends)
      | ((starts, ends), Some (stage, action, _)) \<Rightarrow>
          if action = ''begin'' then (AList.update stage (fst ev) starts, ends)
          else if action = ''end-ok'' then (starts, AList.update stage (fst ev) ends)
          else (starts, ends))"

definition gap_name :: "string \<Rightarrow> string \<Rightarrow> string" where
  [py_defs]: "gap_name a b = a @ ''-to-'' @ b"

definition gap1 :: "(string \<times> int) list \<Rightarrow> (string \<times> int) list \<Rightarrow> string \<times> string \<Rightarrow> py_error + string \<times> float64" where
  [py_defs]: "gap1 starts ends ab =
     (case ab of (a, b) \<Rightarrow>
        bindE (of_option (KeyError b) (map_of starts b)) (\<lambda>begun.
        bindE (of_option (KeyError a) (map_of ends a)) (\<lambda>ended.
          if begun - ended < 0
          then Inl (RuntimeError (''overlapping or reordered compiler stages: '' @ a @ '' / '' @ b))
          else Inr (gap_name a b, ms_of (begun - ended)))))"

definition STAGE_PAIRS :: "(string \<times> string) list" where
  [py_defs]: "STAGE_PAIRS = zip STAGES (tl STAGES)"

definition compute_interstage_gaps :: "event list \<Rightarrow> py_error + (string \<times> float64) list" where
  [py_defs]: "compute_interstage_gaps events =
     (case foldl boundary1 ([], []) events of (starts, ends) \<Rightarrow>
        bindE (ensure (fst ` set starts = set STAGES \<and> fst ` set ends = set STAGES)
                 (RuntimeError ''incomplete stage boundaries for interstage attribution'')) (\<lambda>_.
          mapE (gap1 starts ends) STAGE_PAIRS))"

section \<open>Counters\<close>

definition SPEC_STAGES :: "string list" where
  [py_defs]: "SPEC_STAGES = [''spec-integer'', ''spec-symbolic'', ''spec-boolean'', ''spec-finalize'']"

definition SYMBOLIC_SUBSTAGES :: "string list" where
  [py_defs]: "SYMBOLIC_SUBSTAGES = [''spec-symbolic-direct'', ''spec-symbolic-transitive'']"

definition INTEGER_SUBSTAGES :: "string list" where
  [py_defs]: "INTEGER_SUBSTAGES = [''spec-integer-direct'', ''spec-integer-transitive'']"

definition BOOLEAN_SUBSTAGES :: "string list" where
  [py_defs]: "BOOLEAN_SUBSTAGES = [''spec-boolean-direct'', ''spec-boolean-transitive'']"

definition BOOLEAN_COUNTER_RE :: re where
  [py_defs]: "BOOLEAN_COUNTER_RE = RSeqs [RLit ''MINIC_BOOLEAN_SCAN_PROFILE'', RPlus (RSet is_ws), RGroup 1 (RPlus (RSet dot))]"

definition SYMBOLIC_COUNTER_RE :: re where
  [py_defs]: "SYMBOLIC_COUNTER_RE = RSeqs [RLit ''MINIC_SYMBOLIC_SCAN_PROFILE'', RPlus (RSet is_ws), RGroup 1 (RPlus (RSet dot))]"

definition SYMBOLIC_COUNTER_FIELDS :: "string list" where
  [py_defs]: "SYMBOLIC_COUNTER_FIELDS =
     [''direct_expression_visits'', ''direct_call_visits'',
      ''direct_variant_lookups'', ''direct_variant_probes'', ''transitive_callers'',
      ''transitive_expression_visits'', ''transitive_owner_skips'',
      ''transitive_call_visits'', ''transitive_pointer_argument_evals'',
      ''transitive_variant_lookups'', ''transitive_variant_probes'',
      ''owner_index_ready'', ''direct_clones'', ''transitive_clones'']"

definition BOOLEAN_COUNTER_FIELDS :: "string list" where
  [py_defs]: "BOOLEAN_COUNTER_FIELDS =
     [''local_queries'', ''local_arena_scan_potential'', ''callers'', ''range_callers'', ''expression_visits'',
      ''call_expression_visits'', ''variant_lookups'', ''variant_probes'', ''direct_clones'', ''transitive_clones'']"

type_synonym counts = "(string \<times> int) list"

text \<open>The dictionary of the words \<^verbatim>\<open>k=v\<close>; a word without an equals sign cannot be unpacked.\<close>

definition profile_word :: "counts \<Rightarrow> string \<Rightarrow> py_error + counts" where
  [py_defs]: "profile_word d word =
     (case split1 CHR ''='' word of
        None \<Rightarrow> Inl (ValueError ''not enough values to unpack (expected 2, got 1)'')
      | Some (k, v) \<Rightarrow> bindE (int_of v) (\<lambda>n. Inr (AList.update k n d)))"

definition profile_fields :: "string \<Rightarrow> py_error + counts" where
  [py_defs]: "profile_fields t = foldE profile_word [] (split_ws t)"

text \<open>
  The readers share their loop: they collect the reports of the lines that match, the first bad report raises;
  then they insist on at most one report, or on exactly one.
\<close>

definition reports :: "re \<Rightarrow> (re_match \<Rightarrow> py_error + 'a) \<Rightarrow> event list \<Rightarrow> py_error + 'a list" where
  [py_defs]: "reports r parse events = mapE parse (List.map_filter (re_search r \<circ> snd) events)"

definition at_most_one :: "string \<Rightarrow> 'a list \<Rightarrow> py_error + 'a option" where
  [py_defs]: "at_most_one message found =
     (case found of [] \<Rightarrow> Inr None | [x] \<Rightarrow> Inr (Some x) | _ \<Rightarrow> Inl (RuntimeError message))"

definition exactly_one :: "string \<Rightarrow> 'a list \<Rightarrow> py_error + 'a" where
  [py_defs]: "exactly_one message found =
     (case found of [x] \<Rightarrow> Inr x | _ \<Rightarrow> Inl (RuntimeError (message @ str_int (int (length found)))))"

definition boolean_fields :: "re_match \<Rightarrow> py_error + counts" where
  [py_defs]: "boolean_fields m =
     bindE (profile_fields (group m 1)) (\<lambda>flds.
     bindE (ensure (fst ` set flds = set BOOLEAN_COUNTER_FIELDS) (RuntimeError ''unexpected Boolean scan counters: '')) (\<lambda>_.
       Inr flds))"

definition read_boolean_counts :: "event list \<Rightarrow> py_error + counts option" where
  [py_defs]: "read_boolean_counts events =
     bindE (reports BOOLEAN_COUNTER_RE boolean_fields events) (at_most_one ''duplicate Boolean scan profile rows'')"

text \<open>The value of a field that the check before has found present.\<close>

definition field :: "counts \<Rightarrow> string \<Rightarrow> int" where
  [py_defs]: "field d k = (case map_of d k of None \<Rightarrow> 0 | Some n \<Rightarrow> n)"

definition symbolic_ok :: "counts \<Rightarrow> bool" where
  [py_defs]: "symbolic_ok d \<longleftrightarrow>
     field d ''direct_call_visits'' \<le> field d ''direct_expression_visits'' \<and>
     field d ''transitive_owner_skips'' \<le> field d ''transitive_expression_visits'' \<and>
     field d ''transitive_call_visits'' \<le> field d ''transitive_expression_visits'' - field d ''transitive_owner_skips'' \<and>
     field d ''owner_index_ready'' \<in> {0, 1}"

definition symbolic_fields :: "re_match \<Rightarrow> py_error + counts" where
  [py_defs]: "symbolic_fields m =
     bindE (profile_fields (group m 1)) (\<lambda>flds.
     bindE (ensure (fst ` set flds = set SYMBOLIC_COUNTER_FIELDS) (RuntimeError ''unexpected Symbolic scan counters: '')) (\<lambda>_.
     bindE (ensure (symbolic_ok flds) (RuntimeError ''invalid Symbolic scan census relationships'')) (\<lambda>_.
       Inr flds)))"

definition read_symbolic_counts :: "event list \<Rightarrow> py_error + counts option" where
  [py_defs]: "read_symbolic_counts events =
     bindE (reports SYMBOLIC_COUNTER_RE symbolic_fields events) (at_most_one ''duplicate Symbolic scan census rows'')"

definition digits_group :: "nat \<Rightarrow> re" where
  [py_defs]: "digits_group k = RGroup k (RPlus (RSet is_digit))"

definition bit_group :: "nat \<Rightarrow> re" where
  [py_defs]: "bit_group k = RGroup k (RSet (\<lambda>c. c = CHR ''0'' \<or> c = CHR ''1''))"

definition INTEGER_OWNER_RE :: re where
  [py_defs]: "INTEGER_OWNER_RE = RSeqs [RLit ''MINIC_INTEGER_OWNER_FILTER ready='', bit_group 1, RLit '' candidates='', digits_group 2,
     RLit '' skipped_other_owner='', digits_group 3, RLit '' fallback='', bit_group 4]"

definition PARSER_LOOKUP_RE :: re where
  [py_defs]: "PARSER_LOOKUP_RE = RSeqs [RLit ''MINIC_PARSER_LOOKUPS'', RPlus (RSet is_ws), RGroup 1 (RPlus (RSet dot))]"

definition PARSER_LOOKUP_KINDS :: "string list" where
  [py_defs]: "PARSER_LOOKUP_KINDS = [''local'', ''function'', ''global'', ''typedef'', ''enum'', ''fixed'', ''builtin_mem'']"

definition ENTITIES :: "string list" where
  [py_defs]: "ENTITIES = [''functions'', ''globals'', ''aliases'', ''expressions'']"

definition integer_owner_fields :: "re_match \<Rightarrow> py_error + counts" where
  [py_defs]: "integer_owner_fields m =
     bindE (mapE (int_of \<circ> group m) [1, 2, 3, 4]) (\<lambda>ns.
     let ready = ns ! 0; candidates = ns ! 1; skipped = ns ! 2; fallback = ns ! 3 in
     if ready + fallback \<noteq> 1 \<or> skipped > candidates then Inl (RuntimeError ''invalid integer owner filter counters'')
     else Inr [(''ready'', ready), (''candidates'', candidates), (''skipped_other_owner'', skipped), (''fallback'', fallback)])"

definition read_integer_owner_counts :: "event list \<Rightarrow> py_error + counts" where
  [py_defs]: "read_integer_owner_counts events =
     bindE (reports INTEGER_OWNER_RE integer_owner_fields events) (exactly_one ''expected exactly one integer owner report; got '')"

definition word_group :: "nat \<Rightarrow> re" where
  [py_defs]: "word_group k = RGroup k (RPlus (RSet is_word))"

definition LOOKUP_PAIR_RE :: re where
  [py_defs]: "LOOKUP_PAIR_RE = RSeqs [word_group 1, RLit ''='', digits_group 2, RLit ''/'', digits_group 3]"

definition ENTITY_RE :: re where
  [py_defs]: "ENTITY_RE = RSeqs [word_group 1, RLit ''='', digits_group 2, RNotAhead (\<lambda>c. c = CHR ''/'')]"

record parser_lookups =
  pl_lookups :: "(string \<times> int \<times> int) list"
  pl_entities :: counts

definition lookup_pair :: "(string \<times> int \<times> int) list \<Rightarrow> re_match \<Rightarrow> py_error + (string \<times> int \<times> int) list" where
  [py_defs]: "lookup_pair d p =
     bindE (int_of (group p 2)) (\<lambda>calls. bindE (int_of (group p 3)) (\<lambda>steps.
       Inr (AList.update (group p 1) (calls, steps) d)))"

definition entity :: "counts \<Rightarrow> re_match \<Rightarrow> py_error + counts" where
  [py_defs]: "entity d p =
     (if group p 1 \<in> set ENTITIES then bindE (int_of (group p 2)) (\<lambda>n. Inr (AList.update (group p 1) n d)) else Inr d)"

definition parser_lookup_fields :: "re_match \<Rightarrow> py_error + parser_lookups" where
  [py_defs]: "parser_lookup_fields m =
     (let pairs = finditer LOOKUP_PAIR_RE (group m 1) in
      bindE (foldE lookup_pair [] pairs) (\<lambda>counts.
      bindE (foldE entity [] (finditer ENTITY_RE (group m 1))) (\<lambda>entities.
      if fst ` set counts \<noteq> set PARSER_LOOKUP_KINDS \<or> length pairs \<noteq> length counts \<or> fst ` set entities \<noteq> set ENTITIES
      then Inl (RuntimeError ''malformed canonical parser lookup census'')
      else Inr \<lparr> pl_lookups = counts, pl_entities = entities \<rparr>)))"

definition read_parser_lookup_counts :: "event list \<Rightarrow> py_error + parser_lookups" where
  [py_defs]: "read_parser_lookup_counts events =
     bindE (reports PARSER_LOOKUP_RE parser_lookup_fields events) (exactly_one ''expected exactly one parser lookup report; got '')"

definition CORE_REENTRY_RE :: re where
  [py_defs]: "CORE_REENTRY_RE = RSeqs [RLit ''MINIC_CORE_REENTRY_INDEX ready=1 incoming='', digits_group 1, RLit '' indexed_if='', digits_group 2,
     RLit '' indexed_loop='', digits_group 3, RLit '' statements='', digits_group 4, RLit '' expressions='', digits_group 5]"

definition core_reentry_fields :: "re_match \<Rightarrow> py_error + counts" where
  [py_defs]: "core_reentry_fields m =
     bindE (mapE (int_of \<circ> group m) [1, 2, 3, 4, 5]) (\<lambda>ns.
     let incoming = ns ! 0; if_queries = ns ! 1; loop_queries = ns ! 2; stmts = ns ! 3; exprs = ns ! 4 in
     if stmts = 0 then Inl (RuntimeError ''indexed core reentry has zero statements'')
     else Inr [(''ready'', 1), (''incoming'', incoming), (''indexed_if_queries'', if_queries),
       (''indexed_loop_queries'', loop_queries), (''statements'', stmts), (''expressions'', exprs),
       (''indexed_if_upper_bound_steps'', if_queries * stmts),
       (''indexed_loop_upper_bound_steps'', loop_queries * stmts)])"

definition read_core_reentry_counts :: "event list \<Rightarrow> py_error + counts" where
  [py_defs]: "read_core_reentry_counts events =
     bindE (reports CORE_REENTRY_RE core_reentry_fields events)
       (exactly_one ''expected exactly one current core reentry index report; got '')"

section \<open>Specialization markers\<close>

record spec_trace =
  sp_started :: counts
  sp_total :: counts
  sp_calls :: counts

definition TRACED_STAGES :: "string list" where
  [py_defs]: "TRACED_STAGES = SPEC_STAGES @ SYMBOLIC_SUBSTAGES @ INTEGER_SUBSTAGES @ BOOLEAN_SUBSTAGES"

definition spec1 :: "spec_trace \<Rightarrow> event \<Rightarrow> py_error + spec_trace" where
  [py_defs]: "spec1 t ev =
     (case marker TRACED_STAGES (snd ev) of
        None \<Rightarrow> Inr t
      | Some (stage, action, _) \<Rightarrow>
          if action = ''begin'' then
            (if stage \<in> fst ` set (sp_started t) then Inl (RuntimeError (''overlapping specialization stage: '' @ stage))
             else Inr (t\<lparr>sp_started := AList.update stage (fst ev) (sp_started t)\<rparr>))
          else if startswith action ''end'' then
            (case map_of (sp_started t) stage of
               None \<Rightarrow> Inl (RuntimeError (''unmatched specialization end: '' @ stage))
             | Some begun \<Rightarrow>
                 if fst ev - begun < 0 then Inl (RuntimeError ''negative specialization duration'')
                 else Inr (t\<lparr>sp_started := AList.delete stage (sp_started t),
                             sp_total := AList.update stage (field (sp_total t) stage + (fst ev - begun)) (sp_total t),
                             sp_calls := AList.update stage (field (sp_calls t) stage + 1) (sp_calls t)\<rparr>))
          else Inr t)"

type_synonym spec_summary = "(string \<times> float64 \<times> int) list"

definition summarize_specialization_trace :: "event list \<Rightarrow> py_error + spec_summary" where
  [py_defs]: "summarize_specialization_trace events =
     bindE (foldE spec1 \<lparr> sp_started = [], sp_total = [], sp_calls = [] \<rparr> events) (\<lambda>t.
     bindE (ensure (sp_started t = []) (RuntimeError ''unfinished specialization stages: '')) (\<lambda>_.
       Inr (map (\<lambda>k. (k, ms_of (field (sp_total t) k), field (sp_calls t) k)) (sort (map fst (sp_total t))))))"

section \<open>One compiler run\<close>

record trace_run =
  tn_events :: "event list"
  tn_rc :: int
  tn_output :: "string option"
  tn_wall_ns :: int

type_synonym environment = "(string \<times> string) list"

record trace_sample =
  ts_integer_owner :: "counts option"
  ts_parser_lookups :: "parser_lookups option"
  ts_core_reentry :: "counts option"
  ts_boolean_counts :: "counts option"
  ts_symbolic_counts :: "counts option"
  ts_wall_ms :: float64
  ts_stage_ms :: "(string \<times> float64) list"
  ts_interstage_gap_ms :: "(string \<times> float64) list"
  ts_specialization_ms :: spec_summary
  ts_function_counts :: counts
  ts_assembly_sha :: string

definition set_all :: "environment \<Rightarrow> environment \<Rightarrow> environment" where
  [py_defs]: "set_all new d = foldl (\<lambda>d (k, v). AList.update k v d) d new"

definition trace_environment :: "bool \<Rightarrow> environment \<Rightarrow> environment" where
  [py_defs]: "trace_environment collect_current_lookup_metrics environ =
     (let env = set_all [(''MINIC_BOOTSTRAP_TRACE'', ''1''), (''MINIC_BOOLEAN_SCAN_PROFILE'', ''1''),
                  (''MINIC_SYMBOLIC_SCAN_PROFILE'', ''1'')] environ in
      if collect_current_lookup_metrics
      then set_all [(''MINIC_INTEGER_OWNER_PERF'', ''1''), (''MINIC_PARSER_PERF_TRACE'', ''1''),
             (''MINIC_CORE_REENTRY_INDEX_PERF'', ''1'')] env
      else env)"

text \<open>\<^verbatim>\<open>x if collect else None\<close> for a fallible \<^verbatim>\<open>x\<close>.\<close>

definition when_collected :: "bool \<Rightarrow> py_error + 'a \<Rightarrow> py_error + 'a option" where
  [py_defs]: "when_collected collect x = (if collect then bindE x (\<lambda>v. Inr (Some v)) else Inr None)"

definition sample ::
  "(string \<Rightarrow> string) \<Rightarrow> environment \<Rightarrow> (environment \<Rightarrow> trace_run) \<Rightarrow> bool \<Rightarrow> py_error + trace_sample" where
  [py_defs]: "sample sha environ compiler collect_current_lookup_metrics =
     (let run = compiler (trace_environment collect_current_lookup_metrics environ);
          events = map (\<lambda>(when, line). (when, rev (dropWhile (\<lambda>c. c = CHR 0x0A) (rev line)))) (tn_events run);
          output = (case tn_output run of None \<Rightarrow> [] | Some t \<Rightarrow> t) in
      if tn_rc run \<noteq> 0 \<or> output = []
      then Inl (RuntimeError (''trace compiler failed rc='' @ str_int (tn_rc run) @ '' stderr=''))
      else
        bindE (attribute events) (\<lambda>(stages, functions).
        bindE (compute_interstage_gaps events) (\<lambda>gaps.
        bindE (summarize_specialization_trace events) (\<lambda>spec.
        bindE (read_boolean_counts events) (\<lambda>bool_counts.
        bindE (read_symbolic_counts events) (\<lambda>symbolic_counts.
        bindE (when_collected collect_current_lookup_metrics (read_integer_owner_counts events)) (\<lambda>integer_owner.
        bindE (when_collected collect_current_lookup_metrics (read_parser_lookup_counts events)) (\<lambda>parser_lookups.
        bindE (when_collected collect_current_lookup_metrics (read_core_reentry_counts events)) (\<lambda>core_reentry.
          Inr \<lparr> ts_integer_owner = integer_owner, ts_parser_lookups = parser_lookups, ts_core_reentry = core_reentry,
                ts_boolean_counts = bool_counts, ts_symbolic_counts = symbolic_counts,
                ts_wall_ms = ms_of (tn_wall_ns run), ts_stage_ms = stages, ts_interstage_gap_ms = gaps,
                ts_specialization_ms = spec, ts_function_counts = functions, ts_assembly_sha = sha output \<rparr>)))))))))"

section \<open>The report\<close>

text \<open>
  The report is printed line by line and a later check may still raise, so a statement gives the lines
  printed so far together with its result.
\<close>

type_synonym 'a printing = "string list \<times> (py_error + 'a)"

definition bindO :: "'a printing \<Rightarrow> ('a \<Rightarrow> 'b printing) \<Rightarrow> 'b printing" where
  [py_defs]: "bindO m f =
     (case m of (w, Inl e) \<Rightarrow> (w, Inl e) | (w, Inr x) \<Rightarrow> (case f x of (w', r) \<Rightarrow> (w @ w', r)))"

definition say :: "string \<Rightarrow> unit printing" where
  [py_defs]: "say line = ([line], Inr ())"

definition silently :: "py_error + 'a \<Rightarrow> 'a printing" where
  [py_defs]: "silently r = ([], r)"

definition require :: "bool \<Rightarrow> string \<Rightarrow> unit printing" where
  [py_defs]: "require ok message = silently (ensure ok (RuntimeError message))"

fun eachO :: "('a \<Rightarrow> unit printing) \<Rightarrow> 'a list \<Rightarrow> unit printing" where
  "eachO f [] = ([], Inr ())"
| "eachO f (x # xs) = bindO (f x) (\<lambda>_. eachO f xs)"

definition item :: "(string \<times> 'a) list \<Rightarrow> string \<Rightarrow> 'a printing" where
  [py_defs]: "item d k = silently (of_option (KeyError k) (map_of d k))"

definition compare_line :: "string \<Rightarrow> (string \<times> float64) list \<Rightarrow> (string \<times> float64) list \<Rightarrow> string \<Rightarrow> unit printing" where
  [py_defs]: "compare_line title olds news name =
     bindO (item olds name) (\<lambda>old. bindO (item news name) (\<lambda>new.
       say (title @ '' name='' @ name @ '' old_ms='' @ fixed 2 old @ '' new_ms='' @ fixed 2 new @
            '' delta_ms='' @ fixed 2 (minus64 old new))))"

definition residual :: "string \<times> trace_sample \<Rightarrow> unit printing" where
  [py_defs]: "residual mi =
     (case mi of (mode, it) \<Rightarrow>
        let measured = plus64 (sum64 (map snd (ts_stage_ms it))) (sum64 (map snd (ts_interstage_gap_ms it)));
            external = minus64 (ts_wall_ms it) measured in
        bindO (require (\<not> less64 external (-1, 0)) ''phase boundaries exceed full compiler invocation'') (\<lambda>_.
          say (''MINIC_PHASE_TRACE_RESIDUAL mode='' @ mode @ '' wall_ms='' @ fixed 2 (ts_wall_ms it) @
               '' unclassified_before_parse_or_after_codegen_ms='' @ fixed 2 external)))"

definition called_once :: "spec_summary \<Rightarrow> string list \<Rightarrow> bool" where
  [py_defs]: "called_once spec names \<longleftrightarrow> list_all (\<lambda>n. map_option snd (map_of spec n) = Some 1) names"

fun itemsO :: "(string \<times> 'a) list \<Rightarrow> string list \<Rightarrow> 'a list printing" where
  "itemsO d [] = ([], Inr [])"
| "itemsO d (k # ks) = bindO (item d k) (\<lambda>v. bindO (itemsO d ks) (\<lambda>vs. silently (Inr (v # vs))))"

text \<open>The sum of the inner timers of a pass and its outer timer, which may exceed it by five milliseconds at most.\<close>

definition inner_outer :: "spec_summary \<Rightarrow> string list \<Rightarrow> string \<Rightarrow> string \<Rightarrow> string \<Rightarrow> (float64 \<times> float64) printing" where
  [py_defs]: "inner_outer spec names outer_name missing_message exceed_message =
     bindO (require (called_once spec names) missing_message) (\<lambda>_.
     bindO (itemsO spec names) (\<lambda>inner.
     bindO (item spec outer_name) (\<lambda>outer.
     let total = sum64 (map fst inner) in
     bindO (require (\<not> less64 (plus64 (fst outer) (5, 0)) total) exceed_message) (\<lambda>_.
       silently (Inr (total, fst outer))))))"

definition timer_line :: "spec_summary \<Rightarrow> string \<Rightarrow> nat \<Rightarrow> string \<Rightarrow> unit printing" where
  [py_defs]: "timer_line spec title digits name =
     bindO (item spec name) (\<lambda>(ms, calls).
       say (title @ '' name='' @ name @ '' ms='' @ fixed digits ms @ '' calls='' @ str_int calls))"

definition integer_loops :: "string \<times> trace_sample \<Rightarrow> unit printing" where
  [py_defs]: "integer_loops mi =
     (case mi of (mode, it) \<Rightarrow>
        let spec = ts_specialization_ms it in
        bindO (inner_outer spec INTEGER_SUBSTAGES ''spec-integer'' (''missing direct/transitive integer trace '' @ mode)
                 (''integer substage timings exceed outer '' @ mode)) (\<lambda>(total, outer).
        bindO (eachO (timer_line spec (''MINIC_INTEGER_SUBPHASE mode='' @ mode) 2) INTEGER_SUBSTAGES) (\<lambda>_.
          say (''MINIC_INTEGER_SUBPHASE_GROUP=PASS mode='' @ mode @ '' measured_ms='' @ fixed 2 total @
               '' outer_ms='' @ fixed 2 outer))))"

definition count_words :: "counts \<Rightarrow> string list \<Rightarrow> string printing" where
  [py_defs]: "count_words d names =
     bindO (itemsO d names) (\<lambda>ns. silently (Inr (join '' '' (map (\<lambda>(name, n). name @ ''='' @ str_int n) (zip names ns)))))"

definition boolean_loops :: "trace_sample \<Rightarrow> unit printing" where
  [py_defs]: "boolean_loops it =
     (let spec = ts_specialization_ms it in
      bindO (inner_outer spec BOOLEAN_SUBSTAGES ''spec-boolean'' ''Boolean scan direct/transitive timers missing''
               ''Boolean inner times exceed outer total'') (\<lambda>_.
      bindO (silently (of_option (RuntimeError ''Boolean scan profile counters missing'') (ts_boolean_counts it))) (\<lambda>counts.
      bindO (item counts ''call_expression_visits'') (\<lambda>call_visits.
      bindO (item counts ''expression_visits'') (\<lambda>visits.
      bindO (require (call_visits \<le> visits) ''Boolean CALL visits exceed scanned expressions'') (\<lambda>_.
      bindO (item counts ''range_callers'') (\<lambda>range_callers.
      bindO (item counts ''callers'') (\<lambda>callers.
      bindO (require (range_callers \<le> callers) ''Boolean range callers exceed all cloned callers'') (\<lambda>_.
      bindO (eachO (timer_line spec ''MINIC_BOOLEAN_SUBPHASE'' 3) BOOLEAN_SUBSTAGES) (\<lambda>_.
      bindO (count_words counts BOOLEAN_COUNTER_FIELDS) (\<lambda>words.
        say (''MINIC_BOOLEAN_SCAN=PASS '' @ words))))))))))))"

definition symbolic_loops :: "trace_sample \<Rightarrow> unit printing" where
  [py_defs]: "symbolic_loops it =
     (let spec = ts_specialization_ms it in
      bindO (inner_outer spec SYMBOLIC_SUBSTAGES ''spec-symbolic'' ''missing direct or transitive symbolic marker''
               ''substage timings exceed outer symbolic phase'') (\<lambda>(inner, outer).
      bindO (eachO (timer_line spec ''MINIC_SYMBOLIC_SUBPHASE'' 2) SYMBOLIC_SUBSTAGES) (\<lambda>_.
        say (''MINIC_SYMBOLIC_SUBPHASE_GROUP=PASS inner_ms='' @ fixed 2 inner @ '' outer_ms='' @ fixed 2 outer))))"

definition symbolic_census :: "trace_sample \<Rightarrow> unit printing" where
  [py_defs]: "symbolic_census it =
     bindO (silently (of_option (RuntimeError ''missing opt-in Symbolic census'') (ts_symbolic_counts it))) (\<lambda>counts.
     bindO (count_words counts SYMBOLIC_COUNTER_FIELDS) (\<lambda>words. say (''MINIC_SYMBOLIC_SCAN=PASS '' @ words)))"

definition specialization :: "trace_sample \<Rightarrow> unit printing" where
  [py_defs]: "specialization it =
     (let spec = ts_specialization_ms it in
      bindO (eachO (timer_line spec ''MINIC_SPEC_PHASE'' 2) SPEC_STAGES) (\<lambda>_.
      bindO (item (ts_interstage_gap_ms it) ''normalize-to-core-set'') (\<lambda>gap.
      bindO (itemsO spec SPEC_STAGES) (\<lambda>outer.
      let tracked = sum64 (map fst outer) in
      bindO (say (''MINIC_SPEC_UNATTRIBUTED gap_ms='' @ fixed 2 gap @ '' specialization_sum_ms='' @ fixed 2 tracked @
                  '' other_gap_ms='' @ fixed 2 (minus64 gap tracked))) (\<lambda>_.
        say ''MINIC_SPEC_PHASE_GROUP=PASS four_substages=true'')))))"

record phase_args =
  pa_specialization :: bool
  pa_current_lookup_telemetry :: bool
  pa_symbolic_loops :: bool
  pa_symbolic_census :: bool
  pa_integer_loops :: bool
  pa_boolean_loops :: bool

definition phase_lines :: "phase_args \<Rightarrow> trace_sample \<Rightarrow> trace_sample \<Rightarrow> unit printing" where
  [py_defs]: "phase_lines ns before after =
     bindO (say ''MINIC_PHASE_TRACE=PASS fixed_input=true assembly_equal=true'') (\<lambda>_.
     bindO (eachO (compare_line ''MINIC_PHASE_TRACE_STAGE'' (ts_stage_ms before) (ts_stage_ms after)) STAGES) (\<lambda>_.
     bindO (eachO (compare_line ''MINIC_PHASE_TRACE_GAP'' (ts_interstage_gap_ms before) (ts_interstage_gap_ms after))
              (map (\<lambda>(a, b). gap_name a b) STAGE_PAIRS)) (\<lambda>_.
     bindO (eachO residual [(''before'', before), (''after'', after)]) (\<lambda>_.
     bindO (if pa_integer_loops ns then eachO integer_loops [(''before'', before), (''after'', after)] else ([], Inr ())) (\<lambda>_.
     bindO (if pa_boolean_loops ns then boolean_loops after else ([], Inr ())) (\<lambda>_.
     bindO (if pa_symbolic_loops ns then symbolic_loops after else ([], Inr ())) (\<lambda>_.
     bindO (if pa_symbolic_census ns then symbolic_census after else ([], Inr ())) (\<lambda>_.
     bindO (if pa_specialization ns then specialization after else ([], Inr ())) (\<lambda>_.
       say ''MINIC_PHASE_TRACE_SCOPE=DIAGNOSTIC_ONLY not_QEMU_p1'')))))))))"

text \<open>The inputs are files (\<^const>\<open>None\<close> when missing); \<open>ph_data\<close> is the content of \<^verbatim>\<open>phases.json\<close>, if it is written.\<close>

record phase_outcome =
  ph_data :: "(string \<times> trace_sample \<times> trace_sample) option"
  ph_printed :: "string list"
  ph_result :: "py_error + unit"

definition phase_checks ::
  "(string \<Rightarrow> string) \<Rightarrow> environment \<Rightarrow> phase_args \<Rightarrow> string option \<Rightarrow> (environment \<Rightarrow> trace_run) option \<Rightarrow>
   (environment \<Rightarrow> trace_run) option \<Rightarrow> py_error + string \<times> trace_sample \<times> trace_sample" where
  [py_defs]: "phase_checks sha environ ns input baseline candidate =
     bindE (of_option (RuntimeError ''missing input'') input) (\<lambda>source.
     bindE (of_option (RuntimeError ''missing baseline'') baseline) (\<lambda>old_compiler.
     bindE (of_option (RuntimeError ''missing candidate'') candidate) (\<lambda>new_compiler.
     bindE (sample sha environ old_compiler (pa_current_lookup_telemetry ns)) (\<lambda>before.
     bindE (sample sha environ new_compiler (pa_current_lookup_telemetry ns)) (\<lambda>after.
     bindE (ensure (ts_assembly_sha before = ts_assembly_sha after)
              (RuntimeError ''different assembly bytes; cannot attribute performance'')) (\<lambda>_.
     bindE (ensure (pa_symbolic_census ns \<longrightarrow> pa_symbolic_loops ns)
              (RuntimeError ''symbolic census requires symbolic direct/transitive timers'')) (\<lambda>_.
     bindE (ensure (pa_symbolic_loops ns \<longrightarrow> pa_specialization ns)
              (RuntimeError ''symbolic loops require outer specialization tracing'')) (\<lambda>_.
     bindE (ensure (pa_integer_loops ns \<longrightarrow> pa_specialization ns)
              (RuntimeError ''integer loops require outer specialization tracing'')) (\<lambda>_.
     bindE (ensure (pa_boolean_loops ns \<longrightarrow> pa_specialization ns)
              (RuntimeError ''boolean loops require outer specialization tracing'')) (\<lambda>_.
     bindE (ensure (pa_specialization ns \<longrightarrow> set SPEC_STAGES \<subseteq> fst ` set (ts_specialization_ms after))
              (RuntimeError ''diagnostic compiler did not emit all four specialization markers'')) (\<lambda>_.
       Inr (sha source, before, after))))))))))))"

definition phase_main ::
  "(string \<Rightarrow> string) \<Rightarrow> environment \<Rightarrow> phase_args \<Rightarrow> string option \<Rightarrow> (environment \<Rightarrow> trace_run) option \<Rightarrow>
   (environment \<Rightarrow> trace_run) option \<Rightarrow> phase_outcome" where
  [py_defs]: "phase_main sha environ ns input baseline candidate =
     (case phase_checks sha environ ns input baseline candidate of
        Inl e \<Rightarrow> \<lparr> ph_data = None, ph_printed = [], ph_result = Inl e \<rparr>
      | Inr (digest, before, after) \<Rightarrow>
          (case phase_lines ns before after of (printed, r) \<Rightarrow>
             \<lparr> ph_data = Some (digest, before, after), ph_printed = printed, ph_result = r \<rparr>))"

section \<open>The timeline behind the reports\<close>

text \<open>The times of the events that mark an action of a stage.\<close>

definition times :: "string list \<Rightarrow> (string \<Rightarrow> bool) \<Rightarrow> string \<Rightarrow> event list \<Rightarrow> int list" where
  "times stages act s events =
     map fst (filter (\<lambda>ev. case marker stages (snd ev) of None \<Rightarrow> False | Some (stage, action, _) \<Rightarrow> stage = s \<and> act action) events)"

lemma times_snoc:
  "times stages act s (evs @ [ev]) = times stages act s evs @
     (case marker stages (snd ev) of None \<Rightarrow> [] | Some (stage, action, _) \<Rightarrow> if stage = s \<and> act action then [fst ev] else [])"
  by (auto simp: times_def split: option.splits)

abbreviation begin_times :: "string \<Rightarrow> event list \<Rightarrow> int list" where
  "begin_times s evs \<equiv> times STAGES (\<lambda>x. x = ''begin'') s evs"

abbreviation end_times :: "string \<Rightarrow> event list \<Rightarrow> int list" where
  "end_times s evs \<equiv> times STAGES (\<lambda>x. x = ''end-ok'') s evs"

text \<open>What a stage can have gone through: nothing, its begin, or its begin and its end.\<close>

inductive stage_ok :: "int list \<Rightarrow> int list \<Rightarrow> int option \<Rightarrow> float64 option \<Rightarrow> bool" where
  untouched: "stage_ok [] [] None None"
| begun: "stage_ok [b] [] (Some b) None"
| ended: "stage_ok [b] [t] (Some b) (Some (ms_of (t - b)))"

inductive_simps stage_ok_simps [simp]:
  "stage_ok bs es None ms"
  "stage_ok bs es (Some b) None"
  "stage_ok bs es b (Some ms)"

definition attributed :: "event list \<Rightarrow> attribution \<Rightarrow> bool" where
  "attributed evs a \<longleftrightarrow>
     (\<forall>s. stage_ok (begin_times s evs) (end_times s evs) (map_of (at_begin a) s) (map_of (at_elapsed a) s))"

lemma map_of_None_fst: "map_of m k = None \<longleftrightarrow> k \<notin> fst ` set m"
  by (rule map_of_eq_None_iff)

lemma attribute1_attributed:
  assumes "attributed evs a" and "attribute1 a ev = Inr a'"
  shows "attributed (evs @ [ev]) a'"
proof (cases "marker STAGES (snd ev)")
  case None
  with assms show ?thesis by (simp add: attributed_def attribute1_def times_snoc)
next
  case (Some m)
  obtain stage action n where m: "m = (stage, action, n)" by (cases m)
  note step = assms(2)[unfolded attribute1_def Some m, simplified]
  from assms(1) have ok: "stage_ok (begin_times s evs) (end_times s evs) (map_of (at_begin a) s) (map_of (at_elapsed a) s)" for s
    by (simp add: attributed_def)
  consider "action = ''begin''" | "action = ''end-ok''" | "action \<noteq> ''begin''" "action \<noteq> ''end-ok''" by blast
  then show ?thesis
  proof cases
    case 1
    with step obtain fn where "map_of (at_begin a) stage = None"
      "a' = a\<lparr>at_begin := AList.update stage (fst ev) (at_begin a), at_funcs := AList.update stage fn (at_funcs a)\<rparr>"
      by (auto simp: bindE_Inr_iff map_of_None_fst split: if_split_asm)
    with ok[of stage] ok Some m 1 show ?thesis by (auto simp: attributed_def times_snoc update_conv)
  next
    case 2
    with step obtain begun where "map_of (at_begin a) stage = Some begun" "map_of (at_elapsed a) stage = None"
      "a' = a\<lparr>at_elapsed := AList.update stage (ms_of (fst ev - begun)) (at_elapsed a)\<rparr>"
      by (auto simp: map_of_None_fst split: if_split_asm option.splits)
    with ok[of stage] ok Some m 2 show ?thesis by (auto simp: attributed_def times_snoc update_conv)
  next
    case 3
    with step have "a' = a" by (auto split: if_split_asm)
    with ok Some m 3 show ?thesis by (auto simp: attributed_def times_snoc)
  qed
qed

lemma attribute_attributed:
  "foldE attribute1 \<lparr> at_begin = [], at_elapsed = [], at_funcs = [] \<rparr> evs = Inr a \<Longrightarrow> attributed evs a"
  by (erule foldE_prefix_invariant[where P = attributed])
    (simp add: attributed_def times_def, erule attribute1_attributed)

lemma boundaries_last:
  "case foldl boundary1 ([], []) evs of (starts, ends) \<Rightarrow>
     (let last_of = (\<lambda>xs. if xs = [] then None else Some (last xs)) in
      map_of starts s = last_of (times STAGES (\<lambda>x. x = ''begin'') s evs) \<and>
      map_of ends s = last_of (times STAGES (\<lambda>x. x = ''end-ok'') s evs))"
proof (induction evs rule: rev_induct)
  case Nil
  show ?case by (simp add: times_def)
next
  case (snoc ev evs)
  then show ?case
    by (cases "foldl boundary1 ([], []) evs")
      (auto simp: boundary1_def times_snoc update_conv Let_def split: option.splits if_splits)
qed

lemma attribute_timeline:
  assumes "attribute events = Inr (elapsed, funcs)" and "s \<in> set STAGES"
  shows "\<exists>b t. begin_times s events = [b] \<and> end_times s events = [t] \<and> map_of elapsed s = Some (ms_of (t - b))"
proof -
  from assms(1) obtain a where a: "foldE attribute1 \<lparr> at_begin = [], at_elapsed = [], at_funcs = [] \<rparr> events = Inr a"
    and el: "elapsed = at_elapsed a" "fst ` set (at_elapsed a) = set STAGES"
    by (auto simp: attribute_def bindE_Inr_iff ensure_Inr_iff)
  from el assms(2) obtain ms where ms: "map_of (at_elapsed a) s = Some ms"
    by (metis map_of_None_fst not_None_eq)
  from attribute_attributed[OF a] have "stage_ok (begin_times s events) (end_times s events) (map_of (at_begin a) s) (map_of (at_elapsed a) s)"
    by (simp add: attributed_def)
  with ms el(1) show ?thesis by auto
qed

text \<open>
  C37. The two readings of a trace agree on one timeline: when both succeed, every stage has exactly one
  begin and one successful end, its reported duration is the rounded difference of their times, the reported gaps are
  the rounded times between the end of a stage and the begin of the next, none of them negative, and
  stages and gaps together tile the time from the begin of the first stage to the end of the last.
\<close>

theorem phase_timeline:
  assumes "attribute events = Inr (elapsed, funcs)" and "compute_interstage_gaps events = Inr gaps"
  shows "\<exists>b t. (\<forall>s \<in> set STAGES. begin_times s events = [b s] \<and> end_times s events = [t s] \<and>
        map_of elapsed s = Some (ms_of (t s - b s))) \<and>
      gaps = map (\<lambda>(p, q). (gap_name p q, ms_of (b q - t p))) STAGE_PAIRS \<and>
      (\<forall>(p, q) \<in> set STAGE_PAIRS. t p \<le> b q) \<and>
      (\<Sum>s \<leftarrow> STAGES. t s - b s) + (\<Sum>(p, q) \<leftarrow> STAGE_PAIRS. b q - t p) = t ''codegen'' - b ''parse''"
proof -
  obtain b t where bt: "\<forall>s \<in> set STAGES. begin_times s events = [b s] \<and> end_times s events = [t s] \<and>
      map_of elapsed s = Some (ms_of (t s - b s))"
    using attribute_timeline[OF assms(1)] by metis
  obtain starts ends where se: "foldl boundary1 ([], []) events = (starts, ends)"
    by (cases "foldl boundary1 ([], []) events")
  have m: "map_of starts s = Some (b s)" "map_of ends s = Some (t s)" if "s \<in> set STAGES" for s
    using boundaries_last[where evs = events and s = s] bt that by (auto simp: se Let_def)
  have pairs: "p \<in> set STAGES \<and> q \<in> set STAGES" if "(p, q) \<in> set STAGE_PAIRS" for p q
    using that by (auto simp: STAGE_PAIRS_def STAGES_def)
  from assms(2) have g: "list_all2 (\<lambda>ab g. gap1 starts ends ab = Inr g) STAGE_PAIRS gaps"
    by (auto simp: compute_interstage_gaps_def se bindE_Inr_iff ensure_Inr_iff mapE_Inr_iff)
  then have "list_all2 (\<lambda>ab g. (\<lambda>(p, q). (gap_name p q, ms_of (b q - t p))) ab = g \<and> (\<lambda>(p, q). t p \<le> b q) ab) STAGE_PAIRS gaps"
    by (rule list.rel_mono_strong) (auto simp: gap1_def m dest!: pairs split: if_splits)
  then have "gaps = map (\<lambda>(p, q). (gap_name p q, ms_of (b q - t p))) STAGE_PAIRS \<and> (\<forall>(p, q) \<in> set STAGE_PAIRS. t p \<le> b q)"
    by (induction rule: list_all2_induct) auto
  moreover have "(\<Sum>s \<leftarrow> STAGES. t s - b s) + (\<Sum>(p, q) \<leftarrow> STAGE_PAIRS. b q - t p) = t ''codegen'' - b ''parse''"
    by (simp add: STAGE_PAIRS_def STAGES_def)
  ultimately show ?thesis using bt by blast
qed

text \<open>Six stages of two milliseconds with gaps of one.\<close>

definition trace_line :: "string \<Rightarrow> string \<Rightarrow> string" where
  "trace_line stage action = ''MINIC_BOOTSTRAP_TRACE stage='' @ stage @ '' state='' @ action @ '' functions=1''"

definition demo_events :: "event list" where
  "demo_events = concat (map (\<lambda>(i, stage). [(3000000 * i, trace_line stage ''begin''), (3000000 * i + 2000000, trace_line stage ''end-ok'')])
     (zip [0, 1, 2, 3, 4, 5] STAGES))"

lemma demo_attribute: "attribute demo_events = Inr (map (\<lambda>s. (s, ms_of 2000000)) STAGES, map (\<lambda>s. (s, 1)) STAGES)"
  by code_simp

lemma demo_gaps: "compute_interstage_gaps demo_events = Inr (map (\<lambda>(p, q). (gap_name p q, ms_of 1000000)) STAGE_PAIRS)"
  by code_simp

theorem phase_timeline_witness:
  "\<exists>b t :: string \<Rightarrow> int. b ''parse'' = 0 \<and> t ''codegen'' = 17000000 \<and>
     (\<Sum>s \<leftarrow> STAGES. t s - b s) + (\<Sum>(p, q) \<leftarrow> STAGE_PAIRS. b q - t p) = 17000000"
proof -
  obtain b t where bt: "\<forall>s \<in> set STAGES. begin_times s demo_events = [b s] \<and> end_times s demo_events = [t s] \<and>
      map_of (map (\<lambda>s. (s, ms_of 2000000)) STAGES) s = Some (ms_of (t s - b s))"
    "(\<Sum>s \<leftarrow> STAGES. t s - b s) + (\<Sum>(p, q) \<leftarrow> STAGE_PAIRS. b q - t p) = t ''codegen'' - b ''parse''"
    using phase_timeline[OF demo_attribute demo_gaps] by auto
  have "begin_times ''parse'' demo_events = [0]" "end_times ''codegen'' demo_events = [17000000]" by code_simp+
  with bt have "b ''parse'' = 0" "t ''codegen'' = 17000000" by (simp_all add: STAGES_def)
  with bt(2) show ?thesis by (intro exI[of _ b] exI[of _ t]) simp
qed

section \<open>Rounding\<close>

lemma double_scale_enough: "0 < p \<Longrightarrow> 0 < q \<Longrightarrow> q * 2 ^ 52 \<le> p * 2 ^ double_scale p q e"
  by (induction p q e rule: double_scale.induct) (subst double_scale.simps, auto)

lemma double_excess_none: "p < q * 2 ^ 53 \<Longrightarrow> double_excess p q 0 = 0"
  by (subst double_excess.simps) simp

text \<open>
  C39. A reported duration is the measured one to the nearest microsecond: for every interval below
  \<open>2 ^ 53\<close> nanoseconds, more than a hundred days, the division to milliseconds and the rounding to three
  decimals, with their two roundings, give the floating-point number nearest to a whole number of microseconds that
  is at most half a microsecond away from the interval.
\<close>

theorem ms_of_accurate:
  assumes "\<bar>ns\<bar> < 2 ^ 53"
  shows "\<exists>us. ms_of ns = quotient64 us 1000 \<and> \<bar>1000 * us - ns\<bar> \<le> 500"
proof -
  define e where "e = double_scale \<bar>ns\<bar> 1000000 0"
  define m where "m = round_half_even (ns * 2 ^ e) 1000000"
  define us where "us = round_half_even (m * 1000) (2 ^ e)"
  have "quotient64 ns 1000000 = (m, e)"
    using assms by (simp add: quotient64_def double_excess_none m_def e_def Let_def)
  then have ms: "ms_of ns = quotient64 us 1000" by (simp add: ms_of_def round3_def scaled_def us_def)
  have m: "2 * \<bar>m * 1000000 - ns * 2 ^ e\<bar> \<le> 1000000" unfolding m_def by (rule round_half_even_error) simp
  have us: "2 * \<bar>us * 2 ^ e - m * 1000\<bar> \<le> 2 ^ e" unfolding us_def by (rule round_half_even_error) simp
  have "\<bar>1000 * us - ns\<bar> \<le> 500"
  proof (cases "ns = 0")
    case True
    then have "m = 0" "us = 0" by (simp_all add: m_def us_def round_half_even_def)
    with True show ?thesis by simp
  next
    case False
    then have "1000000 * 2 ^ 52 \<le> \<bar>ns\<bar> * 2 ^ e" unfolding e_def by (intro double_scale_enough) auto
    also have "\<dots> < 2 ^ 53 * 2 ^ e" using assms by (intro mult_strict_right_mono) auto
    finally have "(500000 :: int) < 2 ^ e" by simp
    moreover have "(1000 * us - ns) * 2 ^ e = 1000 * (us * 2 ^ e - m * 1000) + (m * 1000000 - ns * 2 ^ e)"
      by (simp add: left_diff_distrib)
    then have "\<bar>(1000 * us - ns) * 2 ^ e\<bar> \<le> \<bar>1000 * (us * 2 ^ e - m * 1000)\<bar> + \<bar>m * 1000000 - ns * 2 ^ e\<bar>"
      by (simp only: abs_triangle_ineq)
    then have "\<bar>1000 * us - ns\<bar> * 2 ^ e \<le> 1000 * \<bar>us * 2 ^ e - m * 1000\<bar> + \<bar>m * 1000000 - ns * 2 ^ e\<bar>"
      by (simp only: abs_mult abs_numeral abs_power2 power_abs)
    moreover have "y < 501 * w" if "500000 < w" "y \<le> 1000 * x + z" "2 * z \<le> 1000000" "2 * x \<le> w" for w x y z :: int
      using that by linarith
    ultimately have "\<bar>1000 * us - ns\<bar> * 2 ^ e < 501 * 2 ^ e" using m us by blast
    then show ?thesis by simp
  qed
  with ms show ?thesis by blast
qed

theorem ms_of_accurate_witness: "\<exists>us. ms_of 1234567 = quotient64 us 1000 \<and> \<bar>1000 * us - 1234567\<bar> \<le> 500"
  by (rule ms_of_accurate) simp

section \<open>Specialization time is the sum over matched markers\<close>

abbreviation opened :: "string \<Rightarrow> event list \<Rightarrow> int list" where
  "opened s evs \<equiv> times TRACED_STAGES (\<lambda>x. x = ''begin'') s evs"

abbreviation closed :: "string \<Rightarrow> event list \<Rightarrow> int list" where
  "closed s evs \<equiv> times TRACED_STAGES (\<lambda>x. startswith x ''end'') s evs"

definition spec_ok :: "int list \<Rightarrow> int list \<Rightarrow> int option \<Rightarrow> int option \<Rightarrow> int option \<Rightarrow> bool" where
  "spec_ok bs es running time calls \<longleftrightarrow>
     (\<exists>pre. list_all2 (\<le>) pre es \<and> bs = pre @ (case running of None \<Rightarrow> [] | Some b \<Rightarrow> [b]) \<and>
        time = (if es = [] then None else Some (sum_list es - sum_list pre)) \<and>
        calls = (if es = [] then None else Some (int (length es))))"

lemma spec_ok_begin: "spec_ok bs es None time calls \<Longrightarrow> spec_ok (bs @ [b]) es (Some b) time calls"
  by (simp add: spec_ok_def)

lemma spec_ok_end:
  assumes "spec_ok bs es (Some b) time calls" and "b \<le> t"
  shows "spec_ok bs (es @ [t]) None (Some ((case time of None \<Rightarrow> 0 | Some n \<Rightarrow> n) + (t - b)))
    (Some ((case calls of None \<Rightarrow> 0 | Some n \<Rightarrow> n) + 1))"
proof -
  from assms obtain pre where "list_all2 (\<le>) pre es" "bs = pre @ [b]"
    "time = (if es = [] then None else Some (sum_list es - sum_list pre))"
    "calls = (if es = [] then None else Some (int (length es)))" by (auto simp: spec_ok_def)
  moreover from this(1) assms(2) have "list_all2 (\<le>) (pre @ [b]) (es @ [t])" by (simp add: list_all2_appendI)
  ultimately show ?thesis unfolding spec_ok_def by (intro exI[of _ "pre @ [b]"]) auto
qed

definition traced :: "event list \<Rightarrow> spec_trace \<Rightarrow> bool" where
  "traced evs t \<longleftrightarrow>
     (\<forall>s. spec_ok (opened s evs) (closed s evs) (map_of (sp_started t) s) (map_of (sp_total t) s) (map_of (sp_calls t) s))"

lemma spec1_traced:
  assumes "traced evs t" and "spec1 t ev = Inr t'"
  shows "traced (evs @ [ev]) t'"
proof (cases "marker TRACED_STAGES (snd ev)")
  case None
  with assms show ?thesis by (simp add: traced_def spec1_def times_snoc)
next
  case (Some m)
  obtain stage action n where m: "m = (stage, action, n)" by (cases m)
  note step = assms(2)[unfolded spec1_def Some m, simplified]
  from assms(1) have ok: "spec_ok (opened s evs) (closed s evs) (map_of (sp_started t) s) (map_of (sp_total t) s) (map_of (sp_calls t) s)"
    for s by (simp add: traced_def)
  have apart: "\<not> startswith ''begin'' ''end''" by (simp add: startswith_def)
  consider "action = ''begin''" | "startswith action ''end''" | "action \<noteq> ''begin''" "\<not> startswith action ''end''" by blast
  then show ?thesis
  proof cases
    case 1
    with step have "map_of (sp_started t) stage = None"
      "t' = t\<lparr>sp_started := AList.update stage (fst ev) (sp_started t)\<rparr>"
      by (auto simp: map_of_None_fst split: if_split_asm)
    with ok[of stage] ok Some m 1 apart show ?thesis
      by (auto simp: traced_def times_snoc update_conv intro: spec_ok_begin)
  next
    case 2
    with apart have "action \<noteq> ''begin''" by auto
    with 2 step obtain b where b: "map_of (sp_started t) stage = Some b" "b \<le> fst ev"
      "t' = t\<lparr>sp_started := AList.delete stage (sp_started t),
             sp_total := AList.update stage (field (sp_total t) stage + (fst ev - b)) (sp_total t),
             sp_calls := AList.update stage (field (sp_calls t) stage + 1) (sp_calls t)\<rparr>"
      by (auto split: if_split_asm option.splits)
    with spec_ok_end[of "opened stage evs" "closed stage evs" b _ _ "fst ev"] ok[of stage] ok Some m 2 \<open>action \<noteq> ''begin''\<close>
    show ?thesis by (auto simp: traced_def times_snoc update_conv delete_conv field_def)
  next
    case 3
    with step have "t' = t" by (auto split: if_split_asm)
    with ok Some m 3 show ?thesis by (auto simp: traced_def times_snoc)
  qed
qed

text \<open>
  The summary of the specialization markers refines its specification: for every stage the begins and the ends
  pair up in order, no end before its begin, and the summary has an entry exactly for the stages with an end,
  which is the total time between the paired markers, rounded, and the number of pairs.
\<close>

theorem specialization_summary:
  assumes "summarize_specialization_trace events = Inr spec"
  shows "list_all2 (\<le>) (opened s events) (closed s events) \<and>
    map_of spec s = (if closed s events = [] then None
      else Some (ms_of (sum_list (closed s events) - sum_list (opened s events)), int (length (closed s events))))"
proof -
  from assms obtain t where t: "foldE spec1 \<lparr> sp_started = [], sp_total = [], sp_calls = [] \<rparr> events = Inr t" "sp_started t = []"
    and spec: "spec = map (\<lambda>k. (k, ms_of (field (sp_total t) k), field (sp_calls t) k)) (sort (map fst (sp_total t)))"
    by (auto simp: summarize_specialization_trace_def bindE_Inr_iff ensure_Inr_iff)
  from t(1) have "traced events t"
    by (rule foldE_prefix_invariant[where P = traced])
      (simp add: traced_def spec_ok_def times_def, erule spec1_traced)
  then have ok: "spec_ok (opened s events) (closed s events) None (map_of (sp_total t) s) (map_of (sp_calls t) s)"
    using t(2) by (simp add: traced_def)
  have "map_of spec s = (if s \<in> fst ` set (sp_total t) then Some (ms_of (field (sp_total t) s), field (sp_calls t) s) else None)"
    by (simp add: spec map_of_map_restrict restrict_map_def)
  with ok show ?thesis by (auto simp: spec_ok_def field_def map_of_None_fst[symmetric] split: if_splits)
qed

definition demo_spec :: "event list" where
  "demo_spec = [(0, trace_line ''spec-integer'' ''begin''), (5000000, trace_line ''spec-integer'' ''end'')]"

theorem specialization_summary_witness:
  "summarize_specialization_trace demo_spec = Inr [(''spec-integer'', ms_of 5000000, 1)] \<and>
   list_all2 (\<le>) (opened ''spec-integer'' demo_spec) (closed ''spec-integer'' demo_spec)"
proof -
  have "foldE spec1 \<lparr> sp_started = [], sp_total = [], sp_calls = [] \<rparr> demo_spec =
      Inr \<lparr> sp_started = [], sp_total = [(''spec-integer'', 5000000)], sp_calls = [(''spec-integer'', 1)] \<rparr>" by code_simp
  then have "summarize_specialization_trace demo_spec = Inr [(''spec-integer'', ms_of 5000000, 1)]"
    by (simp add: summarize_specialization_trace_def field_def)
  then show ?thesis using specialization_summary[THEN conjunct1] by (intro conjI)
qed

section \<open>The lookups of the report\<close>

text \<open>A statement whose failed lookups, if it ends with one, are among given keys.\<close>

definition misses :: "string set \<Rightarrow> py_error + 'a \<Rightarrow> bool" where
  "misses S r \<longleftrightarrow> (\<forall>k. r = Inl (KeyError k) \<longrightarrow> k \<in> S)"

lemma missing_Inr [simp]: "misses S (Inr x)"
  by (simp add: misses_def)

lemma missing_Inl [simp]:
  "misses S (Inl (RuntimeError m))"
  "misses S (Inl (ValueError m))"
  by (simp_all add: misses_def)

lemma missing_bindE: "misses S m \<Longrightarrow> (\<And>x. m = Inr x \<Longrightarrow> misses S (f x)) \<Longrightarrow> misses S (bindE m f)"
  by (cases m) (simp_all add: misses_def)

lemma missing_ensure [simp]: "misses S (ensure ok (RuntimeError m))"
  by (cases ok) simp_all

lemma missing_of_option [simp]:
  "misses S (of_option (RuntimeError m) x)"
  "misses S (of_option (ValueError m) x)"
  by (cases x; simp)+

lemma missing_int_of [simp]: "misses S (int_of t)"
  by (simp add: int_of_def)

lemma missing_mapE: "(\<And>x. x \<in> set xs \<Longrightarrow> misses S (f x)) \<Longrightarrow> misses S (mapE f xs)"
  by (induction xs) (auto intro!: missing_bindE)

lemma missing_foldE: "(\<And>s x. misses S (f s x)) \<Longrightarrow> misses S (foldE f s xs)"
  by (induction xs arbitrary: s) (auto intro!: missing_bindE)

lemma missing_attribute: "misses S (attribute events)"
proof -
  have "misses S (attribute1 a ev)" for a ev
    by (auto simp: attribute1_def intro!: missing_bindE split: option.splits)
  then show ?thesis by (auto simp: attribute_def intro!: missing_bindE missing_foldE)
qed

lemma missing_gaps: "misses S (compute_interstage_gaps events)"
proof (cases "foldl boundary1 ([], []) events")
  case (Pair starts ends)
  have "misses S (gap1 starts ends (p, q))"
    if "fst ` set starts = set STAGES" "fst ` set ends = set STAGES" "(p, q) \<in> set STAGE_PAIRS" for p q
  proof -
    from that(3) have "p \<in> set STAGES" "q \<in> set STAGES" by (auto simp: STAGE_PAIRS_def STAGES_def)
    with that obtain x y where "map_of starts q = Some x" "map_of ends p = Some y"
      by (metis map_of_None_fst not_None_eq)
    then show ?thesis by (simp add: gap1_def)
  qed
  with Pair show ?thesis
    by (auto simp: compute_interstage_gaps_def ensure_Inr_iff intro!: missing_bindE missing_mapE)
qed

lemma missing_specialization: "misses S (summarize_specialization_trace events)"
proof -
  have "misses S (spec1 a ev)" for a ev
    by (auto simp: spec1_def split: option.splits)
  then show ?thesis by (auto simp: summarize_specialization_trace_def intro!: missing_bindE missing_foldE)
qed

lemma missing_reports:
  "(\<And>m. misses S (parse m)) \<Longrightarrow> misses S (bindE (reports r parse events) (at_most_one message))"
  "(\<And>m. misses S (parse m)) \<Longrightarrow> misses S (bindE (reports r parse events) (exactly_one message))"
  by (auto simp: reports_def at_most_one_def exactly_one_def intro!: missing_bindE missing_mapE split: list.splits)

lemma missing_profile [simp]: "misses S (profile_fields t)"
  by (auto simp: profile_fields_def profile_word_def intro!: missing_bindE missing_foldE split: option.splits)

lemma missing_readers:
  "misses S (read_boolean_counts events)"
  "misses S (read_symbolic_counts events)"
  "misses S (read_integer_owner_counts events)"
  "misses S (read_parser_lookup_counts events)"
  "misses S (read_core_reentry_counts events)"
proof -
  show "misses S (read_boolean_counts events)"
    unfolding read_boolean_counts_def by (rule missing_reports) (auto simp: boolean_fields_def intro!: missing_bindE)
  show "misses S (read_symbolic_counts events)"
    unfolding read_symbolic_counts_def by (rule missing_reports) (auto simp: symbolic_fields_def intro!: missing_bindE)
  show "misses S (read_integer_owner_counts events)"
    unfolding read_integer_owner_counts_def
    by (rule missing_reports) (auto simp: integer_owner_fields_def Let_def intro!: missing_bindE missing_mapE)
  show "misses S (read_parser_lookup_counts events)"
    unfolding read_parser_lookup_counts_def
    by (rule missing_reports)
      (auto simp: parser_lookup_fields_def lookup_pair_def entity_def Let_def intro!: missing_bindE missing_foldE)
  show "misses S (read_core_reentry_counts events)"
    unfolding read_core_reentry_counts_def
    by (rule missing_reports) (auto simp: core_reentry_fields_def Let_def intro!: missing_bindE missing_mapE)
qed

lemma missing_sample: "misses S (sample sha environ compiler collect)"
  by (auto simp: sample_def Let_def when_collected_def missing_attribute missing_gaps missing_specialization missing_readers
      intro!: missing_bindE)

definition typed_sample :: "trace_sample \<Rightarrow> bool" where
  "typed_sample it \<longleftrightarrow> set STAGES \<subseteq> fst ` set (ts_stage_ms it) \<and>
     (\<lambda>(a, b). gap_name a b) ` set STAGE_PAIRS \<subseteq> fst ` set (ts_interstage_gap_ms it) \<and>
     (\<forall>c. ts_boolean_counts it = Some c \<longrightarrow> fst ` set c = set BOOLEAN_COUNTER_FIELDS) \<and>
     (\<forall>c. ts_symbolic_counts it = Some c \<longrightarrow> fst ` set c = set SYMBOLIC_COUNTER_FIELDS)"

lemma at_most_one_Inr: "at_most_one message found = Inr (Some x) \<Longrightarrow> x \<in> set found"
  by (auto simp: at_most_one_def split: list.splits)

lemma read_counts_keys:
  "read_boolean_counts events = Inr (Some c) \<Longrightarrow> fst ` set c = set BOOLEAN_COUNTER_FIELDS"
  "read_symbolic_counts events = Inr (Some c) \<Longrightarrow> fst ` set c = set SYMBOLIC_COUNTER_FIELDS"
proof -
  assume "read_boolean_counts events = Inr (Some c)"
  then obtain found where "mapE boolean_fields (List.map_filter (re_search BOOLEAN_COUNTER_RE \<circ> snd) events) = Inr found" "c \<in> set found"
    by (auto simp: read_boolean_counts_def reports_def bindE_Inr_iff dest: at_most_one_Inr)
  from mapE_Inr_set[OF this] show "fst ` set c = set BOOLEAN_COUNTER_FIELDS"
    by (auto simp: boolean_fields_def bindE_Inr_iff ensure_Inr_iff)
next
  assume "read_symbolic_counts events = Inr (Some c)"
  then obtain found where "mapE symbolic_fields (List.map_filter (re_search SYMBOLIC_COUNTER_RE \<circ> snd) events) = Inr found" "c \<in> set found"
    by (auto simp: read_symbolic_counts_def reports_def bindE_Inr_iff dest: at_most_one_Inr)
  from mapE_Inr_set[OF this] show "fst ` set c = set SYMBOLIC_COUNTER_FIELDS"
    by (auto simp: symbolic_fields_def bindE_Inr_iff ensure_Inr_iff)
qed

lemma gaps_keys:
  assumes "compute_interstage_gaps events = Inr gaps"
  shows "map fst gaps = map (\<lambda>(a, b). gap_name a b) STAGE_PAIRS"
proof -
  obtain starts ends where "foldl boundary1 ([], []) events = (starts, ends)" by (cases "foldl boundary1 ([], []) events")
  with assms have "list_all2 (\<lambda>ab g. gap1 starts ends ab = Inr g) STAGE_PAIRS gaps"
    by (auto simp: compute_interstage_gaps_def bindE_Inr_iff ensure_Inr_iff mapE_Inr_iff)
  then have "list_all2 (\<lambda>ab g. fst g = (\<lambda>(a, b). gap_name a b) ab) STAGE_PAIRS gaps"
    by (rule list.rel_mono_strong) (auto simp: gap1_def bindE_Inr_iff of_option_Inr_iff split: if_splits)
  then show ?thesis by (rule list_all2_map_eq)
qed

lemma sample_typed:
  assumes "sample sha environ compiler collect = Inr it"
  shows "typed_sample it"
proof -
  from assms obtain events gaps stages functions' where
    "attribute events = Inr (stages, functions')" "compute_interstage_gaps events = Inr gaps"
    "read_boolean_counts events = Inr (ts_boolean_counts it)" "read_symbolic_counts events = Inr (ts_symbolic_counts it)"
    "ts_stage_ms it = stages" "ts_interstage_gap_ms it = gaps"
    by (auto simp: sample_def Let_def bindE_Inr_iff split: if_splits)
  moreover from this(1) have "fst ` set stages = set STAGES"
    by (auto simp: attribute_def bindE_Inr_iff ensure_Inr_iff)
  moreover have "fst ` set gaps = (\<lambda>(a, b). gap_name a b) ` set STAGE_PAIRS"
    using arg_cong[OF gaps_keys[OF \<open>compute_interstage_gaps events = Inr gaps\<close>], of set] by simp
  ultimately show ?thesis using read_counts_keys[of events]
    unfolding typed_sample_def by (intro conjI allI impI) simp_all
qed

section \<open>Printing without failed lookups\<close>

lemma misses_bindO: "misses S (snd m) \<Longrightarrow> (\<And>x. snd m = Inr x \<Longrightarrow> misses S (snd (f x))) \<Longrightarrow> misses S (snd (bindO m f))"
  by (cases m) (auto simp: bindO_def misses_def split: sum.splits prod.splits)

lemma misses_simple [simp]:
  "misses S (snd (say line))" "misses S (snd (require ok message))" "misses S (snd (silently (Inr x)))"
  by (simp_all add: say_def require_def silently_def)

lemma misses_item: "k \<in> fst ` set d \<or> k \<in> S \<Longrightarrow> misses S (snd (item d k))"
  using map_of_None_fst[of d k] by (cases "map_of d k") (auto simp: item_def silently_def misses_def)

lemma misses_eachO: "(\<And>x. x \<in> set xs \<Longrightarrow> misses S (snd (f x))) \<Longrightarrow> misses S (snd (eachO f xs))"
  by (induction xs) (auto intro!: misses_bindO)

lemma misses_itemsO: "set ks \<subseteq> fst ` set d \<Longrightarrow> misses S (snd (itemsO d ks))"
  by (induction ks) (auto intro!: misses_bindO misses_item)

lemma called_once_keys: "called_once spec names \<Longrightarrow> set names \<subseteq> fst ` set spec"
  by (auto simp: called_once_def list_all_iff map_of_SomeD image_iff) (metis fst_conv map_of_SomeD)

lemma misses_inner_outer:
  assumes "outer \<in> fst ` set spec \<or> outer \<in> S"
  shows "misses S (snd (inner_outer spec names outer m1 m2))"
  unfolding inner_outer_def Let_def
proof (intro misses_bindO)
  fix u assume "snd (require (called_once spec names) m1) = Inr u"
  then have "called_once spec names" by (simp add: require_def silently_def ensure_Inr_iff)
  then show "misses S (snd (itemsO spec names))" by (intro misses_itemsO called_once_keys)
qed (use assms in \<open>auto intro: misses_item\<close>)

lemma inner_outer_keys: "snd (inner_outer spec names outer m1 m2) = Inr x \<Longrightarrow> set names \<subseteq> fst ` set spec"
  by (auto simp: inner_outer_def bindO_def require_def silently_def ensure_def called_once_keys split: if_splits)

lemma misses_timers: "set names \<subseteq> fst ` set spec \<Longrightarrow> misses S (snd (eachO (timer_line spec title digits) names))"
  by (auto simp: timer_line_def intro!: misses_eachO misses_bindO misses_item)

lemma misses_words: "set names \<subseteq> fst ` set d \<Longrightarrow> misses S (snd (count_words d names))"
  by (auto simp: count_words_def intro!: misses_bindO misses_itemsO)

lemma misses_integer_loops:
  "''spec-integer'' \<in> fst ` set (ts_specialization_ms it) \<or> ''spec-integer'' \<in> S \<Longrightarrow> misses S (snd (integer_loops (mode, it)))"
  unfolding integer_loops_def Let_def prod.case
  by (intro misses_bindO misses_inner_outer) (auto split: prod.split intro!: misses_bindO misses_timers dest: inner_outer_keys)

lemma misses_boolean_loops:
  assumes "typed_sample it" and "''spec-boolean'' \<in> fst ` set (ts_specialization_ms it)"
  shows "misses S (snd (boolean_loops it))"
proof -
  have keys: "set BOOLEAN_COUNTER_FIELDS \<subseteq> fst ` set c" if "ts_boolean_counts it = Some c" for c
    using assms(1) that by (simp add: typed_sample_def)
  have "misses S (snd (item c k))" if "ts_boolean_counts it = Some c" "k \<in> set BOOLEAN_COUNTER_FIELDS" for c k
    using keys[OF that(1)] that(2) by (intro misses_item) auto
  then have items: "misses S (snd (item c ''call_expression_visits''))" "misses S (snd (item c ''expression_visits''))"
    "misses S (snd (item c ''range_callers''))" "misses S (snd (item c ''callers''))" if "ts_boolean_counts it = Some c" for c
    using that by (simp_all add: BOOLEAN_COUNTER_FIELDS_def)
  show ?thesis
    unfolding boolean_loops_def Let_def
    by (intro misses_bindO misses_inner_outer misses_timers misses_words)
      (use assms keys items in \<open>auto simp: silently_def of_option_Inr_iff dest: inner_outer_keys\<close>)
qed

lemma misses_symbolic_loops:
  "''spec-symbolic'' \<in> fst ` set (ts_specialization_ms it) \<Longrightarrow> misses S (snd (symbolic_loops it))"
  unfolding symbolic_loops_def Let_def
  by (intro misses_bindO misses_inner_outer) (auto split: prod.split intro!: misses_bindO misses_timers dest: inner_outer_keys)

lemma misses_symbolic_census: "typed_sample it \<Longrightarrow> misses S (snd (symbolic_census it))"
  unfolding symbolic_census_def
  by (intro misses_bindO misses_words) (auto simp: silently_def of_option_Inr_iff typed_sample_def)

lemma misses_specialization:
  assumes "typed_sample it" and "set SPEC_STAGES \<subseteq> fst ` set (ts_specialization_ms it)"
  shows "misses S (snd (specialization it))"
proof -
  have "''normalize-to-core-set'' \<in> fst ` set (ts_interstage_gap_ms it)"
    using assms(1) by (auto simp: typed_sample_def STAGE_PAIRS_def STAGES_def gap_name_def)
  with assms(2) show ?thesis
    unfolding specialization_def Let_def by (intro misses_bindO misses_timers misses_item misses_itemsO) auto
qed

lemma misses_compare:
  "set names \<subseteq> fst ` set olds \<Longrightarrow> set names \<subseteq> fst ` set news \<Longrightarrow> misses S (snd (eachO (compare_line title olds news) names))"
  by (auto simp: compare_line_def intro!: misses_eachO misses_bindO misses_item)

text \<open>
  C38. The report is well typed: whatever the compilers print, the samples that the readers accept have every
  entry that the report looks up, so that no lookup fails, with one exception: with the integer timers
  expected, the baseline's trace is not required to have the outer integer marker that is then looked up.
\<close>

theorem phase_report_lookups:
  "let outcome = phase_main sha environ ns input baseline candidate in
   misses (case ph_data outcome of None \<Rightarrow> {}
     | Some (digest, before, after) \<Rightarrow>
         if pa_integer_loops ns \<and> ''spec-integer'' \<notin> fst ` set (ts_specialization_ms before) then {''spec-integer''} else {})
     (ph_result outcome)"
proof (cases "phase_checks sha environ ns input baseline candidate")
  case (Inl e)
  have checks: "misses {} (phase_checks sha environ ns input baseline candidate)"
    unfolding phase_checks_def by (intro missing_bindE) (auto simp: missing_sample)
  with Inl show ?thesis by (simp add: phase_main_def misses_def)
next
  case (Inr r)
  then obtain digest before after where ok: "phase_checks sha environ ns input baseline candidate = Inr (digest, before, after)"
    by (cases r) auto
  from ok have typed: "typed_sample before" "typed_sample after"
    and flags: "pa_integer_loops ns \<or> pa_boolean_loops ns \<or> pa_symbolic_loops ns \<longrightarrow> pa_specialization ns"
      "pa_specialization ns \<longrightarrow> set SPEC_STAGES \<subseteq> fst ` set (ts_specialization_ms after)"
    by (auto simp: phase_checks_def bindE_Inr_iff ensure_Inr_iff dest: sample_typed)
  define S where "S = (if pa_integer_loops ns \<and> ''spec-integer'' \<notin> fst ` set (ts_specialization_ms before) then {''spec-integer''} else {})"
  have outer: "pa_integer_loops ns \<or> pa_boolean_loops ns \<or> pa_symbolic_loops ns \<Longrightarrow>
      ''spec-integer'' \<in> fst ` set (ts_specialization_ms after) \<and> ''spec-boolean'' \<in> fst ` set (ts_specialization_ms after) \<and>
      ''spec-symbolic'' \<in> fst ` set (ts_specialization_ms after)"
    using flags by (simp add: SPEC_STAGES_def)
  have "pa_integer_loops ns \<Longrightarrow> misses S (snd (eachO integer_loops [(''before'', before), (''after'', after)]))"
    using outer by (intro misses_eachO) (auto simp: S_def intro!: misses_integer_loops)
  then have "misses S (snd (if pa_integer_loops ns then eachO integer_loops [(''before'', before), (''after'', after)] else ([], Inr ())))"
    by (cases "pa_integer_loops ns") (simp_all only: if_True if_False snd_conv missing_Inr)
  moreover have "misses S (snd (eachO residual xs))" for xs
    by (auto simp: residual_def Let_def intro!: misses_eachO misses_bindO)
  moreover have "misses S (snd (if pa_boolean_loops ns then boolean_loops after else ([], Inr ())))"
    "misses S (snd (if pa_symbolic_loops ns then symbolic_loops after else ([], Inr ())))"
    "misses S (snd (if pa_symbolic_census ns then symbolic_census after else ([], Inr ())))"
    "misses S (snd (if pa_specialization ns then specialization after else ([], Inr ())))"
    using typed(2) outer flags misses_boolean_loops[of after S] misses_symbolic_loops[of after S]
      misses_symbolic_census[of after S] misses_specialization[of after S] by auto
  moreover have "misses S (snd (eachO (compare_line title (ts_stage_ms before) (ts_stage_ms after)) STAGES))"
    "misses S (snd (eachO (compare_line title (ts_interstage_gap_ms before) (ts_interstage_gap_ms after))
       (map (\<lambda>(a, b). gap_name a b) STAGE_PAIRS)))" for title
    using typed unfolding typed_sample_def by (intro misses_compare; simp)+
  ultimately have "misses S (snd (phase_lines ns before after))"
    unfolding phase_lines_def by (intro misses_bindO misses_simple)
  with ok show ?thesis unfolding S_def by (cases "phase_lines ns before after") (simp add: phase_main_def)
qed

end
