(* ===== verification/Captures.thy ===== *)
theory Captures
  imports PyRegex
begin

text \<open>
  What the groups of a match can hold: a pattern that only consumes characters of a class captures only
  such characters.  The parsers use this to know that a captured field has no separator in it.
\<close>

primrec only :: "(char \<Rightarrow> bool) \<Rightarrow> re \<Rightarrow> bool" where
  "only P REps = True"
| "only P (RSet S) = (\<forall>c. S c \<longrightarrow> P c)"
| "only P (RSeq r q) = (only P r \<and> only P q)"
| "only P (RAlt r q) = (only P r \<and> only P q)"
| "only P (RStar r) = only P r"
| "only P (RLazy r) = only P r"
| "only P (RGroup k r) = only P r"
| "only P RBol = True"
| "only P REol = True"
| "only P RBound = True"
| "only P (RNotAhead S) = True"
| "only P (RNotBehind S) = True"

primrec captures :: "(nat \<Rightarrow> char \<Rightarrow> bool) \<Rightarrow> re \<Rightarrow> bool" where
  "captures Q REps = True"
| "captures Q (RSet S) = True"
| "captures Q (RSeq r q) = (captures Q r \<and> captures Q q)"
| "captures Q (RAlt r q) = (captures Q r \<and> captures Q q)"
| "captures Q (RStar r) = captures Q r"
| "captures Q (RLazy r) = captures Q r"
| "captures Q (RGroup k r) = (only (Q k) r \<and> captures Q r)"
| "captures Q RBol = True"
| "captures Q REol = True"
| "captures Q RBound = True"
| "captures Q (RNotAhead S) = True"
| "captures Q (RNotBehind S) = True"

definition consumed :: "(char \<Rightarrow> bool) \<Rightarrow> match_state \<Rightarrow> match_state \<Rightarrow> bool" where
  "consumed P m m' \<longleftrightarrow> (\<exists>u. ms_rest m = u @ ms_rest m' \<and> (\<forall>c \<in> set u. P c))"

lemma consumed_refl: "consumed P m m"
  by (auto simp: consumed_def)

lemma consumed_trans: "consumed P m m1 \<Longrightarrow> consumed P m1 m2 \<Longrightarrow> consumed P m m2"
  by (fastforce simp: consumed_def)

text \<open>A reflexive and transitive relation that a step respects is respected by its repetition.\<close>

lemma star_iter_rel:
  assumes "\<And>m. R m m" and "\<And>m m1 m2. R m m1 \<Longrightarrow> R m1 m2 \<Longrightarrow> R m m2" and "\<And>m m'. m' \<in> set (f m) \<Longrightarrow> R m m'"
  shows "m' \<in> set (star_iter lazy n f m) \<Longrightarrow> R m m'"
proof (induction n arbitrary: m)
  case 0
  then show ?case using assms(1) by simp
next
  case (Suc n)
  then consider "m' = m" | m1 where "m1 \<in> set (f m)" "m' \<in> set (star_iter lazy n f m1)"
    by (auto simp: Let_def split: if_splits)
  then show ?case using assms Suc.IH by cases blast+
qed

lemma matches_only: "only P r \<Longrightarrow> m' \<in> set (matches r m) \<Longrightarrow> consumed P m m'"
proof (induction r arbitrary: m m')
  case (RSet S)
  then show ?case by (cases "ms_rest m") (auto simp: consumed_def split: if_splits)
next
  case (RSeq r q)
  then show ?case using consumed_trans by auto metis
next
  case (RStar r)
  show ?case
    using RStar.prems(2)[simplified] by (rule star_iter_rel[where R = "consumed P", rotated 3])
      (use RStar.prems(1) in \<open>auto intro: consumed_refl consumed_trans RStar.IH\<close>)
next
  case (RLazy r)
  show ?case
    using RLazy.prems(2)[simplified] by (rule star_iter_rel[where R = "consumed P", rotated 3])
      (use RLazy.prems(1) in \<open>auto intro: consumed_refl consumed_trans RLazy.IH\<close>)
next
  case (RGroup k r)
  then show ?case by (auto simp: consumed_def)
qed (auto simp: consumed_refl split: if_splits list.splits option.splits)

definition captured :: "(nat \<Rightarrow> char \<Rightarrow> bool) \<Rightarrow> (nat \<times> string) list \<Rightarrow> bool" where
  "captured Q caps \<longleftrightarrow> (\<forall>k w. map_of caps k = Some w \<longrightarrow> (\<forall>c \<in> set w. Q k c))"

lemma matches_captures: "captures Q r \<Longrightarrow> m' \<in> set (matches r m) \<Longrightarrow> captured Q (ms_caps m) \<longrightarrow> captured Q (ms_caps m')"
proof (induction r arbitrary: m m')
  case (RSeq r q)
  then show ?case by fastforce
next
  case (RStar r)
  show ?case
    using RStar.prems(2)[simplified]
    by (rule star_iter_rel[where R = "\<lambda>m m'. captured Q (ms_caps m) \<longrightarrow> captured Q (ms_caps m')", rotated 3])
      (use RStar.prems(1) RStar.IH in auto)
next
  case (RLazy r)
  show ?case
    using RLazy.prems(2)[simplified]
    by (rule star_iter_rel[where R = "\<lambda>m m'. captured Q (ms_caps m) \<longrightarrow> captured Q (ms_caps m')", rotated 3])
      (use RLazy.prems(1) RLazy.IH in auto)
next
  case (RGroup k r)
  from RGroup.prems(2) obtain m1 where m1: "m1 \<in> set (matches r m)" and
    m': "m' = m1\<lparr>ms_caps := AList.update k (take (length (ms_rest m) - length (ms_rest m1)) (ms_rest m)) (ms_caps m1)\<rparr>" by auto
  from RGroup.prems(1) m1 have "consumed (Q k) m m1" by (auto intro: matches_only)
  then have "\<forall>c \<in> set (take (length (ms_rest m) - length (ms_rest m1)) (ms_rest m)). Q k c"
    by (auto simp: consumed_def)
  moreover have "captured Q (ms_caps m) \<longrightarrow> captured Q (ms_caps m1)" using RGroup.IH RGroup.prems(1) m1 by auto
  ultimately show ?case by (auto simp: m' captured_def update_conv' split: if_splits)
qed (auto split: if_splits list.splits option.splits)

lemma captured_group:
  assumes "st \<in> set (matches r (start_state i pv s))" and "rm_groups m = ms_caps st" and "captures Q r" and "c \<in> set (group m k)"
  shows "Q k c"
proof -
  have "captured Q (ms_caps (start_state i pv s))" by (simp add: captured_def start_state_def)
  with matches_captures[OF assms(3,1)] have "captured Q (ms_caps st)" by blast
  with assms(2,4) show ?thesis by (cases "map_of (ms_caps st) k") (auto simp: group_def captured_def)
qed

lemma fullmatch_captures:
  assumes "re_fullmatch r s = Some m" and "captures Q r" and "c \<in> set (group m k)"
  shows "Q k c"
proof -
  from assms(1) obtain st where "st \<in> set (matches r (start_state 0 None s))" "rm_groups m = ms_caps st"
    by (auto simp: re_fullmatch_def split: list.splits) (metis Cons_eq_filterD in_set_conv_decomp)
  then show ?thesis using assms(2,3) by (rule captured_group)
qed

lemma match_captures:
  assumes "re_match r s = Some m" and "captures Q r" and "c \<in> set (group m k)"
  shows "Q k c"
proof -
  from assms(1) obtain st where "st \<in> set (matches r (start_state 0 None s))" "rm_groups m = ms_caps st"
    by (cases "matches r (start_state 0 None s)") (auto simp: re_match_def match_at_def, blast)
  then show ?thesis using assms(2,3) by (rule captured_group)
qed

end
