(* ===== verification/Csv.thy ===== *)
theory Csv
  imports Prelude
begin

text \<open>
  \<^verbatim>\<open>csv.DictReader(lines, delimiter=...)\<close> with the default dialect: a double quote at the start of a field
  opens a quoted field, in which the delimiter is literal, a doubled quote is a quote, and which may run
  over several lines.  The lines come from \<^verbatim>\<open>splitlines\<close>, so that none contains a line feed or a carriage return.

  Shown here: lines of fields joined by the delimiter are read back as those fields.
\<close>

datatype csv_state = StartField | InField | InQuoted | QuoteInQuoted

definition csv_char :: "char \<Rightarrow> csv_state \<times> string \<times> string list \<Rightarrow> char \<Rightarrow> csv_state \<times> string \<times> string list" where
  [py_defs]: "csv_char delimiter sfr c =
     (case sfr of (st, f, row) \<Rightarrow>
        (case st of
           StartField \<Rightarrow>
             if c = CHR 0x22 then (InQuoted, f, row)
             else if c = delimiter then (StartField, [], row @ [f])
             else (InField, f @ [c], row)
         | InField \<Rightarrow> if c = delimiter then (StartField, [], row @ [f]) else (InField, f @ [c], row)
         | InQuoted \<Rightarrow> if c = CHR 0x22 then (QuoteInQuoted, f, row) else (InQuoted, f @ [c], row)
         | QuoteInQuoted \<Rightarrow>
             if c = CHR 0x22 then (InQuoted, f @ [c], row)
             else if c = delimiter then (StartField, [], row @ [f])
             else (InField, f @ [c], row)))"

text \<open>The records of a sequence of lines; the first argument is the record left open by a quoted field.\<close>

fun csv_records :: "char \<Rightarrow> (string \<times> string list) option \<Rightarrow> string list \<Rightarrow> string list list" where
  "csv_records delimiter None [] = []"
| "csv_records delimiter (Some (f, row)) [] = [row @ [f]]"
| "csv_records delimiter pending (line # lines) =
     (if pending = None \<and> line = [] then [] # csv_records delimiter None lines
      else case foldl (csv_char delimiter)
             (case pending of None \<Rightarrow> (StartField, [], []) | Some (f, row) \<Rightarrow> (InQuoted, f, row)) line of
        (st, f, row) \<Rightarrow>
          if st = InQuoted then csv_records delimiter (Some (f, row)) lines
          else (row @ [f]) # csv_records delimiter None lines)"

text \<open>A row as a dictionary: a missing value is \<^const>\<open>None\<close>; surplus values are not under any name.\<close>

type_synonym csv_row = "(string \<times> string option) list"

definition csv_dict :: "string list \<Rightarrow> string list \<Rightarrow> csv_row" where
  [py_defs]: "csv_dict fieldnames row =
     foldl (\<lambda>d (k, v). AList.update k v d) []
       (zip fieldnames (map Some row @ replicate (length fieldnames - length row) None))"

definition dict_reader :: "char \<Rightarrow> string list \<Rightarrow> csv_row list" where
  [py_defs]: "dict_reader delimiter lines =
     (case csv_records delimiter None lines of
        [] \<Rightarrow> []
      | fieldnames # rows \<Rightarrow> map (csv_dict fieldnames) (filter (\<lambda>row. row \<noteq> []) rows))"

text \<open>\<^verbatim>\<open>row[k]\<close> and \<^verbatim>\<open>int(row[k])\<close>.\<close>

definition row_item :: "csv_row \<Rightarrow> string \<Rightarrow> py_error + string option" where
  [py_defs]: "row_item row k = of_option (KeyError k) (map_of row k)"

definition row_int :: "csv_row \<Rightarrow> string \<Rightarrow> py_error + int" where
  [py_defs]: "row_int row k =
     bindE (row_item row k) (\<lambda>v. case v of
        None \<Rightarrow> Inl (TypeError ''int() argument must be a string'')
      | Some t \<Rightarrow> of_option (ValueError t) (py_int 10 t))"

section \<open>Reading back joined fields\<close>

definition csv_safe :: "char \<Rightarrow> string \<Rightarrow> bool" where
  "csv_safe delimiter w \<longleftrightarrow> delimiter \<notin> set w \<and> take 1 w \<noteq> [CHR 0x22]"

lemma csv_in_field: "delimiter \<notin> set w \<Longrightarrow> foldl (csv_char delimiter) (InField, f, row) w = (InField, f @ w, row)"
  by (induction w arbitrary: f) (auto simp: csv_char_def)

lemma csv_field:
  "csv_safe delimiter w \<Longrightarrow>
   foldl (csv_char delimiter) (StartField, [], row) w = (if w = [] then StartField else InField, w, row)"
  by (cases w) (auto simp: csv_safe_def csv_char_def csv_in_field)

lemma csv_delimiter:
  "delimiter \<noteq> CHR 0x22 \<Longrightarrow> csv_char delimiter (if w = [] then StartField else InField, w, row) delimiter = (StartField, [], row @ [w])"
  by (simp add: csv_char_def)

lemma csv_line:
  assumes "\<forall>w \<in> set ws. csv_safe delimiter w" "ws \<noteq> []" "delimiter \<noteq> CHR 0x22"
  shows "\<exists>st. st \<noteq> InQuoted \<and> foldl (csv_char delimiter) (StartField, [], row) (join [delimiter] ws) = (st, last ws, row @ butlast ws)"
  using assms
proof (induction ws arbitrary: row)
  case (Cons w ws)
  show ?case
  proof (cases "ws = []")
    case True
    with Cons.prems show ?thesis by (auto simp: csv_field)
  next
    case False
    with Cons.prems Cons.IH[of "row @ [w]"] show ?thesis by (simp add: join_Cons csv_field csv_delimiter)
  qed
qed simp

lemma csv_records_joined:
  assumes "delimiter \<noteq> CHR 0x22" and "\<forall>ws \<in> set rows. 2 \<le> length ws \<and> (\<forall>w \<in> set ws. csv_safe delimiter w)"
  shows "csv_records delimiter None (map (join [delimiter]) rows) = rows"
  using assms(2)
proof (induction rows)
  case (Cons ws rows)
  then have ws: "ws \<noteq> []" "\<forall>w \<in> set ws. csv_safe delimiter w" by auto
  obtain a b t where "ws = a # b # t" using Cons.prems by (metis list.set_intros(1) length_Cons Suc_le_length_iff numeral_2_eq_2)
  then have "join [delimiter] ws \<noteq> []" by simp
  moreover obtain st where "st \<noteq> InQuoted"
    "foldl (csv_char delimiter) (StartField, [], []) (join [delimiter] ws) = (st, last ws, [] @ butlast ws)"
    using csv_line[OF ws(2,1) assms(1)] by blast
  ultimately show ?case using Cons ws by simp
qed simp

lemma csv_dict_exact:
  assumes "distinct fieldnames" and "length row = length fieldnames"
  shows "csv_dict fieldnames row = zip fieldnames (map Some row)"
proof -
  have "foldl (\<lambda>d (k, v). AList.update k v d) acc kvs = acc @ kvs" if "distinct (map fst (acc @ kvs))" for acc kvs :: csv_row
    using that
  proof (induction kvs arbitrary: acc)
    case (Cons kv kvs)
    have "AList.update k v d = d @ [(k, v)]" if "k \<notin> fst ` set d" for k v and d :: csv_row
      using that by (induction d) auto
    with Cons.prems Cons.IH[of "acc @ [kv]"] show ?case by (cases kv) auto
  qed simp
  from this[of "[]" "zip fieldnames (map Some row)"] assms show ?thesis by (simp add: csv_dict_def)
qed

end
