(* ===== verification/Frames.thy ===== *)
theory Frames
  imports Captures Csv
begin

text \<open>
  The readers of the frame audit of the compiler, a chain of small programs that hand each other tables:
  \<^verbatim>\<open>linux-runtime-p1-frame-component-parse-v1.py\<close> checks the totals and the objects of each frame and writes
  the table of objects, \<^verbatim>\<open>linux-runtime-p1-frame-interval-parse-v1.py\<close> reads that table and writes the intervals in
  which an object's slot is live, \<^verbatim>\<open>linux-runtime-p1-frame-access-parse-v1.py\<close> reads the intervals, and
  \<^verbatim>\<open>linux-runtime-p1-use-span-parse-v1.py\<close> joins the objects with the spans of their uses.
  Where a message of the source shows a set or a pair, the model keeps the text before it.
\<close>

abbreviation tab :: char where
  "tab \<equiv> CHR 0x09"

definition nonspace :: "char \<Rightarrow> bool" where
  [py_defs]: "nonspace c = (\<not> is_ws c)"

text \<open>The groups \<^verbatim>\<open>(\S+)\<close>, \<^verbatim>\<open>(\d+)\<close>, \<^verbatim>\<open>(\w+)\<close> and \<^verbatim>\<open>([01])\<close>.\<close>

definition NAME :: "nat \<Rightarrow> re" where
  [py_defs]: "NAME k = RGroup k (RPlus (RSet nonspace))"

definition NUM :: "nat \<Rightarrow> re" where
  [py_defs]: "NUM k = RGroup k (RPlus (RSet is_digit))"

definition WORD :: "nat \<Rightarrow> re" where
  [py_defs]: "WORD k = RGroup k (RPlus (RSet is_word))"

definition BIT :: "nat \<Rightarrow> re" where
  [py_defs]: "BIT k = RGroup k (RSet (\<lambda>c. c = CHR ''0'' \<or> c = CHR ''1''))"

definition num :: "re_match \<Rightarrow> nat \<Rightarrow> py_error + int" where
  [py_defs]: "num m k = of_option (ValueError (group m k)) (py_int 10 (group m k))"

section \<open>Frame components\<close>

definition HEADER :: re where
  [py_defs]: "HEADER = RSeqs [RBol, RLit ''CORE_FRAME function='', NAME 1, RLit '' frame='', NUM 2, RLit '' value_bytes='', NUM 3,
     RLit '' values='', NUM 4, RLit '' objects='', NUM 5, REol]"

definition COMPONENT :: re where
  [py_defs]: "COMPONENT = RSeqs [RBol, RLit ''CORE_FRAME_COMPONENT function='', NAME 1, RLit '' frame='', NUM 2, RLit '' outgoing='', NUM 3,
     RLit '' object_region='', NUM 4, RLit '' value_bytes='', NUM 5, RLit '' suffix='', NUM 6, RLit '' object_payload='', NUM 7,
     RLit '' unique_offsets='', NUM 8, RLit '' shared_offsets='', NUM 9, REol]"

definition OBJECT :: re where
  [py_defs]: "OBJECT = RSeqs [RBol, RLit ''CORE_FRAME_OBJECT function='', NAME 1, RLit '' id='', NUM 2, RLit '' offset='', NUM 3,
     RLit '' element_bytes='', NUM 4, RLit '' elements='', NUM 5, RLit '' align='', NUM 6, RLit '' explicit_align='', NUM 7,
     RLit '' kind='', WORD 8, RLit '' shares_start='', BIT 9, REol]"

record frame_header =
  fh_frame :: int
  fh_value_bytes :: int
  fh_values :: int
  fh_objects :: int

record frame_component =
  fc_frame :: int
  fc_outgoing :: int
  fc_region :: int
  fc_value_bytes :: int
  fc_suffix :: int
  fc_payload :: int
  fc_unique :: int
  fc_shared :: int

text \<open>An object's fields are kept as texts, in the order of the groups.\<close>

record frame_log =
  fl_headers :: "(string \<times> frame_header) list"
  fl_components :: "(string \<times> frame_component) list"
  fl_objects :: "(string \<times> string list list) list"

definition header_of :: "re_match \<Rightarrow> py_error + frame_header" where
  [py_defs]: "header_of m =
     bindE (mapE (num m) [2, 3, 4, 5]) (\<lambda>ns.
       Inr \<lparr> fh_frame = ns ! 0, fh_value_bytes = ns ! 1, fh_values = ns ! 2, fh_objects = ns ! 3 \<rparr>)"

definition component_of :: "re_match \<Rightarrow> py_error + frame_component" where
  [py_defs]: "component_of m =
     bindE (mapE (num m) [2, 3, 4, 5, 6, 7, 8, 9]) (\<lambda>ns.
       Inr \<lparr> fc_frame = ns ! 0, fc_outgoing = ns ! 1, fc_region = ns ! 2, fc_value_bytes = ns ! 3, fc_suffix = ns ! 4,
             fc_payload = ns ! 5, fc_unique = ns ! 6, fc_shared = ns ! 7 \<rparr>)"

definition object_of :: "re_match \<Rightarrow> string list" where
  [py_defs]: "object_of m = map (group m) [2, 3, 4, 5, 6, 7, 8, 9]"

text \<open>\<^verbatim>\<open>objects[name]\<close> of a \<^verbatim>\<open>defaultdict(list)\<close>.\<close>

definition listed :: "('k \<times> 'a list) list \<Rightarrow> 'k \<Rightarrow> 'a list" where
  [py_defs]: "listed d k = (case map_of d k of None \<Rightarrow> [] | Some xs \<Rightarrow> xs)"

definition frame_line :: "frame_log \<Rightarrow> string \<Rightarrow> py_error + frame_log" where
  [py_defs]: "frame_line l line =
     (case re_fullmatch HEADER line of
        Some m \<Rightarrow>
          if group m 1 \<in> fst ` set (fl_headers l) then Inl (ValueError (''duplicate header: '' @ group m 1))
          else bindE (header_of m) (\<lambda>h. Inr (l\<lparr>fl_headers := AList.update (group m 1) h (fl_headers l)\<rparr>))
      | None \<Rightarrow>
          (case re_fullmatch COMPONENT line of
             Some m \<Rightarrow>
               if group m 1 \<in> fst ` set (fl_components l) then Inl (ValueError (''duplicate component: '' @ group m 1))
               else bindE (component_of m) (\<lambda>c. Inr (l\<lparr>fl_components := AList.update (group m 1) c (fl_components l)\<rparr>))
           | None \<Rightarrow>
               (case re_fullmatch OBJECT line of
                  Some m \<Rightarrow> Inr (l\<lparr>fl_objects :=
                    AList.update (group m 1) (listed (fl_objects l) (group m 1) @ [object_of m]) (fl_objects l)\<rparr>)
                | None \<Rightarrow> Inr l)))"

text \<open>One object of a frame; the state is the set of identifiers seen and the number of shared starts.\<close>

definition int_text :: "string \<Rightarrow> py_error + int" where
  [py_defs]: "int_text t = of_option (ValueError t) (py_int 10 t)"

definition check_object :: "string \<Rightarrow> int \<Rightarrow> int \<Rightarrow> int list \<times> int \<Rightarrow> string list \<Rightarrow> py_error + int list \<times> int" where
  [py_defs]: "check_object name cnt frame seen_shared row =
     (case seen_shared of (seen, shared_actual) \<Rightarrow>
        bindE (int_text (row ! 0)) (\<lambda>i.
        bindE (int_text (row ! 1)) (\<lambda>pos.
        bindE (if i \<in> set seen \<or> i \<ge> cnt \<or> pos \<ge> frame then Inr True
               else bindE (int_text (row ! 4)) (\<lambda>align. Inr (align = 0))) (\<lambda>bad.
          if bad then Inl (ValueError (''invalid CoreObject descriptor: '' @ name @ '' object='' @ row ! 0))
          else Inr (seen @ [i], if row ! 7 = ''1'' then shared_actual + 1 else shared_actual)))))"

text \<open>\<^verbatim>\<open>set(range(n))\<close>\<close>

definition range_list :: "int \<Rightarrow> int list" where
  [py_defs]: "range_list n = map int [0..<nat n]"

record frame_row =
  fr_name :: string
  fr_component :: frame_component
  fr_count :: int
  fr_objects :: "string list list"

definition check_frame :: "frame_log \<Rightarrow> string \<Rightarrow> py_error + frame_row" where
  [py_defs]: "check_frame l name =
     bindE (of_option (KeyError name) (map_of (fl_headers l) name)) (\<lambda>h.
     bindE (of_option (KeyError name) (map_of (fl_components l) name)) (\<lambda>c.
     let cnt = fh_objects h; rows = listed (fl_objects l) name in
     if fh_frame h \<noteq> fc_frame c \<or> fh_value_bytes h \<noteq> fc_value_bytes c \<or>
        fh_frame h \<noteq> fc_outgoing c + fc_region c + fc_value_bytes c + fc_suffix c
     then Inl (ValueError (''frame accounting mismatch: '' @ name))
     else if cnt \<noteq> int (length rows) \<or> cnt \<noteq> fc_unique c + fc_shared c
     then Inl (ValueError (''CoreObject count mismatch: '' @ name))
     else bindE (foldE (check_object name cnt (fh_frame h)) ([], 0) rows) (\<lambda>(seen, shared_actual).
       if set seen \<noteq> set (range_list cnt) \<or> shared_actual \<noteq> fc_shared c
       then Inl (ValueError (''CoreObject coverage/overlap mismatch: '' @ name))
       else Inr \<lparr> fr_name = name, fr_component = c, fr_count = cnt, fr_objects = rows \<rparr>)))"

definition COMPONENT_COLUMNS :: "string list" where
  [py_defs]: "COMPONENT_COLUMNS = [''function'', ''frame_bytes'', ''outgoing_bytes'', ''object_region_bytes'', ''value_bytes'',
     ''suffix_bytes'', ''object_payload_bytes'', ''unique_offsets'', ''shared_offsets'', ''objects'']"

definition OBJECT_COLUMNS :: "string list" where
  [py_defs]: "OBJECT_COLUMNS = [''function'', ''id'', ''offset'', ''element_bytes'', ''elements'', ''align'', ''explicit_align'',
     ''kind'', ''shares_start'']"

definition component_row :: "frame_row \<Rightarrow> string list" where
  [py_defs]: "component_row r =
     (let c = fr_component r in
      fr_name r # map str_int [fc_frame c, fc_outgoing c, fc_region c, fc_value_bytes c, fc_suffix c, fc_payload c, fc_unique c,
        fc_shared c, fr_count r])"

definition pass_line :: "frame_row \<Rightarrow> string" where
  [py_defs]: "pass_line r =
     (let c = fr_component r in
      ''P1_FRAME_COMPONENT=PASS function='' @ fr_name r @ '' frame='' @ str_int (fc_frame c) @
      '' object_region='' @ str_int (fc_region c) @ '' value_bytes='' @ str_int (fc_value_bytes c) @
      '' objects='' @ str_int (fr_count r) @ '' shared_starts='' @ str_int (fc_shared c))"

text \<open>A table: its lines, each ended by a line feed.\<close>

definition table :: "string list list \<Rightarrow> string" where
  [py_defs]: "table rows = join ''\<newline>'' (map (join [tab]) rows) @ ''\<newline>''"

definition object_table :: "frame_row list \<Rightarrow> string list list" where
  [py_defs]: "object_table frames = OBJECT_COLUMNS # concat (map (\<lambda>r. map (\<lambda>o'. fr_name r # o') (fr_objects r)) frames)"

definition frame_log_of :: "string \<Rightarrow> py_error + frame_log" where
  [py_defs]: "frame_log_of raw = foldE frame_line \<lparr> fl_headers = [], fl_components = [], fl_objects = [] \<rparr> (splitlines raw)"

definition check_frames :: "string \<Rightarrow> py_error + frame_row list" where
  [py_defs]: "check_frames raw =
     bindE (frame_log_of raw) (\<lambda>l.
       if fl_headers l = [] \<or> fst ` set (fl_headers l) \<noteq> fst ` set (fl_components l)
       then Inl (ValueError ''missing/unpaired CORE_FRAME and CORE_FRAME_COMPONENT records'')
       else mapE (check_frame l) (sort (map fst (fl_headers l))))"

text \<open>The result: the lines printed and the two tables.\<close>

definition analyze_components :: "string \<Rightarrow> py_error + string list \<times> string \<times> string" where
  [py_defs]: "analyze_components raw =
     bindE (check_frames raw) (\<lambda>frames.
       Inr (map pass_line frames, table (COMPONENT_COLUMNS # map component_row frames), table (object_table frames)))"

section \<open>Intervals\<close>

definition INTERVAL :: re where
  [py_defs]: "INTERVAL = RSeqs [RBol, RLit ''CORE_FRAME_INTERVAL function='', NAME 1, RLit '' id='', NUM 2, RLit '' reusable='', BIT 3,
     RLit '' block='', NUM 4, RLit '' first='', NUM 5, RLit '' last='', NUM 6, REol]"

text \<open>The key of a row: the function's name may be missing in a short row.\<close>

type_synonym object_key = "string option \<times> int"

definition key_of :: "csv_row \<Rightarrow> py_error + object_key" where
  [py_defs]: "key_of row = bindE (row_item row ''function'') (\<lambda>f. bindE (row_int row ''id'') (\<lambda>i. Inr (f, i)))"

definition load_object :: "(object_key \<times> csv_row) list \<Rightarrow> csv_row \<Rightarrow> py_error + (object_key \<times> csv_row) list" where
  [py_defs]: "load_object objects row =
     bindE (key_of row) (\<lambda>key.
       if key \<in> fst ` set objects then Inl (ValueError ''duplicate object '')
       else Inr (AList.update key row objects))"

definition load_frame_objects :: "string \<Rightarrow> py_error + (object_key \<times> csv_row) list" where
  [py_defs]: "load_frame_objects objects_data = foldE load_object [] (dict_reader tab (splitlines objects_data))"

record interval =
  iv_reuse :: int
  iv_block :: int
  iv_first :: int
  iv_last :: int

type_synonym intervals = "((string \<times> int) \<times> interval) list"

definition interval_line :: "intervals \<Rightarrow> string \<Rightarrow> py_error + intervals" where
  [py_defs]: "interval_line intervals line =
     (case re_fullmatch INTERVAL line of
        None \<Rightarrow> Inr intervals
      | Some m \<Rightarrow>
          bindE (num m 2) (\<lambda>idx.
          let key = (group m 1, idx) in
          if key \<in> fst ` set intervals then Inl (ValueError ''duplicate CoreObject interval '')
          else bindE (mapE (num m) [3, 4, 5, 6]) (\<lambda>ns.
            Inr (AList.update key \<lparr> iv_reuse = ns ! 0, iv_block = ns ! 1, iv_first = ns ! 2, iv_last = ns ! 3 \<rparr> intervals))))"

definition str_of :: "string option \<Rightarrow> string" where
  [py_defs]: "str_of v = (case v of None \<Rightarrow> ''None'' | Some t \<Rightarrow> t)"

definition data_of :: "(object_key \<times> csv_row) list \<Rightarrow> string \<times> int \<Rightarrow> py_error + csv_row" where
  [py_defs]: "data_of objects key = of_option (KeyError (fst key)) (map_of objects (Some (fst key), snd key))"

definition interval_row :: "(object_key \<times> csv_row) list \<Rightarrow> intervals \<Rightarrow> string \<times> int \<Rightarrow> py_error + string list" where
  [py_defs]: "interval_row objects intervals key =
     bindE (of_option (KeyError (fst key)) (map_of intervals key)) (\<lambda>iv.
     if iv_reuse iv \<noteq> 0 \<and> iv_first iv > iv_last iv
     then Inl (ValueError (''invalid ordered interval '' @ fst key @ '' '' @ str_int (snd key)))
     else bindE (data_of objects key) (\<lambda>data.
       bindE (row_item data ''offset'') (\<lambda>offset.
       bindE (row_item data ''shares_start'') (\<lambda>shares_start.
         Inr ([fst key, str_int (snd key), str_of offset, str_int (iv_reuse iv)] @
           (if iv_reuse iv \<noteq> 0 then [str_int (iv_block iv), str_int (iv_first iv), str_int (iv_last iv)]
            else [''NOT_REUSABLE'', ''-'', ''-'']) @ [str_of shares_start])))))"

text \<open>The statistics of a function: objects, reusable ones, their blocks and their offsets.\<close>

definition interval_stats :: "(object_key \<times> csv_row) list \<Rightarrow> intervals \<Rightarrow> string \<Rightarrow> py_error + int \<times> int \<times> int \<times> int" where
  [py_defs]: "interval_stats objects intervals name =
     (let life = map (\<lambda>key. the (map_of intervals key)) (filter (\<lambda>key. fst key = name) (sort (map fst intervals)));
          reusable = filter (\<lambda>iv. iv_reuse iv = 1) life in
      bindE (mapE (\<lambda>(key, iv). bindE (data_of objects key) (\<lambda>data. row_int data ''offset''))
               (filter (\<lambda>(key, iv). fst key = name \<and> iv_reuse iv = 1) intervals)) (\<lambda>offsets.
        Inr (int (length life), int (length reusable), int (length (remdups (map iv_block reusable))),
             int (length (remdups offsets)))))"

definition interval_pass :: "string \<times> int \<times> int \<times> int \<times> int \<Rightarrow> string" where
  [py_defs]: "interval_pass x =
     (case x of (name, n, reusable, blocks, offsets) \<Rightarrow>
        ''P1_FRAME_INTERVAL=PASS function='' @ name @ '' objects='' @ str_int n @ '' reusable='' @ str_int reusable @
        '' unique_owner_blocks='' @ str_int blocks @ '' reusable_unique_stack_offsets='' @ str_int offsets)"

definition INTERVAL_COLUMNS :: "string list" where
  [py_defs]: "INTERVAL_COLUMNS = [''function'', ''id'', ''physical_offset'', ''reusable'', ''block'', ''first'', ''last'', ''shares_start'']"

text \<open>The rows of the table of intervals, and the statistics; the same numbers are printed and returned.\<close>

definition check_intervals ::
  "string \<Rightarrow> string \<Rightarrow> py_error + string list list \<times> (string \<times> int \<times> int \<times> int \<times> int) list" where
  [py_defs]: "check_intervals raw objects_data =
     bindE (load_frame_objects objects_data) (\<lambda>objects.
     bindE (foldE interval_line [] (splitlines raw)) (\<lambda>intervals.
     if objects = [] \<or> fst ` set objects \<noteq> (\<lambda>(name, i). (Some name, i)) ` fst ` set intervals
     then Inl (ValueError ''CoreObject interval coverage failed'')
     else
       bindE (mapE (interval_row objects intervals) (sort (map fst intervals))) (\<lambda>rows.
       bindE (mapE (\<lambda>name. bindE (interval_stats objects intervals name) (\<lambda>st. Inr (name, st)))
                (sort (nub (map (fst \<circ> fst) intervals)))) (\<lambda>stats.
         Inr (INTERVAL_COLUMNS # rows, stats)))))"

definition parse_intervals :: "string \<Rightarrow> string \<Rightarrow> py_error + string list \<times> string \<times> (string \<times> int \<times> int \<times> int \<times> int) list" where
  [py_defs]: "parse_intervals raw objects_data =
     bindE (check_intervals raw objects_data) (\<lambda>(rows, stats). Inr (map interval_pass stats, table rows, stats))"

section \<open>First accesses\<close>

definition ACCESS :: re where
  [py_defs]: "ACCESS = RSeqs [RBol, RLit ''CORE_FRAME_ACCESS function='', NAME 1, RLit '' id='', NUM 2, RLit '' first='',
     RGroup 3 (RAlts [RLit ''READ'', RLit ''WRITE'', RLit ''NONE'']), REol]"

definition expected_access :: "object_key list \<Rightarrow> csv_row \<Rightarrow> py_error + object_key list" where
  [py_defs]: "expected_access expected row =
     bindE (row_item row ''reusable'') (\<lambda>r.
       if r = Some ''1'' then bindE (key_of row) (\<lambda>key. Inr (List.insert key expected)) else Inr expected)"

definition access_line :: "((string \<times> int) \<times> string) list \<Rightarrow> string \<Rightarrow> py_error + ((string \<times> int) \<times> string) list" where
  [py_defs]: "access_line actual line =
     (case re_fullmatch ACCESS line of
        None \<Rightarrow> Inr actual
      | Some m \<Rightarrow>
          bindE (num m 2) (\<lambda>idx.
          let key = (group m 1, idx) in
          if key \<in> fst ` set actual then Inl (ValueError ''duplicate access '')
          else Inr (AList.update key (group m 3) actual)))"

definition ACCESS_COLUMNS :: "string list" where
  [py_defs]: "ACCESS_COLUMNS = [''function'', ''id'', ''first_access'', ''def_before_read'']"

definition access_row :: "(string \<times> int) \<times> string \<Rightarrow> string list" where
  [py_defs]: "access_row a =
     (case a of ((name, idx), first) \<Rightarrow> [name, str_int idx, first, if first = ''WRITE'' then ''1'' else ''0''])"

definition access_pass :: "((string \<times> int) \<times> string) list \<Rightarrow> string \<Rightarrow> string" where
  [py_defs]: "access_pass actual name =
     (let n = (\<lambda>first. str_int (int (length (filter (\<lambda>(key, f). fst key = name \<and> f = first) actual)))) in
      ''P1_FRAME_FIRST_ACCESS=PASS function='' @ name @ '' write_first='' @ n ''WRITE'' @ '' read_first='' @ n ''READ'' @
      '' no_access='' @ n ''NONE'')"

definition check_accesses :: "string \<Rightarrow> string \<Rightarrow> py_error + ((string \<times> int) \<times> string) list" where
  [py_defs]: "check_accesses log intervals =
     bindE (foldE expected_access [] (dict_reader tab (splitlines intervals))) (\<lambda>expected.
     bindE (foldE access_line [] (splitlines log)) (\<lambda>actual.
       if set expected \<noteq> (\<lambda>(name, i). (Some name, i)) ` fst ` set actual then Inl (ValueError ''first access incomplete'')
       else Inr (sort actual)))"

definition parse_accesses :: "string \<Rightarrow> string \<Rightarrow> py_error + string list \<times> string" where
  [py_defs]: "parse_accesses log intervals =
     bindE (check_accesses log intervals) (\<lambda>actual.
       Inr (map (access_pass actual) (sort (nub (map (fst \<circ> fst) actual))), table (ACCESS_COLUMNS # map access_row actual)))"

section \<open>Spans of uses\<close>

definition OBJ_SPAN :: re where
  [py_defs]: "OBJ_SPAN = RSeqs [RBol, RLit ''CORE_FRAME_OBJ_SPAN function='', NAME 1, RLit '' id='', NUM 2, RLit '' line='', NUM 3,
     RLit '' offset='', NUM 4, REol]"

definition USE_SPAN :: re where
  [py_defs]: "USE_SPAN = RSeqs [RBol, RLit ''CORE_FRAME_USE_SPAN function='', NAME 1, RLit '' id='', NUM 2, RLit '' kind='', NUM 3,
     RLit '' line='', NUM 4, RLit '' offset='', NUM 5, REol]"

definition CONSUMER :: re where
  [py_defs]: "CONSUMER = RSeqs [RBol, RLit ''CORE_FRAME_DERIVED_USE function='', NAME 1, RLit '' id='', NUM 2, RLit '' category='', WORD 3,
     RLit '' kind='', NUM 4, RLit '' n='', NUM 5, REol]"

text \<open>A traced use is the function, the object, the kind of the consumer and what its line adds.\<close>

record span_log =
  sl_obj :: "((string \<times> int) \<times> int \<times> int) list"
  sl_consumers :: "((string \<times> int \<times> int) \<times> string \<times> int) list"
  sl_uses :: "((string \<times> int \<times> int) \<times> int \<times> int) list"

definition span_object :: "span_log \<Rightarrow> string \<Rightarrow> py_error + span_log" where
  [py_defs]: "span_object l line =
     (case re_fullmatch OBJ_SPAN line of
        None \<Rightarrow> Inr l
      | Some m \<Rightarrow>
          bindE (num m 2) (\<lambda>oid.
          let key = (group m 1, oid) in
          if key \<in> fst ` set (sl_obj l) then Inl (ValueError ''duplicate object provenance '')
          else bindE (mapE (num m) [3, 4]) (\<lambda>ns. Inr (l\<lparr>sl_obj := AList.update key (ns ! 0, ns ! 1) (sl_obj l)\<rparr>))))"

definition span_consumer :: "span_log \<Rightarrow> string \<Rightarrow> py_error + span_log" where
  [py_defs]: "span_consumer l line =
     (case re_fullmatch CONSUMER line of
        None \<Rightarrow> Inr l
      | Some m \<Rightarrow>
          if group m 3 = ''terminator'' then Inr l
          else bindE (mapE (num m) [2, 4, 5]) (\<lambda>ns.
            Inr (l\<lparr>sl_consumers := sl_consumers l @ [((group m 1, ns ! 0, ns ! 1), group m 3, ns ! 2)]\<rparr>)))"

definition span_use :: "span_log \<Rightarrow> string \<Rightarrow> py_error + span_log" where
  [py_defs]: "span_use l line =
     (case re_fullmatch USE_SPAN line of
        None \<Rightarrow> Inr l
      | Some m \<Rightarrow>
          bindE (mapE (num m) [2, 3, 4, 5]) (\<lambda>ns.
            Inr (l\<lparr>sl_uses := sl_uses l @ [((group m 1, ns ! 0, ns ! 1), ns ! 2, ns ! 3)]\<rparr>)))"

definition span_line :: "span_log \<Rightarrow> string \<Rightarrow> py_error + span_log" where
  [py_defs]: "span_line l line =
     bindE (span_object l line) (\<lambda>l1. bindE (span_consumer l1 line) (\<lambda>l2. span_use l2 line))"

definition span_join ::
  "((string \<times> int) \<times> int \<times> int) list \<Rightarrow> string list list \<times> ((string \<times> string \<times> int) \<times> int) list \<Rightarrow>
   ((string \<times> int \<times> int) \<times> string \<times> int) \<times> (string \<times> int \<times> int) \<times> int \<times> int \<Rightarrow>
   py_error + string list list \<times> ((string \<times> string \<times> int) \<times> int) list" where
  [py_defs]: "span_join obj lc cu =
     (case (lc, cu) of ((lines, counter), (((fn, oid, kind), cat, n), (use, line, offset))) \<Rightarrow>
        if (fn, oid, kind) \<noteq> use
        then Inl (ValueError (''consumer span mismatched at '' @ fn @ '':'' @ str_int oid @ '':'' @ str_int kind))
        else case map_of obj (fn, oid) of
          None \<Rightarrow> Inl (ValueError ''unknown traced object'')
        | Some (objline, objoff) \<Rightarrow>
            Inr (lines @ [[fn, str_int oid, str_int objline, str_int objoff, str_int kind, cat, str_int line, str_int offset, str_int n]],
                 bump (fn, cat, line) n counter))"

definition USE_COLUMNS :: "string list" where
  [py_defs]: "USE_COLUMNS = [''function'', ''id'', ''object_line'', ''object_offset'', ''kind'', ''category'', ''use_line'', ''use_offset'', ''n'']"

definition HOT_COLUMNS :: "string list" where
  [py_defs]: "HOT_COLUMNS = [''function'', ''category'', ''use_line'', ''count'']"

definition hot_row :: "(string \<times> string \<times> int) \<times> int \<Rightarrow> string list" where
  [py_defs]: "hot_row e = (case e of ((fn, cat, line), n) \<Rightarrow> [fn, cat, str_int line, str_int n])"

definition hotspot :: "(string \<times> string \<times> int) \<times> int \<Rightarrow> string" where
  [py_defs]: "hotspot e = (case e of ((fn, cat, line), n) \<Rightarrow>
     ''P1_FRAME_USE_HOTSPOT function='' @ fn @ '' category='' @ cat @ '' source_line='' @ str_int line @ '' count='' @ str_int n)"

text \<open>\<^verbatim>\<open>Counter.most_common\<close> keeps the order of insertion among equal counts.\<close>

definition analyze_spans :: "string \<Rightarrow> string \<Rightarrow> py_error + string list \<times> string \<times> string" where
  [py_defs]: "analyze_spans data object_tsv =
     bindE (mapE key_of (dict_reader tab (splitlines object_tsv))) (\<lambda>expected.
     bindE (foldE span_line \<lparr> sl_obj = [], sl_consumers = [], sl_uses = [] \<rparr> (splitlines data)) (\<lambda>l.
     if set expected \<noteq> (\<lambda>(name, i). (Some name, i)) ` fst ` set (sl_obj l)
     then Inl (ValueError (''object provenance coverage expected='' @ str_int (int (length (remdups expected))) @
            '' got='' @ str_int (int (length (sl_obj l)))))
     else if length (sl_uses l) \<noteq> length (sl_consumers l) \<or> sl_consumers l = []
     then Inl (ValueError (''consumer provenance coverage expected='' @ str_int (int (length (sl_consumers l))) @
            '' got='' @ str_int (int (length (sl_uses l)))))
     else
       bindE (foldE (span_join (sl_obj l)) ([], []) (zip (sl_consumers l) (sl_uses l))) (\<lambda>(lines, counter).
         Inr ((''P1_FRAME_USE_SPAN=PASS objects='' @ str_int (int (length (sl_obj l))) @ '' consumers='' @
                str_int (int (length (sl_consumers l))) @ '' distinct_sites='' @ str_int (int (length counter))) #
                map hotspot (take 15 (sort_key (\<lambda>e. - snd e) counter)),
              table (USE_COLUMNS # lines),
              table (HOT_COLUMNS # map hot_row (sort_key (\<lambda>((fn, cat, line), n). (fn, - n, line)) counter))))))"

section \<open>What the component reader accepts\<close>

definition shares :: "string list list \<Rightarrow> int" where
  "shares rows = int (length (filter (\<lambda>row. row ! 7 = ''1'') rows))"

definition object_checked :: "int \<Rightarrow> int \<Rightarrow> string list \<Rightarrow> bool" where
  "object_checked cnt frame row \<longleftrightarrow>
     (\<exists>i pos align. int_text (row ! 0) = Inr i \<and> i < cnt \<and> int_text (row ! 1) = Inr pos \<and> pos < frame \<and>
        int_text (row ! 4) = Inr align \<and> align \<noteq> 0)"

lemma check_object_Inr:
  "check_object name cnt frame (seen, sh) row = Inr t \<Longrightarrow>
   (\<exists>i. int_text (row ! 0) = Inr i \<and> i \<notin> set seen \<and> object_checked cnt frame row \<and>
      t = (seen @ [i], if row ! 7 = ''1'' then sh + 1 else sh))"
  by (auto simp: check_object_def object_checked_def bindE_Inr_iff split: if_splits)

lemma check_objects:
  assumes "foldE (check_object name cnt frame) ([], 0) rows = Inr (seen, sh)"
  shows "mapE (\<lambda>row. int_text (row ! 0)) rows = Inr seen \<and> distinct seen \<and> list_all (object_checked cnt frame) rows \<and> sh = shares rows"
proof -
  have "case (seen, sh) of (seen, sh) \<Rightarrow> mapE (\<lambda>row. int_text (row ! 0)) rows = Inr seen \<and> distinct seen \<and>
      list_all (object_checked cnt frame) rows \<and> sh = shares rows"
  proof (rule foldE_prefix_invariant[OF assms])
    fix ys x s t
    assume *: "case s of (seen, sh) \<Rightarrow> mapE (\<lambda>row. int_text (row ! 0)) ys = Inr seen \<and> distinct seen \<and>
        list_all (object_checked cnt frame) ys \<and> sh = shares ys" and "check_object name cnt frame s x = Inr t"
    then obtain seen sh i where "s = (seen, sh)" "int_text (x ! 0) = Inr i" "i \<notin> set seen" "object_checked cnt frame x"
      "t = (seen @ [i], if x ! 7 = ''1'' then sh + 1 else sh)" by (cases s) (auto dest!: check_object_Inr)
    with * show "case t of (seen, sh) \<Rightarrow> mapE (\<lambda>row. int_text (row ! 0)) (ys @ [x]) = Inr seen \<and> distinct seen \<and>
        list_all (object_checked cnt frame) (ys @ [x]) \<and> sh = shares (ys @ [x])"
      by (auto simp: mapE_Inr_iff list_all2_appendI shares_def)
  qed (simp add: shares_def)
  then show ?thesis by simp
qed

text \<open>
  The identifiers of the objects of a frame are the numbers below its count, each once.
\<close>

definition frame_ok :: "frame_row \<Rightarrow> bool" where
  "frame_ok r \<longleftrightarrow>
     (let c = fr_component r in
      fc_frame c = fc_outgoing c + fc_region c + fc_value_bytes c + fc_suffix c \<and>
      fr_count r = int (length (fr_objects r)) \<and> fr_count r = fc_unique c + fc_shared c \<and>
      (\<exists>ids. mapE (\<lambda>row. int_text (row ! 0)) (fr_objects r) = Inr ids \<and> distinct ids \<and> set ids = {0..<fr_count r}) \<and>
      list_all (object_checked (fr_count r) (fc_frame c)) (fr_objects r) \<and> shares (fr_objects r) = fc_shared c)"

lemma set_range_list: "set (range_list n) = {0..<n}"
proof (intro set_eqI iffI)
  fix x assume "x \<in> {0..<n}"
  then have "x = int (nat x)" "nat x < nat n" by auto
  then show "x \<in> set (range_list n)" unfolding range_list_def by (metis atLeastLessThan_iff image_eqI le0 set_map set_upt)
qed (auto simp: range_list_def)

lemma check_frame_ok:
  assumes "check_frame l name = Inr r"
  shows "frame_ok r \<and> fr_name r = name \<and> fr_objects r = listed (fl_objects l) name"
proof -
  let ?rows = "listed (fl_objects l) name"
  from assms obtain h c where hc: "map_of (fl_headers l) name = Some h" "map_of (fl_components l) name = Some c"
    by (auto simp: check_frame_def bindE_Inr_iff of_option_Inr_iff)
  note run = assms[unfolded check_frame_def Let_def hc of_option_simps bindE_simps]
  from run have fits: "fh_frame h = fc_frame c" "fc_frame c = fc_outgoing c + fc_region c + fc_value_bytes c + fc_suffix c"
    "fh_objects h = int (length ?rows)" "fh_objects h = fc_unique c + fc_shared c"
    by (auto split: if_split_asm)
  from run obtain seen sh where fold: "foldE (check_object name (fh_objects h) (fh_frame h)) ([], 0) ?rows = Inr (seen, sh)"
    and "set seen = set (range_list (fh_objects h))" "sh = fc_shared c"
    "r = \<lparr> fr_name = name, fr_component = c, fr_count = fh_objects h, fr_objects = ?rows \<rparr>"
    by (auto simp: bindE_Inr_iff simp del: bindE_simps split: if_split_asm)
  with fits check_objects[OF fold] show ?thesis by (simp add: frame_ok_def Let_def set_range_list)
qed

lemma check_frames_Inr:
  assumes "check_frames raw = Inr frames"
  obtains l where "frame_log_of raw = Inr l" "map fr_name frames = sort (map fst (fl_headers l))"
    "\<forall>r \<in> set frames. frame_ok r \<and> fr_objects r = listed (fl_objects l) (fr_name r)"
proof -
  from assms obtain l where l: "frame_log_of raw = Inr l" and
    m: "list_all2 (\<lambda>name r. check_frame l name = Inr r) (sort (map fst (fl_headers l))) frames"
    by (auto simp: check_frames_def bindE_Inr_iff mapE_Inr_iff split: if_splits)
  from m have "list_all2 (\<lambda>name r. fr_name r = name) (sort (map fst (fl_headers l))) frames"
    by (rule list.rel_mono_strong) (simp add: check_frame_ok)
  then have "map fr_name frames = sort (map fst (fl_headers l))" using list_all2_map_eq[of fr_name "\<lambda>x. x"] by fastforce
  moreover have "\<forall>r \<in> set frames. frame_ok r \<and> fr_objects r = listed (fl_objects l) (fr_name r)"
    using list_all2_right[OF m] check_frame_ok by metis
  ultimately show ?thesis using that l by blast
qed

text \<open>
  A frame that passes is accounted for exactly: the four parts of the frame add up to its size, the
  identifiers of its objects are the numbers below the count, each exactly once, every object starts
  inside the frame with a positive alignment, and the shared starts are as many as reported.
\<close>

theorem frames_accounted:
  assumes "check_frames raw = Inr frames"
  shows "list_all frame_ok frames \<and> sorted (map fr_name frames)"
  using assms by (rule check_frames_Inr) (simp add: list_all_iff)

section \<open>The table of objects is read back\<close>

definition plain_field :: "nat \<Rightarrow> char \<Rightarrow> bool" where
  "plain_field k c \<longleftrightarrow> nonspace c \<and> (k = 1 \<or> c \<noteq> CHR 0x22)"

lemma class_plain:
  "is_digit c \<Longrightarrow> plain_field k c"
  "is_word c \<Longrightarrow> plain_field k c"
  "plain_field k CHR ''0''" "plain_field k CHR ''1''"
  by (auto simp: is_digit_def is_word_def is_alpha_def plain_field_def nonspace_def is_ws_def Let_def)

lemma captures_RLit: "captures Q (RLit t)"
  by (induction t rule: RLit.induct) simp_all

lemma captures_groups:
  "captures plain_field (NAME (Suc 0))" "captures plain_field (NUM k)" "captures plain_field (WORD k)" "captures plain_field (BIT k)"
  by (auto simp: NAME_def NUM_def WORD_def BIT_def RPlus_def class_plain) (simp add: plain_field_def)

lemma captures_lines: "captures plain_field HEADER" "captures plain_field OBJECT"
  by (simp_all add: HEADER_def OBJECT_def captures_RLit captures_groups)

definition log_ok :: "frame_log \<Rightarrow> bool" where
  "log_ok l \<longleftrightarrow> distinct (map fst (fl_headers l)) \<and> (\<forall>n \<in> fst ` set (fl_headers l). \<forall>c \<in> set n. nonspace c) \<and>
     (\<forall>n. \<forall>row \<in> set (listed (fl_objects l) n). length row = 8 \<and> (\<forall>w \<in> set row. \<forall>c \<in> set w. nonspace c \<and> c \<noteq> CHR 0x22))"

lemma object_of_ok:
  assumes "re_fullmatch OBJECT line = Some m" and "w \<in> set (object_of m)" and "c \<in> set w"
  shows "nonspace c \<and> c \<noteq> CHR 0x22"
proof -
  from assms(2) obtain k where "w = group m k" "k \<noteq> 1" by (auto simp: object_of_def)
  with fullmatch_captures[OF assms(1) captures_lines(2), of c k] assms(3) show ?thesis by (simp add: plain_field_def)
qed

lemma frame_line_ok:
  assumes "log_ok l" and "frame_line l line = Inr l'"
  shows "log_ok l'"
proof -
  consider (header) m h where "re_fullmatch HEADER line = Some m" "group m 1 \<notin> fst ` set (fl_headers l)"
      "l' = l\<lparr>fl_headers := AList.update (group m 1) h (fl_headers l)\<rparr>"
    | (component) c where "l' = l\<lparr>fl_components := c\<rparr>"
    | (object) m where "re_fullmatch OBJECT line = Some m"
      "l' = l\<lparr>fl_objects := AList.update (group m 1) (listed (fl_objects l) (group m 1) @ [object_of m]) (fl_objects l)\<rparr>"
    | (other) "l' = l"
    using assms(2) by (auto simp: frame_line_def bindE_Inr_iff split: option.splits if_split_asm)
  then show ?thesis
  proof cases
    case header
    have "\<forall>c \<in> set (group m 1). nonspace c"
      using fullmatch_captures[OF header(1) captures_lines(1)] by (auto simp: plain_field_def)
    with header assms(1) show ?thesis by (auto simp: log_ok_def distinct_update dom_update)
  next
    case object
    have "listed (AList.update k v d) n = (if n = k then v else listed d n)" for k v n and d :: "(string \<times> string list list) list"
      by (simp add: listed_def update_conv')
    with object assms(1) object_of_ok[OF object(1)] show ?thesis by (auto simp: log_ok_def object_of_def)
  qed (use assms(1) in \<open>simp_all add: log_ok_def\<close>)
qed

lemma frame_log_ok: "frame_log_of raw = Inr l \<Longrightarrow> log_ok l"
  unfolding frame_log_of_def
  by (erule foldE_invariant[where P = log_ok]) (simp add: log_ok_def listed_def, rule frame_line_ok)

lemma table_lines:
  assumes "rows \<noteq> []" and "\<forall>ws \<in> set rows. \<forall>w \<in> set ws. \<forall>c \<in> set w. \<not> is_break c"
  shows "splitlines (table rows) = map (join [tab]) rows"
proof -
  have tab: "\<not> is_break tab" by (simp add: is_break_def)
  have "\<forall>c \<in> set (join [tab] ws). \<not> is_break c" if "ws \<in> set rows" for ws
  proof -
    have "set (join [tab] vs) \<subseteq> insert tab (\<Union> (set ` set vs))" for vs
    proof (induction vs)
      case (Cons w vs)
      then show ?case by (cases "vs = []") (auto simp: join_Cons)
    qed simp
    with assms(2) that tab show ?thesis by fastforce
  qed
  moreover have "join ''\<newline>'' ls @ ''\<newline>'' = concat (map (\<lambda>w. w @ ''\<newline>'') ls)" if "ls \<noteq> []" for ls
    using that
  proof (induction ls)
    case (Cons w ls)
    then show ?case by (cases "ls = []") (simp_all add: join_Cons)
  qed simp
  ultimately show ?thesis unfolding table_def
    using splitlines_unlines[of "map (join [tab]) rows"] assms(1) by simp
qed

definition object_row :: "string list \<Rightarrow> csv_row" where
  "object_row fs = zip OBJECT_COLUMNS (map Some fs)"

lemma object_row_key:
  assumes "length fs = 9" and "int_text (fs ! 1) = Inr i"
  shows "key_of (object_row fs) = Inr (Some (fs ! 0), i)"
proof -
  from assms(1) obtain a b t where "fs = a # b # t" by (metis Suc_length_conv eval_nat_numeral(2,3))
  with assms(2) show ?thesis
    by (simp add: key_of_def object_row_def OBJECT_COLUMNS_def row_item_def row_int_def int_text_def)
qed

lemma load_objects_fresh:
  assumes "list_all2 (\<lambda>row key. key_of row = Inr key) rows ks" and "distinct (map fst objs @ ks)"
  shows "foldE load_object objs rows = Inr (objs @ zip ks rows)"
  using assms
proof (induction rows ks arbitrary: objs rule: list_all2_induct)
  case (Cons row rows key ks)
  have "AList.update k v d = d @ [(k, v)]" if "k \<notin> fst ` set d" for k :: object_key and v :: csv_row and d
    using that by (induction d) auto
  with Cons.prems have "load_object objs row = Inr (objs @ [(key, row)])" using Cons.hyps by (auto simp: load_object_def)
  moreover have "foldE load_object (objs @ [(key, row)]) rows = Inr ((objs @ [(key, row)]) @ zip ks rows)"
    using Cons.prems by (intro Cons.IH) simp
  ultimately show ?case by simp
qed simp

lemma dict_reader_objects:
  assumes "\<forall>fs \<in> set rows. length fs = 9 \<and> (\<forall>w \<in> set fs. csv_safe tab w \<and> (\<forall>c \<in> set w. \<not> is_break c))"
  shows "dict_reader tab (splitlines (table (OBJECT_COLUMNS # rows))) = map object_row rows"
proof -
  have cols: "\<forall>w \<in> set OBJECT_COLUMNS. csv_safe tab w \<and> (\<forall>c \<in> set w. \<not> is_break c)"
    by (simp add: OBJECT_COLUMNS_def csv_safe_def is_break_def)
  then have "splitlines (table (OBJECT_COLUMNS # rows)) = map (join [tab]) (OBJECT_COLUMNS # rows)"
    using assms by (intro table_lines) auto
  moreover have "csv_records tab None (map (join [tab]) (OBJECT_COLUMNS # rows)) = OBJECT_COLUMNS # rows"
    using cols assms by (intro csv_records_joined) (auto simp: OBJECT_COLUMNS_def)
  moreover have "csv_dict OBJECT_COLUMNS fs = object_row fs" if "fs \<in> set rows" for fs
    using assms that unfolding object_row_def by (intro csv_dict_exact) (auto simp: OBJECT_COLUMNS_def)
  moreover have "filter (\<lambda>fs. fs \<noteq> []) rows = rows" using assms by (auto simp: filter_id_conv)
  ultimately show ?thesis by (simp add: dict_reader_def)
qed

lemma field_safe:
  assumes "\<forall>c \<in> set w. nonspace c" and "take 1 w \<noteq> [CHR 0x22]"
  shows "csv_safe tab w \<and> (\<forall>c \<in> set w. \<not> is_break c)"
proof -
  have "\<not> nonspace tab" by (simp add: nonspace_def is_ws_def)
  moreover have "nonspace c \<Longrightarrow> \<not> is_break c" for c by (auto simp: nonspace_def is_ws_def is_break_def Let_def)
  ultimately show ?thesis using assms by (auto simp: csv_safe_def)
qed

definition ids_of :: "frame_row \<Rightarrow> int list" where
  "ids_of r = (case mapE (\<lambda>row. int_text (row ! 0)) (fr_objects r) of Inl e \<Rightarrow> [] | Inr ids \<Rightarrow> ids)"

lemma ids_of_ok:
  assumes "frame_ok r"
  shows "list_all2 (\<lambda>row i. int_text (row ! 0) = Inr i) (fr_objects r) (ids_of r)" "distinct (ids_of r)" "set (ids_of r) = {0..<fr_count r}"
proof -
  from assms obtain ids where ids: "mapE (\<lambda>row. int_text (row ! 0)) (fr_objects r) = Inr ids" "distinct ids" "set ids = {0..<fr_count r}"
    by (auto simp: frame_ok_def Let_def)
  then have "ids_of r = ids" by (simp add: ids_of_def)
  with ids show "list_all2 (\<lambda>row i. int_text (row ! 0) = Inr i) (fr_objects r) (ids_of r)" "distinct (ids_of r)"
    "set (ids_of r) = {0..<fr_count r}" by (simp_all add: mapE_Inr_iff)
qed

definition frame_keys :: "frame_row list \<Rightarrow> object_key list" where
  "frame_keys frames = concat (map (\<lambda>r. map (\<lambda>i. (Some (fr_name r), i)) (ids_of r)) frames)"

lemma frame_rows_keys:
  assumes "\<forall>r \<in> set frames. frame_ok r \<and> (\<forall>o' \<in> set (fr_objects r). length o' = 8)"
  shows "list_all2 (\<lambda>row key. key_of row = Inr key)
    (map object_row (concat (map (\<lambda>r. map (\<lambda>o'. fr_name r # o') (fr_objects r)) frames))) (frame_keys frames)"
  using assms
proof (induction frames)
  case (Cons r frames)
  have "list_all2 (\<lambda>o' i. key_of (object_row (fr_name r # o')) = Inr (Some (fr_name r), i)) (fr_objects r) (ids_of r)"
    using ids_of_ok(1)[of r] Cons.prems by (auto elim!: list.rel_mono_strong simp: object_row_key)
  then have "list_all2 (\<lambda>row key. key_of row = Inr key)
      (map object_row (map (\<lambda>o'. fr_name r # o') (fr_objects r))) (map (\<lambda>i. (Some (fr_name r), i)) (ids_of r))"
    by (simp add: list_all2_map1 list_all2_map2 comp_def)
  with Cons show ?case by (simp add: frame_keys_def list_all2_appendI)
qed (simp add: frame_keys_def)

lemma distinct_frame_keys:
  "distinct (map fr_name frames) \<Longrightarrow> \<forall>r \<in> set frames. frame_ok r \<Longrightarrow> distinct (frame_keys frames)"
  by (induction frames) (auto simp: frame_keys_def distinct_map inj_on_def ids_of_ok image_iff)

lemma set_frame_keys:
  "\<forall>r \<in> set frames. frame_ok r \<Longrightarrow> set (frame_keys frames) = {(Some (fr_name r), i) | r i. r \<in> set frames \<and> 0 \<le> i \<and> i < fr_count r}"
  using ids_of_ok(3) by (fastforce simp: frame_keys_def)

text \<open>
  C29. The table of objects that the component reader writes is read back by the interval reader: unless a
  function's name starts with a quotation mark, loading the table succeeds, without a duplicate, the keys are
  exactly the objects of the checked frames, and every row carries the fields of its object under the
  names of the columns.
\<close>

theorem objects_read_back:
  assumes "check_frames raw = Inr frames" and "\<forall>r \<in> set frames. take 1 (fr_name r) \<noteq> [CHR 0x22]"
  shows "\<exists>objects. load_frame_objects (table (object_table frames)) = Inr objects \<and>
    fst ` set objects = {(Some (fr_name r), i) | r i. r \<in> set frames \<and> 0 \<le> i \<and> i < fr_count r} \<and>
    map snd objects = map object_row (tl (object_table frames))"
proof -
  from assms(1) obtain l where l: "frame_log_of raw = Inr l" "map fr_name frames = sort (map fst (fl_headers l))"
    and ok: "\<forall>r \<in> set frames. frame_ok r \<and> fr_objects r = listed (fl_objects l) (fr_name r)" by (rule check_frames_Inr)
  from frame_log_ok[OF l(1)] have log: "log_ok l" .
  define rows where "rows = tl (object_table frames)"
  have rows: "rows = concat (map (\<lambda>r. map (\<lambda>o'. fr_name r # o') (fr_objects r)) frames)"
    by (simp add: rows_def object_table_def)
  have safe: "length fs = 9 \<and> (\<forall>w \<in> set fs. csv_safe tab w \<and> (\<forall>c \<in> set w. \<not> is_break c))" if "fs \<in> set rows" for fs
  proof -
    from that obtain r o' where r: "r \<in> set frames" "fs = fr_name r # o'" "o' \<in> set (fr_objects r)" by (auto simp: rows)
    have "fr_name r \<in> fst ` set (fl_headers l)" using arg_cong[OF l(2), of set] r(1) by auto
    with log have "\<forall>c \<in> set (fr_name r). nonspace c" by (auto simp: log_ok_def)
    moreover have "length o' = 8" "\<forall>w \<in> set o'. \<forall>c \<in> set w. nonspace c \<and> c \<noteq> CHR 0x22"
      using log ok r by (auto simp: log_ok_def)
    moreover have "take 1 w \<noteq> [CHR 0x22]" if "\<forall>c \<in> set w. c \<noteq> CHR 0x22" for w using that by (cases w) auto
    ultimately show ?thesis using r(1,2) assms(2) field_safe[of "fr_name r"]
      by (auto simp del: One_nat_def intro!: field_safe)
  qed
  have "list_all2 (\<lambda>row key. key_of row = Inr key) (map object_row rows) (frame_keys frames)"
    unfolding rows using ok log by (intro frame_rows_keys) (auto simp: log_ok_def)
  moreover have "distinct (frame_keys frames)"
    using ok log l(2) by (intro distinct_frame_keys) (auto simp: log_ok_def)
  ultimately have "foldE load_object [] (map object_row rows) = Inr (zip (frame_keys frames) (map object_row rows))"
    and len: "length rows = length (frame_keys frames)"
    using load_objects_fresh[of "map object_row rows" "frame_keys frames" "[]"] list_all2_lengthD by fastforce+
  moreover have "object_table frames = OBJECT_COLUMNS # rows" by (simp add: rows_def object_table_def)
  ultimately have "load_frame_objects (table (object_table frames)) = Inr (zip (frame_keys frames) (map object_row rows))"
    using safe by (simp add: load_frame_objects_def dict_reader_objects)
  moreover have "fst ` set (zip (frame_keys frames) (map object_row rows)) = set (frame_keys frames)"
    using len by (simp flip: set_map)
  moreover have "set (frame_keys frames) = {(Some (fr_name r), i) | r i. r \<in> set frames \<and> 0 \<le> i \<and> i < fr_count r}"
    using ok by (intro set_frame_keys) simp
  ultimately show ?thesis using len by (auto simp: rows_def)
qed

definition demo_audit :: string where
  "demo_audit = ''CORE_FRAME function=f frame=8 value_bytes=0 values=0 objects=1'' @ ''\<newline>'' @
     ''CORE_FRAME_OBJECT function=f id=0 offset=0 element_bytes=8 elements=1 align=8 explicit_align=0 kind=s shares_start=0'' @ ''\<newline>'' @
     ''CORE_FRAME_COMPONENT function=f frame=8 outgoing=0 object_region=8 value_bytes=0 suffix=0 object_payload=8 unique_offsets=1 shared_offsets=0'' @ ''\<newline>''"

definition demo_frame :: frame_row where
  "demo_frame = \<lparr> fr_name = ''f'', fr_component = \<lparr> fc_frame = 8, fc_outgoing = 0, fc_region = 8, fc_value_bytes = 0, fc_suffix = 0,
     fc_payload = 8, fc_unique = 1, fc_shared = 0 \<rparr>, fr_count = 1,
     fr_objects = [[''0'', ''0'', ''8'', ''1'', ''8'', ''0'', ''s'', ''0'']] \<rparr>"

lemma demo_audit_frames: "check_frames demo_audit = Inr [demo_frame]"
  by code_simp

theorem frames_accounted_witness: "list_all frame_ok [demo_frame] \<and> sorted (map fr_name [demo_frame])"
  by (rule frames_accounted[OF demo_audit_frames])

theorem objects_read_back_witness:
  "\<exists>objects. load_frame_objects (table (object_table [demo_frame])) = Inr objects \<and> fst ` set objects = {(Some ''f'', 0)}"
proof -
  have "{(Some (fr_name r), i) | r i. r \<in> set [demo_frame] \<and> 0 \<le> i \<and> i < fr_count r} = {(Some ''f'', 0)}"
    by (auto simp: demo_frame_def)
  moreover have "\<forall>r \<in> set [demo_frame]. take 1 (fr_name r) \<noteq> [CHR 0x22]" by (simp add: demo_frame_def)
  from objects_read_back[OF demo_audit_frames this] obtain objects where
    "load_frame_objects (table (object_table [demo_frame])) = Inr objects"
    "fst ` set objects = {(Some (fr_name r), i) | r i. r \<in> set [demo_frame] \<and> 0 \<le> i \<and> i < fr_count r}" by blast
  ultimately show ?thesis by metis
qed

end
