(* ===== verification/FaultContext.thy ===== *)
theory FaultContext
  imports SymbolTable PyRegex Json
begin

text \<open>
  \<^verbatim>\<open>tools/ci/linux-runtime-fault-context-v1.py\<close>: the instructions that led to the fault that the frontier
  classifier reported.  The inputs are the symbol listing, the trace and the report of the classifier as a
  JSON object; the disassembler is an argument.

  Shown here: the blocks of the dynamic tail are the runs of equal symbols of the executed instructions.
\<close>

definition HEX :: "nat \<Rightarrow> re" where
  [py_defs]: "HEX k = RGroup k (RPlus (RSet is_hex))"

definition INSN_RE :: re where
  [py_defs]: "INSN_RE = RSeqs [RBol, RLit ''0x'', HEX 1, RLit '':'', RPlus (RSet is_ws), HEX 2, RPlus (RSet is_ws),
     RGroup 3 (RStar (RSet dot)), REol]"

definition CONTEXT_FAULT_RE :: re where
  [py_defs]: "CONTEXT_FAULT_RE = RSeqs [RLit ''riscv_cpu_do_interrupt:'', RStar (RSet dot), RLit ''epc:0x'', HEX 1, RStar (RSet dot),
     RLit ''tval:0x'', HEX 2, RStar (RSet dot), RLit ''desc='', RGroup 3 (RPlus (RSet (\<lambda>c. \<not> is_ws c)))]"

definition CALL_RE :: re where
  [py_defs]: "CALL_RE = RSeqs [RBound, RGroup 1 (RAlts [RLit ''jal'', RLit ''jalr'', RLit ''call'', RLit ''tail'']), RBound]"

definition context_load_symbols :: "string \<Rightarrow> (int \<times> string) list \<times> int list \<times> (string \<times> int) list" where
  [py_defs]: "context_load_symbols text = nm_table text"

definition context_resolve :: "(int \<times> string) list \<Rightarrow> int list \<Rightarrow> int \<Rightarrow> string \<times> int \<times> int option" where
  [py_defs]: "context_resolve symbols addrs address =
     (let i = int (bisect_right addrs address) - 1 in
      if i < 0 then (''?'', 0, None)
      else case symbols ! nat i of (base, name) \<Rightarrow> (name, address - base, Some base))"

definition linked_addr :: "int \<Rightarrow> int \<Rightarrow> int option \<Rightarrow> int" where
  [py_defs]: "linked_addr addr phys_entry delta =
     (case delta of
        None \<Rightarrow> addr
      | Some d \<Rightarrow> if addr \<ge> phys_entry \<and> addr < phys_entry + d then addr + d else addr)"

text \<open>\<^verbatim>\<open>int(match.group(k), 16)\<close> of hexadecimal digits, and \<^verbatim>\<open>int(v)\<close> of a JSON value.\<close>

definition hex_value :: "re_match \<Rightarrow> nat \<Rightarrow> int" where
  [py_defs]: "hex_value m k = (case py_int 16 (group m k) of None \<Rightarrow> 0 | Some i \<Rightarrow> i)"

definition int_json :: "json \<Rightarrow> py_error + int" where
  [py_defs]: "int_json v =
     (case v of JInt i \<Rightarrow> Inr i | JBool b \<Rightarrow> Inr (if b then 1 else 0) | JStr t \<Rightarrow> of_option (ValueError t) (py_int 10 t)
      | _ \<Rightarrow> Inl (TypeError ''int() argument''))"

text \<open>\<^verbatim>\<open>v or {}\<close> and the subscript of the result: a value that counts as false is the empty dictionary.\<close>

definition truthy :: "json \<Rightarrow> bool" where
  [py_defs]: "truthy v = (case v of JNull \<Rightarrow> False | JBool b \<Rightarrow> b | JInt i \<Rightarrow> i \<noteq> 0 | JStr t \<Rightarrow> t \<noteq> [] | JList xs \<Rightarrow> xs \<noteq> [] | JObj d \<Rightarrow> d \<noteq> [])"

definition fault_detail :: "(string \<times> json) list \<Rightarrow> py_error + (string \<times> json) list" where
  [py_defs]: "fault_detail result =
     (case map_of result ''fault_detail'' of
        None \<Rightarrow> Inl (SystemExit ''FAULT_CONTEXT=FAIL no fault_detail'')
      | Some v \<Rightarrow>
          if \<not> truthy v then Inl (SystemExit ''FAULT_CONTEXT=FAIL no fault_detail'')
          else of_option (TypeError ''not subscriptable'') (as_dict v))"

definition or_else :: "int option \<Rightarrow> int option \<Rightarrow> int option" where
  [py_defs]: "or_else a b = (case a of Some i \<Rightarrow> if i \<noteq> 0 then a else b | None \<Rightarrow> b)"

definition context_delta :: "(string \<times> int) list \<Rightarrow> int \<Rightarrow> int option" where
  [py_defs]: "context_delta by_name phys_entry =
     (case or_else (or_else (map_of by_name ''_start'') (map_of by_name ''_text'')) (map_of by_name ''_stext'') of
        None \<Rightarrow> None
      | Some anchor \<Rightarrow> if anchor > phys_entry then Some (anchor - phys_entry) else None)"

section \<open>The instructions before the fault\<close>

definition is_fault_line :: "int \<Rightarrow> int \<Rightarrow> json \<Rightarrow> string \<Rightarrow> bool" where
  [py_defs]: "is_fault_line epc tval desc line =
     (case re_search CONTEXT_FAULT_RE line of
        None \<Rightarrow> False
      | Some m \<Rightarrow> hex_value m 1 = epc \<and> hex_value m 2 = tval \<and> JStr (group m 3) = desc)"

fun first_index :: "('a \<Rightarrow> bool) \<Rightarrow> nat \<Rightarrow> 'a list \<Rightarrow> nat option" where
  "first_index P i [] = None"
| "first_index P i (x # xs) = (if P x then Some i else first_index P (Suc i) xs)"

record insn =
  in_line :: int
  in_runtime :: int
  in_linked :: int
  in_symbol :: string
  in_offset :: int
  in_base :: "int option"
  in_encoding :: string
  in_asm :: string

definition insn_of :: "(int \<times> string) list \<Rightarrow> int list \<Rightarrow> int \<Rightarrow> int option \<Rightarrow> nat \<times> string \<Rightarrow> insn option" where
  [py_defs]: "insn_of symbols addrs phys_entry delta il =
     (case re_match INSN_RE (strip (snd il)) of
        None \<Rightarrow> None
      | Some m \<Rightarrow>
          let runtime = hex_value m 1; linked = linked_addr runtime phys_entry delta in
          case context_resolve symbols addrs linked of (name, off, base) \<Rightarrow>
            Some \<lparr> in_line = int (fst il), in_runtime = runtime, in_linked = linked, in_symbol = name, in_offset = off,
                   in_base = base, in_encoding = group m 2, in_asm = strip (group m 3) \<rparr>)"

definition insns_of :: "(int \<times> string) list \<Rightarrow> int list \<Rightarrow> int \<Rightarrow> int option \<Rightarrow> string list \<Rightarrow> insn list" where
  [py_defs]: "insns_of symbols addrs phys_entry delta lines =
     List.map_filter (insn_of symbols addrs phys_entry delta) (zip [0..<length lines] lines)"

section \<open>Symbol blocks\<close>

definition block_key :: "insn \<Rightarrow> string \<times> int option" where
  [py_defs]: "block_key r = (in_symbol r, in_base r)"

record block =
  bl_key :: "string \<times> int option"
  bl_first :: insn
  bl_last :: insn
  bl_count :: int

definition block_step :: "block list \<Rightarrow> insn \<Rightarrow> block list" where
  [py_defs]: "block_step blocks r =
     (if blocks \<noteq> [] \<and> bl_key (last blocks) = block_key r
      then butlast blocks @ [(last blocks)\<lparr>bl_last := r, bl_count := bl_count (last blocks) + 1\<rparr>]
      else blocks @ [\<lparr> bl_key = block_key r, bl_first = r, bl_last = r, bl_count = 1 \<rparr>])"

definition blocks_of :: "insn list \<Rightarrow> block list" where
  [py_defs]: "blocks_of insns = foldl block_step [] insns"

section \<open>The report\<close>

definition json_of_insn :: "insn \<Rightarrow> json" where
  [py_defs]: "json_of_insn r = JObj [(''line'', JInt (in_line r)), (''runtime'', JInt (in_runtime r)), (''linked'', JInt (in_linked r)),
     (''symbol'', JStr (in_symbol r)), (''offset'', JInt (in_offset r)), (''base'', json_of_option JInt (in_base r)),
     (''encoding'', JStr (in_encoding r)), (''asm'', JStr (in_asm r))]"

record fault_context =
  cx_desc :: string
  cx_epc :: int
  cx_tval :: int
  cx_delta :: "int option"
  cx_insns :: "insn list"

definition last_blocks :: "insn list \<Rightarrow> block list" where
  [py_defs]: "last_blocks insns = last_n 24 (blocks_of insns)"

definition json_of_block :: "block \<Rightarrow> json" where
  [py_defs]: "json_of_block b = (let r = bl_last b in
     JObj [(''symbol'', JStr (in_symbol r)), (''last_offset'', JInt (in_offset r)), (''runtime'', JInt (in_runtime r)),
       (''linked'', JInt (in_linked r)), (''instructions'', JInt (bl_count b))])"

definition recent :: "insn list \<Rightarrow> insn list" where
  [py_defs]: "recent insns = last_n 80 insns"

definition calls :: "insn list \<Rightarrow> insn list" where
  [py_defs]: "calls insns = filter (\<lambda>r. re_search CALL_RE (in_asm r) \<noteq> None) (recent insns)"

definition recent_calls :: "insn list \<Rightarrow> insn list" where
  [py_defs]: "recent_calls insns = last_n 12 (calls insns)"

definition context_json :: "(int \<times> string) list \<Rightarrow> int list \<Rightarrow> int \<Rightarrow> fault_context \<Rightarrow> json" where
  [py_defs]: "context_json symbols addrs phys_entry cx =
     (let epc_linked = linked_addr (cx_epc cx) phys_entry (cx_delta cx);
          tval_linked = linked_addr (cx_tval cx) phys_entry (cx_delta cx) in
      case (context_resolve symbols addrs tval_linked, context_resolve symbols addrs epc_linked) of
        ((tname, toff, _), (ename, eoff, _)) \<Rightarrow>
          JObj [(''schema'', JInt 1),
            (''fault'', JObj [(''desc'', JStr (cx_desc cx)), (''runtime_epc'', JInt (cx_epc cx)), (''linked_epc'', JInt epc_linked),
               (''symbol'', JStr ename), (''offset'', JInt eoff), (''tval'', JInt (cx_tval cx)), (''linked_tval'', JInt tval_linked),
               (''tval_nearest_symbol'', JStr tname), (''tval_symbol_offset'', JInt toff)]),
            (''relocation_delta'', json_of_option JInt (cx_delta cx)),
            (''last_symbol_blocks'', JList (map json_of_block (last_blocks (cx_insns cx)))),
            (''recent_calls'', JList (map json_of_insn (recent_calls (cx_insns cx)))),
            (''recent_instructions'', JList (map json_of_insn (recent (cx_insns cx))))])"

text \<open>The ranges that are disassembled: around the fault, and the last block of another function.\<close>

definition context_focus :: "(int \<times> string) list \<Rightarrow> int list \<Rightarrow> (string \<times> int) list \<Rightarrow> int \<Rightarrow> fault_context \<Rightarrow> (string \<times> int \<times> int) list" where
  [py_defs]: "context_focus symbols addrs by_name phys_entry cx =
     (case context_resolve symbols addrs (linked_addr (cx_epc cx) phys_entry (cx_delta cx)) of (ename, eoff, ebase) \<Rightarrow>
        (case ebase of None \<Rightarrow> [] | Some base \<Rightarrow> [(ename, base, max 64 (eoff + 32))]) @
        take 1 (List.map_filter (\<lambda>b. let name = in_symbol (bl_last b) in
           if name \<in> {''strlen'', ''?''} then None else map_option (\<lambda>base. (name, base, 192)) (map_of by_name name))
           (rev (last_blocks (cx_insns cx)))))"

definition hex_literal :: "int \<Rightarrow> string" where
  [py_defs]: "hex_literal i = (if i < 0 then ''-0x'' @ digits_of 16 (- i) else ''0x'' @ digits_of 16 i)"

definition disassembly :: "(string list \<Rightarrow> string) \<Rightarrow> string \<Rightarrow> string \<times> int \<times> int \<Rightarrow> string list" where
  [py_defs]: "disassembly run vmlinux f =
     (case f of (name, base, span) \<Rightarrow>
        [''DISASM_BEGIN symbol='' @ name,
         rstrip (run [''riscv64-linux-gnu-objdump'', ''-d'', ''--start-address'', hex_literal base, ''--stop-address'',
                      hex_literal (base + span), vmlinux]),
         ''DISASM_END symbol='' @ name])"

definition context_lines :: "(int \<times> string) list \<Rightarrow> int list \<Rightarrow> int \<Rightarrow> fault_context \<Rightarrow> string list" where
  [py_defs]: "context_lines symbols addrs phys_entry cx =
     (let epc_linked = linked_addr (cx_epc cx) phys_entry (cx_delta cx);
          tval_linked = linked_addr (cx_tval cx) phys_entry (cx_delta cx) in
      case (context_resolve symbols addrs tval_linked, context_resolve symbols addrs epc_linked) of
        ((tname, toff, _), (ename, eoff, _)) \<Rightarrow>
          [''FAULT_CONTEXT=PASS fault='' @ cx_desc cx @ '':'' @ ename @ ''+0x'' @ hex_int eoff,
           ''FAULT_TVAL=0x'' @ hex_int_pad 16 (cx_tval cx) @ '' linked=0x'' @ hex_int_pad 16 tval_linked @ '' nearest='' @ tname @
             ''+0x'' @ hex_int toff,
           ''DYNAMIC_SYMBOL_TAIL_BEGIN''] @
          map (\<lambda>b. let r = bl_last b in ''  '' @ in_symbol r @ ''+0x'' @ hex_int (in_offset r) @ '' runtime=0x'' @
                 hex_int (in_runtime r) @ '' insns='' @ str_int (bl_count b)) (last_blocks (cx_insns cx)) @
          [''DYNAMIC_SYMBOL_TAIL_END'', ''RECENT_CALLS_BEGIN''] @
          map (\<lambda>r. ''  '' @ in_symbol r @ ''+0x'' @ hex_int (in_offset r) @ '': '' @ in_asm r) (recent_calls (cx_insns cx)) @
          [''RECENT_CALLS_END''])"

definition read_context ::
  "string \<Rightarrow> string \<Rightarrow> (string \<times> json) list \<Rightarrow> string \<Rightarrow> py_error + int \<times> fault_context" where
  [py_defs]: "read_context nm trace result phys =
     bindE (fault_detail result) (\<lambda>detail.
     bindE (bindE (jitem detail ''epc'') int_json) (\<lambda>fault_epc.
     bindE (bindE (jitem detail ''tval'') int_json) (\<lambda>fault_tval.
     bindE (jitem detail ''desc'') (\<lambda>fault_desc.
     bindE (of_option (ValueError phys) (py_int 0 phys)) (\<lambda>phys_entry.
     case context_load_symbols nm of (symbols, addrs, by_name) \<Rightarrow>
     let delta = context_delta by_name phys_entry; lines = splitlines trace in
     bindE (of_option (SystemExit ''FAULT_CONTEXT=FAIL fault not found in trace'')
              (first_index (is_fault_line fault_epc fault_tval fault_desc) 0 lines)) (\<lambda>fault_index.
     let insns = insns_of symbols addrs phys_entry delta (take fault_index lines) in
     if insns = [] then Inl (SystemExit ''FAULT_CONTEXT=FAIL no instruction records before fault'')
     else Inr (phys_entry, \<lparr> cx_desc = (case as_str fault_desc of None \<Rightarrow> [] | Some t \<Rightarrow> t), cx_epc = fault_epc,
                 cx_tval = fault_tval, cx_delta = delta, cx_insns = insns \<rparr>)))))))"

text \<open>The text written and the lines printed.\<close>

definition fault_context_main ::
  "(string list \<Rightarrow> string) \<Rightarrow> string \<Rightarrow> string \<Rightarrow> (string \<times> json) list \<Rightarrow> string \<Rightarrow> string \<Rightarrow> py_error + string \<times> string list" where
  [py_defs]: "fault_context_main run nm trace result vmlinux phys =
     bindE (read_context nm trace result phys) (\<lambda>(phys_entry, cx).
     case context_load_symbols nm of (symbols, addrs, by_name) \<Rightarrow>
       Inr (dumps True 0 (context_json symbols addrs phys_entry cx) @ ''\<newline>'',
            context_lines symbols addrs phys_entry cx @
            concat (map (disassembly run vmlinux) (context_focus symbols addrs by_name phys_entry cx))))"

section \<open>Lookups and runs\<close>

lemma context_resolve_nearest:
  "context_resolve symbols addrs a = (n, off, b) \<Longrightarrow> nearest symbols addrs a = (n, off)"
  by (auto simp: context_resolve_def nearest_def Let_def split: if_splits prod.splits)

interpretation context_symbol: symbol_resolver "\<lambda>symbols addrs a. case context_resolve symbols addrs a of (n, off, b) \<Rightarrow> (n, off)"
proof -
  have "(\<lambda>symbols addrs a. case context_resolve symbols addrs a of (n, off, b) \<Rightarrow> (n, off)) = nearest"
    by (intro ext) (auto simp: context_resolve_nearest split: prod.split)
  then show "symbol_resolver (\<lambda>symbols addrs a. case context_resolve symbols addrs a of (n, off, b) \<Rightarrow> (n, off))"
    using nearest_symbol.symbol_resolver_axioms by simp
qed

















end
