(* ===== verification/FirstFault.thy ===== *)
theory FirstFault
  imports SymbolTable PyRegex
begin

text \<open>
  \<^verbatim>\<open>tools/ci/linux-first-fault-analyzer-v1.py\<close>: the faults of a boot, counted and judged.  The inputs are the
  texts of the interrupt log, the symbol listing, the trace and the console.

  Shown here: the exit status is zero exactly when nothing but the expected fault of the MMU transition has
  happened to the kernel; two of the five conditions in the source add nothing.
\<close>

definition analyzer_load_symbols :: "string \<Rightarrow> (int \<times> string) list" where
  [py_defs]: "analyzer_load_symbols text = sort (nm_entries text)"

definition analyzer_resolve :: "(int \<times> string) list \<Rightarrow> int list \<Rightarrow> int \<Rightarrow> string \<times> int" where
  [py_defs]: "analyzer_resolve symbols addresses address =
     (let index = int (bisect_right addresses address) - 1 in
      if index < 0 then (''?'', 0)
      else case symbols ! nat index of (base, name) \<Rightarrow> (name, address - base))"

record seen_fault =
  sf_epc :: int
  sf_tval :: int
  sf_desc :: string
  sf_lookup :: int
  sf_relocated :: bool
  sf_symbol :: string
  sf_offset :: int

definition expected_transition :: "seen_fault \<Rightarrow> bool" where
  [py_defs]: "expected_transition f \<longleftrightarrow>
     sf_desc f = ''exec_page_fault'' \<and> sf_relocated f \<and> sf_tval f = sf_epc f \<and> sf_symbol f = ''relocate_enable_mmu'' \<and>
     sf_offset f = 0x48"

text \<open>The dictionary from names to addresses keeps the last, that is the highest, address of a name.\<close>

definition names_of :: "(int \<times> string) list \<Rightarrow> (string \<times> int) list" where
  [py_defs]: "names_of symbols = foldl (\<lambda>d (address, name). AList.update name address d) [] symbols"

definition anchor_of :: "(string \<times> int) list \<Rightarrow> (string \<times> int) option" where
  [py_defs]: "anchor_of by_name =
     (case List.map_filter (\<lambda>n. map_option (\<lambda>a. (n, a)) (map_of by_name n)) [''_start'', ''_text'', ''_stext''] of
        [] \<Rightarrow> None | x # _ \<Rightarrow> Some x)"

definition analyzer_delta :: "(string \<times> int) option \<Rightarrow> int \<Rightarrow> int option" where
  [py_defs]: "analyzer_delta anchor phys_entry =
     (case anchor of None \<Rightarrow> None | Some (_, a) \<Rightarrow> if a > phys_entry then Some (a - phys_entry) else None)"

definition LINE_FAULT_RE :: re where
  [py_defs]: "LINE_FAULT_RE = RSeqs [RLit ''epc:0x'', RGroup 1 (RPlus (RSet is_hex)), RStar (RSet dot),
     RLit ''tval:0x'', RGroup 2 (RPlus (RSet is_hex)), RStar (RSet dot),
     RLit ''desc='', RGroup 3 (RPlus (RSet (\<lambda>c. c \<noteq> CHR '' '')))]"

definition group_hex :: "re_match \<Rightarrow> nat \<Rightarrow> int" where
  [py_defs]: "group_hex m k = (case py_int 16 (group m k) of None \<Rightarrow> 0 | Some i \<Rightarrow> i)"

definition fault_of ::
  "(int \<times> string) list \<Rightarrow> (string \<times> int) option \<Rightarrow> int \<Rightarrow> string \<Rightarrow> seen_fault option" where
  [py_defs]: "fault_of symbols anchor phys_entry line =
     (case re_search LINE_FAULT_RE line of
        None \<Rightarrow> None
      | Some m \<Rightarrow>
          if \<not> contains ''fault'' (group m 3) then None
          else
            let epc = group_hex m 1;
                (look, relocated) =
                  (case (analyzer_delta anchor phys_entry, anchor) of
                     (Some delta, Some (_, anchor_address)) \<Rightarrow>
                       if phys_entry \<le> epc \<and> epc < anchor_address then (epc + delta, True) else (epc, False)
                   | _ \<Rightarrow> (epc, False));
                (symbol, offset) = analyzer_resolve symbols (map fst symbols) look in
            Some \<lparr> sf_epc = epc, sf_tval = group_hex m 2, sf_desc = group m 3, sf_lookup = look, sf_relocated = relocated,
                   sf_symbol = symbol, sf_offset = offset \<rparr>)"

definition executed :: "(string \<times> int) list \<Rightarrow> int option \<Rightarrow> string \<Rightarrow> string \<Rightarrow> bool" where
  [py_defs]: "executed by_name relocation_delta trace name =
     (case map_of by_name name of
        None \<Rightarrow> False
      | Some address \<Rightarrow>
          let candidates = address # (case relocation_delta of
                Some delta \<Rightarrow> if address \<ge> delta then [address - delta] else [] | None \<Rightarrow> []) in
          list_ex (\<lambda>candidate. contains (''0x'' @ hex_int_pad 16 candidate @ '':'') trace) candidates)"

record analysis =
  an_faults :: "seen_fault list"
  an_anchor :: "(string \<times> int) option"
  an_delta :: "int option"
  an_phys_entry :: int
  an_bad_stack :: bool
  an_panic :: bool
  an_banner :: bool

definition analyze_boot :: "string \<Rightarrow> string \<Rightarrow> string \<Rightarrow> string \<Rightarrow> int \<Rightarrow> analysis" where
  [py_defs]: "analyze_boot interrupts nm trace console phys_entry =
     (let symbols = analyzer_load_symbols nm; by_name = names_of symbols; anchor = anchor_of by_name;
          delta = analyzer_delta anchor phys_entry; ran = executed by_name delta trace
      in \<lparr> an_faults = List.map_filter (fault_of symbols anchor phys_entry) (splitlines interrupts),
           an_anchor = anchor, an_delta = delta, an_phys_entry = phys_entry,
           an_bad_stack = (ran ''handle_kernel_stack_overflow'' \<or> ran ''handle_bad_stack''),
           an_panic = (ran ''panic'' \<or> contains ''Kernel panic'' console),
           an_banner = contains ''Linux version'' console \<rparr>)"

definition kernel_faults :: "analysis \<Rightarrow> seen_fault list" where
  [py_defs]: "kernel_faults a = filter (\<lambda>f. sf_epc f \<ge> an_phys_entry a) (an_faults a)"

definition unexpected_kernel :: "analysis \<Rightarrow> seen_fault list" where
  [py_defs]: "unexpected_kernel a = filter (\<lambda>f. \<not> expected_transition f) (kernel_faults a)"

definition unexpected_exec :: "analysis \<Rightarrow> seen_fault list" where
  [py_defs]: "unexpected_exec a = filter (\<lambda>f. sf_desc f = ''exec_page_fault'' \<and> \<not> expected_transition f) (kernel_faults a)"

definition guard_faults :: "analysis \<Rightarrow> seen_fault list" where
  [py_defs]: "guard_faults a =
     filter (\<lambda>f. sf_desc f \<in> {''store_page_fault'', ''load_page_fault'', ''fault_store'', ''fault_load''} \<and>
                 0xFF1FFFFFFFF00000 \<le> sf_tval f \<and> sf_tval f < 0xFF20000000000000) (kernel_faults a)"

definition flag :: "bool \<Rightarrow> string" where
  [py_defs]: "flag b = (if b then ''1'' else ''0'')"

definition tally :: "string \<Rightarrow> 'a list \<Rightarrow> string" where
  [py_defs]: "tally title xs = title @ ''='' @ str_int (int (length xs))"

definition fault_line :: "nat \<times> seen_fault \<Rightarrow> string" where
  [py_defs]: "fault_line nf =
     (case nf of (index, f) \<Rightarrow>
        ''FAULT index='' @ str_int (int index) @ '' class='' @ (if expected_transition f then ''expected-mmu'' else ''unexpected'') @
        '' desc='' @ sf_desc f @ '' epc=0x'' @ hex_int_pad 16 (sf_epc f) @ '' tval=0x'' @ hex_int_pad 16 (sf_tval f) @
        '' lookup=0x'' @ hex_int_pad 16 (sf_lookup f) @ '' relocated='' @ flag (sf_relocated f) @
        '' symbol='' @ sf_symbol f @ ''+0x'' @ hex_int (sf_offset f))"

definition analysis_lines :: "string \<Rightarrow> analysis \<Rightarrow> string list" where
  [py_defs]: "analysis_lines qemu_rc a =
     (let ks = kernel_faults a in
      [''QEMU_RC='' @ qemu_rc, tally ''FAULTS'' (an_faults a), tally ''KERNEL_FAULTS'' ks,
       tally ''PAGE_FAULTS'' (filter (\<lambda>f. contains ''page_fault'' (sf_desc f)) ks),
       tally ''ACCESS_FAULTS'' (filter (\<lambda>f. sf_desc f \<in> {''fault_load'', ''fault_store'', ''fault_fetch''}) ks),
       tally ''EXPECTED_MMU_EXEC_FAULTS'' (filter expected_transition ks),
       tally ''UNEXPECTED_KERNEL_FAULTS'' (unexpected_kernel a),
       tally ''UNEXPECTED_EXEC_PAGE_FAULTS'' (unexpected_exec a),
       tally ''IRQ_GUARD_RANGE_FAULTS'' (guard_faults a),
       tally ''NULL_PAGE_FAULTS'' (filter (\<lambda>f. sf_tval f = 0) ks),
       ''BAD_STACK_PATH='' @ flag (an_bad_stack a), ''PANIC_PATH='' @ flag (an_panic a), ''LINUX_BANNER='' @ flag (an_banner a)] @
      (case an_anchor a of None \<Rightarrow> [] | Some (n, address) \<Rightarrow> [''LINK_ANCHOR='' @ n @ ''@0x'' @ hex_int_pad 16 address]) @
      (case an_delta a of None \<Rightarrow> [] | Some d \<Rightarrow> [''EARLY_PHYS_TO_LINK_DELTA=0x'' @ hex_int d]) @
      map fault_line (zip [0..<12] (take 12 ks)))"

definition first_fault_status :: "analysis \<Rightarrow> int" where
  [py_defs]: "first_fault_status a =
     (if unexpected_kernel a \<noteq> [] \<or> guard_faults a \<noteq> [] \<or> an_bad_stack a \<or> an_panic a \<or> unexpected_exec a \<noteq> [] then 1 else 0)"

definition first_fault_main :: "string \<Rightarrow> string \<Rightarrow> string \<Rightarrow> string \<Rightarrow> string \<Rightarrow> int \<Rightarrow> string list \<times> int" where
  [py_defs]: "first_fault_main interrupts nm trace console qemu_rc phys_entry =
     (let a = analyze_boot interrupts nm trace console phys_entry in (analysis_lines qemu_rc a, first_fault_status a))"

section \<open>The verdict\<close>

interpretation analyzer_symbol: symbol_resolver analyzer_resolve
proof -
  have "analyzer_resolve = nearest" by (intro ext) (simp add: analyzer_resolve_def nearest_def)
  then show "symbol_resolver analyzer_resolve" using nearest_symbol.symbol_resolver_axioms by simp
qed

lemma guard_faults_unexpected: "set (guard_faults a) \<subseteq> set (unexpected_kernel a)"
  by (auto simp: guard_faults_def unexpected_kernel_def expected_transition_def)

lemma unexpected_exec_unexpected: "set (unexpected_exec a) \<subseteq> set (unexpected_kernel a)"
  by (auto simp: unexpected_exec_def unexpected_kernel_def)

text \<open>A relocated fault lies in the physical window of the image and is looked up at its link address.\<close>

lemma fault_of_relocated:
  assumes "fault_of symbols anchor phys_entry line = Some f" and "sf_relocated f"
  shows "\<exists>n a. anchor = Some (n, a) \<and> phys_entry \<le> sf_epc f \<and> sf_epc f < a \<and> sf_lookup f = sf_epc f + (a - phys_entry) \<and> a \<le> sf_lookup f"
  using assms by (auto simp: fault_of_def analyzer_delta_def Let_def split: option.splits if_splits prod.splits)

lemma fault_of_symbol:
  assumes "fault_of symbols anchor phys_entry line = Some f"
  shows "analyzer_resolve symbols (map fst symbols) (sf_lookup f) = (sf_symbol f, sf_offset f)"
  using assms by (auto simp: fault_of_def Let_def split: option.splits if_splits prod.splits)

definition transition_site :: "string \<Rightarrow> int \<Rightarrow> seen_fault \<Rightarrow> bool" where
  "transition_site nm phys_entry f \<longleftrightarrow>
     sf_desc f = ''exec_page_fault'' \<and> sf_tval f = sf_epc f \<and>
     (\<exists>n start b. anchor_of (names_of (analyzer_load_symbols nm)) = Some (n, start) \<and> phys_entry \<le> sf_epc f \<and> sf_epc f < start \<and>
        (b, ''relocate_enable_mmu'') \<in> set (analyzer_load_symbols nm) \<and> sf_epc f + (start - phys_entry) = b + 0x48 \<and>
        (\<forall>(b', n') \<in> set (analyzer_load_symbols nm). b' \<le> b + 0x48 \<longrightarrow> b' \<le> b))"

lemma expected_transition_site:
  assumes "f \<in> set (kernel_faults a)" "expected_transition f" and "analyze_boot interrupts nm trace console phys_entry = a"
  shows "transition_site nm phys_entry f"
proof -
  let ?syms = "analyzer_load_symbols nm"
  let ?anchor = "anchor_of (names_of ?syms)"
  from assms(1,3) obtain line where line: "fault_of ?syms ?anchor phys_entry line = Some f"
    by (auto simp: kernel_faults_def analyze_boot_def Let_def map_filter_def)
  from assms(2) have "sf_relocated f" by (simp add: expected_transition_def)
  from fault_of_relocated[OF line this] obtain n start where
    r: "?anchor = Some (n, start)" "phys_entry \<le> sf_epc f" "sf_epc f < start" "sf_lookup f = sf_epc f + (start - phys_entry)" by auto
  have sorted: "sorted ?syms" by (simp add: analyzer_load_symbols_def)
  have res: "analyzer_resolve ?syms (map fst ?syms) (sf_lookup f) = (''relocate_enable_mmu'', 0x48)"
    using fault_of_symbol[OF line] assms(2) by (simp add: expected_transition_def)
  have "\<exists>(b0, n0) \<in> set ?syms. b0 \<le> sf_lookup f"
  proof (rule ccontr)
    assume "\<not> ?thesis"
    then have "\<forall>(b, n) \<in> set ?syms. sf_lookup f < b" by fastforce
    with analyzer_symbol.res_none[OF sorted] res show False by simp
  qed
  then obtain b0 n0 where "(b0, n0) \<in> set ?syms" "b0 \<le> sf_lookup f" by blast
  from analyzer_symbol.res_some[OF sorted this] res obtain b where b: "(b, ''relocate_enable_mmu'') \<in> set ?syms"
    "\<forall>(b', n') \<in> set ?syms. b' \<le> sf_lookup f \<longrightarrow> b' \<le> b" "sf_lookup f - b = 0x48" by auto
  then have "sf_lookup f = b + 0x48" by simp
  with b r assms(2) show ?thesis unfolding transition_site_def expected_transition_def by (intro conjI exI[of _ n] exI[of _ start] exI[of _ b]) auto
qed

text \<open>
  C31. The analyzer exits with status zero exactly when every fault at or above the kernel's entry is the
  expected one of the MMU transition and neither the stack-overflow handlers nor a panic was seen; nothing has to have run, so an empty trace has status zero.  Such a
  fault is an instruction page fault at the physical address whose link address is 0x48 bytes behind the
  nearest symbol, \<^verbatim>\<open>relocate_enable_mmu\<close>.
\<close>

theorem first_fault_verdict:
  "let a = analyze_boot interrupts nm trace console phys_entry in
   (first_fault_status a = 0 \<longleftrightarrow>
      list_all expected_transition (kernel_faults a) \<and> \<not> an_bad_stack a \<and> \<not> an_panic a) \<and>
   list_all (transition_site nm phys_entry) (filter expected_transition (kernel_faults a))"
proof -
  define a where "a = analyze_boot interrupts nm trace console phys_entry"
  have "unexpected_kernel a = [] \<Longrightarrow> guard_faults a = [] \<and> unexpected_exec a = []"
    using guard_faults_unexpected[of a] unexpected_exec_unexpected[of a] by simp
  then have "first_fault_status a = 0 \<longleftrightarrow> unexpected_kernel a = [] \<and> \<not> an_bad_stack a \<and> \<not> an_panic a"
    by (auto simp: first_fault_status_def)
  moreover have "unexpected_kernel a = [] \<longleftrightarrow> list_all expected_transition (kernel_faults a)"
    by (simp add: unexpected_kernel_def filter_empty_conv list_all_iff)
  moreover have "transition_site nm phys_entry f" if "f \<in> set (kernel_faults a)" "expected_transition f" for f
    using that by (rule expected_transition_site) (simp add: a_def)
  ultimately show ?thesis by (simp add: list_all_iff Let_def flip: a_def)
qed

end
