(* ===== verification/Routing.thy ===== *)
theory Routing
  imports PyRegex PyRepr
begin

text \<open>
  The three selectors that decide from the files changed by a push which expensive jobs run:
  \<^verbatim>\<open>select_runtime_owner_modes_v1.py\<close>, \<^verbatim>\<open>select_runtime_focused_owners_v1.py\<close> and \<^verbatim>\<open>select_miniobjcopy_elf_route_v1.py\<close>.
  The program \<^verbatim>\<open>git\<close> is an argument: it maps a command to its output, \<^const>\<open>None\<close> when it fails or cannot be started.

  Shown here, over the interface \<open>push_diff\<close> that the three copies of the diff reader meet: no change is
  lost, an unavailable history runs everything or is reported as inconclusive.
\<close>

type_synonym git = "string list \<Rightarrow> string option"

definition SHA_RE :: re where
  [py_defs]: "SHA_RE = RRep 40 (RSet is_hex)"

definition is_sha :: "string \<Rightarrow> bool" where
  [py_defs]: "is_sha x = (re_fullmatch SHA_RE x \<noteq> None)"

definition cat_file :: "string \<Rightarrow> string list" where
  [py_defs]: "cat_file sha = [''git'', ''cat-file'', ''-e'', sha @ ''^{commit}'']"

text \<open>\<^verbatim>\<open>[p for p in data.split(NUL) if p]\<close>\<close>

definition nul_separated :: "string \<Rightarrow> string list" where
  [py_defs]: "nul_separated data = filter (\<lambda>p. p \<noteq> []) (split_char CHR 0x00 data)"

section \<open>Owner modes\<close>

definition MODES :: "string list" where
  [py_defs]: "MODES = [''timekeeping'', ''vsyscall'', ''notifier'', ''build-policy'']"

definition MODE_TRIGGERS :: "(string \<times> string) list" where
  [py_defs]: "MODE_TRIGGERS = [
     (''tools/ci/runtime-timekeeping-trigger.txt'', ''timekeeping''),
     (''tools/ci/runtime-vsyscall-trigger.txt'', ''vsyscall''),
     (''tools/ci/runtime-notifier-trigger.txt'', ''notifier''),
     (''tools/ci/runtime-build-policy-trigger.txt'', ''build-policy'')]"

definition FULL_TRIGGER :: "string list" where
  [py_defs]: "FULL_TRIGGER = [''.github/workflows/linux-runtime-owner-focused-v1.yml'', ''tools/ci/select_runtime_owner_modes_v1.py'']"

definition choose_modes :: "string \<Rightarrow> string list \<Rightarrow> string \<Rightarrow> py_error + string list" where
  [py_defs]: "choose_modes event paths manual_mode =
     (if event = ''workflow_dispatch'' then
        (if manual_mode \<notin> set (''all'' # MODES) then Inl (ValueError (''unsupported manual mode: '' @ manual_mode))
         else Inr (if manual_mode = ''all'' then MODES else [manual_mode]))
      else if event \<noteq> ''push'' then Inl (ValueError (''unsupported triggering event: '' @ event))
      else if paths = [] \<or> set paths \<inter> set FULL_TRIGGER \<noteq> {} then Inr MODES
      else if \<not> set paths \<subseteq> fst ` set MODE_TRIGGERS then Inr MODES
      else Inr (filter (\<lambda>m. m \<in> set (List.map_filter (map_of MODE_TRIGGERS) paths)) MODES))"

definition diff_paths :: "git \<Rightarrow> string \<Rightarrow> string \<Rightarrow> string list option" where
  [py_defs]: "diff_paths git before after =
     (if \<not> is_sha before then None
      else if \<not> is_sha after then None
      else if py_int 16 before = Some 0 then None
      else case git (cat_file before) of
        None \<Rightarrow> None
      | Some _ \<Rightarrow>
          map_option nul_separated
            (git [''git'', ''diff'', ''--name-only'', ''--no-renames'', ''-z'', ''--diff-filter=ACMRD'', before, after, ''--'']))"

text \<open>\<^verbatim>\<open>json.dumps(paths, ensure_ascii=False)\<close> and with other separators.\<close>

definition json_raw :: "string \<Rightarrow> string" where
  [py_defs]: "json_raw s = CHR 0x22 # concat (map (\<lambda>c. if (of_char c :: nat) \<ge> 127 then [c] else escape_char c) s) @ [CHR 0x22]"

definition json_strings :: "string \<Rightarrow> string list \<Rightarrow> string" where
  [py_defs]: "json_strings sep xs = ''['' @ join sep (map json_raw xs) @ '']''"

record routed =
  ro_stdout :: "string list"
  ro_stderr :: "string list"
  ro_status :: int

definition owner_modes_main :: "git \<Rightarrow> string \<Rightarrow> string \<Rightarrow> string \<Rightarrow> string \<Rightarrow> py_error + routed" where
  [py_defs]: "owner_modes_main git event mode before after =
     (let changed = (if event = ''push'' then diff_paths git before after else Some []) in
      bindE (choose_modes event (case changed of None \<Rightarrow> [] | Some ps \<Rightarrow> ps) mode) (\<lambda>modes.
        Inr \<lparr> ro_stdout = [''modes='' @ json_strings '','' modes],
              ro_stderr = [''ROUTE_EVENT='' @ event,
                ''ROUTE_CHANGED_PATHS='' @ (case changed of None \<Rightarrow> ''null'' | Some ps \<Rightarrow> json_strings '', '' ps),
                ''ROUTE_MODES='' @ json_strings '', '' modes],
              ro_status = 0 \<rparr>))"

section \<open>Focused owners\<close>

definition PATTERNS :: "(string \<times> string list) list" where
  [py_defs]: "PATTERNS = [
     (''irq'', [''tools/ci/runtime-mm-core-trigger.txt'', ''tools/ci/runtime-init-irq-trigger.txt'']),
     (''rcu'', [''tools/ci/linux-runtime-rest-init-frontier-v0.json'']),
     (''codegen'', []),
     (''timer'', [''tools/ci/runtime-timer-trigger.txt''])]"

definition changes :: "git \<Rightarrow> string \<Rightarrow> string \<Rightarrow> string list option" where
  [py_defs]: "changes git before after =
     (if \<not> list_all is_sha [before, after] then None
      else if py_int 16 before = Some 0 then None
      else if git (cat_file before) = None then None
      else if git (cat_file after) = None then None
      else map_option nul_separated (git [''git'', ''diff'', ''--name-only'', ''--no-renames'', ''-z'', before, after, ''--'']))"

definition select :: "string \<Rightarrow> string list option \<Rightarrow> py_error + (string \<times> bool) list" where
  [py_defs]: "select event changed =
     (if event = ''workflow_dispatch'' then Inr (map (\<lambda>(owner, patterns). (owner, False)) PATTERNS)
      else if event \<noteq> ''push'' then Inl (ValueError ''unsupported event'')
      else case changed of
        None \<Rightarrow> Inl (RuntimeError ''push diff unavailable; manual owner dispatch required'')
      | Some paths \<Rightarrow> Inr (map (\<lambda>(owner, patterns). (owner, list_ex (\<lambda>p. p \<in> set patterns) paths)) PATTERNS))"

definition lower_bool :: "bool \<Rightarrow> string" where
  [py_defs]: "lower_bool b = (if b then ''true'' else ''false'')"

definition focused_main :: "git \<Rightarrow> string \<Rightarrow> string \<Rightarrow> string \<Rightarrow> py_error + routed" where
  [py_defs]: "focused_main git event before after =
     (let changed = (if event = ''push'' then changes git before after else Some []) in
      case select event changed of
        Inl (RuntimeError exc) \<Rightarrow>
          Inr \<lparr> ro_stdout = [], ro_stderr = [''RUNTIME_FOCUSED_ROUTING=INCONCLUSIVE '' @ exc], ro_status = 2 \<rparr>
      | Inl e \<Rightarrow> Inl e
      | Inr lanes \<Rightarrow>
          Inr \<lparr> ro_stdout = map (\<lambda>(owner, value). owner @ ''='' @ lower_bool value) lanes,
                ro_stderr = [''RUNTIME_FOCUSED_CHANGED='' @ (case changed of None \<Rightarrow> ''None'' | Some ps \<Rightarrow> repr_list ps)],
                ro_status = 0 \<rparr>)"

section \<open>The ELF route of the object tools\<close>

definition ELF_TRIGGERS :: "string list" where
  [py_defs]: "ELF_TRIGGERS = [''.github/workflows/miniobjcopy-strip-regressions-v1.yml'', ''tools/ci/select_miniobjcopy_elf_route_v1.py'']"

definition changed_files :: "git \<Rightarrow> string \<Rightarrow> string \<Rightarrow> string list option" where
  [py_defs]: "changed_files git before after =
     (if \<not> list_all is_sha [before, after] then None
      else if py_int 16 before = Some 0 then None
      else if git (cat_file before) = None then None
      else if git (cat_file after) = None then None
      else map_option nul_separated (git [''git'', ''diff'', ''--name-only'', ''--no-renames'', ''-z'', before, after, ''--'']))"

definition needs_regression :: "string \<Rightarrow> string list option \<Rightarrow> py_error + bool" where
  [py_defs]: "needs_regression event changed =
     (if event = ''workflow_dispatch'' then Inr False
      else if event \<noteq> ''push'' then Inl (ValueError (''unsupported event: '' @ event))
      else case changed of
        None \<Rightarrow> Inr True
      | Some paths \<Rightarrow> Inr (list_ex (\<lambda>p. startswith p ''elf/'' \<or> p \<in> set ELF_TRIGGERS) paths))"

definition elf_route_main :: "git \<Rightarrow> string \<Rightarrow> string \<Rightarrow> string \<Rightarrow> py_error + routed" where
  [py_defs]: "elf_route_main git event before after =
     (let paths = (if event = ''push'' then changed_files git before after else Some []) in
      bindE (needs_regression event paths) (\<lambda>on.
        Inr \<lparr> ro_stdout = [''elf_changed='' @ lower_bool on],
              ro_stderr = [''ELF_ROUTE_EVENT='' @ event @ '' ELF_ROUTE_DIFF='' @
                (case paths of None \<Rightarrow> ''unknown'' | Some ps \<Rightarrow> repr_list ps)],
              ro_status = 0 \<rparr>))"

section \<open>The interface of the diff readers\<close>

locale push_diff =
  fixes diff :: "git \<Rightarrow> string \<Rightarrow> string \<Rightarrow> string list option"
    and probes :: "string \<Rightarrow> string \<Rightarrow> string list list"
    and command :: "string \<Rightarrow> string \<Rightarrow> string list"
  assumes diff_Some: "diff git before after = Some ps \<longleftrightarrow>
      is_sha before \<and> is_sha after \<and> py_int 16 before \<noteq> Some 0 \<and> list_all (\<lambda>c. git c \<noteq> None) (probes before after) \<and>
      map_option nul_separated (git (command before after)) = Some ps"
begin

lemma diff_None_initial: "py_int 16 before = Some 0 \<Longrightarrow> diff git before after = None"
  by (cases "diff git before after") (auto simp: diff_Some)

lemma diff_None_probe: "c \<in> set (probes before after) \<Longrightarrow> git c = None \<Longrightarrow> diff git before after = None"
  by (cases "diff git before after") (auto simp: diff_Some list_all_iff)

lemma diff_no_empty: "diff git before after = Some ps \<Longrightarrow> [] \<notin> set ps"
  by (auto simp: diff_Some nul_separated_def)

text \<open>A path that \<^verbatim>\<open>git\<close> reports is among the paths read.\<close>

lemma diff_complete:
  assumes "diff git before after = Some ps" and "git (command before after) = Some (join [CHR 0x00] ws)"
    and "w \<in> set ws" and "w \<noteq> []" and "\<forall>v \<in> set ws. CHR 0x00 \<notin> set v"
  shows "w \<in> set ps"
proof -
  have "ws \<noteq> []" using assms(3) by auto
  then have "split_char CHR 0x00 (join [CHR 0x00] ws) = ws" using assms(5) by (intro split_char_join) auto
  then show ?thesis using assms(1-4) by (auto simp: diff_Some nul_separated_def)
qed

end

interpretation owner_diff: push_diff diff_paths "\<lambda>before after. [cat_file before]"
  "\<lambda>before after. [''git'', ''diff'', ''--name-only'', ''--no-renames'', ''-z'', ''--diff-filter=ACMRD'', before, after, ''--'']"
  by unfold_locales (auto simp: diff_paths_def split: option.splits)

interpretation focused_diff: push_diff changes "\<lambda>before after. [cat_file before, cat_file after]"
  "\<lambda>before after. [''git'', ''diff'', ''--name-only'', ''--no-renames'', ''-z'', before, after, ''--'']"
  by unfold_locales (auto simp: changes_def)

interpretation elf_diff: push_diff changed_files "\<lambda>before after. [cat_file before, cat_file after]"
  "\<lambda>before after. [''git'', ''diff'', ''--name-only'', ''--no-renames'', ''-z'', before, after, ''--'']"
  by unfold_locales (auto simp: changed_files_def)

section \<open>Coverage\<close>

definition covered :: "string list \<Rightarrow> string \<Rightarrow> bool" where
  "covered modes p \<longleftrightarrow> (case map_of MODE_TRIGGERS p of Some m \<Rightarrow> m \<in> set modes | None \<Rightarrow> modes = MODES)"

lemma trigger_modes: "map_of MODE_TRIGGERS p = Some m \<Longrightarrow> m \<in> set MODES"
  by (drule map_of_SomeD) (auto simp: MODE_TRIGGERS_def MODES_def)

lemma covered_all: "covered MODES p"
  by (auto simp: covered_def trigger_modes split: option.splits)

lemma choose_push:
  "\<exists>modes. choose_modes ''push'' paths mode = Inr modes \<and> modes \<noteq> [] \<and> set modes \<subseteq> set MODES \<and>
     (\<forall>p \<in> set paths. covered modes p) \<and> (paths = [] \<longrightarrow> modes = MODES)"
proof (cases "paths = [] \<or> set paths \<inter> set FULL_TRIGGER \<noteq> {} \<or> \<not> set paths \<subseteq> fst ` set MODE_TRIGGERS")
  case True
  then have "choose_modes ''push'' paths mode = Inr MODES" by (auto simp: choose_modes_def)
  then show ?thesis using covered_all by (auto simp: MODES_def)
next
  case False
  let ?modes = "filter (\<lambda>m. m \<in> set (List.map_filter (map_of MODE_TRIGGERS) paths)) MODES"
  have eq: "choose_modes ''push'' paths mode = Inr ?modes" using False by (auto simp: choose_modes_def)
  have cov: "covered ?modes p" if p: "p \<in> set paths" for p
  proof -
    from False p have "p \<in> fst ` set MODE_TRIGGERS" by blast
    then obtain m where m: "map_of MODE_TRIGGERS p = Some m" by (metis map_of_eq_None_iff not_None_eq)
    with p have "m \<in> set (List.map_filter (map_of MODE_TRIGGERS) paths)" by (force simp: map_filter_def)
    with m trigger_modes[OF m] show ?thesis by (simp add: covered_def)
  qed
  from False obtain p where "p \<in> set paths" "p \<in> fst ` set MODE_TRIGGERS" by (cases paths) auto
  then obtain m where "map_of MODE_TRIGGERS p = Some m" by (metis map_of_eq_None_iff not_None_eq)
  with cov[OF \<open>p \<in> set paths\<close>] have "m \<in> set ?modes" by (simp add: covered_def)
  then have "?modes \<noteq> []" by (metis list.distinct(1) list.set_cases)
  with eq cov False show ?thesis by (intro exI[of _ ?modes]) auto
qed

text \<open>
  C32. No change that \<^verbatim>\<open>git\<close> reports loses its jobs: for every push, whatever its two commits are, the owner selector prints a non-empty list of known modes.  When \<^verbatim>\<open>git diff\<close> fails, all
  modes are there; when it succeeds, every path that it prints is covered, a trigger file by its own mode and any other file by all modes, also when the
  selector does not look at the diff because a commit is malformed, absent or unknown.  The command asks for added, copied, modified, renamed and deleted files, so
  a change of the type of a file only is none of the paths spoken of here.
\<close>

theorem owner_modes_cover:
  "\<exists>r modes. owner_modes_main git ''push'' mode before after = Inr r \<and> ro_stdout r = [''modes='' @ json_strings '','' modes] \<and>
    modes \<noteq> [] \<and> set modes \<subseteq> set MODES \<and>
    (git [''git'', ''diff'', ''--name-only'', ''--no-renames'', ''-z'', ''--diff-filter=ACMRD'', before, after, ''--''] = None \<longrightarrow> modes = MODES) \<and>
    (\<forall>ws. git [''git'', ''diff'', ''--name-only'', ''--no-renames'', ''-z'', ''--diff-filter=ACMRD'', before, after, ''--''] = Some (join [CHR 0x00] ws) \<and>
       (\<forall>w \<in> set ws. CHR 0x00 \<notin> set w) \<longrightarrow> (\<forall>w \<in> set ws. w \<noteq> [] \<longrightarrow> covered modes w))"
proof -
  let ?cmd = "[''git'', ''diff'', ''--name-only'', ''--no-renames'', ''-z'', ''--diff-filter=ACMRD'', before, after, ''--'']"
  let ?paths = "case diff_paths git before after of None \<Rightarrow> [] | Some ps \<Rightarrow> ps"
  obtain modes where m: "choose_modes ''push'' ?paths mode = Inr modes" "modes \<noteq> []" "set modes \<subseteq> set MODES"
    "\<forall>p \<in> set ?paths. covered modes p" "?paths = [] \<longrightarrow> modes = MODES" using choose_push by blast
  have "covered modes w" if "git ?cmd = Some (join [CHR 0x00] ws) \<and> (\<forall>w \<in> set ws. CHR 0x00 \<notin> set w)" "w \<in> set ws" "w \<noteq> []" for ws w
  proof (cases "diff_paths git before after")
    case None
    with m(5) covered_all show ?thesis by simp
  next
    case (Some ps)
    with owner_diff.diff_complete[OF Some conjunct1[OF that(1)] that(2,3) conjunct2[OF that(1)]] m(4) show ?thesis by simp
  qed
  moreover have "modes = MODES" if "git ?cmd = None"
  proof -
    have "diff_paths git before after = None" using that by (cases "diff_paths git before after") (auto simp: owner_diff.diff_Some)
    with m(5) show ?thesis by simp
  qed
  ultimately show ?thesis using m(1-3) by (intro exI[of _ modes] exI) (auto simp: owner_modes_main_def Let_def)
qed

definition demo_git :: git where
  "demo_git c = (if take 2 c = [''git'', ''diff''] then Some (''tools/ci/runtime-notifier-trigger.txt'' @ [CHR 0x00]) else Some [])"

text \<open>Two commits with well-formed names: the diff is read and one mode is enough.\<close>

theorem owner_modes_cover_witness:
  "diff_paths demo_git (replicate 40 CHR ''1'') (replicate 40 CHR ''2'') = Some [''tools/ci/runtime-notifier-trigger.txt''] \<and>
   (\<exists>r modes. owner_modes_main demo_git ''push'' ''all'' (replicate 40 CHR ''1'') (replicate 40 CHR ''2'') = Inr r \<and>
     ro_stdout r = [''modes='' @ json_strings '','' modes] \<and> modes \<noteq> [] \<and> set modes \<subseteq> set MODES \<and> covered modes ''tools/ci/runtime-notifier-trigger.txt'')"
proof
  show "diff_paths demo_git (replicate 40 CHR ''1'') (replicate 40 CHR ''2'') = Some [''tools/ci/runtime-notifier-trigger.txt'']" by code_simp
  have "demo_git [''git'', ''diff'', ''--name-only'', ''--no-renames'', ''-z'', ''--diff-filter=ACMRD'', b, a, ''--''] =
      Some (join [CHR 0x00] [''tools/ci/runtime-notifier-trigger.txt'', []])" for a b
    by (simp add: demo_git_def)
  moreover have "\<forall>w \<in> set [''tools/ci/runtime-notifier-trigger.txt'', []]. CHR 0x00 \<notin> set w" by simp
  ultimately show "\<exists>r modes. owner_modes_main demo_git ''push'' ''all'' (replicate 40 CHR ''1'') (replicate 40 CHR ''2'') = Inr r \<and>
     ro_stdout r = [''modes='' @ json_strings '','' modes] \<and> modes \<noteq> [] \<and> set modes \<subseteq> set MODES \<and> covered modes ''tools/ci/runtime-notifier-trigger.txt''"
    using owner_modes_cover[of demo_git "''all''" "replicate 40 CHR ''1''" "replicate 40 CHR ''2''"] by (metis list.set_intros(1) list.distinct(1))
qed

text \<open>
  Without a usable history the selectors never report a narrow or a skipped result: for a push whose
  previous commit is malformed, absent (the initial push) or unknown to \<^verbatim>\<open>git\<close>, the owner selector runs every mode, the
  object tools run their regression, and the focused selector prints no lane and exits with status 2.
\<close>

theorem routing_without_history:
  assumes "\<not> is_sha before \<or> py_int 16 before = Some 0 \<or> git (cat_file before) = None"
  shows "map_sum id ro_stdout (owner_modes_main git ''push'' mode before after) = Inr [''modes='' @ json_strings '','' MODES] \<and>
    map_sum id ro_stdout (elf_route_main git ''push'' before after) = Inr [''elf_changed=true''] \<and>
    map_sum id (\<lambda>r. (ro_stdout r, ro_status r)) (focused_main git ''push'' before after) = Inr ([], 2)"
proof -
  have "diff_paths git before after = None" "changes git before after = None" "changed_files git before after = None"
    using assms by (auto simp: diff_paths_def changes_def changed_files_def)
  then show ?thesis
    by (simp add: owner_modes_main_def choose_modes_def elf_route_main_def needs_regression_def focused_main_def select_def lower_bool_def)
qed

theorem routing_without_history_witness:
  "map_sum id ro_stdout (elf_route_main demo_git ''push'' (replicate 40 CHR ''0'') ''1'') = Inr [''elf_changed=true'']"
proof -
  have "py_int 16 (replicate 40 CHR ''0'') = Some 0" by code_simp
  then show ?thesis using routing_without_history[of "replicate 40 CHR ''0''"] by blast
qed

end
