(* ===== verification/RuntimeBuild.thy ===== *)
theory RuntimeBuild
  imports Prelude
begin

text \<open>
  \<^verbatim>\<open>tools/runtime/build_runtime.py\<close>: the runtime library is compiled source by source, for every target, by a pool of
  workers, then archived and checked.  The manifest is a record.  The tools that are started are arguments:
  whether a command succeeds (\<^verbatim>\<open>execute\<close>), whether a file is there once the commands that write it have run, what \<^verbatim>\<open>nm\<close>
  prints, and the status of the instruction audit.  The order in which the workers finish is an argument too.
  Paths are texts below the root of the repository.  Each command is taken by itself: that two sources with the same stem write
  the same files, and that workers could interfere through them, is not modelled.

  Shown here: an archive is made only of all objects; and exactly when a target counts as complete.
\<close>

record target_config =
  tc_triple :: string
  tc_minic_target :: string
  tc_minic_flags :: "string list"
  tc_clang_flags :: "string list"
  tc_primitives :: "string list"

record fallback_policy =
  fp_target :: string
  fp_sources :: "string list"
  fp_groups :: "string list"
  fp_undefine :: string

record build_manifest =
  bm_source_root :: string
  bm_groups :: "(string \<times> string list) list"
  bm_targets :: "(string \<times> target_config) list"
  bm_fallbacks :: "fallback_policy list"

record build_args =
  ba_print_sources :: bool
  ba_backend :: string
  ba_targets :: string
  ba_groups :: string
  ba_minic :: string
  ba_clang :: string
  ba_ar :: string
  ba_nm :: string
  ba_gcc :: string
  ba_jobs :: int
  ba_no_primitives :: bool
  ba_require_closure :: bool
  ba_build_dir :: string

text \<open>\<open>bt_execute argv log\<close> is the result of \<^verbatim>\<open>execute\<close>: false for a failing status, a missing program or a timeout.
  \<open>bt_nm argv\<close> is the status and the output of a plain \<^verbatim>\<open>subprocess.run\<close>, or nothing when the program is missing and the call
  raises.\<close>

record build_tools =
  bt_execute :: "string list \<Rightarrow> string \<Rightarrow> bool"
  bt_is_file :: "string \<Rightarrow> bool"
  bt_exists :: "string \<Rightarrow> bool"
  bt_which :: "string \<Rightarrow> bool"
  bt_nm :: "string list \<Rightarrow> (int \<times> string) option"
  bt_audit :: "string list \<Rightarrow> int"

section \<open>The manifest\<close>

definition all_sources :: "build_manifest \<Rightarrow> string list" where
  [py_defs]: "all_sources data = concat (map snd (bm_groups data))"

definition under :: "string \<Rightarrow> string \<Rightarrow> string" where
  [py_defs]: "under p q = p @ ''/'' @ q"

definition read_manifest :: "build_tools \<Rightarrow> build_manifest \<Rightarrow> py_error + build_manifest" where
  [py_defs]: "read_manifest t data =
     bindE (ensure (distinct (all_sources data)) (AssertionError ''duplicate upstream object name'')) (\<lambda>_.
     bindE (mapE (\<lambda>item. let source = under (bm_source_root data) item in ensure (bt_is_file t source) (OSError source)) (all_sources data)) (\<lambda>_.
       Inr data))"

text \<open>The name of a path without and with another suffix.\<close>

definition split_suffix :: "string \<Rightarrow> string \<times> string" where
  [py_defs]: "split_suffix n =
     (let i = length n - length (takeWhile (\<lambda>c. c \<noteq> CHR ''.'') (rev n)) - 1 in
      if CHR ''.'' \<in> set n \<and> 0 < i \<and> i < length n - 1 then (take i n, drop i n) else (n, []))"

definition file_name :: "string \<Rightarrow> string" where
  [py_defs]: "file_name p = last (split_char CHR ''/'' p)"

definition parent_dir :: "string \<Rightarrow> string" where
  [py_defs]: "parent_dir p = join ''/'' (butlast (split_char CHR ''/'' p))"

definition stem :: "string \<Rightarrow> string" where
  [py_defs]: "stem p = fst (split_suffix (file_name p))"

definition with_suffix :: "string \<Rightarrow> string \<Rightarrow> string" where
  [py_defs]: "with_suffix n suffix = fst (split_suffix n) @ suffix"

definition target_flags :: "target_config \<Rightarrow> string list" where
  [py_defs]: "target_flags config = (''--target='' @ tc_triple config) # tc_clang_flags config"

section \<open>One source\<close>

text \<open>\<^verbatim>\<open>any(name in groups[group] for group in ...)\<close> stops at the first hit; an unknown group raises.\<close>

fun any_group :: "build_manifest \<Rightarrow> string \<Rightarrow> string list \<Rightarrow> py_error + bool" where
  "any_group manifest name [] = Inr False"
| "any_group manifest name (g # gs) =
     (case map_of (bm_groups manifest) g of
        None \<Rightarrow> Inl (KeyError g)
      | Some members \<Rightarrow> if name \<in> set members then Inr True else any_group manifest name gs)"

definition generic_flag :: "build_manifest \<Rightarrow> string \<Rightarrow> string \<Rightarrow> string list \<Rightarrow> fallback_policy \<Rightarrow> py_error + string list" where
  [py_defs]: "generic_flag manifest target name flags policy =
     (if fp_target policy \<noteq> target then Inr flags
      else bindE (if name \<in> set (fp_sources policy) then Inr True else any_group manifest name (fp_groups policy)) (\<lambda>hit.
        Inr (if hit then flags @ [''-U'' @ fp_undefine policy] else flags)))"

record build_row =
  br_source :: string
  br_stage :: string
  br_success :: bool
  br_object :: "string option"

definition FIXED_CPP_FLAGS :: "string list" where
  [py_defs]: "FIXED_CPP_FLAGS = [''-E'', ''-P'', ''-std=gnu11'', ''-U__SIZEOF_FLOAT128__'', ''-U__FLOAT128__'', ''-D__STDC_VERSION__=199409L'',
     ''-D__UINT32_C(x)=x##U'', ''-D__INT32_C(x)=x'', ''-D__UINT64_C(x)=x##UL'', ''-D__INT64_C(x)=x##L'',
     ''-ffreestanding'', ''-fno-builtin'', ''-nostdinc'']"

definition includes_of :: "build_manifest \<Rightarrow> string list" where
  [py_defs]: "includes_of manifest = [''-I'' @ bm_source_root manifest, ''-Ithird_party/gcc-riscv-14.2.0'', ''-isystem'',
     under (bm_source_root manifest) ''freestanding-clang'']"

definition log_file :: "string \<Rightarrow> string \<Rightarrow> string" where
  [py_defs]: "log_file output name = under (under output ''logs'') name"

text \<open>A step: the command and then the file it should have written.\<close>

definition built :: "build_tools \<Rightarrow> string list \<Rightarrow> string \<Rightarrow> string \<Rightarrow> bool" where
  [py_defs]: "built t argv log file = (bt_execute t argv log \<and> bt_is_file t file)"

definition source_compile ::
  "build_tools \<Rightarrow> build_args \<Rightarrow> build_manifest \<Rightarrow> string \<Rightarrow> string \<Rightarrow> string \<Rightarrow> py_error + build_row" where
  [py_defs]: "source_compile t args manifest target name output =
     bindE (of_option (KeyError target) (map_of (bm_targets manifest) target)) (\<lambda>config.
     let file = (\<lambda>suffix. under (under output ''objects'') (with_suffix (stem name) suffix));
         result = (\<lambda>stage. \<lparr> br_source = name, br_stage = stage, br_success = (stage = ''PASS''), br_object = Some (file ''.o'') \<rparr>) in
     bindE (foldE (generic_flag manifest target name) [] (bm_fallbacks manifest)) (\<lambda>generic_flags.
     let cpp_cmd = ba_clang args # target_flags config @ generic_flags @ FIXED_CPP_FLAGS @ includes_of manifest @
           [under (bm_source_root manifest) name, ''-o'', file ''.i''] in
     if \<not> built t cpp_cmd (log_file output (name @ ''.cpp.log'')) (file ''.i'') then Inr (result ''preprocess'')
     else if ba_backend args = ''minic'' then
       (if \<not> built t ([ba_minic args, ''--target='' @ tc_minic_target config] @ tc_minic_flags config @
                     [''-S'', file ''.i'', ''-o'', file ''.s'']) (log_file output (name @ ''.minic.log'')) (file ''.s'')
        then Inr (result ''minic'')
        else if \<not> built t (ba_clang args # target_flags config @ [''-c'', ''-x'', ''assembler'', file ''.s'', ''-o'', file ''.o''])
                     (log_file output (name @ ''.as.log'')) (file ''.o'')
        then Inr (result ''assemble'')
        else Inr (result ''PASS''))
     else if \<not> built t (ba_clang args # target_flags config @ [''-O2'', ''-fno-builtin'', ''-ffreestanding'', ''-fno-pic'',
                    ''-fno-stack-protector'', ''-fno-lto'', ''-c'', ''-x'', ''c'', file ''.i'', ''-o'', file ''.o''])
                  (log_file output (name @ ''.reference.log'')) (file ''.o'')
     then Inr (result ''reference'')
     else Inr (result ''PASS'')))"

text \<open>What a worker reports: an exception becomes a failed row without an object.\<close>

definition source_row :: "build_tools \<Rightarrow> build_args \<Rightarrow> build_manifest \<Rightarrow> string \<Rightarrow> string \<Rightarrow> string \<Rightarrow> build_row" where
  [py_defs]: "source_row t args manifest target output name =
     (case source_compile t args manifest target name output of
        Inr row \<Rightarrow> row
      | Inl e \<Rightarrow> \<lparr> br_source = name, br_stage = ''exception'', br_success = False, br_object = None \<rparr>)"

definition asm_primitive :: "build_tools \<Rightarrow> build_args \<Rightarrow> target_config \<Rightarrow> string \<Rightarrow> string \<Rightarrow> string \<Rightarrow> build_row" where
  [py_defs]: "asm_primitive t args config target output source_rel =
     (let object_file = under (under output ''objects'') (stem source_rel @ ''-primitive.o'');
          include = ''-I'' @ parent_dir source_rel;
          gnu = (target = ''riscv64'' \<and> bt_which t (ba_gcc args));
          cmd = (if gnu then [ba_gcc args, ''-march=rv64i'', ''-mabi=lp64'', include, ''-c'', source_rel, ''-o'', object_file]
                 else ba_clang args # target_flags config @ [''-c'', ''-x'', ''assembler-with-cpp'', include, source_rel, ''-o'', object_file]);
          ok = bt_execute t cmd (log_file output (file_name source_rel @ ''.as.log''))
      in \<lparr> br_source = source_rel,
           br_stage = (if ok then ''PASS'' else if gnu then ''primitive-gnu-as'' else ''primitive-asm''),
           br_success = ok, br_object = Some object_file \<rparr>)"

section \<open>The symbol graph\<close>

datatype symbol_graph =
    NmUnavailable string
  | GraphOk (graph_defined: "string list") (graph_unresolved: "string list")
  | Incomplete

definition defined_in :: "string \<Rightarrow> string list" where
  [py_defs]: "defined_in out = List.map_filter (\<lambda>line. let parts = split_ws line in if 2 \<le> length parts then Some (last parts) else None)
     (splitlines out)"

definition undefined_in :: "string \<Rightarrow> string list" where
  [py_defs]: "undefined_in out = List.map_filter (\<lambda>line. let parts = split_ws line in if parts \<noteq> [] then Some (last parts) else None)
     (splitlines out)"

definition nm_run :: "build_tools \<Rightarrow> string list \<Rightarrow> py_error + int \<times> string" where
  [py_defs]: "nm_run t argv = of_option (OSError (hd argv)) (bt_nm t argv)"

fun graph_loop :: "build_tools \<Rightarrow> build_args \<Rightarrow> string list \<Rightarrow> string list \<Rightarrow> string list \<Rightarrow> py_error + symbol_graph" where
  "graph_loop t args defined undef [] =
     Inr (GraphOk (sort (nub defined)) (sort (nub (filter (\<lambda>x. x \<notin> set defined) undef))))"
| "graph_loop t args defined undef (obj # objs) =
     bindE (nm_run t [ba_nm args, ''-g'', ''--defined-only'', obj]) (\<lambda>(rc1, defs).
     bindE (nm_run t [ba_nm args, ''-u'', obj]) (\<lambda>(rc2, unresolved).
       if rc1 \<noteq> 0 \<or> rc2 \<noteq> 0 then Inr (NmUnavailable obj)
       else graph_loop t args (defined @ defined_in defs) (undef @ undefined_in unresolved) objs))"

definition check_symbol_graph :: "build_tools \<Rightarrow> build_args \<Rightarrow> string list \<Rightarrow> py_error + symbol_graph" where
  [py_defs]: "check_symbol_graph t args objects = graph_loop t args [] [] objects"

text \<open>\<^verbatim>\<open>graph.get("unresolved", [])\<close>\<close>

definition unresolved_of :: "symbol_graph \<Rightarrow> string list" where
  [py_defs]: "unresolved_of g = (case g of GraphOk d u \<Rightarrow> u | _ \<Rightarrow> [])"

section \<open>One target\<close>

record target_report =
  tg_target :: string
  tg_backend :: string
  tg_groups :: "string list"
  tg_built :: int
  tg_complete :: bool
  tg_archive :: "string option"
  tg_graph :: symbol_graph
  tg_rows :: "build_row list"

definition group_names_of :: "build_args \<Rightarrow> build_manifest \<Rightarrow> string list" where
  [py_defs]: "group_names_of args manifest =
     (if ba_groups args \<noteq> ''all'' then split_char CHR '','' (ba_groups args) else map fst (bm_groups manifest))"

definition names_for :: "build_args \<Rightarrow> build_manifest \<Rightarrow> py_error + string list" where
  [py_defs]: "names_for args manifest =
     bindE (mapE (\<lambda>g. of_option (KeyError g) (map_of (bm_groups manifest) g)) (group_names_of args manifest)) (\<lambda>gs. Inr (concat gs))"

definition audit_cmd :: "string \<Rightarrow> string list" where
  [py_defs]: "audit_cmd output = [''tools/ci/audit-rv64i-asm-origin.py'', ''--root'', under output ''objects'', ''--json-out'',
     under output ''rv64i-origin.json'', ''--opcode-tsv-out'', under output ''rv64i-opcodes.tsv'', ''--fail-on-compiler-non-i'']"

text \<open>\<open>finish\<close> is the order in which the workers finish.\<close>

definition target_dir :: "build_args \<Rightarrow> string \<Rightarrow> string" where
  [py_defs]: "target_dir args target = under (under (ba_build_dir args) (ba_backend args)) target"

definition primitive_rows :: "build_tools \<Rightarrow> build_args \<Rightarrow> build_manifest \<Rightarrow> string \<Rightarrow> string \<Rightarrow> py_error + build_row list" where
  [py_defs]: "primitive_rows t args manifest target output =
     (if ba_no_primitives args then Inr []
      else bindE (of_option (KeyError target) (map_of (bm_targets manifest) target)) (\<lambda>config.
        Inr (map (asm_primitive t args config target output) (tc_primitives config))))"

definition target_rows ::
  "build_tools \<Rightarrow> (string list \<Rightarrow> string list) \<Rightarrow> build_args \<Rightarrow> build_manifest \<Rightarrow> string \<Rightarrow> py_error + build_row list" where
  [py_defs]: "target_rows t finish args manifest target =
     bindE (names_for args manifest) (\<lambda>names.
     let output = target_dir args target;
         sources = sort_key br_source (map (source_row t args manifest target output) (finish names)) in
     bindE (primitive_rows t args manifest target output) (\<lambda>primitives. Inr (sources @ primitives)))"

definition target_archive :: "build_args \<Rightarrow> string \<Rightarrow> string" where
  [py_defs]: "target_archive args target = under (target_dir args target) ''libminic-rt.a''"

definition all_built :: "build_row list \<Rightarrow> bool" where
  [py_defs]: "all_built rows = (rows \<noteq> [] \<and> list_all br_success rows)"

definition objects_of :: "build_row list \<Rightarrow> string list" where
  [py_defs]: "objects_of rows = List.map_filter br_object (filter br_success rows)"

definition archived :: "build_tools \<Rightarrow> build_args \<Rightarrow> string \<Rightarrow> build_row list \<Rightarrow> bool" where
  [py_defs]: "archived t args target rows =
     (all_built rows \<and>
      bt_execute t ([ba_ar args, ''rcs'', target_archive args target] @ objects_of rows) (log_file (target_dir args target) ''ar.log'') \<and>
      bt_is_file t (target_archive args target))"

definition audited :: "build_tools \<Rightarrow> build_args \<Rightarrow> string \<Rightarrow> bool" where
  [py_defs]: "audited t args target =
     (ba_backend args = ''minic'' \<and> target = ''riscv64'' \<longrightarrow> bt_audit t (audit_cmd (target_dir args target)) = 0)"

definition report_of ::
  "build_tools \<Rightarrow> build_args \<Rightarrow> build_manifest \<Rightarrow> string \<Rightarrow> build_row list \<Rightarrow> symbol_graph \<Rightarrow> target_report" where
  [py_defs]: "report_of t args manifest target rows graph =
     \<lparr> tg_target = target, tg_backend = ba_backend args, tg_groups = group_names_of args manifest,
       tg_built = int (length (objects_of rows)),
       tg_complete = (archived t args target rows \<and> \<not> (ba_require_closure args \<and> unresolved_of graph \<noteq> []) \<and> audited t args target),
       tg_archive = (if all_built rows \<and> bt_is_file t (target_archive args target) then Some (target_archive args target) else None),
       tg_graph = graph, tg_rows = rows \<rparr>"

definition run_target ::
  "build_tools \<Rightarrow> (string list \<Rightarrow> string list) \<Rightarrow> build_args \<Rightarrow> build_manifest \<Rightarrow> string \<Rightarrow> py_error + target_report" where
  [py_defs]: "run_target t finish args manifest target =
     bindE (target_rows t finish args manifest target) (\<lambda>rows.
     bindE (if archived t args target rows then check_symbol_graph t args (objects_of rows) else Inr Incomplete) (\<lambda>graph.
       Inr (report_of t args manifest target rows graph)))"

definition bool_str :: "bool \<Rightarrow> string" where
  [py_defs]: "bool_str b = (if b then ''True'' else ''False'')"

definition target_lines :: "target_report \<Rightarrow> string list" where
  [py_defs]: "target_lines r =
     (''RUNTIME_TARGET='' @ tg_target r @ '' mode='' @ tg_backend r @ '' success='' @ bool_str (tg_complete r) @
      '' compiled='' @ str_int (tg_built r) @ ''/'' @ str_int (int (length (tg_rows r))) @
      '' archive='' @ (case tg_archive r of None \<Rightarrow> ''None'' | Some a \<Rightarrow> a) @
      '' unresolved='' @ str_int (int (length (unresolved_of (tg_graph r))))) #
     map (\<lambda>row. ''RUNTIME_FAIL='' @ tg_target r @ '' file='' @ br_source row @ '' stage='' @ br_stage row)
       (filter (\<lambda>row. \<not> br_success row) (tg_rows r))"

section \<open>The command\<close>

record build_outcome =
  bo_printed :: "string list"
  bo_reports :: "target_report list"
  bo_status :: int

definition targets_of :: "build_args \<Rightarrow> build_manifest \<Rightarrow> string list" where
  [py_defs]: "targets_of args manifest =
     (if ba_targets args = ''all'' then map fst (bm_targets manifest) else split_char CHR '','' (ba_targets args))"

definition build_main ::
  "build_tools \<Rightarrow> (string list \<Rightarrow> string list) \<Rightarrow> build_args \<Rightarrow> build_manifest \<Rightarrow> py_error + build_outcome" where
  [py_defs]: "build_main t finish args data =
     bindE (read_manifest t data) (\<lambda>manifest.
     if ba_print_sources args then Inr \<lparr> bo_printed = [join '' '' (all_sources manifest)], bo_reports = [], bo_status = 0 \<rparr>
     else
       bindE (mapE (\<lambda>target. ensure (target \<in> fst ` set (bm_targets manifest)) (SystemExit (''unknown target: '' @ target)))
                (targets_of args manifest)) (\<lambda>_.
       bindE (mapE (\<lambda>g. ensure (g \<in> fst ` set (bm_groups manifest)) (SystemExit (''unknown group: '' @ g)))
                (group_names_of args manifest)) (\<lambda>_.
       bindE (ensure (1 \<le> ba_jobs args) (SystemExit ''--jobs must be positive'')) (\<lambda>_.
       bindE (ensure (ba_backend args = ''minic'' \<longrightarrow> bt_exists t (ba_minic args))
                (SystemExit (''MiniC executable missing: '' @ ba_minic args))) (\<lambda>_.
       bindE (mapE (run_target t finish args manifest) (targets_of args manifest)) (\<lambda>reports.
         Inr \<lparr> bo_printed = concat (map target_lines reports), bo_reports = reports,
               bo_status = (if list_all tg_complete reports then 0 else 1) \<rparr>))))))"

section \<open>The rows of a target\<close>

lemma source_compile_row: "source_compile t args manifest target name output = Inr row \<Longrightarrow> br_source row = name"
  by (auto simp: source_compile_def Let_def resE split: if_splits)

lemma source_row_source [simp]: "br_source (source_row t args manifest target output name) = name"
  by (auto simp: source_row_def source_compile_row split: sum.splits)

lemma sort_key_of_inverse: "(\<And>x. k (f x) = x) \<Longrightarrow> sort_key k (map f xs) = map f (sort xs)"
  using sort_key_stable [of "\<lambda>x. x" _ xs]
  by (intro properties_for_sort_key) (auto simp: filter_map o_def eq_commute cong: filter_cong)

lemma sort_mset: "mset xs = mset ys \<Longrightarrow> sort xs = sort ys"
  by (metis sorted_list_of_multiset_mset)

text \<open>\<open>settled finish\<close>: every source finishes once.\<close>

definition settled :: "(string list \<Rightarrow> string list) \<Rightarrow> bool" where
  "settled finish = (\<forall>names. mset (finish names) = mset names)"

lemma settled_sort: "settled finish \<Longrightarrow> sort (finish names) = sort names"
  by (rule sort_mset) (simp add: settled_def)

definition sorted_rows :: "build_tools \<Rightarrow> build_args \<Rightarrow> build_manifest \<Rightarrow> string \<Rightarrow> string \<Rightarrow> string list \<Rightarrow> build_row list" where
  "sorted_rows t args manifest target output names = map (source_row t args manifest target output) (sort names)"

lemma finished_rows:
  "sort_key br_source (map (source_row t args manifest target output) names) = sorted_rows t args manifest target output names"
  by (simp add: sorted_rows_def sort_key_of_inverse)

section \<open>What a complete build has\<close>

lemma source_compile_passed:
  "source_compile t args manifest target name output = Inr row \<Longrightarrow> br_success row \<Longrightarrow>
   \<exists>obj. br_object row = Some obj \<and> bt_is_file t obj"
  by (auto simp: source_compile_def Let_def resE built_def split: if_splits)

lemma source_row_passed:
  "br_success (source_row t args manifest target output name) \<Longrightarrow>
   \<exists>obj. br_object (source_row t args manifest target output name) = Some obj \<and> bt_is_file t obj"
  using source_compile_passed by (fastforce simp: source_row_def split: sum.splits)

lemma asm_primitive_object: "\<exists>obj. br_object (asm_primitive t args config target output s) = Some obj"
  by (simp add: asm_primitive_def Let_def)

text \<open>The symbols an object defines and needs, as \<^verbatim>\<open>nm\<close> lists them.\<close>

definition exported :: "build_tools \<Rightarrow> build_args \<Rightarrow> string \<Rightarrow> string set" where
  "exported t args obj = (case bt_nm t [ba_nm args, ''-g'', ''--defined-only'', obj] of None \<Rightarrow> {} | Some (rc, out) \<Rightarrow> set (defined_in out))"

definition imported :: "build_tools \<Rightarrow> build_args \<Rightarrow> string \<Rightarrow> string set" where
  "imported t args obj = (case bt_nm t [ba_nm args, ''-u'', obj] of None \<Rightarrow> {} | Some (rc, out) \<Rightarrow> set (undefined_in out))"

lemma graph_loop_symbols:
  "graph_loop t args D U objs = Inr (GraphOk d u) \<Longrightarrow>
   set d = set D \<union> (\<Union>obj \<in> set objs. exported t args obj) \<and>
   set u = (set U \<union> (\<Union>obj \<in> set objs. imported t args obj)) - set d"
proof (induction objs arbitrary: D U)
  case (Cons obj objs)
  from Cons.prems obtain defs und where nm:
      "bt_nm t [ba_nm args, ''-g'', ''--defined-only'', obj] = Some (0, defs)" "bt_nm t [ba_nm args, ''-u'', obj] = Some (0, und)"
    and rest: "graph_loop t args (D @ defined_in defs) (U @ undefined_in und) objs = Inr (GraphOk d u)"
    by (auto simp: nm_run_def resE split: if_splits)
  have "exported t args obj = set (defined_in defs)" "imported t args obj = set (undefined_in und)"
    using nm by (simp_all add: exported_def imported_def)
  with Cons.IH [OF rest] show ?case by (simp add: Un_assoc)
qed auto

definition row_object :: "build_row \<Rightarrow> string" where
  "row_object row = the (br_object row)"

definition linked :: "build_tools \<Rightarrow> build_args \<Rightarrow> build_row list \<Rightarrow> bool" where
  "linked t args rows =
     (\<forall>row \<in> set rows. imported t args (row_object row) \<subseteq> (\<Union>r \<in> set rows. exported t args (row_object r)))"

definition sources_built :: "build_tools \<Rightarrow> build_args \<Rightarrow> build_manifest \<Rightarrow> build_row list \<Rightarrow> bool" where
  "sources_built t args data rows =
     (\<forall>g \<in> set (group_names_of args data). \<forall>name \<in> set (the (map_of (bm_groups data) g)).
        \<exists>row \<in> set rows. br_source row = name \<and> bt_is_file t (row_object row))"

definition good_report :: "build_tools \<Rightarrow> build_args \<Rightarrow> build_manifest \<Rightarrow> target_report \<Rightarrow> bool" where
  "good_report t args data r =
     (list_all br_success (tg_rows r) \<and> sources_built t args data (tg_rows r) \<and>
      (\<exists>archive log. tg_archive r = Some archive \<and> bt_is_file t archive \<and>
         bt_execute t ([ba_ar args, ''rcs'', archive] @ map row_object (tg_rows r)) log) \<and>
      (ba_require_closure args \<longrightarrow> (\<exists>obj. tg_graph r = NmUnavailable obj) \<or> linked t args (tg_rows r)))"

lemma objects_of_rows:
  "list_all br_success rows \<Longrightarrow> list_all (\<lambda>row. br_object row \<noteq> None) rows \<Longrightarrow>
   List.map_filter br_object (filter br_success rows) = map row_object rows"
  by (induction rows) (auto simp: row_object_def)

lemma mapE_Inr_set1: "mapE f xs = Inr ys \<Longrightarrow> x \<in> set xs \<Longrightarrow> \<exists>y \<in> set ys. f x = Inr y"
  by (induction xs arbitrary: ys) (auto simp: resE)

lemma names_for_member:
  assumes "names_for args data = Inr names" and "g \<in> set (group_names_of args data)"
    and "name \<in> set (the (map_of (bm_groups data) g))"
  shows "name \<in> set names"
proof -
  from assms(1) obtain gs where gs: "mapE (\<lambda>g. of_option (KeyError g) (map_of (bm_groups data) g)) (group_names_of args data) = Inr gs"
    and "names = concat gs"
    by (auto simp: names_for_def resE)
  moreover obtain members where "members \<in> set gs" "map_of (bm_groups data) g = Some members"
    using mapE_Inr_set1 [OF gs assms(2)] by (auto simp: resE)
  ultimately show ?thesis using assms(3) by auto
qed

lemma target_rows_source:
  assumes "target_rows t finish args manifest target = Inr rows" and "settled finish"
    and "names_for args manifest = Inr names" and "name \<in> set names"
  shows "source_row t args manifest target (target_dir args target) name \<in> set rows"
  using assms by (auto simp: target_rows_def resE Let_def finished_rows sorted_rows_def settled_sort simp del: set_sort)
    (metis image_eqI set_sort)

lemma target_rows_object:
  assumes "target_rows t finish args manifest target = Inr rows" and "row \<in> set rows" and "br_success row"
  shows "br_object row \<noteq> None"
  using assms source_row_passed asm_primitive_object
  by (fastforce simp: target_rows_def resE Let_def primitive_rows_def split: if_splits)

lemma run_target_target: "run_target t finish args manifest target = Inr r \<Longrightarrow> tg_target r = target"
  by (auto simp: run_target_def resE report_of_def)

lemma linked_graph:
  assumes "check_symbol_graph t args (map row_object rows) = Inr (GraphOk d [])"
  shows "linked t args rows"
  using graph_loop_symbols [OF assms [unfolded check_symbol_graph_def]] by (auto simp: linked_def)

lemma graph_cases:
  assumes "check_symbol_graph t args objs = Inr g" and "unresolved_of g = []"
  shows "(\<exists>obj. g = NmUnavailable obj) \<or> (\<exists>d. g = GraphOk d [])"
proof -
  have "graph_loop t args D U objs = Inr g \<Longrightarrow> g \<noteq> Incomplete" for D U
    by (induction objs arbitrary: D U) (auto simp: resE split: if_splits)
  with assms show ?thesis by (cases g) (auto simp: check_symbol_graph_def unresolved_of_def)
qed

lemma run_target_audited: "run_target t finish args manifest target = Inr r \<Longrightarrow> tg_complete r \<Longrightarrow> audited t args target"
  by (auto simp: run_target_def resE report_of_def)

lemma run_target_good:
  assumes run: "run_target t finish args data target = Inr r" and complete: "tg_complete r" and "settled finish"
  shows "good_report t args data r"
proof -
  from run complete obtain rows graph where rows: "target_rows t finish args data target = Inr rows"
    and arch: "archived t args target rows" and graph: "check_symbol_graph t args (objects_of rows) = Inr graph"
    and r: "r = report_of t args data target rows graph"
    and closed: "ba_require_closure args \<longrightarrow> unresolved_of graph = []"
    by (auto simp: run_target_def resE report_of_def split: if_splits)
  have ok: "list_all br_success rows" using arch by (simp add: archived_def all_built_def)
  then have objects: "objects_of rows = map row_object rows"
    using target_rows_object [OF rows] objects_of_rows [OF ok] by (simp add: objects_of_def list_all_iff)
  have "sources_built t args data rows"
    unfolding sources_built_def
  proof (intro ballI)
    fix g name
    assume mem: "g \<in> set (group_names_of args data)" "name \<in> set (the (map_of (bm_groups data) g))"
    obtain names where names: "names_for args data = Inr names" using rows by (auto simp: target_rows_def resE)
    let ?row = "source_row t args data target (target_dir args target) name"
    have "?row \<in> set rows" by (rule target_rows_source [OF rows \<open>settled finish\<close> names names_for_member [OF names mem]])
    with ok source_row_passed [of t args data target "target_dir args target" name]
    show "\<exists>row \<in> set rows. br_source row = name \<and> bt_is_file t (row_object row)"
      by (intro bexI [of _ ?row]) (auto simp: list_all_iff row_object_def)
  qed
  moreover have "(\<exists>obj. graph = NmUnavailable obj) \<or> linked t args rows" if "ba_require_closure args"
    using graph_cases [OF graph] closed that linked_graph graph objects by auto
  ultimately show ?thesis
    using arch ok objects by (auto simp: good_report_def r report_of_def archived_def)
qed

text \<open>
  A build that exits with status 0 has one report per selected target, in order, and each of them is good: every
  row succeeded; every source of every selected group has a row whose object file is there; the archive is there and was made
  by one run of the archiver over the objects of all rows, in order; and with \<^verbatim>\<open>--require-closure\<close> every symbol one of the
  objects needs is defined by one of them, unless \<^verbatim>\<open>nm\<close> failed.
\<close>
theorem complete_build:
  assumes "build_main t finish args data = Inr out" and "\<not> ba_print_sources args" and "bo_status out = 0" and "settled finish"
  shows "map tg_target (bo_reports out) = targets_of args data \<and> list_all (good_report t args data) (bo_reports out)"
proof -
  have reports: "mapE (run_target t finish args data) (targets_of args data) = Inr (bo_reports out)"
    and complete: "list_all tg_complete (bo_reports out)"
    using assms by (auto simp: build_main_def read_manifest_def resE split: if_splits)
  have "map tg_target (bo_reports out) = targets_of args data"
    using reports by (auto simp: mapE_Inr_iff list_eq_iff_nth_eq list_all2_conv_all_nth run_target_target)
  moreover have "good_report t args data r" if "r \<in> set (bo_reports out)" for r
    using mapE_Inr_set [OF reports that] run_target_good complete that assms(4) by (auto simp: list_all_iff)
  ultimately show ?thesis by (simp add: list_all_iff)
qed

lemma build_audited:
  assumes "build_main t finish args data = Inr out" and "\<not> ba_print_sources args" and "bo_status out = 0" and "target \<in> set (targets_of args data)"
  shows "audited t args target"
proof -
  have reports: "mapE (run_target t finish args data) (targets_of args data) = Inr (bo_reports out)"
    and complete: "list_all tg_complete (bo_reports out)"
    using assms by (auto simp: build_main_def read_manifest_def resE split: if_splits)
  obtain r where "r \<in> set (bo_reports out)" "run_target t finish args data target = Inr r"
    using mapE_Inr_set1 [OF reports assms(4)] by auto
  with complete show ?thesis by (auto simp: list_all_iff intro: run_target_audited)
qed

text \<open>Without the \<^verbatim>\<open>nm\<close> program a target whose archive was made has no report: the exception leaves the command.\<close>

lemma no_report_without_nm:
  assumes rows: "target_rows t finish args manifest target = Inr rows" and "archived t args target rows"
    and "bt_nm t [ba_nm args, ''-g'', ''--defined-only'', row_object (hd rows)] = None"
  shows "run_target t finish args manifest target = Inl (OSError (ba_nm args))"
proof -
  have ok: "list_all br_success rows" and "rows \<noteq> []" using assms(2) by (simp_all add: archived_def all_built_def)
  then have "objects_of rows = map row_object rows"
    using target_rows_object [OF rows] objects_of_rows [OF ok] by (simp add: objects_of_def list_all_iff)
  with \<open>rows \<noteq> []\<close> assms show ?thesis by (cases rows) (simp_all add: run_target_def check_symbol_graph_def nm_run_def)
qed

text \<open>With \<^verbatim>\<open>nm\<close> failing on an object, \<^verbatim>\<open>--require-closure\<close> asks for nothing.\<close>

lemma closure_without_nm:
  "report_of t (args \<lparr> ba_require_closure := True \<rparr>) manifest target rows (NmUnavailable obj) =
   report_of t (args \<lparr> ba_require_closure := False \<rparr>) manifest target rows (NmUnavailable obj)"
  by (simp add: report_of_def archived_def audited_def unresolved_of_def group_names_of_def target_archive_def target_dir_def)

section \<open>A build\<close>

definition demo_manifest :: build_manifest where
  "demo_manifest = \<lparr> bm_source_root = ''rt'', bm_groups = [(''integer'', [''mul.c'', ''div.c'']), (''support'', [''clz.c''])],
     bm_targets = [(''x86_64'', \<lparr> tc_triple = ''x86_64-unknown-linux-gnu'', tc_minic_target = ''x86_64-linux'', tc_minic_flags = [],
       tc_clang_flags = [], tc_primitives = [] \<rparr>)],
     bm_fallbacks = [\<lparr> fp_target = ''x86_64'', fp_sources = [''div.c''], fp_groups = [], fp_undefine = ''__x86_64__'' \<rparr>] \<rparr>"

definition demo_build_args :: build_args where
  "demo_build_args = \<lparr> ba_print_sources = False, ba_backend = ''minic'', ba_targets = ''all'', ba_groups = ''all'', ba_minic = ''cc'',
     ba_clang = ''clang'', ba_ar = ''ar'', ba_nm = ''nm'', ba_gcc = ''gcc'', ba_jobs = 4, ba_no_primitives = False,
     ba_require_closure = True, ba_build_dir = ''b'' \<rparr>"

definition demo_tools :: build_tools where
  "demo_tools = \<lparr> bt_execute = (\<lambda>argv log. argv \<noteq> []), bt_is_file = (\<lambda>file. file \<noteq> []), bt_exists = (\<lambda>file. file = ''cc''),
     bt_which = (\<lambda>program. False),
     bt_nm = (\<lambda>argv. Some (0, if length argv = 3 then (if last argv = ''b/minic/x86_64/objects/div.o'' then ''  U clz'' else [])
        else if last argv = ''b/minic/x86_64/objects/clz.o'' then ''0 T clz'' else ''0 T f'')),
     bt_audit = (\<lambda>argv. 0) \<rparr>"

definition demo_build :: "py_error + build_outcome" where
  "demo_build = build_main demo_tools (\<lambda>names. names) demo_build_args demo_manifest"

lemma demo_build_passes: "\<exists>out. demo_build = Inr out \<and> bo_status out = 0 \<and> length (bo_reports out) = 1"
proof -
  have "(case demo_build of Inr out \<Rightarrow> bo_status out = 0 \<and> length (bo_reports out) = 1 | Inl e \<Rightarrow> False)"
    by code_simp
  then show ?thesis by (auto split: sum.splits)
qed

theorem complete_build_witness:
  "\<exists>r. (\<exists>out. demo_build = Inr out \<and> bo_reports out = [r]) \<and> tg_target r = ''x86_64'' \<and> good_report demo_tools demo_build_args demo_manifest r"
proof -
  obtain out where out: "demo_build = Inr out" "bo_status out = 0" "length (bo_reports out) = 1"
    using demo_build_passes by auto
  then obtain r where r: "bo_reports out = [r]" by (cases "bo_reports out") auto
  have "targets_of demo_build_args demo_manifest = [''x86_64'']" by code_simp
  moreover have "\<not> ba_print_sources demo_build_args" by (simp add: demo_build_args_def)
  ultimately show ?thesis
    using complete_build [of demo_tools "\<lambda>names. names" demo_build_args demo_manifest out] out r
    by (auto simp: demo_build_def settled_def)
qed


end
