(* ===== verification/OriginAudit.thy ===== *)
theory OriginAudit
  imports CensusScan Json TextLines
begin

text \<open>
  \<^verbatim>\<open>tools/ci/audit-rv64i-asm-origin.py\<close>: the audit of compiled assembly that tells instructions of the compiler from those of
  the user's inline assembly, by markers the compiler prints, and asks the former to be RV64I.
  \<^verbatim>\<open>inspect\<close> is the fast scanner over the bytes of a file, \<^verbatim>\<open>inspect_reference\<close> the line by line one.  Bytes and
  characters are both characters; the UTF-8 decoder is the argument \<open>decode\<close>.  The files below the root are a
  list of paths and contents.

  Shown here: the tables of opcodes and of instruction classes agree; the incremental line numbers of the
  findings are those of a scan from the start; what a passing audit guarantees; and where the fast
  scanner agrees with the reference.
\<close>

section \<open>Instruction classes\<close>

definition BASE_I :: "string list" where
  [py_defs]: "BASE_I = [
     ''add'', ''addi'', ''addiw'', ''addw'', ''and'', ''andi'', ''auipc'',
     ''beq'', ''bge'', ''bgeu'', ''blt'', ''bltu'', ''bne'', ''ebreak'', ''ecall'', ''fence'', ''jal'', ''jalr'',
     ''lb'', ''lbu'', ''ld'', ''lh'', ''lhu'', ''lui'', ''lw'', ''lwu'', ''or'', ''ori'', ''sb'', ''sd'', ''sh'', ''sll'', ''slli'', ''slliw'',
     ''sllw'', ''slt'', ''slti'', ''sltiu'', ''sltu'', ''sra'', ''srai'', ''sraiw'', ''sraw'',
     ''srl'', ''srli'', ''srliw'', ''srlw'', ''sub'', ''subw'', ''sw'', ''xor'', ''xori'',
     ''beqz'', ''bgez'', ''bgt'', ''bgtu'', ''bgtz'', ''ble'', ''bleu'', ''blez'', ''bltz'', ''bnez'',
     ''call'', ''j'', ''jr'', ''la'', ''lla'', ''li'', ''mv'', ''neg'', ''negw'', ''nop'', ''not'', ''ret'', ''seqz'',
     ''sext.b'', ''sext.h'', ''sext.w'', ''sgtz'', ''sltz'', ''snez'', ''tail'', ''zext.b'', ''zext.h'', ''zext.w'']"

definition M_OPS :: "string list" where
  [py_defs]: "M_OPS = [''mul'', ''mulh'', ''mulhu'', ''mulhsu'', ''mulw'', ''div'', ''divu'', ''divw'', ''divuw'', ''rem'', ''remu'', ''remw'', ''remuw'']"

definition ZICSR :: "string list" where
  [py_defs]: "ZICSR = [''csrrw'', ''csrrs'', ''csrrc'', ''csrrwi'', ''csrrsi'', ''csrrci'', ''csrr'', ''csrw'', ''csrs'', ''csrc'', ''csrwi'', ''csrsi'',
     ''csrci'', ''rdcycle'', ''rdtime'', ''rdinstret'']"

definition ESCAPE :: "string list" where
  [py_defs]: "ESCAPE = [''.insn'', ''.byte'', ''.2byte'', ''.4byte'', ''.8byte'', ''.word'', ''.long'', ''.short'', ''.quad'', ''.fill'',
     ''.macro'', ''.endm'', ''.rept'', ''.irp'', ''.irpc'', ''.include'', ''.incbin'', ''.option'', ''.attribute'',
     ''.pushsection'', ''.section'', ''.popsection'', ''.subsection'']"

text \<open>\<^verbatim>\<open>s.lower()\<close> on code points below 256.\<close>

definition lower_char :: "char \<Rightarrow> char" where
  [py_defs]: "lower_char c = (let n = (of_char c :: nat) in
     if 65 \<le> n \<and> n \<le> 90 \<or> (192 \<le> n \<and> n \<le> 222 \<and> n \<noteq> 215) then char_of (n + 32) else c)"

definition lower :: "string \<Rightarrow> string" where
  [py_defs]: "lower s = map lower_char s"

definition isa :: "string \<Rightarrow> string" where
  [py_defs]: "isa name =
     (let op = lower name in
      if op \<in> set BASE_I then ''I''
      else if op \<in> set M_OPS then ''M''
      else if startswith op ''amo'' \<or> startswith op ''lr.'' \<or> startswith op ''sc.'' then ''A''
      else if op \<in> set ZICSR then ''Zicsr''
      else if op = ''fence.i'' then ''Zifencei''
      else if startswith op ''c.'' then ''C''
      else if startswith op ''f'' \<or> op \<in> set [''fld'', ''fsd'', ''flw'', ''fsw''] then ''F/D''
      else ''UNKNOWN'')"

section \<open>Patterns\<close>

definition label_char :: "char \<Rightarrow> bool" where
  [py_defs]: "label_char c = (is_word c \<or> c = CHR ''.'' \<or> c = CHR ''$'')"

definition LABEL :: re where
  [py_defs]: "LABEL = RSeqs [RBol, RAlt (RPlus (RSet label_char)) (RPlus (RSet is_digit)), RSet (\<lambda>c. c = CHR '':''), RStar (RSet is_ws)]"

definition op_start :: "char \<Rightarrow> bool" where
  [py_defs]: "op_start c = (is_alpha c \<or> c = CHR ''_'' \<or> c = CHR ''.'')"

definition op_char :: "char \<Rightarrow> bool" where
  [py_defs]: "op_char c = (is_alpha c \<or> is_digit c \<or> c = CHR ''_'' \<or> c = CHR ''.'')"

definition MNEMONIC :: re where
  [py_defs]: "MNEMONIC = RSeqs [RBol, RGroup 1 (RSeq (RSet op_start) (RStar (RSet op_char))), RBound]"

definition MARKER :: re where
  [py_defs]: "MARKER = RSeqs [RBol, RLit ''# MINIC_RV64I_ASM_'', RGroup 1 (RAlt (RLit ''BEGIN'') (RLit ''END'')), REol]"

definition blank :: "char \<Rightarrow> bool" where
  [py_defs]: "blank c = (c = CHR '' '' \<or> c = CHR 0x09)"

definition event_label_char :: "char \<Rightarrow> bool" where
  [py_defs]: "event_label_char c = (op_char c \<or> c = CHR ''$'')"

text \<open>\<^verbatim>\<open>(?m)^\<close>, \<^verbatim>\<open>$\<close> and \<^verbatim>\<open>(?=[ \t]|$)\<close> with the multi-line flag: what stands before or after is a line feed or the end.\<close>

definition EVENT_MARKER :: re where
  [py_defs]: "EVENT_MARKER = RSeqs [RLit ''# MINIC_RV64I_ASM_'', RGroup 1 (RAlt (RLit ''BEGIN'') (RLit ''END'')), RStar (RSet blank),
     RNotAhead (\<lambda>c. c \<noteq> CHR 0x0A)]"

definition EVENT_LABEL :: re where
  [py_defs]: "EVENT_LABEL = RSeqs [RPlus (RSet event_label_char), RSet (\<lambda>c. c = CHR '':''), RStar (RSet blank)]"

definition EVENT_WORD :: re where
  [py_defs]: "EVENT_WORD = RSeq (RGroup 2 (RSeq (RSet op_start) (RStar (RSet op_char)))) (RNotAhead (\<lambda>c. \<not> blank c \<and> c \<noteq> CHR 0x0A))"

definition ASM_EVENT :: re where
  [py_defs]: "ASM_EVENT = RSeqs [RNotBehind (\<lambda>c. c \<noteq> CHR 0x0A), RStar (RSet blank), RAlt EVENT_MARKER (RSeq (RStar EVENT_LABEL) EVENT_WORD)]"

section \<open>The state of a scan\<close>

datatype origin = Compiler | Inline

definition origin_name :: "origin \<Rightarrow> string" where
  [py_defs]: "origin_name r = (case r of Compiler \<Rightarrow> ''compiler'' | Inline \<Rightarrow> ''inline'')"

record finding =
  fi_line :: int
  fi_origin :: "origin option"
  fi_kind :: string
  fi_opcode :: "string option"
  fi_isa :: "string option"
  fi_text :: "string option"

definition finding_of :: "origin option \<Rightarrow> string \<Rightarrow> string option \<Rightarrow> string option \<Rightarrow> string option \<Rightarrow> finding" where
  [py_defs]: "finding_of r kind op cls text =
     \<lparr> fi_line = 0, fi_origin = r, fi_kind = kind, fi_opcode = op, fi_isa = cls, fi_text = text \<rparr>"

record tally =
  au_compiler :: "(string \<times> int) list"
  au_inline :: "(string \<times> int) list"
  au_findings :: "finding list"
  au_in_asm :: bool
  au_origins :: int
  au_marker_errors :: int
  au_directives :: int

definition region_of :: "'a tally_scheme \<Rightarrow> origin" where
  [py_defs]: "region_of s = (if au_in_asm s then Inline else Compiler)"

definition count_kind :: "origin \<Rightarrow> string \<Rightarrow> 'a tally_scheme \<Rightarrow> 'a tally_scheme" where
  [py_defs]: "count_kind r kind s =
     (case r of Compiler \<Rightarrow> s\<lparr>au_compiler := bump kind 1 (au_compiler s)\<rparr>
              | Inline \<Rightarrow> s\<lparr>au_inline := bump kind 1 (au_inline s)\<rparr>)"

definition suspicious :: "origin \<Rightarrow> string \<Rightarrow> bool" where
  [py_defs]: "suspicious r kind = (r = Compiler \<and> kind \<noteq> ''I'' \<or> kind = ''UNKNOWN'')"

text \<open>Leading labels: \<^verbatim>\<open>while text: label = LABEL.match(text) ...\<close>.\<close>

lemma strip_length: "length (strip s) \<le> length s"
  by (simp add: strip_def lstrip_def rstrip_def) (metis length_dropWhile_le length_rev le_trans)

function drop_labels :: "string \<Rightarrow> string" where
  "drop_labels text =
     (if text = [] then []
      else case re_match LABEL text of
        None \<Rightarrow> text
      | Some m \<Rightarrow> drop_labels (strip (drop (rm_end m) text)))"
  by pat_completeness auto

termination
proof (relation "measure length")
  fix tx m assume "re_match LABEL tx = Some m"
  from re_match_shrinks [OF this] have "length (drop (rm_end m) tx) < length tx"
    by (simp add: LABEL_def RPlus_def)
  then show "(strip (drop (rm_end m) tx), tx) \<in> measure length"
    using strip_length [of "drop (rm_end m) tx"] by simp
qed simp

declare drop_labels.simps [simp del]

definition before_hash :: "string \<Rightarrow> string" where
  [py_defs]: "before_hash s = (case split1 CHR ''#'' s of None \<Rightarrow> s | Some (a, b) \<Rightarrow> a)"

section \<open>The reference scanner\<close>

record audit_row =
  ar_file :: string
  ar_compiler :: "(string \<times> int) list"
  ar_inline :: "(string \<times> int) list"
  ar_inline_regions :: int
  ar_marker_errors :: int
  ar_directives :: int
  ar_compiler_non_i :: int
  ar_findings :: "finding list"

definition non_i :: "(string \<times> int) list \<Rightarrow> int" where
  [py_defs]: "non_i counter = sum_list (map snd (filter (\<lambda>(k, n). k \<noteq> ''I'') counter))"

definition add_finding :: "int \<Rightarrow> finding \<Rightarrow> tally \<Rightarrow> tally" where
  [py_defs]: "add_finding lineno f s = s\<lparr>au_findings := au_findings s @ [f\<lparr>fi_line := lineno\<rparr>]\<rparr>"

definition marker_error :: "'a tally_scheme \<Rightarrow> 'a tally_scheme" where
  [py_defs]: "marker_error s = s\<lparr>au_marker_errors := au_marker_errors s + 1\<rparr>"

definition enter_asm :: "'a tally_scheme \<Rightarrow> 'a tally_scheme" where
  [py_defs]: "enter_asm s = s\<lparr>au_in_asm := True, au_origins := au_origins s + 1\<rparr>"

definition leave_asm :: "'a tally_scheme \<Rightarrow> 'a tally_scheme" where
  [py_defs]: "leave_asm s = s\<lparr>au_in_asm := False\<rparr>"

definition ref_marker :: "int \<Rightarrow> string \<Rightarrow> tally \<Rightarrow> tally" where
  [py_defs]: "ref_marker lineno word s =
     (if word = ''BEGIN''
      then if au_in_asm s then add_finding lineno (finding_of None ''NESTED_MARKER'' None None None) (marker_error s) else enter_asm s
      else if \<not> au_in_asm s then add_finding lineno (finding_of None ''UNPAIRED_END'' None None None) (marker_error s)
      else leave_asm s)"

definition ref_statement :: "int \<Rightarrow> origin \<Rightarrow> tally \<Rightarrow> string \<Rightarrow> tally" where
  [py_defs]: "ref_statement lineno r s part =
     (let statement = strip part in
      if statement = [] then s
      else case re_match MNEMONIC statement of
        None \<Rightarrow> marker_error (add_finding lineno (finding_of (Some r) ''UNPARSED'' None None (Some (take 96 statement))) s)
      | Some m \<Rightarrow>
          let op = lower (group m 1) in
          if startswith op ''.''
          then if op \<in> set ESCAPE
               then add_finding lineno (finding_of (Some r) ''UNVERIFIED_DIRECTIVE'' (Some op) None None)
                      (s\<lparr>au_directives := au_directives s + 1\<rparr>)
               else s
          else let kind = isa op; s' = count_kind r kind s in
            if suspicious r kind then add_finding lineno (finding_of (Some r) ''NON_I_OR_UNKNOWN'' (Some op) (Some kind) None) s'
            else s')"

definition ref_line :: "tally \<Rightarrow> int \<times> string \<Rightarrow> tally" where
  [py_defs]: "ref_line s line = (case line of (lineno, raw) \<Rightarrow>
     (case re_fullmatch MARKER (strip raw) of
        Some m \<Rightarrow> ref_marker lineno (group m 1) s
      | None \<Rightarrow>
          if contains ''MINIC_RV64I_ASM_BEGIN'' raw \<or> contains ''MINIC_RV64I_ASM_END'' raw
          then add_finding lineno (finding_of None ''MALFORMED_MARKER'' None None None) (marker_error s)
          else foldl (ref_statement lineno (region_of s)) s (split_char CHR '';'' (drop_labels (strip (before_hash raw))))))"

definition empty_tally :: tally where
  [py_defs]: "empty_tally = \<lparr> au_compiler = [], au_inline = [], au_findings = [], au_in_asm = False, au_origins = 0,
     au_marker_errors = 0, au_directives = 0 \<rparr>"

definition row_of :: "string \<Rightarrow> 'a tally_scheme \<Rightarrow> audit_row" where
  [py_defs]: "row_of path s = \<lparr> ar_file = path, ar_compiler = au_compiler s, ar_inline = au_inline s, ar_inline_regions = au_origins s,
     ar_marker_errors = au_marker_errors s, ar_directives = au_directives s, ar_compiler_non_i = non_i (au_compiler s),
     ar_findings = au_findings s \<rparr>"

definition inspect_reference :: "(string \<Rightarrow> string) \<Rightarrow> string \<Rightarrow> string \<Rightarrow> audit_row" where
  [py_defs]: "inspect_reference decode path data =
     (let ls = file_lines (decode data); s = foldl ref_line empty_tally (enumerate1 ls) in
      row_of path (if au_in_asm s then add_finding (int (length ls)) (finding_of None ''UNCLOSED_ASM'' None None None) (marker_error s) else s))"

section \<open>The fast scanner\<close>

record audit_state = tally +
  au_compiler_ops :: "(string \<times> int) list"
  au_inline_ops :: "(string \<times> int) list"
  au_seen_begin :: int
  au_seen_end :: int
  au_report_pos :: nat
  au_report_line :: int

definition count_op :: "origin \<Rightarrow> string \<Rightarrow> audit_state \<Rightarrow> audit_state" where
  [py_defs]: "count_op r op s =
     (case r of Compiler \<Rightarrow> s\<lparr>au_compiler_ops := bump op 1 (au_compiler_ops s)\<rparr>
              | Inline \<Rightarrow> s\<lparr>au_inline_ops := bump op 1 (au_inline_ops s)\<rparr>)"

definition line_feeds :: "string \<Rightarrow> int" where
  [py_defs]: "line_feeds s = int (length (filter (\<lambda>c. c = CHR 0x0A) s))"

text \<open>\<^verbatim>\<open>record\<close>: at most 200 findings, with the line number counted on from the previous finding.\<close>

definition record_finding :: "string \<Rightarrow> nat \<Rightarrow> finding \<Rightarrow> audit_state \<Rightarrow> audit_state" where
  [py_defs]: "record_finding data pos f s =
     (if 200 \<le> length (au_findings s) then s
      else
        let s' = (if pos < au_report_pos s then s\<lparr>au_report_pos := 0, au_report_line := 1\<rparr> else s);
            line = au_report_line s' + line_feeds (take (pos - au_report_pos s') (drop (au_report_pos s') data))
        in s'\<lparr>au_report_line := line, au_report_pos := pos, au_findings := au_findings s' @ [f\<lparr>fi_line := line\<rparr>]\<rparr>)"

type_synonym recorder = "nat \<Rightarrow> finding \<Rightarrow> audit_state \<Rightarrow> audit_state"

text \<open>The scanner takes \<^verbatim>\<open>record\<close> as an argument, like the closure of the source.\<close>

definition classify :: "recorder \<Rightarrow> origin \<Rightarrow> nat \<Rightarrow> string \<Rightarrow> audit_state \<Rightarrow> audit_state" where
  [py_defs]: "classify jot r pos word s =
     (let op = lower word in
      if startswith op ''.''
      then if op \<in> set ESCAPE
           then jot pos (finding_of (Some r) ''UNVERIFIED_DIRECTIVE'' (Some op) None None) (s\<lparr>au_directives := au_directives s + 1\<rparr>)
           else s
      else let kind = isa op; s' = count_kind r kind (count_op r op s) in
        if suspicious r kind then jot pos (finding_of (Some r) ''NON_I_OR_UNKNOWN'' (Some op) (Some kind) None) s' else s')"

definition audit_marker :: "recorder \<Rightarrow> nat \<Rightarrow> string \<Rightarrow> audit_state \<Rightarrow> audit_state" where
  [py_defs]: "audit_marker jot pos word s0 =
     (if word = ''BEGIN''
      then let s = s0\<lparr>au_seen_begin := au_seen_begin s0 + 1\<rparr> in
        if au_in_asm s then jot pos (finding_of None ''NESTED_MARKER'' None None None) (marker_error s) else enter_asm s
      else let s = s0\<lparr>au_seen_end := au_seen_end s0 + 1\<rparr> in
        if \<not> au_in_asm s then jot pos (finding_of None ''UNPAIRED_END'' None None None) (marker_error s) else leave_asm s)"

text \<open>
  The statements after a semicolon on the line of an event: the mnemonic of each, or nothing for a text that has none.
\<close>

definition segment_op :: "(string \<Rightarrow> string) \<Rightarrow> string \<Rightarrow> string option option" where
  [py_defs]: "segment_op decode segment =
     (let text = drop_labels (strip (decode segment)) in
      if text = [] then None else Some (map_option (\<lambda>m. group m 1) (re_match MNEMONIC text)))"

definition later_ops :: "(string \<Rightarrow> string) \<Rightarrow> string \<Rightarrow> string option list" where
  [py_defs]: "later_ops decode rest =
     (let tail = takeWhile (\<lambda>c. c \<noteq> CHR 0x0A) rest in
      if CHR '';'' \<notin> set tail then []
      else List.map_filter (segment_op decode) (tl (split_char CHR '';'' (before_hash tail))))"

definition audit_segment :: "recorder \<Rightarrow> origin \<Rightarrow> nat \<Rightarrow> audit_state \<Rightarrow> string option \<Rightarrow> audit_state" where
  [py_defs]: "audit_segment jot r pos s op =
     (case op of
        None \<Rightarrow> jot pos (finding_of (Some r) ''UNPARSED_SEMICOLON'' None None None) (marker_error s)
      | Some word \<Rightarrow> classify jot r pos word s)"

text \<open>What one match of the event pattern stands for.\<close>

datatype asm_event = Marker string | Statements string "string option list"

definition event_of :: "(string \<Rightarrow> string) \<Rightarrow> re_match \<Rightarrow> asm_event" where
  [py_defs]: "event_of decode m =
     (case map_of (rm_groups m) 1 of
        Some word \<Rightarrow> Marker word
      | None \<Rightarrow> Statements (group m 2) (later_ops decode (rm_rest m)))"

definition audit_event :: "recorder \<Rightarrow> audit_state \<Rightarrow> nat \<times> asm_event \<Rightarrow> audit_state" where
  [py_defs]: "audit_event jot s e =
     (case e of
        (pos, Marker word) \<Rightarrow> audit_marker jot pos word s
      | (pos, Statements word ops) \<Rightarrow>
          let r = region_of s in foldl (audit_segment jot r pos) (classify jot r pos word s) ops)"

definition events :: "(string \<Rightarrow> string) \<Rightarrow> string \<Rightarrow> (nat \<times> asm_event) list" where
  [py_defs]: "events decode data = map (\<lambda>m. (rm_start m, event_of decode m)) (finditer ASM_EVENT data)"

text \<open>\<^verbatim>\<open>data.count(marker)\<close>: occurrences that do not overlap.\<close>

fun count_sub :: "nat \<Rightarrow> string \<Rightarrow> string \<Rightarrow> int" where
  "count_sub fuel p [] = 0"
| "count_sub 0 p (c # s) = 0"
| "count_sub (Suc fuel) p (c # s) =
     (if startswith (c # s) p then 1 + count_sub fuel p (drop (length p) (c # s)) else count_sub fuel p s)"

definition occurrences_of :: "string \<Rightarrow> string \<Rightarrow> int" where
  [py_defs]: "occurrences_of p s = count_sub (length s) p s"

definition empty_audit :: audit_state where
  [py_defs]: "empty_audit = \<lparr> au_compiler = [], au_inline = [], au_findings = [], au_in_asm = False, au_origins = 0,
     au_marker_errors = 0, au_directives = 0, au_compiler_ops = [], au_inline_ops = [], au_seen_begin = 0, au_seen_end = 0,
     au_report_pos = 0, au_report_line = 1 \<rparr>"

definition check_markers :: "recorder \<Rightarrow> string \<Rightarrow> audit_state \<Rightarrow> string \<times> (audit_state \<Rightarrow> int) \<Rightarrow> audit_state" where
  [py_defs]: "check_markers jot data s m = (case m of (marker, seen) \<Rightarrow>
     if occurrences_of marker data \<noteq> seen s
     then jot 0 (finding_of None ''MALFORMED_MARKER'' None None None) (marker_error s) else s)"

definition scan_with :: "recorder \<Rightarrow> (string \<Rightarrow> string) \<Rightarrow> string \<Rightarrow> audit_state" where
  [py_defs]: "scan_with jot decode data =
     (let s = foldl (audit_event jot) empty_audit (events decode data);
          s1 = foldl (check_markers jot data) s
                 [(''MINIC_RV64I_ASM_BEGIN'', au_seen_begin), (''MINIC_RV64I_ASM_END'', au_seen_end)]
      in if au_in_asm s1 then jot (length data) (finding_of None ''UNCLOSED_ASM'' None None None) (marker_error s1) else s1)"

record fast_row = audit_row +
  ar_compiler_ops :: "(string \<times> int) list"
  ar_inline_ops :: "(string \<times> int) list"

definition fast_row_of :: "string \<Rightarrow> audit_state \<Rightarrow> fast_row" where
  [py_defs]: "fast_row_of path s = audit_row.extend (row_of path s)
     \<lparr> ar_compiler_ops = sort_key fst (au_compiler_ops s), ar_inline_ops = sort_key fst (au_inline_ops s) \<rparr>"

definition inspect :: "(string \<Rightarrow> string) \<Rightarrow> string \<Rightarrow> string \<Rightarrow> fast_row" where
  [py_defs]: "inspect decode path data = fast_row_of path (scan_with (record_finding data) decode data)"


section \<open>The command\<close>

record audit_args =
  aa_root :: string
  aa_json_out :: string
  aa_batch_results :: "json list option"
  aa_expected_files :: "int option"
  aa_require_markers :: bool
  aa_fail_on_compiler_non_i :: bool
  aa_opcode_tsv_out :: bool

definition audit_paths :: "(string list \<times> string) list \<Rightarrow> (string list \<times> string) list" where
  [py_defs]: "audit_paths files = sort_key fst (filter (\<lambda>(parts, content). parts \<noteq> [] \<and> endswith (last parts) ''.s'') files)"

definition path_text :: "string \<Rightarrow> string list \<Rightarrow> string" where
  [py_defs]: "path_text root parts = join ''/'' (root # parts)"

definition totals_of :: "('r \<Rightarrow> (string \<times> int) list) \<Rightarrow> 'r list \<Rightarrow> (string \<times> int) list" where
  [py_defs]: "totals_of f rows = foldl (\<lambda>acc row. counter_update acc (f row)) [] rows"

definition batch_status :: "json \<Rightarrow> py_error + bool" where
  [py_defs]: "batch_status row =
     bindE (of_option (TypeError ''string indices must be integers'') (as_dict row)) (\<lambda>d.
     bindE (jitem d ''status'') (\<lambda>v. Inr (v = JStr ''PASS'')))"

definition batch_passes :: "json list \<Rightarrow> py_error + int" where
  [py_defs]: "batch_passes batch = bindE (mapE batch_status batch) (\<lambda>oks. Inr (int (length (filter (\<lambda>b. b) oks))))"

definition located :: "fast_row list \<Rightarrow> (string \<times> finding) list" where
  [py_defs]: "located rows = concat (map (\<lambda>row. map (\<lambda>f. (ar_file row, f)) (ar_findings row)) rows)"

record audit_summary =
  as_files :: int
  as_selected :: "int option"
  as_compile_pass :: "int option"
  as_incomplete :: bool
  as_inline_regions :: int
  as_compiler :: "(string \<times> int) list"
  as_inline :: "(string \<times> int) list"
  as_compiler_ops :: "(string \<times> int) list"
  as_inline_ops :: "(string \<times> int) list"
  as_compiler_non_i :: int
  as_marker_errors :: int
  as_directives :: int
  as_files_with_non_i :: int
  as_findings :: "(string \<times> finding) list"

definition summary_of :: "fast_row list \<Rightarrow> (int \<times> int) option \<Rightarrow> audit_summary" where
  [py_defs]: "summary_of rows batch =
     \<lparr> as_files = int (length rows), as_selected = map_option fst batch, as_compile_pass = map_option snd batch,
       as_incomplete = (case batch of None \<Rightarrow> False | Some (selected, successful) \<Rightarrow> int (length rows) \<noteq> successful),
       as_inline_regions = sum_list (map ar_inline_regions rows),
       as_compiler = sort_key fst (totals_of ar_compiler rows), as_inline = sort_key fst (totals_of ar_inline rows),
       as_compiler_ops = sort_key fst (totals_of ar_compiler_ops rows), as_inline_ops = sort_key fst (totals_of ar_inline_ops rows),
       as_compiler_non_i = non_i (totals_of ar_compiler rows),
       as_marker_errors = sum_list (map ar_marker_errors rows), as_directives = sum_list (map ar_directives rows),
       as_files_with_non_i = int (length (filter (\<lambda>row. ar_compiler_non_i row > 0) rows)),
       as_findings = take 200 (sort_key (\<lambda>(file, f). (file, fi_line f)) (located rows)) \<rparr>"

definition audit_passed :: "audit_args \<Rightarrow> audit_summary \<Rightarrow> bool" where
  [py_defs]: "audit_passed args s =
     (as_marker_errors s = 0 \<and>
      (case aa_expected_files args of None \<Rightarrow> True | Some n \<Rightarrow> as_files s = n) \<and>
      (aa_require_markers args \<longrightarrow> as_inline_regions s > 0) \<and>
      (aa_fail_on_compiler_non_i args \<longrightarrow> as_compiler_non_i s = 0))"

text \<open>The reports.\<close>

definition json_counter :: "(string \<times> int) list \<Rightarrow> json" where
  [py_defs]: "json_counter c = JObj (map (\<lambda>(k, n). (k, JInt n)) c)"

definition json_of_finding :: "finding \<Rightarrow> (string \<times> json) list" where
  [py_defs]: "json_of_finding f =
     [(''line'', JInt (fi_line f))] @
     (case fi_origin f of None \<Rightarrow> [] | Some r \<Rightarrow> [(''origin'', JStr (origin_name r))]) @
     [(''kind'', JStr (fi_kind f))] @
     (case fi_opcode f of None \<Rightarrow> [] | Some op \<Rightarrow> [(''opcode'', JStr op)]) @
     (case fi_isa f of None \<Rightarrow> [] | Some cls \<Rightarrow> [(''isa'', JStr cls)]) @
     (case fi_text f of None \<Rightarrow> [] | Some t \<Rightarrow> [(''text'', JStr t)])"

definition json_of_located :: "string \<times> finding \<Rightarrow> json" where
  [py_defs]: "json_of_located lf = JObj (json_of_finding (snd lf) @ [(''file'', JStr (fst lf))])"

definition json_of_row :: "fast_row \<Rightarrow> json" where
  [py_defs]: "json_of_row row = JObj
     [(''file'', JStr (ar_file row)), (''compiler'', json_counter (ar_compiler row)), (''inline'', json_counter (ar_inline row)),
      (''opcode_counts'', JObj [(''compiler'', json_counter (ar_compiler_ops row)), (''inline'', json_counter (ar_inline_ops row))]),
      (''inline_regions'', JInt (ar_inline_regions row)), (''marker_errors'', JInt (ar_marker_errors row)),
      (''unverified_directives'', JInt (ar_directives row)), (''compiler_non_i'', JInt (ar_compiler_non_i row)),
      (''findings'', JList (map (\<lambda>f. JObj (json_of_finding f)) (ar_findings row)))]"

definition json_of_summary :: "audit_summary \<Rightarrow> json" where
  [py_defs]: "json_of_summary s = JObj
     [(''files'', JInt (as_files s)), (''selected'', json_of_option JInt (as_selected s)),
      (''compile_pass'', json_of_option JInt (as_compile_pass s)), (''incomplete'', JBool (as_incomplete s)),
      (''inline_regions'', JInt (as_inline_regions s)), (''compiler'', json_counter (as_compiler s)),
      (''inline'', json_counter (as_inline s)),
      (''opcode_counts'', JObj [(''compiler'', json_counter (as_compiler_ops s)), (''inline'', json_counter (as_inline_ops s))]),
      (''compiler_non_i'', JInt (as_compiler_non_i s)), (''marker_errors'', JInt (as_marker_errors s)),
      (''unverified_directives'', JInt (as_directives s)), (''files_with_compiler_non_i'', JInt (as_files_with_non_i s)),
      (''findings'', JList (map json_of_located (as_findings s)))]"

definition tsv_rows :: "origin \<Rightarrow> (string \<times> int) list \<Rightarrow> string" where
  [py_defs]: "tsv_rows r ops = concat (map (\<lambda>(op, n). join [CHR 0x09] [origin_name r, op, isa op, str_int n] @ ''\<newline>'')
     (sort_key (\<lambda>(op, n). (- n, op)) ops))"

definition opcode_tsv :: "fast_row list \<Rightarrow> string" where
  [py_defs]: "opcode_tsv rows = join [CHR 0x09] [''origin'', ''opcode'', ''isa'', ''count''] @ ''\<newline>'' @
     tsv_rows Compiler (totals_of ar_compiler_ops rows) @ tsv_rows Inline (totals_of ar_inline_ops rows)"

definition top_line :: "origin \<Rightarrow> (string \<times> int) list \<Rightarrow> string" where
  [py_defs]: "top_line r ops = ''RV64I_OPCODE_TOP origin='' @ origin_name r @ '' '' @
     join '' '' (map (\<lambda>(op, n). op @ '':'' @ str_int n) (take 20 (sort_key (\<lambda>(op, n). - n) ops)))"

definition opt_int :: "int option \<Rightarrow> string" where
  [py_defs]: "opt_int x = (case x of None \<Rightarrow> ''None'' | Some n \<Rightarrow> str_int n)"

definition audit_line :: "audit_args \<Rightarrow> audit_summary \<Rightarrow> string" where
  [py_defs]: "audit_line args s =
     ''RV64I_ORIGIN_AUDIT='' @ (if audit_passed args s then ''PASS'' else ''FAIL'') @ '' files='' @ str_int (as_files s) @
     '' selected='' @ opt_int (as_selected s) @ '' compile_pass='' @ opt_int (as_compile_pass s) @
     '' compiler_I='' @ str_int (count_of (as_compiler s) ''I'') @ '' compiler_non_I='' @ str_int (as_compiler_non_i s) @
     '' asm_regions='' @ str_int (as_inline_regions s) @ '' asm_M='' @ str_int (count_of (as_inline s) ''M'') @
     '' asm_A='' @ str_int (count_of (as_inline s) ''A'') @ '' asm_Zicsr='' @ str_int (count_of (as_inline s) ''Zicsr'') @
     '' asm_Zifencei='' @ str_int (count_of (as_inline s) ''Zifencei'') @ '' unknown='' @ str_int (count_of (as_inline s) ''UNKNOWN'') @
     '' asm_escapes='' @ str_int (as_directives s) @ '' marker_errors='' @ str_int (as_marker_errors s) @ '' report='' @ aa_json_out args"

record audit_outcome =
  ao_stdout :: "string list"
  ao_findings :: "json list"
  ao_coverage :: "string list"
  ao_json :: "json option"
  ao_tsv :: "string option"
  ao_status :: int

definition origin_audit :: "(string \<Rightarrow> string) \<Rightarrow> audit_args \<Rightarrow> (string list \<times> string) list \<Rightarrow> py_error + audit_outcome" where
  [py_defs]: "origin_audit decode args files =
     (let paths = audit_paths files in
      if paths = []
      then Inr \<lparr> ao_stdout = [], ao_findings = [], ao_coverage = [''RV64I_ORIGIN_AUDIT=FAIL no MiniC .s outputs''], ao_json = None,
                 ao_tsv = None, ao_status = 2 \<rparr>
      else
        let rows = map (\<lambda>(parts, content). inspect decode (path_text (aa_root args) parts) content) paths in
        bindE (case aa_batch_results args of None \<Rightarrow> Inr None
               | Some batch \<Rightarrow> bindE (batch_passes batch) (\<lambda>n. Inr (Some (int (length batch), n)))) (\<lambda>batch.
        let s = summary_of rows batch in
        Inr \<lparr> ao_stdout = [top_line Compiler (totals_of ar_compiler_ops rows), top_line Inline (totals_of ar_inline_ops rows), audit_line args s],
              ao_findings = map json_of_located (take 25 (as_findings s)),
              ao_coverage = (if as_incomplete s then [''RV64I_ORIGIN_COVERAGE=INCOMPLETE compiled='' @ opt_int (as_compile_pass s) @
                 '' selected='' @ opt_int (as_selected s)] else []),
              ao_json = Some (JObj [(''summary'', json_of_summary s), (''files'', JList (map json_of_row rows))]),
              ao_tsv = (if aa_opcode_tsv_out args then Some (opcode_tsv rows) else None),
              ao_status = (if audit_passed args s then 0 else 1) \<rparr>))"


section \<open>Counters\<close>

lemma sum_filter_bump:
  assumes "distinct (keys d)"
  shows "sum_list (map snd (filter (\<lambda>x. P (fst x)) (bump k n d))) = sum_list (map snd (filter (\<lambda>x. P (fst x)) d)) + (if P k then n else 0)"
proof -
  have "sum_list (map snd (filter (\<lambda>x. P (fst x)) (AList.update k (c + n) d))) =
      sum_list (map snd (filter (\<lambda>x. P (fst x)) d)) + (if P k then n else 0)" if "c = count_of d k" for c
    using assms that
  proof (induction d)
    case (Cons x d)
    obtain k' v where x: "x = (k', v)" by (cases x)
    show ?case
    proof (cases "k' = k")
      case True
      with Cons.prems x show ?thesis by (simp add: count_of_def)
    next
      case False
      with Cons x show ?thesis by (simp add: count_of_def)
    qed
  qed (simp add: count_of_def)
  then show ?thesis by (simp add: bump_def)
qed

lemma count_of_filter: "distinct (keys d) \<Longrightarrow> count_of d k = sum_list (map snd (filter (\<lambda>x. fst x = k) d))"
proof (induction d)
  case (Cons x d)
  have "filter (\<lambda>y. fst y = fst x) d = []" using Cons.prems by (auto simp: filter_empty_conv rev_image_eqI)
  with Cons show ?case by (cases x) (auto simp: count_of_def)
qed (simp add: count_of_def)

section \<open>The interface of the recorder\<close>

text \<open>Recording a finding changes nothing but the list of findings and the position of the last one.\<close>

definition core :: "audit_state \<Rightarrow> audit_state" where
  "core s = s\<lparr>au_findings := [], au_report_pos := 0, au_report_line := 1\<rparr>"

lemma core_eq:
  "core s = core t \<longleftrightarrow>
   au_compiler s = au_compiler t \<and> au_inline s = au_inline t \<and> au_compiler_ops s = au_compiler_ops t \<and> au_inline_ops s = au_inline_ops t \<and>
   au_in_asm s = au_in_asm t \<and> au_origins s = au_origins t \<and> au_marker_errors s = au_marker_errors t \<and>
   au_directives s = au_directives t \<and> au_seen_begin s = au_seen_begin t \<and> au_seen_end s = au_seen_end t"
  by (cases s; cases t) (auto simp: core_def)

locale finding_recorder =
  fixes jot :: recorder
  assumes jot_core: "core (jot pos f s) = core s"
begin

lemma jot_fields [simp]:
  "au_compiler (jot pos f s) = au_compiler s" "au_inline (jot pos f s) = au_inline s"
  "au_compiler_ops (jot pos f s) = au_compiler_ops s" "au_inline_ops (jot pos f s) = au_inline_ops s"
  "au_in_asm (jot pos f s) = au_in_asm s" "au_origins (jot pos f s) = au_origins s"
  "au_marker_errors (jot pos f s) = au_marker_errors s" "au_directives (jot pos f s) = au_directives s"
  "au_seen_begin (jot pos f s) = au_seen_begin s" "au_seen_end (jot pos f s) = au_seen_end s"
  using jot_core [of pos f s] by (simp_all add: core_eq)

end

interpretation incremental: finding_recorder "record_finding data"
  by unfold_locales (simp add: record_finding_def core_def Let_def)


section \<open>The tables of classes and of opcodes\<close>

definition weight :: "(string \<Rightarrow> bool) \<Rightarrow> (string \<times> int) list \<Rightarrow> int" where
  "weight P d = sum_list (map snd (filter (\<lambda>x. P (fst x)) d))"

lemma weight_Nil [simp]: "weight P [] = 0"
  by (simp add: weight_def)

lemma weight_bump: "distinct (keys d) \<Longrightarrow> weight P (bump k n d) = weight P d + (if P k then n else 0)"
  by (simp add: weight_def sum_filter_bump)

lemma weight_count: "distinct (keys d) \<Longrightarrow> weight (\<lambda>k'. k' = k) d = count_of d k"
  by (simp add: weight_def count_of_filter)

lemma weight_non_i: "weight (\<lambda>k. k \<noteq> ''I'') d = non_i d"
  by (simp add: weight_def non_i_def case_prod_unfold)

lemma weight_sort [simp]: "weight P (sort_key f d) = weight P d"
proof -
  have "mset (map snd (filter (\<lambda>x. P (fst x)) (sort_key f d))) = mset (map snd (filter (\<lambda>x. P (fst x)) d))" by simp
  then show ?thesis unfolding weight_def by (metis sum_mset_sum_list)
qed

lemma keys_counter_update: "distinct (keys c) \<Longrightarrow> distinct (keys (counter_update c d))"
  unfolding counter_update_def by (induction d arbitrary: c) (auto simp: distinct_bump split: prod.splits)

lemma weight_counter_update: "distinct (keys c) \<Longrightarrow> weight P (counter_update c d) = weight P c + weight P d"
  unfolding counter_update_def
proof (induction d arbitrary: c)
  case (Cons x d)
  show ?case
    by (cases x) (simp add: Cons.IH [OF distinct_bump [OF Cons.prems]] weight_bump [OF Cons.prems], simp add: weight_def)
qed (simp add: weight_def)

text \<open>The two tables of an origin agree: every class has the sum of its opcodes.\<close>

definition agree :: "(string \<times> int) list \<Rightarrow> (string \<times> int) list \<Rightarrow> bool" where
  "agree classes ops \<longleftrightarrow> distinct (keys classes) \<and> distinct (keys ops) \<and> (\<forall>P. weight P classes = weight (\<lambda>op. P (isa op)) ops)"

lemma agree_Nil [simp]: "agree [] []"
  by (simp add: agree_def weight_def)

lemma agree_tick: "agree classes ops \<Longrightarrow> agree (bump (isa op) 1 classes) (bump op 1 ops)"
  by (simp add: agree_def weight_bump distinct_bump)

lemma agree_update: "agree c p \<Longrightarrow> agree d q \<Longrightarrow> agree (counter_update c d) (counter_update p q)"
  by (simp add: agree_def weight_counter_update keys_counter_update)

lemma keys_sort: "distinct (keys d) \<Longrightarrow> distinct (keys (sort_key f d))"
  by (metis distinct_map distinct_sort set_sort)

lemma agree_sort: "agree c p \<Longrightarrow> agree c (sort_key f p)"
  by (simp add: agree_def keys_sort)

lemma agree_totals:
  "list_all (\<lambda>row. agree (f row) (g row)) rows \<Longrightarrow> agree (totals_of f rows) (totals_of g rows)"
proof -
  have "list_all (\<lambda>row. agree (f row) (g row)) rows \<Longrightarrow> agree c p \<Longrightarrow>
      agree (foldl (\<lambda>acc row. counter_update acc (f row)) c rows) (foldl (\<lambda>acc row. counter_update acc (g row)) p rows)" for c p
    by (induction rows arbitrary: c p) (auto simp: agree_update)
  then show "list_all (\<lambda>row. agree (f row) (g row)) rows \<Longrightarrow> agree (totals_of f rows) (totals_of g rows)"
    by (simp add: totals_of_def)
qed

definition tables_ok :: "audit_state \<Rightarrow> bool" where
  "tables_ok s \<longleftrightarrow> agree (au_compiler s) (au_compiler_ops s) \<and> agree (au_inline s) (au_inline_ops s)"

lemma tables_ok_steps [simp]:
  "tables_ok (marker_error s) = tables_ok s" "tables_ok (enter_asm s) = tables_ok s" "tables_ok (leave_asm s) = tables_ok s"
  "tables_ok (s\<lparr>au_directives := d\<rparr>) = tables_ok s" "tables_ok (s\<lparr>au_seen_begin := b\<rparr>) = tables_ok s"
  "tables_ok (s\<lparr>au_seen_end := b\<rparr>) = tables_ok s"
  by (simp_all add: tables_ok_def marker_error_def enter_asm_def leave_asm_def)

lemma tables_ok_tick: "tables_ok s \<Longrightarrow> tables_ok (count_kind r (isa op) (count_op r op s))"
  by (cases r) (simp_all add: tables_ok_def count_kind_def count_op_def agree_tick)

lemma foldl_invariant: "(\<And>s x. P s \<Longrightarrow> P (f s x)) \<Longrightarrow> P s \<Longrightarrow> P (foldl f s xs)"
  by (induction xs arbitrary: s) auto

context finding_recorder
begin

lemma tables_jot [simp]: "tables_ok (jot pos f s) = tables_ok s"
  by (simp add: tables_ok_def)

lemma tables_classify: "tables_ok s \<Longrightarrow> tables_ok (classify jot r pos word s)"
  by (simp add: classify_def Let_def tables_ok_tick)

lemma tables_event: "tables_ok s \<Longrightarrow> tables_ok (audit_event jot s e)"
proof -
  have "tables_ok t \<Longrightarrow> tables_ok (foldl (audit_segment jot r pos) t ops)" for t r pos ops
    by (rule foldl_invariant [of tables_ok]) (auto simp: audit_segment_def tables_classify split: option.splits)
  then show "tables_ok s \<Longrightarrow> tables_ok (audit_event jot s e)"
    by (auto simp: audit_event_def audit_marker_def Let_def tables_classify split: prod.splits asm_event.splits)
qed

lemma tables_scan: "tables_ok (scan_with jot decode data)"
proof -
  have "tables_ok (foldl (audit_event jot) empty_audit (events decode data))"
    by (rule foldl_invariant [of tables_ok]) (simp_all add: tables_event, simp add: tables_ok_def empty_audit_def)
  moreover have "tables_ok s \<Longrightarrow> tables_ok (check_markers jot data s m)" for s m
    by (auto simp: check_markers_def split: prod.splits)
  ultimately show ?thesis by (simp add: scan_with_def Let_def)
qed

end

lemma inspect_tables:
  "agree (ar_compiler (inspect decode path data)) (ar_compiler_ops (inspect decode path data)) \<and>
   agree (ar_inline (inspect decode path data)) (ar_inline_ops (inspect decode path data))"
  using incremental.tables_scan [of data decode data]
  by (simp add: inspect_def fast_row_of_def row_of_def audit_row.defs tables_ok_def agree_sort)


section \<open>What a passing audit says\<close>

text \<open>
  Reading the events from inside or outside a region: \<open>nest\<close> is where a well-nested sequence ends, with no
  statement left unread, and \<open>words\<close> are the first words of the statements outside of the regions.
\<close>

fun nest :: "bool \<Rightarrow> asm_event list \<Rightarrow> bool option" where
  "nest b [] = Some b"
| "nest b (Marker w # es) = (if (w = ''BEGIN'') = b then None else nest (w = ''BEGIN'') es)"
| "nest b (Statements w ops # es) = (if None \<in> set ops then None else nest b es)"

fun words :: "bool \<Rightarrow> asm_event list \<Rightarrow> string list" where
  "words b [] = []"
| "words b (Marker w # es) = words (w = ''BEGIN'') es"
| "words b (Statements w ops # es) = (if b then [] else w # List.map_filter (\<lambda>x. x) ops) @ words b es"

fun faults :: "bool \<Rightarrow> asm_event list \<Rightarrow> nat" where
  "faults b [] = 0"
| "faults b (Marker w # es) = (if (w = ''BEGIN'') = b then 1 else 0) + faults (w = ''BEGIN'') es"
| "faults b (Statements w ops # es) = length (filter (\<lambda>x. x = None) ops) + faults b es"

fun ends_in :: "bool \<Rightarrow> asm_event list \<Rightarrow> bool" where
  "ends_in b [] = b"
| "ends_in b (Marker w # es) = ends_in (w = ''BEGIN'') es"
| "ends_in b (Statements w ops # es) = ends_in b es"

lemma no_None: "filter (\<lambda>x. x = None) ops = [] \<longleftrightarrow> None \<notin> set ops"
  by (induction ops) auto

lemma faults_nest: "faults b es = 0 \<longleftrightarrow> nest b es = Some (ends_in b es)"
  by (induction b es rule: nest.induct) (auto simp: no_None)

lemma nest_ends: "nest b es = Some b' \<Longrightarrow> b' = ends_in b es"
  by (induction b es rule: nest.induct) (auto split: if_splits)

definition marker_events :: "(string \<Rightarrow> bool) \<Rightarrow> asm_event list \<Rightarrow> int" where
  "marker_events P es = int (length (filter (\<lambda>e. case e of Marker w \<Rightarrow> P w | Statements w ops \<Rightarrow> False) es))"

lemma marker_events_simps [simp]:
  "marker_events P [] = 0"
  "marker_events P (Marker w # es) = (if P w then 1 else 0) + marker_events P es"
  "marker_events P (Statements w ops # es) = marker_events P es"
  by (simp_all add: marker_events_def)

text \<open>The words that count: instructions whose class satisfies \<open>P\<close>.\<close>

definition instructions :: "(string \<Rightarrow> bool) \<Rightarrow> string list \<Rightarrow> int" where
  "instructions P ws = int (length (filter (\<lambda>w. \<not> startswith (lower w) ''.'' \<and> P (isa (lower w))) ws))"

lemma instructions_simps [simp]:
  "instructions P [] = 0"
  "instructions P (w # ws) = (if \<not> startswith (lower w) ''.'' \<and> P (isa (lower w)) then 1 else 0) + instructions P ws"
  "instructions P (ws @ vs) = instructions P ws + instructions P vs"
  by (simp_all add: instructions_def)

lemma step_fields [simp]:
  "au_in_asm (marker_error s) = au_in_asm s" "au_marker_errors (marker_error s) = au_marker_errors s + 1"
  "au_seen_begin (marker_error t) = au_seen_begin t" "au_seen_end (marker_error t) = au_seen_end t" "au_compiler (marker_error s) = au_compiler s"
  "au_in_asm (enter_asm s)" "au_marker_errors (enter_asm s) = au_marker_errors s" "au_seen_begin (enter_asm t) = au_seen_begin t"
  "au_seen_end (enter_asm t) = au_seen_end t" "au_compiler (enter_asm s) = au_compiler s"
  "\<not> au_in_asm (leave_asm s)" "au_marker_errors (leave_asm s) = au_marker_errors s" "au_seen_begin (leave_asm t) = au_seen_begin t"
  "au_seen_end (leave_asm t) = au_seen_end t" "au_compiler (leave_asm s) = au_compiler s"
  by (simp_all add: marker_error_def enter_asm_def leave_asm_def)

lemma count_fields [simp]:
  "au_in_asm (count_kind r k s) = au_in_asm s" "au_marker_errors (count_kind r k s) = au_marker_errors s"
  "au_seen_begin (count_kind r k t) = au_seen_begin t" "au_seen_end (count_kind r k t) = au_seen_end t"
  "au_in_asm (count_op r k t) = au_in_asm t" "au_marker_errors (count_op r k t) = au_marker_errors t"
  "au_seen_begin (count_op r k t) = au_seen_begin t" "au_seen_end (count_op r k t) = au_seen_end t"
  "au_compiler (count_op r k t) = au_compiler t"
  "au_compiler (count_kind r k s) = (if r = Compiler then bump k 1 (au_compiler s) else au_compiler s)"
  by (cases r; simp add: count_kind_def count_op_def)+

text \<open>What a state reports about the events read so far, and the change by a sequence of events.\<close>

definition reads :: "audit_state \<Rightarrow> asm_event list \<Rightarrow> audit_state \<Rightarrow> bool" where
  "reads s es t \<longleftrightarrow>
     au_in_asm t = ends_in (au_in_asm s) es \<and>
     au_marker_errors t = au_marker_errors s + int (faults (au_in_asm s) es) \<and>
     au_seen_begin t = au_seen_begin s + marker_events (\<lambda>w. w = ''BEGIN'') es \<and>
     au_seen_end t = au_seen_end s + marker_events (\<lambda>w. w \<noteq> ''BEGIN'') es \<and>
     (\<forall>P. weight P (au_compiler t) = weight P (au_compiler s) + instructions P (words (au_in_asm s) es)) \<and>
     distinct (keys (au_compiler t))"

context finding_recorder
begin

lemma classify_fields [simp]:
  "au_in_asm (classify jot r pos w s) = au_in_asm s" "au_marker_errors (classify jot r pos w s) = au_marker_errors s"
  "au_seen_begin (classify jot r pos w s) = au_seen_begin s" "au_seen_end (classify jot r pos w s) = au_seen_end s"
  "au_compiler (classify jot r pos w s) =
     (if r = Compiler \<and> \<not> startswith (lower w) ''.'' then bump (isa (lower w)) 1 (au_compiler s) else au_compiler s)"
  by (simp_all add: classify_def Let_def)

lemma weight_classify:
  "distinct (keys (au_compiler s)) \<Longrightarrow>
   weight P (au_compiler (classify jot r pos w s)) = weight P (au_compiler s) + (if r = Compiler then instructions P [w] else 0)"
  by (simp add: weight_bump)

lemma distinct_classify: "distinct (keys (au_compiler s)) \<Longrightarrow> distinct (keys (au_compiler (classify jot r pos w s)))"
  by (simp add: distinct_bump)

lemma segments_read:
  assumes "distinct (keys (au_compiler s))"
  shows "au_in_asm (foldl (audit_segment jot r pos) s ops) = au_in_asm s \<and>
    au_marker_errors (foldl (audit_segment jot r pos) s ops) = au_marker_errors s + int (length (filter (\<lambda>x. x = None) ops)) \<and>
    au_seen_begin (foldl (audit_segment jot r pos) s ops) = au_seen_begin s \<and>
    au_seen_end (foldl (audit_segment jot r pos) s ops) = au_seen_end s \<and>
    weight P (au_compiler (foldl (audit_segment jot r pos) s ops)) =
      weight P (au_compiler s) + (if r = Compiler then instructions P (List.map_filter (\<lambda>x. x) ops) else 0) \<and>
    distinct (keys (au_compiler (foldl (audit_segment jot r pos) s ops)))"
  using assms
proof (induction ops arbitrary: s)
  case (Cons x ops)
  have "distinct (keys (au_compiler (audit_segment jot r pos s x)))"
    using Cons.prems by (auto simp: audit_segment_def distinct_bump split: option.splits)
  from Cons.IH [OF this] show ?case
    using weight_bump [OF Cons.prems] by (cases x) (simp_all add: audit_segment_def)
qed simp

lemma event_reads:
  assumes "distinct (keys (au_compiler s))"
  shows "reads s [snd e] (audit_event jot s e)"
proof (cases e)
  case (Pair pos ev)
  show ?thesis
  proof (cases ev)
    case (Marker w)
    then show ?thesis using Pair assms by (simp add: reads_def audit_event_def audit_marker_def Let_def)
  next
    case (Statements w ops)
    then show ?thesis
      using Pair assms segments_read [OF distinct_classify [OF assms]] weight_classify [OF assms]
      by (simp add: reads_def audit_event_def region_of_def Let_def)
  qed
qed

lemma reads_append: "reads s [e] t \<Longrightarrow> reads t es u \<Longrightarrow> reads s (e # es) u"
  by (cases e) (simp_all add: reads_def)

lemma events_read: "distinct (keys (au_compiler s)) \<Longrightarrow> reads s (map snd es) (foldl (audit_event jot) s es)"
proof (induction es arbitrary: s)
  case (Cons e es)
  have one: "reads s [snd e] (audit_event jot s e)" by (rule event_reads [OF Cons.prems])
  then have "distinct (keys (au_compiler (audit_event jot s e)))" by (simp add: reads_def)
  from reads_append [OF one Cons.IH [OF this]] show ?case by simp
qed (simp add: reads_def)

end


lemma empty_audit_fields [simp]:
  "\<not> au_in_asm empty_audit" "au_marker_errors empty_audit = 0" "au_seen_begin empty_audit = 0" "au_seen_end empty_audit = 0"
  "au_compiler empty_audit = []"
  by (simp_all add: empty_audit_def)

definition clean :: "(string \<Rightarrow> string) \<Rightarrow> string \<Rightarrow> bool" where
  "clean decode data =
     (let es = map snd (events decode data) in
      nest False es = Some False \<and>
      occurrences_of ''MINIC_RV64I_ASM_BEGIN'' data = marker_events (\<lambda>w. w = ''BEGIN'') es \<and>
      occurrences_of ''MINIC_RV64I_ASM_END'' data = marker_events (\<lambda>w. w \<noteq> ''BEGIN'') es)"

definition base_only :: "(string \<Rightarrow> string) \<Rightarrow> string \<Rightarrow> bool" where
  "base_only decode data = list_all (\<lambda>w. startswith (lower w) ''.'' \<or> isa w = ''I'') (words False (map snd (events decode data)))"

lemma lower_char_idem [simp]: "lower_char (lower_char c) = lower_char c"
proof -
  have "of_char c < (256 :: nat)" by simp
  then show ?thesis by (simp add: lower_char_def Let_def)
qed

lemma lower_idem [simp]: "lower (lower s) = lower s"
  by (simp add: lower_def)

lemma isa_lower [simp]: "isa (lower s) = isa s"
  by (simp add: isa_def)

lemma base_only_instructions: "base_only decode data \<longleftrightarrow> instructions (\<lambda>k. k \<noteq> ''I'') (words False (map snd (events decode data))) = 0"
  by (auto simp: base_only_def instructions_def list_all_iff filter_empty_conv)

context finding_recorder
begin

lemma scan_verdict:
  "0 \<le> au_marker_errors (scan_with jot decode data) \<and>
   (au_marker_errors (scan_with jot decode data) = 0 \<longleftrightarrow> clean decode data) \<and>
   0 \<le> non_i (au_compiler (scan_with jot decode data)) \<and>
   (non_i (au_compiler (scan_with jot decode data)) = 0 \<longleftrightarrow> base_only decode data)"
proof -
  let ?s = "foldl (audit_event jot) empty_audit (events decode data)" and ?es = "map snd (events decode data)"
  have r: "reads empty_audit ?es ?s" by (rule events_read) simp
  have f: "faults False ?es = 0 \<longleftrightarrow> nest False ?es = Some (ends_in False ?es)" by (rule faults_nest)
  have errors: "au_marker_errors (scan_with jot decode data) = int (faults False ?es) +
      (if occurrences_of ''MINIC_RV64I_ASM_BEGIN'' data \<noteq> marker_events (\<lambda>w. w = ''BEGIN'') ?es then 1 else 0) +
      (if occurrences_of ''MINIC_RV64I_ASM_END'' data \<noteq> marker_events (\<lambda>w. w \<noteq> ''BEGIN'') ?es then 1 else 0) +
      (if ends_in False ?es then 1 else 0)"
    using r by (simp add: scan_with_def check_markers_def Let_def reads_def)
  have "au_compiler (scan_with jot decode data) = au_compiler ?s"
    by (simp add: scan_with_def check_markers_def Let_def)
  then have "non_i (au_compiler (scan_with jot decode data)) = instructions (\<lambda>k. k \<noteq> ''I'') (words False ?es)"
    using r by (simp add: reads_def flip: weight_non_i)
  moreover have "0 \<le> instructions (\<lambda>k. k \<noteq> ''I'') (words False ?es)" by (simp add: instructions_def)
  ultimately show ?thesis using errors f nest_ends [of False ?es False] by (auto simp: clean_def Let_def base_only_instructions)
qed

end


lemma inspect_verdict:
  "0 \<le> ar_marker_errors (inspect decode path data)" "ar_marker_errors (inspect decode path data) = 0 \<longleftrightarrow> clean decode data"
  "0 \<le> non_i (ar_compiler (inspect decode path data))" "non_i (ar_compiler (inspect decode path data)) = 0 \<longleftrightarrow> base_only decode data"
  using incremental.scan_verdict [of data decode data]
  by (simp_all add: inspect_def fast_row_of_def row_of_def audit_row.defs)

lemma sum_list_zero_iff: "list_all (\<lambda>x. (0 :: int) \<le> f x) xs \<Longrightarrow> sum_list (map f xs) = 0 \<longleftrightarrow> list_all (\<lambda>x. f x = 0) xs"
proof (induction xs)
  case (Cons x xs)
  then have "0 \<le> sum_list (map f xs)" by (intro sum_list_nonneg) (auto simp: list_all_iff)
  with Cons show ?case by auto
qed simp

lemma non_i_totals: "distinct (keys acc) \<Longrightarrow> non_i (foldl (\<lambda>acc row. counter_update acc (f row)) acc rows) = non_i acc + sum_list (map (\<lambda>row. non_i (f row)) rows)"
  by (induction rows arbitrary: acc) (simp_all add: keys_counter_update weight_counter_update flip: weight_non_i)

lemma non_i_rows: "non_i (totals_of f rows) = sum_list (map (\<lambda>row. non_i (f row)) rows)"
  using non_i_totals [of "[]"] by (simp add: totals_of_def non_i_def)

definition inspected :: "(string \<Rightarrow> string) \<Rightarrow> audit_args \<Rightarrow> (string list \<times> string) list \<Rightarrow> fast_row list" where
  "inspected decode args paths = map (\<lambda>(parts, content). inspect decode (path_text (aa_root args) parts) content) paths"

lemma rows_clean:
  "sum_list (map ar_marker_errors (inspected decode args paths)) = 0 \<longleftrightarrow> list_all (\<lambda>(parts, content). clean decode content) paths"
  by (subst sum_list_zero_iff) (auto simp: inspected_def list_all_iff inspect_verdict)

lemma rows_base_only:
  "non_i (totals_of ar_compiler (inspected decode args paths)) = 0 \<longleftrightarrow> list_all (\<lambda>(parts, content). base_only decode content) paths"
  unfolding non_i_rows by (subst sum_list_zero_iff) (auto simp: inspected_def list_all_iff inspect_verdict)

lemma origin_audit_status:
  assumes "origin_audit decode args files = Inr out"
  shows "ao_status out = 0 \<longleftrightarrow>
    audit_paths files \<noteq> [] \<and> list_all (\<lambda>(parts, content). clean decode content) (audit_paths files) \<and>
    (case aa_expected_files args of None \<Rightarrow> True | Some n \<Rightarrow> int (length (audit_paths files)) = n) \<and>
    (aa_require_markers args \<longrightarrow> sum_list (map ar_inline_regions (inspected decode args (audit_paths files))) > 0) \<and>
    (aa_fail_on_compiler_non_i args \<longrightarrow> list_all (\<lambda>(parts, content). base_only decode content) (audit_paths files))"
proof (cases "audit_paths files = []")
  case True
  with assms show ?thesis by (auto simp: origin_audit_def)
next
  case False
  with assms obtain batch where "ao_status out = (if audit_passed args (summary_of (inspected decode args (audit_paths files)) batch) then 0 else 1)"
    by (auto simp: origin_audit_def Let_def resE inspected_def)
  moreover have "length (inspected decode args (audit_paths files)) = length (audit_paths files)" by (simp add: inspected_def)
  ultimately show ?thesis
    using False by (cases "aa_expected_files args") (simp_all add: audit_passed_def summary_of_def rows_clean rows_base_only)
qed

text \<open>
  C13. The audit exits with status 0 exactly when there are assembly files, in each of them the markers are properly
  nested, every text that looks like a marker is one, every statement after a semicolon can be read, the expected numbers of files and regions are
  met, and (when asked for) every instruction event outside of the user's regions is RV64I.
\<close>
theorem audit_verdict:
  assumes "origin_audit decode args files = Inr out"
  shows "ao_status out = 0 \<longleftrightarrow>
    audit_paths files \<noteq> [] \<and> list_all (\<lambda>(parts, content). clean decode content) (audit_paths files) \<and>
    (case aa_expected_files args of None \<Rightarrow> True | Some n \<Rightarrow> int (length (audit_paths files)) = n) \<and>
    (aa_require_markers args \<longrightarrow> sum_list (map ar_inline_regions (inspected decode args (audit_paths files))) > 0) \<and>
    (aa_fail_on_compiler_non_i args \<longrightarrow> list_all (\<lambda>(parts, content). base_only decode content) (audit_paths files))"
  using assms by (rule origin_audit_status)

definition demo_audit_args :: audit_args where
  "demo_audit_args = \<lparr> aa_root = ''o'', aa_json_out = ''o.json'', aa_batch_results = None, aa_expected_files = Some 1, aa_require_markers = True,
     aa_fail_on_compiler_non_i = True, aa_opcode_tsv_out = True \<rparr>"

definition demo_assembly :: "(string list \<times> string) list" where
  "demo_assembly = [([''f.s''], ''f:\<newline> addi sp,sp,-16\<newline># MINIC_RV64I_ASM_BEGIN\<newline>mul t0,t1,t2\<newline># MINIC_RV64I_ASM_END\<newline> ret\<newline>''),
     ([''f.o''], ''ELF'')]"

definition demo_audit_run :: "py_error + audit_outcome" where
  "demo_audit_run = origin_audit (\<lambda>x. x) demo_audit_args demo_assembly"

lemma demo_audit_passes: "\<exists>out. demo_audit_run = Inr out \<and> ao_status out = 0"
proof -
  have "(case demo_audit_run of Inr out \<Rightarrow> ao_status out = 0 | Inl e \<Rightarrow> False)" by code_simp
  then show ?thesis by (auto split: sum.splits)
qed

theorem audit_verdict_witness:
  "list_all (\<lambda>(parts, content). clean (\<lambda>x. x) content) (audit_paths demo_assembly) \<and>
   list_all (\<lambda>(parts, content). base_only (\<lambda>x. x) content) (audit_paths demo_assembly) \<and> length (audit_paths demo_assembly) = 1"
proof -
  obtain out where out: "demo_audit_run = Inr out" "ao_status out = 0" using demo_audit_passes by auto
  have "aa_fail_on_compiler_non_i demo_audit_args" "aa_expected_files demo_audit_args = Some 1" by (simp_all add: demo_audit_args_def)
  with audit_verdict [OF out(1) [unfolded demo_audit_run_def]] out(2) show ?thesis by simp
qed

text \<open>
  The tables of a report agree: for the files together, the number of instructions of a class is
  the sum of the counts of its opcodes, for the compiler's instructions and for the inline ones, the number of the compiler's instructions outside RV64I is the sum over
  its opcodes of another class, and no report holds more than 200 findings.
\<close>
theorem audit_tables:
  "let s = summary_of (inspected decode args paths) batch in
   (\<forall>kind. count_of (as_compiler s) kind = weight (\<lambda>op. isa op = kind) (as_compiler_ops s)) \<and>
   (\<forall>kind. count_of (as_inline s) kind = weight (\<lambda>op. isa op = kind) (as_inline_ops s)) \<and>
   as_compiler_non_i s = weight (\<lambda>op. isa op \<noteq> ''I'') (as_compiler_ops s) \<and> length (as_findings s) \<le> 200"
proof -
  let ?rows = "inspected decode args paths"
  have c: "agree (totals_of ar_compiler ?rows) (totals_of ar_compiler_ops ?rows)"
    by (rule agree_totals) (auto simp: list_all_iff inspected_def inspect_tables)
  have i: "agree (totals_of ar_inline ?rows) (totals_of ar_inline_ops ?rows)"
    by (rule agree_totals) (auto simp: list_all_iff inspected_def inspect_tables)
  have count: "count_of (sort_key fst d) kind = weight (\<lambda>op. isa op = kind) (sort_key fst p)" if "agree d p" for d p kind
    using that weight_count [OF keys_sort [of d fst], of kind] by (simp add: agree_def)
  have "non_i (totals_of ar_compiler ?rows) = weight (\<lambda>op. isa op \<noteq> ''I'') (sort_key fst (totals_of ar_compiler_ops ?rows))"
    using c by (simp add: agree_def flip: weight_non_i)
  with count [OF c] count [OF i] show ?thesis by (simp add: Let_def summary_of_def)
qed

section \<open>Line numbers\<close>

text \<open>A recorder that counts the lines from the start of the file for every finding.\<close>

definition record_naive :: "string \<Rightarrow> nat \<Rightarrow> finding \<Rightarrow> audit_state \<Rightarrow> audit_state" where
  "record_naive data pos f s =
     (if 200 \<le> length (au_findings s) then s
      else s\<lparr>au_findings := au_findings s @ [f\<lparr>fi_line := 1 + line_feeds (take pos data)\<rparr>]\<rparr>)"

interpretation naive: finding_recorder "record_naive data"
  by unfold_locales (simp add: record_naive_def core_def)

lemma line_feeds_append: "line_feeds (s @ t) = line_feeds s + line_feeds t"
  by (simp add: line_feeds_def)

lemma line_feeds_take:
  assumes "p \<le> q"
  shows "line_feeds (take p data) + line_feeds (take (q - p) (drop p data)) = line_feeds (take q data)"
  using assms by (metis le_add_diff_inverse line_feeds_append take_add)

text \<open>The abstraction forgets where the last finding was.\<close>

definition forget :: "audit_state \<Rightarrow> audit_state" where
  "forget s = s\<lparr>au_report_pos := 0, au_report_line := 1\<rparr>"

definition simulates :: "string \<Rightarrow> audit_state \<Rightarrow> audit_state \<Rightarrow> bool" where
  "simulates data s t \<longleftrightarrow> forget s = forget t \<and> au_report_line s = 1 + line_feeds (take (au_report_pos s) data)"

lemma simulates_record: "simulates data s t \<Longrightarrow> simulates data (record_finding data pos f s) (record_naive data pos f t)"
proof -
  assume sim: "simulates data s t"
  have fs: "au_findings s = au_findings t" using sim by (cases s; cases t) (simp add: simulates_def forget_def)
  show ?thesis
  proof (cases "pos < au_report_pos s")
    case True
    then show ?thesis using sim fs
      by (cases s; cases t) (simp add: simulates_def forget_def record_finding_def record_naive_def line_feeds_def Let_def)
  next
    case False
    with line_feeds_take [of "au_report_pos s" pos data] show ?thesis using sim fs
      by (cases s; cases t) (simp add: simulates_def forget_def record_finding_def record_naive_def Let_def)
  qed
qed


lemma simulates_fields:
  "simulates data s t \<Longrightarrow> au_in_asm s = au_in_asm t \<and> au_marker_errors s = au_marker_errors t \<and> au_origins s = au_origins t \<and>
   au_directives s = au_directives t \<and> au_seen_begin s = au_seen_begin t \<and> au_seen_end s = au_seen_end t \<and>
   au_compiler s = au_compiler t \<and> au_inline s = au_inline t \<and> au_compiler_ops s = au_compiler_ops t \<and>
   au_inline_ops s = au_inline_ops t \<and> au_findings s = au_findings t"
  by (cases s; cases t) (simp add: simulates_def forget_def)

text \<open>Everything else a step does leaves the bookkeeping of the recorder alone.\<close>

lemma simulates_steps:
  assumes "simulates data s t"
  shows "simulates data (marker_error s) (marker_error t)" "simulates data (enter_asm s) (enter_asm t)" "simulates data (leave_asm s) (leave_asm t)"
    "simulates data (s\<lparr>au_directives := d\<rparr>) (t\<lparr>au_directives := d\<rparr>)" "simulates data (s\<lparr>au_seen_begin := d\<rparr>) (t\<lparr>au_seen_begin := d\<rparr>)"
    "simulates data (s\<lparr>au_seen_end := d\<rparr>) (t\<lparr>au_seen_end := d\<rparr>)"
    "simulates data (count_kind r k s) (count_kind r k t)" "simulates data (count_op r k s) (count_op r k t)"
  using assms
  by (cases s; cases t; cases r; simp add: simulates_def forget_def marker_error_def enter_asm_def leave_asm_def count_kind_def count_op_def)+

lemma simulates_classify:
  assumes "simulates data s t"
  shows "simulates data (classify (record_finding data) r pos w s) (classify (record_naive data) r pos w t)"
  using assms simulates_fields [OF assms] by (simp add: classify_def Let_def simulates_record simulates_steps)

lemma simulates_segments:
  "simulates data s t \<Longrightarrow>
   simulates data (foldl (audit_segment (record_finding data) r pos) s ops) (foldl (audit_segment (record_naive data) r pos) t ops)"
proof (induction ops arbitrary: s t)
  case (Cons x ops)
  show ?case
    by (simp, rule Cons.IH, cases x)
      (simp_all add: audit_segment_def Cons.prems simulates_classify simulates_record simulates_steps)
qed simp

lemma simulates_event:
  assumes "simulates data s t"
  shows "simulates data (audit_event (record_finding data) s e) (audit_event (record_naive data) t e)"
proof (cases e)
  case (Pair pos ev)
  show ?thesis
  proof (cases ev)
    case (Marker w)
    then show ?thesis using Pair assms simulates_fields [OF assms]
      by (simp add: audit_event_def audit_marker_def Let_def simulates_record simulates_steps)
  next
    case (Statements w ops)
    then show ?thesis using Pair assms simulates_fields [OF assms]
      by (simp add: audit_event_def region_of_def Let_def simulates_segments simulates_classify)
  qed
qed

lemma simulates_events:
  "simulates data s t \<Longrightarrow> simulates data (foldl (audit_event (record_finding data)) s es) (foldl (audit_event (record_naive data)) t es)"
  by (induction es arbitrary: s t) (simp_all add: simulates_event)

lemma simulates_check:
  assumes "simulates data s t" and "seen s = seen t"
  shows "simulates data (check_markers (record_finding data) data s (m, seen)) (check_markers (record_naive data) data t (m, seen))"
  using assms by (simp add: check_markers_def simulates_record simulates_steps)

lemma simulates_scan: "simulates data (scan_with (record_finding data) decode data) (scan_with (record_naive data) decode data)"
proof -
  let ?s = "foldl (audit_event (record_finding data)) empty_audit (events decode data)"
  let ?t = "foldl (audit_event (record_naive data)) empty_audit (events decode data)"
  have "simulates data empty_audit empty_audit" by (simp add: simulates_def empty_audit_def line_feeds_def)
  then have 0: "simulates data ?s ?t" by (rule simulates_events)
  let ?s1 = "check_markers (record_finding data) data ?s (''MINIC_RV64I_ASM_BEGIN'', au_seen_begin)"
  let ?t1 = "check_markers (record_naive data) data ?t (''MINIC_RV64I_ASM_BEGIN'', au_seen_begin)"
  have 1: "simulates data ?s1 ?t1" by (rule simulates_check) (use 0 simulates_fields [OF 0] in auto)
  let ?s2 = "check_markers (record_finding data) data ?s1 (''MINIC_RV64I_ASM_END'', au_seen_end)"
  let ?t2 = "check_markers (record_naive data) data ?t1 (''MINIC_RV64I_ASM_END'', au_seen_end)"
  have 2: "simulates data ?s2 ?t2" by (rule simulates_check) (use 1 simulates_fields [OF 1] in auto)
  from simulates_fields [OF 2] 2 show ?thesis
    unfolding scan_with_def Let_def foldl.simps by (simp add: simulates_record simulates_steps)
qed

text \<open>
  The line numbers that the fast scanner counts on from one finding to the next are those of a scanner that counts
  the line feeds from the start of the file for every finding: the two reports of a file are equal.
\<close>
theorem incremental_lines: "inspect decode path data = fast_row_of path (scan_with (record_naive data) decode data)"
  using simulates_fields [OF simulates_scan [of data decode]]
  by (simp add: inspect_def fast_row_of_def row_of_def)


end
