(* ===== verification/RegexRuns.thy ===== *)
theory RegexRuns
  imports PyRegex
begin

text \<open>
  Closed forms of the matcher on runs of characters: what a greedy repetition of a class lists, on a text
  of which only the first characters are known, and how a search moves from line to line.
\<close>

text \<open>\<open>eaten k m\<close>: the state after the next \<open>k\<close> characters.\<close>

definition eaten :: "nat \<Rightarrow> match_state \<Rightarrow> match_state" where
  "eaten k m = m\<lparr>ms_pos := ms_pos m + k, ms_prev := (if k = 0 then ms_prev m else Some (ms_rest m ! (k - 1))), ms_rest := drop k (ms_rest m)\<rparr>"

lemma eaten_0 [simp]: "eaten 0 m = m"
  by (simp add: eaten_def)

lemma eaten_Suc: "ms_rest m = c # cs \<Longrightarrow> eaten (Suc k) m = eaten k (m\<lparr>ms_pos := Suc (ms_pos m), ms_prev := Some c, ms_rest := cs\<rparr>)"
  by (cases k) (simp_all add: eaten_def)

lemma eaten_fields [simp]:
  "ms_pos (eaten k m) = ms_pos m + k" "ms_rest (eaten k m) = drop k (ms_rest m)" "ms_caps (eaten k m) = ms_caps m"
  "ms_prev (eaten k m) = (if k = 0 then ms_prev m else Some (ms_rest m ! (k - 1)))"
  by (simp_all add: eaten_def)

text \<open>The lengths a greedy repetition tries, longest first.\<close>

fun down :: "nat \<Rightarrow> nat list" where
  "down 0 = [0]"
| "down (Suc n) = Suc n # down n"

lemma set_down [simp]: "set (down n) = {..n}"
  by (induction n) (auto simp: atMost_Suc)

lemma down_hd: "down n = n # (if n = 0 then [] else down (n - 1))"
  by (cases n) auto

lemma map_Suc_down: "map f (down (Suc n)) = map (\<lambda>k. f (Suc k)) (down n) @ [f 0]"
  by (induction n) auto

lemma star_iter_set:
  "length (ms_rest m) \<le> n \<Longrightarrow>
   star_iter False n (matches (RSet P)) m = map (\<lambda>k. eaten k m) (down (length (takeWhile P (ms_rest m))))"
proof (induction n arbitrary: m)
  case (Suc n)
  show ?case
  proof (cases "ms_rest m")
    case (Cons c cs)
    let ?m = "m\<lparr>ms_pos := Suc (ms_pos m), ms_prev := Some c, ms_rest := cs\<rparr>"
    show ?thesis
    proof (cases "P c")
      case True
      have "star_iter False n (matches (RSet P)) ?m = map (\<lambda>k. eaten k ?m) (down (length (takeWhile P cs)))"
        by (subst Suc.IH) (use Suc.prems Cons in simp_all)
      moreover have "matches (RSet P) m = [?m]" using Cons True by simp
      ultimately show ?thesis using Cons True by (simp add: Let_def map_Suc_down eaten_Suc [OF Cons] del: down.simps matches.simps)
    qed (simp add: Cons Let_def)
  qed (simp add: Let_def)
qed simp

lemma matches_star_set: "matches (RStar (RSet P)) m = map (\<lambda>k. eaten k m) (down (length (takeWhile P (ms_rest m))))"
  by (simp add: star_iter_set)

lemma matches_plus_set:
  "matches (RPlus (RSet P)) m =
   (if takeWhile P (ms_rest m) = [] then [] else map (\<lambda>k. eaten (Suc k) m) (down (length (takeWhile P (ms_rest m)) - 1)))"
proof (cases "ms_rest m")
  case (Cons c cs)
  then show ?thesis by (simp add: RPlus_def star_iter_set eaten_Suc)
qed (simp add: RPlus_def)

text \<open>A repetition whose body does not match here stays where it is.\<close>

lemma star_iter_stuck: "f m = [] \<Longrightarrow> star_iter False n f m = [m]"
  by (cases n) simp_all

text \<open>Literals on a text that is known as far as they reach.\<close>

lemma matches_lit_start: "ms_rest m = c # s \<Longrightarrow> c \<noteq> d \<Longrightarrow> matches (RLit (d # ds)) m = []"
  by (cases ds) simp_all

lemma eaten_eaten: "k \<le> length (ms_rest m) \<Longrightarrow> eaten j (eaten k m) = eaten (k + j) m"
  by (cases j) (auto simp: eaten_def ac_simps)

lemma matches_set_hit: "ms_rest m = c # cs \<Longrightarrow> P c \<Longrightarrow> matches (RSet P) m = [eaten 1 m]"
  by (simp add: eaten_def)

lemma matches_set_miss: "ms_rest m = [] \<or> \<not> P (hd (ms_rest m)) \<Longrightarrow> matches (RSet P) m = []"
  by (cases "ms_rest m") auto

lemma takeWhile_run: "list_all P u \<Longrightarrow> v = [] \<or> \<not> P (hd v) \<Longrightarrow> takeWhile P (u @ v) = u"
  by (cases v) (simp_all add: list_all_iff)

text \<open>A class followed by a repetition of another: the runs of every length, the whole run first.\<close>

lemma matches_word:
  assumes "ms_rest m = w @ t" "w \<noteq> []" "S (hd w)" "list_all P w" "t = [] \<or> \<not> P (hd t)"
  shows "matches (RSeq (RSet S) (RStar (RSet P))) m = map (\<lambda>k. eaten (Suc k) m) (down (length w - 1))"
proof -
  from assms(2) obtain c cs where w: "w = c # cs" by (cases w) auto
  have "matches (RSet S) m = [eaten 1 m]" using assms w by (intro matches_set_hit) auto
  moreover have "takeWhile P (cs @ t) = cs" using assms w by (intro takeWhile_run) auto
  ultimately show ?thesis
    using assms(1) w by (simp add: matches_star_set eaten_eaten del: matches.simps(2,5))
qed

end
