(* ===== verification/AuditAgreement.thy ===== *)
theory AuditAgreement
  imports OriginAudit RegexRuns
begin

text \<open>
  The fast scanner of \<^verbatim>\<open>audit-rv64i-asm-origin.py\<close> against its reference scanner, on the lines a compiler prints: a marker, a label,
  a blank line, or a statement whose mnemonic is followed by a blank or the end of the line.  On such files
  the two agree on everything the probe of the repository compares.  On a line with a semicolon right after
  the mnemonic they do not.
\<close>

section \<open>Lines\<close>

datatype plain_line =
    PBegin
  | PEnd
  | PBlank string
  | PLabel string
  | PStatement string string string

fun line_text :: "plain_line \<Rightarrow> string" where
  "line_text PBegin = ''# MINIC_RV64I_ASM_BEGIN''"
| "line_text PEnd = ''# MINIC_RV64I_ASM_END''"
| "line_text (PBlank b) = b"
| "line_text (PLabel l) = l @ '':''"
| "line_text (PStatement indent w operands) = indent @ w @ operands"

abbreviation LF :: char where "LF \<equiv> CHR 0x0A"

definition marker_free :: "string \<Rightarrow> bool" where
  "marker_free s = (\<not> contains ''MINIC_RV64I_ASM_BEGIN'' s \<and> \<not> contains ''MINIC_RV64I_ASM_END'' s)"

definition operand_char :: "char \<Rightarrow> bool" where
  "operand_char c = (c \<noteq> LF \<and> c \<noteq> CHR 0x0D \<and> c \<noteq> CHR ''#'' \<and> c \<noteq> CHR '';'')"

definition op_word :: "string \<Rightarrow> bool" where
  "op_word w = (w \<noteq> [] \<and> op_start (hd w) \<and> list_all op_char w \<and> last w \<noteq> CHR ''.'')"

fun plain :: "plain_line \<Rightarrow> bool" where
  "plain PBegin = True"
| "plain PEnd = True"
| "plain (PBlank b) = list_all blank b"
| "plain (PLabel l) = (l \<noteq> [] \<and> list_all event_label_char l \<and> marker_free (l @ '':\<newline>''))"
| "plain (PStatement indent w operands) =
     (list_all blank indent \<and> op_word w \<and> list_all operand_char operands \<and> (operands = [] \<or> blank (hd operands)) \<and>
      marker_free (indent @ w @ operands @ ''\<newline>''))"

definition file_text :: "plain_line list \<Rightarrow> string" where
  "file_text ls = concat (map (\<lambda>l. line_text l @ ''\<newline>'') ls)"

fun line_event :: "plain_line \<Rightarrow> asm_event option" where
  "line_event PBegin = Some (Marker ''BEGIN'')"
| "line_event PEnd = Some (Marker ''END'')"
| "line_event (PBlank b) = None"
| "line_event (PLabel l) = None"
| "line_event (PStatement indent w operands) = Some (Statements w [])"

section \<open>Character classes\<close>

lemma char_facts [simp]:
  "\<not> event_label_char LF" "\<not> blank LF" "\<not> op_start LF" "\<not> event_label_char CHR ''#''" "\<not> event_label_char CHR '':''"
  "\<not> blank CHR ''#''" "\<not> event_label_char CHR '';''" "\<not> label_char CHR '':''" "\<not> event_label_char CHR 0x0D" "is_ws LF" "\<not> op_char LF"
  "\<not> op_start CHR ''#''" "\<not> event_label_char CHR '' ''" "\<not> event_label_char CHR 0x09" "is_ws CHR '' ''" "is_ws CHR 0x09"
  "\<not> label_char CHR '' ''" "\<not> label_char CHR 0x09"  "\<not> label_char LF"
  by code_simp+

lemma op_start_op_char: "op_start c \<Longrightarrow> op_char c"
  by (auto simp: op_start_def op_char_def)

lemma op_char_label: "op_char c \<Longrightarrow> event_label_char c"
  by (simp add: event_label_char_def)

lemma event_label_label: "event_label_char c \<Longrightarrow> label_char c"
  by (auto simp: event_label_char_def op_char_def label_char_def is_word_def Let_def)

lemma event_label_not_ws: "event_label_char c \<Longrightarrow> \<not> is_ws c"
proof -
  have "is_alpha c \<Longrightarrow> \<not> is_ws c" "is_digit c \<Longrightarrow> \<not> is_ws c"
    by (auto simp: is_alpha_def is_digit_def is_ws_def Let_def)
  moreover have "\<not> is_ws CHR ''_''" "\<not> is_ws CHR ''.''" "\<not> is_ws CHR ''$''" by code_simp+
  ultimately show "event_label_char c \<Longrightarrow> \<not> is_ws c" by (auto simp: event_label_char_def op_char_def)
qed

lemma op_start_not_digit: "op_start c \<Longrightarrow> \<not> is_digit c"
proof -
  have "is_alpha c \<Longrightarrow> \<not> is_digit c" by (auto simp: is_alpha_def is_digit_def Let_def)
  moreover have "\<not> is_digit CHR ''_''" "\<not> is_digit CHR ''.''" by code_simp+
  ultimately show "op_start c \<Longrightarrow> \<not> is_digit c" by (auto simp: op_start_def)
qed

lemma op_char_word: "op_char c \<Longrightarrow> c \<noteq> CHR ''.'' \<Longrightarrow> is_word c"
  by (auto simp: op_char_def is_word_def Let_def)

lemma blank_cases: "blank c \<longleftrightarrow> c = CHR '' '' \<or> c = CHR 0x09"
  by (simp add: blank_def)

section \<open>Events at the start of a line\<close>

lemma no_label:
  assumes "take 1 (dropWhile event_label_char (ms_rest m)) \<noteq> '':''"
  shows "matches EVENT_LABEL m = []"
proof -
  let ?r = "ms_rest m" and ?u = "takeWhile event_label_char (ms_rest m)"
  have miss: "matches (RSet (\<lambda>c. c = CHR '':'')) (eaten (Suc k) m) = []" if "?u \<noteq> []" "k \<le> length ?u - 1" for k
  proof (rule matches_set_miss)
    show "ms_rest (eaten (Suc k) m) = [] \<or> hd (ms_rest (eaten (Suc k) m)) \<noteq> CHR '':''"
    proof (cases "Suc k < length ?u")
      case True
      then have "event_label_char (?u ! Suc k)" by (metis nth_mem set_takeWhileD)
      moreover have "?u ! Suc k = ?r ! Suc k" using True by (rule takeWhile_nth)
      moreover have "Suc k < length ?r" using True length_takeWhile_le less_le_trans by blast
      ultimately show ?thesis by (auto simp: hd_drop_conv_nth)
    next
      case False
      with that have "Suc k = length ?u" by (cases ?u) auto
      then have "drop (Suc k) ?r = dropWhile event_label_char ?r" by (simp add: dropWhile_eq_drop)
      with assms show ?thesis by (cases "dropWhile event_label_char ?r") auto
    qed
  qed
  show ?thesis unfolding EVENT_LABEL_def
    using miss by (simp add: matches_plus_set del: matches.simps(2,5))
qed

lemma no_labels: "take 1 (dropWhile event_label_char (ms_rest m)) \<noteq> '':'' \<Longrightarrow> matches (RStar EVENT_LABEL) m = [m]"
  by (simp add: star_iter_stuck no_label)

lemma op_word_facts:
  assumes "op_word w"
  shows "w \<noteq> []" "op_start (hd w)" "list_all op_char w" "list_all event_label_char w" "is_word (last w)"
  using assms by (auto simp: op_word_def list_all_iff op_char_label op_char_word)

definition ends_word :: "string \<Rightarrow> bool" where
  "ends_word t = (t \<noteq> [] \<and> (blank (hd t) \<or> hd t = LF))"

lemma ends_word_facts:
  assumes "ends_word t"
  shows "\<not> op_char (hd t)" "\<not> event_label_char (hd t)" "hd t \<noteq> CHR '':''" "t \<noteq> []"
  using assms by (auto simp: ends_word_def blank_cases dest: op_char_label)

lemma word_event:
  assumes w: "op_word w" and m: "ms_rest m = w @ t" and t: "ends_word t"
  shows "\<exists>ms. matches (RSeq (RStar EVENT_LABEL) EVENT_WORD) m = (eaten (length w) m)\<lparr>ms_caps := AList.update 2 w (ms_caps m)\<rparr> # ms"
proof -
  note f = op_word_facts [OF w] and g = ends_word_facts [OF t]
  have "dropWhile event_label_char (w @ t) = t"
    using f g by (metis dropWhile_append2 dropWhile_eq_self_iff list_all_iff)
  then have "matches (RStar EVENT_LABEL) m = [m]" using m g by (intro no_labels) (cases t, auto)
  moreover have "matches (RSeq (RSet op_start) (RStar (RSet op_char))) m = map (\<lambda>k. eaten (Suc k) m) (down (length w - 1))"
    using f g by (intro matches_word [OF m]) auto
  moreover have "down (length w - 1) = (length w - 1) # (if length w - 1 = 0 then [] else down (length w - 1 - 1))" by (rule down_hd)
  moreover have "Suc (length w - 1) = length w" using f(1) by (cases w) auto
  moreover obtain c cs where "t = c # cs" using g(4) by (cases t) auto
  ultimately show ?thesis
    using m t by (auto simp: EVENT_WORD_def ends_word_def simp del: down.simps matches.simps(2,5))
qed

definition at_start :: "char option \<Rightarrow> bool" where
  "at_start pv = (pv = None \<or> pv = Some LF)"

abbreviation EVENT_BODY :: re where
  "EVENT_BODY \<equiv> RAlt EVENT_MARKER (RSeq (RStar EVENT_LABEL) EVENT_WORD)"

lemma matches_event:
  assumes "at_start (ms_prev m)"
  shows "matches ASM_EVENT m = concat (map (\<lambda>k. matches EVENT_BODY (eaten k m)) (down (length (takeWhile blank (ms_rest m)))))"
proof -
  have "matches (RNotBehind (\<lambda>c. c \<noteq> LF)) m = [m]" using assms by (auto simp: at_start_def)
  then have "matches ASM_EVENT m = concat (map (matches EVENT_BODY) (matches (RStar (RSet blank)) m))"
    by (simp add: ASM_EVENT_def del: matches.simps(4,5,11))
  then show ?thesis by (simp add: matches_star_set o_def del: matches.simps)
qed

lemma inside_line: "c \<noteq> LF \<Longrightarrow> match_at ASM_EVENT i (Some c) s = None"
  by (simp add: match_at_def ASM_EVENT_def start_state_def)

lemma marker_miss: "ms_rest m = [] \<or> hd (ms_rest m) \<noteq> CHR ''#'' \<Longrightarrow> matches EVENT_MARKER m = []"
  by (cases "ms_rest m") (auto simp: EVENT_MARKER_def)

lemma match_statement:
  assumes p: "plain (PStatement indent w operands)" and pv: "at_start pv"
  shows "match_at ASM_EVENT i pv (indent @ w @ operands @ LF # rest) =
    Some \<lparr> rm_start = i, rm_end = i + length indent + length w, rm_prev = Some (last w), rm_rest = operands @ LF # rest, rm_groups = [(2, w)] \<rparr>"
proof -
  let ?m = "start_state i pv (indent @ w @ operands @ LF # rest)" and ?t = "operands @ LF # rest"
  have f: "list_all blank indent" "op_word w" and t: "ends_word ?t"
    using p by (cases operands; auto simp: ends_word_def)+
  note g = op_word_facts [OF f(2)]
  have "\<not> blank (hd (w @ ?t))" using g by (auto simp: blank_cases op_start_def is_alpha_def)
  then have run: "takeWhile blank (ms_rest ?m) = indent"
    using takeWhile_run [OF f(1), of "w @ ?t"] by (simp add: start_state_def)
  let ?m1 = "eaten (length indent) ?m"
  have rest: "ms_rest ?m1 = w @ ?t" by (simp add: start_state_def)
  have "hd w \<noteq> CHR ''#''" using g(2) by (auto)
  then have "matches EVENT_MARKER ?m1 = []" using g(1) by (intro marker_miss) (simp add: start_state_def)
  moreover obtain ms where "matches (RSeq (RStar EVENT_LABEL) EVENT_WORD) ?m1 =
      (eaten (length w) ?m1)\<lparr>ms_caps := AList.update 2 w (ms_caps ?m1)\<rparr> # ms"
    using word_event [OF f(2) rest t] by auto
  ultimately have body: "matches EVENT_BODY ?m1 = (eaten (length w) ?m1)\<lparr>ms_caps := [(2, w)]\<rparr> # ms"
    by (simp add: start_state_def del: matches.simps(3,5))
  have "matches ASM_EVENT ?m = concat (map (\<lambda>k. matches EVENT_BODY (eaten k ?m)) (down (length indent)))"
    using matches_event [of ?m] pv run by (simp add: start_state_def)
  then have "\<exists>ms. matches ASM_EVENT ?m = (eaten (length w) ?m1)\<lparr>ms_caps := [(2, w)]\<rparr> # ms"
    using body by (subst (asm) down_hd) (simp del: matches.simps down.simps)
  moreover have "ms_prev (eaten (length w) ?m1) = Some (last w)"
    using g(1) by (simp add: start_state_def last_conv_nth nth_append)
  ultimately show ?thesis by (auto simp: match_at_def start_state_def)
qed


lemma word_miss: "ms_rest m = [] \<or> \<not> op_start (hd (ms_rest m)) \<Longrightarrow> matches EVENT_WORD m = []"
  unfolding EVENT_WORD_def by (cases "ms_rest m") simp_all

lemma match_blank:
  assumes b: "list_all blank b" and pv: "at_start pv"
  shows "match_at ASM_EVENT i pv (b @ LF # rest) = None"
proof -
  let ?m = "start_state i pv (b @ LF # rest)"
  have run: "takeWhile blank (ms_rest ?m) = b" using takeWhile_run [OF b, of "LF # rest"] by (simp add: start_state_def)
  have "matches EVENT_BODY (eaten k ?m) = []" if "k \<le> length b" for k
  proof -
    have "hd (drop k b @ LF # rest) = LF \<or> blank (hd (drop k b @ LF # rest))"
      using b set_drop_subset [of k b] by (cases "drop k b") (auto simp: list_all_iff)
    then have h: "hd (ms_rest (eaten k ?m)) = LF \<or> blank (hd (ms_rest (eaten k ?m)))" and n: "ms_rest (eaten k ?m) \<noteq> []"
      using that by (simp_all add: start_state_def)
    have l: "\<not> event_label_char (hd (ms_rest (eaten k ?m)))" "hd (ms_rest (eaten k ?m)) \<noteq> CHR '':''" using h by (auto simp: blank_cases)
    have "matches (RStar EVENT_LABEL) (eaten k ?m) = [eaten k ?m]"
      by (rule no_labels) (use l n in \<open>cases "ms_rest (eaten k ?m)"; simp\<close>)
    moreover have "matches EVENT_WORD (eaten k ?m) = []" "matches EVENT_MARKER (eaten k ?m) = []"
      using h l by (auto intro!: word_miss marker_miss simp del: eaten_fields dest: op_start_op_char op_char_label)
    ultimately show ?thesis by (simp del: matches.simps(5) eaten_fields)
  qed
  then have "matches ASM_EVENT ?m = []" using matches_event [of ?m] pv run by (simp add: start_state_def del: matches.simps)
  then show ?thesis by (simp add: match_at_def)
qed

lemma matches_colon:
  assumes "ms_rest m = l @ CHR '':'' # t" "list_all event_label_char l" "l \<noteq> []" "t = [] \<or> \<not> blank (hd t)"
  shows "matches EVENT_LABEL m = [eaten (Suc (length l)) m]"
proof -
  let ?colon = "RSet (\<lambda>c. c = CHR '':'')"
  have run: "takeWhile event_label_char (ms_rest m) = l"
    using assms takeWhile_run [OF assms(2), of "CHR '':'' # t"] by simp
  have miss: "matches ?colon (eaten (Suc k) m) = []" if "Suc k < length l" for k
  proof (rule matches_set_miss)
    have "event_label_char (l ! Suc k)" using assms(2) that by (simp add: list_all_iff)
    then show "ms_rest (eaten (Suc k) m) = [] \<or> hd (ms_rest (eaten (Suc k) m)) \<noteq> CHR '':''"
      using that assms(1) by (auto simp: hd_drop_conv_nth nth_append)
  qed
  have hit: "matches (RSeq ?colon (RStar (RSet blank))) (eaten (length l) m) = [eaten (Suc (length l)) m]"
  proof -
    have "matches ?colon (eaten (length l) m) = [eaten 1 (eaten (length l) m)]" by (rule matches_set_hit [of _ "CHR '':''" t]) (simp_all add: assms(1))
    moreover have "takeWhile blank t = []" using assms(4) by (cases t) auto
    ultimately show ?thesis using assms(1) by (simp add: matches_star_set eaten_eaten del: matches.simps(2,5))
  qed
  obtain n where n: "length l = Suc n" using assms(3) by (cases l) auto
  have "concat (map (\<lambda>k. matches (RSeq ?colon (RStar (RSet blank))) (eaten (Suc k) m)) (down n)) = [eaten (Suc (length l)) m]"
  proof (subst down_hd, cases "n = 0")
    case False
    have "concat (map (\<lambda>k. matches (RSeq ?colon (RStar (RSet blank))) (eaten (Suc k) m)) (down (n - 1))) = []"
      using miss n False by (simp del: matches.simps(2,5))
    then show "concat (map (\<lambda>k. matches (RSeq ?colon (RStar (RSet blank))) (eaten (Suc k) m)) (n # (if n = 0 then [] else down (n - 1)))) =
        [eaten (Suc (length l)) m]"
      using hit n False by (simp del: matches.simps)
  qed (use hit n in \<open>simp del: matches.simps\<close>)
  then show ?thesis
    unfolding EVENT_LABEL_def using n run assms(3) by (simp add: matches_plus_set o_def del: matches.simps(2,5))
qed


lemma star_iter_once:
  "f m = [m1] \<Longrightarrow> length (ms_rest m1) < length (ms_rest m) \<Longrightarrow> f m1 = [] \<Longrightarrow> 0 < n \<Longrightarrow> star_iter False n f m = [m1, m]"
  by (cases n) (simp_all add: star_iter_stuck)

lemma takeWhile_stop: "\<not> P x \<Longrightarrow> length (takeWhile P (l @ x # t)) \<le> length l"
  by (induction l) simp_all

lemma stopped_no_word:
  assumes m: "ms_rest m = l @ x # t" and l: "list_all event_label_char l" "l \<noteq> []" and x: "\<not> op_char x" "\<not> blank x" "x \<noteq> LF"
  shows "matches EVENT_WORD m = []"
proof (cases "op_start (hd l)")
  case False
  with m l show ?thesis by (intro word_miss) (cases l, auto)
next
  case True
  let ?w = "takeWhile op_char (ms_rest m)"
  have len: "length ?w \<le> length l" using m x(1) takeWhile_stop by simp
  have ne: "?w \<noteq> []" "hd ?w = hd l" using True l m by (cases l; simp add: op_start_op_char)+
  have stop: "dropWhile op_char (ms_rest m) = [] \<or> \<not> op_char (hd (dropWhile op_char (ms_rest m)))" by (metis hd_dropWhile)
  have "matches (RSeq (RSet op_start) (RStar (RSet op_char))) m = map (\<lambda>k. eaten (Suc k) m) (down (length ?w - 1))"
    by (rule matches_word [of _ _ "dropWhile op_char (ms_rest m)"])
      (use True ne stop in \<open>auto simp: list_all_iff dest: set_takeWhileD\<close>)
  moreover have "matches (RNotAhead (\<lambda>c. \<not> blank c \<and> c \<noteq> LF)) ((eaten (Suc k) m)\<lparr>ms_caps := c\<rparr>) = []" if "k \<le> length ?w - 1" for k c
  proof -
    have k: "Suc k \<le> length l" using that len ne(1) by (cases ?w) auto
    then obtain d ds where d: "drop (Suc k) (l @ x # t) = d # ds" by (cases "drop (Suc k) (l @ x # t)") auto
    then have "d \<in> set (l @ [x])" using k by (cases "drop (Suc k) l") (auto dest: in_set_dropD intro: in_set_dropD [of d "Suc k" l])
    then have "\<not> blank d \<and> d \<noteq> LF" using l(1) x by (auto simp: list_all_iff blank_cases)
    with d m show ?thesis by simp
  qed
  ultimately show ?thesis by (simp add: EVENT_WORD_def o_def del: matches.simps(2,5,11))
qed

lemma label_no_word:
  assumes "ms_rest m = l @ CHR '':'' # t" and "list_all event_label_char l" "l \<noteq> []"
  shows "matches EVENT_WORD m = []"
proof -
  have "\<not> op_char CHR '':''" "\<not> blank CHR '':''" by code_simp+
  then show ?thesis using stopped_no_word [OF assms] by simp
qed

text \<open>A semicolon right after the mnemonic: the word is not followed by a blank, and there is no other match on the line.\<close>

lemma match_semicolon:
  assumes b: "list_all blank b" and w: "op_word w" and pv: "at_start pv"
  shows "match_at ASM_EVENT i pv (b @ w @ CHR '';'' # rest) = None"
proof -
  let ?m = "start_state i pv (b @ w @ CHR '';'' # rest)"
  note g = op_word_facts [OF w]
  have nb: "\<not> blank (hd (w @ CHR '';'' # rest))" using g by (auto simp: blank_cases op_start_def is_alpha_def)
  have run: "takeWhile blank (ms_rest ?m) = b" using takeWhile_run [OF b, of "w @ CHR '';'' # rest"] nb by (simp add: start_state_def)
  have "matches EVENT_BODY (eaten k ?m) = []" if "k \<le> length b" for k
  proof (cases "k = length b")
    case True
    then have r: "ms_rest (eaten k ?m) = w @ CHR '';'' # rest" by (simp add: start_state_def)
    have "dropWhile event_label_char (w @ CHR '';'' # rest) = CHR '';'' # rest"
      using g(4) by (simp add: list_all_iff)
    then have "matches (RStar EVENT_LABEL) (eaten k ?m) = [eaten k ?m]" using r by (intro no_labels) (simp del: eaten_fields)
    moreover have "\<not> op_char CHR '';''" "\<not> blank CHR '';''" by code_simp+
    then have "matches EVENT_WORD (eaten k ?m) = []" using stopped_no_word [OF r g(4,1)] by simp
    moreover have "matches EVENT_MARKER (eaten k ?m) = []" using r g(1,2) by (intro marker_miss) (auto simp del: eaten_fields)
    ultimately show ?thesis by (simp del: matches.simps(5) eaten_fields)
  next
    case False
    with that have "drop k b \<noteq> []" by simp
    then obtain d ds where d: "drop k b = d # ds" by (cases "drop k b") auto
    then have "blank d" using b by (metis in_set_dropD list.set_intros(1) list_all_iff)
    moreover have r: "ms_rest (eaten k ?m) = d # ds @ w @ CHR '';'' # rest" using d that by (simp add: start_state_def)
    moreover have "\<not> op_start CHR '' ''" "\<not> op_start CHR 0x09" by code_simp+
    ultimately have h: "\<not> event_label_char d" "d \<noteq> CHR '':''" "d \<noteq> CHR ''#''" "\<not> op_start d" by (auto simp: blank_cases)
    have "matches (RStar EVENT_LABEL) (eaten k ?m) = [eaten k ?m]" by (rule no_labels) (use h r in \<open>simp del: eaten_fields\<close>)
    moreover have "matches EVENT_WORD (eaten k ?m) = []" "matches EVENT_MARKER (eaten k ?m) = []"
      using h r by (auto intro!: word_miss marker_miss simp del: eaten_fields)
    ultimately show ?thesis by (simp del: matches.simps(5) eaten_fields)
  qed
  then have "matches ASM_EVENT ?m = []" using matches_event [of ?m] pv run by (simp add: start_state_def del: matches.simps)
  then show ?thesis by (simp add: match_at_def)
qed

lemma match_label:
  assumes p: "plain (PLabel l)" and pv: "at_start pv"
  shows "match_at ASM_EVENT i pv (l @ CHR '':'' # LF # rest) = None"
proof -
  let ?m = "start_state i pv (l @ CHR '':'' # LF # rest)"
  have l: "list_all event_label_char l" "l \<noteq> []" using p by auto
  obtain c cs where c: "l = c # cs" using l(2) by (cases l) auto
  have ec: "event_label_char c" using l c by simp
  have nb: "\<not> blank c" "c \<noteq> CHR ''#''" using ec by (auto simp: blank_cases)
  have run: "takeWhile blank (ms_rest ?m) = []" using nb c by (simp add: start_state_def)
  let ?m1 = "eaten (Suc (length l)) ?m"
  have lab: "matches EVENT_LABEL ?m = [?m1]" by (rule matches_colon [of _ l "LF # rest"]) (use l in \<open>simp_all add: start_state_def\<close>)
  have rest1: "ms_rest ?m1 = LF # rest" by (simp add: start_state_def)
  have "matches EVENT_LABEL ?m1 = []" by (rule no_label) (simp add: rest1 del: eaten_fields)
  with lab have "matches (RStar EVENT_LABEL) ?m = [?m1, ?m]"
    by (simp only: matches.simps) (rule star_iter_once, simp_all add: start_state_def c)
  moreover have "matches EVENT_WORD ?m1 = []" by (rule word_miss) (simp add: rest1 del: eaten_fields)
  moreover have "matches EVENT_WORD ?m = []" by (rule label_no_word [of _ l "LF # rest"]) (use l in \<open>simp_all add: start_state_def\<close>)
  moreover have "matches EVENT_MARKER ?m = []" using c nb by (intro marker_miss) (simp add: start_state_def)
  ultimately have "matches EVENT_BODY ?m = []" by (simp del: matches.simps(5))
  then have "matches ASM_EVENT ?m = []" using matches_event [of ?m] pv run by (simp add: start_state_def del: matches.simps)
  then show ?thesis by (simp add: match_at_def)
qed


lemma match_marker:
  assumes "at_start pv"
  shows "match_at ASM_EVENT i pv (''# MINIC_RV64I_ASM_BEGIN'' @ LF # rest) =
      Some \<lparr> rm_start = i, rm_end = i + 23, rm_prev = Some CHR ''N'', rm_rest = LF # rest, rm_groups = [(1, ''BEGIN'')] \<rparr>"
    and "match_at ASM_EVENT i pv (''# MINIC_RV64I_ASM_END'' @ LF # rest) =
      Some \<lparr> rm_start = i, rm_end = i + 21, rm_prev = Some CHR ''D'', rm_rest = LF # rest, rm_groups = [(1, ''END'')] \<rparr>"
proof -
  have *: "\<exists>ms. matches EVENT_MARKER (start_state i pv (''# MINIC_RV64I_ASM_BEGIN'' @ LF # rest)) =
      \<lparr> ms_pos = i + 23, ms_prev = Some CHR ''N'', ms_rest = LF # rest, ms_caps = [(1, ''BEGIN'')] \<rparr> # ms"
    "\<exists>ms. matches EVENT_MARKER (start_state i pv (''# MINIC_RV64I_ASM_END'' @ LF # rest)) =
      \<lparr> ms_pos = i + 21, ms_prev = Some CHR ''D'', ms_rest = LF # rest, ms_caps = [(1, ''END'')] \<rparr> # ms"
    by (simp_all add: EVENT_MARKER_def start_state_def Let_def)
  have **: "matches ASM_EVENT (start_state i pv (CHR ''#'' # t)) = matches EVENT_BODY (start_state i pv (CHR ''#'' # t))" for t
    using matches_event [of "start_state i pv (CHR ''#'' # t)"] assms by (simp add: start_state_def del: matches.simps)
  show "match_at ASM_EVENT i pv (''# MINIC_RV64I_ASM_BEGIN'' @ LF # rest) =
      Some \<lparr> rm_start = i, rm_end = i + 23, rm_prev = Some CHR ''N'', rm_rest = LF # rest, rm_groups = [(1, ''BEGIN'')] \<rparr>"
    using *(1) by (auto simp: match_at_def ** simp del: matches.simps(3,5))
  show "match_at ASM_EVENT i pv (''# MINIC_RV64I_ASM_END'' @ LF # rest) =
      Some \<lparr> rm_start = i, rm_end = i + 21, rm_prev = Some CHR ''D'', rm_rest = LF # rest, rm_groups = [(1, ''END'')] \<rparr>"
    using *(2) by (auto simp: match_at_def ** simp del: matches.simps(3,5))
qed

lemma match_end: "match_at ASM_EVENT i pv [] = None"
proof (cases "at_start pv")
  case True
  let ?m = "start_state i pv []"
  have "matches (RStar EVENT_LABEL) ?m = [?m]" by (rule no_labels) (simp add: start_state_def)
  moreover have "matches EVENT_WORD ?m = []" "matches EVENT_MARKER ?m = []"
    by (rule word_miss marker_miss, simp add: start_state_def)+
  ultimately show ?thesis
    using matches_event [of ?m] True by (simp add: match_at_def start_state_def del: matches.simps(5))
next
  case False
  then obtain c where "pv = Some c" "c \<noteq> LF" by (cases pv) (auto simp: at_start_def)
  then show ?thesis by (simp add: inside_line)
qed

section \<open>From line to line\<close>

lemma search_hit: "match_at r i pv s = Some m \<Longrightarrow> search_from r i pv s = Some m"
  by (cases s) simp_all

lemma search_from_min: "search_from r i pv s = Some m \<Longrightarrow> length (rm_rest m) + re_min r \<le> length s"
  by (drule search_from_Some) (auto dest: match_at_min)

lemma search_inside:
  "LF \<notin> set u \<Longrightarrow> c \<noteq> LF \<Longrightarrow>
   search_from ASM_EVENT i (Some c) (u @ LF # rest) = search_from ASM_EVENT (i + length u + 1) (Some LF) rest"
proof (induction u arbitrary: i c)
  case (Cons d u)
  have "search_from ASM_EVENT (Suc i) (Some d) (u @ LF # rest) = search_from ASM_EVENT (Suc i + length u + 1) (Some LF) rest"
    by (rule Cons.IH) (use Cons.prems in auto)
  with inside_line [OF Cons.prems(2)] show ?case by simp
qed (simp add: inside_line)

lemma search_none:
  assumes "match_at ASM_EVENT i pv (u @ LF # rest) = None" and "LF \<notin> set u"
  shows "search_from ASM_EVENT i pv (u @ LF # rest) = search_from ASM_EVENT (i + length u + 1) (Some LF) rest"
proof (cases u)
  case (Cons d v)
  have "search_from ASM_EVENT (Suc i) (Some d) (v @ LF # rest) = search_from ASM_EVENT (Suc i + length v + 1) (Some LF) rest"
    by (rule search_inside) (use assms(2) Cons in auto)
  with Cons assms(1) show ?thesis by simp
qed (use assms in simp)

lemma finditer_shift:
  assumes "search_from r i pv s = search_from r j pv' s'" and "length s' \<le> length s" and "0 < re_min r"
  shows "finditer_from n r i pv s = finditer_from n r j pv' s'"
proof (cases n)
  case (Suc k)
  then show ?thesis using assms search_from_min [of r j pv' s'] by (cases "search_from r j pv' s'") fastforce+
qed simp

lemma event_min: "0 < re_min ASM_EVENT"
  by code_simp

lemma finditer_hit:
  assumes "match_at ASM_EVENT i pv s = Some m" and "rm_rest m = v @ LF # rest" and "LF \<notin> set v" and "rm_prev m = Some c" and "c \<noteq> LF"
  shows "\<exists>j. finditer_from (Suc n) ASM_EVENT i pv s = m # finditer_from n ASM_EVENT j (Some LF) rest"
proof -
  have "length (rm_rest m) < length s" using match_at_min [OF assms(1)] event_min by simp
  then have "finditer_from (Suc n) ASM_EVENT i pv s = m # finditer_from n ASM_EVENT (rm_end m) (Some c) (v @ LF # rest)"
    using search_hit [OF assms(1)] assms by simp
  moreover have "finditer_from n ASM_EVENT (rm_end m) (Some c) (v @ LF # rest) =
      finditer_from n ASM_EVENT (rm_end m + length v + 1) (Some LF) rest"
    using search_inside [OF assms(3,5)] event_min by (intro finditer_shift) auto
  ultimately show ?thesis by auto
qed

lemma finditer_miss:
  assumes "match_at ASM_EVENT i pv (u @ LF # rest) = None" and "LF \<notin> set u"
  shows "\<exists>j. finditer_from n ASM_EVENT i pv (u @ LF # rest) = finditer_from n ASM_EVENT j (Some LF) rest"
  using finditer_shift [OF search_none [OF assms] _ event_min, of n] by auto


lemma file_text_Cons: "file_text (l # ls) = line_text l @ LF # file_text ls"
  by (simp add: file_text_def)

lemma plain_no_break:
  assumes "plain l"
  shows "LF \<notin> set (line_text l)" "CHR 0x0D \<notin> set (line_text l)"
proof -
  have *: "\<not> blank CHR 0x0D" "\<not> event_label_char CHR 0x0D" "\<not> op_char LF" "\<not> op_char CHR 0x0D" by code_simp+
  show "LF \<notin> set (line_text l)" "CHR 0x0D \<notin> set (line_text l)"
    using assms * by (cases l; auto simp: list_all_iff operand_char_def op_word_def)+
qed

lemma later_none: "list_all operand_char v \<Longrightarrow> later_ops decode (v @ LF # rest) = []"
proof -
  assume v: "list_all operand_char v"
  have "takeWhile (\<lambda>c. c \<noteq> LF) (v @ LF # rest) = v"
    by (rule takeWhile_run) (use v in \<open>auto simp: list_all_iff operand_char_def\<close>)
  moreover have "CHR '';'' \<notin> set v" using v by (auto simp: list_all_iff operand_char_def)
  ultimately show ?thesis by (simp add: later_ops_def)
qed

text \<open>
  \<open>line_run decode n s es rest\<close>: what the scan of \<open>s\<close> with \<open>n\<close> matches to go finds first, and the scan of \<open>rest\<close> that follows.
\<close>

definition line_run :: "(string \<Rightarrow> string) \<Rightarrow> nat \<Rightarrow> re_match list \<Rightarrow> asm_event list \<Rightarrow> string \<Rightarrow> bool" where
  "line_run decode n found es rest =
     (\<exists>k j ms. found = ms @ finditer_from k ASM_EVENT j (Some LF) rest \<and> n \<le> Suc k \<and> map (event_of decode) ms = es)"

lemma run_hit:
  assumes "match_at ASM_EVENT i pv s = Some m" and "rm_rest m = v @ LF # rest" and "LF \<notin> set v" and "rm_prev m = Some c" and "c \<noteq> LF"
    and "event_of decode m = e" and "0 < n"
  shows "line_run decode n (finditer_from n ASM_EVENT i pv s) [e] rest"
proof -
  obtain n' where n': "n = Suc n'" using assms(7) by (cases n) auto
  obtain j where "finditer_from (Suc n') ASM_EVENT i pv s = m # finditer_from n' ASM_EVENT j (Some LF) rest"
    using finditer_hit [OF assms(1-5)] by blast
  then have "finditer_from n ASM_EVENT i pv s = [m] @ finditer_from n' ASM_EVENT j (Some LF) rest" by (simp only: n' append.simps)
  then show ?thesis unfolding line_run_def using assms(6) n'
    by (intro exI [of _ n'] exI [of _ j] exI [of _ "[m]"]) (simp del: finditer_from.simps)
qed

lemma run_miss:
  assumes "match_at ASM_EVENT i pv (u @ LF # rest) = None" and "LF \<notin> set u"
  shows "line_run decode n (finditer_from n ASM_EVENT i pv (u @ LF # rest)) [] rest"
proof -
  obtain j where "finditer_from n ASM_EVENT i pv (u @ LF # rest) = [] @ finditer_from n ASM_EVENT j (Some LF) rest"
    using finditer_miss [OF assms] by fastforce
  then show ?thesis unfolding line_run_def
    by (intro exI [of _ n] exI [of _ j] exI [of _ "[]"]) (simp del: finditer_from.simps)
qed

lemma line_scan:
  assumes p: "plain l" and pv: "at_start pv" and n: "0 < n"
  shows "line_run decode n (finditer_from n ASM_EVENT i pv (line_text l @ LF # rest)) (case line_event l of None \<Rightarrow> [] | Some e \<Rightarrow> [e]) rest"
proof (cases l)
  case PBegin
  have "line_run decode n (finditer_from n ASM_EVENT i pv (''# MINIC_RV64I_ASM_BEGIN'' @ LF # rest)) [Marker ''BEGIN''] rest"
    by (rule run_hit [OF match_marker(1) [OF pv], where v = "[]" and c = "CHR ''N''"]) (use n in \<open>simp_all add: event_of_def\<close>)
  then show ?thesis by (simp only: PBegin line_text.simps line_event.simps option.case)
next
  case PEnd
  have "line_run decode n (finditer_from n ASM_EVENT i pv (''# MINIC_RV64I_ASM_END'' @ LF # rest)) [Marker ''END''] rest"
    by (rule run_hit [OF match_marker(2) [OF pv], where v = "[]" and c = "CHR ''D''"]) (use n in \<open>simp_all add: event_of_def\<close>)
  then show ?thesis by (simp only: PEnd line_text.simps line_event.simps option.case)
next
  case (PBlank b)
  have "line_run decode n (finditer_from n ASM_EVENT i pv (b @ LF # rest)) [] rest"
    by (rule run_miss [OF match_blank [OF _ pv]]) (use p plain_no_break(1) [OF p] PBlank in simp_all)
  then show ?thesis by (simp only: PBlank line_text.simps line_event.simps option.case)
next
  case (PLabel x)
  have "line_run decode n (finditer_from n ASM_EVENT i pv ((x @ '':'') @ LF # rest)) [] rest"
    by (rule run_miss) (use p plain_no_break(1) [OF p] PLabel match_label [OF _ pv] in simp_all)
  then show ?thesis by (simp only: PLabel line_text.simps line_event.simps option.case)
next
  case (PStatement indent w operands)
  have ops: "list_all operand_char operands" "LF \<notin> set operands" and w: "w \<noteq> []" "LF \<notin> set w"
    using p PStatement plain_no_break(1) [OF p] by (auto simp: op_word_def)
  have lw: "last w \<noteq> LF" using last_in_set [OF w(1)] w(2) by auto
  have "line_run decode n (finditer_from n ASM_EVENT i pv (indent @ w @ operands @ LF # rest)) [Statements w []] rest"
    by (rule run_hit [OF match_statement [OF p [unfolded PStatement] pv], where v = operands and c = "last w"])
      (use n ops lw later_none [OF ops(1)] in \<open>simp_all add: event_of_def group_def\<close>)
  then show ?thesis by (simp only: PStatement line_text.simps line_event.simps option.case append.assoc)
qed

lemma finditer_end: "finditer_from n ASM_EVENT i pv [] = []"
  by (cases n) (simp_all add: match_end)

lemma file_scan:
  assumes "list_all plain ls" and "at_start pv" and "length ls \<le> n"
  shows "map (event_of decode) (finditer_from n ASM_EVENT i pv (file_text ls)) = List.map_filter line_event ls"
  using assms
proof (induction ls arbitrary: n i pv)
  case Nil
  then show ?case by (simp add: file_text_def finditer_end)
next
  case (Cons l ls)
  then obtain k j ms where s: "finditer_from n ASM_EVENT i pv (file_text (l # ls)) = ms @ finditer_from k ASM_EVENT j (Some LF) (file_text ls)"
    "n \<le> Suc k" "map (event_of decode) ms = (case line_event l of None \<Rightarrow> [] | Some e \<Rightarrow> [e])"
    using line_scan [of l pv n decode i "file_text ls"] by (auto simp: file_text_Cons line_run_def simp del: finditer_from.simps)
  have "map (event_of decode) (finditer_from k ASM_EVENT j (Some LF) (file_text ls)) = List.map_filter line_event ls"
    by (rule Cons.IH) (use Cons.prems s(2) in \<open>auto simp: at_start_def\<close>)
  with s show ?case by (auto split: option.splits)
qed

lemma scan_prefix:
  assumes "list_all plain ls" and "at_start pv" and "length ls < n"
  shows "\<exists>k j pv' ms. finditer_from n ASM_EVENT i pv (file_text ls @ rest) = ms @ finditer_from k ASM_EVENT j pv' rest \<and>
    at_start pv' \<and> n \<le> k + length ls \<and> map (event_of decode) ms = List.map_filter line_event ls"
  using assms
proof (induction ls arbitrary: n i pv)
  case Nil
  then show ?case
    by (intro exI [of _ n] exI [of _ i] exI [of _ pv] exI [of _ "[]"]) (simp add: file_text_def List.map_filter_def del: finditer_from.simps)
next
  case (Cons l ls)
  then obtain k j ms where s: "finditer_from n ASM_EVENT i pv (file_text (l # ls) @ rest) = ms @ finditer_from k ASM_EVENT j (Some LF) (file_text ls @ rest)"
    "n \<le> Suc k" "map (event_of decode) ms = (case line_event l of None \<Rightarrow> [] | Some e \<Rightarrow> [e])"
    using line_scan [of l pv n decode i "file_text ls @ rest"] by (auto simp: file_text_Cons line_run_def simp del: finditer_from.simps)
  from Cons.IH [of "Some LF" k j] Cons.prems s(2) obtain k' j' pv' ms' where
    t: "finditer_from k ASM_EVENT j (Some LF) (file_text ls @ rest) = ms' @ finditer_from k' ASM_EVENT j' pv' rest"
      "at_start pv'" "k \<le> k' + length ls" "map (event_of decode) ms' = List.map_filter line_event ls"
    by (auto simp: at_start_def simp del: finditer_from.simps)
  show ?case
    using s t by (intro exI [of _ k'] exI [of _ j'] exI [of _ pv'] exI [of _ "ms @ ms'"])
      (auto simp del: finditer_from.simps split: option.splits)
qed

lemma length_file_text: "length ls \<le> length (file_text ls)"
  by (induction ls) (simp_all add: file_text_def)

lemma file_events: "list_all plain ls \<Longrightarrow> map snd (events decode (file_text ls)) = List.map_filter line_event ls"
  using file_scan [of ls None "length (file_text ls)" decode 0] length_file_text [of ls]
  by (simp add: events_def finditer_def at_start_def o_def)


lemma semicolon_events:
  assumes "list_all plain pre" and "list_all plain post" and "list_all blank indent" and "op_word w" and "LF \<notin> set rest"
  shows "map snd (events decode (file_text pre @ indent @ w @ CHR '';'' # rest @ LF # file_text post)) = map snd (events decode (file_text (pre @ post)))"
proof -
  let ?u = "indent @ w @ CHR '';'' # rest"
  let ?data = "file_text pre @ ?u @ LF # file_text post"
  have no_lf: "LF \<notin> set ?u" using assms(3-5) op_word_facts(3) [OF assms(4)] by (auto simp: list_all_iff)
  have len: "length pre + length post < length ?data" using length_file_text [of pre] length_file_text [of post] by simp
  then have "length pre < length ?data" by simp
  from scan_prefix [OF assms(1) _ this, where pv = None and decode = decode and i = 0 and rest = "?u @ LF # file_text post"] obtain k j pv ms where
    s: "finditer_from (length ?data) ASM_EVENT 0 None ?data = ms @ finditer_from k ASM_EVENT j pv (?u @ LF # file_text post)"
      "at_start pv" "length ?data \<le> k + length pre" "map (event_of decode) ms = List.map_filter line_event pre"
    by (auto simp: at_start_def simp del: finditer_from.simps)
  have "match_at ASM_EVENT j pv (?u @ LF # file_text post) = None"
    using match_semicolon [OF assms(3,4) s(2), of j "rest @ LF # file_text post"] by simp
  from finditer_miss [OF this no_lf, of k] obtain j' where
    t: "finditer_from k ASM_EVENT j pv (?u @ LF # file_text post) = finditer_from k ASM_EVENT j' (Some LF) (file_text post)" by blast
  have "map (event_of decode) (finditer_from k ASM_EVENT j' (Some LF) (file_text post)) = List.map_filter line_event post"
    by (rule file_scan) (use assms(2) s(3) len in \<open>auto simp: at_start_def\<close>)
  with s t have "map snd (events decode ?data) = List.map_filter line_event (pre @ post)"
    by (simp add: events_def finditer_def o_def List.map_filter_def del: finditer_from.simps)
  with file_events [of "pre @ post" decode] assms(1,2) show ?thesis by simp
qed

section \<open>The reference on such lines\<close>

lemma lines_keep_line: "LF \<notin> set u \<Longrightarrow> lines_keep acc (u @ LF # r) = (rev acc @ u @ ''\<newline>'') # lines_keep [] r"
  by (induction u arbitrary: acc) auto

lemma file_lines_text: "list_all plain ls \<Longrightarrow> file_lines (file_text ls) = map (\<lambda>l. line_text l @ ''\<newline>'') ls"
proof -
  assume p: "list_all plain ls"
  then have "CHR 0x0D \<notin> set (file_text ls)" using plain_no_break(2) by (auto simp: file_text_def list_all_iff)
  moreover have "list_all plain ls \<Longrightarrow> lines_keep [] (file_text ls) = map (\<lambda>l. line_text l @ ''\<newline>'') ls"
  proof (induction ls)
    case (Cons l ls)
    then show ?case using lines_keep_line [of "line_text l" "[]" "file_text ls"] plain_no_break(1) [of l] by (simp add: file_text_Cons)
  qed (simp add: file_text_def)
  ultimately show ?thesis using p by (simp add: file_lines_def universal_newlines_id)
qed

lemma marker_lines:
  "map_option (\<lambda>m. group m 1) (re_fullmatch MARKER (strip ''# MINIC_RV64I_ASM_BEGIN\<newline>'')) = Some ''BEGIN''"
  "map_option (\<lambda>m. group m 1) (re_fullmatch MARKER (strip ''# MINIC_RV64I_ASM_END\<newline>'')) = Some ''END''"
  by code_simp+

lemma ref_marker_line:
  "ref_line r (n, ''# MINIC_RV64I_ASM_BEGIN\<newline>'') = ref_marker n ''BEGIN'' r"
  "ref_line r (n, ''# MINIC_RV64I_ASM_END\<newline>'') = ref_marker n ''END'' r"
  using marker_lines by (auto simp: ref_line_def)

lemma not_marker: "s = [] \<or> hd s \<noteq> CHR ''#'' \<Longrightarrow> re_fullmatch MARKER s = None"
  by (cases s) (auto simp: re_fullmatch_def MARKER_def start_state_def)

lemma before_hash_id: "CHR ''#'' \<notin> set s \<Longrightarrow> before_hash s = s"
proof -
  assume "CHR ''#'' \<notin> set s"
  then have "split1 CHR ''#'' s = None" by (induction s) auto
  then show ?thesis by (simp add: before_hash_def)
qed

text \<open>What is left of a line that is no marker: its statements.\<close>

lemma ref_plain_line:
  assumes "strip raw = [] \<or> hd (strip raw) \<noteq> CHR ''#''" and "marker_free raw" and "CHR ''#'' \<notin> set raw"
  shows "ref_line r (n, raw) = foldl (ref_statement n (region_of r)) r (split_char CHR '';'' (drop_labels (strip raw)))"
  using not_marker [OF assms(1)] assms(2) before_hash_id [OF assms(3)] by (simp add: ref_line_def marker_free_def)

lemma drop_labels_Nil [simp]: "drop_labels [] = []"
  by (simp add: drop_labels.simps)

lemma ref_statement_Nil [simp]: "ref_statement n g r [] = r"
  by (simp add: ref_statement_def)

lemma strip_blanks: "list_all is_ws b \<Longrightarrow> strip b = []"
proof -
  assume "list_all is_ws b"
  then have "dropWhile is_ws b = []" by (simp add: list_all_iff)
  then show ?thesis by (simp only: strip_def lstrip_def rstrip_def rev.simps dropWhile.simps)
qed

lemma contains_set: "contains p s \<Longrightarrow> set p \<subseteq> set s"
  by (auto simp: contains_iff)

lemma not_in_blanks: "list_all blank b \<Longrightarrow> \<not> blank c \<Longrightarrow> c \<notin> set b"
  by (auto simp: list_all_iff)

lemma blank_free: "list_all blank b \<Longrightarrow> marker_free (b @ ''\<newline>'')"
proof -
  assume "list_all blank b"
  then have "CHR ''M'' \<notin> set (b @ ''\<newline>'')" using not_in_blanks [of b "CHR ''M''"] by (simp add: blank_cases)
  then have "contains p (b @ ''\<newline>'') \<Longrightarrow> CHR ''M'' \<notin> set p" for p using contains_set by blast
  from this [of "''MINIC_RV64I_ASM_BEGIN''"] this [of "''MINIC_RV64I_ASM_END''"] show ?thesis
    by (auto simp: marker_free_def)
qed

lemma ref_blank_line: "list_all blank b \<Longrightarrow> ref_line r (n, b @ ''\<newline>'') = r"
proof -
  assume b: "list_all blank b"
  have "blank c \<Longrightarrow> is_ws c" for c by (auto simp: blank_cases)
  with b have "strip (b @ ''\<newline>'') = []" by (intro strip_blanks) (simp add: list_all_iff)
  moreover have "CHR ''#'' \<notin> set (b @ ''\<newline>'')" using not_in_blanks [OF b, of "CHR ''#''"] by simp
  ultimately show ?thesis using ref_plain_line [of "b @ ''\<newline>''"] blank_free [OF b] by simp
qed

lemma rstrip_append: "x \<noteq> [] \<Longrightarrow> \<not> is_ws (last x) \<Longrightarrow> rstrip (x @ y) = x @ rstrip y"
  by (cases x rule: rev_cases) (auto simp: rstrip_def dropWhile_append)

lemma label_match:
  assumes "list_all event_label_char l" and "l \<noteq> []"
  shows "\<exists>m. re_match LABEL (l @ '':'') = Some m \<and> rm_end m = length l + 1"
proof -
  let ?m = "start_state 0 None (l @ '':'')"
  have run: "takeWhile label_char (l @ '':'') = l"
    by (rule takeWhile_run) (use assms in \<open>auto simp: list_all_iff event_label_label\<close>)
  have "matches (RSeq (RSet (\<lambda>c. c = CHR '':'')) (RStar (RSet is_ws))) (eaten (length l) ?m) = [eaten (Suc (length l)) ?m]"
  proof -
    have "matches (RSet (\<lambda>c. c = CHR '':'')) (eaten (length l) ?m) = [eaten 1 (eaten (length l) ?m)]"
      by (rule matches_set_hit [of _ "CHR '':''" "[]"]) (simp_all add: start_state_def)
    then show ?thesis by (simp add: matches_star_set eaten_eaten start_state_def del: matches.simps(2,5))
  qed
  moreover obtain k where "length l = Suc k" using assms(2) by (cases l) auto
  ultimately have "\<exists>ms. matches LABEL ?m = eaten (Suc (length l)) ?m # ms"
    using run assms(2) down_hd [of k]
    by (simp add: LABEL_def matches_plus_set start_state_def del: matches.simps(2,5) down.simps)
  then show ?thesis by (auto simp: re_match_def match_at_def start_state_def)
qed

lemma ref_label_line:
  assumes "plain (PLabel l)"
  shows "ref_line r (n, l @ '':\<newline>'') = r"
proof -
  have l: "list_all event_label_char l" "l \<noteq> []" "marker_free (l @ '':\<newline>'')" using assms by auto
  obtain c cs where c: "l = c # cs" using l(2) by (cases l) auto
  have ec: "event_label_char c" using l(1) c by simp
  have "rstrip (l @ '':\<newline>'') = (l @ '':'') @ rstrip ''\<newline>''"
    using rstrip_append [of "l @ '':''" "''\<newline>''"] by (simp add: is_ws_def)
  moreover have "rstrip ''\<newline>'' = []" by code_simp
  moreover have "lstrip (l @ '':\<newline>'') = l @ '':\<newline>''" using event_label_not_ws [OF ec] c by (simp add: lstrip_def)
  ultimately have s: "strip (l @ '':\<newline>'') = l @ '':''" by (simp add: strip_def)
  have "drop_labels (l @ '':'') = []"
    using label_match [OF l(1,2)] by (subst drop_labels.simps) (auto simp: l)
  moreover have "CHR ''#'' \<notin> set (l @ '':\<newline>'')" using l(1) by (auto simp: list_all_iff)
  moreover have "hd l \<noteq> CHR ''#''" using ec c by auto
  ultimately show ?thesis using ref_plain_line [of "l @ '':\<newline>''"] s l by simp
qed

lemma not_label_stop:
  assumes w: "op_word w" and lt: "t = [] \<or> \<not> label_char (hd t)" and ct: "t = [] \<or> hd t \<noteq> CHR '':''"
  shows "re_match LABEL (w @ t) = None"
proof -
  note f = op_word_facts [OF w]
  let ?m = "start_state 0 None (w @ t)"
  have run: "takeWhile label_char (w @ t) = w"
    by (rule takeWhile_run) (use f lt in \<open>auto simp: list_all_iff event_label_label\<close>)
  have "\<not> is_digit (hd w)" using f(2) by (rule op_start_not_digit)
  then have digits: "matches (RPlus (RSet is_digit)) ?m = []" using f(1) by (cases w) (simp_all add: RPlus_def start_state_def)
  have miss: "matches (RSet (\<lambda>c. c = CHR '':'')) (eaten (Suc k) ?m) = []" if "k \<le> length w - 1" for k
  proof (rule matches_set_miss)
    have k: "Suc k \<le> length w" using that f(1) by (cases w) auto
    show "ms_rest (eaten (Suc k) ?m) = [] \<or> hd (ms_rest (eaten (Suc k) ?m)) \<noteq> CHR '':''"
    proof (cases "Suc k < length w")
      case True
      then have "event_label_char (w ! Suc k)" using f(4) by (simp add: list_all_iff)
      with True show ?thesis by (auto simp: start_state_def hd_drop_conv_nth nth_append)
    next
      case False
      with k have "Suc k = length w" by simp
      then show ?thesis using ct by (simp add: start_state_def)
    qed
  qed
  have "matches LABEL ?m = []"
    using digits miss run f(1)
    by (simp add: LABEL_def matches_plus_set [of label_char] start_state_def del: matches.simps(2,5))
  then show ?thesis by (simp add: re_match_def match_at_def)
qed


lemma not_label: "op_word w \<Longrightarrow> t = [] \<or> blank (hd t) \<Longrightarrow> re_match LABEL (w @ t) = None"
  by (rule not_label_stop) (auto simp: blank_cases)

lemma mnemonic_match:
  assumes w: "op_word w" and t: "t = [] \<or> blank (hd t)"
  shows "\<exists>m. re_match MNEMONIC (w @ t) = Some m \<and> group m 1 = w"
proof -
  note f = op_word_facts [OF w]
  let ?m = "start_state 0 None (w @ t)"
  have nt: "t = [] \<or> \<not> op_char (hd t)" using t by (auto simp: blank_cases dest: op_char_label)
  have "matches (RSeq (RSet op_start) (RStar (RSet op_char))) ?m = map (\<lambda>k. eaten (Suc k) ?m) (down (length w - 1))"
    by (rule matches_word [of _ w t]) (use f nt in \<open>auto simp: start_state_def\<close>)
  moreover have len: "Suc (length w - 1) = length w" using f(1) by (cases w) auto
  moreover have "down (length w - 1) = (length w - 1) # (if length w - 1 = 0 then [] else down (length w - 1 - 1))" by (rule down_hd)
  ultimately have group1: "\<exists>ms. matches (RGroup 1 (RSeq (RSet op_start) (RStar (RSet op_char)))) ?m = (eaten (length w) ?m)\<lparr>ms_caps := [(1, w)]\<rparr> # ms"
    by (auto simp: start_state_def simp del: down.simps matches.simps(2,3,5))
  have "word_before ((eaten (length w) ?m)\<lparr>ms_caps := cs\<rparr>)" "\<not> word_at ((eaten (length w) ?m)\<lparr>ms_caps := cs\<rparr>)" for cs
    using f t by (auto simp: word_before_def word_at_def start_state_def last_conv_nth nth_append blank_cases is_word_def Let_def
        is_alpha_def is_digit_def split: list.splits)
  moreover have "matches (RSeqs [RBol, g, RBound]) ?m = concat (map (matches RBound) (matches g ?m))" for g by (simp add: start_state_def)
  ultimately have "\<exists>ms. matches MNEMONIC ?m = (eaten (length w) ?m)\<lparr>ms_caps := [(1, w)]\<rparr> # ms"
    using group1 by (auto simp: MNEMONIC_def simp del: matches.simps(2,3,5,7) RSeqs.simps)
  then show ?thesis by (auto simp: re_match_def match_at_def group_def start_state_def)
qed

lemma ref_statement_line:
  assumes p: "plain (PStatement indent w operands)"
  shows "\<exists>t m. ref_line r (n, indent @ w @ operands @ ''\<newline>'') = ref_statement n (region_of r) r (w @ t) \<and> w @ t = strip (indent @ w @ operands @ ''\<newline>'') \<and>
    strip (w @ t) = w @ t \<and> re_match MNEMONIC (w @ t) = Some m \<and> group m 1 = w"
proof -
  let ?raw = "indent @ w @ operands @ ''\<newline>''" and ?t = "rstrip (operands @ ''\<newline>'')"
  have q: "list_all blank indent" "op_word w" "list_all operand_char operands" "operands = [] \<or> blank (hd operands)" "marker_free ?raw"
    using p by auto
  note f = op_word_facts [OF q(2)]
  have "event_label_char (last w)" "event_label_char (hd w)" using f(1,4) by (auto simp: list_all_iff)
  then have ends: "\<not> is_ws (last w)" "\<not> is_ws (hd w)" by (auto dest: event_label_not_ws)
  have "blank c \<Longrightarrow> is_ws c" for c by (auto simp: blank_cases)
  then have "lstrip ?raw = w @ operands @ ''\<newline>''"
    using q(1) ends(2) f(1) by (cases w) (simp_all add: lstrip_def dropWhile_append list_all_iff)
  then have s: "strip ?raw = w @ ?t" using rstrip_append [OF f(1) ends(1)] by (simp add: strip_def)
  have t: "?t = [] \<or> blank (hd ?t)"
  proof (cases operands)
    case Nil
    then show ?thesis by (simp add: rstrip_def)
  next
    case (Cons c cs)
    then show ?thesis using q(4) lstrip_rstrip_hd [of "operands @ ''\<newline>''"] by (cases "?t = []") auto
  qed
  have sub: "set ?t \<subseteq> set (operands @ ''\<newline>'')" by (auto simp: rstrip_def dest!: set_dropWhileD)
  have out: "CHR '';'' \<notin> set w" "CHR ''#'' \<notin> set w" using f(4) by (auto simp: list_all_iff)
  have "\<not> operand_char CHR '';''" "\<not> operand_char CHR ''#''" by (simp_all add: operand_char_def)
  then have ops: "CHR '';'' \<notin> set operands" "CHR ''#'' \<notin> set operands" using q(3) by (auto simp: list_all_iff)
  have semi: "CHR '';'' \<notin> set (w @ ?t)" using out(1) ops(1) subsetD [OF sub, of "CHR '';''"] by auto
  have hash: "CHR ''#'' \<notin> set ?raw" using not_in_blanks [OF q(1), of "CHR ''#''"] out(2) ops(2) by simp
  have "drop_labels (w @ ?t) = w @ ?t"
    using not_label [OF q(2) t] f(1) by (subst drop_labels.simps) simp
  moreover have "split_char CHR '';'' (w @ ?t) = [w @ ?t]" using split_char_join [of "[w @ ?t]" "CHR '';''"] semi by simp
  moreover have "hd w \<noteq> CHR ''#''" using \<open>event_label_char (hd w)\<close> by auto
  ultimately have "ref_line r (n, ?raw) = ref_statement n (region_of r) r (w @ ?t)"
    using ref_plain_line [of ?raw, OF _ q(5) hash] s f(1) by simp
  moreover have "strip (w @ ?t) = w @ ?t" using strip_idem [of ?raw] s by simp
  ultimately show ?thesis using mnemonic_match [OF q(2) t] s by metis
qed

lemma ref_statement_strip: "strip x = strip y \<Longrightarrow> ref_statement n g r x = ref_statement n g r y"
  by (simp add: ref_statement_def)

lemma region_ref_statement: "region_of (ref_statement n g r x) = region_of r"
  by (cases g) (auto simp: ref_statement_def region_of_def marker_error_def add_finding_def count_kind_def Let_def split: option.splits)

lemma ref_semicolon_line:
  assumes p: "plain (PStatement indent w [])" and q: "plain (PStatement gap w' operands)"
    and free: "marker_free (indent @ w @ CHR '';'' # gap @ w' @ operands @ ''\<newline>'')"
  shows "ref_line r (n, indent @ w @ CHR '';'' # gap @ w' @ operands @ ''\<newline>'') =
    ref_line (ref_line r (n, indent @ w @ ''\<newline>'')) (n, gap @ w' @ operands @ ''\<newline>'')"
proof -
  let ?seg = "gap @ w' @ operands @ ''\<newline>''"
  let ?raw = "indent @ w @ CHR '';'' # ?seg"
  have w: "list_all blank indent" "op_word w" and w': "list_all blank gap" "op_word w'" "list_all operand_char operands" using p q by auto
  note f = op_word_facts [OF w(2)] and f' = op_word_facts [OF w'(2)]
  have "event_label_char (hd w)" "event_label_char (last w)" "event_label_char (hd w')" "event_label_char (last w')"
    using f(1,4) f'(1,4) by (auto simp: list_all_iff)
  then have ends: "\<not> is_ws (hd w)" "\<not> is_ws (last w)" "hd w \<noteq> CHR ''#''" "\<not> is_ws (hd w')" "\<not> is_ws (last w')" by (auto dest: event_label_not_ws)
  have "blank c \<Longrightarrow> is_ws c" for c by (auto simp: blank_cases)
  then have l: "lstrip (indent @ w @ x) = w @ x" "lstrip (gap @ w' @ x) = w' @ x" for x
    using w(1) w'(1) ends(1,4) f(1) f'(1) by (cases w; cases w'; simp_all add: lstrip_def dropWhile_append list_all_iff)+
  have semi_ws: "\<not> is_ws CHR '';''" "\<not> label_char CHR '';''" by code_simp+
  have s: "strip ?raw = w @ CHR '';'' # rstrip ?seg"
    using rstrip_append [of "w @ '';''" ?seg] semi_ws by (simp add: strip_def l)
  have sub: "set (rstrip ?seg) \<subseteq> set ?seg" by (auto simp: rstrip_def dest!: set_dropWhileD)
  have "\<not> operand_char CHR '';''" "\<not> operand_char CHR ''#''" by (simp_all add: operand_char_def)
  then have "CHR '';'' \<notin> set operands" "CHR ''#'' \<notin> set operands" using w'(3) by (auto simp: list_all_iff)
  moreover have "CHR '';'' \<notin> set w'" "CHR ''#'' \<notin> set w'" "CHR ''#'' \<notin> set w" using f'(4) f(4) by (auto simp: list_all_iff)
  moreover have "\<not> blank CHR '';''" by code_simp
  then have "CHR '';'' \<notin> set gap" "CHR ''#'' \<notin> set gap" "CHR ''#'' \<notin> set indent" using not_in_blanks w(1) w'(1) by simp_all
  ultimately have ops: "CHR '';'' \<notin> set ?seg" "CHR ''#'' \<notin> set ?seg" and hash: "CHR ''#'' \<notin> set ?raw" by simp_all
  have "drop_labels (w @ CHR '';'' # rstrip ?seg) = w @ CHR '';'' # rstrip ?seg"
    using not_label_stop [OF w(2), of "CHR '';'' # rstrip ?seg"] semi_ws f(1) by (subst drop_labels.simps) simp
  moreover have "split_char CHR '';'' (w @ CHR '';'' # rstrip ?seg) = [w, rstrip ?seg]"
  proof -
    have "CHR '';'' \<notin> set w" "CHR '';'' \<notin> set (rstrip ?seg)" using f(4) ops(1) subsetD [OF sub, of "CHR '';''"] by (auto simp: list_all_iff)
    then show ?thesis using split_char_join [of "[w, rstrip ?seg]" "CHR '';''"] by auto
  qed
  ultimately have line: "ref_line r (n, ?raw) = ref_statement n (region_of r) (ref_statement n (region_of r) r w) (rstrip ?seg)"
    using ref_plain_line [of ?raw r n] free hash s f(1) ends(3) by simp
  obtain t where one: "ref_line r (n, indent @ w @ ''\<newline>'') = ref_statement n (region_of r) r (w @ t)" "w @ t = strip (indent @ w @ ''\<newline>'')"
    using ref_statement_line [OF p, of r n] by auto
  have lstrip_word: "lstrip w = w" using ends(1) f(1) by (cases w) (simp_all add: lstrip_def)
  have "strip w = strip (w @ t)" using one(2) l(1) [of "''\<newline>''"] lstrip_word rstrip_append [OF f(1) ends(2), of "''\<newline>''"] rstrip_append [OF f(1) ends(2), of "[]"]
    by (simp add: strip_def rstrip_def [of "''\<newline>''"] rstrip_def [of "[]"])
  then have first: "ref_line r (n, indent @ w @ ''\<newline>'') = ref_statement n (region_of r) r w" using one(1) ref_statement_strip by metis
  have two: "ref_line r' (n, ?seg) = ref_statement n (region_of r') r' (strip ?seg)" for r'
    using ref_statement_line [OF q, of r' n] by auto
  have "rstrip (rstrip x) = rstrip x" for x by (simp add: rstrip_def)
  moreover have "rstrip ?seg = gap @ w' @ rstrip (operands @ ''\<newline>'')" using rstrip_append [of "gap @ w'" "operands @ ''\<newline>''"] f'(1) ends(5) by simp
  ultimately have "strip (rstrip ?seg) = strip ?seg"
    using rstrip_append [OF f'(1) ends(5)] by (simp add: strip_def l(2))
  then have "strip (rstrip ?seg) = strip (strip ?seg)" by (simp only: strip_idem)
  then show ?thesis using line first two region_ref_statement ref_statement_strip by metis
qed

section \<open>Counting the markers\<close>

lemma count_sub_fuel: "p \<noteq> [] \<Longrightarrow> length s \<le> n \<Longrightarrow> length s \<le> k \<Longrightarrow> count_sub n p s = count_sub k p s"
proof (induction n arbitrary: s k)
  case (Suc n)
  show ?case
  proof (cases s)
    case (Cons c t)
    with Suc.prems obtain k' where k: "k = Suc k'" by (cases k) auto
    have "length (drop (length p) s) \<le> n" "length (drop (length p) s) \<le> k'" using Suc.prems k Cons by (cases p; simp)+
    then show ?thesis using Suc.IH [of "drop (length p) s" k'] Suc.IH [of t k'] Suc.prems Cons k by simp
  qed simp
qed simp

lemma occurrences_Nil [simp]: "occurrences_of p [] = 0"
  by (simp add: occurrences_of_def)

lemma occurrences_Cons:
  "p \<noteq> [] \<Longrightarrow> occurrences_of p (c # s) =
     (if startswith (c # s) p then 1 + occurrences_of p (drop (length p) (c # s)) else occurrences_of p s)"
  using count_sub_fuel [of p "drop (length p) (c # s)" "length s" "length (drop (length p) (c # s))"]
  by (cases p) (simp_all add: occurrences_of_def)

lemma startswith_line: "LF \<notin> set p \<Longrightarrow> startswith (u @ LF # r) p \<longleftrightarrow> startswith u p"
proof (induction u arbitrary: p)
  case Nil
  then show ?case by (cases p) (auto simp: startswith_def)
next
  case (Cons c u)
  then show ?case by (cases p) (auto simp: startswith_def)
qed

lemma startswith_length: "startswith u p \<Longrightarrow> length p \<le> length u"
  unfolding startswith_def by (metis length_take min.cobounded1)

lemma occurrences_line:
  assumes p: "p \<noteq> []" "LF \<notin> set p"
  shows "occurrences_of p (u @ LF # r) = occurrences_of p u + occurrences_of p r"
proof (induction "length u" arbitrary: u rule: less_induct)
  case less
  show ?case
  proof (cases u)
    case Nil
    have "\<not> startswith (LF # r) p" using startswith_line [OF p(2), of "[]" r] startswith_length [of "[]" p] p(1) by auto
    then show ?thesis using Nil p(1) by (simp add: occurrences_Cons)
  next
    case (Cons c v)
    show ?thesis
    proof (cases "startswith u p")
      case True
      have len: "length p \<le> length u" by (rule startswith_length [OF True])
      then have "occurrences_of p (drop (length p) u @ LF # r) = occurrences_of p (drop (length p) u) + occurrences_of p r"
        using p(1) Cons by (intro less) (cases p, auto)
      moreover have "drop (length p) (u @ LF # r) = drop (length p) u @ LF # r" using len by simp
      ultimately show ?thesis
        using True startswith_line [OF p(2), of u r] Cons p(1) occurrences_Cons [OF p(1), of c "v @ LF # r"] occurrences_Cons [OF p(1), of c v] by simp
    next
      case False
      moreover have "occurrences_of p (v @ LF # r) = occurrences_of p v + occurrences_of p r" using Cons by (intro less) simp
      ultimately show ?thesis
        using startswith_line [OF p(2), of u r] Cons occurrences_Cons [OF p(1), of c "v @ LF # r"] occurrences_Cons [OF p(1), of c v] by simp
    qed
  qed
qed

lemma occurrences_none: "p \<noteq> [] \<Longrightarrow> \<not> contains p s \<Longrightarrow> occurrences_of p s = 0"
  by (induction s) (simp_all add: occurrences_Cons)

lemma contains_append: "contains p s \<Longrightarrow> contains p (s @ t)"
  by (auto simp: contains_iff) (metis append.assoc)

lemma marker_occurrences:
  "occurrences_of ''MINIC_RV64I_ASM_BEGIN'' ''# MINIC_RV64I_ASM_BEGIN'' = 1" "occurrences_of ''MINIC_RV64I_ASM_BEGIN'' ''# MINIC_RV64I_ASM_END'' = 0"
  "occurrences_of ''MINIC_RV64I_ASM_END'' ''# MINIC_RV64I_ASM_BEGIN'' = 0" "occurrences_of ''MINIC_RV64I_ASM_END'' ''# MINIC_RV64I_ASM_END'' = 1"
  by code_simp+

lemma free_occurrences:
  "marker_free (u @ ''\<newline>'') \<Longrightarrow> occurrences_of ''MINIC_RV64I_ASM_BEGIN'' u = 0 \<and> occurrences_of ''MINIC_RV64I_ASM_END'' u = 0"
  using contains_append [of _ u "''\<newline>''"] by (auto simp: marker_free_def intro!: occurrences_none)

lemma line_occurrences:
  assumes "plain l"
  shows "occurrences_of ''MINIC_RV64I_ASM_BEGIN'' (line_text l) = (if l = PBegin then 1 else 0) \<and>
    occurrences_of ''MINIC_RV64I_ASM_END'' (line_text l) = (if l = PEnd then 1 else 0)"
proof (cases l)
  case (PLabel x)
  with assms free_occurrences [of "x @ '':''"] show ?thesis by simp
next
  case (PBlank b)
  with assms free_occurrences [OF blank_free, of b] show ?thesis by simp
next
  case (PStatement indent w operands)
  with assms free_occurrences [of "indent @ w @ operands"] show ?thesis by simp
qed (simp_all add: marker_occurrences)

lemma file_occurrences:
  "list_all plain ls \<Longrightarrow>
   occurrences_of ''MINIC_RV64I_ASM_BEGIN'' (file_text ls) = marker_events (\<lambda>w. w = ''BEGIN'') (List.map_filter line_event ls) \<and>
   occurrences_of ''MINIC_RV64I_ASM_END'' (file_text ls) = marker_events (\<lambda>w. w \<noteq> ''BEGIN'') (List.map_filter line_event ls)"
proof (induction ls)
  case (Cons l ls)
  then show ?case
    using line_occurrences [of l] occurrences_line [of "''MINIC_RV64I_ASM_BEGIN''" "line_text l" "file_text ls"]
      occurrences_line [of "''MINIC_RV64I_ASM_END''" "line_text l" "file_text ls"]
    by (cases l) (simp_all add: file_text_Cons)
qed (simp add: file_text_def)


section \<open>Agreement\<close>

definition same :: "tally \<Rightarrow> audit_state \<Rightarrow> bool" where
  "same r s \<longleftrightarrow> au_compiler r = au_compiler s \<and> au_inline r = au_inline s \<and> au_in_asm r = au_in_asm s \<and> au_origins r = au_origins s \<and>
     au_marker_errors r = au_marker_errors s \<and> au_directives r = au_directives s"

lemma same_steps:
  assumes "same r s"
  shows "same (marker_error r) (marker_error s)" "same (enter_asm r) (enter_asm s)" "same (leave_asm r) (leave_asm s)"
    "same (r\<lparr>au_directives := d\<rparr>) (s\<lparr>au_directives := d\<rparr>)" "same (count_kind g k r) (count_kind g k (count_op g k' s))"
    "same (add_finding n f r) s" "same r (s\<lparr>au_seen_begin := b\<rparr>)" "same r (s\<lparr>au_seen_end := b\<rparr>)" "region_of r = region_of s"
  using assms
  by (cases g; simp add: same_def marker_error_def enter_asm_def leave_asm_def count_kind_def count_op_def add_finding_def region_of_def)+

context finding_recorder
begin

lemma same_jot: "same r s \<Longrightarrow> same r (jot pos f s)"
  by (simp add: same_def)

lemma same_marker:
  assumes "same r s"
  shows "same (ref_marker n w r) (audit_marker jot pos w s)"
proof -
  have "au_in_asm r = au_in_asm s" using assms by (simp add: same_def)
  with assms show ?thesis by (simp add: ref_marker_def audit_marker_def Let_def same_steps same_jot)
qed

lemma same_classify:
  assumes sm: "same r s" and "strip part = part" and "re_match MNEMONIC part = Some m" and "group m 1 = w" and "part \<noteq> []"
  shows "same (ref_statement n g r part) (classify jot g pos w s)"
proof -
  have "au_directives r = au_directives s" using sm by (simp add: same_def)
  with assms show ?thesis by (simp add: ref_statement_def classify_def Let_def same_steps same_jot)
qed

lemma same_line:
  assumes p: "plain l" and sm: "same r s"
  shows "same (ref_line r (n, line_text l @ ''\<newline>'')) (case line_event l of None \<Rightarrow> s | Some e \<Rightarrow> audit_event jot s (pos, e))"
proof (cases l)
  case PBegin
  then show ?thesis using ref_marker_line(1) [of r n] same_marker [OF sm] by (simp add: audit_event_def)
next
  case PEnd
  then show ?thesis using ref_marker_line(2) [of r n] same_marker [OF sm] by (simp add: audit_event_def)
next
  case (PBlank b)
  then show ?thesis using ref_blank_line p sm by simp
next
  case (PLabel x)
  then show ?thesis using ref_label_line [of x r n] p sm by simp
next
  case (PStatement indent w operands)
  obtain t m where t: "ref_line r (n, indent @ w @ operands @ ''\<newline>'') = ref_statement n (region_of r) r (w @ t)"
    "strip (w @ t) = w @ t" "re_match MNEMONIC (w @ t) = Some m" "group m 1 = w"
    using ref_statement_line [OF p [unfolded PStatement], of r n] by blast
  have "w \<noteq> []" using p PStatement by (simp add: op_word_def)
  then have "same (ref_statement n (region_of r) r (w @ t)) (classify jot (region_of r) pos w s)"
    using same_classify [OF sm t(2-4)] by simp
  then show ?thesis using t(1) PStatement same_steps(9) [OF sm] by (simp add: audit_event_def Let_def)
qed

lemma same_file:
  assumes "list_all plain ls" and "map snd es = List.map_filter line_event ls" and "length ns = length ls" and "same r s"
  shows "same (foldl ref_line r (zip ns (map (\<lambda>l. line_text l @ ''\<newline>'') ls))) (foldl (audit_event jot) s es)"
  using assms
proof (induction ls arbitrary: es ns r s)
  case (Cons l ls)
  obtain n ns' where ns: "ns = n # ns'" using Cons.prems(3) by (cases ns) auto
  show ?case
  proof (cases "line_event l")
    case None
    have "same (ref_line r (n, line_text l @ ''\<newline>'')) s" using same_line [of l r s n] Cons.prems None by simp
    with None ns Cons.prems show ?thesis by (auto intro: Cons.IH)
  next
    case (Some e)
    then obtain pos es' where es: "es = (pos, e) # es'" using Cons.prems(2) by (cases es) auto
    have "same (ref_line r (n, line_text l @ ''\<newline>'')) (audit_event jot s (pos, e))" using same_line [of l r s n pos] Cons.prems Some by simp
    with Some es ns Cons.prems show ?thesis by (auto intro: Cons.IH)
  qed
qed simp

end


lemma same_row:
  "same r s \<Longrightarrow>
   ar_compiler (row_of path r) = ar_compiler (row_of path s) \<and> ar_inline (row_of path r) = ar_inline (row_of path s) \<and>
   ar_inline_regions (row_of path r) = ar_inline_regions (row_of path s) \<and> ar_marker_errors (row_of path r) = ar_marker_errors (row_of path s) \<and>
   ar_directives (row_of path r) = ar_directives (row_of path s) \<and> ar_compiler_non_i (row_of path r) = ar_compiler_non_i (row_of path s)"
  by (simp add: same_def row_of_def)

text \<open>
  C5. On a file of plain lines, whose decoding is the file itself, the fast scanner and the reference scanner report the same classes of the
  compiler's and of the inline instructions, the same number of regions, of marker errors, of unverified directives and of the
  compiler's instructions outside RV64I.
\<close>
theorem fast_matches_reference:
  assumes p: "list_all plain ls" and d: "decode (file_text ls) = file_text ls"
  shows "let fast = inspect decode path (file_text ls); reference = inspect_reference decode path (file_text ls) in
    ar_compiler fast = ar_compiler reference \<and> ar_inline fast = ar_inline reference \<and>
    ar_inline_regions fast = ar_inline_regions reference \<and> ar_marker_errors fast = ar_marker_errors reference \<and>
    ar_directives fast = ar_directives reference \<and> ar_compiler_non_i fast = ar_compiler_non_i reference"
proof -
  let ?data = "file_text ls"
  let ?jot = "record_finding ?data"
  let ?s = "foldl (audit_event ?jot) empty_audit (events decode ?data)"
  let ?lines = "map (\<lambda>l. line_text l @ ''\<newline>'') ls"
  let ?r = "foldl ref_line empty_tally (enumerate1 ?lines)"
  have sm: "same ?r ?s" unfolding enumerate1_def
    by (rule incremental.same_file) (use p file_events [OF p] in \<open>auto simp: same_def empty_tally_def empty_audit_def simp del: upt_Suc\<close>)
  have "reads empty_audit (map snd (events decode ?data)) ?s" by (rule incremental.events_read) simp
  then have "au_seen_begin ?s = occurrences_of ''MINIC_RV64I_ASM_BEGIN'' ?data" "au_seen_end ?s = occurrences_of ''MINIC_RV64I_ASM_END'' ?data"
    using file_events [OF p, of decode] file_occurrences [OF p] by (simp_all add: reads_def)
  then have "scan_with ?jot decode ?data =
      (if au_in_asm ?s then ?jot (length ?data) (finding_of None ''UNCLOSED_ASM'' None None None) (marker_error ?s) else ?s)"
    by (simp add: scan_with_def check_markers_def Let_def)
  moreover have "inspect_reference decode path ?data = row_of path
      (if au_in_asm ?r then add_finding (int (length ?lines)) (finding_of None ''UNCLOSED_ASM'' None None None) (marker_error ?r) else ?r)"
    using d file_lines_text [OF p] by (simp add: inspect_reference_def Let_def)
  moreover have "au_in_asm ?r = au_in_asm ?s" using sm by (simp add: same_def)
  moreover have "same (add_finding (int (length ?lines)) (finding_of None ''UNCLOSED_ASM'' None None None) (marker_error ?r))
      (?jot (length ?data) (finding_of None ''UNCLOSED_ASM'' None None None) (marker_error ?s))"
    using sm by (simp add: same_steps incremental.same_jot)
  ultimately show ?thesis using same_row [OF sm, of path] same_row [of _ _ path]
    by (simp add: Let_def inspect_def fast_row_of_def audit_row.defs)
qed

definition demo_lines :: "plain_line list" where
  "demo_lines = [PStatement [CHR 0x09] ''.globl'' '' main'', PLabel ''main'', PStatement [CHR 0x09] ''addi'' '' sp,sp,-16'', PBegin,
     PStatement '''' ''mul'' '' t0, t1, t2'', PEnd, PBlank '''', PStatement [CHR 0x09] ''ret'' '''']"

theorem fast_matches_reference_witness:
  "list_all plain demo_lines \<and>
   (let fast = inspect (\<lambda>x. x) ''probe.s'' (file_text demo_lines); reference = inspect_reference (\<lambda>x. x) ''probe.s'' (file_text demo_lines) in
    ar_compiler fast = ar_compiler reference \<and> ar_inline fast = ar_inline reference \<and>
    ar_inline_regions fast = ar_inline_regions reference \<and> ar_marker_errors fast = ar_marker_errors reference \<and>
    ar_directives fast = ar_directives reference \<and> ar_compiler_non_i fast = ar_compiler_non_i reference)"
proof -
  have "list_all plain demo_lines" by code_simp
  with fast_matches_reference [OF this, of "\<lambda>x. x" "''probe.s''"] show ?thesis by simp
qed

text \<open>
  C19. Right after the mnemonic a semicolon hides the line from the fast scanner: in a file of plain lines, a line that starts with a mnemonic and a
  semicolon, whatever follows up to its end, has no event, and the events of the file are those of the file without that line.  The reference reads
  such a line, when a plain statement follows the semicolon, as the two statements on lines of their own.
\<close>
theorem semicolon_hides_line:
  assumes "list_all plain pre" and "list_all plain post" and "plain (PStatement indent w [])" and "LF \<notin> set rest"
  shows "map snd (events decode (file_text pre @ indent @ w @ CHR '';'' # rest @ LF # file_text post)) = map snd (events decode (file_text (pre @ post))) \<and>
    (\<forall>gap w' operands r n. rest = gap @ w' @ operands \<and> plain (PStatement gap w' operands) \<and> marker_free (indent @ w @ CHR '';'' # rest @ ''\<newline>'') \<longrightarrow>
       ref_line r (n, indent @ w @ CHR '';'' # rest @ ''\<newline>'') =
       ref_line (ref_line r (n, line_text (PStatement indent w []) @ ''\<newline>'')) (n, line_text (PStatement gap w' operands) @ ''\<newline>''))"
proof (intro conjI allI impI)
  have w: "list_all blank indent" "op_word w" using assms(3) by auto
  show "map snd (events decode (file_text pre @ indent @ w @ CHR '';'' # rest @ LF # file_text post)) = map snd (events decode (file_text (pre @ post)))"
    by (rule semicolon_events [OF assms(1,2) w assms(4)])
  fix gap w' operands and r :: tally and n
  assume a: "rest = gap @ w' @ operands \<and> plain (PStatement gap w' operands) \<and> marker_free (indent @ w @ CHR '';'' # rest @ ''\<newline>'')"
  then have q: "plain (PStatement gap w' operands)" and free: "marker_free (indent @ w @ CHR '';'' # gap @ w' @ operands @ ''\<newline>'')" and rest: "rest = gap @ w' @ operands"
    by auto
  show "ref_line r (n, indent @ w @ CHR '';'' # rest @ ''\<newline>'') =
       ref_line (ref_line r (n, line_text (PStatement indent w []) @ ''\<newline>'')) (n, line_text (PStatement gap w' operands) @ ''\<newline>'')"
    using ref_semicolon_line [OF assms(3) q free, of r n] by (simp add: rest)
qed

theorem semicolon_hides_line_witness:
  "map snd (events (\<lambda>x. x) (file_text demo_lines @ ''nop;mul a0,a0,a0\<newline>'')) = map snd (events (\<lambda>x. x) (file_text demo_lines)) \<and>
   ar_compiler_non_i (inspect (\<lambda>x. x) ''a.s'' ''nop;mul a0,a0,a0\<newline>'') = 0 \<and>
   ar_compiler_non_i (inspect_reference (\<lambda>x. x) ''a.s'' ''nop;mul a0,a0,a0\<newline>'') = 1"
proof -
  have p: "list_all plain demo_lines" "plain (PStatement [] ''nop'' [])" by code_simp+
  have "LF \<notin> set ''mul a0,a0,a0''" by code_simp
  from semicolon_hides_line [OF p(1) _ p(2) this, of "[]" "\<lambda>x. x"] have
    "map snd (events (\<lambda>x. x) (file_text demo_lines @ ''nop;mul a0,a0,a0\<newline>'')) = map snd (events (\<lambda>x. x) (file_text demo_lines))"
    by (simp add: file_text_def [of "[]"])
  moreover have "ar_compiler_non_i (inspect (\<lambda>x. x) ''a.s'' ''nop;mul a0,a0,a0\<newline>'') = 0"
    "ar_compiler_non_i (inspect_reference (\<lambda>x. x) ''a.s'' ''nop;mul a0,a0,a0\<newline>'') = 1" by code_simp+
  ultimately show ?thesis by blast
qed

end
