(* ===== verification/JsonLine.thy ===== *)
theory JsonLine
  imports Json
begin

text \<open>
  \<^verbatim>\<open>json.dumps(v, sort_keys=True)\<close> on one line, and that it tells values apart: lists of integers, strings and such lists have different texts
  when they differ.  A tool that sorts rows by the text of their key therefore never has two rows with the same text.
\<close>

fun dumps_line :: "json \<Rightarrow> string" where
  "dumps_line JNull = ''null''"
| "dumps_line (JBool b) = (if b then ''true'' else ''false'')"
| "dumps_line (JInt i) = str_int i"
| "dumps_line (JStr t) = json_string t"
| "dumps_line (JList xs) = ''['' @ join '', '' (map dumps_line xs) @ '']''"
| "dumps_line (JObj kvs) =
     (let items = sort_key fst (map (\<lambda>(k, v). (k, dumps_line v)) kvs)
      in ''{'' @ join '', '' (map (\<lambda>(k, t). json_string k @ '': '' @ t) items) @ ''}'')"

section \<open>Integers\<close>

definition numeric :: "char \<Rightarrow> bool" where
  "numeric c \<longleftrightarrow> is_digit c \<or> c = CHR ''-''"

definition value_of_digits :: "string \<Rightarrow> int" where
  "value_of_digits s = foldl (\<lambda>a c. a * 10 + (of_char c - 48)) 0 s"

lemma of_digit_char: "0 \<le> d \<Longrightarrow> d < 10 \<Longrightarrow> (of_char (digit_char d) :: int) = 48 + d"
  by (simp add: digit_char_def)

lemma digits_of_value: "0 \<le> n \<Longrightarrow> value_of_digits (digits_of 10 n) = n \<and> list_all is_digit (digits_of 10 n) \<and> digits_of 10 n \<noteq> []"
proof (induction "10 :: int" n rule: digits_of.induct)
  case (1 n)
  have digit: "is_digit (digit_char d)" if "0 \<le> d" "d < 10" for d :: int
  proof -
    have "int (of_char (digit_char d)) = 48 + d" using of_digit_char [OF that] by (metis of_nat_of_char)
    with that show ?thesis by (simp add: is_digit_def Let_def)
  qed
  show ?case
  proof (cases "n < 10")
    case True
    with 1(2) show ?thesis by (simp add: digits_of.simps value_of_digits_def of_digit_char digit)
  next
    case False
    then have "value_of_digits (digits_of 10 (n div 10)) = n div 10 \<and> list_all is_digit (digits_of 10 (n div 10)) \<and> digits_of 10 (n div 10) \<noteq> []"
      using 1 by simp
    with False 1(2) show ?thesis
      by (simp add: digits_of.simps [of 10 n] value_of_digits_def of_digit_char digit)
  qed
qed

lemma str_int_inj: "str_int i = str_int j \<Longrightarrow> i = j"
proof -
  have minus: "CHR ''-'' # s \<noteq> digits_of 10 n" if "0 \<le> n" for s n
    using digits_of_value [OF that] by (cases "digits_of 10 n") (auto simp: is_digit_def)
  assume "str_int i = str_int j"
  then have "(i < 0 \<longleftrightarrow> j < 0) \<and> digits_of 10 \<bar>i\<bar> = digits_of 10 \<bar>j\<bar>"
    using minus [of "\<bar>i\<bar>"] minus [of "\<bar>j\<bar>"] minus [of "\<bar>i\<bar>", THEN not_sym] minus [of "\<bar>j\<bar>", THEN not_sym]
    by (auto simp: str_int_def split: if_splits)
  then have "(i < 0 \<longleftrightarrow> j < 0) \<and> \<bar>i\<bar> = \<bar>j\<bar>" using digits_of_value [of "\<bar>i\<bar>"] digits_of_value [of "\<bar>j\<bar>"] by (metis abs_ge_zero)
  then show ?thesis by (auto split: if_splits)
qed

lemma str_int_numeric: "list_all numeric (str_int i) \<and> str_int i \<noteq> []"
proof -
  have "list_all numeric s" if "list_all is_digit s" for s using that by (auto simp: list_all_iff numeric_def)
  then show ?thesis using digits_of_value [of "\<bar>i\<bar>"] by (auto simp: str_int_def numeric_def)
qed

text \<open>What may follow a value inside a list or at the end of a text.\<close>

definition closes :: "string \<Rightarrow> bool" where
  "closes x \<longleftrightarrow> x = [] \<or> hd x = CHR '','' \<or> hd x = CHR '']''"

lemma str_int_split:
  assumes "str_int i @ x = str_int j @ y" and "closes x" and "closes y"
  shows "i = j \<and> x = y"
proof -
  have take: "takeWhile numeric (str_int i @ x) = str_int i" if "closes x" for i x
  proof -
    have "takeWhile numeric x = []" using that by (cases x) (auto simp: closes_def numeric_def is_digit_def)
    then show ?thesis using str_int_numeric [of i] by (simp add: list_all_iff takeWhile_append)
  qed
  have "str_int i = str_int j" using take [OF assms(2), of i] take [OF assms(3), of j] assms(1) by simp
  then show ?thesis using assms(1) str_int_inj by auto
qed

section \<open>Strings\<close>

text \<open>The reader of one escaped character.\<close>

definition hex_of :: "char \<Rightarrow> int" where
  "hex_of c = (case digit_value c of None \<Rightarrow> 0 | Some d \<Rightarrow> d)"

fun unescape :: "string \<Rightarrow> char \<times> string" where
  "unescape (a # b # c # d # e # f # s) =
     (if a = CHR 0x5C then
        (if b = CHR ''u'' then (char_of (16 * hex_of e + hex_of f), s)
         else (if b = CHR ''n'' then CHR 0x0A else if b = CHR ''r'' then CHR 0x0D else if b = CHR ''t'' then CHR 0x09
               else if b = CHR ''b'' then CHR 0x08 else if b = CHR ''f'' then CHR 0x0C else b, c # d # e # f # s))
      else (a, b # c # d # e # f # s))"
| "unescape (a # b # s) =
     (if a = CHR 0x5C then
        (if b = CHR ''n'' then CHR 0x0A else if b = CHR ''r'' then CHR 0x0D else if b = CHR ''t'' then CHR 0x09
         else if b = CHR ''b'' then CHR 0x08 else if b = CHR ''f'' then CHR 0x0C else b, s)
      else (a, b # s))"
| "unescape s = (hd s, tl s)"

lemma unescape_short:
  "b \<noteq> CHR ''u'' \<Longrightarrow> unescape (CHR 0x5C # b # s) =
     (if b = CHR ''n'' then CHR 0x0A else if b = CHR ''r'' then CHR 0x0D else if b = CHR ''t'' then CHR 0x09
      else if b = CHR ''b'' then CHR 0x08 else if b = CHR ''f'' then CHR 0x0C else b, s)"
  by (cases "CHR 0x5C # b # s" rule: unescape.cases) auto

lemma unescape_plain: "a \<noteq> CHR 0x5C \<Longrightarrow> unescape (a # s) = (a, s)"
  by (cases "a # s" rule: unescape.cases) auto

lemma hex_of_digit: "0 \<le> d \<Longrightarrow> d < 16 \<Longrightarrow> hex_of (digit_char d) = d"
  by (auto simp: hex_of_def digit_value_def digit_char_def)

lemma char_code: "(of_char c :: int) = of_char d \<Longrightarrow> c = d"
  by (simp only: of_char_eq_iff)

lemma unescape_escape: "unescape (escape_char c @ s) = (c, s)"
proof -
  let ?n = "of_char c :: int"
  have "?n mod 256 = ?n" by (rule of_char_mod_256)
  then have n: "0 \<le> ?n" "?n < 256" by (metis pos_mod_sign zero_less_numeral, metis pos_mod_bound zero_less_numeral)
  consider (quote) "?n = 34" | (slash) "?n = 92" | (named) "?n \<in> {10, 13, 9, 8, 12}" | (plain) "32 \<le> ?n" "?n \<le> 126" "?n \<noteq> 34" "?n \<noteq> 92"
    | (hex) "?n \<notin> {34, 92, 10, 13, 9, 8, 12}" "\<not> (32 \<le> ?n \<and> ?n \<le> 126)"
    by blast
  then show ?thesis
  proof cases
    case quote
    then have "c = CHR 0x22" using char_code [of c "CHR 0x22"] by simp
    then show ?thesis by (simp add: escape_char_def unescape_short)
  next
    case slash
    then have "c = CHR 0x5C" using char_code [of c "CHR 0x5C"] by simp
    then show ?thesis by (simp add: escape_char_def unescape_short)
  next
    case named
    then have "c \<in> {CHR 0x0A, CHR 0x0D, CHR 0x09, CHR 0x08, CHR 0x0C}"
      using char_code [of c "CHR 0x0A"] char_code [of c "CHR 0x0D"] char_code [of c "CHR 0x09"] char_code [of c "CHR 0x08"] char_code [of c "CHR 0x0C"]
      by auto
    then show ?thesis by (auto simp: escape_char_def unescape_short)
  next
    case plain
    then have "escape_char c = [c]" by (simp add: escape_char_def Let_def)
    moreover have "c \<noteq> CHR 0x5C" using plain(4) by auto
    ultimately show ?thesis by (simp add: unescape_plain)
  next
    case hex
    then have "escape_char c = [CHR 0x5C, CHR ''u'', CHR ''0'', CHR ''0'', digit_char (?n div 16), digit_char (?n mod 16)]"
      by (auto simp: escape_char_def Let_def)
    moreover have "16 * (?n div 16) + ?n mod 16 = ?n" by simp
    ultimately show ?thesis using n by (simp add: hex_of_digit)
  qed
qed

lemma escape_not_quote: "escape_char c @ s \<noteq> CHR 0x22 # t"
  using unescape_escape [of c s] by (auto simp: escape_char_def Let_def split: if_splits)

lemma escaped_split:
  "concat (map escape_char s) @ CHR 0x22 # x = concat (map escape_char t) @ CHR 0x22 # y \<Longrightarrow> s = t \<and> x = y"
proof (induction s arbitrary: t)
  case Nil
  show ?case
  proof (cases t)
    case Nil
    with \<open>concat (map escape_char []) @ CHR 0x22 # x = _\<close> show ?thesis by simp
  next
    case (Cons d t')
    with \<open>concat (map escape_char []) @ CHR 0x22 # x = _\<close> have "escape_char d @ concat (map escape_char t') @ CHR 0x22 # y = CHR 0x22 # x" by simp
    then show ?thesis by (simp only: escape_not_quote)
  qed
next
  case (Cons c s)
  have "t \<noteq> []"
  proof
    assume "t = []"
    with Cons.prems have "escape_char c @ concat (map escape_char s) @ CHR 0x22 # x = CHR 0x22 # y" by simp
    then show False by (simp only: escape_not_quote)
  qed
  then obtain d t' where t: "t = d # t'" by (cases t) auto
  from Cons.prems have "unescape (escape_char c @ concat (map escape_char s) @ CHR 0x22 # x) = unescape (escape_char d @ concat (map escape_char t') @ CHR 0x22 # y)"
    by (simp add: t)
  then show ?case using Cons.IH [of t'] by (simp add: t unescape_escape)
qed

section \<open>Values\<close>

text \<open>Integers, strings and lists of such values.\<close>

fun keylike :: "json \<Rightarrow> bool" where
  "keylike (JInt i) = True"
| "keylike (JStr s) = True"
| "keylike (JList xs) = list_all keylike xs"
| "keylike _ = False"

lemma dumps_line_first:
  assumes "keylike v"
  shows "dumps_line v \<noteq> [] \<and> hd (dumps_line v) \<noteq> CHR '']'' \<and> hd (dumps_line v) \<noteq> CHR '','' \<and>
    (hd (dumps_line v) = CHR 0x22 \<longleftrightarrow> (\<exists>s. v = JStr s)) \<and> (hd (dumps_line v) = CHR ''['' \<longleftrightarrow> (\<exists>xs. v = JList xs))"
proof (cases v)
  case (JInt i)
  have "str_int i \<noteq> [] \<and> numeric (hd (str_int i))" using str_int_numeric [of i] by (cases "str_int i") auto
  with JInt show ?thesis by (auto simp: numeric_def is_digit_def)
qed (use assms in \<open>auto simp: json_string_def\<close>)

text \<open>The items of a list behind the first, and the end of the list.\<close>

definition items_text :: "json list \<Rightarrow> string" where
  "items_text xs = concat (map (\<lambda>v. '', '' @ dumps_line v) xs) @ '']''"

lemma dumps_line_list: "dumps_line (JList (v # vs)) = ''['' @ dumps_line v @ items_text vs"
proof -
  have "join '', '' (w # ws) = w @ concat (map (\<lambda>u. '', '' @ u) ws)" for w ws
    by (induction ws arbitrary: w) simp_all
  then show ?thesis by (simp add: items_text_def comp_def)
qed

lemma dumps_line_Nil: "dumps_line (JList []) = ''[]''"
  by simp

lemma list_not_closed: "keylike v \<Longrightarrow> CHR '']'' # x \<noteq> dumps_line v @ y"
  using dumps_line_first [of v] by (cases "dumps_line v") auto

lemma closes_items: "closes (items_text xs @ x)"
  by (cases xs) (simp_all add: items_text_def closes_def)

lemma items_split:
  assumes "\<And>v w x y. v \<in> set xs \<Longrightarrow> keylike w \<Longrightarrow> dumps_line v @ x = dumps_line w @ y \<Longrightarrow> closes x \<Longrightarrow> closes y \<Longrightarrow> v = w \<and> x = y"
    and "list_all keylike ys" and "items_text xs @ x = items_text ys @ y"
  shows "xs = ys \<and> x = y"
  using assms
proof (induction xs arbitrary: ys)
  case Nil
  then show ?case by (cases ys) (simp_all add: items_text_def)
next
  case (Cons v vs)
  from Cons.prems(3) obtain w ws where ys: "ys = w # ws" by (cases ys) (simp_all add: items_text_def)
  have "dumps_line v @ items_text vs @ x = dumps_line w @ items_text ws @ y" using Cons.prems(3) by (simp add: ys items_text_def)
  then have "v = w \<and> items_text vs @ x = items_text ws @ y"
    by (rule Cons.prems(1) [rotated 2]) (use Cons.prems(2) in \<open>simp_all add: ys closes_items\<close>)
  moreover have "vs = ws \<and> x = y" if "items_text vs @ x = items_text ws @ y"
    using _ _ that by (rule Cons.IH) (use Cons.prems(1,2) in \<open>auto simp: ys\<close>)
  ultimately show ?case by (simp add: ys)
qed

lemma dumps_line_split:
  "keylike v \<Longrightarrow> keylike w \<Longrightarrow> dumps_line v @ x = dumps_line w @ y \<Longrightarrow> closes x \<Longrightarrow> closes y \<Longrightarrow> v = w \<and> x = y"
proof (induction v arbitrary: w x y)
  case (JInt i)
  have "hd (dumps_line (JInt i)) = hd (dumps_line w)"
    using JInt.prems(3) dumps_line_first [OF JInt.prems(1)] dumps_line_first [OF JInt.prems(2)] by (metis hd_append2)
  with JInt.prems dumps_line_first [OF JInt.prems(1)] dumps_line_first [OF JInt.prems(2)] obtain j where "w = JInt j"
    by (cases w) auto
  with JInt.prems str_int_split show ?case by auto
next
  case (JStr s)
  have "hd (dumps_line (JStr s)) = hd (dumps_line w)"
    using JStr.prems(3) dumps_line_first [OF JStr.prems(1)] dumps_line_first [OF JStr.prems(2)] by (metis hd_append2)
  with dumps_line_first [OF JStr.prems(1)] dumps_line_first [OF JStr.prems(2)] obtain t where w: "w = JStr t" by auto
  have "concat (map escape_char s) @ CHR 0x22 # x = concat (map escape_char t) @ CHR 0x22 # y" using JStr.prems(3) by (simp add: w json_string_def)
  with escaped_split w show ?case by blast
next
  case (JList xs)
  have "hd (dumps_line (JList xs)) = hd (dumps_line w)"
    using JList.prems(3) dumps_line_first [OF JList.prems(1)] dumps_line_first [OF JList.prems(2)] by (metis hd_append2)
  with dumps_line_first [OF JList.prems(1)] dumps_line_first [OF JList.prems(2)] obtain ys where w: "w = JList ys" by auto
  show ?case
  proof (cases xs)
    case Nil
    with JList.prems(2,3) list_not_closed show ?thesis
      by (cases ys) (auto simp: w dumps_line_list dumps_line_Nil simp del: dumps_line.simps(5))
  next
    case (Cons v vs)
    have ks: "keylike v" "list_all keylike vs" "list_all keylike ys" using JList.prems(1,2) by (simp_all add: Cons w)
    then obtain u us where ys: "ys = u # us" using JList.prems(3) list_not_closed [of v, THEN not_sym]
      by (cases ys) (auto simp: w Cons dumps_line_list dumps_line_Nil simp del: dumps_line.simps(5))
    have "dumps_line v @ items_text vs @ x = dumps_line u @ items_text us @ y" using JList.prems(3) by (simp add: w Cons ys dumps_line_list del: dumps_line.simps(5))
    then have "v = u \<and> items_text vs @ x = items_text us @ y"
      by (rule JList.IH [rotated 3]) (use ks in \<open>simp_all add: Cons ys closes_items\<close>)
    moreover have "v' = w' \<and> x' = y'"
      if "v' \<in> set vs" "keylike w'" "dumps_line v' @ x' = dumps_line w' @ y'" "closes x'" "closes y'" for v' w' x' y'
      by (rule JList.IH [of v']) (use that ks in \<open>auto simp: Cons list_all_iff\<close>)
    then have "items_text vs @ x = items_text us @ y \<Longrightarrow> vs = us \<and> x = y"
      by (rule items_split) (use ks in \<open>simp_all add: ys\<close>)
    ultimately show ?thesis by (simp add: w Cons ys)
  qed
qed simp_all

lemma dumps_line_inj: "keylike v \<Longrightarrow> keylike w \<Longrightarrow> dumps_line v = dumps_line w \<Longrightarrow> v = w"
  using dumps_line_split [of v w "[]" "[]"] by (simp add: closes_def)

end
