(* ===== verification/SevenReceipt.thy ===== *)
theory SevenReceipt
  imports OriginAudit PyRepr FileStore JsonLine
begin

text \<open>
  \<^verbatim>\<open>tools/ci/summarize-rv64i-seven-v1.py\<close>: the receipt over the seven shards of the kernel.  Each shard has a report of the audit
  of \<open>OriginAudit\<close> and the list of its compilations.  The evidence directory is a function from the name of a shard to the reports found for
  it; reading a file may fail.  The texts of exceptions are an argument.

  Shown here: exactly when the receipt passes, and what that says of the audited files.
\<close>

definition SHARDS :: "(string \<times> int \<times> int) list" where
  [py_defs]: "SHARDS = [(''first500'', 0, 500), (''new500'', 500, 500), (''next500'', 1000, 500), (''next500b'', 1500, 500), (''next500c'', 2000, 500),
     (''next500d'', 2500, 500), (''final352'', 3000, 352)]"

text \<open>A report found for a shard: its document, and the document beside it unless that file is missing.\<close>

record receipt =
  rc_data :: "py_error + json"
  rc_batch :: "(py_error + json) option"

record seven_state =
  sv_scanned :: "(string \<times> int) list"
  sv_inline :: "(string \<times> int) list"
  sv_compiler_ops :: "(string \<times> int) list"
  sv_inline_ops :: "(string \<times> int) list"
  sv_failures :: "(string \<times> json) list list"
  sv_problems :: "string list"
  sv_rows :: "(string \<times> json) list list"
  sv_seen :: "int list"
  sv_printed :: "string list"

type_synonym 'a seven = "(seven_state, py_error, 'a) prog"

definition modP :: "('s \<Rightarrow> 's) \<Rightarrow> ('s, 'e, unit) prog" where
  [py_defs]: "modP f = (\<lambda>s. (f s, Inr ()))"

definition liftP :: "'e + 'a \<Rightarrow> ('s, 'e, 'a) prog" where
  [py_defs]: "liftP v = (\<lambda>s. (s, v))"

text \<open>\<^verbatim>\<open>v[k]\<close>, \<^verbatim>\<open>v.items()\<close> and \<^verbatim>\<open>int(v)\<close> on values read from a document.\<close>

definition jindex :: "json \<Rightarrow> string \<Rightarrow> py_error + json" where
  [py_defs]: "jindex v k = (case v of JObj d \<Rightarrow> jitem d k | _ \<Rightarrow> Inl (TypeError ''not subscriptable by a string''))"

definition jitems :: "json \<Rightarrow> py_error + (string \<times> json) list" where
  [py_defs]: "jitems v = (case v of JObj d \<Rightarrow> Inr d | _ \<Rightarrow> Inl (AttributeError ''items''))"

definition to_int :: "json \<Rightarrow> py_error + int" where
  [py_defs]: "to_int v = (case v of
     JInt i \<Rightarrow> Inr i
   | JBool b \<Rightarrow> Inr (if b then 1 else 0)
   | JStr t \<Rightarrow> of_option (ValueError t) (py_int 10 t)
   | _ \<Rightarrow> Inl (TypeError ''int() argument''))"

definition int_at :: "json \<Rightarrow> string \<Rightarrow> py_error + int" where
  [py_defs]: "int_at v k = bindE (jindex v k) to_int"

text \<open>\<^verbatim>\<open>int(s.get(k, 0))\<close>\<close>

definition int_get :: "json \<Rightarrow> string \<Rightarrow> py_error + int" where
  [py_defs]: "int_get v k = (case v of
     JObj d \<Rightarrow> (case map_of d k of None \<Rightarrow> Inr 0 | Some x \<Rightarrow> to_int x)
   | _ \<Rightarrow> Inl (AttributeError ''get''))"

definition problem :: "string \<Rightarrow> seven_state \<Rightarrow> seven_state" where
  [py_defs]: "problem text s = s\<lparr>sv_problems := sv_problems s @ [text]\<rparr>"

definition problem_if :: "bool \<Rightarrow> string \<Rightarrow> unit seven" where
  [py_defs]: "problem_if c text = modP (\<lambda>s. if c then problem text s else s)"

text \<open>\<^verbatim>\<open>for kind, amount in d.items(): counter[kind] += int(amount)\<close>\<close>

definition add_amount :: "((string \<times> int) list \<Rightarrow> seven_state \<Rightarrow> seven_state) \<Rightarrow> (seven_state \<Rightarrow> (string \<times> int) list) \<Rightarrow> string \<times> json \<Rightarrow> unit seven" where
  [py_defs]: "add_amount upd sel kv = bindP (liftP (to_int (snd kv))) (\<lambda>n. modP (\<lambda>s. upd (bump (fst kv) n (sel s)) s))"

definition add_amounts :: "((string \<times> int) list \<Rightarrow> seven_state \<Rightarrow> seven_state) \<Rightarrow> (seven_state \<Rightarrow> (string \<times> int) list) \<Rightarrow> py_error + json \<Rightarrow> unit seven" where
  [py_defs]: "add_amounts upd sel v = bindP (liftP (bindE v jitems)) (\<lambda>items. bindP (mapP (add_amount upd sel) items) (\<lambda>_. retP ()))"

definition range_int :: "int \<Rightarrow> int \<Rightarrow> int list" where
  [py_defs]: "range_int first n = map (\<lambda>k. first + int k) [0..<nat n]"

definition batch_list :: "json \<Rightarrow> py_error + json list" where
  [py_defs]: "batch_list v = (case v of JList rows \<Rightarrow> Inr rows | _ \<Rightarrow> Inl (ValueError ''batch results must be an array''))"

definition passes :: "json list \<Rightarrow> py_error + int" where
  [py_defs]: "passes batch = bindE (mapE (\<lambda>row. jindex row ''status'') batch) (\<lambda>vs. Inr (int (length (filter (\<lambda>v. v = JStr ''PASS'') vs))))"

definition dict_get :: "json \<Rightarrow> string \<Rightarrow> json \<Rightarrow> json" where
  [py_defs]: "dict_get v k dflt = (case v of JObj d \<Rightarrow> (case map_of d k of None \<Rightarrow> dflt | Some x \<Rightarrow> x) | _ \<Rightarrow> dflt)"

text \<open>The rows that did not pass; every row has been indexed before, so all are dictionaries.\<close>

definition failure_of :: "json \<Rightarrow> unit seven" where
  [py_defs]: "failure_of row =
     bindP (liftP (jindex row ''status'')) (\<lambda>status.
     if status = JStr ''PASS'' then retP ()
     else bindP (liftP (jindex row ''index'')) (\<lambda>index.
       modP (\<lambda>s. s\<lparr>sv_failures := sv_failures s @ [[(''index'', index), (''source'', dict_get row ''source'' JNull), (''status'', status),
          (''message'', JStr (take 240 (py_str (dict_get row ''message'' (JStr '''')))))]]\<rparr>)))"

section \<open>One shard\<close>

definition check_indices :: "string \<Rightarrow> int \<Rightarrow> int \<Rightarrow> json list \<Rightarrow> unit seven" where
  [py_defs]: "check_indices name first n batch =
     bindP (liftP (mapE (\<lambda>row. int_at row ''index'') batch)) (\<lambda>indices.
     bindP (problem_if (indices \<noteq> range_int first n)
        (name @ '': selected indices differ from frozen ['' @ str_int first @ '','' @ str_int (first + n) @ '')'')) (\<lambda>_.
     bindP (modP (\<lambda>st. if set (sv_seen st) \<inter> set indices \<noteq> {} then problem (name @ '': duplicate global TU indices'') st else st)) (\<lambda>_.
     modP (\<lambda>st. st\<lparr>sv_seen := sv_seen st @ indices\<rparr>))))"

definition check_numbers :: "string \<Rightarrow> int \<Rightarrow> json \<Rightarrow> json list \<Rightarrow> (int \<times> int \<times> int) seven" where
  [py_defs]: "check_numbers name n s batch =
     bindP (liftP (passes batch)) (\<lambda>passed.
     bindP (liftP (int_at s ''compile_pass'')) (\<lambda>compiled.
     bindP (liftP (int_at s ''files'')) (\<lambda>files.
     bindP (liftP (int_at s ''selected'')) (\<lambda>selected.
     bindP (problem_if (int (length batch) \<noteq> n \<or> selected \<noteq> int (length batch))
        (name @ '': selected '' @ str_int selected @ ''/'' @ str_int (int (length batch)) @ '' != '' @ str_int n)) (\<lambda>_.
     bindP (problem_if (compiled \<noteq> passed \<or> files \<noteq> passed)
        (name @ '': .s files '' @ str_int files @ '', compile_pass '' @ str_int compiled @ '', statuses PASS '' @ str_int passed)) (\<lambda>_.
     bindP (liftP (int_get s ''marker_errors'')) (\<lambda>marker_errors.
     bindP (problem_if (marker_errors \<noteq> 0) (name @ '': invalid inline-asm provenance markers'')) (\<lambda>_.
     bindP (liftP (int_get s ''compiler_non_i'')) (\<lambda>non_i_count.
     bindP (problem_if (non_i_count \<noteq> 0) (name @ '': non-RV64I compiler-generated mnemonics'')) (\<lambda>_.
       retP (selected, passed, files)))))))))))"

definition add_tables :: "json \<Rightarrow> unit seven" where
  [py_defs]: "add_tables s =
     bindP (add_amounts (\<lambda>c st. st\<lparr>sv_scanned := c\<rparr>) sv_scanned (jindex s ''compiler'')) (\<lambda>_.
     bindP (add_amounts (\<lambda>c st. st\<lparr>sv_inline := c\<rparr>) sv_inline (jindex s ''inline'')) (\<lambda>_.
     bindP (add_amounts (\<lambda>c st. st\<lparr>sv_compiler_ops := c\<rparr>) sv_compiler_ops (bindE (jindex s ''opcode_counts'') (\<lambda>v. jindex v ''compiler''))) (\<lambda>_.
     add_amounts (\<lambda>c st. st\<lparr>sv_inline_ops := c\<rparr>) sv_inline_ops (bindE (jindex s ''opcode_counts'') (\<lambda>v. jindex v ''inline'')))))"

definition shard_row :: "string \<Rightarrow> int \<Rightarrow> int \<times> int \<times> int \<Rightarrow> int \<Rightarrow> int \<Rightarrow> int \<Rightarrow> int \<Rightarrow> (string \<times> json) list" where
  [py_defs]: "shard_row name first numbers non_i_value regions errors directives = (case numbers of (selected, passed, files) \<Rightarrow>
     [(''shard'', JStr name), (''first'', JInt first), (''selected'', JInt selected), (''compile_pass'', JInt passed),
      (''asm_files'', JInt files), (''non_i'', JInt non_i_value), (''inline_regions'', JInt regions), (''marker_errors'', JInt errors),
      (''unchecked_directives'', JInt directives)])"

definition add_row :: "string \<Rightarrow> int \<Rightarrow> int \<times> int \<times> int \<Rightarrow> json \<Rightarrow> unit seven" where
  [py_defs]: "add_row name first numbers s =
     bindP (liftP (int_at s ''compiler_non_i'')) (\<lambda>non_i_value.
     bindP (liftP (int_at s ''inline_regions'')) (\<lambda>regions.
     bindP (liftP (int_at s ''marker_errors'')) (\<lambda>errors.
     bindP (liftP (int_get s ''unverified_directives'')) (\<lambda>directives.
     let row = shard_row name first numbers non_i_value regions errors directives in
     modP (\<lambda>st. st\<lparr>sv_rows := sv_rows st @ [row], sv_printed := sv_printed st @ [''RV64I_SEVEN_SHARD '' @ dumps_line (JObj row)]\<rparr>)))))"

definition read_receipt :: "string \<Rightarrow> int \<Rightarrow> int \<Rightarrow> receipt \<Rightarrow> py_error + json \<Rightarrow> unit seven" where
  [py_defs]: "read_receipt name first n r batch_file =
     bindP (liftP (rc_data r)) (\<lambda>data.
     bindP (liftP batch_file) (\<lambda>document.
     bindP (liftP (jindex data ''summary'')) (\<lambda>s.
     bindP (liftP (batch_list document)) (\<lambda>batch.
     bindP (check_indices name first n batch) (\<lambda>_.
     bindP (check_numbers name n s batch) (\<lambda>numbers.
     bindP (add_tables s) (\<lambda>_.
     bindP (mapP failure_of batch) (\<lambda>_.
     add_row name first numbers s))))))))"

text \<open>The exceptions that the loop turns into a problem; any other leaves the command.\<close>

definition caught :: "py_error \<Rightarrow> bool" where
  [py_defs]: "caught e = (case e of KeyError _ \<Rightarrow> True | TypeError _ \<Rightarrow> True | ValueError _ \<Rightarrow> True | OSError _ \<Rightarrow> True | _ \<Rightarrow> False)"

definition shard_problem :: "string \<Rightarrow> (string \<times> json) list \<Rightarrow> seven_state \<Rightarrow> seven_state" where
  [py_defs]: "shard_problem text row s = (problem text s)\<lparr>sv_rows := sv_rows s @ [row]\<rparr>"

definition one_shard :: "(py_error \<Rightarrow> string) \<Rightarrow> (string \<Rightarrow> receipt list) \<Rightarrow> string \<times> int \<times> int \<Rightarrow> unit seven" where
  [py_defs]: "one_shard exc_text evidence shard = (case shard of (name, first, n) \<Rightarrow>
     (case evidence name of
        [r] \<Rightarrow>
          (case rc_batch r of
             None \<Rightarrow> modP (shard_problem (name @ '': missing batch-results.json'')
                [(''shard'', JStr name), (''expected'', JInt n), (''missing_batch'', JBool True)])
           | Some batch_file \<Rightarrow>
               (\<lambda>s. case read_receipt name first n r batch_file s of
                  (s', Inr u) \<Rightarrow> (s', Inr u)
                | (s', Inl e) \<Rightarrow>
                    if caught e
                    then (shard_problem (name @ '': unreadable receipt: '' @ exc_text e)
                            [(''shard'', JStr name), (''expected'', JInt n), (''error'', JStr (exc_text e))] s', Inr ())
                    else (s', Inl e)))
      | found \<Rightarrow> modP (shard_problem (name @ '': expected one report, found '' @ str_int (int (length found)))
          [(''shard'', JStr name), (''expected'', JInt n), (''receipt_count'', JInt (int (length found)))])))"

section \<open>The receipt\<close>

record seven_report =
  sp_selected :: int
  sp_compile_pass :: int
  sp_missing :: "int list"
  sp_state :: seven_state
  sp_pass :: bool

definition row_sum :: "string \<Rightarrow> (string \<times> json) list list \<Rightarrow> int" where
  [py_defs]: "row_sum k rows = sum_list (map (\<lambda>row. case map_of row k of Some (JInt i) \<Rightarrow> i | _ \<Rightarrow> 0) rows)"

definition empty_seven :: seven_state where
  [py_defs]: "empty_seven = \<lparr> sv_scanned = [], sv_inline = [], sv_compiler_ops = [], sv_inline_ops = [], sv_failures = [], sv_problems = [],
     sv_rows = [], sv_seen = [], sv_printed = [] \<rparr>"

definition receipt_of :: "seven_state \<Rightarrow> seven_report" where
  [py_defs]: "receipt_of s0 =
     (let missing = filter (\<lambda>i. i \<notin> set (sv_seen s0)) (range_int 0 3352);
          s = (if missing \<noteq> [] then problem (''missing '' @ str_int (int (length missing)) @ '' frozen global indices'') s0 else s0);
          actual = row_sum ''selected'' (sv_rows s); passed = row_sum ''compile_pass'' (sv_rows s) in
      \<lparr> sp_selected = actual, sp_compile_pass = passed, sp_missing = missing, sp_state = s,
        sp_pass = (sv_problems s = [] \<and> sv_failures s = [] \<and> actual = 3352 \<and> passed = 3352 \<and> non_i (sv_scanned s) = 0) \<rparr>)"

definition summarise :: "(py_error \<Rightarrow> string) \<Rightarrow> (string \<Rightarrow> receipt list) \<Rightarrow> py_error + seven_report" where
  [py_defs]: "summarise exc_text evidence =
     (case mapP (one_shard exc_text evidence) SHARDS empty_seven of
        (s, Inl e) \<Rightarrow> Inl e
      | (s, Inr us) \<Rightarrow> Inr (receipt_of s))"

definition most_common :: "nat \<Rightarrow> (string \<times> int) list \<Rightarrow> (string \<times> int) list" where
  [py_defs]: "most_common k c = take k (sort_key (\<lambda>x. - snd x) c)"

definition message_of :: "(string \<times> json) list \<Rightarrow> string" where
  [py_defs]: "message_of row = (case map_of row ''message'' of Some (JStr t) \<Rightarrow> t | _ \<Rightarrow> [])"

definition error_groups :: "seven_state \<Rightarrow> (string \<times> int) list" where
  [py_defs]: "error_groups s = most_common 25 (foldl (\<lambda>c row. bump (message_of row) 1 c) [] (sv_failures s))"

definition json_pairs :: "(string \<times> int) list \<Rightarrow> json" where
  [py_defs]: "json_pairs c = JList (map (\<lambda>(k, n). JList [JStr k, JInt n]) c)"

definition json_of_receipt :: "seven_report \<Rightarrow> json" where
  [py_defs]: "json_of_receipt r = (let s = sp_state r in JObj
     [(''schema'', JStr ''minic-linux-rv64i-seven-3352-provenance-v1''), (''selected'', JInt (sp_selected r)), (''compile_pass'', JInt (sp_compile_pass r)),
      (''failed'', JInt (int (length (sv_failures s)))), (''missing_indices'', JList (map JInt (sp_missing r))),
      (''compiler_instruction_classes'', json_counter (sort_key fst (sv_scanned s))),
      (''inline_instruction_classes'', json_counter (sort_key fst (sv_inline s))),
      (''compiler_top_opcodes'', json_pairs (most_common 30 (sv_compiler_ops s))), (''inline_top_opcodes'', json_pairs (most_common 30 (sv_inline_ops s))),
      (''all_opcode_counts'', JObj [(''compiler'', json_counter (sort_key fst (sv_compiler_ops s))), (''inline'', json_counter (sort_key fst (sv_inline_ops s)))]),
      (''shards'', JList (map JObj (sv_rows s))), (''failed_tus'', JList (map JObj (sv_failures s))), (''error_groups'', json_pairs (error_groups s)),
      (''problems'', JList (map JStr (sv_problems s))), (''pass'', JBool (sp_pass r))])"

definition seven_lines :: "string \<Rightarrow> seven_report \<Rightarrow> string list" where
  [py_defs]: "seven_lines json_out r = (let s = sp_state r in
     sv_printed s @
     [''RV64I_SEVEN_SUMMARY '' @ dumps_line (JObj
        [(''selected'', JInt (sp_selected r)), (''compiled'', JInt (sp_compile_pass r)), (''failed'', JInt (int (length (sv_failures s)))),
         (''missing'', JInt (int (length (sp_missing r)))), (''compiler_I'', JInt (count_of (sv_scanned s) ''I'')),
         (''compiler_non_I'', JInt (non_i (sv_scanned s))), (''inline_M'', JInt (count_of (sv_inline s) ''M'')),
         (''inline_A'', JInt (count_of (sv_inline s) ''A'')), (''inline_Zicsr'', JInt (count_of (sv_inline s) ''Zicsr'')),
         (''inline_Zifencei'', JInt (count_of (sv_inline s) ''Zifencei'')), (''errors'', JInt (int (length (sv_problems s))))])] @
     map (\<lambda>(region, ops). ''RV64I_SEVEN_OPCODE_TOP origin='' @ region @ '' '' @
        join '' '' (map (\<lambda>(op, n). op @ '':'' @ str_int n) (take 20 (sort_key (\<lambda>(op, n). (- n, op)) ops))))
       [(''compiler'', sv_compiler_ops s), (''inline'', sv_inline_ops s)] @
     map (\<lambda>(reason, n). ''RV64I_SEVEN_FAIL_CLASS count='' @ str_int n @ '' reason='' @ take 220 reason) (take 15 (error_groups s)) @
     map (\<lambda>item. ''RV64I_SEVEN_FAILED_TU '' @ dumps_line (JObj item)) (take 45 (sv_failures s)) @
     [''RV64I_SEVEN_COMPLETE='' @ (if sp_pass r then ''PASS'' else ''INCOMPLETE'') @ '' receipt='' @ json_out])"

record seven_outcome =
  so_stdout :: "string list"
  so_stderr :: "string list"
  so_json :: json
  so_status :: int

definition seven_main :: "(py_error \<Rightarrow> string) \<Rightarrow> string \<Rightarrow> (string \<Rightarrow> receipt list) \<Rightarrow> py_error + seven_outcome" where
  [py_defs]: "seven_main exc_text json_out evidence =
     bindE (summarise exc_text evidence) (\<lambda>r.
       Inr \<lparr> so_stdout = seven_lines json_out r, so_stderr = map (\<lambda>e. ''RV64I_SEVEN_RECEIPT_ERROR '' @ e) (sv_problems (sp_state r)),
             so_json = json_of_receipt r, so_status = (if sp_pass r then 0 else 1) \<rparr>)"


section \<open>Successful runs\<close>

lemma modP_Inr [simp]: "modP f s = (t, Inr u) \<longleftrightarrow> t = f s"
  by (auto simp: modP_def)

lemma liftP_Inr [simp]: "liftP v s = (t, Inr x) \<longleftrightarrow> t = s \<and> v = Inr x"
  by (auto simp: liftP_def)

lemma problem_if_Inr [simp]: "problem_if c text s = (t, Inr u) \<longleftrightarrow> t = (if c then problem text s else s)"
  by (simp add: problem_if_def)

definition amounts :: "py_error + json \<Rightarrow> py_error + (string \<times> int) list" where
  "amounts v = bindE (bindE v jitems) (\<lambda>items. bindE (mapE (\<lambda>kv. to_int (snd kv)) items) (\<lambda>ns. Inr (zip (map fst items) ns)))"

text \<open>A field of the state with a counter in it.\<close>

locale counter_field =
  fixes upd :: "(string \<times> int) list \<Rightarrow> seven_state \<Rightarrow> seven_state" and sel :: "seven_state \<Rightarrow> (string \<times> int) list"
  assumes get_put: "sel (upd c s) = c" and put_put: "upd c (upd d s) = upd c s" and put_get: "upd (sel s) s = s"
begin

lemma amount_ok: "add_amount upd sel kv s = (t, Inr u) \<longleftrightarrow> (\<exists>n. to_int (snd kv) = Inr n \<and> t = upd (bump (fst kv) n (sel s)) s)"
  by (auto simp: add_amount_def bindP_Inr)

lemma amounts_run:
  "mapP (add_amount upd sel) items s = (t, Inr us) \<longleftrightarrow>
   (\<exists>ns. mapE (\<lambda>kv. to_int (snd kv)) items = Inr ns \<and> t = upd (counter_update (sel s) (zip (map fst items) ns)) s \<and> length us = length items)"
proof (induction items arbitrary: s us)
  case Nil
  then show ?case by (auto simp: counter_update_def put_get)
next
  case (Cons kv items)
  show ?case
    by (cases us) (auto simp: bindP_Inr amount_ok Cons.IH resE counter_update_def get_put put_put)
qed

lemma amounts_ok:
  "add_amounts upd sel v s = (t, Inr u) \<longleftrightarrow> (\<exists>d. amounts v = Inr d \<and> t = upd (counter_update (sel s) d) s)"
proof -
  have ex: "\<exists>us :: unit list. length us = length items" for items :: "(string \<times> json) list"
    by (rule exI [of _ "replicate (length items) ()"]) simp
  show ?thesis by (auto simp: add_amounts_def amounts_def bindP_Inr amounts_run ex resE)
qed

end

interpretation scanned: counter_field "\<lambda>c s. s\<lparr>sv_scanned := c\<rparr>" sv_scanned
  by unfold_locales simp_all

interpretation inline: counter_field "\<lambda>c s. s\<lparr>sv_inline := c\<rparr>" sv_inline
  by unfold_locales simp_all

interpretation compiler_ops: counter_field "\<lambda>c s. s\<lparr>sv_compiler_ops := c\<rparr>" sv_compiler_ops
  by unfold_locales simp_all

interpretation inline_ops: counter_field "\<lambda>c s. s\<lparr>sv_inline_ops := c\<rparr>" sv_inline_ops
  by unfold_locales simp_all

lemmas amounts_ok = scanned.amounts_ok inline.amounts_ok compiler_ops.amounts_ok inline_ops.amounts_ok

lemma failures_run:
  "mapP failure_of batch s = (t, Inr us) \<Longrightarrow>
   \<exists>fs. t = s\<lparr>sv_failures := sv_failures s @ fs\<rparr> \<and> (fs = [] \<longleftrightarrow> list_all (\<lambda>row. jindex row ''status'' = Inr (JStr ''PASS'')) batch)"
proof (induction batch arbitrary: s us)
  case (Cons row batch)
  then obtain s' us' where s': "failure_of row s = (s', Inr ())" and "mapP failure_of batch s' = (t, Inr us')"
    by (auto simp: bindP_Inr)
  with Cons.IH obtain fs where fs: "t = s'\<lparr>sv_failures := sv_failures s' @ fs\<rparr>"
    "fs = [] \<longleftrightarrow> list_all (\<lambda>row. jindex row ''status'' = Inr (JStr ''PASS'')) batch" by blast
  from s' consider "jindex row ''status'' = Inr (JStr ''PASS'')" "s' = s"
    | f where "jindex row ''status'' \<noteq> Inr (JStr ''PASS'')" "s' = s\<lparr>sv_failures := sv_failures s @ [f]\<rparr>"
    by (auto simp: failure_of_def bindP_Inr split: if_splits)
  then show ?case
  proof cases
    case 1
    with fs show ?thesis by auto
  next
    case 2
    with fs show ?thesis by (intro exI [of _ "f # fs"]) simp
  qed
qed simp

lemma failures_none: "list_all (\<lambda>row. jindex row ''status'' = Inr (JStr ''PASS'')) batch \<Longrightarrow> \<exists>us. mapP failure_of batch s = (s, Inr us)"
proof (induction batch arbitrary: s)
  case (Cons row batch)
  then have "failure_of row s = (s, Inr ())" by (simp add: failure_of_def bindP_def liftP_def retP_def)
  moreover obtain us where "mapP failure_of batch s = (s, Inr us)" using Cons by auto
  ultimately have "mapP failure_of (row # batch) s = (s, Inr (() # us))" by (simp add: bindP_def retP_def)
  then show ?case by blast
qed (simp add: retP_def)


section \<open>The contract of a receipt\<close>

definition all_pass :: "json list \<Rightarrow> bool" where
  "all_pass batch = list_all (\<lambda>row. jindex row ''status'' = Inr (JStr ''PASS'')) batch"

text \<open>\<open>proves first n s batch classes\<close>: the summary and the compilations show that all units from \<open>first\<close> on passed.\<close>

definition proves :: "int \<Rightarrow> int \<Rightarrow> json \<Rightarrow> json list \<Rightarrow> (string \<times> int) list \<Rightarrow> bool" where
  "proves first n s batch classes \<longleftrightarrow>
     mapE (\<lambda>row. int_at row ''index'') batch = Inr (range_int first n) \<and> all_pass batch \<and>
     int_at s ''compile_pass'' = Inr n \<and> int_at s ''files'' = Inr n \<and> int_at s ''selected'' = Inr n \<and>
     int_at s ''marker_errors'' = Inr 0 \<and> int_at s ''compiler_non_i'' = Inr 0 \<and> amounts (jindex s ''compiler'') = Inr classes"

text \<open>The remaining entries that the loop reads.\<close>

definition readable :: "json \<Rightarrow> bool" where
  "readable s \<longleftrightarrow>
     (\<exists>a b c x y. amounts (jindex s ''inline'') = Inr a \<and> amounts (bindE (jindex s ''opcode_counts'') (\<lambda>v. jindex v ''compiler'')) = Inr b \<and>
        amounts (bindE (jindex s ''opcode_counts'') (\<lambda>v. jindex v ''inline'')) = Inr c \<and> int_at s ''inline_regions'' = Inr x \<and>
        int_get s ''unverified_directives'' = Inr y)"

definition tables_of :: "json \<Rightarrow> bool" where
  "tables_of s \<longleftrightarrow>
     (\<exists>a b c. amounts (jindex s ''inline'') = Inr a \<and> amounts (bindE (jindex s ''opcode_counts'') (\<lambda>v. jindex v ''compiler'')) = Inr b \<and>
        amounts (bindE (jindex s ''opcode_counts'') (\<lambda>v. jindex v ''inline'')) = Inr c)"

definition shard_proved :: "(string \<Rightarrow> receipt list) \<Rightarrow> string \<times> int \<times> int \<Rightarrow> (string \<times> int) list \<Rightarrow> bool" where
  "shard_proved evidence shard classes = (case shard of (name, first, n) \<Rightarrow>
     \<exists>r data sm batch. evidence name = [r] \<and> rc_data r = Inr data \<and> jindex data ''summary'' = Inr sm \<and> rc_batch r = Some (Inr (JList batch)) \<and>
       proves first n sm batch classes \<and> readable sm)"

lemma length_range_int [simp]: "0 \<le> n \<Longrightarrow> int (length (range_int first n)) = n"
  by (simp add: range_int_def)

lemma passes_all: "all_pass batch \<Longrightarrow> passes batch = Inr (int (length batch))"
proof -
  assume "all_pass batch"
  then have "mapE (\<lambda>row. jindex row ''status'') batch = Inr (map (\<lambda>row. JStr ''PASS'') batch)"
    by (intro mapE_total) (auto simp: all_pass_def list_all_iff)
  moreover have "length (filter (\<lambda>v. v = JStr ''PASS'') (map (\<lambda>row. JStr ''PASS'') batch)) = length batch"
    by (induction batch) auto
  ultimately show ?thesis by (simp add: passes_def)
qed

lemma int_get_at: "int_at s k = Inr x \<Longrightarrow> int_get s k = Inr x"
  by (auto simp: int_at_def int_get_def jindex_def jitem_def resE split: json.splits option.splits)

lemma problem_eq: "(if c then problem x s else s) = s\<lparr>sv_problems := sv_problems s @ (if c then [x] else [])\<rparr>"
  by (simp add: problem_def)

lemma check_indices_run:
  assumes "check_indices name first n batch s = (t, Inr u)"
  shows "\<exists>indices. mapE (\<lambda>row. int_at row ''index'') batch = Inr indices \<and> sv_seen t = sv_seen s @ indices \<and> sv_failures t = sv_failures s \<and>
    sv_scanned t = sv_scanned s \<and> sv_rows t = sv_rows s \<and>
    (sv_problems t = [] \<longleftrightarrow> sv_problems s = [] \<and> indices = range_int first n \<and> set (sv_seen s) \<inter> set indices = {})"
proof -
  from assms obtain indices s1 s2 where "mapE (\<lambda>row. int_at row ''index'') batch = Inr indices"
    "s1 = (if indices \<noteq> range_int first n then problem (name @ '': selected indices differ from frozen ['' @ str_int first @ '','' @ str_int (first + n) @ '')'') s else s)"
    "s2 = (if set (sv_seen s1) \<inter> set indices \<noteq> {} then problem (name @ '': duplicate global TU indices'') s1 else s1)"
    "t = s2\<lparr>sv_seen := sv_seen s2 @ indices\<rparr>"
    unfolding check_indices_def bindP_Inr liftP_Inr problem_if_Inr modP_Inr by blast
  then show ?thesis by (simp add: problem_eq)
qed

definition quiet :: "seven_state \<Rightarrow> seven_state \<Rightarrow> bool" where
  "quiet s t \<longleftrightarrow> sv_scanned t = sv_scanned s \<and> sv_failures t = sv_failures s \<and> sv_seen t = sv_seen s \<and> sv_rows t = sv_rows s"

lemma check_numbers_run:
  assumes "check_numbers name n sm batch s = (t, Inr numbers)"
  shows "\<exists>passed compiled files selected me ni. passes batch = Inr passed \<and> int_at sm ''compile_pass'' = Inr compiled \<and> int_at sm ''files'' = Inr files \<and>
     int_at sm ''selected'' = Inr selected \<and> int_get sm ''marker_errors'' = Inr me \<and> int_get sm ''compiler_non_i'' = Inr ni \<and>
     numbers = (selected, passed, files) \<and> quiet s t \<and>
     (sv_problems t = [] \<longleftrightarrow> sv_problems s = [] \<and> int (length batch) = n \<and> selected = n \<and> compiled = passed \<and> files = passed \<and> me = 0 \<and> ni = 0)"
  using assms by (simp add: check_numbers_def bindP_Inr problem_eq) (auto simp: quiet_def)

lemma add_tables_run:
  assumes "add_tables sm s = (t, Inr u)"
  shows "\<exists>classes. amounts (jindex sm ''compiler'') = Inr classes \<and> tables_of sm \<and> sv_scanned t = counter_update (sv_scanned s) classes \<and>
    sv_failures t = sv_failures s \<and> sv_seen t = sv_seen s \<and> sv_rows t = sv_rows s \<and> sv_problems t = sv_problems s"
  using assms by (auto simp: add_tables_def bindP_Inr amounts_ok tables_of_def)

lemma add_row_run:
  assumes "add_row name first numbers sm s = (t, Inr u)"
  shows "\<exists>x regions e d. int_at sm ''compiler_non_i'' = Inr x \<and> int_at sm ''marker_errors'' = Inr e \<and>
    int_at sm ''inline_regions'' = Inr regions \<and> int_get sm ''unverified_directives'' = Inr d \<and> sv_rows t = sv_rows s @ [shard_row name first numbers x regions e d] \<and> sv_scanned t = sv_scanned s \<and>
    sv_failures t = sv_failures s \<and> sv_seen t = sv_seen s \<and> sv_problems t = sv_problems s"
  using assms by (auto simp: add_row_def bindP_Inr Let_def simp del: dumps_line.simps)

lemma receipt_run:
  assumes "read_receipt name first n r batch_file s = (t, Inr u)" and "sv_problems t = []" and "sv_failures t = []"
  shows "\<exists>data sm batch classes. rc_data r = Inr data \<and> jindex data ''summary'' = Inr sm \<and> batch_file = Inr (JList batch) \<and>
    proves first n sm batch classes \<and> readable sm \<and> sv_problems s = [] \<and> sv_failures s = [] \<and> sv_scanned t = counter_update (sv_scanned s) classes"
proof -
  from assms(1) obtain data document sm batch s1 s2 s3 s4 numbers us where
    reads: "rc_data r = Inr data" "batch_file = Inr document" "jindex data ''summary'' = Inr sm" "batch_list document = Inr batch"
    and run: "check_indices name first n batch s = (s1, Inr ())" "check_numbers name n sm batch s1 = (s2, Inr numbers)"
      "add_tables sm s2 = (s3, Inr ())" "mapP failure_of batch s3 = (s4, Inr us)" "add_row name first numbers sm s4 = (t, Inr ())"
    by (auto simp: read_receipt_def bindP_Inr)
  obtain indices where 1: "mapE (\<lambda>row. int_at row ''index'') batch = Inr indices" "sv_failures s1 = sv_failures s" "sv_scanned s1 = sv_scanned s"
      "sv_problems s1 = [] \<longleftrightarrow> sv_problems s = [] \<and> indices = range_int first n \<and> set (sv_seen s) \<inter> set indices = {}"
    using check_indices_run [OF run(1)] by blast
  obtain fs where 4: "s4 = s3\<lparr>sv_failures := sv_failures s3 @ fs\<rparr>" "fs = [] \<longleftrightarrow> all_pass batch"
    using failures_run [OF run(4)] by (auto simp: all_pass_def)
  note 2 = check_numbers_run [OF run(2)] and 3 = add_tables_run [OF run(3)] and 5 = add_row_run [OF run(5)]
  have doc: "document = JList batch" using reads(4) by (auto simp: batch_list_def split: json.splits)
  have "sv_problems s2 = []" "fs = []" "sv_failures s2 = []" using assms(2,3) 3 4 5 by auto
  then have pass: "all_pass batch" using 4 by simp
  from 2 \<open>sv_problems s2 = []\<close> passes_all [OF pass] have
    n2: "int_at sm ''compile_pass'' = Inr n" "int_at sm ''files'' = Inr n" "int_at sm ''selected'' = Inr n" "int_get sm ''marker_errors'' = Inr 0"
      "int_get sm ''compiler_non_i'' = Inr 0" "sv_problems s1 = []" "quiet s1 s2" by auto
  then have "int_at sm ''marker_errors'' = Inr 0" "int_at sm ''compiler_non_i'' = Inr 0" using 5 int_get_at by fastforce+
  moreover have "sv_failures s = []" "sv_scanned s2 = sv_scanned s" using 1 n2 \<open>sv_failures s2 = []\<close> by (auto simp: quiet_def)
  moreover have "readable sm" using 3 5 by (auto simp: readable_def tables_of_def)
  ultimately show ?thesis
    using reads doc 1 3 4 5 pass n2 by (auto simp: proves_def)
qed

lemma one_shard_run:
  assumes run: "one_shard exc_text evidence shard s = (t, Inr u)" and "sv_problems t = []" and "sv_failures t = []"
  shows "\<exists>classes. shard_proved evidence shard classes \<and> sv_problems s = [] \<and> sv_failures s = [] \<and> sv_scanned t = counter_update (sv_scanned s) classes"
proof -
  obtain name first n where sh: "shard = (name, first, n)" by (cases shard)
  have np: "sv_problems (shard_problem x row s') \<noteq> []" for x row s' by (simp add: shard_problem_def problem_def)
  obtain r batch_file where r: "evidence name = [r]" "rc_batch r = Some batch_file" "read_receipt name first n r batch_file s = (t, Inr u)"
    using run assms(2) np unfolding sh one_shard_def
    by (auto split: list.splits option.splits prod.splits sum.splits if_splits)
  from receipt_run [OF r(3) assms(2,3)] r(1,2) show ?thesis unfolding sh shard_proved_def by force
qed

lemma shards_run:
  assumes "mapP (one_shard exc_text evidence) shards s = (t, Inr us)" and "sv_problems t = []" and "sv_failures t = []"
  shows "\<exists>cs. list_all2 (shard_proved evidence) shards cs \<and> sv_problems s = [] \<and> sv_failures s = [] \<and>
    sv_scanned t = foldl counter_update (sv_scanned s) cs"
  using assms
proof (induction shards arbitrary: s us)
  case Nil
  then show ?case by auto
next
  case (Cons shard shards)
  from Cons.prems(1) obtain s1 us1 where s1: "one_shard exc_text evidence shard s = (s1, Inr ())"
    and rest: "mapP (one_shard exc_text evidence) shards s1 = (t, Inr us1)" by (auto simp: bindP_Inr)
  from Cons.IH [OF rest Cons.prems(2,3)] obtain cs where cs: "list_all2 (shard_proved evidence) shards cs" "sv_problems s1 = []" "sv_failures s1 = []"
    "sv_scanned t = foldl counter_update (sv_scanned s1) cs" by auto
  from one_shard_run [OF s1 cs(2,3)] obtain c where "shard_proved evidence shard c" "sv_problems s = []" "sv_failures s = []"
    "sv_scanned s1 = counter_update (sv_scanned s) c" by auto
  with cs show ?case by (intro exI [of _ "c # cs"]) simp
qed

lemma non_i_folds: "distinct (keys c) \<Longrightarrow> non_i (foldl counter_update c cs) = non_i c + sum_list (map non_i cs)"
  by (induction cs arbitrary: c) (simp_all add: keys_counter_update weight_counter_update flip: weight_non_i)

lemma non_i_fold: "non_i (foldl counter_update [] cs) = sum_list (map non_i cs)"
  using non_i_folds [of "[]"] by (simp add: non_i_def)

section \<open>A receipt that is complete passes\<close>

lemma indices_exist: "mapE (\<lambda>row. int_at row ''index'') batch = Inr ixs \<Longrightarrow> \<exists>t. check_indices name first n batch s = (t, Inr ())"
  by (simp add: check_indices_def bindP_Inr)

lemma numbers_exist:
  "proves first n sm batch classes \<Longrightarrow> \<exists>t numbers. check_numbers name n sm batch s = (t, Inr numbers)"
  by (simp add: check_numbers_def bindP_Inr proves_def passes_all int_get_at)

lemma tables_exist: "amounts (jindex sm ''compiler'') = Inr classes \<Longrightarrow> readable sm \<Longrightarrow> \<exists>t. add_tables sm s = (t, Inr ())"
  by (auto simp: add_tables_def bindP_Inr amounts_ok readable_def)

lemma row_exists: "proves first n sm batch classes \<Longrightarrow> readable sm \<Longrightarrow> \<exists>t. add_row name first numbers sm s = (t, Inr ())"
  by (auto simp: add_row_def bindP_Inr proves_def readable_def Let_def)

lemma set_range_int: "set (range_int first n) = {first..<first + n}"
proof -
  have "x \<in> set (range_int first n)" if "first \<le> x" "x < first + n" for x
    using that by (auto simp: range_int_def intro!: image_eqI [of _ _ "nat (x - first)"])
  then show ?thesis by (auto simp: range_int_def)
qed


lemma receipt_good:
  assumes r: "rc_data r = Inr data" "jindex data ''summary'' = Inr sm" "batch_file = Inr (JList batch)"
    and p: "proves first n sm batch classes" "readable sm" and n: "0 \<le> n" and none: "sv_problems s = []" and fresh: "set (sv_seen s) \<inter> {first..<first + n} = {}"
  shows "\<exists>t row. read_receipt name first n r batch_file s = (t, Inr ()) \<and> sv_problems t = [] \<and> sv_failures t = sv_failures s \<and>
    sv_seen t = sv_seen s @ range_int first n \<and> sv_scanned t = counter_update (sv_scanned s) classes \<and> sv_rows t = sv_rows s @ [row] \<and>
    map_of row ''selected'' = Some (JInt n) \<and> map_of row ''compile_pass'' = Some (JInt n)"
proof -
  have ix: "mapE (\<lambda>row. int_at row ''index'') batch = Inr (range_int first n)" and pass: "all_pass batch"
    and cl: "amounts (jindex sm ''compiler'') = Inr classes" using p(1) by (simp_all add: proves_def)
  have "int (length batch) = int (length (range_int first n))" using mapE_Inr_length [OF ix] by simp
  also have "\<dots> = n" by (rule length_range_int [OF n])
  finally have len: "int (length batch) = n" .
  obtain s1 where s1: "check_indices name first n batch s = (s1, Inr ())" using indices_exist [OF ix] by blast
  obtain s2 numbers where s2: "check_numbers name n sm batch s1 = (s2, Inr numbers)" using numbers_exist [OF p(1)] by blast
  obtain s3 where s3: "add_tables sm s2 = (s3, Inr ())" using tables_exist [OF cl p(2)] by blast
  obtain us where s4: "mapP failure_of batch s3 = (s3, Inr us)" using failures_none pass unfolding all_pass_def by blast
  obtain t where t: "add_row name first numbers sm s3 = (t, Inr ())" using row_exists [OF p] by blast
  have run: "read_receipt name first n r batch_file s = (t, Inr ())"
    using r s1 s2 s3 s4 t by (simp add: read_receipt_def bindP_def liftP_def batch_list_def)
  have q1: "sv_problems s1 = []" "sv_seen s1 = sv_seen s @ range_int first n" "sv_failures s1 = sv_failures s" "sv_scanned s1 = sv_scanned s" "sv_rows s1 = sv_rows s"
    using check_indices_run [OF s1] ix none fresh by (auto simp: set_range_int)
  have q2: "numbers = (n, n, n)" "quiet s1 s2" "sv_problems s2 = []"
    using check_numbers_run [OF s2] p(1) passes_all [OF pass] len int_get_at [of sm "''marker_errors''" 0] int_get_at [of sm "''compiler_non_i''" 0] q1(1)
    by (auto simp: proves_def)
  have q3: "sv_scanned s3 = counter_update (sv_scanned s2) classes" "sv_failures s3 = sv_failures s2" "sv_seen s3 = sv_seen s2" "sv_rows s3 = sv_rows s2"
    "sv_problems s3 = sv_problems s2" using add_tables_run [OF s3] cl by auto
  obtain x regions e d where q4: "sv_rows t = sv_rows s3 @ [shard_row name first numbers x regions e d]" "sv_scanned t = sv_scanned s3"
    "sv_failures t = sv_failures s3" "sv_seen t = sv_seen s3" "sv_problems t = sv_problems s3" using add_row_run [OF t] by blast
  have "map_of (shard_row name first numbers x regions e d) ''selected'' = Some (JInt n)" "map_of (shard_row name first numbers x regions e d) ''compile_pass'' = Some (JInt n)"
    using q2(1) by (simp_all add: shard_row_def)
  then show ?thesis using run q1 q2 q3 q4 by (auto simp: quiet_def)
qed


lemma one_shard_good:
  assumes "shard_proved evidence (name, first, n) classes" and "0 \<le> n" and "sv_problems s = []" and "set (sv_seen s) \<inter> {first..<first + n} = {}"
  shows "\<exists>t row. one_shard exc_text evidence (name, first, n) s = (t, Inr ()) \<and> sv_problems t = [] \<and> sv_failures t = sv_failures s \<and>
    sv_seen t = sv_seen s @ range_int first n \<and> sv_scanned t = counter_update (sv_scanned s) classes \<and> sv_rows t = sv_rows s @ [row] \<and>
    map_of row ''selected'' = Some (JInt n) \<and> map_of row ''compile_pass'' = Some (JInt n)"
proof -
  obtain r data sm batch where r: "evidence name = [r]" "rc_batch r = Some (Inr (JList batch))" "rc_data r = Inr data" "jindex data ''summary'' = Inr sm"
    "proves first n sm batch classes" "readable sm" using assms(1) by (auto simp: shard_proved_def)
  obtain t row where t: "read_receipt name first n r (Inr (JList batch)) s = (t, Inr ())" "sv_problems t = []" "sv_failures t = sv_failures s"
    "sv_seen t = sv_seen s @ range_int first n" "sv_scanned t = counter_update (sv_scanned s) classes" "sv_rows t = sv_rows s @ [row]"
    "map_of row ''selected'' = Some (JInt n)" "map_of row ''compile_pass'' = Some (JInt n)"
    using receipt_good [OF r(3,4) refl r(5,6) assms(2,3,4)] by blast
  have "one_shard exc_text evidence (name, first, n) s = (t, Inr ())" using r(1,2) t(1) by (simp add: one_shard_def)
  with t show ?thesis by blast
qed

text \<open>Shards that follow one another.\<close>

fun contiguous :: "int \<Rightarrow> (string \<times> int \<times> int) list \<Rightarrow> bool" where
  "contiguous k [] = True"
| "contiguous k ((name, first, n) # shards) = (first = k \<and> 0 \<le> n \<and> contiguous (k + n) shards)"

fun total_of :: "(string \<times> int \<times> int) list \<Rightarrow> int" where
  "total_of [] = 0"
| "total_of ((name, first, n) # shards) = n + total_of shards"

lemma row_sum_append: "row_sum k (rows @ [row]) = row_sum k rows + (case map_of row k of Some (JInt i) \<Rightarrow> i | _ \<Rightarrow> 0)"
  by (simp add: row_sum_def)

lemma total_nonneg: "contiguous k shards \<Longrightarrow> 0 \<le> total_of shards"
  by (induction k shards rule: contiguous.induct) auto

lemma shards_good:
  assumes "list_all2 (shard_proved evidence) shards cs" and "contiguous k shards" and "0 \<le> k" and "set (sv_seen s) = {0..<k}"
    and "sv_problems s = []"
  shows "\<exists>t us. mapP (one_shard exc_text evidence) shards s = (t, Inr us) \<and> sv_problems t = [] \<and> sv_failures t = sv_failures s \<and>
    set (sv_seen t) = {0..<k + total_of shards} \<and> sv_scanned t = foldl counter_update (sv_scanned s) cs \<and>
    row_sum ''selected'' (sv_rows t) = row_sum ''selected'' (sv_rows s) + total_of shards \<and>
    row_sum ''compile_pass'' (sv_rows t) = row_sum ''compile_pass'' (sv_rows s) + total_of shards"
  using assms
proof (induction shards arbitrary: cs k s)
  case Nil
  then show ?case by (simp add: retP_def)
next
  case (Cons shard shards)
  obtain name n where sh: "shard = (name, k, n)" "0 \<le> n" "contiguous (k + n) shards" using Cons.prems(2) by (cases shard) auto
  obtain c cs' where cs: "cs = c # cs'" "shard_proved evidence (name, k, n) c" "list_all2 (shard_proved evidence) shards cs'"
    using Cons.prems(1) sh by (auto simp: list_all2_Cons1)
  have fresh: "set (sv_seen s) \<inter> {k..<k + n} = {}" using Cons.prems(4) by auto
  obtain s1 row where s1: "one_shard exc_text evidence (name, k, n) s = (s1, Inr ())" "sv_problems s1 = []" "sv_failures s1 = sv_failures s"
    "sv_seen s1 = sv_seen s @ range_int k n" "sv_scanned s1 = counter_update (sv_scanned s) c" "sv_rows s1 = sv_rows s @ [row]"
    "map_of row ''selected'' = Some (JInt n)" "map_of row ''compile_pass'' = Some (JInt n)"
    using one_shard_good [OF cs(2) sh(2) Cons.prems(5) fresh, of exc_text] by blast
  have seen: "set (sv_seen s1) = {0..<k + n}" using s1(4) Cons.prems(3,4) sh(2) by (simp add: set_range_int ivl_disj_un_two(3))
  have kn: "0 \<le> k + n" using Cons.prems(3) sh(2) by simp
  from Cons.IH [OF cs(3) sh(3) kn seen s1(2)] obtain t us where
    t: "mapP (one_shard exc_text evidence) shards s1 = (t, Inr us)" "sv_problems t = []" "sv_failures t = sv_failures s1"
    "set (sv_seen t) = {0..<k + n + total_of shards}" "sv_scanned t = foldl counter_update (sv_scanned s1) cs'"
    "row_sum ''selected'' (sv_rows t) = row_sum ''selected'' (sv_rows s1) + total_of shards"
    "row_sum ''compile_pass'' (sv_rows t) = row_sum ''compile_pass'' (sv_rows s1) + total_of shards" by blast
  have "mapP (one_shard exc_text evidence) (shard # shards) s = (t, Inr (() # us))" using s1(1) t(1) sh(1) by (simp add: bindP_def retP_def)
  then show ?case using t s1 sh(1) cs(1) by (auto simp: row_sum_append add.assoc)
qed


lemma SHARDS_facts: "contiguous 0 SHARDS" "total_of SHARDS = 3352"
  by (simp_all add: SHARDS_def)

lemma pass_proves:
  assumes "summarise exc_text evidence = Inr r" and "sp_pass r"
  shows "\<exists>cs. list_all2 (shard_proved evidence) SHARDS cs \<and> sum_list (map non_i cs) = 0"
proof -
  obtain s us where s: "mapP (one_shard exc_text evidence) SHARDS empty_seven = (s, Inr us)" and r: "r = receipt_of s"
    using assms(1) by (auto simp: summarise_def split: prod.splits sum.splits)
  have ok: "sv_problems s = []" "sv_failures s = []" "non_i (sv_scanned s) = 0"
    using assms(2) by (auto simp: r receipt_of_def problem_def Let_def split: if_splits)
  from shards_run [OF s ok(1,2)] obtain cs where "list_all2 (shard_proved evidence) SHARDS cs" "sv_scanned s = foldl counter_update [] cs"
    by (auto simp: empty_seven_def)
  with ok(3) show ?thesis by (auto simp: non_i_fold)
qed

lemma proves_pass:
  assumes "list_all2 (shard_proved evidence) SHARDS cs" and "sum_list (map non_i cs) = 0"
  shows "\<exists>r. summarise exc_text evidence = Inr r \<and> sp_pass r"
proof -
  obtain s us where s: "mapP (one_shard exc_text evidence) SHARDS empty_seven = (s, Inr us)" "sv_problems s = []" "sv_failures s = []"
    "set (sv_seen s) = {0..<3352}" "sv_scanned s = foldl counter_update [] cs" "row_sum ''selected'' (sv_rows s) = 3352" "row_sum ''compile_pass'' (sv_rows s) = 3352"
    using shards_good [OF assms(1) SHARDS_facts(1), of empty_seven exc_text] by (auto simp: SHARDS_facts empty_seven_def row_sum_def)
  have "filter (\<lambda>i. i \<notin> set (sv_seen s)) (range_int 0 3352) = []" using s(4) by (auto simp: filter_empty_conv set_range_int)
  then have "sp_pass (receipt_of s)" using s assms(2) by (simp add: receipt_of_def Let_def non_i_fold)
  then show ?thesis using s(1) by (simp add: summarise_def)
qed

lemma seven_status:
  "(\<exists>out. seven_main exc_text json_out evidence = Inr out \<and> so_status out = 0) \<longleftrightarrow>
   (\<exists>cs. list_all2 (shard_proved evidence) SHARDS cs \<and> sum_list (map non_i cs) = 0)"
proof
  assume "\<exists>out. seven_main exc_text json_out evidence = Inr out \<and> so_status out = 0"
  then obtain r where "summarise exc_text evidence = Inr r" "sp_pass r" by (auto simp: seven_main_def resE split: if_splits)
  then show "\<exists>cs. list_all2 (shard_proved evidence) SHARDS cs \<and> sum_list (map non_i cs) = 0" by (rule pass_proves)
next
  assume "\<exists>cs. list_all2 (shard_proved evidence) SHARDS cs \<and> sum_list (map non_i cs) = 0"
  then obtain r where "summarise exc_text evidence = Inr r" "sp_pass r" using proves_pass by blast
  then show "\<exists>out. seven_main exc_text json_out evidence = Inr out \<and> so_status out = 0" by (simp add: seven_main_def)
qed

text \<open>
  The command over the seven shards exits with status 0 exactly when every shard has one report, whose list of compilations is the frozen range of the
  shard with every status \<^verbatim>\<open>PASS\<close>, whose summary has as many files and passes as the shard has units, no marker error and no
  compiler instruction outside RV64I, whose tables can be read, and the classes other than \<^verbatim>\<open>I\<close> of all shards sum to zero.
\<close>
theorem seven_pass_iff:
  "(\<exists>out. seven_main exc_text json_out evidence = Inr out \<and> so_status out = 0) \<longleftrightarrow>
   (\<exists>cs. list_all2 (shard_proved evidence) SHARDS cs \<and> sum_list (map non_i cs) = 0)"
  by (rule seven_status)

section \<open>Receipts of the audit\<close>

text \<open>What the receipt reads of a summary is what the audit put there.\<close>

lemma amounts_counter: "amounts (Inr (json_counter c)) = Inr c"
proof -
  have "mapE (\<lambda>kv. to_int (snd kv)) (map (\<lambda>(k, n). (k, JInt n)) c) = Inr (map snd c)"
    by (induction c) (auto simp: to_int_def)
  moreover have "zip (map fst (map (\<lambda>(k, n). (k, JInt n)) c)) (map snd c) = c" by (induction c) auto
  ultimately show ?thesis by (simp add: amounts_def json_counter_def jitems_def)
qed

lemma summary_numbers:
  "int_at (json_of_summary s) ''files'' = Inr (as_files s)" "int_at (json_of_summary s) ''marker_errors'' = Inr (as_marker_errors s)"
  "int_at (json_of_summary s) ''compiler_non_i'' = Inr (as_compiler_non_i s)" "int_at (json_of_summary s) ''inline_regions'' = Inr (as_inline_regions s)"
  "int_get (json_of_summary s) ''unverified_directives'' = Inr (as_directives s)"
  "as_selected s = Some a \<Longrightarrow> int_at (json_of_summary s) ''selected'' = Inr a"
  "as_compile_pass s = Some b \<Longrightarrow> int_at (json_of_summary s) ''compile_pass'' = Inr b"
  by (simp_all add: int_at_def int_get_def jindex_def jitem_def json_of_summary_def to_int_def json_of_option_def)

lemma summary_tables:
  "amounts (jindex (json_of_summary s) ''compiler'') = Inr (as_compiler s)" "amounts (jindex (json_of_summary s) ''inline'') = Inr (as_inline s)"
  "amounts (bindE (jindex (json_of_summary s) ''opcode_counts'') (\<lambda>v. jindex v ''compiler'')) = Inr (as_compiler_ops s)"
  "amounts (bindE (jindex (json_of_summary s) ''opcode_counts'') (\<lambda>v. jindex v ''inline'')) = Inr (as_inline_ops s)"
  by (simp_all add: json_of_summary_def jindex_def jitem_def amounts_counter)

lemma summary_readable: "readable (json_of_summary s)"
  by (simp add: readable_def summary_numbers summary_tables)

lemma batch_passes_eq: "batch_passes batch = Inr k \<Longrightarrow> passes batch = Inr k"
proof -
  have "mapE batch_status batch = Inr oks \<Longrightarrow>
      \<exists>vs. mapE (\<lambda>row. jindex row ''status'') batch = Inr vs \<and> length (filter (\<lambda>v. v = JStr ''PASS'') vs) = length (filter (\<lambda>b. b) oks)" for oks
  proof (induction batch arbitrary: oks)
    case (Cons row batch)
    then obtain ok oks' where *: "batch_status row = Inr ok" "mapE batch_status batch = Inr oks'" "oks = ok # oks'" by (auto simp: resE)
    then obtain v where "jindex row ''status'' = Inr v" "ok = (v = JStr ''PASS'')"
      by (auto simp: batch_status_def jindex_def resE as_dict_def split: json.splits option.splits)
    with Cons.IH [OF *(2)] *(3) show ?case by auto
  qed simp
  then show "batch_passes batch = Inr k \<Longrightarrow> passes batch = Inr k" by (fastforce simp: batch_passes_def passes_def resE)
qed

text \<open>
  The evidence that the workflow collects: the report of the audit of a shard, run with the list of its compilations, beside that list.
\<close>

definition shard_audit :: "(string \<Rightarrow> string) \<Rightarrow> (string \<Rightarrow> audit_args) \<Rightarrow> (string \<Rightarrow> (string list \<times> string) list) \<Rightarrow> (string \<Rightarrow> json list) \<Rightarrow> string \<Rightarrow> py_error + audit_outcome" where
  "shard_audit decode args files batch name = origin_audit decode ((args name)\<lparr>aa_batch_results := Some (batch name)\<rparr>) (files name)"

definition shard_evidence ::
  "(string \<Rightarrow> string) \<Rightarrow> (string \<Rightarrow> audit_args) \<Rightarrow> (string \<Rightarrow> (string list \<times> string) list) \<Rightarrow> (string \<Rightarrow> json list) \<Rightarrow> string \<Rightarrow> receipt list" where
  "shard_evidence decode args files batch name =
     (case shard_audit decode args files batch name of
        Inl e \<Rightarrow> []
      | Inr out \<Rightarrow> (case ao_json out of
          None \<Rightarrow> []
        | Some report \<Rightarrow> [\<lparr> rc_data = Inr report, rc_batch = Some (Inr (JList (batch name))) \<rparr>]))"

text \<open>What the workflow means to establish for a shard.\<close>

definition shard_clean ::
  "(string \<Rightarrow> string) \<Rightarrow> (string \<Rightarrow> (string list \<times> string) list) \<Rightarrow> (string \<Rightarrow> json list) \<Rightarrow> string \<times> int \<times> int \<Rightarrow> bool" where
  "shard_clean decode files batch shard = (case shard of (name, first, n) \<Rightarrow>
     mapE (\<lambda>row. int_at row ''index'') (batch name) = Inr (range_int first n) \<and> all_pass (batch name) \<and>
     int (length (audit_paths (files name))) = n \<and>
     list_all (\<lambda>(parts, content). clean decode content \<and> base_only decode content) (audit_paths (files name)))"

lemma shard_summary:
  assumes "shard_evidence decode args files batch name = [r]"
  shows "\<exists>rows k. rows = inspected decode (args name) (audit_paths (files name)) \<and> passes (batch name) = Inr k \<and> audit_paths (files name) \<noteq> [] \<and>
    rc_batch r = Some (Inr (JList (batch name))) \<and>
    (\<exists>data. rc_data r = Inr data \<and> jindex data ''summary'' = Inr (json_of_summary (summary_of rows (Some (int (length (batch name)), k)))))"
  using assms unfolding shard_evidence_def shard_audit_def origin_audit_def
  by (auto simp: Let_def resE inspected_def jindex_def jitem_def dest!: batch_passes_eq split: sum.splits option.splits if_splits)

lemma batch_passes_all: "all_pass batch \<Longrightarrow> batch_passes batch = Inr (int (length batch))"
proof -
  assume p: "all_pass batch"
  have "batch_status row = Inr True" if "jindex row ''status'' = Inr (JStr ''PASS'')" for row
    using that by (auto simp: batch_status_def jindex_def as_dict_def split: json.splits)
  then have "mapE batch_status batch = Inr (map (\<lambda>row. True) batch)"
    using p by (intro mapE_total) (auto simp: all_pass_def list_all_iff)
  moreover have "length (filter (\<lambda>b. b) (map (\<lambda>row. True) batch)) = length batch" by (induction batch) auto
  ultimately show ?thesis by (simp add: batch_passes_def)
qed

lemma summary_fields:
  "as_files (summary_of rows batch) = int (length rows)" "as_marker_errors (summary_of rows batch) = sum_list (map ar_marker_errors rows)"
  "as_compiler_non_i (summary_of rows batch) = non_i (totals_of ar_compiler rows)" "as_selected (summary_of rows (Some (a, b))) = Some a"
  "as_compile_pass (summary_of rows (Some (a, b))) = Some b" "non_i (as_compiler (summary_of rows batch)) = non_i (totals_of ar_compiler rows)"
  by (simp_all add: summary_of_def flip: weight_non_i)

lemma length_inspected [simp]: "length (inspected decode args paths) = length paths"
  by (simp add: inspected_def)

lemma clean_both:
  "list_all (\<lambda>(parts, content). clean decode content \<and> base_only decode content) paths \<longleftrightarrow>
   list_all (\<lambda>(parts, content). clean decode content) paths \<and> list_all (\<lambda>(parts, content). base_only decode content) paths"
  by (auto simp: list_all_iff)

lemma proved_clean:
  assumes "shard_proved (shard_evidence decode args files batch) shard c"
  shows "shard_clean decode files batch shard \<and> non_i c = 0"
proof -
  obtain name first n where sh: "shard = (name, first, n)" by (cases shard)
  from assms obtain r data sm b where r: "shard_evidence decode args files batch name = [r]" "rc_data r = Inr data" "jindex data ''summary'' = Inr sm"
    "rc_batch r = Some (Inr (JList b))" and p: "proves first n sm b c" by (auto simp: sh shard_proved_def)
  let ?rows = "inspected decode (args name) (audit_paths (files name))"
  from shard_summary [OF r(1)] r(2-4) obtain k where k: "b = batch name" "sm = json_of_summary (summary_of ?rows (Some (int (length b), k)))" by auto
  have n: "int (length ?rows) = n" "sum_list (map ar_marker_errors ?rows) = 0" "non_i (totals_of ar_compiler ?rows) = 0"
    and c: "c = as_compiler (summary_of ?rows (Some (int (length b), k)))"
    using p by (auto simp: proves_def k(2) summary_numbers summary_tables summary_fields)
  have "shard_clean decode files batch shard"
    using p n k(1) rows_clean rows_base_only by (simp add: sh shard_clean_def proves_def clean_both)
  then show ?thesis using c n(3) by (simp add: summary_fields)
qed

lemma clean_proved:
  assumes "shard_clean decode files batch (name, first, n)" and "0 < n"
  shows "\<exists>c. shard_proved (shard_evidence decode args files batch) (name, first, n) c \<and> non_i c = 0"
proof -
  let ?paths = "audit_paths (files name)" and ?b = "batch name"
  let ?rows = "inspected decode (args name) ?paths"
  have ix: "mapE (\<lambda>row. int_at row ''index'') ?b = Inr (range_int first n)" and pass: "all_pass ?b" and len: "int (length ?paths) = n"
    and cl: "list_all (\<lambda>(parts, content). clean decode content) ?paths" "list_all (\<lambda>(parts, content). base_only decode content) ?paths"
    using assms(1) by (simp_all add: shard_clean_def clean_both)
  have "length ?b = length (range_int first n)" using mapE_Inr_length [OF ix] by simp
  then have lb: "int (length ?b) = n" using length_range_int [of n first] assms(2) by simp
  have "?paths \<noteq> []" using len assms(2) by auto
  let ?s = "summary_of ?rows (Some (n, n))"
  have ev: "\<exists>data. shard_evidence decode args files batch name = [\<lparr> rc_data = Inr data, rc_batch = Some (Inr (JList ?b)) \<rparr>] \<and>
      jindex data ''summary'' = Inr (json_of_summary ?s)"
    using \<open>?paths \<noteq> []\<close> batch_passes_all [OF pass] lb
    by (simp add: shard_evidence_def shard_audit_def origin_audit_def Let_def inspected_def jindex_def jitem_def)
  have "proves first n (json_of_summary ?s) ?b (as_compiler ?s)"
    using ix pass len cl rows_clean rows_base_only by (simp add: proves_def summary_numbers summary_tables summary_fields)
  then have "shard_proved (shard_evidence decode args files batch) (name, first, n) (as_compiler ?s)"
    using ev summary_readable by (auto simp: shard_proved_def)
  moreover have "non_i (as_compiler ?s) = 0" using cl(2) rows_base_only by (simp add: summary_fields)
  ultimately show ?thesis by blast
qed

lemma shards_clean_iff:
  "(\<exists>cs. list_all2 (shard_proved (shard_evidence decode args files batch)) SHARDS cs \<and> sum_list (map non_i cs) = 0) \<longleftrightarrow>
   list_all (shard_clean decode files batch) SHARDS"
proof
  assume "\<exists>cs. list_all2 (shard_proved (shard_evidence decode args files batch)) SHARDS cs \<and> sum_list (map non_i cs) = 0"
  then show "list_all (shard_clean decode files batch) SHARDS"
    using proved_clean by (fastforce simp: list_all_iff list_all2_conv_all_nth in_set_conv_nth)
next
  let ?P = "shard_proved (shard_evidence decode args files batch)"
  have step: "list_all (shard_clean decode files batch) shards \<Longrightarrow> list_all (\<lambda>(name, first, n). 0 < n) shards \<Longrightarrow>
      \<exists>cs. list_all2 ?P shards cs \<and> sum_list (map non_i cs) = 0" for shards
  proof (induction shards)
    case (Cons shard shards)
    obtain name first n where sh: "shard = (name, first, n)" by (cases shard)
    obtain c where "?P shard c" "non_i c = 0" using clean_proved [of decode files batch name first n args] Cons.prems sh by auto
    moreover obtain cs where "list_all2 ?P shards cs" "sum_list (map non_i cs) = 0" using Cons by auto
    ultimately show ?case by (intro exI [of _ "c # cs"]) simp
  qed simp
  assume "list_all (shard_clean decode files batch) SHARDS"
  then show "\<exists>cs. list_all2 ?P SHARDS cs \<and> sum_list (map non_i cs) = 0" by (rule step) (simp add: SHARDS_def)
qed

end
