(* ===== verification/Regression.thy ===== *)
theory Regression
  imports Json
begin

text \<open>
  \<^verbatim>\<open>tools/validation/run_toolchain_regression.py\<close>: the ledger of the regression gates.  Running \<^verbatim>\<open>make\<close> is an argument: it finishes with a status and
  two texts, or it exceeds the time limit, and then \<^verbatim>\<open>subprocess\<close> reports what it has captured as bytes, if anything, also in text mode.
  The running times are an argument that gives their printed form; the ledger's entry for them is left out.

  Shown here: when the ledger is written, and what it and the exit status say.
\<close>

type_synonym gate = "string \<times> string \<times> string list"

definition CORE_GATES :: "gate list" where
  [py_defs]: "CORE_GATES = [
     (''build'', ''release-build'', [''all'']),
     (''compiler'', ''check-fast'', [''check-fast'']),
     (''preprocessor'', ''minipp-a0'', [''check-minipp-a0'']),
     (''assembler'', ''minias-a0'', [''check-minias-a0'']),
     (''elf'', ''minielf-reader-a0'', [''check-minielf-reader-a0'']),
     (''archiver'', ''miniar-a0'', [''check-miniar-a0'']),
     (''linker'', ''minild-a3'', [''check-minild-a3''])]"

definition FULL_EXTRA_GATES :: "gate list" where
  [py_defs]: "FULL_EXTRA_GATES = [
     (''archiver'', ''miniar-a1'', [''check-miniar-a1'']),
     (''object-tools'', ''mininm-a0'', [''check-mininm-a0'']),
     (''object-tools'', ''mininm-a1'', [''check-mininm-a1'']),
     (''object-tools'', ''miniobjcopy-a0'', [''check-miniobjcopy-a0'']),
     (''object-tools'', ''miniobjcopy-a1'', [''check-miniobjcopy-a1'']),
     (''object-tools'', ''minicstrip-a0'', [''check-minicstrip-a0'']),
     (''linker'', ''minild-a0'', [''check-minild-a0'']),
     (''linker'', ''minild-a1'', [''check-minild-a1'']),
     (''linker'', ''minild-a2'', [''check-minild-a2'']),
     (''linker'', ''minild-a4'', [''check-minild-a4'']),
     (''linker'', ''minild-a5'', [''check-minild-a5'']),
     (''linker'', ''minild-a6'', [''check-minild-a6'']),
     (''linker'', ''minild-script-a0'', [''check-minild-script-a0'']),
     (''linker'', ''minild-script-a1'', [''check-minild-script-a1''])]"

definition FAILURE_HINT :: "(string \<times> string) list" where
  [py_defs]: "FAILURE_HINT = [(''build'', ''build-system''), (''compiler'', ''compiler''), (''preprocessor'', ''preprocessor''), (''assembler'', ''assembler''),
     (''elf'', ''object-format''), (''archiver'', ''archiver''), (''object-tools'', ''object-tools''), (''linker'', ''linker''), (''runtime'', ''runtime''),
     (''project'', ''project-closure'')]"

datatype make_result =
    Finished int string string
  | TimeoutExpired "string option" "string option"

text \<open>What the program has captured: a text or bytes.\<close>

datatype captured = Text string | Bytes string

text \<open>\<^verbatim>\<open>exc.stdout or ""\<close>\<close>

definition or_empty :: "string option \<Rightarrow> captured" where
  [py_defs]: "or_empty x = (case x of None \<Rightarrow> Text [] | Some b \<Rightarrow> if b = [] then Text [] else Bytes b)"

definition tail4000 :: "captured \<Rightarrow> captured" where
  [py_defs]: "tail4000 c = (case c of Text t \<Rightarrow> Text (last_n 4000 t) | Bytes b \<Rightarrow> Bytes (last_n 4000 b))"

record gate_result =
  gr_category :: string
  gr_name :: string
  gr_ok :: bool
  gr_status :: int
  gr_timed_out :: bool
  gr_hint :: "string option"
  gr_command :: "string list"
  gr_stdout_tail :: captured
  gr_stderr_tail :: captured

definition run_gate :: "(string list \<Rightarrow> py_error + make_result) \<Rightarrow> string list \<Rightarrow> gate \<Rightarrow> py_error + gate_result" where
  [py_defs]: "run_gate run common_make gate = (case gate of (category, name, targets) \<Rightarrow>
     let command = ''make'' # common_make @ targets in
     bindE (run command) (\<lambda>r.
     let (status, out, err, timed_out) = (case r of
            Finished rc stdout stderr \<Rightarrow> (rc, Text stdout, Text stderr, False)
          | TimeoutExpired stdout stderr \<Rightarrow> (124, or_empty stdout, or_empty stderr, True));
         ok = (status = 0) in
     Inr \<lparr> gr_category = category, gr_name = name, gr_ok = ok, gr_status = status, gr_timed_out = timed_out,
           gr_hint = (if ok then None else Some (case map_of FAILURE_HINT category of None \<Rightarrow> ''unknown'' | Some h \<Rightarrow> h)),
           gr_command = command, gr_stdout_tail = tail4000 out, gr_stderr_tail = tail4000 err \<rparr>))"

text \<open>\<^verbatim>\<open>json.dumps\<close> has no encoding for bytes.\<close>

definition json_captured :: "captured \<Rightarrow> py_error + json" where
  [py_defs]: "json_captured c = (case c of Text t \<Rightarrow> Inr (JStr t) | Bytes b \<Rightarrow> Inl (TypeError ''Object of type bytes is not JSON serializable''))"

definition json_of_gate :: "gate_result \<Rightarrow> py_error + json" where
  [py_defs]: "json_of_gate r =
     bindE (json_captured (gr_stdout_tail r)) (\<lambda>out. bindE (json_captured (gr_stderr_tail r)) (\<lambda>err.
       Inr (JObj [(''category'', JStr (gr_category r)), (''name'', JStr (gr_name r)), (''ok'', JBool (gr_ok r)), (''status'', JInt (gr_status r)),
         (''timed_out'', JBool (gr_timed_out r)), (''failure_class_hint'', json_of_option JStr (gr_hint r)), (''command'', JList (map JStr (gr_command r))),
         (''stdout_tail'', out), (''stderr_tail'', err)])))"

record regression_args =
  rg_profile :: string
  rg_build_dir :: string
  rg_riscv_cc :: "string option"
  rg_qemu :: "string option"

definition gates_of :: "regression_args \<Rightarrow> gate list" where
  [py_defs]: "gates_of args = (if rg_profile args = ''full'' then CORE_GATES @ FULL_EXTRA_GATES else CORE_GATES)"

definition env_or :: "string option \<Rightarrow> string \<Rightarrow> string" where
  [py_defs]: "env_or v d = (case v of None \<Rightarrow> d | Some x \<Rightarrow> x)"

definition common_make_of :: "regression_args \<Rightarrow> string list" where
  [py_defs]: "common_make_of args = [''-j4'', ''MODE=release'', ''CFLAGS=-Werror'', ''BUILD_DIR='' @ rg_build_dir args,
     ''RISCV_CC='' @ env_or (rg_riscv_cc args) ''riscv64-linux-gnu-gcc'', ''QEMU_RISCV64='' @ env_or (rg_qemu args) ''qemu-riscv64'']"

definition gate_lines :: "(string list \<Rightarrow> string) \<Rightarrow> gate_result \<Rightarrow> string list" where
  [py_defs]: "gate_lines seconds r =
     (let who = gr_category r @ ''::'' @ gr_name r in
      [''[toolchain-regression] START '' @ who,
       ''[toolchain-regression] '' @ (if gr_ok r then ''PASS'' else ''FAIL'') @ '' '' @ who @ '' status='' @ str_int (gr_status r) @
         '' seconds='' @ seconds (gr_command r)])"

record regression_outcome =
  rx_lines :: "string list"
  rx_ledger :: json
  rx_status :: int

definition ledger_of :: "regression_args \<Rightarrow> string \<Rightarrow> gate_result list \<Rightarrow> json list \<Rightarrow> json" where
  [py_defs]: "ledger_of args timestamp results rows = JObj
     [(''schema'', JInt 1), (''goal'', JStr ''C toolchain reusable regression ledger''), (''profile'', JStr (rg_profile args)),
      (''timestamp_utc'', JStr timestamp), (''total'', JInt (int (length results))), (''pass'', JInt (int (length (filter gr_ok results)))),
      (''fail'', JInt (int (length (filter (\<lambda>r. \<not> gr_ok r) results)))), (''results'', JList rows)]"

text \<open>\<open>written\<close> is the outcome of creating the directory of the ledger and of writing it.\<close>

definition regression_main ::
  "(string list \<Rightarrow> py_error + make_result) \<Rightarrow> (string list \<Rightarrow> string) \<Rightarrow> string \<Rightarrow> py_error + unit \<Rightarrow> regression_args \<Rightarrow> py_error + regression_outcome" where
  [py_defs]: "regression_main run seconds timestamp written args =
     bindE (mapE (run_gate run (common_make_of args)) (gates_of args)) (\<lambda>results.
     let fail = length (filter (\<lambda>r. \<not> gr_ok r) results);
         tally = str_int (int (length (filter gr_ok results))) @ ''/'' @ str_int (int (length results)) in
     bindE (mapE json_of_gate results) (\<lambda>rows.
     bindE written (\<lambda>_.
       Inr \<lparr> rx_lines = concat (map (gate_lines seconds) results) @
               [if fail = 0 then ''TOOLCHAIN_REGRESSION_V0=PASS '' @ tally else ''TOOLCHAIN_REGRESSION_V0=FAIL '' @ tally],
             rx_ledger = ledger_of args timestamp results rows, rx_status = (if fail = 0 then 0 else 1) \<rparr>)))"

section \<open>When the ledger is written\<close>

text \<open>A run the ledger can hold: it finished, or it printed nothing before the time limit.\<close>

definition silent :: "string option \<Rightarrow> bool" where
  "silent x = (x = None \<or> x = Some [])"

definition recordable :: "py_error + make_result \<Rightarrow> bool" where
  "recordable r = (case r of Inl e \<Rightarrow> False | Inr (Finished rc out err) \<Rightarrow> True | Inr (TimeoutExpired out err) \<Rightarrow> silent out \<and> silent err)"

definition succeeded :: "py_error + make_result \<Rightarrow> bool" where
  "succeeded r = (case r of Inr (Finished rc out err) \<Rightarrow> rc = 0 | _ \<Rightarrow> False)"

definition gate_command :: "regression_args \<Rightarrow> gate \<Rightarrow> string list" where
  "gate_command args g = (case g of (category, name, targets) \<Rightarrow> ''make'' # common_make_of args @ targets)"

lemma captured_silent: "(\<exists>j. json_captured (tail4000 (or_empty x)) = Inr j) \<longleftrightarrow> silent x"
  by (auto simp: or_empty_def tail4000_def silent_def json_captured_def last_n_def split: option.splits)

lemma run_gate_result:
  assumes "run_gate run (common_make_of args) g = Inr r"
  shows "gr_ok r = succeeded (run (gate_command args g))"
proof -
  obtain c n ts where g: "g = (c, n, ts)" by (cases g)
  from assms obtain m where "run (gate_command args g) = Inr m" by (auto simp: g run_gate_def gate_command_def resE Let_def)
  with assms show ?thesis by (cases m) (auto simp: g run_gate_def gate_command_def succeeded_def Let_def)
qed

lemma gate_recorded:
  "(\<exists>r j. run_gate run (common_make_of args) g = Inr r \<and> json_of_gate r = Inr j) \<longleftrightarrow> recordable (run (gate_command args g))"
proof -
  obtain c n ts where g: "g = (c, n, ts)" by (cases g)
  have seq: "(\<exists>j. bindE a (\<lambda>x. bindE b (\<lambda>y. Inr (f x y))) = Inr j) \<longleftrightarrow> (\<exists>x. a = Inr x) \<and> (\<exists>y. b = Inr y)" for a b :: "py_error + json" and f :: "json \<Rightarrow> json \<Rightarrow> json"
    by (auto simp: resE)
  show ?thesis
  proof (cases "run (gate_command args g)")
    case (Inl e)
    then show ?thesis by (simp add: g gate_command_def run_gate_def recordable_def)
  next
    case (Inr m)
    then show ?thesis
    proof (cases m)
      case (Finished rc out err)
      with Inr show ?thesis
        by (simp add: g gate_command_def run_gate_def recordable_def json_of_gate_def seq tail4000_def json_captured_def Let_def)
    next
      case (TimeoutExpired out err)
      with Inr show ?thesis
        by (simp add: g gate_command_def run_gate_def recordable_def json_of_gate_def seq captured_silent Let_def)
    qed
  qed
qed

lemma list_all_related: "list_all2 P xs ys \<Longrightarrow> (\<And>x y. P x y \<Longrightarrow> Q y = R x) \<Longrightarrow> list_all Q ys \<longleftrightarrow> list_all R xs"
  by (induction rule: list_all2_induct) auto

lemma mapE_compose_ex: "(\<exists>ys zs. mapE f xs = Inr ys \<and> mapE g ys = Inr zs) \<longleftrightarrow> list_all (\<lambda>x. \<exists>y z. f x = Inr y \<and> g y = Inr z) xs"
proof (induction xs)
  case (Cons x xs)
  have "(\<exists>ys zs. mapE f (x # xs) = Inr ys \<and> mapE g ys = Inr zs) \<longleftrightarrow>
      (\<exists>y z. f x = Inr y \<and> g y = Inr z) \<and> (\<exists>ys zs. mapE f xs = Inr ys \<and> mapE g ys = Inr zs)"
    by (force simp: resE)
  with Cons show ?case by simp
qed simp

text \<open>
  C18. The ledger is written exactly when its file can be written and every gate either ran to its end or printed nothing before its time limit; a gate that exceeds the
  limit after printing something loses the ledger of all gates.  The exit status is 0 exactly when, beyond that, every gate succeeded.
\<close>
theorem regression_ledger:
  "((\<exists>out. regression_main run seconds timestamp written args = Inr out) \<longleftrightarrow> written = Inr () \<and>
      list_all (\<lambda>g. recordable (run (gate_command args g))) (gates_of args)) \<and>
   ((\<exists>out. regression_main run seconds timestamp written args = Inr out \<and> rx_status out = 0) \<longleftrightarrow> written = Inr () \<and>
      list_all (\<lambda>g. succeeded (run (gate_command args g))) (gates_of args))"
proof -
  let ?f = "run_gate run (common_make_of args)" and ?gs = "gates_of args"
  have main: "regression_main run seconds timestamp written args = Inr out \<Longrightarrow> written = Inr () \<and>
      (\<exists>results rows. mapE ?f ?gs = Inr results \<and> mapE json_of_gate results = Inr rows \<and> (rx_status out = 0 \<longleftrightarrow> list_all gr_ok results))" for out
    by (auto simp: regression_main_def resE Let_def list_all_iff filter_empty_conv)
  have conv: "written = Inr () \<Longrightarrow> mapE ?f ?gs = Inr results \<Longrightarrow> mapE json_of_gate results = Inr rows \<Longrightarrow>
      \<exists>out. regression_main run seconds timestamp written args = Inr out \<and> (rx_status out = 0 \<longleftrightarrow> list_all gr_ok results)" for results rows
    by (auto simp: regression_main_def Let_def list_all_iff filter_empty_conv)
  have oks: "list_all gr_ok results \<longleftrightarrow> list_all (\<lambda>g. succeeded (run (gate_command args g))) ?gs" if "mapE ?f ?gs = Inr results" for results
    using that run_gate_result unfolding mapE_Inr_iff by (rule list_all_related)
  have recorded: "(\<exists>results rows. mapE ?f ?gs = Inr results \<and> mapE json_of_gate results = Inr rows) \<longleftrightarrow>
      list_all (\<lambda>g. recordable (run (gate_command args g))) ?gs"
    by (simp only: mapE_compose_ex gate_recorded)
  have "succeeded r \<Longrightarrow> recordable r" for r by (auto simp: succeeded_def recordable_def split: sum.splits make_result.splits)
  then have "list_all (\<lambda>g. succeeded (run (gate_command args g))) ?gs \<Longrightarrow> list_all (\<lambda>g. recordable (run (gate_command args g))) ?gs"
    by (simp add: list_all_iff)
  with main conv oks recorded show ?thesis by metis
qed

end
