(* ===== verification/MachineAudit.thy ===== *)
theory MachineAudit
  imports Captures PyRepr "HOL-Library.Word"
begin

text \<open>
  \<^verbatim>\<open>tests/compiler/c0/audit-rv64i-machine.py\<close>: the audit of the machine words of linked programs.  The decoder \<open>rv64i\<close> works on Python's
  integers with masks and shifts; the programs that print headers, attributes and the disassembly are an argument.

  Shown here: the decoder accepts exactly the encodings of a datatype of the RV64I base instructions, written down from the instruction formats of the
  architecture and not from the decoder; the built-in self test passes; a file that is accepted contains nothing else.
\<close>

unbundle bit_operations_syntax

section \<open>The decoder\<close>

definition rv64i :: "int \<Rightarrow> bool" where
  [py_defs]: "rv64i word =
     (let op = word AND 0x7F; f3 = drop_bit 12 word AND 7; f7 = drop_bit 25 word AND 0x7F in
      if word AND 3 \<noteq> 3 then False
      else if op \<in> {0x17, 0x37, 0x6F} then True
      else if op = 0x67 then f3 = 0
      else if op = 0x63 then f3 \<in> {0, 1, 4, 5, 6, 7}
      else if op = 0x03 then f3 \<in> {0, 1, 2, 3, 4, 5, 6}
      else if op = 0x23 then f3 \<in> {0, 1, 2, 3}
      else if op = 0x13 then
        (if f3 = 1 then drop_bit 26 word AND 0x3F = 0
         else if f3 = 5 then drop_bit 26 word AND 0x3F \<in> {0, 0x10}
         else f3 \<in> {0, 2, 3, 4, 6, 7})
      else if op = 0x1B then
        (if f3 = 0 then True else if f3 = 1 then f7 = 0 else if f3 = 5 then f7 \<in> {0, 0x20} else False)
      else if op = 0x33 then f7 = 0 \<or> f7 = 0x20 \<and> f3 \<in> {0, 5}
      else if op = 0x3B then f7 = 0 \<and> f3 \<in> {0, 1, 5} \<or> f7 = 0x20 \<and> f3 \<in> {0, 5}
      else if op = 0x0F then f3 = 0 \<and> drop_bit 28 word AND 0xF = 0
      else if op = 0x73 then word \<in> {0x00000073, 0x00100073}
      else False)"

definition good_words :: "int list" where
  [py_defs]: "good_words = [0x00000013, 0x00000513, 0x00008067, 0x0000006F, 0x40005013, 0x00000073, 0x00100073, 0x0000000F, 0x0000001B, 0x0000003B]"

definition bad_words :: "int list" where
  [py_defs]: "bad_words = [0x00000001, 0x02000033, 0x02004033, 0x0000202F, 0x02000053, 0xC0002073, 0x0000100F, 0x8000000F, 0x00000000, 0x40001013]"

definition selftest :: "py_error + unit" where
  [py_defs]: "selftest =
     bindE (foldE (\<lambda>u word. ensure (rv64i word) (RuntimeError (''decoder rejected base I encoding 0x'' @ hex_int_pad 8 word))) () good_words) (\<lambda>u.
       foldE (\<lambda>u word. ensure (\<not> rv64i word) (RuntimeError (''decoder accepted extension/reserved 0x'' @ hex_int_pad 8 word))) () bad_words)"

section \<open>The base instructions\<close>

text \<open>
  The reference: RV64I, with the fields as they stand in the formats.  Offsets of jumps and branches are the immediate fields of the word, in the order of
  its bits.
\<close>

type_synonym reg = "5 word"

datatype branch = BEQ | BNE | BLT | BGE | BLTU | BGEU
datatype load = LB | LH | LW | LD | LBU | LHU | LWU
datatype store = SB | SH | SW | SD
datatype op_imm = ADDI | SLTI | SLTIU | XORI | ORI | ANDI
datatype shift = SLL | SRL | SRA
datatype op_reg = ADD | SUB | OpShift shift | SLT | SLTU | XORR | ORR | ANDR

datatype instr =
    LUI reg "20 word"
  | AUIPC reg "20 word"
  | JAL reg "20 word"
  | JALR reg reg "12 word"
  | Branch branch reg reg "7 word" "5 word"
  | Load load reg reg "12 word"
  | Store store reg reg "7 word" "5 word"
  | OpImm op_imm reg reg "12 word"
  | ShiftImm shift reg reg "6 word"
  | ADDIW reg reg "12 word"
  | ShiftImmW shift reg reg "5 word"
  | Op op_reg reg reg reg
  | ADDW reg reg reg
  | SUBW reg reg reg
  | ShiftW shift reg reg reg
  | FENCE reg reg "4 word" "4 word"
  | ECALL
  | EBREAK

fun branch_f3 :: "branch \<Rightarrow> 3 word" where
  "branch_f3 BEQ = 0" | "branch_f3 BNE = 1" | "branch_f3 BLT = 4" | "branch_f3 BGE = 5" | "branch_f3 BLTU = 6" | "branch_f3 BGEU = 7"

fun load_f3 :: "load \<Rightarrow> 3 word" where
  "load_f3 LB = 0" | "load_f3 LH = 1" | "load_f3 LW = 2" | "load_f3 LD = 3" | "load_f3 LBU = 4" | "load_f3 LHU = 5" | "load_f3 LWU = 6"

fun store_f3 :: "store \<Rightarrow> 3 word" where
  "store_f3 SB = 0" | "store_f3 SH = 1" | "store_f3 SW = 2" | "store_f3 SD = 3"

fun op_imm_f3 :: "op_imm \<Rightarrow> 3 word" where
  "op_imm_f3 ADDI = 0" | "op_imm_f3 SLTI = 2" | "op_imm_f3 SLTIU = 3" | "op_imm_f3 XORI = 4" | "op_imm_f3 ORI = 6" | "op_imm_f3 ANDI = 7"

fun shift_f3 :: "shift \<Rightarrow> 3 word" where
  "shift_f3 SLL = 1" | "shift_f3 SRL = 5" | "shift_f3 SRA = 5"

fun shift_f7 :: "shift \<Rightarrow> 7 word" where
  "shift_f7 SLL = 0" | "shift_f7 SRL = 0" | "shift_f7 SRA = 0x20"

fun op_f3 :: "op_reg \<Rightarrow> 3 word" where
  "op_f3 ADD = 0" | "op_f3 SUB = 0" | "op_f3 (OpShift s) = shift_f3 s" | "op_f3 SLT = 2" | "op_f3 SLTU = 3" | "op_f3 XORR = 4" |
  "op_f3 ORR = 6" | "op_f3 ANDR = 7"

fun op_f7 :: "op_reg \<Rightarrow> 7 word" where
  "op_f7 SUB = 0x20" | "op_f7 (OpShift s) = shift_f7 s" | "op_f7 _ = 0"

text \<open>The six fields of the R format; every other format joins neighbouring fields into an immediate.\<close>

definition layout :: "7 word \<Rightarrow> 5 word \<Rightarrow> 5 word \<Rightarrow> 3 word \<Rightarrow> 5 word \<Rightarrow> 7 word \<Rightarrow> 32 word" where
  "layout f7 rs2 rs1 f3 rd op =
     push_bit 25 (ucast f7) OR push_bit 20 (ucast rs2) OR push_bit 15 (ucast rs1) OR push_bit 12 (ucast f3) OR push_bit 7 (ucast rd) OR ucast op"

definition r_type :: "7 word \<Rightarrow> reg \<Rightarrow> reg \<Rightarrow> 3 word \<Rightarrow> reg \<Rightarrow> 7 word \<Rightarrow> 32 word" where
  "r_type f7 rs2 rs1 f3 rd op = layout f7 rs2 rs1 f3 rd op"

definition i_type :: "12 word \<Rightarrow> reg \<Rightarrow> 3 word \<Rightarrow> reg \<Rightarrow> 7 word \<Rightarrow> 32 word" where
  "i_type imm rs1 f3 rd op = layout (ucast (drop_bit 5 imm)) (ucast imm) rs1 f3 rd op"

definition u_type :: "20 word \<Rightarrow> reg \<Rightarrow> 7 word \<Rightarrow> 32 word" where
  "u_type imm rd op = layout (ucast (drop_bit 13 imm)) (ucast (drop_bit 8 imm)) (ucast (drop_bit 3 imm)) (ucast imm) rd op"

fun encode :: "instr \<Rightarrow> 32 word" where
  "encode (LUI rd imm) = u_type imm rd 0x37"
| "encode (AUIPC rd imm) = u_type imm rd 0x17"
| "encode (JAL rd off) = u_type off rd 0x6F"
| "encode (JALR rd rs1 off) = i_type off rs1 0 rd 0x67"
| "encode (Branch b rs1 rs2 hi lo) = layout hi rs2 rs1 (branch_f3 b) lo 0x63"
| "encode (Load l rd rs1 off) = i_type off rs1 (load_f3 l) rd 0x03"
| "encode (Store s rs1 rs2 hi lo) = layout hi rs2 rs1 (store_f3 s) lo 0x23"
| "encode (OpImm i rd rs1 imm) = i_type imm rs1 (op_imm_f3 i) rd 0x13"
| "encode (ShiftImm s rd rs1 shamt) = layout (shift_f7 s OR ucast (drop_bit 5 shamt)) (ucast shamt) rs1 (shift_f3 s) rd 0x13"
| "encode (ADDIW rd rs1 imm) = i_type imm rs1 0 rd 0x1B"
| "encode (ShiftImmW s rd rs1 shamt) = r_type (shift_f7 s) shamt rs1 (shift_f3 s) rd 0x1B"
| "encode (Op r rd rs1 rs2) = r_type (op_f7 r) rs2 rs1 (op_f3 r) rd 0x33"
| "encode (ADDW rd rs1 rs2) = r_type 0 rs2 rs1 0 rd 0x3B"
| "encode (SUBW rd rs1 rs2) = r_type 0x20 rs2 rs1 0 rd 0x3B"
| "encode (ShiftW s rd rs1 rs2) = r_type (shift_f7 s) rs2 rs1 (shift_f3 s) rd 0x3B"
| "encode (FENCE rd rs1 pred succ) = i_type (push_bit 4 (ucast pred) OR ucast succ) rs1 0 rd 0x0F"
| "encode ECALL = i_type 0 0 0 0 0x73"
| "encode EBREAK = i_type 1 0 0 0 0x73"

section \<open>Fields\<close>

lemma bit_beyond: "LENGTH('a) \<le> n \<Longrightarrow> bit (x :: 'a :: len word) n = False"
  using bit_imp_le_length [of x n] by auto

text \<open>Every word is laid out from its fields, and the fields can be read back.\<close>

lemma layout_slices:
  fixes w :: "32 word"
  shows "layout (ucast (drop_bit 25 w)) (ucast (drop_bit 20 w)) (ucast (drop_bit 15 w)) (ucast (drop_bit 12 w)) (ucast (drop_bit 7 w)) (ucast w) = w"
proof (rule bit_word_eqI)
  fix n assume n: "n < LENGTH(32)"
  then have "n < 7 \<or> 7 \<le> n \<and> n < 12 \<or> 12 \<le> n \<and> n < 15 \<or> 15 \<le> n \<and> n < 20 \<or> 20 \<le> n \<and> n < 25 \<or> 25 \<le> n \<and> n < 32" by auto
  then show "bit (layout (ucast (drop_bit 25 w)) (ucast (drop_bit 20 w)) (ucast (drop_bit 15 w)) (ucast (drop_bit 12 w)) (ucast (drop_bit 7 w)) (ucast w)) n = bit w n"
    by (elim disjE) (auto simp: layout_def bit_simps)
qed

lemma bit_layout:
  "bit (layout f7 rs2 rs1 f3 rd op) n \<longleftrightarrow>
     (if n < 7 then bit op n else if n < 12 then bit rd (n - 7) else if n < 15 then bit f3 (n - 12)
      else if n < 20 then bit rs1 (n - 15) else if n < 25 then bit rs2 (n - 20) else bit f7 (n - 25))"
  by (auto simp: layout_def bit_simps not_less dest: bit_imp_le_length)


lemma layout_fields:
  fixes f7 :: "7 word" and rs2 rs1 rd :: "5 word" and f3 :: "3 word" and op :: "7 word"
  defines "w \<equiv> layout f7 rs2 rs1 f3 rd op"
  shows "ucast (drop_bit 25 w) = f7" "ucast (drop_bit 20 w) = rs2" "ucast (drop_bit 15 w) = rs1" "ucast (drop_bit 12 w) = f3"
    "ucast (drop_bit 7 w) = rd" "ucast w = op"
  unfolding w_def by (auto intro!: bit_word_eqI simp: bit_layout bit_simps)

lemma layout_inject:
  "layout f7 rs2 rs1 f3 rd op = layout f7' rs2' rs1' f3' rd' op' \<longleftrightarrow>
     f7 = f7' \<and> rs2 = rs2' \<and> rs1 = rs1' \<and> f3 = f3' \<and> rd = rd' \<and> op = op'"
  by (metis layout_fields)

lemma int_fields:
  fixes f7 :: "7 word" and rs2 rs1 rd :: "5 word" and f3 :: "3 word" and op :: "7 word"
  defines "w \<equiv> uint (layout f7 rs2 rs1 f3 rd op)"
  shows "w AND 0x7F = uint op" "drop_bit 12 w AND 7 = uint f3" "drop_bit 25 w AND 0x7F = uint f7"
    "drop_bit 26 w AND 0x3F = uint (drop_bit 1 f7)" "drop_bit 28 w AND 0xF = uint (drop_bit 3 f7)" "w AND 3 = uint (op AND 3)"
proof -
  have masks: "(0x7F :: int) = mask 7" "(7 :: int) = mask 3" "(0x3F :: int) = mask 6" "(0xF :: int) = mask 4" "(3 :: int) = mask 2"
    "(3 :: 7 word) = mask 2"
    by (simp_all add: mask_numeral)
  show "w AND 0x7F = uint op" "drop_bit 12 w AND 7 = uint f3" "drop_bit 25 w AND 0x7F = uint f7"
    "drop_bit 26 w AND 0x3F = uint (drop_bit 1 f7)" "drop_bit 28 w AND 0xF = uint (drop_bit 3 f7)" "w AND 3 = uint (op AND 3)"
    unfolding w_def masks
    by (rule bit_eqI; auto simp: bit_simps bit_layout dest: bit_imp_le_length)+
qed

lemma uint_numerals:
  "uint (x :: 'a :: len word) = 0 \<longleftrightarrow> x = 0"
  "numeral n < (2 :: int) ^ LENGTH('a) \<Longrightarrow> uint x = numeral n \<longleftrightarrow> x = numeral n"
  "1 < (2 :: int) ^ LENGTH('a) \<Longrightarrow> uint x = 1 \<longleftrightarrow> x = 1"
  by (simp_all add: word_uint_eq_iff take_bit_int_eq_self)

lemma three_bits: "(x :: 3 word) \<in> {0, 1, 2, 3, 4, 5, 6, 7}"
proof -
  have "uint x < 8" using uint_lt2p [of x] by simp
  moreover have "0 \<le> uint x" by simp
  ultimately have "uint x = 0 \<or> uint x = 1 \<or> uint x = 2 \<or> uint x = 3 \<or> uint x = 4 \<or> uint x = 5 \<or> uint x = 6 \<or> uint x = 7"
    by presburger
  then show ?thesis by (simp add: uint_numerals)
qed

text \<open>The decoder on the fields of a word.\<close>

definition fields_ok :: "7 word \<Rightarrow> 5 word \<Rightarrow> 5 word \<Rightarrow> 3 word \<Rightarrow> 5 word \<Rightarrow> 7 word \<Rightarrow> bool" where
  "fields_ok f7 rs2 rs1 f3 rd op \<longleftrightarrow>
     op \<in> {0x17, 0x37, 0x6F} \<or> op = 0x67 \<and> f3 = 0 \<or> op = 0x63 \<and> f3 \<in> {0, 1, 4, 5, 6, 7} \<or>
     op = 0x03 \<and> f3 \<noteq> 7 \<or> op = 0x23 \<and> f3 \<in> {0, 1, 2, 3} \<or>
     op = 0x13 \<and> (f3 \<in> {0, 2, 3, 4, 6, 7} \<or> f3 = 1 \<and> drop_bit 1 f7 = 0 \<or> f3 = 5 \<and> drop_bit 1 f7 \<in> {0, 0x10}) \<or>
     op = 0x1B \<and> (f3 = 0 \<or> f3 = 1 \<and> f7 = 0 \<or> f3 = 5 \<and> f7 \<in> {0, 0x20}) \<or>
     op = 0x33 \<and> (f7 = 0 \<or> f7 = 0x20 \<and> f3 \<in> {0, 5}) \<or>
     op = 0x3B \<and> (f7 = 0 \<and> f3 \<in> {0, 1, 5} \<or> f7 = 0x20 \<and> f3 \<in> {0, 5}) \<or>
     op = 0x0F \<and> f3 = 0 \<and> drop_bit 3 f7 = 0 \<or>
     op = 0x73 \<and> f7 = 0 \<and> rs2 \<in> {0, 1} \<and> rs1 = 0 \<and> f3 = 0 \<and> rd = 0"

lemma system_words:
  "uint (layout f7 rs2 rs1 f3 rd op) \<in> {0x73, 0x100073} \<longleftrightarrow> f7 = 0 \<and> rs2 \<in> {0, 1} \<and> rs1 = 0 \<and> f3 = 0 \<and> rd = 0 \<and> op = 0x73"
proof -
  have "layout 0 0 0 0 0 0x73 = 0x73" "layout 0 1 0 0 0 0x73 = 0x100073" by (simp_all add: layout_def)
  then have "uint (layout f7 rs2 rs1 f3 rd op) \<in> {0x73, 0x100073} \<longleftrightarrow>
      layout f7 rs2 rs1 f3 rd op = layout 0 0 0 0 0 0x73 \<or> layout f7 rs2 rs1 f3 rd op = layout 0 1 0 0 0 0x73"
    by (simp add: uint_numerals)
  then show ?thesis by (auto simp: layout_inject)
qed

lemma rv64i_fields: "rv64i (uint (layout f7 rs2 rs1 f3 rd op)) \<longleftrightarrow> fields_ok f7 rs2 rs1 f3 rd op"
proof (cases "op AND 3 = 3")
  case True
  then show ?thesis
    using three_bits [of f3]
    unfolding rv64i_def Let_def system_words
    by (simp add: int_fields uint_numerals fields_ok_def del: insert_iff) (auto simp: uint_numerals)
next
  case False
  then have "op \<notin> {0x17, 0x37, 0x6F, 0x67, 0x63, 0x03, 0x23, 0x13, 0x1B, 0x33, 0x3B, 0x0F, 0x73}" by auto
  then have "\<not> fields_ok f7 rs2 rs1 f3 rd op" unfolding fields_ok_def by blast
  with False show ?thesis by (simp add: rv64i_def int_fields uint_numerals)
qed


section \<open>The decoder accepts the base instructions and nothing else\<close>

lemma i_type_ex: "\<exists>imm. i_type imm rs1 f3 rd op = layout f7 rs2 rs1 f3 rd op"
proof -
  have "ucast (drop_bit 5 (push_bit 5 (ucast f7) OR ucast rs2 :: 12 word)) = f7" "ucast (push_bit 5 (ucast f7) OR ucast rs2 :: 12 word) = rs2"
    by (auto intro!: bit_word_eqI simp: bit_simps bit_beyond)
  then show ?thesis by (metis i_type_def)
qed

lemma u_type_ex: "\<exists>imm. u_type imm rd op = layout f7 rs2 rs1 f3 rd op"
proof -
  let ?imm = "push_bit 13 (ucast f7) OR push_bit 8 (ucast rs2) OR push_bit 3 (ucast rs1) OR ucast f3 :: 20 word"
  have "ucast (drop_bit 13 ?imm) = f7" "ucast (drop_bit 8 ?imm) = rs2" "ucast (drop_bit 3 ?imm) = rs1" "ucast ?imm = f3"
    by (auto intro!: bit_word_eqI simp: bit_simps bit_beyond)
  then show ?thesis by (metis u_type_def)
qed

lemma shamt_high: "drop_bit 1 (ucast (drop_bit 5 (shamt :: 6 word)) :: 7 word) = 0"
  by (auto intro!: bit_word_eqI simp: bit_simps bit_beyond)

lemma shamt_ex:
  assumes "drop_bit 1 f7 = drop_bit 1 (shift_f7 s)"
  shows "\<exists>shamt :: 6 word. shift_f7 s OR ucast (drop_bit 5 shamt) = f7 \<and> ucast shamt = (rs2 :: 5 word)"
proof (intro exI conjI)
  let ?shamt = "push_bit 5 (ucast (f7 AND 1)) OR ucast rs2 :: 6 word"
  show "ucast ?shamt = rs2" by (auto intro!: bit_word_eqI simp: bit_simps bit_beyond)
  have low: "\<not> bit (shift_f7 s) 0" by (cases s) (simp_all add: bit_0)
  show "shift_f7 s OR ucast (drop_bit 5 ?shamt) = f7"
  proof (rule bit_word_eqI)
    fix n assume "n < LENGTH(7)"
    show "bit (shift_f7 s OR ucast (drop_bit 5 ?shamt)) n = bit f7 n"
    proof (cases n)
      case 0
      with low show ?thesis by (auto simp: bit_simps bit_beyond)
    next
      case (Suc m)
      have "bit (drop_bit 1 f7) m = bit (drop_bit 1 (shift_f7 s)) m" by (simp only: assms)
      with Suc show ?thesis by (auto simp: bit_simps)
    qed
  qed
qed

lemma fence_high: "drop_bit 3 (ucast (drop_bit 5 (push_bit 4 (ucast (pred :: 4 word)) OR ucast (succ :: 4 word) :: 12 word)) :: 7 word) = 0"
  by (auto intro!: bit_word_eqI simp: bit_simps bit_beyond)

lemma fence_ex:
  assumes "drop_bit 3 f7 = 0"
  shows "\<exists>(pred :: 4 word) (succ :: 4 word). i_type (push_bit 4 (ucast pred) OR ucast succ) rs1 f3 rd op = layout f7 rs2 rs1 f3 rd op"
proof -
  obtain imm where imm: "i_type imm rs1 f3 rd op = layout f7 rs2 rs1 f3 rd op" using i_type_ex by blast
  then have f7: "f7 = ucast (drop_bit 5 imm)" by (simp add: i_type_def layout_inject)
  have "drop_bit 8 imm = 0"
  proof (rule bit_word_eqI)
    fix n assume "n < LENGTH(12)"
    have "bit (drop_bit 3 f7) n = bit (0 :: 7 word) n" by (simp add: assms)
    then show "bit (drop_bit 8 imm) n = bit 0 n" by (auto simp: f7 bit_simps dest: bit_imp_le_length)
  qed
  moreover have "bit (drop_bit 8 imm) n = bit imm (8 + n)" for n by (simp add: bit_drop_bit_eq)
  ultimately have "\<not> bit imm (8 + n)" for n by simp
  then have low: "bit imm n \<Longrightarrow> n < 8" for n by (metis le_add_diff_inverse not_le)
  have "push_bit 4 (ucast (ucast (drop_bit 4 imm) :: 4 word)) OR ucast (ucast imm :: 4 word) = imm"
  proof (rule bit_word_eqI)
    fix n
    show "bit (push_bit 4 (ucast (ucast (drop_bit 4 imm) :: 4 word)) OR ucast (ucast imm :: 4 word) :: 12 word) n = bit imm n"
      using low [of n] by (cases "n < 4"; cases "n < 8") (auto simp: bit_simps)
  qed
  with imm show ?thesis by metis
qed

lemma encode_accepted: "rv64i (uint (encode i))"
proof (cases i)
  case (ShiftImm s rd rs1 shamt)
  have "drop_bit 1 (shift_f7 s OR ucast (drop_bit 5 shamt)) = drop_bit 1 (shift_f7 s)" by (simp only: drop_bit_or shamt_high or.right_neutral)
  then show ?thesis by (cases s) (simp_all add: ShiftImm rv64i_fields fields_ok_def)
next
  case (Branch b rs1 rs2 hi lo)
  then show ?thesis by (cases b) (simp_all add: rv64i_fields fields_ok_def)
next
  case (Load l rd rs1 off)
  then show ?thesis by (cases l) (simp_all add: i_type_def rv64i_fields fields_ok_def)
next
  case (Store s rs1 rs2 hi lo)
  then show ?thesis by (cases s) (simp_all add: rv64i_fields fields_ok_def)
next
  case (OpImm j rd rs1 imm)
  then show ?thesis by (cases j) (simp_all add: i_type_def rv64i_fields fields_ok_def)
next
  case (ShiftImmW s rd rs1 shamt)
  then show ?thesis by (cases s) (simp_all add: r_type_def rv64i_fields fields_ok_def)
next
  case (Op r rd rs1 rs2)
  have "shift_f7 s = 0 \<or> shift_f7 s = 0x20 \<and> shift_f3 s = 5" for s by (cases s) simp_all
  with Op show ?thesis by (cases r) (auto simp: r_type_def rv64i_fields fields_ok_def)
next
  case (ShiftW s rd rs1 rs2)
  then show ?thesis by (cases s) (simp_all add: r_type_def rv64i_fields fields_ok_def)
next
  case (FENCE rd rs1 pred succ)
  then show ?thesis by (simp add: i_type_def rv64i_fields fields_ok_def fence_high del: drop_bit_or)
qed (simp_all add: u_type_def i_type_def r_type_def rv64i_fields fields_ok_def)

text \<open>The instruction with the given fields, by the groups of the opcode map.\<close>

lemma imm_instr_ex:
  assumes "f3 \<in> {0, 2, 3, 4, 6, 7} \<or> f3 = 1 \<and> drop_bit 1 f7 = 0 \<or> f3 = 5 \<and> drop_bit 1 f7 \<in> {0, 0x10}"
  shows "\<exists>i. encode i = layout f7 rs2 rs1 f3 rd 0x13"
proof -
  obtain imm where imm: "i_type imm rs1 f3 rd 0x13 = layout f7 rs2 rs1 f3 rd 0x13" using i_type_ex by blast
  have plain: "op_imm_f3 j = f3 \<Longrightarrow> ?thesis" for j using imm encode.simps(8) [of j rd rs1 imm] by metis
  have shift: "shift_f3 s = f3 \<Longrightarrow> drop_bit 1 f7 = drop_bit 1 (shift_f7 s) \<Longrightarrow> ?thesis" for s
    using shamt_ex [of f7 s rs2] encode.simps(9) [of s rd rs1] by metis
  show ?thesis
    using assms plain [of ADDI] plain [of SLTI] plain [of SLTIU] plain [of XORI] plain [of ORI] plain [of ANDI] shift [of SLL] shift [of SRL] shift [of SRA]
    by auto
qed

lemma w_instr_ex:
  assumes "f7 = 0 \<and> f3 \<in> {1, 5} \<or> f7 = 0x20 \<and> f3 = 5"
  shows "\<exists>s. shift_f7 s = f7 \<and> shift_f3 s = f3"
proof -
  have hit: "shift_f7 s = f7 \<Longrightarrow> shift_f3 s = f3 \<Longrightarrow> ?thesis" for s by blast
  show ?thesis using assms hit [of SLL] hit [of SRL] hit [of SRA] by auto
qed

lemma op_instr_ex:
  assumes "f7 = 0 \<or> f7 = 0x20 \<and> f3 \<in> {0, 5}"
  shows "\<exists>r. op_f7 r = f7 \<and> op_f3 r = f3"
proof -
  have hit: "op_f7 r = f7 \<Longrightarrow> op_f3 r = f3 \<Longrightarrow> ?thesis" for r by blast
  show ?thesis
    using assms three_bits [of f3] hit [of ADD] hit [of SUB] hit [of "OpShift SLL"] hit [of "OpShift SRL"] hit [of "OpShift SRA"]
      hit [of SLT] hit [of SLTU] hit [of XORR] hit [of ORR] hit [of ANDR]
    by auto
qed

lemma fields_instr:
  assumes "fields_ok f7 rs2 rs1 f3 rd op"
  shows "\<exists>i. encode i = layout f7 rs2 rs1 f3 rd op"
proof -
  obtain imm where imm: "u_type imm rd op = layout f7 rs2 rs1 f3 rd op" using u_type_ex by blast
  obtain off where off: "i_type off rs1 f3 rd op = layout f7 rs2 rs1 f3 rd op" using i_type_ex by blast
  have hit: "encode i = layout f7 rs2 rs1 f3 rd op \<Longrightarrow> ?thesis" for i by blast
  have u: ?thesis if "op \<in> {0x17, 0x37, 0x6F}"
    using that imm hit [of "LUI rd imm"] hit [of "AUIPC rd imm"] hit [of "JAL rd imm"] by auto
  have jalr: ?thesis if "op = 0x67 \<and> f3 = 0"
    using that off hit [of "JALR rd rs1 off"] by auto
  have b: "op = 0x63 \<Longrightarrow> branch_f3 b = f3 \<Longrightarrow> ?thesis" for b using hit [of "Branch b rs1 rs2 f7 rd"] by auto
  have branch: ?thesis if "op = 0x63 \<and> f3 \<in> {0, 1, 4, 5, 6, 7}"
    using that b [of BEQ] b [of BNE] b [of BLT] b [of BGE] b [of BLTU] b [of BGEU] by auto
  have l: "op = 0x03 \<Longrightarrow> load_f3 l = f3 \<Longrightarrow> ?thesis" for l using off hit [of "Load l rd rs1 off"] by auto
  have load: ?thesis if "op = 0x03 \<and> f3 \<noteq> 7"
    using that three_bits [of f3] l [of LB] l [of LH] l [of LW] l [of LD] l [of LBU] l [of LHU] l [of LWU] by auto
  have s: "op = 0x23 \<Longrightarrow> store_f3 s = f3 \<Longrightarrow> ?thesis" for s using hit [of "Store s rs1 rs2 f7 rd"] by auto
  have store: ?thesis if "op = 0x23 \<and> f3 \<in> {0, 1, 2, 3}"
    using that s [of SB] s [of SH] s [of SW] s [of SD] by auto
  have immediate: ?thesis
    if "op = 0x13 \<and> (f3 \<in> {0, 2, 3, 4, 6, 7} \<or> f3 = 1 \<and> drop_bit 1 f7 = 0 \<or> f3 = 5 \<and> drop_bit 1 f7 \<in> {0, 0x10})"
    using that imm_instr_ex by blast
  have immediate_w: ?thesis if "op = 0x1B \<and> (f3 = 0 \<or> f3 = 1 \<and> f7 = 0 \<or> f3 = 5 \<and> f7 \<in> {0, 0x20})"
  proof (cases "f3 = 0")
    case True
    with that off hit [of "ADDIW rd rs1 off"] show ?thesis by auto
  next
    case False
    with that have "\<exists>s. shift_f7 s = f7 \<and> shift_f3 s = f3" by (intro w_instr_ex) auto
    then obtain s where "shift_f7 s = f7" "shift_f3 s = f3" by blast
    with that hit [of "ShiftImmW s rd rs1 rs2"] show ?thesis by (auto simp: r_type_def)
  qed
  have registers: ?thesis if "op = 0x33 \<and> (f7 = 0 \<or> f7 = 0x20 \<and> f3 \<in> {0, 5})"
  proof -
    have "\<exists>r. op_f7 r = f7 \<and> op_f3 r = f3" by (rule op_instr_ex) (use that in simp)
    then obtain r where "op_f7 r = f7" "op_f3 r = f3" by blast
    with that hit [of "Op r rd rs1 rs2"] show ?thesis by (auto simp: r_type_def)
  qed
  have registers_w: ?thesis if "op = 0x3B \<and> (f7 = 0 \<and> f3 \<in> {0, 1, 5} \<or> f7 = 0x20 \<and> f3 \<in> {0, 5})"
  proof (cases "f3 = 0")
    case True
    with that hit [of "ADDW rd rs1 rs2"] hit [of "SUBW rd rs1 rs2"] show ?thesis by (auto simp: r_type_def)
  next
    case False
    with that have "\<exists>s. shift_f7 s = f7 \<and> shift_f3 s = f3" by (intro w_instr_ex) auto
    then obtain s where "shift_f7 s = f7" "shift_f3 s = f3" by blast
    with that hit [of "ShiftW s rd rs1 rs2"] show ?thesis by (auto simp: r_type_def)
  qed
  have fence: ?thesis if "op = 0x0F \<and> f3 = 0 \<and> drop_bit 3 f7 = 0"
    using that fence_ex [of f7 rs1 f3 rd op rs2] encode.simps(16) by metis
  have system: ?thesis if "op = 0x73 \<and> f7 = 0 \<and> rs2 \<in> {0, 1} \<and> rs1 = 0 \<and> f3 = 0 \<and> rd = 0"
    using that hit [of ECALL] hit [of EBREAK] by (auto simp: i_type_def)
  show ?thesis
    using assms u jalr branch load store immediate immediate_w registers registers_w fence system unfolding fields_ok_def by argo
qed

lemma rv64i_iff: "rv64i (uint w) \<longleftrightarrow> (\<exists>i. encode i = w)"
proof
  assume "rv64i (uint w)"
  then have "rv64i (uint (layout (ucast (drop_bit 25 w)) (ucast (drop_bit 20 w)) (ucast (drop_bit 15 w)) (ucast (drop_bit 12 w)) (ucast (drop_bit 7 w)) (ucast w)))"
    by (simp only: layout_slices)
  then show "\<exists>i. encode i = w" unfolding rv64i_fields using fields_instr layout_slices [of w] by metis
next
  assume "\<exists>i. encode i = w"
  then show "rv64i (uint w)" using encode_accepted by blast
qed


text \<open>
  C6. The decoder of the audit, on Python's integers, accepts a 32-bit word exactly when it is the encoding of an instruction of the RV64I base: all
  encodings are accepted, and no compressed, multiplication, atomic, floating-point, CSR, FENCE.I, FENCE.TSO or reserved encoding is.
\<close>
theorem rv64i_exact: "rv64i (uint w) \<longleftrightarrow> (\<exists>i. encode i = w)"
  by (rule rv64i_iff)

section \<open>The audit of a file\<close>

text \<open>What can go wrong: an exception of the language, or a program that exits with a status other than zero.\<close>

datatype machine_error = Py py_error | CalledProcessError string

definition MACHINE_RE :: re where
  [py_defs]: "MACHINE_RE = RSeqs [RLit ''Machine:'', RPlus (RSet is_ws), RLit ''RISC-V'', RBound]"

definition FLAGS_RE :: re where
  [py_defs]: "FLAGS_RE = RSeqs [RLit ''Flags:'', RPlus (RSet is_ws), RLit ''0x'', RGroup 1 (RPlus (RSet is_hex))]"

definition ARCH_RE :: re where
  [py_defs]: "ARCH_RE = RSeqs [RLit ''Tag_RISCV_arch:'', RStar (RSet is_ws), RSet (\<lambda>c. c = CHR 0x22),
     RGroup 1 (RPlus (RSet (\<lambda>c. c \<noteq> CHR 0x22))), RSet (\<lambda>c. c = CHR 0x22)]"

definition RV64I_TAG_RE :: re where
  [py_defs]: "RV64I_TAG_RE = RSeqs [RLit ''rv64i'', RPlus (RSet is_digit), RLit ''p'', RPlus (RSet is_digit)]"

text \<open>\<^verbatim>\<open>[0-9a-fA-F]{4,8}\<close>: four digits and up to four more, as many as possible.\<close>

definition HEX_4_8 :: re where
  [py_defs]: "HEX_4_8 = (let h = RSet is_hex in RSeq (RRep 4 h) (ROpt (RSeq h (ROpt (RSeq h (ROpt (RSeq h (ROpt h))))))))"

definition INSTR_RE :: re where
  [py_defs]: "INSTR_RE = RSeqs [RBol, RStar (RSet is_ws), RGroup 1 (RPlus (RSet is_hex)), RLit '':'', RPlus (RSet is_ws),
     RGroup 2 HEX_4_8, RPlus (RSet is_ws), RGroup 3 (RPlus (RSet (\<lambda>c. \<not> is_ws c)))]"

definition fail :: "string \<Rightarrow> machine_error" where
  [py_defs]: "fail text = Py (RuntimeError text)"

definition hex_value :: "string \<Rightarrow> machine_error + int" where
  [py_defs]: "hex_value text = of_option (Py (ValueError text)) (py_int 16 text)"

definition header_check :: "string \<Rightarrow> string \<Rightarrow> machine_error + unit" where
  [py_defs]: "header_check path hdr =
     (if re_search MACHINE_RE hdr = None then Inl (fail (path @ '': not RISC-V ELF''))
      else
        let bad = fail (path @ '': ELF flags not soft-float, no-RVC, RV64I'') in
        case re_search FLAGS_RE hdr of
          None \<Rightarrow> Inl bad
        | Some m \<Rightarrow> bindE (hex_value (group m 1)) (\<lambda>flags. ensure (flags AND 0xF = 0) bad))"

definition arch_tags_of :: "string \<Rightarrow> string list" where
  [py_defs]: "arch_tags_of attrs = map (\<lambda>m. group m 1) (finditer ARCH_RE attrs)"

definition attrs_check :: "string \<Rightarrow> string \<Rightarrow> machine_error + unit" where
  [py_defs]: "attrs_check path attrs =
     (let arch_tags = arch_tags_of attrs in
      ensure (\<not> (arch_tags = [] \<or> list_ex (\<lambda>tag. re_fullmatch RV64I_TAG_RE tag = None) arch_tags))
        (fail (path @ '': ISA attributes not all RV64I: '' @ repr_list arch_tags)))"

definition inspect_line :: "string \<Rightarrow> nat \<Rightarrow> string \<Rightarrow> machine_error + nat" where
  [py_defs]: "inspect_line path instructions line =
     (case re_match INSTR_RE line of
        None \<Rightarrow> Inr instructions
      | Some m \<Rightarrow>
          let location = group m 1; encoding = group m 2; mnemonic = group m 3 in
          if length encoding \<noteq> 8 then Inl (fail (path @ '': compressed/unqualified encoding 0x'' @ encoding @ '' at '' @ location))
          else
            bindE (hex_value encoding) (\<lambda>word.
              if \<not> rv64i word
              then Inl (fail (path @ '': non-RV64I machine word 0x'' @ hex_int_pad 8 word @ '' at '' @ location @ '' ('' @ mnemonic @ '')''))
              else Inr (Suc instructions)))"

definition inspect :: "(string list \<Rightarrow> machine_error + string) \<Rightarrow> string \<Rightarrow> machine_error + nat" where
  [py_defs]: "inspect run path =
     bindE (run [''riscv64-linux-gnu-readelf'', ''-h'', path]) (\<lambda>hdr.
     bindE (header_check path hdr) (\<lambda>_.
     bindE (run [''riscv64-linux-gnu-readelf'', ''-A'', path]) (\<lambda>attrs.
     bindE (attrs_check path attrs) (\<lambda>_.
     bindE (run [''riscv64-linux-gnu-objdump'', ''-d'', ''-z'', ''-M'', ''no-aliases'', path]) (\<lambda>dis.
     bindE (foldE (inspect_line path) 0 (splitlines dis)) (\<lambda>instructions.
       if instructions = 0 then Inl (fail (path @ '': no decoded executable instructions'')) else Inr instructions))))))"

section \<open>The command\<close>

fun inspect_all :: "(string list \<Rightarrow> machine_error + string) \<Rightarrow> nat \<Rightarrow> string list \<Rightarrow> string list \<times> (machine_error + nat)" where
  "inspect_all run so_far [] = ([], Inr so_far)"
| "inspect_all run so_far (path # paths) =
     (case inspect run path of
        Inl e \<Rightarrow> ([], Inl e)
      | Inr n \<Rightarrow>
          let (lines, result) = inspect_all run (so_far + n) paths in
          ((''RV64I_MACHINE_FILE=PASS instructions='' @ str_int (int n) @ '' path='' @ path) # lines, result))"

text \<open>The body of \<^verbatim>\<open>main\<close>: the lines it prints and how it ends.  \<open>argv\<close> are the arguments without the name of the program.\<close>

definition machine_body :: "(string list \<Rightarrow> machine_error + string) \<Rightarrow> string list \<Rightarrow> string list \<times> (machine_error + unit)" where
  [py_defs]: "machine_body run argv =
     (case selftest of
        Inl e \<Rightarrow> ([], Inl (Py e))
      | Inr _ \<Rightarrow>
          if argv = [''--selftest''] then ([''RV64I_MACHINE_DECODER=PASS positive=10 negative=10''], Inr ())
          else if argv = [] then ([], Inl (fail ''usage: audit-rv64i-machine.py ELF [ELF ...]''))
          else
            case inspect_all run 0 argv of
              (lines, Inl e) \<Rightarrow> (lines, Inl e)
            | (lines, Inr sum_of) \<Rightarrow>
                (lines @ [''RV64I_MACHINE_AUDIT=PASS files='' @ str_int (int (length argv)) @ '' instructions='' @ str_int (int sum_of) @
                  '' no_aliases=1 strict_arch_attribute=1 soft_float=1''], Inr ()))"

record machine_outcome =
  mo_stdout :: "string list"
  mo_stderr :: "string option"
  mo_status :: int

text \<open>
  An exception that is not caught ends the program with a traceback and status 1 too; the text of the traceback is left out.
\<close>

definition caught_text :: "machine_error \<Rightarrow> string option" where
  [py_defs]: "caught_text e = (case e of
     Py (RuntimeError t) \<Rightarrow> Some t | Py (OSError t) \<Rightarrow> Some t | CalledProcessError t \<Rightarrow> Some t | _ \<Rightarrow> None)"

definition machine_main :: "(string list \<Rightarrow> machine_error + string) \<Rightarrow> string list \<Rightarrow> machine_outcome" where
  [py_defs]: "machine_main run argv =
     (case machine_body run argv of
        (lines, Inr _) \<Rightarrow> \<lparr> mo_stdout = lines, mo_stderr = None, mo_status = 0 \<rparr>
      | (lines, Inl e) \<Rightarrow> \<lparr> mo_stdout = lines, mo_stderr = map_option (\<lambda>t. ''RV64I_MACHINE_AUDIT=FAIL '' @ t) (caught_text e), mo_status = 1 \<rparr>)"


section \<open>What an accepted file contains\<close>

lemma hex_digit_value:
  assumes "is_hex c"
  shows "\<exists>d. digit_value c = Some d \<and> 0 \<le> d \<and> d < 16" and "c \<noteq> CHR ''_''" and "c \<noteq> CHR ''-''" and "c \<noteq> CHR ''+''"
    and "c \<noteq> CHR ''x''" and "c \<noteq> CHR ''X''"
proof -
  have "(48 \<le> (of_char c :: int) \<and> (of_char c :: int) \<le> 57) \<or> (65 \<le> (of_char c :: int) \<and> (of_char c :: int) \<le> 70) \<or>
      (97 \<le> (of_char c :: int) \<and> (of_char c :: int) \<le> 102)"
  proof -
    have "(of_char c :: int) = int (of_char c)" by (cases c) (simp add: of_char_def of_nat_sum)
    with assms show ?thesis unfolding is_hex_def Let_def by linarith
  qed
  then show "\<exists>d. digit_value c = Some d \<and> 0 \<le> d \<and> d < 16" by (auto simp: digit_value_def Let_def)
  show "c \<noteq> CHR ''_''" "c \<noteq> CHR ''-''" "c \<noteq> CHR ''+''" "c \<noteq> CHR ''x''" "c \<noteq> CHR ''X''"
    using assms by (auto simp: is_hex_def)
qed

lemma int_digits_hex:
  assumes "list_all is_hex s" and "0 \<le> acc" and "sep \<longrightarrow> s \<noteq> []"
  shows "\<exists>k. int_digits 16 sep acc s = Some k \<and> acc * 16 ^ length s \<le> k \<and> k < (acc + 1) * 16 ^ length s"
  using assms
proof (induction s arbitrary: sep acc)
  case Nil
  then show ?case by simp
next
  case (Cons c s)
  obtain d where d: "digit_value c = Some d" "0 \<le> d" "d < 16" using hex_digit_value(1) [of c] Cons.prems(1) by auto
  have "\<exists>k. int_digits 16 False (acc * 16 + d) s = Some k \<and> (acc * 16 + d) * 16 ^ length s \<le> k \<and> k < (acc * 16 + d + 1) * 16 ^ length s"
    by (rule Cons.IH) (use Cons.prems d in auto)
  then obtain k where k: "int_digits 16 False (acc * 16 + d) s = Some k" "(acc * 16 + d) * 16 ^ length s \<le> k" "k < (acc * 16 + d + 1) * 16 ^ length s"
    by blast
  have "acc * 16 * 16 ^ length s \<le> (acc * 16 + d) * 16 ^ length s" "(acc * 16 + d + 1) * 16 ^ length s \<le> ((acc + 1) * 16) * 16 ^ length s"
    using d by (intro mult_right_mono; simp)+
  with k have "acc * 16 * 16 ^ length s \<le> k \<and> k < (acc + 1) * 16 * 16 ^ length s" by linarith
  then have "acc * 16 ^ length (c # s) \<le> k \<and> k < (acc + 1) * 16 ^ length (c # s)" by (simp add: algebra_simps)
  moreover have "int_digits 16 sep acc (c # s) = Some k" using d k(1) hex_digit_value(2) Cons.prems(1) by auto
  ultimately show ?case by blast
qed

lemma hex_not_blank: "is_hex c \<Longrightarrow> \<not> is_ws c \<and> \<not> ((9 \<le> (of_char c :: nat) \<and> (of_char c :: nat) \<le> 13) \<or> (of_char c :: nat) = 32)"
  unfolding is_hex_def is_ws_def Let_def by linarith

lemma strip_int_hex: "list_all is_hex s \<Longrightarrow> strip_int s = s"
proof -
  assume hex: "list_all is_hex s"
  have dw: "dropWhile P t = t" if "list_all (\<lambda>c. \<not> P c) t" for P :: "char \<Rightarrow> bool" and t using that by (cases t) auto
  have "list_all (\<lambda>c. \<not> (let n = (of_char c :: nat) in if b then (9 \<le> n \<and> n \<le> 13) \<or> n = 32 else is_ws c)) s" for b
    using hex hex_not_blank by (auto simp: list_all_iff Let_def)
  moreover have "list_all (\<lambda>c. \<not> (let n = (of_char c :: nat) in if b then (9 \<le> n \<and> n \<le> 13) \<or> n = 32 else is_ws c)) (rev s)" for b
    using hex hex_not_blank by (auto simp: list_all_iff Let_def)
  ultimately show ?thesis unfolding strip_int_def Let_def by (simp only: dw rev_rev_ident)
qed

lemma py_int_hex:
  assumes "list_all is_hex s" and "s \<noteq> []"
  shows "\<exists>k. py_int 16 s = Some k \<and> 0 \<le> k \<and> k < 16 ^ length s"
proof -
  obtain c t where s: "s = c # t" using assms(2) by (cases s) auto
  have "\<not> has_prefix CHR ''x'' CHR ''X'' s"
    using assms(1) hex_digit_value(5,6) by (cases t) (auto simp: s has_prefix_def)
  then have "py_int 16 s = int_digits 16 True 0 s"
    using assms(1) hex_digit_value(3,4) by (auto simp: s py_int_def strip_int_hex unsigned_literal_def Let_def)
  then show ?thesis using int_digits_hex [OF assms(1), of 0 True] assms(2) by simp
qed

text \<open>The lines of a disassembly that show an instruction, and the word that such a line shows.\<close>

definition shown :: "string \<Rightarrow> re_match list" where
  "shown dis = List.map_filter (re_match INSTR_RE) (splitlines dis)"

definition shows_base :: "re_match \<Rightarrow> bool" where
  "shows_base m \<longleftrightarrow> length (group m 2) = 8 \<and> (\<exists>i. py_int 16 (group m 2) = Some (uint (encode i)))"

lemma instr_hex:
  assumes "re_match INSTR_RE line = Some m"
  shows "list_all is_hex (group m 2)"
proof -
  have "captures (\<lambda>k c. k = 2 \<longrightarrow> is_hex c) INSTR_RE"
    by (simp add: INSTR_RE_def HEX_4_8_def RPlus_def ROpt_def Let_def numeral_eq_Suc)
  from match_captures [OF assms this] show ?thesis by (auto simp: list_all_iff)
qed

text \<open>A word of eight digits is accepted when it is the encoding of an instruction.\<close>

lemma accepted_line:
  assumes "re_match INSTR_RE line = Some m" and "length (group m 2) = 8"
  shows "\<exists>k. py_int 16 (group m 2) = Some k \<and> (rv64i k \<longleftrightarrow> shows_base m)"
proof -
  have "group m 2 \<noteq> []" using assms(2) by auto
  then obtain k where k: "py_int 16 (group m 2) = Some k" "0 \<le> k" "k < 16 ^ length (group m 2)"
    using py_int_hex [OF instr_hex [OF assms(1)]] by blast
  have u: "uint (word_of_int k :: 32 word) = k" using k(2,3) assms(2) by (simp add: uint_word_of_int)
  have "rv64i k \<longleftrightarrow> (\<exists>i. encode i = word_of_int k)" using rv64i_iff [of "word_of_int k"] by (simp only: u)
  also have "\<dots> \<longleftrightarrow> shows_base m" using u by (auto simp: shows_base_def assms(2) k(1)) (metis word_of_int_uint)
  finally show ?thesis using k(1) by blast
qed

lemma inspect_line_ok:
  "inspect_line path n line = Inr n' \<longleftrightarrow>
     (case re_match INSTR_RE line of None \<Rightarrow> n' = n | Some m \<Rightarrow> shows_base m \<and> n' = Suc n)"
proof (cases "re_match INSTR_RE line")
  case None
  then show ?thesis by (auto simp: inspect_line_def)
next
  case (Some m)
  show ?thesis
  proof (cases "length (group m 2) = 8")
    case True
    from accepted_line [OF Some True] obtain k where "py_int 16 (group m 2) = Some k" "rv64i k \<longleftrightarrow> shows_base m" by blast
    with Some True show ?thesis by (auto simp: inspect_line_def hex_value_def Let_def)
  next
    case False
    with Some show ?thesis by (simp add: inspect_line_def shows_base_def Let_def)
  qed
qed

lemma inspect_lines_ok:
  "foldE (inspect_line path) n lines = Inr n' \<longleftrightarrow>
     list_all shows_base (List.map_filter (re_match INSTR_RE) lines) \<and> n' = n + length (List.map_filter (re_match INSTR_RE) lines)"
proof (induction lines arbitrary: n)
  case Nil
  then show ?case by (auto simp: List.map_filter_def)
next
  case (Cons line lines)
  then show ?case
    by (cases "re_match INSTR_RE line") (auto simp: resE inspect_line_ok List.map_filter_simps)
qed

text \<open>The attribute of the base architecture with a version, \<^verbatim>\<open>rv64i2p1\<close>.\<close>

definition rv64i_tag :: "string \<Rightarrow> bool" where
  "rv64i_tag tag \<longleftrightarrow> (\<exists>major minor. tag = ''rv64i'' @ major @ ''p'' @ minor \<and> major \<noteq> [] \<and> minor \<noteq> [] \<and> list_all is_digit major \<and> list_all is_digit minor)"

lemma lang_lit [simp]: "lang (RLit s) = {s}"
  by (induction s rule: RLit.induct) auto

lemma rv64i_tag_iff: "re_fullmatch RV64I_TAG_RE tag \<noteq> None \<longleftrightarrow> rv64i_tag tag"
proof -
  have "plain_re (RLit s)" for s by (induction s rule: RLit.induct) simp_all
  then have "plain_re RV64I_TAG_RE" by (simp add: RV64I_TAG_RE_def RPlus_def del: RLit.simps)
  then have "re_fullmatch RV64I_TAG_RE tag \<noteq> None \<longleftrightarrow> tag \<in> lang RV64I_TAG_RE" by (rule fullmatch_lang)
  also have "\<dots> \<longleftrightarrow> rv64i_tag tag"
    by (auto simp: RV64I_TAG_RE_def rv64i_tag_def lang_plus_set simp del: RLit.simps)
  finally show ?thesis .
qed

text \<open>The conditions on a file, over what the three programs print.\<close>

definition base_file :: "(string list \<Rightarrow> machine_error + string) \<Rightarrow> string \<Rightarrow> nat \<Rightarrow> bool" where
  "base_file run path n \<longleftrightarrow> (\<exists>hdr attrs dis.
     run [''riscv64-linux-gnu-readelf'', ''-h'', path] = Inr hdr \<and>
     run [''riscv64-linux-gnu-readelf'', ''-A'', path] = Inr attrs \<and>
     run [''riscv64-linux-gnu-objdump'', ''-d'', ''-z'', ''-M'', ''no-aliases'', path] = Inr dis \<and>
     re_search MACHINE_RE hdr \<noteq> None \<and>
     (\<exists>m flags. re_search FLAGS_RE hdr = Some m \<and> py_int 16 (group m 1) = Some flags \<and> flags mod 16 = 0) \<and>
     arch_tags_of attrs \<noteq> [] \<and> list_all rv64i_tag (arch_tags_of attrs) \<and>
     n = length (shown dis) \<and> 0 < n \<and> list_all shows_base (shown dis))"

lemma header_check_ok:
  "header_check path hdr = Inr u \<longleftrightarrow> re_search MACHINE_RE hdr \<noteq> None \<and>
     (\<exists>m flags. re_search FLAGS_RE hdr = Some m \<and> py_int 16 (group m 1) = Some flags \<and> flags mod 16 = 0)"
proof -
  have "(x AND 0xF :: int) = x mod 16" for x
    using take_bit_eq_mask [of 4 x] by (simp add: mask_numeral take_bit_eq_mod)
  then show ?thesis by (auto simp: header_check_def hex_value_def Let_def resE split: option.splits if_splits)
qed

lemma attrs_check_ok: "attrs_check path attrs = Inr u \<longleftrightarrow> arch_tags_of attrs \<noteq> [] \<and> list_all rv64i_tag (arch_tags_of attrs)"
proof -
  have "re_fullmatch RV64I_TAG_RE tag = None \<longleftrightarrow> \<not> rv64i_tag tag" for tag using rv64i_tag_iff [of tag] by blast
  then show ?thesis by (auto simp: attrs_check_def Let_def resE list_ex_iff list_all_iff)
qed

lemma inspect_ok: "inspect run path = Inr n \<longleftrightarrow> base_file run path n"
  by (auto simp: inspect_def base_file_def shown_def resE header_check_ok attrs_check_ok inspect_lines_ok split: if_splits)

lemma inspect_all_ok:
  "snd (inspect_all run so_far paths) = Inr n \<longleftrightarrow> (\<exists>ns. list_all2 (base_file run) paths ns \<and> n = so_far + sum_list ns)"
proof (induction paths arbitrary: so_far)
  case Nil
  then show ?case by auto
next
  case (Cons path paths)
  show ?case
  proof (cases "inspect run path")
    case (Inl e)
    then have "\<not> base_file run path k" for k using inspect_ok [of run path k] by simp
    with Inl show ?thesis by (auto simp: list_all2_Cons1)
  next
    case (Inr k)
    then have "base_file run path j \<longleftrightarrow> j = k" for j using inspect_ok [of run path j] by auto
    then have "(\<exists>ns. list_all2 (base_file run) (path # paths) ns \<and> n = so_far + sum_list ns) \<longleftrightarrow>
        (\<exists>ns. list_all2 (base_file run) paths ns \<and> n = so_far + k + sum_list ns)"
      by (force simp: list_all2_Cons1 add.assoc)
    moreover have "snd (inspect_all run so_far (path # paths)) = snd (inspect_all run (so_far + k) paths)"
      by (simp add: Inr split: prod.splits)
    ultimately show ?thesis by (simp only: Cons.IH)
  qed
qed

lemma selftest_passes: "selftest = Inr ()"
  by code_simp

text \<open>
  C7. The audit exits with status 0 exactly for a request of the self test, which passes, and for a list of files in each of which the header is that
  of a RISC-V object with the flags of a soft-float ABI without compressed instructions, every architecture attribute is a version of RV64I and there is
  at least one, and every line of the disassembly that shows an instruction, at least one, shows the eight digits of the encoding of a base instruction.
\<close>
theorem machine_audit_verdict:
  "mo_status (machine_main run argv) = 0 \<longleftrightarrow>
     argv = [''--selftest''] \<or> argv \<noteq> [] \<and> list_all (\<lambda>path. \<exists>n. base_file run path n) argv"
proof -
  have "(\<exists>ns. list_all2 P xs ns) \<longleftrightarrow> list_all (\<lambda>x. \<exists>n. P x n) xs" for P :: "string \<Rightarrow> nat \<Rightarrow> bool" and xs
    by (induction xs) (auto simp: list_all2_Cons1)
  then have "(\<exists>n. snd (inspect_all run 0 argv) = Inr n) \<longleftrightarrow> list_all (\<lambda>path. \<exists>n. base_file run path n) argv"
    by (simp add: inspect_all_ok)
  then show ?thesis
    by (cases "inspect_all run 0 argv") (auto simp: machine_main_def machine_body_def selftest_passes split: sum.splits if_splits)
qed


text \<open>A program of one instruction, by the three outputs, and the same with a multiplication.\<close>

definition demo_printed :: "string \<Rightarrow> string list \<Rightarrow> machine_error + string" where
  "demo_printed digits argv =
     (if argv ! 1 = ''-h'' then Inr ''Machine: RISC-V\<newline>Flags: 0x0\<newline>''
      else if argv ! 1 = ''-A'' then Inr (''Tag_RISCV_arch: '' @ [CHR 0x22] @ ''rv64i2p1'' @ [CHR 0x22])
      else Inr ('' 0: '' @ digits @ '' addi''))"

lemma demo_base: "mo_status (machine_main (demo_printed ''00000013'') [''a'']) = 0"
  by code_simp

lemma demo_mul: "mo_stderr (machine_main (demo_printed ''02000033'') [''a'']) =
  Some ''RV64I_MACHINE_AUDIT=FAIL a: non-RV64I machine word 0x02000033 at 0 (addi)''"
  by code_simp

end
