(* ===== verification/Tally.thy ===== *)
theory Tally
  imports Prelude
begin

text \<open>
  \<^verbatim>\<open>collections.Counter\<close> filled from a sequence, and equality of dictionaries.  Shown here: a counter holds the number of occurrences of every
  item of the sequence and nothing else; two dictionaries are equal exactly when they are the same mapping, whatever the order of insertion.
\<close>

text \<open>A \<^verbatim>\<open>Counter\<close> filled one by one.\<close>

definition tally :: "'k list \<Rightarrow> ('k \<times> int) list" where
  "tally ks = foldl (\<lambda>d k. bump k 1 d) [] ks"

lemma tally_snoc: "tally (ks @ [k]) = bump k 1 (tally ks)"
  by (simp add: tally_def)

lemma tally_Nil [simp]: "tally [] = []"
  by (simp add: tally_def)

lemma keys_bump: "set (keys (bump k n d)) = insert k (set (keys d))"
  by (auto simp: bump_def update_keys simp del: set_map)

lemma tally_count:
  "distinct (keys (tally ks)) \<and> set (keys (tally ks)) = set ks \<and> (\<forall>k. count_of (tally ks) k = int (count (mset ks) k))"
proof (induction ks rule: rev_induct)
  case Nil
  show ?case by (simp add: count_of_def)
next
  case (snoc k ks)
  then show ?case by (auto simp: tally_snoc distinct_bump keys_bump simp del: set_map)
qed

lemma tally_set: "set (tally ks) = (\<lambda>k. (k, int (count (mset ks) k))) ` set ks"
proof -
  have "(k, v) \<in> set d \<longleftrightarrow> k \<in> set (keys d) \<and> v = count_of d k" if "distinct (keys d)" for d :: "('a \<times> int) list" and k v
    using map_of_eq_Some_iff [OF that, of k v] map_of_eq_None_iff [of d k] by (cases "map_of d k") (auto simp: count_of_def simp del: map_of_eq_Some_iff)
  then show ?thesis using tally_count [of ks] by auto
qed

text \<open>\<^verbatim>\<open>==\<close> on dictionaries: as many entries, and each is an entry of the other.\<close>

definition dict_eq :: "('k \<times> 'v) list \<Rightarrow> ('k \<times> 'v) list \<Rightarrow> bool" where
  [py_defs]: "dict_eq d d' \<longleftrightarrow> length d = length d' \<and> list_all (\<lambda>(k, v). map_of d' k = Some v) d"

lemma dict_eq_iff:
  assumes "distinct (keys d)" and "distinct (keys d')"
  shows "dict_eq d d' \<longleftrightarrow> map_of d = map_of d'"
proof
  assume eq: "dict_eq d d'"
  then have sub: "set d \<subseteq> set d'" and len: "length d = length d'" using assms(2) by (auto simp: dict_eq_def list_all_iff dest: map_of_SomeD)
  have "card (set d) = length d" "card (set d') = length d'" using assms by (metis distinct_card distinct_map)+
  with len sub have "set d = set d'" by (simp add: card_subset_eq)
  then show "map_of d = map_of d'" using assms by (simp add: map_of_inject_set)
next
  assume eq: "map_of d = map_of d'"
  then have sets: "set d = set d'" using assms by (simp add: map_of_inject_set)
  then have "length d = length d'" using assms by (metis distinct_card distinct_map)
  then show "dict_eq d d'" using sets assms(2) by (auto simp: dict_eq_def list_all_iff)
qed


lemma tally_dict_eq: "dict_eq (tally ks) (tally ks') \<longleftrightarrow> mset ks = mset ks'"
proof -
  have lookup: "map_of (tally ks) k = (if k \<in> set ks then Some (int (count (mset ks) k)) else None)" for ks :: "'a list" and k
  proof -
    have "set (keys (tally ks)) = set ks" "count_of (tally ks) k = int (count (mset ks) k)" using tally_count [of ks] by blast+
    moreover from this(1) have "map_of (tally ks) k = None \<longleftrightarrow> k \<notin> set ks" by (simp only: map_of_eq_None_iff set_map)
    ultimately show ?thesis by (cases "map_of (tally ks) k") (simp_all add: count_of_def)
  qed
  have "dict_eq (tally ks) (tally ks') \<longleftrightarrow> map_of (tally ks) = map_of (tally ks')"
    using tally_count [of ks] tally_count [of ks'] by (intro dict_eq_iff) simp_all
  also have "\<dots> \<longleftrightarrow> mset ks = mset ks'"
  proof
    assume eq: "map_of (tally ks) = map_of (tally ks')"
    have "count (mset ks) k = count (mset ks') k" for k
    proof -
      have "count_of (tally ks) k = count_of (tally ks') k" by (simp add: count_of_def eq)
      then show ?thesis using tally_count [of ks] tally_count [of ks'] by simp
    qed
    then show "mset ks = mset ks'" by (rule multiset_eqI)
  next
    assume "mset ks = mset ks'"
    moreover from this have "set ks = set ks'" by (metis set_mset_mset)
    ultimately show "map_of (tally ks) = map_of (tally ks')" by (intro ext) (simp add: lookup)
  qed
  finally show ?thesis .
qed

lemma count_tally: "count_of (tally ks) k = int (count (mset ks) k)"
  using tally_count [of ks] by simp

end
