(* ===== verification/ElfCompare.thy ===== *)
theory ElfCompare
  imports JsonLine Grouping Tally "HOL-Library.Word"
begin

text \<open>
  \<^verbatim>\<open>tests/assembler/elf_semantic_compare.py\<close>: the comparison of a relocatable object of the assembler with one of GNU \<^verbatim>\<open>as\<close>.  The reader of ELF files
  is the library \<^verbatim>\<open>pyelftools\<close>; what it returns for a file is the record \<open>elf\<close>: the header, the sections with their symbols, relocations and bytes,
  and the section it finds by name.  An entry of an enumeration is its name, or the number when the library does not know it.  SHA-256 is an argument.

  Shown here: what masking does to every byte; that the sorted rows are equal exactly when the bags of symbols and of relocations are; that the
  comparison is a preorder and its strict form an equivalence; which differences it cannot see.
\<close>

section \<open>What the library returns\<close>

datatype enum = Name string | Number int

record elf_symbol =
  st_name :: string
  st_bind :: enum
  st_type :: enum
  st_visibility :: enum
  st_shndx :: enum
  st_value :: int
  st_size :: int

record elf_rel =
  r_offset :: int
  r_info_type :: int
  r_info_sym :: int
  r_addend :: int

text \<open>A section; \<open>sc_relocs\<close> is \<^const>\<open>None\<close> unless it is a \<^verbatim>\<open>RelocationSection\<close>, \<open>sc_symbols\<close> unless it has \<^verbatim>\<open>iter_symbols\<close>.\<close>

record elf_section =
  sc_name :: string
  sc_type :: enum
  sc_flags :: int
  sc_entsize :: int
  sc_size :: int
  sc_addralign :: int
  sc_info :: int
  sc_link :: int
  sc_data :: "8 word list"
  sc_is_rela :: bool
  sc_relocs :: "elf_rel list option"
  sc_symbols :: "elf_symbol list option"

record elf =
  ef_class :: int
  ef_little_endian :: bool
  ef_type :: enum
  ef_machine :: enum
  ef_flags :: int
  ef_sections :: "elf_section list"
  ef_by_name :: "string \<Rightarrow> elf_section option"

text \<open>\<^verbatim>\<open>str\<close> of an entry of an enumeration.\<close>

definition str_enum :: "enum \<Rightarrow> string" where
  [py_defs]: "str_enum e = (case e of Name s \<Rightarrow> s | Number i \<Rightarrow> str_int i)"

section \<open>Symbols\<close>

definition IGNORE_SECTION_NAMES :: "string list" where
  [py_defs]: "IGNORE_SECTION_NAMES = [''.symtab'', ''.strtab'', ''.shstrtab'']"

definition R_RISCV_ALIGN :: int where
  [py_defs]: "R_RISCV_ALIGN = 43"

definition R_RISCV_RELAX :: int where
  [py_defs]: "R_RISCV_RELAX = 51"

definition RELOC_WIDTH :: "(int \<times> int) list" where
  [py_defs]: "RELOC_WIDTH = [
     (1, 4), (2, 8),
     (16, 4), (17, 4), (18, 8), (19, 8),
     (20, 4), (21, 4), (22, 4), (23, 4), (24, 4), (25, 4),
     (26, 4), (27, 4), (28, 4), (29, 4), (30, 4), (31, 4), (32, 4),
     (33, 1), (34, 2), (35, 4), (36, 8),
     (37, 1), (38, 2), (39, 4), (40, 8),
     (44, 2), (45, 2), (46, 2),
     (47, 4), (48, 4), (49, 4), (50, 4),
     (52, 1), (53, 1), (54, 1), (55, 2), (56, 4), (57, 4),
     (59, 4), (62, 4), (63, 4), (64, 4), (65, 4)]"

definition section_name_for_index :: "elf \<Rightarrow> enum \<Rightarrow> string" where
  [py_defs]: "section_name_for_index e idx =
     (case idx of
        Number i \<Rightarrow> if 0 \<le> i \<and> i < int (length (ef_sections e)) then sc_name (ef_sections e ! nat i) else ''INDEX:'' @ str_int i
      | Name s \<Rightarrow> s)"

datatype sym_key =
    SECTION string
  | LOCAL enum enum string int int
  | NAMED string enum enum enum string int int
  | NONE

definition symbol_semantic_key :: "elf \<Rightarrow> elf_symbol \<Rightarrow> sym_key option" where
  [py_defs]: "symbol_semantic_key e symb =
     (let bnd = st_bind symb; typ = st_type symb; vis = st_visibility symb; shndx = st_shndx symb;
          sec = section_name_for_index e shndx; val = st_value symb; sz = st_size symb; name = st_name symb in
      if typ = Name ''STT_FILE'' then None
      else if bnd = Name ''STB_LOCAL'' \<and> (startswith name ''$x'' \<or> startswith name ''$d'') then None
      else if typ = Name ''STT_SECTION'' then Some (SECTION sec)
      else if bnd = Name ''STB_LOCAL'' \<and> (case shndx of Number i \<Rightarrow> True | Name s \<Rightarrow> False) then Some (LOCAL typ vis sec val sz)
      else Some (NAMED name bnd typ vis sec val sz))"

definition count_symbol :: "elf \<Rightarrow> (sym_key \<times> int) list \<Rightarrow> elf_symbol \<Rightarrow> (sym_key \<times> int) list" where
  [py_defs]: "count_symbol e out symb = (case symbol_semantic_key e symb of None \<Rightarrow> out | Some key \<Rightarrow> bump key 1 out)"

definition symbols_of :: "elf_section \<Rightarrow> py_error + elf_symbol list" where
  [py_defs]: "symbols_of sec = of_option (AttributeError ''iter_symbols'') (sc_symbols sec)"

definition symbol_counter :: "elf \<Rightarrow> py_error + (sym_key \<times> int) list" where
  [py_defs]: "symbol_counter e =
     (case ef_by_name e ''.symtab'' of
        None \<Rightarrow> Inr []
      | Some symtab \<Rightarrow> bindE (symbols_of symtab) (\<lambda>syms. Inr (foldl (count_symbol e) [] syms)))"

section \<open>Relocations\<close>

text \<open>The keys (target, offset, type, symbol, addend).\<close>

type_synonym reloc_key = "string \<times> int \<times> int \<times> sym_key \<times> int"

record reloc_state =
  rs_out :: "(reloc_key \<times> int) list"
  rs_masks :: "(string \<times> (int \<times> int) list) list"
  rs_unknown :: "(string \<times> (int \<times> int) list) list"

text \<open>\<^verbatim>\<open>elf.get_section(n)\<close> and \<^verbatim>\<open>symtab.get_symbol(n)\<close>; a number out of range is an error of the reader.\<close>

definition get_section :: "elf \<Rightarrow> int \<Rightarrow> py_error + elf_section" where
  [py_defs]: "get_section e n = (if 0 \<le> n \<and> n < int (length (ef_sections e)) then Inr (ef_sections e ! nat n) else Inl (OSError ''section index''))"

definition get_symbol :: "elf_section \<Rightarrow> int \<Rightarrow> py_error + elf_symbol" where
  [py_defs]: "get_symbol sec n =
     bindE (symbols_of sec) (\<lambda>syms. if 0 \<le> n \<and> n < int (length syms) then Inr (syms ! nat n) else Inl (OSError ''symbol index''))"

definition count_reloc :: "elf \<Rightarrow> string \<Rightarrow> elf_section \<Rightarrow> bool \<Rightarrow> reloc_state \<Rightarrow> elf_rel \<Rightarrow> py_error + reloc_state" where
  [py_defs]: "count_reloc e target_name symtab is_rela st rel =
     (let typ = r_info_type rel; offset = r_offset rel; addend = (if is_rela then r_addend rel else 0) in
      if typ = R_RISCV_RELAX then Inr st
      else if typ = R_RISCV_ALIGN then
        Inr (if addend > 0 then st\<lparr>rs_masks := group_add target_name (offset, offset + addend) (rs_masks st)\<rparr> else st)
      else
        bindE (get_symbol symtab (r_info_sym rel)) (\<lambda>symb.
        let sym_key = (case symbol_semantic_key e symb of None \<Rightarrow> NONE | Some k \<Rightarrow> k);
            st1 = st\<lparr>rs_out := bump (target_name, offset, typ, sym_key, addend) 1 (rs_out st)\<rparr> in
        Inr (case map_of RELOC_WIDTH typ of
               Some width \<Rightarrow> st1\<lparr>rs_masks := group_add target_name (offset, offset + width) (rs_masks st1)\<rparr>
             | None \<Rightarrow> st1\<lparr>rs_unknown := group_add target_name (offset, typ) (rs_unknown st1)\<rparr>)))"

definition count_reloc_section :: "elf \<Rightarrow> reloc_state \<Rightarrow> elf_section \<Rightarrow> py_error + reloc_state" where
  [py_defs]: "count_reloc_section e st sec =
     (case sc_relocs sec of
        None \<Rightarrow> Inr st
      | Some rels \<Rightarrow>
          let target_name = section_name_for_index e (Number (sc_info sec)) in
          bindE (get_section e (sc_link sec)) (\<lambda>symtab. foldE (count_reloc e target_name symtab (sc_is_rela sec)) st rels))"

definition no_relocs :: reloc_state where
  [py_defs]: "no_relocs = \<lparr> rs_out = [], rs_masks = [], rs_unknown = [] \<rparr>"

definition relocation_counter :: "elf \<Rightarrow> py_error + reloc_state" where
  [py_defs]: "relocation_counter e = foldE (count_reloc_section e) no_relocs (ef_sections e)"

section \<open>Sections\<close>

record section_core =
  co_type :: string
  co_flags :: int
  co_entsize :: int
  co_size :: int

definition ignored :: "elf_section \<Rightarrow> bool" where
  [py_defs]: "ignored sec \<longleftrightarrow> sc_name sec \<in> set IGNORE_SECTION_NAMES \<or> sc_relocs sec \<noteq> None"

definition core_of :: "elf_section \<Rightarrow> section_core" where
  [py_defs]: "core_of sec = \<lparr> co_type = str_enum (sc_type sec), co_flags = sc_flags sec, co_entsize = sc_entsize sec, co_size = sc_size sec \<rparr>"

definition add_metadata ::
  "(string \<times> section_core) list \<times> (string \<times> int) list \<Rightarrow> elf_section \<Rightarrow> (string \<times> section_core) list \<times> (string \<times> int) list" where
  [py_defs]: "add_metadata acc sec = (if ignored sec then acc
     else (AList.update (sc_name sec) (core_of sec) (fst acc), AList.update (sc_name sec) (sc_addralign sec) (snd acc)))"

definition section_metadata :: "elf \<Rightarrow> (string \<times> section_core) list \<times> (string \<times> int) list" where
  [py_defs]: "section_metadata e = foldl add_metadata ([], []) (ef_sections e)"

definition align_ok :: "int \<Rightarrow> int \<Rightarrow> bool" where
  [py_defs]: "align_ok ref_align cand_align =
     (if ref_align = 0 then cand_align = 0 else \<not> (cand_align < ref_align \<or> cand_align mod ref_align \<noteq> 0))"

definition alignment_compatible :: "(string \<times> int) list \<Rightarrow> (string \<times> int) list \<Rightarrow> bool" where
  [py_defs]: "alignment_compatible reference candidate =
     (if set (keys reference) \<noteq> set (keys candidate) then False
      else list_all (\<lambda>(name, ref_align). case map_of candidate name of None \<Rightarrow> False | Some cand_align \<Rightarrow> align_ok ref_align cand_align) reference)"

text \<open>\<^verbatim>\<open>b[start:end] = zeros\<close> after clamping both ends.\<close>

definition mask_range :: "8 word list \<Rightarrow> int \<times> int \<Rightarrow> 8 word list" where
  [py_defs]: "mask_range b r =
     (let n = int (length b); start = max 0 (min n (fst r)); stop = max start (min n (snd r)) in
      take (nat start) b @ replicate (nat (stop - start)) 0 @ drop (nat stop) b)"

definition masked_bytes :: "8 word list \<Rightarrow> (int \<times> int) list \<Rightarrow> 8 word list" where
  [py_defs]: "masked_bytes data ranges = foldl mask_range data ranges"

definition list_at :: "(string \<times> 'a list) list \<Rightarrow> string \<Rightarrow> 'a list" where
  [py_defs]: "list_at d name = (case map_of d name of None \<Rightarrow> [] | Some xs \<Rightarrow> xs)"

definition add_contents ::
  "(8 word list \<Rightarrow> string) \<Rightarrow> reloc_state \<Rightarrow> (string \<times> int \<times> string) list \<times> (string \<times> (int \<times> int) list) list \<Rightarrow> elf_section \<Rightarrow>
   (string \<times> int \<times> string) list \<times> (string \<times> (int \<times> int) list) list" where
  [py_defs]: "add_contents sha256 rs acc sec =
     (let name = sc_name sec in
      if ignored sec \<or> str_enum (sc_type sec) \<noteq> ''SHT_PROGBITS'' then acc
      else if list_at (rs_unknown rs) name \<noteq> [] then (fst acc, AList.update name (list_at (rs_unknown rs) name) (snd acc))
      else
        let data = masked_bytes (sc_data sec) (list_at (rs_masks rs) name) in
        (AList.update name (int (length data), sha256 data) (fst acc), snd acc))"

definition comparable_contents ::
  "(8 word list \<Rightarrow> string) \<Rightarrow> elf \<Rightarrow> reloc_state \<Rightarrow> (string \<times> int \<times> string) list \<times> (string \<times> (int \<times> int) list) list" where
  [py_defs]: "comparable_contents sha256 e rs = foldl (add_contents sha256 rs) ([], []) (ef_sections e)"

section \<open>Rows in the order of their texts\<close>

definition json_enum :: "enum \<Rightarrow> json" where
  [py_defs]: "json_enum e = (case e of Name s \<Rightarrow> JStr s | Number i \<Rightarrow> JInt i)"

definition json_sym_key :: "sym_key \<Rightarrow> json" where
  [py_defs]: "json_sym_key k = JList (case k of
     SECTION sec \<Rightarrow> [JStr ''SECTION'', JStr sec]
   | LOCAL typ vis sec val sz \<Rightarrow> [JStr ''LOCAL'', json_enum typ, json_enum vis, JStr sec, JInt val, JInt sz]
   | NAMED name bnd typ vis sec val sz \<Rightarrow>
       [JStr ''NAMED'', JStr name, json_enum bnd, json_enum typ, json_enum vis, JStr sec, JInt val, JInt sz]
   | NONE \<Rightarrow> [JStr ''NONE''])"

definition json_reloc_key :: "reloc_key \<Rightarrow> json" where
  [py_defs]: "json_reloc_key k = (case k of (target_name, offset, typ, sym_key, addend) \<Rightarrow>
     JList [JStr target_name, JInt offset, JInt typ, json_sym_key sym_key, JInt addend])"

definition counter_to_sorted_list :: "('k \<Rightarrow> json) \<Rightarrow> ('k \<times> int) list \<Rightarrow> ('k \<times> int) list" where
  [py_defs]: "counter_to_sorted_list json_key counter = sort_key (\<lambda>row. dumps_line (json_key (fst row))) counter"

section \<open>The meaning of a file\<close>

record elf_header =
  hd_class :: int
  hd_little_endian :: bool
  hd_type :: string
  hd_machine :: string
  hd_flags :: int

record semantics =
  sm_header :: elf_header
  sm_core :: "(string \<times> section_core) list"
  sm_alignment :: "(string \<times> int) list"
  sm_symbols :: "(sym_key \<times> int) list"
  sm_relocations :: "(reloc_key \<times> int) list"
  sm_contents :: "(string \<times> int \<times> string) list"
  sm_skipped :: "(string \<times> (int \<times> int) list) list"

definition header_of :: "elf \<Rightarrow> elf_header" where
  [py_defs]: "header_of e = \<lparr> hd_class = ef_class e, hd_little_endian = ef_little_endian e, hd_type = str_enum (ef_type e),
     hd_machine = str_enum (ef_machine e), hd_flags = ef_flags e \<rparr>"

definition load_semantics :: "(8 word list \<Rightarrow> string) \<Rightarrow> (string \<Rightarrow> py_error + elf) \<Rightarrow> string \<Rightarrow> py_error + semantics" where
  [py_defs]: "load_semantics sha256 open_elf path =
     bindE (open_elf path) (\<lambda>e.
     bindE (relocation_counter e) (\<lambda>rs.
     let (contents, skipped) = comparable_contents sha256 e rs; (section_core, section_alignment) = section_metadata e in
     bindE (symbol_counter e) (\<lambda>symbols.
       Inr \<lparr> sm_header = header_of e, sm_core = section_core, sm_alignment = section_alignment,
             sm_symbols = counter_to_sorted_list json_sym_key symbols, sm_relocations = counter_to_sorted_list json_reloc_key (rs_out rs),
             sm_contents = contents, sm_skipped = skipped \<rparr>)))"

section \<open>The comparison\<close>

definition dimensions_of :: "semantics \<Rightarrow> semantics \<Rightarrow> (string \<times> bool) list" where
  [py_defs]: "dimensions_of reference candidate = [
     (''header'', sm_header reference = sm_header candidate),
     (''section_core'', dict_eq (sm_core reference) (sm_core candidate)),
     (''section_alignment_compatible'', alignment_compatible (sm_alignment reference) (sm_alignment candidate)),
     (''symbols'', sm_symbols reference = sm_symbols candidate),
     (''relocations'', sm_relocations reference = sm_relocations candidate),
     (''contents_masked'', dict_eq (sm_contents reference) (sm_contents candidate))]"

definition json_row :: "('k \<Rightarrow> json) \<Rightarrow> 'k \<times> int \<Rightarrow> json" where
  [py_defs]: "json_row json_key row = JObj [(''key'', json_key (fst row)), (''count'', JInt (snd row))]"

definition json_item :: "('v \<Rightarrow> json) \<Rightarrow> string \<times> 'v \<Rightarrow> json" where
  [py_defs]: "json_item f item = JList [JStr (fst item), f (snd item)]"

definition header_items :: "elf_header \<Rightarrow> (string \<times> json) list" where
  [py_defs]: "header_items h = [(''class'', JInt (hd_class h)), (''little_endian'', JBool (hd_little_endian h)), (''type'', JStr (hd_type h)),
     (''machine'', JStr (hd_machine h)), (''flags'', JInt (hd_flags h))]"

definition json_core :: "section_core \<Rightarrow> json" where
  [py_defs]: "json_core c = JObj [(''type'', JStr (co_type c)), (''flags'', JInt (co_flags c)), (''entsize'', JInt (co_entsize c)), (''size'', JInt (co_size c))]"

definition json_content :: "int \<times> string \<Rightarrow> json" where
  [py_defs]: "json_content c = JObj [(''size'', JInt (fst c)), (''sha256'', JStr (snd c))]"

text \<open>The entries of a dimension as they are listed in the samples.\<close>

definition listing :: "semantics \<Rightarrow> string \<Rightarrow> json list" where
  [py_defs]: "listing s key =
     (if key = ''header'' then map (json_item (\<lambda>v. v)) (header_items (sm_header s))
      else if key = ''section_core'' then map (json_item json_core) (sm_core s)
      else if key = ''symbols'' then map (json_row json_sym_key) (sm_symbols s)
      else if key = ''relocations'' then map (json_row json_reloc_key) (sm_relocations s)
      else map (json_item json_content) (sm_contents s))"

definition difference :: "semantics \<Rightarrow> semantics \<Rightarrow> string \<Rightarrow> string \<times> json" where
  [py_defs]: "difference reference candidate key =
     (key, JObj [(''reference_count'', JInt (int (length (listing reference key)))), (''candidate_count'', JInt (int (length (listing candidate key)))),
        (''reference_sample'', JList (take 20 (listing reference key))), (''candidate_sample'', JList (take 20 (listing candidate key)))])"

definition json_alignment :: "(string \<times> int) list \<Rightarrow> json" where
  [py_defs]: "json_alignment d = JObj (map (\<lambda>(k, v). (k, JInt v)) d)"

definition differences_of :: "semantics \<Rightarrow> semantics \<Rightarrow> (string \<times> bool) list \<Rightarrow> bool \<Rightarrow> bool \<Rightarrow> (string \<times> json) list" where
  [py_defs]: "differences_of reference candidate dimensions compatible strict_alignment =
     map (\<lambda>(key, _). difference reference candidate key) (filter (\<lambda>(key, equal). \<not> equal \<and> key \<noteq> ''section_alignment_compatible'') dimensions) @
     (if \<not> compatible \<or> \<not> strict_alignment
      then [(''section_alignment'', JObj [(''reference'', json_alignment (sm_alignment reference)), (''candidate'', json_alignment (sm_alignment candidate)),
             (''compatible'', JBool compatible)])]
      else [])"

record comparison =
  cp_equal :: bool
  cp_strict_equal :: bool
  cp_dimensions :: "(string \<times> bool) list"
  cp_strict_alignment :: bool
  cp_reference_skipped :: "(string \<times> (int \<times> int) list) list"
  cp_candidate_skipped :: "(string \<times> (int \<times> int) list) list"
  cp_differences :: "(string \<times> json) list option"

definition compare_semantics :: "semantics \<Rightarrow> semantics \<Rightarrow> comparison" where
  [py_defs]: "compare_semantics reference candidate =
     (let dimensions = dimensions_of reference candidate; strict_alignment = dict_eq (sm_alignment reference) (sm_alignment candidate);
          equal = list_all snd dimensions in
      \<lparr> cp_equal = equal, cp_strict_equal = (equal \<and> strict_alignment), cp_dimensions = dimensions, cp_strict_alignment = strict_alignment,
        cp_reference_skipped = sm_skipped reference, cp_candidate_skipped = sm_skipped candidate,
        cp_differences = (if \<not> equal \<or> \<not> strict_alignment
          then Some (differences_of reference candidate dimensions (alignment_compatible (sm_alignment reference) (sm_alignment candidate)) strict_alignment)
          else None) \<rparr>)"

definition compare_paths ::
  "(8 word list \<Rightarrow> string) \<Rightarrow> (string \<Rightarrow> py_error + elf) \<Rightarrow> string \<Rightarrow> string \<Rightarrow> py_error + comparison" where
  [py_defs]: "compare_paths sha256 open_elf reference_path candidate_path =
     bindE (load_semantics sha256 open_elf reference_path) (\<lambda>reference.
     bindE (load_semantics sha256 open_elf candidate_path) (\<lambda>candidate. Inr (compare_semantics reference candidate)))"

definition json_skipped :: "(string \<times> (int \<times> int) list) list \<Rightarrow> json" where
  [py_defs]: "json_skipped d = JObj (map (\<lambda>(k, xs). (k, JList (map (\<lambda>(offset, typ). JList [JInt offset, JInt typ]) xs))) d)"

text \<open>\<^verbatim>\<open>str(Path(p))\<close> is an argument.\<close>

definition json_comparison :: "(string \<Rightarrow> string) \<Rightarrow> string \<Rightarrow> string \<Rightarrow> comparison \<Rightarrow> json" where
  [py_defs]: "json_comparison str_path reference_path candidate_path r = JObj
     ([(''reference'', JStr (str_path reference_path)), (''candidate'', JStr (str_path candidate_path)), (''equal'', JBool (cp_equal r)),
       (''strict_equal'', JBool (cp_strict_equal r)), (''dimensions'', JObj (map (\<lambda>(k, b). (k, JBool b)) (cp_dimensions r))),
       (''strict_section_alignment'', JBool (cp_strict_alignment r)), (''reference_skipped_content'', json_skipped (cp_reference_skipped r)),
       (''candidate_skipped_content'', json_skipped (cp_candidate_skipped r))] @
      (case cp_differences r of None \<Rightarrow> [] | Some d \<Rightarrow> [(''differences'', JObj d)]))"

text \<open>The printed text, the text written to \<^verbatim>\<open>--json-out\<close> if given, and the exit status.\<close>

definition compare_main ::
  "(8 word list \<Rightarrow> string) \<Rightarrow> (string \<Rightarrow> py_error + elf) \<Rightarrow> (string \<Rightarrow> string) \<Rightarrow> string \<Rightarrow> string \<Rightarrow> bool \<Rightarrow> py_error + string \<times> string option \<times> int" where
  [py_defs]: "compare_main sha256 open_elf str_path reference candidate json_out =
     bindE (compare_paths sha256 open_elf reference candidate) (\<lambda>result.
     let output = dumps True 0 (json_comparison str_path reference candidate result) in
     Inr (output @ ''\<newline>'', if json_out then Some (output @ ''\<newline>'') else None, if cp_equal result then 0 else 1))"


section \<open>Masking\<close>

lemma length_mask_range [simp]: "length (mask_range b r) = length b"
proof -
  define n start stop where "n = int (length b)" and "start = max 0 (min n (fst r))" and "stop = max start (min n (snd r))"
  have "0 \<le> start" "start \<le> stop" "stop \<le> n" by (simp_all add: n_def start_def stop_def)
  moreover have "mask_range b r = take (nat start) b @ replicate (nat (stop - start)) 0 @ drop (nat stop) b"
    by (simp add: mask_range_def Let_def n_def start_def stop_def)
  ultimately show ?thesis by (simp add: n_def)
qed

lemma nth_mask_range:
  assumes "i < length b"
  shows "mask_range b r ! i = (if fst r \<le> int i \<and> int i < snd r then 0 else b ! i)"
proof -
  define n start stop where "n = int (length b)" and "start = max 0 (min n (fst r))" and "stop = max start (min n (snd r))"
  have bounds: "0 \<le> start" "start \<le> stop" "stop \<le> n" by (simp_all add: n_def start_def stop_def)
  have inside: "start \<le> int i \<and> int i < stop \<longleftrightarrow> fst r \<le> int i \<and> int i < snd r"
    using assms by (auto simp: n_def start_def stop_def)
  have "mask_range b r = take (nat start) b @ replicate (nat (stop - start)) 0 @ drop (nat stop) b"
    by (simp add: mask_range_def Let_def n_def start_def stop_def)
  moreover have "(take (nat start) b @ replicate (nat (stop - start)) 0 @ drop (nat stop) b) ! i =
      (if start \<le> int i \<and> int i < stop then 0 else b ! i)"
    using assms bounds by (auto simp: nth_append n_def nat_diff_distrib' min_def le_nat_iff)
  ultimately show ?thesis using inside by simp
qed

lemma length_masked_bytes [simp]: "length (masked_bytes data ranges) = length data"
  unfolding masked_bytes_def by (induction ranges arbitrary: data) simp_all

definition covered :: "(int \<times> int) list \<Rightarrow> nat \<Rightarrow> bool" where
  "covered ranges i \<longleftrightarrow> list_ex (\<lambda>r. fst r \<le> int i \<and> int i < snd r) ranges"

lemma nth_masked_bytes:
  "i < length data \<Longrightarrow> masked_bytes data ranges ! i = (if covered ranges i then 0 else data ! i)"
  unfolding masked_bytes_def by (induction ranges arbitrary: data) (auto simp: nth_mask_range covered_def)

text \<open>
  C11. Masking keeps the length of the bytes, zeroes exactly the bytes inside of a range, whatever the ranges are, and keeps every other byte; so two
  sections with the same ranges are equal after masking exactly when they agree outside of the ranges.
\<close>
theorem masked_bytes_exact:
  "length (masked_bytes data ranges) = length data \<and>
   masked_bytes data ranges =
     map (\<lambda>i. if covered ranges i then 0 else data ! i) [0..<length data] \<and>
   (masked_bytes data ranges = masked_bytes data' ranges \<longleftrightarrow>
      length data = length data' \<and>
      list_all (\<lambda>i. covered ranges i \<or> data ! i = data' ! i) [0..<length data])"
proof (intro conjI)
  show "masked_bytes data ranges = map (\<lambda>i. if covered ranges i then 0 else data ! i) [0..<length data]"
    by (rule nth_equalityI) (auto simp: nth_masked_bytes)
  show "masked_bytes data ranges = masked_bytes data' ranges \<longleftrightarrow> length data = length data' \<and>
      list_all (\<lambda>i. covered ranges i \<or> data ! i = data' ! i) [0..<length data]"
    unfolding list_eq_iff_nth_eq [of "masked_bytes data ranges"] by (auto simp: nth_masked_bytes list_all_iff)
qed simp

section \<open>Counters and bags\<close>

lemma tally_eq_iff:
  assumes "\<And>k k'. dumps_line (jk k) = dumps_line (jk k') \<Longrightarrow> k = k'"
  shows "counter_to_sorted_list jk (tally ks) = counter_to_sorted_list jk (tally ks') \<longleftrightarrow> mset ks = mset ks'"
proof
  assume eq: "counter_to_sorted_list jk (tally ks) = counter_to_sorted_list jk (tally ks')"
  then have sets: "set (tally ks) = set (tally ks')" unfolding counter_to_sorted_list_def by (metis set_sort)
  have "count_of (tally ks) k = count_of (tally ks') k" for k
    using sets tally_count [of ks] tally_count [of ks'] by (metis count_of_def map_of_inject_set)
  then show "mset ks = mset ks'" using tally_count [of ks] tally_count [of ks'] by (metis multiset_eqI of_nat_eq_iff)
next
  assume eq: "mset ks = mset ks'"
  then have "set (tally ks) = set (tally ks')" by (metis set_mset_mset tally_set)
  then have ms: "mset (tally ks) = mset (tally ks')"
    using tally_count [of ks] tally_count [of ks'] by (simp add: distinct_map set_eq_iff_mset_eq_distinct)
  have "inj_on (\<lambda>row. dumps_line (jk (fst row))) (set (tally ks))"
    using assms tally_count [of ks] by (auto simp: inj_on_def distinct_map dest!: assms)
  then show "counter_to_sorted_list jk (tally ks) = counter_to_sorted_list jk (tally ks')"
    unfolding counter_to_sorted_list_def using ms by (intro sort_key_inj_key_eq) simp_all
qed


section \<open>What the counters count\<close>

definition symbol_keys :: "elf \<Rightarrow> sym_key list" where
  "symbol_keys e = (case ef_by_name e ''.symtab'' of
     None \<Rightarrow> [] | Some symtab \<Rightarrow> (case sc_symbols symtab of None \<Rightarrow> [] | Some syms \<Rightarrow> List.map_filter (symbol_semantic_key e) syms))"

lemma count_symbols: "foldl (count_symbol e) (tally ks) syms = tally (ks @ List.map_filter (symbol_semantic_key e) syms)"
proof (induction syms arbitrary: ks)
  case Nil
  then show ?case by (simp add: List.map_filter_def)
next
  case (Cons s syms)
  have "count_symbol e (tally ks) s = tally (ks @ List.map_filter (symbol_semantic_key e) [s])"
    by (cases "symbol_semantic_key e s") (simp_all add: count_symbol_def List.map_filter_simps tally_snoc)
  then show ?case using Cons.IH [of "ks @ List.map_filter (symbol_semantic_key e) [s]"] by (simp add: List.map_filter_def)
qed

lemma symbol_counter_tally: "symbol_counter e = Inr c \<Longrightarrow> c = tally (symbol_keys e)"
  using count_symbols [of e "[]"]
  by (auto simp: symbol_counter_def symbol_keys_def symbols_of_def resE split: option.splits)

text \<open>The relocations of a file with their sections, and what each stands for.\<close>

definition pairs_of :: "elf_section \<Rightarrow> (elf_section \<times> elf_rel) list" where
  "pairs_of sec = (case sc_relocs sec of None \<Rightarrow> [] | Some rels \<Rightarrow> map (Pair sec) rels)"

definition rels_of :: "elf \<Rightarrow> (elf_section \<times> elf_rel) list" where
  "rels_of e = concat (map pairs_of (ef_sections e))"

definition target_of :: "elf \<Rightarrow> elf_section \<Rightarrow> string" where
  "target_of e sec = section_name_for_index e (Number (sc_info sec))"

definition addend_of :: "elf_section \<Rightarrow> elf_rel \<Rightarrow> int" where
  "addend_of sec rel = (if sc_is_rela sec then r_addend rel else 0)"

definition rel_sym_key :: "elf \<Rightarrow> elf_section \<Rightarrow> elf_rel \<Rightarrow> sym_key" where
  "rel_sym_key e sec rel = (case bindE (get_section e (sc_link sec)) (\<lambda>symtab. get_symbol symtab (r_info_sym rel)) of
     Inl _ \<Rightarrow> NONE | Inr symb \<Rightarrow> (case symbol_semantic_key e symb of None \<Rightarrow> NONE | Some k \<Rightarrow> k))"

definition hint :: "elf_rel \<Rightarrow> bool" where
  "hint rel \<longleftrightarrow> r_info_type rel = R_RISCV_RELAX \<or> r_info_type rel = R_RISCV_ALIGN"

fun rel_key :: "elf \<Rightarrow> elf_section \<times> elf_rel \<Rightarrow> reloc_key option" where
  "rel_key e (sec, rel) =
     (if hint rel then None else Some (target_of e sec, r_offset rel, r_info_type rel, rel_sym_key e sec rel, addend_of sec rel))"

fun rel_mask :: "elf_section \<times> elf_rel \<Rightarrow> (int \<times> int) option" where
  "rel_mask (sec, rel) =
     (if r_info_type rel = R_RISCV_RELAX then None
      else if r_info_type rel = R_RISCV_ALIGN
      then (if addend_of sec rel > 0 then Some (r_offset rel, r_offset rel + addend_of sec rel) else None)
      else map_option (\<lambda>width. (r_offset rel, r_offset rel + width)) (map_of RELOC_WIDTH (r_info_type rel)))"

fun rel_unknown :: "elf_section \<times> elf_rel \<Rightarrow> (int \<times> int) option" where
  "rel_unknown (sec, rel) =
     (if hint rel \<or> map_of RELOC_WIDTH (r_info_type rel) \<noteq> None then None else Some (r_offset rel, r_info_type rel))"

definition on_target :: "elf \<Rightarrow> string \<Rightarrow> (elf_section \<times> elf_rel) list \<Rightarrow> (elf_section \<times> elf_rel) list" where
  "on_target e name prs = filter (\<lambda>p. target_of e (fst p) = name) prs"

definition counted :: "elf \<Rightarrow> (elf_section \<times> elf_rel) list \<Rightarrow> reloc_state \<Rightarrow> bool" where
  "counted e prs st \<longleftrightarrow> rs_out st = tally (List.map_filter (rel_key e) prs) \<and>
     (\<forall>name. list_at (rs_masks st) name = List.map_filter rel_mask (on_target e name prs)) \<and>
     (\<forall>name. list_at (rs_unknown st) name = List.map_filter rel_unknown (on_target e name prs))"

lemma list_at_group_add: "list_at (group_add k x d) name = list_at d name @ (if name = k then [x] else [])"
  by (auto simp: list_at_def group_add_def update_conv' split: option.splits)

lemma map_filter_append: "List.map_filter f (xs @ ys) = List.map_filter f xs @ List.map_filter f ys"
  by (simp add: List.map_filter_def)

lemma on_target_snoc: "on_target e name (prs @ [(sec, rel)]) = on_target e name prs @ (if target_of e sec = name then [(sec, rel)] else [])"
  by (simp add: on_target_def)

lemma count_reloc_counted:
  assumes "counted e prs st" and "get_section e (sc_link sec) = Inr symtab"
    and "count_reloc e (target_of e sec) symtab (sc_is_rela sec) st rel = Inr st'"
  shows "counted e (prs @ [(sec, rel)]) st'"
proof -
  note snoc = map_filter_append on_target_snoc List.map_filter_simps
  show ?thesis
  proof (cases "hint rel")
    case True
    with assms(1,3) show ?thesis
      by (auto simp: counted_def snoc hint_def count_reloc_def Let_def addend_of_def list_at_group_add R_RISCV_RELAX_def R_RISCV_ALIGN_def split: if_splits)
  next
    case False
    then obtain symb where symb: "get_symbol symtab (r_info_sym rel) = Inr symb" using assms(3) by (auto simp: count_reloc_def hint_def Let_def resE)
    then have key: "(case symbol_semantic_key e symb of None \<Rightarrow> NONE | Some k \<Rightarrow> k) = rel_sym_key e sec rel"
      by (simp add: rel_sym_key_def assms(2))
    show ?thesis
    proof (cases "map_of RELOC_WIDTH (r_info_type rel)")
      case None
      with assms(1,3) False symb key show ?thesis
        by (auto simp: counted_def snoc hint_def count_reloc_def Let_def addend_of_def list_at_group_add tally_snoc)
    next
      case (Some width)
      with assms(1,3) False symb key show ?thesis
        by (auto simp: counted_def snoc hint_def count_reloc_def Let_def addend_of_def list_at_group_add tally_snoc)
    qed
  qed
qed

lemma count_section_counted:
  assumes "counted e prs st" and "count_reloc_section e st sec = Inr st'"
  shows "counted e (prs @ pairs_of sec) st'"
proof (cases "sc_relocs sec")
  case None
  with assms show ?thesis by (simp add: count_reloc_section_def pairs_of_def)
next
  case (Some rels)
  then obtain symtab where symtab: "get_section e (sc_link sec) = Inr symtab"
    and run: "foldE (count_reloc e (target_of e sec) symtab (sc_is_rela sec)) st rels = Inr st'"
    using assms(2) by (auto simp: count_reloc_section_def target_of_def Let_def resE)
  have "counted e (prs @ map (Pair sec) rels) st'"
    by (rule foldE_prefix_invariant [OF run, where P = "\<lambda>rs s. counted e (prs @ map (Pair sec) rs) s"])
      (use assms(1) count_reloc_counted [OF _ symtab] in \<open>auto simp flip: append_assoc\<close>)
  with Some show ?thesis by (simp add: pairs_of_def)
qed

lemma relocation_counter_counted:
  assumes "relocation_counter e = Inr rs"
  shows "counted e (rels_of e) rs"
proof -
  have "counted e [] no_relocs" by (simp add: counted_def no_relocs_def on_target_def list_at_def List.map_filter_def)
  then show ?thesis
    unfolding rels_of_def
    by (intro foldE_prefix_invariant [OF assms [unfolded relocation_counter_def], where P = "\<lambda>secs s. counted e (concat (map pairs_of secs)) s"])
      (auto intro: count_section_counted)
qed


section \<open>Dictionaries by name\<close>

definition latest :: "('a \<Rightarrow> bool) \<Rightarrow> 'a list \<Rightarrow> 'a option" where
  "latest P xs = (case filter P xs of [] \<Rightarrow> None | ys \<Rightarrow> Some (last ys))"

lemma latest_snoc: "latest P (xs @ [x]) = (if P x then Some x else latest P xs)"
  by (cases "filter P xs") (auto simp: latest_def)

lemma latest_Nil [simp]: "latest P [] = None"
  by (simp add: latest_def)

text \<open>A dictionary filled from the sections that are kept: a later section replaces an earlier one of the same name.\<close>

definition fill :: "(elf_section \<Rightarrow> bool) \<Rightarrow> (elf_section \<Rightarrow> 'v) \<Rightarrow> elf_section list \<Rightarrow> (string \<times> 'v) list" where
  "fill keep g secs = foldl (\<lambda>d sec. if keep sec then AList.update (sc_name sec) (g sec) d else d) [] secs"

lemma fill_snoc: "fill keep g (secs @ [sec]) = (if keep sec then AList.update (sc_name sec) (g sec) (fill keep g secs) else fill keep g secs)"
  by (simp add: fill_def)

lemma fill_lookup: "map_of (fill keep g secs) name = map_option g (latest (\<lambda>sec. keep sec \<and> sc_name sec = name) secs)"
proof (induction secs rule: rev_induct)
  case Nil
  show ?case by (simp add: fill_def)
next
  case (snoc sec secs)
  then show ?case by (simp add: fill_snoc latest_snoc update_conv')
qed

lemma fill_distinct: "distinct (keys (fill keep g secs))"
  by (induction secs rule: rev_induct) (simp_all add: fill_snoc distinct_update, simp add: fill_def)

lemma section_metadata_fill:
  "section_metadata e = (fill (\<lambda>sec. \<not> ignored sec) core_of (ef_sections e), fill (\<lambda>sec. \<not> ignored sec) sc_addralign (ef_sections e))"
proof -
  have "foldl add_metadata ([], []) secs = (fill (\<lambda>sec. \<not> ignored sec) core_of secs, fill (\<lambda>sec. \<not> ignored sec) sc_addralign secs)" for secs
    by (induction secs rule: rev_induct) (simp_all add: fill_snoc add_metadata_def, simp add: fill_def)
  then show ?thesis by (simp add: section_metadata_def)
qed

definition compared :: "elf \<Rightarrow> elf_section \<Rightarrow> bool" where
  "compared e sec \<longleftrightarrow> \<not> ignored sec \<and> str_enum (sc_type sec) = ''SHT_PROGBITS'' \<and>
     List.map_filter rel_unknown (on_target e (sc_name sec) (rels_of e)) = []"

definition masked_data :: "elf \<Rightarrow> elf_section \<Rightarrow> 8 word list" where
  "masked_data e sec = masked_bytes (sc_data sec) (List.map_filter rel_mask (on_target e (sc_name sec) (rels_of e)))"

lemma contents_fill:
  assumes "relocation_counter e = Inr rs"
  shows "fst (comparable_contents sha256 e rs) = fill (compared e) (\<lambda>sec. (int (length (sc_data sec)), sha256 (masked_data e sec))) (ef_sections e)"
proof -
  have "counted e (rels_of e) rs" using assms by (rule relocation_counter_counted)
  then have step: "fst (add_contents sha256 rs acc sec) =
      (if compared e sec then AList.update (sc_name sec) (int (length (sc_data sec)), sha256 (masked_data e sec)) (fst acc) else fst acc)" for acc sec
    by (simp add: add_contents_def counted_def compared_def masked_data_def Let_def)
  have "fst (foldl (add_contents sha256 rs) ([], []) secs) = fill (compared e) (\<lambda>sec. (int (length (sc_data sec)), sha256 (masked_data e sec))) secs" for secs
    by (induction secs rule: rev_induct) (simp_all add: fill_snoc step, simp add: fill_def)
  then show ?thesis by (simp add: comparable_contents_def)
qed

text \<open>The texts of different keys are different.\<close>

lemma json_enum_inj: "json_enum a = json_enum b \<longleftrightarrow> a = b"
  by (cases a; cases b) (simp_all add: json_enum_def)

lemma json_sym_key_inj: "json_sym_key k = json_sym_key k' \<longleftrightarrow> k = k'"
  by (cases k; cases k') (simp_all add: json_sym_key_def json_enum_inj)

lemma keylike_sym: "keylike (json_sym_key k)"
  by (cases k) (simp_all add: json_sym_key_def json_enum_def split: enum.split)

lemma symbol_text_inj: "dumps_line (json_sym_key k) = dumps_line (json_sym_key k') \<Longrightarrow> k = k'"
  using dumps_line_inj [OF keylike_sym keylike_sym] json_sym_key_inj by blast

lemma reloc_text_inj: "dumps_line (json_reloc_key k) = dumps_line (json_reloc_key k') \<Longrightarrow> k = k'"
proof -
  have "keylike (json_reloc_key k)" for k by (cases k) (simp add: json_reloc_key_def keylike_sym)
  moreover assume "dumps_line (json_reloc_key k) = dumps_line (json_reloc_key k')"
  ultimately have "json_reloc_key k = json_reloc_key k'" using dumps_line_inj by blast
  then show ?thesis by (cases k; cases k') (simp add: json_reloc_key_def json_sym_key_inj)
qed

section \<open>What the comparison decides\<close>

definition kept :: "elf \<Rightarrow> string \<Rightarrow> elf_section option" where
  "kept e name = latest (\<lambda>sec. \<not> ignored sec \<and> sc_name sec = name) (ef_sections e)"

definition content :: "(8 word list \<Rightarrow> string) \<Rightarrow> elf \<Rightarrow> string \<Rightarrow> (int \<times> string) option" where
  "content sha256 e name =
     map_option (\<lambda>sec. (int (length (sc_data sec)), sha256 (masked_data e sec))) (latest (\<lambda>sec. compared e sec \<and> sc_name sec = name) (ef_sections e))"

definition aligned :: "elf \<Rightarrow> elf \<Rightarrow> bool" where
  "aligned a b \<longleftrightarrow> (\<forall>name. rel_option (\<lambda>x y. align_ok (sc_addralign x) (sc_addralign y)) (kept a name) (kept b name))"

definition same_object :: "(8 word list \<Rightarrow> string) \<Rightarrow> elf \<Rightarrow> elf \<Rightarrow> bool" where
  "same_object sha256 a b \<longleftrightarrow>
     header_of a = header_of b \<and> (\<forall>name. map_option core_of (kept a name) = map_option core_of (kept b name)) \<and>
     mset (symbol_keys a) = mset (symbol_keys b) \<and>
     mset (List.map_filter (rel_key a) (rels_of a)) = mset (List.map_filter (rel_key b) (rels_of b)) \<and>
     (\<forall>name. content sha256 a name = content sha256 b name)"

definition readable :: "elf \<Rightarrow> bool" where
  "readable e \<longleftrightarrow> (\<exists>rs. relocation_counter e = Inr rs) \<and> (\<exists>c. symbol_counter e = Inr c)"

lemma load_semantics_ok:
  assumes "load_semantics sha256 open_elf path = Inr s"
  shows "\<exists>e. open_elf path = Inr e \<and> readable e \<and>
     sm_header s = header_of e \<and> sm_core s = fill (\<lambda>sec. \<not> ignored sec) core_of (ef_sections e) \<and>
     sm_alignment s = fill (\<lambda>sec. \<not> ignored sec) sc_addralign (ef_sections e) \<and>
     sm_symbols s = counter_to_sorted_list json_sym_key (tally (symbol_keys e)) \<and>
     sm_relocations s = counter_to_sorted_list json_reloc_key (tally (List.map_filter (rel_key e) (rels_of e))) \<and>
     sm_contents s = fill (compared e) (\<lambda>sec. (int (length (sc_data sec)), sha256 (masked_data e sec))) (ef_sections e)"
proof -
  from assms obtain e rs where e: "open_elf path = Inr e" and rs: "relocation_counter e = Inr rs"
    and rest: "bindE (symbol_counter e) (\<lambda>symbols.
       Inr \<lparr> sm_header = header_of e, sm_core = fst (section_metadata e), sm_alignment = snd (section_metadata e),
             sm_symbols = counter_to_sorted_list json_sym_key symbols, sm_relocations = counter_to_sorted_list json_reloc_key (rs_out rs),
             sm_contents = fst (comparable_contents sha256 e rs), sm_skipped = snd (comparable_contents sha256 e rs) \<rparr>) = Inr s"
    unfolding load_semantics_def by (auto simp: bindE_Inr_iff [of "open_elf path"] bindE_Inr_iff [of "relocation_counter _"] case_prod_unfold Let_def)
  from rest obtain c where c: "symbol_counter e = Inr c" by (auto simp: resE)
  with rest symbol_counter_tally [OF c] contents_fill [OF rs] relocation_counter_counted [OF rs] e rs show ?thesis
    by (auto simp: readable_def section_metadata_fill counted_def)
qed

lemma alignment_iff:
  "alignment_compatible (fill (\<lambda>sec. \<not> ignored sec) sc_addralign (ef_sections a)) (fill (\<lambda>sec. \<not> ignored sec) sc_addralign (ef_sections b)) \<longleftrightarrow>
   aligned a b"
  (is "alignment_compatible ?r ?c \<longleftrightarrow> _")
proof -
  have look: "map_of ?r name = map_option sc_addralign (kept a name)" "map_of ?c name = map_option sc_addralign (kept b name)" for name
    by (simp_all add: fill_lookup kept_def)
  have keys: "name \<in> set (keys ?r) \<longleftrightarrow> kept a name \<noteq> None" "name \<in> set (keys ?c) \<longleftrightarrow> kept b name \<noteq> None" for name
    using look [of name] by (metis map_of_eq_None_iff option.map_disc_iff set_map)+
  have mem: "(name, n) \<in> set ?r \<longleftrightarrow> (\<exists>x. kept a name = Some x \<and> n = sc_addralign x)" for name n
    using look(1) [of name] map_of_eq_Some_iff [OF fill_distinct, of "\<lambda>sec. \<not> ignored sec" sc_addralign "ef_sections a" name n] by auto
  show ?thesis
  proof
    assume comp: "alignment_compatible ?r ?c"
    show "aligned a b"
      unfolding aligned_def
    proof
      fix name
      have "kept a name = None \<longleftrightarrow> kept b name = None" using comp keys [of name] by (auto simp: alignment_compatible_def simp del: set_map split: if_splits)
      moreover have "align_ok (sc_addralign x) (sc_addralign y)" if "kept a name = Some x" "kept b name = Some y" for x y
        using comp mem [of name "sc_addralign x"] look(2) [of name] that
        by (auto simp: alignment_compatible_def list_all_iff simp del: set_map split: if_splits)
      ultimately show "rel_option (\<lambda>x y. align_ok (sc_addralign x) (sc_addralign y)) (kept a name) (kept b name)"
        by (cases "kept a name"; cases "kept b name") auto
    qed
  next
    assume al: "aligned a b"
    have "kept a name = None \<longleftrightarrow> kept b name = None" for name
      using al [unfolded aligned_def, rule_format, of name] by (auto simp: option_rel_Some1 option_rel_Some2 elim: option.rel_cases)
    then have "set (keys ?r) = set (keys ?c)" using keys by blast
    moreover have "case map_of ?c name of None \<Rightarrow> False | Some m \<Rightarrow> align_ok n m" if "(name, n) \<in> set ?r" for name n
    proof -
      from that mem obtain x where x: "kept a name = Some x" "n = sc_addralign x" by blast
      with al [unfolded aligned_def, rule_format, of name] obtain y where "kept b name = Some y" "align_ok (sc_addralign x) (sc_addralign y)"
        by (auto simp: option_rel_Some1)
      with x(2) look(2) [of name] show ?thesis by simp
    qed
    ultimately show "alignment_compatible ?r ?c" by (auto simp: alignment_compatible_def list_all_iff simp del: set_map)
  qed
qed

lemma compare_paths_iff:
  assumes "compare_paths sha256 open_elf p q = Inr r" and "open_elf p = Inr a" and "open_elf q = Inr b"
  shows "(cp_equal r \<longleftrightarrow> same_object sha256 a b \<and> aligned a b) \<and>
    (cp_strict_equal r \<longleftrightarrow> cp_equal r \<and> (\<forall>name. map_option sc_addralign (kept a name) = map_option sc_addralign (kept b name)))"
proof -
  from assms(1) obtain s t where s: "load_semantics sha256 open_elf p = Inr s" and t: "load_semantics sha256 open_elf q = Inr t" and r: "r = compare_semantics s t"
    by (auto simp: compare_paths_def resE)
  have a: "sm_header s = header_of a" "sm_core s = fill (\<lambda>sec. \<not> ignored sec) core_of (ef_sections a)"
     "sm_alignment s = fill (\<lambda>sec. \<not> ignored sec) sc_addralign (ef_sections a)"
     "sm_symbols s = counter_to_sorted_list json_sym_key (tally (symbol_keys a))"
     "sm_relocations s = counter_to_sorted_list json_reloc_key (tally (List.map_filter (rel_key a) (rels_of a)))"
     "sm_contents s = fill (compared a) (\<lambda>sec. (int (length (sc_data sec)), sha256 (masked_data a sec))) (ef_sections a)"
    using load_semantics_ok [OF s] assms(2) by auto
  have b: "sm_header t = header_of b" "sm_core t = fill (\<lambda>sec. \<not> ignored sec) core_of (ef_sections b)"
     "sm_alignment t = fill (\<lambda>sec. \<not> ignored sec) sc_addralign (ef_sections b)"
     "sm_symbols t = counter_to_sorted_list json_sym_key (tally (symbol_keys b))"
     "sm_relocations t = counter_to_sorted_list json_reloc_key (tally (List.map_filter (rel_key b) (rels_of b)))"
     "sm_contents t = fill (compared b) (\<lambda>sec. (int (length (sc_data sec)), sha256 (masked_data b sec))) (ef_sections b)"
    using load_semantics_ok [OF t] assms(3) by auto
  have core: "dict_eq (sm_core s) (sm_core t) \<longleftrightarrow> (\<forall>name. map_option core_of (kept a name) = map_option core_of (kept b name))"
    by (simp add: a b dict_eq_iff fill_distinct fun_eq_iff fill_lookup kept_def)
  have strict: "dict_eq (sm_alignment s) (sm_alignment t) \<longleftrightarrow> (\<forall>name. map_option sc_addralign (kept a name) = map_option sc_addralign (kept b name))"
    by (simp add: a b dict_eq_iff fill_distinct fun_eq_iff fill_lookup kept_def)
  have bytes: "dict_eq (sm_contents s) (sm_contents t) \<longleftrightarrow> (\<forall>name. content sha256 a name = content sha256 b name)"
    by (simp add: a b dict_eq_iff fill_distinct fun_eq_iff fill_lookup content_def)
  have rows: "sm_symbols s = sm_symbols t \<longleftrightarrow> mset (symbol_keys a) = mset (symbol_keys b)"
    "sm_relocations s = sm_relocations t \<longleftrightarrow> mset (List.map_filter (rel_key a) (rels_of a)) = mset (List.map_filter (rel_key b) (rels_of b))"
    unfolding a b by (rule tally_eq_iff, erule symbol_text_inj, rule tally_eq_iff, erule reloc_text_inj)
  have "alignment_compatible (sm_alignment s) (sm_alignment t) \<longleftrightarrow> aligned a b" by (simp only: a b alignment_iff)
  with core strict bytes rows show ?thesis
    by (auto simp: r compare_semantics_def Let_def dimensions_of_def same_object_def a(1) b(1))
qed


lemma load_semantics_readable:
  assumes "open_elf p = Inr a"
  shows "(\<exists>s. load_semantics sha256 open_elf p = Inr s) \<longleftrightarrow> readable a"
  using assms by (auto simp: load_semantics_def readable_def case_prod_unfold Let_def resE)

lemma compare_paths_readable:
  assumes "open_elf p = Inr a" and "open_elf q = Inr b"
  shows "(\<exists>r. compare_paths sha256 open_elf p q = Inr r) \<longleftrightarrow> readable a \<and> readable b"
  using load_semantics_readable [of open_elf p a sha256] load_semantics_readable [of open_elf q b sha256] assms
  by (auto simp: compare_paths_def resE)

lemma equal_iff:
  assumes "open_elf p = Inr a" and "open_elf q = Inr b"
  shows "(\<exists>r. compare_paths sha256 open_elf p q = Inr r \<and> cp_equal r) \<longleftrightarrow> readable a \<and> readable b \<and> same_object sha256 a b \<and> aligned a b"
  using compare_paths_iff [of sha256 open_elf p q _ a b] compare_paths_readable [of open_elf p a q b sha256] assms by blast

lemma strict_equal_iff:
  assumes "open_elf p = Inr a" and "open_elf q = Inr b"
  shows "(\<exists>r. compare_paths sha256 open_elf p q = Inr r \<and> cp_strict_equal r) \<longleftrightarrow>
    readable a \<and> readable b \<and> same_object sha256 a b \<and> (\<forall>name. map_option sc_addralign (kept a name) = map_option sc_addralign (kept b name))"
proof -
  have "aligned a b" if "\<forall>name. map_option sc_addralign (kept a name) = map_option sc_addralign (kept b name)"
    unfolding aligned_def
  proof
    fix name
    have "align_ok n n" for n by (simp add: align_ok_def)
    then show "rel_option (\<lambda>x y. align_ok (sc_addralign x) (sc_addralign y)) (kept a name) (kept b name)"
      using that [rule_format, of name] by (cases "kept a name"; cases "kept b name") auto
  qed
  then show ?thesis using compare_paths_iff [of sha256 open_elf p q _ a b] compare_paths_readable [of open_elf p a q b sha256] assms by blast
qed

section \<open>Small objects\<close>

definition plain_section :: "string \<Rightarrow> enum \<Rightarrow> 8 word list \<Rightarrow> elf_section" where
  "plain_section name typ data = \<lparr> sc_name = name, sc_type = typ, sc_flags = 6, sc_entsize = 0, sc_size = int (length data), sc_addralign = 4,
     sc_info = 0, sc_link = 0, sc_data = data, sc_is_rela = False, sc_relocs = None, sc_symbols = None \<rparr>"

definition symtab_section :: elf_section where
  "symtab_section = (plain_section ''.symtab'' (Name ''SHT_SYMTAB'') [])\<lparr>sc_symbols := Some [\<lparr> st_name = '''', st_bind = Name ''STB_LOCAL'', st_type = Name ''STT_NOTYPE'',
     st_visibility = Name ''STV_DEFAULT'', st_shndx = Name ''SHN_UNDEF'', st_value = 0, st_size = 0 \<rparr>]\<rparr>"

definition rela_section :: "elf_rel list \<Rightarrow> elf_section" where
  "rela_section rels = (plain_section ''.rela.text'' (Name ''SHT_RELA'') [])\<lparr>sc_info := 1, sc_link := 0, sc_is_rela := True, sc_relocs := Some rels\<rparr>"

definition demo_elf :: "elf_section list \<Rightarrow> elf" where
  "demo_elf secs = \<lparr> ef_class = 64, ef_little_endian = True, ef_type = Name ''ET_REL'', ef_machine = Name ''EM_RISCV'', ef_flags = 0,
     ef_sections = symtab_section # secs, ef_by_name = (\<lambda>name. if name = ''.symtab'' then Some symtab_section else None) \<rparr>"

definition text_section :: "8 word list \<Rightarrow> elf_section" where
  "text_section data = plain_section ''.text'' (Name ''SHT_PROGBITS'') data"

definition demo_digest :: "8 word list \<Rightarrow> string" where
  "demo_digest data = map (\<lambda>w. char_of (uint w)) data"

definition demo_open :: "elf \<Rightarrow> elf \<Rightarrow> string \<Rightarrow> py_error + elf" where
  "demo_open a b path = (if path = ''ref.o'' then Inr a else if path = ''cand.o'' then Inr b else Inl (OSError path))"

text \<open>A nop, without relocations, and with a relocation that permits relaxation.\<close>

definition nop_elf :: elf where
  "nop_elf = demo_elf [text_section [0x13, 0, 0, 0]]"

definition relax_elf :: elf where
  "relax_elf = demo_elf [text_section [0x13, 0, 0, 0], rela_section [\<lparr> r_offset = 0, r_info_type = 51, r_info_sym = 0, r_addend = 0 \<rparr>]]"

section \<open>Sections hidden by a later one of the same name\<close>

lemma latest_append: "latest P (xs @ ys) = (case latest P ys of None \<Rightarrow> latest P xs | Some y \<Rightarrow> Some y)"
proof (induction ys rule: rev_induct)
  case (snoc y ys)
  then show ?case using latest_snoc [of P "xs @ ys" y] by (simp add: latest_snoc)
qed simp

lemma latest_None_iff: "latest P ys = None \<longleftrightarrow> (\<forall>y \<in> set ys. \<not> P y)"
  by (cases "filter P ys") (auto simp: latest_def filter_empty_conv dest: filter_eq_ConsD)

lemma latest_hidden: "(P a \<or> P b \<Longrightarrow> \<exists>z \<in> set ys. P z) \<Longrightarrow> latest P (xs @ a # ys) = latest P (xs @ b # ys)"
  using latest_append [of P "xs @ [a]" ys] latest_append [of P "xs @ [b]" ys] latest_None_iff [of P ys]
  by (auto simp: latest_snoc split: option.splits)

text \<open>Two readings of a file that differ in the place of one section, which in both has the same name and the same symbols and no relocations.\<close>

definition replaced :: "elf_section list \<Rightarrow> elf_section list \<Rightarrow> elf_section \<Rightarrow> elf_section \<Rightarrow> elf \<Rightarrow> elf \<Rightarrow> bool" where
  "replaced xs ys a b e e' \<longleftrightarrow> ef_sections e = xs @ a # ys \<and> e' = e\<lparr>ef_sections := xs @ b # ys\<rparr> \<and>
     sc_name b = sc_name a \<and> sc_relocs a = None \<and> sc_relocs b = None \<and> sc_symbols b = sc_symbols a"

lemma replaced_nth:
  assumes "replaced xs ys a b e e'" and "n < length (xs @ a # ys)"
  shows "sc_name ((xs @ b # ys) ! n) = sc_name ((xs @ a # ys) ! n) \<and> sc_symbols ((xs @ b # ys) ! n) = sc_symbols ((xs @ a # ys) ! n)"
  using assms by (auto simp: replaced_def nth_append nth_Cons split: nat.splits)

lemma replaced_name: "replaced xs ys a b e e' \<Longrightarrow> section_name_for_index e' i = section_name_for_index e i"
  using replaced_nth [of xs ys a b e e'] by (auto simp: section_name_for_index_def replaced_def split: enum.splits)

lemma replaced_key: "replaced xs ys a b e e' \<Longrightarrow> symbol_semantic_key e' = symbol_semantic_key e"
  by (rule ext) (simp add: symbol_semantic_key_def replaced_name)

lemma replaced_symbols:
  assumes "replaced xs ys a b e e'"
  shows "map_sum id sc_symbols (get_section e' n) = map_sum id sc_symbols (get_section e n)"
  using assms replaced_nth [OF assms, of "nat n"] by (auto simp: get_section_def replaced_def)

lemma bind_symbols:
  assumes "map_sum id sc_symbols x = map_sum id sc_symbols y" and "\<And>s t. sc_symbols s = sc_symbols t \<Longrightarrow> f s = f t"
  shows "bindE x f = bindE y f"
proof (cases x)
  case (Inr s)
  with assms(1) obtain t where "y = Inr t" "sc_symbols s = sc_symbols t" by (cases y) auto
  with Inr assms(2) [of s t] show ?thesis by simp
qed (use assms(1) in \<open>cases y; simp\<close>)

lemma count_reloc_symbols:
  assumes "sc_symbols s = sc_symbols t"
  shows "count_reloc e name s rela = count_reloc e name t rela"
proof -
  have sym: "get_symbol s = get_symbol t" using assms by (intro ext) (simp add: get_symbol_def symbols_of_def)
  show ?thesis by (intro ext) (simp only: count_reloc_def sym)
qed

lemma replaced_count:
  assumes "replaced xs ys a b e e'"
  shows "count_reloc_section e' = count_reloc_section e"
proof -
  have same: "count_reloc e' = count_reloc e" unfolding count_reloc_def replaced_key [OF assms] ..
  have "bindE (get_section e' n) (\<lambda>symtab. foldE (count_reloc e name symtab rela) st rels) =
      bindE (get_section e n) (\<lambda>symtab. foldE (count_reloc e name symtab rela) st rels)" for n name rela st rels
  proof (rule bind_symbols [OF replaced_symbols [OF assms]])
    fix s t :: elf_section assume "sc_symbols s = sc_symbols t"
    then show "foldE (count_reloc e name s rela) st rels = foldE (count_reloc e name t rela) st rels" using count_reloc_symbols [of s t e name rela] by simp
  qed
  then show ?thesis by (intro ext) (simp add: count_reloc_section_def same replaced_name [OF assms] Let_def split: option.split)
qed

lemma replaced_readable:
  assumes "replaced xs ys a b e e'"
  shows "readable e' \<longleftrightarrow> readable e"
proof -
  have none: "count_reloc_section e st a = Inr st" "count_reloc_section e st b = Inr st" for st
    using assms by (simp_all add: count_reloc_section_def replaced_def)
  have skip: "foldE (count_reloc_section e) st (xs @ c # ys) = foldE (count_reloc_section e) st (xs @ ys)" if "c = a \<or> c = b" for st c
    using none that by (induction xs arbitrary: st) (auto intro!: bindE_cong)
  have "relocation_counter e' = relocation_counter e"
    using assms by (simp add: relocation_counter_def replaced_count [OF assms]) (simp add: replaced_def skip)
  moreover have "ef_by_name e' = ef_by_name e" using assms by (simp add: replaced_def)
  moreover have "count_symbol e' = count_symbol e" by (intro ext) (simp add: count_symbol_def replaced_key [OF assms])
  ultimately show ?thesis by (simp only: readable_def symbol_counter_def)
qed

lemma replaced_rels:
  assumes "replaced xs ys a b e e'"
  shows "rels_of e' = rels_of e" "rel_key e' = rel_key e" "on_target e' = on_target e"
proof -
  show "rels_of e' = rels_of e" using assms by (simp add: rels_of_def replaced_def pairs_of_def)
  have t: "target_of e' = target_of e" by (rule ext) (simp add: target_of_def replaced_name [OF assms])
  then show "on_target e' = on_target e" by (intro ext) (simp add: on_target_def)
  have "bindE (get_section e' n) (\<lambda>symtab. get_symbol symtab m) = bindE (get_section e n) (\<lambda>symtab. get_symbol symtab m)" for n m
    by (rule bind_symbols [OF replaced_symbols [OF assms]]) (simp add: get_symbol_def symbols_of_def)
  then have "rel_sym_key e' = rel_sym_key e" by (intro ext) (simp only: rel_sym_key_def replaced_key [OF assms])
  with t show "rel_key e' = rel_key e" by (auto simp: fun_eq_iff)
qed

lemma replaced_compared:
  assumes "replaced xs ys a b e e'"
  shows "compared e' = compared e" "masked_data e' = masked_data e"
  by (intro ext, simp add: compared_def masked_data_def replaced_rels [OF assms])+

lemma replaced_same_object:
  assumes "replaced xs ys a b e e'" and "z \<in> set ys" and "sc_name z = sc_name a" and "\<not> ignored z" and "str_enum (sc_type z) = ''SHT_PROGBITS''"
  shows "same_object sha256 e e' \<and> kept e = kept e'"
proof -
  have secs: "ef_sections e = xs @ a # ys" "ef_sections e' = xs @ b # ys" and name: "sc_name b = sc_name a"
    using assms(1) by (simp_all add: replaced_def)
  have k: "kept e = kept e'"
    using assms(2-4) name by (intro ext) (auto simp: kept_def secs intro!: latest_hidden)
  have "compared e sec \<Longrightarrow> sc_name sec = sc_name a \<Longrightarrow> compared e z" for sec
    using assms(3-5) by (simp add: compared_def)
  then have "latest (\<lambda>sec. compared e sec \<and> sc_name sec = name) (xs @ a # ys) = latest (\<lambda>sec. compared e sec \<and> sc_name sec = name) (xs @ b # ys)" for name
    using assms(2,3) name by (intro latest_hidden) auto
  then have "content sha256 e name = content sha256 e' name" for name
    by (simp add: content_def replaced_compared [OF assms(1)] secs)
  moreover have "symbol_keys e' = symbol_keys e"
    using assms(1) unfolding symbol_keys_def replaced_key [OF assms(1)] by (simp add: replaced_def)
  moreover have "header_of e' = header_of e" using assms(1) by (simp add: header_of_def replaced_def)
  ultimately show ?thesis using k by (simp add: same_object_def replaced_rels [OF assms(1)])
qed

text \<open>
  C12. The comparison keeps one section for each name, the last.  Let an object that can be read have a section \<open>a\<close> which is neither ignored nor a relocation section, and
  later a section \<open>z\<close> of the same name with bytes that can be compared; put any section \<open>b\<close> of that name without relocations in the place of \<open>a\<close>
  (other bytes, size, type, flags and alignment; only the symbols of a symbol table stay).  The two objects compare as strictly equal.
\<close>
theorem same_name_hidden:
  assumes "ef_sections e = xs @ a # ys" and "sc_relocs a = None" and "sc_relocs b = None" and "sc_name b = sc_name a" and "sc_symbols b = sc_symbols a"
    and "z \<in> set ys" and "sc_name z = sc_name a" and "\<not> ignored z" and "sc_type z = Name ''SHT_PROGBITS''"
    and "readable e" and "open_elf p = Inr e" and "open_elf q = Inr (e\<lparr>ef_sections := xs @ b # ys\<rparr>)"
  shows "\<exists>r. compare_paths sha256 open_elf p q = Inr r \<and> cp_strict_equal r"
proof -
  have rep: "replaced xs ys a b e (e\<lparr>ef_sections := xs @ b # ys\<rparr>)" using assms(1-5) by (simp add: replaced_def)
  show ?thesis
    using strict_equal_iff [OF assms(11,12), of sha256] replaced_same_object [OF rep assms(6-8), of sha256] replaced_readable [OF rep] assms(9,10)
    by (simp add: str_enum_def)
qed

theorem same_name_hidden_witness:
  "\<exists>r. compare_paths demo_digest (demo_open (demo_elf [text_section [0x13, 0, 0, 0], text_section [1, 2]]) (demo_elf [text_section [0x73, 0], text_section [1, 2]]))
      ''ref.o'' ''cand.o'' = Inr r \<and> cp_strict_equal r"
proof -
  have "readable (demo_elf [text_section [0x13, 0, 0, 0], text_section [1, 2]])"
    by (simp add: readable_def relocation_counter_def symbol_counter_def demo_elf_def text_section_def plain_section_def symtab_section_def count_reloc_section_def symbols_of_def)
  then show ?thesis
    by (intro same_name_hidden [where e = "demo_elf [text_section [0x13, 0, 0, 0], text_section [1, 2]]" and xs = "[symtab_section]" and
          a = "text_section [0x13, 0, 0, 0]" and b = "text_section [0x73, 0]" and ys = "[text_section [1, 2]]" and z = "text_section [1, 2]"])
      (simp_all add: demo_open_def demo_elf_def text_section_def plain_section_def ignored_def IGNORE_SECTION_NAMES_def)
qed

section \<open>The comparison as a relation\<close>

text \<open>
  C8. The comparison returns exactly when both files are readable, and then it decides: two objects are equal exactly when their headers agree, their
  sections agree by name in type, flags and sizes, every alignment of the candidate is a multiple of the reference's, they have the same bag of
  symbols and the same bag of relocations, in whatever order the two assemblers wrote them, and the sections that are compared have the same sizes and the
  same digests of their masked bytes; they are strictly equal when moreover the alignments are the same.
\<close>
theorem objects_compared:
  assumes "open_elf p = Inr a" and "open_elf q = Inr b"
  shows "((\<exists>r. compare_paths sha256 open_elf p q = Inr r) \<longleftrightarrow> readable a \<and> readable b) \<and>
    ((\<exists>r. compare_paths sha256 open_elf p q = Inr r \<and> cp_equal r) \<longleftrightarrow> readable a \<and> readable b \<and> same_object sha256 a b \<and> aligned a b) \<and>
    ((\<exists>r. compare_paths sha256 open_elf p q = Inr r \<and> cp_strict_equal r) \<longleftrightarrow>
       readable a \<and> readable b \<and> same_object sha256 a b \<and> (\<forall>name. map_option sc_addralign (kept a name) = map_option sc_addralign (kept b name)))"
  using assms by (intro conjI compare_paths_readable equal_iff strict_equal_iff)

lemma demo_relax_equal: "\<exists>r. compare_paths demo_digest (demo_open relax_elf nop_elf) ''ref.o'' ''cand.o'' = Inr r \<and> cp_equal r"
proof -
  have "(case compare_paths demo_digest (demo_open relax_elf nop_elf) ''ref.o'' ''cand.o'' of Inl e \<Rightarrow> False | Inr r \<Rightarrow> cp_equal r)" by code_simp
  then show ?thesis by (auto split: sum.splits)
qed

theorem objects_compared_witness: "readable relax_elf \<and> readable nop_elf \<and> same_object demo_digest relax_elf nop_elf \<and> aligned relax_elf nop_elf"
  using objects_compared [of "demo_open relax_elf nop_elf" "''ref.o''" relax_elf "''cand.o''" nop_elf demo_digest] demo_relax_equal
  by (simp add: demo_open_def)

lemma same_object_laws:
  "same_object sha256 a a"
  "same_object sha256 a b \<Longrightarrow> same_object sha256 b a"
  "same_object sha256 a b \<Longrightarrow> same_object sha256 b c \<Longrightarrow> same_object sha256 a c"
  by (simp_all add: same_object_def)

lemma align_ok_trans: "align_ok a b \<Longrightarrow> align_ok b c \<Longrightarrow> align_ok a c"
  by (auto simp: align_ok_def split: if_splits)

lemma aligned_trans:
  assumes "aligned a b" and "aligned b c"
  shows "aligned a c"
  unfolding aligned_def
proof
  fix name
  show "rel_option (\<lambda>x y. align_ok (sc_addralign x) (sc_addralign y)) (kept a name) (kept c name)"
    using assms(1) [unfolded aligned_def, rule_format, of name] assms(2) [unfolded aligned_def, rule_format, of name]
    by (cases "kept a name"; cases "kept b name"; cases "kept c name") (auto intro: align_ok_trans)
qed

lemma compare_paths_open:
  assumes "compare_paths sha256 open_elf p q = Inr r"
  shows "\<exists>a b. open_elf p = Inr a \<and> open_elf q = Inr b"
  using assms by (auto simp: compare_paths_def load_semantics_def resE)

text \<open>
  A file is strictly equal to itself and no differences are reported; equality of a chain of three files carries over to its ends, although the
  alignment may grow along the chain; strict equality is symmetric.
\<close>
theorem comparison_order:
  "(compare_paths sha256 open_elf p p = Inr r \<longrightarrow> cp_strict_equal r \<and> cp_differences r = None) \<and>
   (compare_paths sha256 open_elf p q = Inr r1 \<and> cp_equal r1 \<and> compare_paths sha256 open_elf q u = Inr r2 \<and> cp_equal r2 \<longrightarrow>
      (\<exists>r. compare_paths sha256 open_elf p u = Inr r \<and> cp_equal r)) \<and>
   (compare_paths sha256 open_elf p q = Inr r1 \<and> cp_strict_equal r1 \<longrightarrow> (\<exists>r. compare_paths sha256 open_elf q p = Inr r \<and> cp_strict_equal r))"
proof (intro conjI impI)
  assume r: "compare_paths sha256 open_elf p p = Inr r"
  then obtain a where a: "open_elf p = Inr a" using compare_paths_open by blast
  have "readable a" using r compare_paths_readable [of open_elf p a p a sha256] a by blast
  then have "\<exists>r. compare_paths sha256 open_elf p p = Inr r \<and> cp_strict_equal r" using a strict_equal_iff [of open_elf p a p a sha256] by (simp add: same_object_laws)
  with r show s: "cp_strict_equal r" by simp
  have "cp_equal r \<and> cp_strict_alignment r \<longrightarrow> cp_differences r = None" "cp_strict_equal r \<longrightarrow> cp_equal r \<and> cp_strict_alignment r"
    using r by (auto simp: compare_paths_def resE compare_semantics_def Let_def)
  with s show "cp_differences r = None" by simp
next
  assume chain: "compare_paths sha256 open_elf p q = Inr r1 \<and> cp_equal r1 \<and> compare_paths sha256 open_elf q u = Inr r2 \<and> cp_equal r2"
  then obtain a b where ab: "open_elf p = Inr a" "open_elf q = Inr b" using compare_paths_open by blast
  from chain obtain c where c: "open_elf u = Inr c" using compare_paths_open by blast
  have "readable a \<and> readable b \<and> same_object sha256 a b \<and> aligned a b" "readable b \<and> readable c \<and> same_object sha256 b c \<and> aligned b c"
    using chain equal_iff [of open_elf p a q b sha256] equal_iff [of open_elf q b u c sha256] ab c by blast+
  then show "\<exists>r. compare_paths sha256 open_elf p u = Inr r \<and> cp_equal r"
    using equal_iff [of open_elf p a u c sha256] ab(1) c by (blast intro: same_object_laws aligned_trans)
next
  assume st: "compare_paths sha256 open_elf p q = Inr r1 \<and> cp_strict_equal r1"
  then obtain a b where ab: "open_elf p = Inr a" "open_elf q = Inr b" using compare_paths_open by blast
  then show "\<exists>r. compare_paths sha256 open_elf q p = Inr r \<and> cp_strict_equal r"
    using st strict_equal_iff [of open_elf p a q b sha256] strict_equal_iff [of open_elf q b p a sha256] by (metis same_object_laws(2))
qed

theorem comparison_order_witness:
  "\<exists>r. compare_paths demo_digest (demo_open relax_elf nop_elf) ''ref.o'' ''ref.o'' = Inr r \<and> cp_strict_equal r"
proof -
  have "(case compare_paths demo_digest (demo_open relax_elf nop_elf) ''ref.o'' ''ref.o'' of Inl e \<Rightarrow> False | Inr r \<Rightarrow> True)" by code_simp
  then obtain r where "compare_paths demo_digest (demo_open relax_elf nop_elf) ''ref.o'' ''ref.o'' = Inr r" by (auto split: sum.splits)
  with comparison_order [of demo_digest "demo_open relax_elf nop_elf" "''ref.o''" r] show ?thesis by blast
qed

text \<open>
  When two objects are equal, then the sections of a name that are compared have the same length and agree in every byte that no relocation of
  either file covers, provided that the digest tells the two masked sections apart.
\<close>
theorem equal_bytes:
  assumes "compare_paths sha256 open_elf p q = Inr r" and "cp_equal r" and "open_elf p = Inr a" and "open_elf q = Inr b"
    and "latest (\<lambda>sec. compared a sec \<and> sc_name sec = name) (ef_sections a) = Some x"
    and "latest (\<lambda>sec. compared b sec \<and> sc_name sec = name) (ef_sections b) = Some y"
    and "sha256 (masked_data a x) = sha256 (masked_data b y) \<longrightarrow> masked_data a x = masked_data b y"
  shows "length (sc_data x) = length (sc_data y) \<and>
    list_all (\<lambda>i. covered (List.map_filter rel_mask (on_target a (sc_name x) (rels_of a))) i \<or>
       covered (List.map_filter rel_mask (on_target b (sc_name y) (rels_of b))) i \<or> sc_data x ! i = sc_data y ! i) [0..<length (sc_data x)]"
proof -
  have "same_object sha256 a b" using compare_paths_iff [OF assms(1,3,4)] assms(2) by simp
  then have "content sha256 a name = content sha256 b name" by (simp add: same_object_def)
  then have len: "length (sc_data x) = length (sc_data y)" and data: "masked_data a x = masked_data b y"
    using assms(5-7) by (auto simp: content_def)
  show ?thesis
  proof (intro conjI, rule len)
    have "sc_data x ! i = sc_data y ! i"
      if "i < length (sc_data x)" "\<not> covered (List.map_filter rel_mask (on_target a (sc_name x) (rels_of a))) i"
        "\<not> covered (List.map_filter rel_mask (on_target b (sc_name y) (rels_of b))) i" for i
    proof -
      have "masked_data a x ! i = sc_data x ! i" "masked_data b y ! i = sc_data y ! i" using that len by (simp_all add: masked_data_def nth_masked_bytes)
      with data show ?thesis by simp
    qed
    then show "list_all (\<lambda>i. covered (List.map_filter rel_mask (on_target a (sc_name x) (rels_of a))) i \<or>
       covered (List.map_filter rel_mask (on_target b (sc_name y) (rels_of b))) i \<or> sc_data x ! i = sc_data y ! i) [0..<length (sc_data x)]"
      by (auto simp: list_all_iff, blast)
  qed
qed

definition branch_elf :: "8 word list \<Rightarrow> elf" where
  "branch_elf data = demo_elf [text_section data, rela_section [\<lparr> r_offset = 0, r_info_type = 16, r_info_sym = 0, r_addend = 0 \<rparr>]]"

theorem equal_bytes_witness:
  "list_all (\<lambda>i. covered [(0, 4)] i \<or> [1, 2, 3, 4, 9 :: 8 word] ! i = [5, 6, 7, 8, 9] ! i) [0..<5]"
proof -
  let ?a = "branch_elf [1, 2, 3, 4, 9]" and ?b = "branch_elf [5, 6, 7, 8, 9]"
  have "(case compare_paths demo_digest (demo_open ?a ?b) ''ref.o'' ''cand.o'' of Inl e \<Rightarrow> False | Inr r \<Rightarrow> cp_equal r)" by code_simp
  then obtain r where r: "compare_paths demo_digest (demo_open ?a ?b) ''ref.o'' ''cand.o'' = Inr r" "cp_equal r" by (auto split: sum.splits)
  have "latest (\<lambda>sec. compared ?a sec \<and> sc_name sec = ''.text'') (ef_sections ?a) = Some (text_section [1, 2, 3, 4, 9])"
    "latest (\<lambda>sec. compared ?b sec \<and> sc_name sec = ''.text'') (ef_sections ?b) = Some (text_section [5, 6, 7, 8, 9])"
    "masked_data ?a (text_section [1, 2, 3, 4, 9]) = masked_data ?b (text_section [5, 6, 7, 8, 9])"
    "List.map_filter rel_mask (on_target ?a ''.text'' (rels_of ?a)) = [(0, 4)]" "List.map_filter rel_mask (on_target ?b ''.text'' (rels_of ?b)) = [(0, 4)]"
    "sc_name (text_section d) = ''.text''" "sc_data (text_section d) = d" for d
    by (code_simp, code_simp, code_simp, code_simp, code_simp, simp_all add: text_section_def plain_section_def)
  note facts = this
  have "demo_open ?a ?b ''ref.o'' = Inr ?a" "demo_open ?a ?b ''cand.o'' = Inr ?b" by (simp_all add: demo_open_def)
  note conjunct2 [OF equal_bytes [OF r this facts(1,2)]]
  moreover have "length [1, 2, 3, 4, 9 :: 8 word] = 5" by simp
  ultimately show ?thesis by (simp only: facts simp_thms disj_assoc [symmetric])
qed

end
