(* ===== verification/SemanticOracle.thy ===== *)
theory SemanticOracle
  imports ElfCompare
begin

text \<open>
  \<^verbatim>\<open>tests/assembler/run_semantic_oracle.py\<close>: every assembly file is assembled by GNU \<^verbatim>\<open>as\<close> and by MiniAS and the two objects are compared by
  \<open>ElfCompare\<close>, by a pool of workers.  The two assemblers are arguments: they cannot be started, or return a status, what they print and the object they write, if they
  write one; the comparison reads the files that are there afterwards, so an object of an earlier run counts where an assembler writes none.  Also
  arguments are the outcome of creating a directory and of writing a text, the order in which the workers finish, the elapsed time and the texts of exceptions; the paths
  below the input directory are the list \<open>files\<close>.  The paths of one file are not paths of another, so what a worker sees are the files from before the run and its own.

  Shown here: when the status is 0, 1 and 2, what a status of 0 says of the two objects of every file, and that the order of the workers does not matter.
\<close>

record oracle_args =
  oa_input_root :: string
  oa_output_root :: string
  oa_minias :: string
  oa_gcc :: string
  oa_jobs :: int
  oa_expected :: "int option"
  oa_native35 :: bool
  oa_require_equal :: bool

type_synonym objects = "string \<rightharpoonup> 8 word list"

record oracle_tools =
  ot_gnu :: "string list \<Rightarrow> py_error + int \<times> string \<times> 8 word list option"
  ot_minias :: "string list \<Rightarrow> py_error + int \<times> string \<times> 8 word list option"
  ot_compare :: "objects \<Rightarrow> string \<Rightarrow> string \<Rightarrow> py_error + comparison"
  ot_objects :: objects
  ot_mkdir :: "string \<Rightarrow> py_error + unit"
  ot_write :: "string \<Rightarrow> py_error + unit"

definition target_for :: "string \<Rightarrow> bool \<Rightarrow> string \<times> string" where
  [py_defs]: "target_for rel native35 =
     (if native35 then
        (if contains ''compat_vdso/'' rel then (''rv32imafdc_zicsr_zifencei'', ''ilp32'')
         else (''rv64imafdc_zicsr_zifencei_zihintpause'', ''lp64''))
      else if contains ''compat_vdso/'' rel then (''rv32imafd_zicsr_zifencei'', ''ilp32'')
      else (''rv64ima_zicsr_zifencei_zihintpause'', ''lp64''))"

definition first_line :: "string \<Rightarrow> string" where
  [py_defs]: "first_line t = (case filter (\<lambda>l. strip l \<noteq> []) (splitlines t) of [] \<Rightarrow> ''-'' | l # _ \<Rightarrow> strip l)"

datatype oracle_status = PASS | DIFF | GNU_FAIL | MINIAS_FAIL | ORACLE_ERROR

fun status_name :: "oracle_status \<Rightarrow> string" where
  "status_name PASS = ''PASS''"
| "status_name DIFF = ''DIFF''"
| "status_name GNU_FAIL = ''GNU_FAIL''"
| "status_name MINIAS_FAIL = ''MINIAS_FAIL''"
| "status_name ORACLE_ERROR = ''ORACLE_ERROR''"

text \<open>The rows of failures have no entries for the comparison; the program then reads False and the empty list.\<close>

record oracle_row =
  or_status :: oracle_status
  or_path :: string
  or_strict_equal :: bool
  or_failed_dimensions :: "string list"
  or_message :: string

definition failure_row :: "oracle_status \<Rightarrow> string \<Rightarrow> string \<Rightarrow> oracle_row" where
  [py_defs]: "failure_row st rel message =
     \<lparr> or_status = st, or_path = rel, or_strict_equal = False, or_failed_dimensions = [], or_message = message \<rparr>"

definition oracle_key :: "string \<Rightarrow> string" where
  [py_defs]: "oracle_key rel = (if endswith rel ''.s'' then take (length rel - 2) rel else rel)"

definition below :: "string \<Rightarrow> string \<Rightarrow> string" where
  [py_defs]: "below dir p = dir @ ''/'' @ p"

definition ref_path :: "oracle_args \<Rightarrow> string \<Rightarrow> string" where
  [py_defs]: "ref_path args rel = below (oa_output_root args) (''reference/'' @ oracle_key rel @ ''.o'')"

definition cand_path :: "oracle_args \<Rightarrow> string \<Rightarrow> string" where
  [py_defs]: "cand_path args rel = below (oa_output_root args) (''candidate/'' @ oracle_key rel @ ''.o'')"

definition gnu_command :: "oracle_args \<Rightarrow> string \<Rightarrow> string list" where
  [py_defs]: "gnu_command args rel = (let (march, mabi) = target_for rel (oa_native35 args) in
     [oa_gcc args, ''-march='' @ march, ''-mabi='' @ mabi, ''-mcmodel=medany'', ''-mstrict-align'', ''-Wa,-mno-relax,-mno-arch-attr'',
      ''-x'', ''assembler'', ''-c'', below (oa_input_root args) rel, ''-o'', ref_path args rel])"

definition minias_command :: "oracle_args \<Rightarrow> string \<Rightarrow> string list" where
  [py_defs]: "minias_command args rel = (let (march, mabi) = target_for rel (oa_native35 args) in
     [oa_minias args, ''-march='' @ march, ''-mabi='' @ mabi, ''-o'', cand_path args rel, below (oa_input_root args) rel])"

definition compared_row :: "string \<Rightarrow> comparison \<Rightarrow> oracle_row" where
  [py_defs]: "compared_row rel data =
     (let failed_dims = sort (map fst (filter (\<lambda>(k, ok). \<not> ok) (cp_dimensions data))) in
      \<lparr> or_status = (if cp_equal data then PASS else DIFF), or_path = rel, or_strict_equal = cp_strict_equal data,
        or_failed_dimensions = failed_dims, or_message = (if failed_dims = [] then ''-'' else join '','' failed_dims) \<rparr>)"

definition semantic_path :: "oracle_args \<Rightarrow> string \<Rightarrow> string" where
  [py_defs]: "semantic_path args rel = below (oa_output_root args) (''semantic/'' @ oracle_key rel @ ''.json'')"

definition gnu_err :: "oracle_args \<Rightarrow> string \<Rightarrow> string" where
  [py_defs]: "gnu_err args rel = below (oa_output_root args) (''stderr/'' @ oracle_key rel @ ''.gnu.err'')"

definition mini_err :: "oracle_args \<Rightarrow> string \<Rightarrow> string" where
  [py_defs]: "mini_err args rel = below (oa_output_root args) (''stderr/'' @ oracle_key rel @ ''.minias.err'')"

definition parent_dir :: "string \<Rightarrow> string" where
  [py_defs]: "parent_dir p = join ''/'' (butlast (split_char CHR ''/'' p))"

definition write_object :: "string \<Rightarrow> 8 word list option \<Rightarrow> objects \<Rightarrow> objects" where
  [py_defs]: "write_object p obj files = (case obj of None \<Rightarrow> files | Some b \<Rightarrow> files(p \<mapsto> b))"

text \<open>
  One file; the second component are the files that are written, with their texts.  An exception of the comparison or of writing its result becomes a row;
  one of the directories, of the programs and of the other two texts leaves the worker.
\<close>

definition oracle_one ::
  "oracle_tools \<Rightarrow> (py_error \<Rightarrow> string) \<Rightarrow> (string \<Rightarrow> string) \<Rightarrow> oracle_args \<Rightarrow> string \<Rightarrow> py_error + oracle_row \<times> (string \<times> string) list" where
  [py_defs]: "oracle_one t exc_text str_path args rel =
     bindE (mapE (\<lambda>p. ot_mkdir t (parent_dir p))
        [ref_path args rel, cand_path args rel, semantic_path args rel, gnu_err args rel, mini_err args rel]) (\<lambda>_.
     bindE (ot_gnu t (gnu_command args rel)) (\<lambda>(gnu_rc, gnu_stderr, gnu_obj).
     bindE (ot_write t (gnu_err args rel)) (\<lambda>_.
      if gnu_rc \<noteq> 0 then Inr (failure_row GNU_FAIL rel (first_line gnu_stderr), [(gnu_err args rel, gnu_stderr)])
      else
        bindE (ot_minias t (minias_command args rel)) (\<lambda>(mini_rc, mini_stderr, mini_obj).
        bindE (ot_write t (mini_err args rel)) (\<lambda>_.
        let written = [(gnu_err args rel, gnu_stderr), (mini_err args rel, mini_stderr)];
            files = write_object (cand_path args rel) mini_obj (write_object (ref_path args rel) gnu_obj (ot_objects t)) in
        if mini_rc \<noteq> 0 then Inr (failure_row MINIAS_FAIL rel (first_line mini_stderr), written)
        else
          case bindE (ot_compare t files (ref_path args rel) (cand_path args rel)) (\<lambda>data. bindE (ot_write t (semantic_path args rel)) (\<lambda>_. Inr data)) of
            Inl exc \<Rightarrow> Inr (failure_row ORACLE_ERROR rel (exc_text exc), written)
          | Inr data \<Rightarrow>
              Inr (compared_row rel data, written @ [(semantic_path args rel,
                dumps True 0 (json_comparison str_path (ref_path args rel) (cand_path args rel) data) @ ''\<newline>'')]))))))"

definition status_count :: "oracle_status \<Rightarrow> oracle_row list \<Rightarrow> int" where
  [py_defs]: "status_count st rows = count_of (foldl (\<lambda>c row. bump (or_status row) 1 c) [] rows) st"

definition dimension_counter :: "oracle_row list \<Rightarrow> (string \<times> int) list" where
  [py_defs]: "dimension_counter rows = foldl (\<lambda>c row. foldl (\<lambda>c dimension. bump dimension 1 c) c (or_failed_dimensions row)) [] rows"

definition pad5 :: "int \<Rightarrow> string" where
  [py_defs]: "pad5 n = (let s = str_int n in replicate (5 - length s) CHR '' '' @ s)"

definition progress_line :: "nat \<Rightarrow> nat \<Rightarrow> oracle_row \<Rightarrow> string" where
  [py_defs]: "progress_line i n row = ''MINIAS_SEMANTIC_PROGRESS done='' @ str_int (int i) @ '' total='' @ str_int (int n) @
     '' status='' @ status_name (or_status row) @ '' path='' @ or_path row"

definition result_line :: "oracle_row \<Rightarrow> string" where
  [py_defs]: "result_line row = status_name (or_status row) @ [CHR 0x09] @ or_path row @ [CHR 0x09] @
     (if or_strict_equal row then ''1'' else ''0'') @ [CHR 0x09] @ or_message row @ ''\<newline>''"

definition summary_text :: "string \<Rightarrow> oracle_row list \<Rightarrow> string" where
  [py_defs]: "summary_text seconds rows =
     (let n = (\<lambda>st. str_int (status_count st rows)); dimensions = dimension_counter rows;
          dim_lines = map (\<lambda>(name, c). ''  '' @ pad5 c @ '' '' @ name) (sort_key (\<lambda>x. - snd x) dimensions) in
      join ''\<newline>''
        ([''MINIAS_SEMANTIC_SUMMARY selected='' @ str_int (int (length rows)) @ '' semantic_equal='' @ n PASS @ '' semantic_diff='' @ n DIFF @
            '' strict_equal='' @ str_int (int (length (filter or_strict_equal rows))) @ '' gnu_fail='' @ n GNU_FAIL @ '' minias_fail='' @ n MINIAS_FAIL @
            '' oracle_error='' @ n ORACLE_ERROR @ '' seconds='' @ seconds, ''MINIAS_SEMANTIC_DIMENSIONS''] @
         (if dim_lines = [] then [''  none''] else dim_lines)) @ ''\<newline>'')"

record oracle_outcome =
  oo_progress :: "string list"
  oo_results :: string
  oo_summary :: string
  oo_written :: "(string \<times> string) list"
  oo_status :: int

definition oracle_main ::
  "oracle_tools \<Rightarrow> (py_error \<Rightarrow> string) \<Rightarrow> (string \<Rightarrow> string) \<Rightarrow> (string list \<Rightarrow> string list) \<Rightarrow> string \<Rightarrow> oracle_args \<Rightarrow> string list \<Rightarrow> py_error + oracle_outcome" where
  [py_defs]: "oracle_main t exc_text str_path finish seconds args files =
     (if oa_jobs args \<le> 0 then Inl (SystemExit ''--jobs must be positive'')
      else if (case oa_expected args of None \<Rightarrow> False | Some n \<Rightarrow> int (length files) \<noteq> n)
      then Inl (SystemExit (''expected '' @ (case oa_expected args of None \<Rightarrow> '''' | Some n \<Rightarrow> str_int n) @ '' .s inputs, got '' @ str_int (int (length files))))
      else if files = [] then Inl (SystemExit ''no .s inputs'')
      else
        bindE (mapE (ot_mkdir t) (oa_output_root args # map (below (oa_output_root args)) [''reference'', ''candidate'', ''semantic'', ''stderr''])) (\<lambda>_.
        bindE (mapE (oracle_one t exc_text str_path args) (finish files)) (\<lambda>done_rows.
        bindE (mapE (\<lambda>p. ot_write t (below (oa_output_root args) p)) [''results.tsv'', ''summary.txt'']) (\<lambda>_.
        let rows = sort_key or_path (map fst done_rows);
            infrastructure_failures = status_count GNU_FAIL rows + status_count MINIAS_FAIL rows + status_count ORACLE_ERROR rows in
        Inr \<lparr> oo_progress = map (\<lambda>(i, row). progress_line (Suc i) (length files) row) (List.enumerate 0 (map fst done_rows)),
              oo_results = concat (map result_line rows), oo_summary = summary_text seconds rows,
              oo_written = concat (map snd done_rows),
              oo_status = (if infrastructure_failures \<noteq> 0 then 2 else if oa_require_equal args \<and> status_count DIFF rows \<noteq> 0 then 1 else 0) \<rparr>))))"

section \<open>The verdict\<close>

lemma status_count_filter: "status_count st rows = int (length (filter (\<lambda>row. or_status row = st) rows))"
proof -
  have "count_of (foldl (\<lambda>c row. bump (or_status row) 1 c) d rows) st = count_of d st + int (length (filter (\<lambda>row. or_status row = st) rows))" for d
    by (induction rows arbitrary: d) auto
  from this [of "[]"] show ?thesis by (simp add: status_count_def count_of_def)
qed

lemma status_count_zero: "status_count st rows = 0 \<longleftrightarrow> list_all (\<lambda>row. or_status row \<noteq> st) rows"
  by (simp add: status_count_filter filter_empty_conv list_all_iff)

text \<open>How the assembly of one file went.\<close>

definition written_by :: "(string list \<Rightarrow> py_error + int \<times> string \<times> 8 word list option) \<Rightarrow> string list \<Rightarrow> 8 word list option" where
  "written_by tool argv = (case tool argv of Inl _ \<Rightarrow> None | Inr (rc, err, obj) \<Rightarrow> obj)"

text \<open>The directories of the run and those of a file can be created; the results can be written.\<close>

definition out_dirs_ok :: "oracle_tools \<Rightarrow> oracle_args \<Rightarrow> bool" where
  "out_dirs_ok t args \<longleftrightarrow> list_all (\<lambda>d. ot_mkdir t d = Inr ()) (oa_output_root args # map (below (oa_output_root args)) [''reference'', ''candidate'', ''semantic'', ''stderr''])"

definition results_ok :: "oracle_tools \<Rightarrow> oracle_args \<Rightarrow> bool" where
  "results_ok t args \<longleftrightarrow> list_all (\<lambda>p. ot_write t (below (oa_output_root args) p) = Inr ()) [''results.tsv'', ''summary.txt'']"

definition dirs_ok :: "oracle_tools \<Rightarrow> oracle_args \<Rightarrow> string \<Rightarrow> bool" where
  "dirs_ok t args rel \<longleftrightarrow> list_all (\<lambda>p. ot_mkdir t (parent_dir p) = Inr ())
     [ref_path args rel, cand_path args rel, semantic_path args rel, gnu_err args rel, mini_err args rel]"

definition assembled :: "oracle_tools \<Rightarrow> oracle_args \<Rightarrow> string \<Rightarrow> bool" where
  "assembled t args rel \<longleftrightarrow> dirs_ok t args rel \<and>
     (\<exists>e1 o1 e2 o2. ot_gnu t (gnu_command args rel) = Inr (0, e1, o1) \<and> ot_write t (gnu_err args rel) = Inr () \<and>
        ot_minias t (minias_command args rel) = Inr (0, e2, o2) \<and> ot_write t (mini_err args rel) = Inr ())"

definition startable :: "oracle_tools \<Rightarrow> oracle_args \<Rightarrow> string \<Rightarrow> bool" where
  "startable t args rel \<longleftrightarrow> dirs_ok t args rel \<and>
     (\<exists>rc err obj. ot_gnu t (gnu_command args rel) = Inr (rc, err, obj) \<and> ot_write t (gnu_err args rel) = Inr () \<and>
       (rc = 0 \<longrightarrow> (\<exists>rc err obj. ot_minias t (minias_command args rel) = Inr (rc, err, obj) \<and> ot_write t (mini_err args rel) = Inr ())))"

text \<open>The objects that are there when both assemblers have run, and the comparison of the two of a file, with its text written.\<close>

definition objects_left :: "oracle_tools \<Rightarrow> oracle_args \<Rightarrow> string \<Rightarrow> objects" where
  "objects_left t args rel = write_object (cand_path args rel) (written_by (ot_minias t) (minias_command args rel))
     (write_object (ref_path args rel) (written_by (ot_gnu t) (gnu_command args rel)) (ot_objects t))"

definition judged :: "oracle_tools \<Rightarrow> oracle_args \<Rightarrow> string \<Rightarrow> py_error + comparison" where
  "judged t args rel = bindE (ot_compare t (objects_left t args rel) (ref_path args rel) (cand_path args rel)) (\<lambda>data.
     bindE (ot_write t (semantic_path args rel)) (\<lambda>_. Inr data))"

definition infra :: "oracle_status \<Rightarrow> bool" where
  "infra st \<longleftrightarrow> st = GNU_FAIL \<or> st = MINIAS_FAIL \<or> st = ORACLE_ERROR"

lemma mapE_unit: "(\<exists>us. mapE f xs = Inr us) \<longleftrightarrow> list_all (\<lambda>x. f x = Inr ()) xs" for f :: "'x \<Rightarrow> py_error + unit"
  by (induction xs) (auto simp: resE)

text \<open>The ways through the body.\<close>

lemma oracle_one_cases:
  obtains (stopped) e where "oracle_one t exc_text str_path args rel = Inl e" "\<not> startable t args rel" "\<not> assembled t args rel"
  | (gnu) err w where "oracle_one t exc_text str_path args rel = Inr (failure_row GNU_FAIL rel (first_line err), w)" "startable t args rel" "\<not> assembled t args rel"
  | (minias) err w where "oracle_one t exc_text str_path args rel = Inr (failure_row MINIAS_FAIL rel (first_line err), w)" "startable t args rel" "\<not> assembled t args rel"
  | (raised) exc w where "oracle_one t exc_text str_path args rel = Inr (failure_row ORACLE_ERROR rel (exc_text exc), w)" "startable t args rel"
      "assembled t args rel" "judged t args rel = Inl exc"
  | (compared) data w where "oracle_one t exc_text str_path args rel = Inr (compared_row rel data, w)" "startable t args rel"
      "assembled t args rel" "judged t args rel = Inr data"
proof -
  define dirs where "dirs = mapE (\<lambda>p. ot_mkdir t (parent_dir p))
     [ref_path args rel, cand_path args rel, semantic_path args rel, gnu_err args rel, mini_err args rel]"
  have d: "(\<exists>us. dirs = Inr us) \<longleftrightarrow> dirs_ok t args rel" unfolding dirs_def dirs_ok_def by (rule mapE_unit)
  note one = oracle_one_def [of t exc_text str_path args rel, folded dirs_def]
  show ?thesis
  proof (cases "startable t args rel")
    case False
    have "\<exists>e. oracle_one t exc_text str_path args rel = Inl e"
    proof (cases "dirs_ok t args rel")
      case True
      then obtain us where us: "dirs = Inr us" using d by blast
      with True False show ?thesis
        by (cases "ot_gnu t (gnu_command args rel)"; cases "ot_write t (gnu_err args rel)"; cases "ot_minias t (minias_command args rel)";
            cases "ot_write t (mini_err args rel)") (auto simp: one startable_def)
    qed (use d in \<open>cases dirs; auto simp: one\<close>)
    moreover have "\<not> assembled t args rel" using False by (auto simp: assembled_def startable_def)
    ultimately show ?thesis using False stopped by blast
  next
    case start: True
    then obtain us rc err obj where g: "dirs = Inr us" "dirs_ok t args rel" "ot_gnu t (gnu_command args rel) = Inr (rc, err, obj)" "ot_write t (gnu_err args rel) = Inr ()"
      "rc = 0 \<longrightarrow> (\<exists>rc err obj. ot_minias t (minias_command args rel) = Inr (rc, err, obj) \<and> ot_write t (mini_err args rel) = Inr ())"
      using d unfolding startable_def by blast
    show ?thesis
    proof (cases "rc = 0")
      case False
      then show ?thesis using g start by (intro gnu [of err]) (auto simp: one assembled_def)
    next
      case True
      with g(5) obtain rc' err' obj' where m: "ot_minias t (minias_command args rel) = Inr (rc', err', obj')" "ot_write t (mini_err args rel) = Inr ()" by blast
      show ?thesis
      proof (cases "rc' = 0")
        case False
        then show ?thesis using g m True start by (intro minias [of err']) (auto simp: one assembled_def Let_def)
      next
        case zero: True
        have as: "assembled t args rel" using g m True zero by (simp add: assembled_def)
        have j: "judged t args rel = bindE (ot_compare t (write_object (cand_path args rel) obj' (write_object (ref_path args rel) obj (ot_objects t)))
            (ref_path args rel) (cand_path args rel)) (\<lambda>data. bindE (ot_write t (semantic_path args rel)) (\<lambda>_. Inr data))"
          using g m by (simp add: judged_def objects_left_def written_by_def)
        show ?thesis
        proof (cases "judged t args rel")
          case (Inl exc)
          then show ?thesis using raised [of exc] g m True zero start as by (auto simp: one Let_def j)
        next
          case (Inr data)
          then show ?thesis using compared [of data] g m True zero start as by (auto simp: one Let_def j)
        qed
      qed
    qed
  qed
qed

lemma oracle_one_starts: "(\<exists>x. oracle_one t exc_text str_path args rel = Inr x) \<longleftrightarrow> startable t args rel"
  by (cases rule: oracle_one_cases [of t exc_text str_path args rel]) auto

lemma oracle_one_row:
  assumes "oracle_one t exc_text str_path args rel = Inr (row, ws)"
  shows "or_path row = rel \<and>
    (\<not> infra (or_status row) \<longleftrightarrow> assembled t args rel \<and> (\<exists>data. judged t args rel = Inr data)) \<and>
    (or_status row = PASS \<longleftrightarrow> assembled t args rel \<and> (\<exists>data. judged t args rel = Inr data \<and> cp_equal data))"
  using assms
  by (cases rule: oracle_one_cases [of t exc_text str_path args rel])
    (auto simp: infra_def failure_row_def compared_row_def Let_def split: if_splits)

lemma infra_count:
  "status_count GNU_FAIL rows + status_count MINIAS_FAIL rows + status_count ORACLE_ERROR rows = 0 \<longleftrightarrow> list_all (\<lambda>row. \<not> infra (or_status row)) rows"
proof -
  have "0 \<le> status_count st rows" for st by (simp add: status_count_filter)
  then have "status_count GNU_FAIL rows + status_count MINIAS_FAIL rows + status_count ORACLE_ERROR rows = 0 \<longleftrightarrow>
      status_count GNU_FAIL rows = 0 \<and> status_count MINIAS_FAIL rows = 0 \<and> status_count ORACLE_ERROR rows = 0"
    by (smt (verit))
  then show ?thesis by (auto simp: status_count_zero list_all_iff infra_def)
qed

section \<open>The order of the workers\<close>

text \<open>Every file finishes once.\<close>

definition permutes :: "(string list \<Rightarrow> string list) \<Rightarrow> bool" where
  "permutes finish \<longleftrightarrow> (\<forall>files. mset (finish files) = mset files)"

definition outcome_of :: "oracle_tools \<Rightarrow> (py_error \<Rightarrow> string) \<Rightarrow> (string \<Rightarrow> string) \<Rightarrow> oracle_args \<Rightarrow> string \<Rightarrow> oracle_row \<times> (string \<times> string) list" where
  "outcome_of t exc_text str_path args rel = projr (oracle_one t exc_text str_path args rel)"

lemma mapE_finish:
  assumes "permutes finish"
  shows "mapE (oracle_one t exc_text str_path args) (finish files) = Inr rows \<longleftrightarrow>
    list_all (startable t args) files \<and> rows = map (outcome_of t exc_text str_path args) (finish files)"
proof -
  have sets: "set (finish files) = set files" using assms by (metis permutes_def set_mset_mset)
  have one: "oracle_one t exc_text str_path args rel = Inr x \<longleftrightarrow> startable t args rel \<and> x = outcome_of t exc_text str_path args rel" for rel x
    using oracle_one_starts [of t exc_text str_path args rel] by (auto simp: outcome_of_def)
  have "mapE (oracle_one t exc_text str_path args) xs = Inr ys \<longleftrightarrow>
      list_all (startable t args) xs \<and> ys = map (outcome_of t exc_text str_path args) xs" for xs ys
    by (induction xs arbitrary: ys) (auto simp: resE one)
  then show ?thesis using sets by (simp add: list_all_iff)
qed

lemma oracle_main_ok:
  assumes "permutes finish"
  shows "oracle_main t exc_text str_path finish seconds args files = Inr out \<longleftrightarrow>
    oa_jobs args > 0 \<and> (case oa_expected args of None \<Rightarrow> True | Some n \<Rightarrow> int (length files) = n) \<and> files \<noteq> [] \<and> out_dirs_ok t args \<and> results_ok t args \<and> list_all (startable t args) files \<and>
    (let done_rows = map (outcome_of t exc_text str_path args) (finish files); rows = sort_key or_path (map fst done_rows) in
     out = \<lparr> oo_progress = map (\<lambda>(i, row). progress_line (Suc i) (length files) row) (List.enumerate 0 (map fst done_rows)),
              oo_results = concat (map result_line rows), oo_summary = summary_text seconds rows,
              oo_written = concat (map snd done_rows),
              oo_status = (if \<not> list_all (\<lambda>row. \<not> infra (or_status row)) rows then 2
                 else if oa_require_equal args \<and> \<not> list_all (\<lambda>row. or_status row \<noteq> DIFF) rows then 1 else 0) \<rparr>)"
proof -
  have dirs: "(\<exists>us. mapE (ot_mkdir t) (oa_output_root args # map (below (oa_output_root args)) [''reference'', ''candidate'', ''semantic'', ''stderr'']) = Inr us) \<longleftrightarrow> out_dirs_ok t args"
    unfolding out_dirs_ok_def by (rule mapE_unit)
  have results: "(\<exists>us. mapE (\<lambda>p. ot_write t (below (oa_output_root args) p)) [''results.tsv'', ''summary.txt''] = Inr us) \<longleftrightarrow> results_ok t args"
    unfolding results_ok_def by (rule mapE_unit)
  show ?thesis
    unfolding oracle_main_def dirs [symmetric] results [symmetric]
    by (auto simp: Let_def bindE_Inr_iff mapE_finish [OF assms] infra_count status_count_zero simp del: list_all_length mapE.simps split: option.splits if_splits)
qed


lemma outcome_row:
  assumes "startable t args rel"
  shows "or_path (fst (outcome_of t exc_text str_path args rel)) = rel"
    and "\<not> infra (or_status (fst (outcome_of t exc_text str_path args rel))) \<longleftrightarrow>
      assembled t args rel \<and> (\<exists>data. judged t args rel = Inr data)"
    and "or_status (fst (outcome_of t exc_text str_path args rel)) = PASS \<longleftrightarrow>
      assembled t args rel \<and> (\<exists>data. judged t args rel = Inr data \<and> cp_equal data)"
proof -
  obtain row ws where "oracle_one t exc_text str_path args rel = Inr (row, ws)" using oracle_one_starts assms by (metis prod.exhaust)
  from oracle_one_row [OF this] this show "or_path (fst (outcome_of t exc_text str_path args rel)) = rel"
    "\<not> infra (or_status (fst (outcome_of t exc_text str_path args rel))) \<longleftrightarrow>
      assembled t args rel \<and> (\<exists>data. judged t args rel = Inr data)"
    "or_status (fst (outcome_of t exc_text str_path args rel)) = PASS \<longleftrightarrow>
      assembled t args rel \<and> (\<exists>data. judged t args rel = Inr data \<and> cp_equal data)"
    by (simp_all add: outcome_of_def)
qed

lemma rows_all:
  assumes "permutes finish"
  shows "list_all P (sort_key or_path (map fst (map f (finish files)))) \<longleftrightarrow> list_all (\<lambda>rel. P (fst (f rel))) files"
proof -
  have "set (finish files) = set files" using assms by (metis permutes_def set_mset_mset)
  then show ?thesis by (auto simp: list_all_iff)
qed

text \<open>
  C10. The run returns with status 0 exactly when the arguments are acceptable, directories and results can be written, and every file is assembled by both assemblers and its two objects can be
  compared, with the text of the comparison written, and, when equality is required, are equal; it returns with status 2 exactly when some file is not assembled or not compared although all
  programs could be started.
\<close>
theorem oracle_verdict:
  assumes "permutes finish"
  shows "((\<exists>out. oracle_main t exc_text str_path finish seconds args files = Inr out \<and> oo_status out = 0) \<longleftrightarrow>
      oa_jobs args > 0 \<and> (case oa_expected args of None \<Rightarrow> True | Some n \<Rightarrow> int (length files) = n) \<and> files \<noteq> [] \<and> out_dirs_ok t args \<and> results_ok t args \<and>
      list_all (\<lambda>rel. assembled t args rel \<and> (\<exists>data. judged t args rel = Inr data \<and>
        (oa_require_equal args \<longrightarrow> cp_equal data))) files) \<and>
    ((\<exists>out. oracle_main t exc_text str_path finish seconds args files = Inr out \<and> oo_status out = 2) \<longleftrightarrow>
      oa_jobs args > 0 \<and> (case oa_expected args of None \<Rightarrow> True | Some n \<Rightarrow> int (length files) = n) \<and> files \<noteq> [] \<and> out_dirs_ok t args \<and> results_ok t args \<and> list_all (startable t args) files \<and>
      \<not> list_all (\<lambda>rel. assembled t args rel \<and> (\<exists>data. judged t args rel = Inr data)) files)"
proof -
  let ?f = "outcome_of t exc_text str_path args"
  let ?rows = "sort_key or_path (map fst (map ?f (finish files)))"
  have start: "startable t args rel" if "assembled t args rel" for rel using that by (auto simp: assembled_def startable_def)
  have infra: "list_all (\<lambda>row. \<not> infra (or_status row)) ?rows \<longleftrightarrow>
      list_all (\<lambda>rel. assembled t args rel \<and> (\<exists>data. judged t args rel = Inr data)) files"
    if "list_all (startable t args) files"
    unfolding rows_all [OF assms] using that outcome_row(2) by (auto simp: list_all_iff)
  have diff: "list_all (\<lambda>row. \<not> infra (or_status row)) ?rows \<and> list_all (\<lambda>row. or_status row \<noteq> DIFF) ?rows \<longleftrightarrow>
      list_all (\<lambda>rel. assembled t args rel \<and> (\<exists>data. judged t args rel = Inr data \<and> cp_equal data)) files"
    if "list_all (startable t args) files"
  proof -
    have "\<not> infra st \<and> st \<noteq> DIFF \<longleftrightarrow> st = PASS" for st by (cases st) (simp_all add: infra_def)
    then have "list_all (\<lambda>row. \<not> infra (or_status row)) ?rows \<and> list_all (\<lambda>row. or_status row \<noteq> DIFF) ?rows \<longleftrightarrow> list_all (\<lambda>row. or_status row = PASS) ?rows"
      by (auto simp: list_all_iff)
    then show ?thesis unfolding rows_all [OF assms] using that outcome_row(3) by (auto simp: list_all_iff)
  qed
  have all_start: "list_all (startable t args) files" if "list_all (\<lambda>rel. assembled t args rel \<and> Q rel) files" for Q
    using that start by (auto simp: list_all_iff)
  show ?thesis
    unfolding oracle_main_ok [OF assms] Let_def
    using infra diff all_start by (cases "oa_require_equal args") (auto split: if_splits)
qed


definition demo_oracle_args :: oracle_args where
  "demo_oracle_args = \<lparr> oa_input_root = ''in'', oa_output_root = ''out'', oa_minias = ''minias'', oa_gcc = ''gcc'', oa_jobs = 4, oa_expected = Some 1,
     oa_native35 = False, oa_require_equal = True \<rparr>"

text \<open>The reader of objects sees one byte: 1 for the one and 2 for the other of two small objects.\<close>

definition demo_reader :: "8 word list \<Rightarrow> py_error + elf" where
  "demo_reader b = (if b = [1] then Inr relax_elf else if b = [2] then Inr nop_elf else Inl (ValueError ''magic''))"

definition open_object :: "(8 word list \<Rightarrow> py_error + elf) \<Rightarrow> objects \<Rightarrow> string \<Rightarrow> py_error + elf" where
  "open_object reader files p = (case files p of None \<Rightarrow> Inl (OSError p) | Some b \<Rightarrow> reader b)"

definition demo_oracle_tools :: oracle_tools where
  "demo_oracle_tools = \<lparr> ot_gnu = (\<lambda>argv. Inr (0, [], Some [1])), ot_minias = (\<lambda>argv. Inr (0, [], Some [2])),
     ot_compare = (\<lambda>files. compare_paths demo_digest (open_object demo_reader files)), ot_objects = Map.empty, ot_mkdir = (\<lambda>d. Inr ()), ot_write = (\<lambda>p. Inr ()) \<rparr>"

definition demo_oracle :: "py_error + oracle_outcome" where
  "demo_oracle = oracle_main demo_oracle_tools (\<lambda>e. ''error'') (\<lambda>p. p) rev ''0.1'' demo_oracle_args [''a.s'']"

lemma permutes_rev: "permutes rev"
  by (simp add: permutes_def)

lemma demo_oracle_passes: "\<exists>out. demo_oracle = Inr out \<and> oo_status out = 0"
proof -
  have "(case demo_oracle of Inl e \<Rightarrow> False | Inr out \<Rightarrow> oo_status out = 0)" by code_simp
  then show ?thesis by (auto split: sum.splits)
qed

theorem oracle_verdict_witness:
  "list_all (\<lambda>rel. assembled demo_oracle_tools demo_oracle_args rel \<and>
     (\<exists>data. judged demo_oracle_tools demo_oracle_args rel = Inr data \<and> cp_equal data)) [''a.s'']"
proof -
  have "oa_require_equal demo_oracle_args" by (simp add: demo_oracle_args_def)
  with oracle_verdict [OF permutes_rev, of demo_oracle_tools "\<lambda>e. ''error''" "\<lambda>p. p" "''0.1''" demo_oracle_args "[''a.s'']"] demo_oracle_passes
  show ?thesis unfolding demo_oracle_def by simp
qed

text \<open>
  Whatever the order in which the pool finishes the files, the table of results, the summary and the status are those of a run in the given
  order, and the same files are written with the same texts; only the lines of progress depend on it.
\<close>
theorem oracle_order:
  assumes "permutes finish" and "oracle_main t exc_text str_path finish seconds args files = Inr out"
  shows "\<exists>out'. oracle_main t exc_text str_path (\<lambda>x. x) seconds args files = Inr out' \<and> oo_results out = oo_results out' \<and>
    oo_summary out = oo_summary out' \<and> oo_status out = oo_status out' \<and> mset (oo_written out) = mset (oo_written out')"
proof -
  let ?f = "outcome_of t exc_text str_path args"
  have start: "list_all (startable t args) files" using assms(2) oracle_main_ok [OF assms(1)] by blast
  have ms: "mset (map ?f (finish files)) = mset (map ?f files)" using assms(1) by (simp add: permutes_def)
  have "mset (concat (map snd xs)) = mset (concat (map snd ys))" if "mset xs = mset ys" for xs ys :: "('x \<times> 'y list) list"
    using that by (simp add: mset_concat flip: sum_mset_sum_list)
  note written = this [OF ms]
  have "inj_on or_path (set (map (fst \<circ> ?f) (finish files)))"
  proof -
    have "set (finish files) = set files" using assms(1) by (metis permutes_def set_mset_mset)
    moreover have "or_path (fst (?f rel)) = rel" if "rel \<in> set files" for rel using outcome_row(1) start that by (simp add: list_all_iff)
    ultimately have "or_path x = or_path y \<Longrightarrow> x = y"
      if "x \<in> (fst \<circ> ?f) ` set (finish files)" "y \<in> (fst \<circ> ?f) ` set (finish files)" for x y
      using that by auto
    then show ?thesis by (auto intro!: inj_onI)
  qed
  moreover have "mset (map (fst \<circ> ?f) (finish files)) = mset (map (fst \<circ> ?f) files)" using assms(1) by (simp add: permutes_def)
  ultimately have rows: "sort_key or_path (map (fst \<circ> ?f) (finish files)) = sort_key or_path (map (fst \<circ> ?f) files)"
    by (intro sort_key_inj_key_eq) simp_all
  have id: "permutes (\<lambda>x. x)" by (simp add: permutes_def)
  show ?thesis
    using assms(2) written unfolding oracle_main_ok [OF assms(1)] oracle_main_ok [OF id] Let_def map_map rows by auto
qed

theorem oracle_order_witness: "\<exists>out. oracle_main demo_oracle_tools (\<lambda>e. ''error'') (\<lambda>p. p) (\<lambda>x. x) ''0.1'' demo_oracle_args [''a.s''] = Inr out"
proof -
  obtain out where "demo_oracle = Inr out" using demo_oracle_passes by blast
  with oracle_order [OF permutes_rev, of demo_oracle_tools "\<lambda>e. ''error''" "\<lambda>p. p" "''0.1''" demo_oracle_args "[''a.s'']" out] show ?thesis
    unfolding demo_oracle_def by auto
qed

section \<open>Together with the comparison\<close>

text \<open>
  C9. A run that requires equality and returns with status 0, with the comparison of \<open>ElfCompare\<close>, has
  established for every file that both assemblers returned 0 and that the two objects that were there afterwards, those that the assemblers wrote or, where one wrote none,
  the one of an earlier run, can be read and are equal in the sense of the comparison: the same header; for every name the same type, flags and sizes of the last section of that name; the same bags of
  symbols and of relocations; the same digests of the masked bytes of the sections that are compared; and compatible alignments.
\<close>
theorem oracle_certifies:
  assumes "permutes finish" and "oracle_main t exc_text str_path finish seconds args files = Inr out" and "oo_status out = 0"
    and "oa_require_equal args" and "ot_compare t = (\<lambda>objs. compare_paths sha256 (open_object reader objs))" and "rel \<in> set files"
  shows "\<exists>e1 o1 e2 o2 x y a b. ot_gnu t (gnu_command args rel) = Inr (0, e1, o1) \<and> ot_minias t (minias_command args rel) = Inr (0, e2, o2) \<and>
    Some x = (if o1 = None then ot_objects t (ref_path args rel) else o1) \<and> reader x = Inr a \<and>
    Some y = (if o2 = None then ot_objects t (cand_path args rel) else o2) \<and> reader y = Inr b \<and>
    same_object sha256 a b \<and> aligned a b"
proof -
  have "list_all (\<lambda>row. \<not> infra (or_status row) \<and> or_status row \<noteq> DIFF) (sort_key or_path (map fst (map (outcome_of t exc_text str_path args) (finish files))))"
    and start: "startable t args rel"
    using assms(2-4,6) unfolding oracle_main_ok [OF assms(1)] Let_def by (auto simp: list_all_iff split: if_splits)
  then have "\<not> infra (or_status (fst (outcome_of t exc_text str_path args rel))) \<and> or_status (fst (outcome_of t exc_text str_path args rel)) \<noteq> DIFF"
    unfolding rows_all [OF assms(1)] using assms(6) by (auto simp: list_all_iff)
  then have "or_status (fst (outcome_of t exc_text str_path args rel)) = PASS"
    by (cases "or_status (fst (outcome_of t exc_text str_path args rel))") (simp_all add: infra_def)
  then obtain data where as: "assembled t args rel" and "judged t args rel = Inr data" and eq: "cp_equal data"
    using outcome_row(3) [OF start] by blast
  then have data: "compare_paths sha256 (open_object reader (objects_left t args rel)) (ref_path args rel) (cand_path args rel) = Inr data"
    by (auto simp: judged_def assms(5) resE)
  then obtain a b where ab: "open_object reader (objects_left t args rel) (ref_path args rel) = Inr a" "open_object reader (objects_left t args rel) (cand_path args rel) = Inr b"
    using compare_paths_open by blast
  then have same: "same_object sha256 a b" "aligned a b" using compare_paths_iff [OF data ab] eq by blast+
  from as obtain e1 o1 e2 o2 where tools: "ot_gnu t (gnu_command args rel) = Inr (0, e1, o1)" "ot_minias t (minias_command args rel) = Inr (0, e2, o2)"
    by (auto simp: assembled_def)
  have ne: "ref_path args rel \<noteq> cand_path args rel" by (simp add: ref_path_def cand_path_def below_def)
  have "objects_left t args rel (ref_path args rel) = (if o1 = None then ot_objects t (ref_path args rel) else o1)"
    "objects_left t args rel (cand_path args rel) = (if o2 = None then ot_objects t (cand_path args rel) else o2)"
    using ne by (auto simp: objects_left_def written_by_def tools write_object_def split: option.splits)
  with ab obtain x y where "Some x = (if o1 = None then ot_objects t (ref_path args rel) else o1)" "reader x = Inr a"
    "Some y = (if o2 = None then ot_objects t (cand_path args rel) else o2)" "reader y = Inr b"
    by (auto simp: open_object_def split: option.splits if_splits)
  with tools same show ?thesis by blast
qed

theorem oracle_certifies_witness: "same_object demo_digest relax_elf nop_elf \<and> aligned relax_elf nop_elf"
proof -
  obtain out where out: "demo_oracle = Inr out" "oo_status out = 0" using demo_oracle_passes by blast
  have "oa_require_equal demo_oracle_args" "''a.s'' \<in> set [''a.s'']"
    "ot_compare demo_oracle_tools = (\<lambda>objs. compare_paths demo_digest (open_object demo_reader objs))"
    by (simp_all add: demo_oracle_args_def demo_oracle_tools_def)
  from oracle_certifies [OF permutes_rev out(1) [unfolded demo_oracle_def] out(2) this(1,3,2)]
  show ?thesis by (auto simp: demo_oracle_tools_def demo_reader_def)
qed

end
