(* ===== verification/RouteAudit.thy ===== *)
theory RouteAudit
  imports Tally PurePath FileStore PyRepr Captures RegexRuns
begin

text \<open>
  \<^verbatim>\<open>tools/ci/linux-runtime-minic-route-audit-v1.py\<close>: the proof that every object of a list was compiled by MiniC, from the trace of successful
  compilations, and that the object found is one of those compilations, from the digests recorded after assembly.  SHA-256 is an argument; the files are
  those of \<open>FileStore\<close>.

  Shown here: when each of the two audits passes, and that no object other than a recorded one passes the second.
\<close>

definition clean_name :: "string \<Rightarrow> py_error + string" where
  [py_defs]: "clean_name raw =
     (let name = strip raw in
      if name = [] \<or> is_absolute name \<or> ''..'' \<in> set (path_parts name) \<or> length (path_parts name) < 2 \<or> \<not> endswith name ''.o''
      then Inl (ValueError (''invalid target in route evidence: '' @ repr_str raw)) else Inr name)"

definition route_check :: "string list \<Rightarrow> string list \<Rightarrow> py_error + nat \<times> nat" where
  [py_defs]: "route_check objects successes =
     bindE (mapE clean_name objects) (\<lambda>expected.
     bindE (mapE clean_name successes) (\<lambda>observed.
     if expected = [] \<or> \<not> distinct expected then Inl (ValueError ''missing or duplicate target in reference list'')
     else
       let counts = tally observed;
           missing = filter (\<lambda>x. count_of counts x = 0) expected;
           dups = filter (\<lambda>x. count_of counts x \<noteq> 1 \<and> count_of counts x \<noteq> 0) expected in
       if missing \<noteq> [] \<or> dups \<noteq> []
       then Inl (ValueError (''MiniC route incomplete: expected='' @ str_int (int (length expected)) @ '' observed='' @ str_int (int (length observed)) @
              '' missing='' @ str_int (int (length missing)) @ '' '' @ repr_list (take 12 missing) @ '' duplicate='' @ str_int (int (length dups)) @
              '' '' @ repr_list (take 12 dups)))
       else Inr (length expected, length (filter (\<lambda>x. x \<notin> set expected) (keys counts)))))"

definition is_lower_hex :: "char \<Rightarrow> bool" where
  [py_defs]: "is_lower_hex c = (let n = (of_char c :: nat) in (48 \<le> n \<and> n \<le> 57) \<or> (97 \<le> n \<and> n \<le> 102))"

text \<open>\<^verbatim>\<open>([0-9a-f]{64})  (.+)\<close>\<close>

definition ATTEST_RE :: re where
  [py_defs]: "ATTEST_RE = RSeqs [RGroup 1 (RRep 64 (RSet is_lower_hex)), RLit ''  '', RGroup 2 (RPlus (RSet dot))]"

record attested =
  at_by_target :: "(string \<times> string list) list"
  at_counts :: "(string \<times> int) list"

definition attest_line :: "attested \<Rightarrow> string \<Rightarrow> py_error + attested" where
  [py_defs]: "attest_line st line =
     (case re_fullmatch ATTEST_RE line of
        None \<Rightarrow> Inl (ValueError (''malformed post-assembler hash evidence: '' @ repr_str (take 120 line)))
      | Some m \<Rightarrow> bindE (clean_name (group m 2)) (\<lambda>name.
          Inr \<lparr> at_by_target = AList.update name ((case map_of (at_by_target st) name of None \<Rightarrow> [] | Some ds \<Rightarrow> ds) @ [group m 1]) (at_by_target st),
                at_counts = bump name 1 (at_counts st) \<rparr>))"

definition check_final :: "(byte list \<Rightarrow> string) \<Rightarrow> fs \<Rightarrow> path \<Rightarrow> (string \<times> string list) list \<Rightarrow> unit \<Rightarrow> string \<Rightarrow> py_error + unit" where
  [py_defs]: "check_final sha256 s candidates by_target u name =
     (let target = candidates @ path_tail name in
      if is_symlink s target \<or> \<not> is_file s target then Inl (ValueError (''candidate object missing or symlink: '' @ name))
      else
        bindE (of_option (OSError name) (read_bytes s target)) (\<lambda>b.
        bindE (of_option (KeyError name) (map_of by_target name)) (\<lambda>ds.
          ensure (sha256 b \<in> set ds) (ValueError (''final candidate differs from MiniC-produced bytes: '' @ name)))))"

definition check_final_object_hashes ::
  "(byte list \<Rightarrow> string) \<Rightarrow> fs \<Rightarrow> string list \<Rightarrow> string list \<Rightarrow> string list \<Rightarrow> path \<Rightarrow> py_error + nat \<times> nat \<times> int" where
  [py_defs]: "check_final_object_hashes sha256 s objects successes attestations candidates =
     bindE (mapE clean_name objects) (\<lambda>expected.
     bindE (mapE clean_name successes) (\<lambda>observed.
     if expected = [] \<or> \<not> distinct expected then Inl (ValueError ''missing or duplicate target in reference list'')
     else
       let counts = tally observed; missing = filter (\<lambda>name. count_of counts name = 0) expected in
       if missing \<noteq> [] then Inl (ValueError (''missing authenticated MiniC routes: '' @ repr_list (take 12 missing)))
       else
         bindE (foldE attest_line \<lparr> at_by_target = [], at_counts = [] \<rparr> attestations) (\<lambda>st.
         if \<not> dict_eq (at_counts st) counts then Inl (ValueError ''compiler success and digest trace disagree'')
         else
           bindE (foldE (check_final sha256 s candidates (at_by_target st)) () expected) (\<lambda>_.
             Inr (length expected, length (filter (\<lambda>x. x \<notin> set expected) (keys counts)),
                  sum_list (map (\<lambda>name. count_of counts name - 1) expected))))))"

text \<open>Reading a list of names; a file that is not UTF-8 is a \<^verbatim>\<open>ValueError\<close> as well.\<close>

definition load_names :: "fs \<Rightarrow> path \<Rightarrow> py_error + string list" where
  [py_defs]: "load_names s p =
     bindE (of_option (OSError (join ''/'' p)) (read_bytes s p)) (\<lambda>b.
     bindE (of_option (ValueError ''utf-8'') (decode_utf8 b)) (\<lambda>t.
       Inr (map strip (filter (\<lambda>l. strip l \<noteq> [] \<and> \<not> startswith (lstrip l) ''#'') (splitlines t)))))"

record route_args =
  ra_objects_file :: "path option"
  ra_success_trace :: "path option"
  ra_digest_trace :: "path option"
  ra_candidates :: "path option"

record route_outcome =
  ro_stdout :: string
  ro_stderr :: string
  ro_status :: int

text \<open>The body of \<^verbatim>\<open>try\<close>; \<^verbatim>\<open>parser.error\<close> leaves the program with status 2.\<close>

definition route_body :: "(byte list \<Rightarrow> string) \<Rightarrow> fs \<Rightarrow> route_args \<Rightarrow> py_error + string" where
  [py_defs]: "route_body sha256 s args =
     (case (ra_objects_file args, ra_success_trace args) of
        (Some objects_file, Some success_trace) \<Rightarrow>
          (case (ra_digest_trace args, ra_candidates args) of
             (None, None) \<Rightarrow>
               bindE (load_names s objects_file) (\<lambda>objects.
               bindE (load_names s success_trace) (\<lambda>successes.
               bindE (route_check objects successes) (\<lambda>(n, extra).
                 Inr (''MINIC_ROUTE_AUDIT=PASS minic_compiled='' @ str_int (int n) @ '' ancillary_minic_compiled='' @ str_int (int extra)))))
           | (Some digest_trace, Some candidates) \<Rightarrow>
               bindE (load_names s objects_file) (\<lambda>objects.
               bindE (load_names s success_trace) (\<lambda>successes.
               bindE (load_names s digest_trace) (\<lambda>attestations.
               bindE (check_final_object_hashes sha256 s objects successes attestations candidates) (\<lambda>(n, extra, duplicates).
                 Inr (''MINIC_ROUTE_AUDIT=PASS minic_compiled='' @ str_int (int n) @ '' ancillary_minic_compiled='' @ str_int (int extra) @
                      '' authenticated_rebuilds='' @ str_int duplicates)))))
           | _ \<Rightarrow> Inl (SystemExit ''--object-digest-trace requires --candidates and vice versa''))
      | _ \<Rightarrow> Inl (SystemExit ''--objects-file and --success-trace are required''))"

definition route_main :: "(byte list \<Rightarrow> string) \<Rightarrow> fs \<Rightarrow> route_args \<Rightarrow> py_error + route_outcome" where
  [py_defs]: "route_main sha256 s args =
     (case route_body sha256 s args of
        Inr line \<Rightarrow> Inr \<lparr> ro_stdout = line, ro_stderr = [], ro_status = 0 \<rparr>
      | Inl e \<Rightarrow>
          (case e of
             ValueError t \<Rightarrow> Inr \<lparr> ro_stdout = [], ro_stderr = ''MINIC_ROUTE_AUDIT=FAIL reason='' @ t, ro_status = 2 \<rparr>
           | OSError t \<Rightarrow> Inr \<lparr> ro_stdout = [], ro_stderr = ''MINIC_ROUTE_AUDIT=FAIL reason='' @ t, ro_status = 2 \<rparr>
           | AssertionError t \<Rightarrow> Inr \<lparr> ro_stdout = [], ro_stderr = ''MINIC_ROUTE_AUDIT=FAIL reason='' @ t, ro_status = 2 \<rparr>
           | SystemExit t \<Rightarrow> Inr \<lparr> ro_stdout = [], ro_stderr = t, ro_status = 2 \<rparr>
           | _ \<Rightarrow> Inl e))"

section \<open>The first audit\<close>

lemma clean_name_ok:
  "clean_name raw = Inr name \<longleftrightarrow> name = strip raw \<and> \<not> is_absolute name \<and> ''..'' \<notin> set (path_parts name) \<and> 2 \<le> length (path_parts name) \<and> endswith name ''.o''"
proof -
  have short: "length (path_parts []) < 2" by (simp add: path_parts_def path_root_def path_tail_def startswith_def)
  show ?thesis
  proof (cases "name = strip raw")
    case True
    then show ?thesis using short by (cases "strip raw = []") (simp_all add: clean_name_def Let_def not_less not_le)
  next
    case False
    then show ?thesis by (simp add: clean_name_def Let_def)
  qed
qed

definition clean :: "string list \<Rightarrow> bool" where
  "clean raws \<longleftrightarrow> list_all (\<lambda>raw. \<exists>name. clean_name raw = Inr name) raws"

lemma mapE_clean: "mapE clean_name raws = Inr names \<longleftrightarrow> clean raws \<and> names = map strip raws"
  unfolding clean_def by (induction raws arbitrary: names) (auto simp: resE clean_name_ok)

definition ancillary :: "string list \<Rightarrow> string list \<Rightarrow> nat" where
  "ancillary expected observed = card (set observed - set expected)"

lemma ancillary_length: "length (filter (\<lambda>x. x \<notin> set expected) (keys (tally observed))) = ancillary expected observed"
proof -
  have "set (filter (\<lambda>x. x \<notin> set expected) (keys (tally observed))) = set observed - set expected"
    using tally_count [of observed] by (simp only: set_filter) blast
  moreover have "distinct (filter (\<lambda>x. x \<notin> set expected) (keys (tally observed)))" using tally_count [of observed] by simp
  ultimately show ?thesis unfolding ancillary_def by (metis distinct_card)
qed

text \<open>
  C15. The audit of the routes passes exactly when all names are relative object paths of at least two components that stay inside of the tree, the
  list of objects is not empty and has no duplicate, and every object of it was compiled exactly once; it reports the number of objects and of the
  other names in the trace.
\<close>
theorem route_check_exact:
  "route_check objects successes = Inr (n, extra) \<longleftrightarrow>
     clean objects \<and> clean successes \<and> objects \<noteq> [] \<and> distinct (map strip objects) \<and>
     list_all (\<lambda>raw. count (mset (map strip successes)) (strip raw) = 1) objects \<and>
     n = length objects \<and> extra = ancillary (map strip objects) (map strip successes)"
proof -
  have once: "filter (\<lambda>x. int (f x) = 0) xs = [] \<and> filter (\<lambda>x. int (f x) \<noteq> 1 \<and> int (f x) \<noteq> 0) xs = [] \<longleftrightarrow>
      list_all (\<lambda>x. f x = 1) xs" for f :: "string \<Rightarrow> nat" and xs
    by (induction xs) auto
  have split: "(if a \<or> b then Inl e else Inr x) = Inr y \<longleftrightarrow> \<not> a \<and> \<not> b \<and> x = y" for a b and e :: py_error and x y :: "nat \<times> nat" by simp
  show ?thesis
    unfolding route_check_def bindE_Inr_iff mapE_clean Let_def count_tally ancillary_length
    using once [of "count (mset (map strip successes))" "map strip objects"]
    by (cases "objects = [] \<or> \<not> distinct (map strip objects)") (auto simp: split list_all_iff simp del: count_mset_0_iff mset_map)
qed

section \<open>The second audit\<close>

text \<open>What a line of the trace of digests attests: a name and a digest.\<close>

definition attestation :: "string \<Rightarrow> py_error + string \<times> string" where
  "attestation line =
     (case re_fullmatch ATTEST_RE line of
        None \<Rightarrow> Inl (ValueError (''malformed post-assembler hash evidence: '' @ repr_str (take 120 line)))
      | Some m \<Rightarrow> bindE (clean_name (group m 2)) (\<lambda>name. Inr (name, group m 1)))"

definition attest_add :: "attested \<Rightarrow> string \<times> string \<Rightarrow> attested" where
  "attest_add st p = \<lparr> at_by_target = AList.update (fst p) ((case map_of (at_by_target st) (fst p) of None \<Rightarrow> [] | Some ds \<Rightarrow> ds) @ [snd p]) (at_by_target st),
     at_counts = bump (fst p) 1 (at_counts st) \<rparr>"

lemma attest_line_alt: "attest_line st line = bindE (attestation line) (\<lambda>p. Inr (attest_add st p))"
  by (auto simp: attest_line_def attestation_def attest_add_def bindE_def split: option.splits sum.splits)

lemma attest_all: "foldE attest_line st lines = bindE (mapE attestation lines) (\<lambda>ps. Inr (foldl attest_add st ps))"
  by (induction lines arbitrary: st) (simp_all add: attest_line_alt bindE_def split: sum.splits)

lemma attest_added:
  "at_counts (foldl attest_add \<lparr> at_by_target = [], at_counts = [] \<rparr> ps) = tally (map fst ps) \<and>
   map_of (at_by_target (foldl attest_add \<lparr> at_by_target = [], at_counts = [] \<rparr> ps)) name =
     (let ds = map snd (filter (\<lambda>p. fst p = name) ps) in if ds = [] then None else Some ds)"
  by (induction ps rule: rev_induct) (auto simp: attest_add_def tally_snoc update_conv' Let_def split: option.splits if_splits)

lemma foldE_checks: "foldE f () xs = Inr u \<longleftrightarrow> list_all (\<lambda>x. f () x = Inr ()) xs"
  by (induction xs) (auto simp: resE)

definition authentic :: "(byte list \<Rightarrow> string) \<Rightarrow> fs \<Rightarrow> path \<Rightarrow> (string \<times> string) list \<Rightarrow> string \<Rightarrow> bool" where
  "authentic sha256 s candidates ps name \<longleftrightarrow> \<not> is_symlink s (candidates @ path_tail name) \<and>
     (\<exists>b. read_bytes s (candidates @ path_tail name) = Some b \<and> (name, sha256 b) \<in> set ps)"

lemma check_final_ok:
  "check_final sha256 s candidates (at_by_target (foldl attest_add \<lparr> at_by_target = [], at_counts = [] \<rparr> ps)) () name = Inr u \<longleftrightarrow>
   authentic sha256 s candidates ps name"
proof -
  let ?t = "candidates @ path_tail name"
  let ?ds = "map snd (filter (\<lambda>p. fst p = name) ps)"
  have regular: "is_file s ?t \<longleftrightarrow> read_bytes s ?t \<noteq> None" by (auto simp: is_file_def read_bytes_def split: option.splits node.splits)
  have mem: "d \<in> set ?ds \<longleftrightarrow> (name, d) \<in> set ps" for d by force
  show ?thesis
  proof (cases "read_bytes s ?t")
    case None
    with regular show ?thesis by (simp add: check_final_def authentic_def Let_def)
  next
    case (Some b)
    have "check_final sha256 s candidates (at_by_target (foldl attest_add \<lparr> at_by_target = [], at_counts = [] \<rparr> ps)) () name = Inr u \<longleftrightarrow>
        \<not> is_symlink s ?t \<and> sha256 b \<in> set ?ds"
      using regular Some attest_added [of ps name] by (cases "?ds = []") (simp_all add: check_final_def Let_def resE)
    with Some mem show ?thesis by (simp add: authentic_def)
  qed
qed

lemma hashes_exact:
  "check_final_object_hashes sha256 s objects successes attestations candidates = Inr (n, extra, duplicates) \<longleftrightarrow>
     clean objects \<and> clean successes \<and> objects \<noteq> [] \<and> distinct (map strip objects) \<and>
     list_all (\<lambda>name. 0 < count (mset (map strip successes)) name) (map strip objects) \<and>
     (\<exists>ps. mapE attestation attestations = Inr ps \<and> mset (map fst ps) = mset (map strip successes) \<and>
        list_all (authentic sha256 s candidates ps) (map strip objects)) \<and>
     n = length objects \<and> extra = ancillary (map strip objects) (map strip successes) \<and>
     duplicates = sum_list (map (\<lambda>name. int (count (mset (map strip successes)) name) - 1) (map strip objects))"
proof -
  have pos: "filter (\<lambda>x. int (f x) = 0) xs = [] \<longleftrightarrow> list_all (\<lambda>x. 0 < f x) xs" for f :: "string \<Rightarrow> nat" and xs by (induction xs) auto
  have "(case mapE attestation attestations of Inl e \<Rightarrow> False | Inr ps \<Rightarrow> mset (map fst ps) = mset (map strip successes) \<and>
        list_all (authentic sha256 s candidates ps) (map strip objects)) \<longleftrightarrow>
      (\<exists>ps. mapE attestation attestations = Inr ps \<and> mset (map fst ps) = mset (map strip successes) \<and>
        list_all (authentic sha256 s candidates ps) (map strip objects))"
    by (cases "mapE attestation attestations") simp_all
  then show ?thesis
    unfolding check_final_object_hashes_def bindE_Inr_iff [of "mapE clean_name _"] mapE_clean Let_def count_tally ancillary_length attest_all
    using pos [of "count (mset (map strip successes))" "map strip objects"] attest_added
    by (cases "objects = [] \<or> \<not> distinct (map strip objects)"; cases "list_all (\<lambda>name. 0 < count (mset (map strip successes)) name) (map strip objects)";
        cases "mapE attestation attestations")
      (auto simp: bindE_Inr_iff foldE_checks check_final_ok tally_dict_eq simp del: count_greater_zero_iff mset_map map_map)
qed


section \<open>Lines of digests\<close>

text \<open>A repetition of fixed length and a literal match in at most one way.\<close>

lemma matches_rep:
  "matches (RRep n (RSet P)) m = (if n \<le> length (ms_rest m) \<and> list_all P (take n (ms_rest m)) then [eaten n m] else [])"
proof (induction n arbitrary: m)
  case (Suc n)
  then show ?case by (cases "ms_rest m") (auto simp: eaten_Suc)
qed simp

lemma matches_lit: "ms_rest m = l @ t \<Longrightarrow> matches (RLit l) m = [eaten (length l) m]"
proof (induction l arbitrary: m rule: RLit.induct)
  case (3 c d l)
  then show ?case by (simp add: eaten_Suc)
qed (simp_all add: eaten_def)

lemma attest_groups:
  assumes "length d = 64" and "list_all is_lower_hex d" and "list_all dot name" and "name \<noteq> []"
  shows "\<exists>m. re_fullmatch ATTEST_RE (d @ ''  '' @ name) = Some m \<and> group m 1 = d \<and> group m 2 = name"
proof -
  let ?m0 = "start_state 0 None (d @ ''  '' @ name)"
  define m1 where "m1 = (eaten 64 ?m0)\<lparr>ms_caps := [(1, d)]\<rparr>"
  define m2 where "m2 = eaten 2 m1"
  have rest: "ms_rest m1 = ''  '' @ name" "ms_rest m2 = name" "ms_caps m2 = [(1, d)]"
    using assms(1) by (simp_all add: m1_def m2_def start_state_def)
  have 1: "matches (RGroup 1 (RRep 64 (RSet is_lower_hex))) ?m0 = [m1]"
    using assms(1,2) by (simp add: matches_rep start_state_def m1_def del: RRep.simps)
  have 2: "matches (RLit ''  '') m1 = [m2]" unfolding m2_def by (rule trans [OF matches_lit [OF rest(1)]]) (simp add: numeral_2_eq_2)
  have tw: "takeWhile dot name = name" using assms(3) by (simp add: takeWhile_eq_all_conv list_all_iff)
  let ?at = "(eaten (length name) m2)\<lparr>ms_caps := [(1, d), (2, name)]\<rparr>"
  have "filter (\<lambda>m. ms_rest m = []) (matches (RGroup 2 (RPlus (RSet dot))) m2) = [?at]"
  proof -
    obtain n where n: "length name = Suc n" using assms(4) by (cases name) auto
    have "matches (RGroup 2 (RPlus (RSet dot))) m2 =
        map (\<lambda>k. (eaten (Suc k) m2)\<lparr>ms_caps := AList.update 2 (take (Suc k) name) [(1, d)]\<rparr>) (down n)"
    proof -
      have "matches (RPlus (RSet dot)) m2 = map (\<lambda>k. eaten (Suc k) m2) (down n)" by (simp add: matches_plus_set rest(2) tw n assms(4))
      moreover have "Suc n - (Suc n - Suc k) = Suc k" if "k \<in> set (down n)" for k using that by simp
      ultimately show ?thesis by (auto simp: rest(2,3) n)
    qed
    moreover have "filter (\<lambda>k. length name \<le> Suc k) (down n) = [n]"
    proof -
      have "filter (\<lambda>k. length name \<le> Suc k) (down n) = n # (if n = 0 then [] else filter (\<lambda>k. length name \<le> Suc k) (down (n - 1)))"
        by (subst down_hd) (simp add: n)
      moreover have "filter (\<lambda>k. length name \<le> Suc k) (down (n - 1)) = []" if "n \<noteq> 0" using that by (auto simp: filter_empty_conv n)
      ultimately show ?thesis by simp
    qed
    ultimately show ?thesis using n rest by (simp add: filter_map comp_def)
  qed
  then have "re_fullmatch ATTEST_RE (d @ ''  '' @ name) =
      Some \<lparr> rm_start = 0, rm_end = ms_pos ?at, rm_prev = ms_prev ?at, rm_rest = [], rm_groups = [(1, d), (2, name)] \<rparr>"
    unfolding re_fullmatch_def ATTEST_RE_def RSeqs.simps using 1 2 by (simp del: matches.simps(7) RRep.simps RLit.simps)
  then show ?thesis by (simp add: group_def)
qed

lemma attestation_line:
  assumes "length d = 64" and "list_all is_lower_hex d" and "list_all dot name" and "clean_name name = Inr name'"
  shows "attestation (d @ ''  '' @ name) = Inr (name', d)"
proof -
  have "name \<noteq> []" using assms(4) by (auto simp: clean_name_def Let_def)
  with attest_groups [OF assms(1-3)] assms(4) show ?thesis by (auto simp: attestation_def)
qed

text \<open>
  C14. The audit of the digests passes exactly when all names are clean, the list of objects is not empty and has no duplicate, every object was
  compiled, the trace of digests has as many lines for each name as the trace of compilations, and every object is a regular file, not a link, whose bytes have one
  of the digests recorded for its name; it reports the number of objects, of other names and of repeated compilations.
\<close>
theorem route_hashes_exact:
  "check_final_object_hashes sha256 s objects successes attestations candidates = Inr (n, extra, duplicates) \<longleftrightarrow>
     clean objects \<and> clean successes \<and> objects \<noteq> [] \<and> distinct (map strip objects) \<and>
     list_all (\<lambda>name. 0 < count (mset (map strip successes)) name) (map strip objects) \<and>
     (\<exists>ps. mapE attestation attestations = Inr ps \<and> mset (map fst ps) = mset (map strip successes) \<and>
        list_all (authentic sha256 s candidates ps) (map strip objects)) \<and>
     n = length objects \<and> extra = ancillary (map strip objects) (map strip successes) \<and>
     duplicates = sum_list (map (\<lambda>name. int (count (mset (map strip successes)) name) - 1) (map strip objects))"
  by (rule hashes_exact)


section \<open>Every failure is reported\<close>

fun reported :: "py_error \<Rightarrow> bool" where
  "reported (ValueError t) = True"
| "reported (OSError t) = True"
| "reported (SystemExit t) = True"
| "reported _ = False"

definition reports :: "py_error + 'a \<Rightarrow> bool" where
  "reports r \<longleftrightarrow> (\<forall>e. r = Inl e \<longrightarrow> reported e)"

lemma reports_simps [simp]: "reports (Inr x)" "reports (Inl e) \<longleftrightarrow> reported e"
  by (simp_all add: reports_def)

lemma reports_bind: "reports m \<Longrightarrow> (\<And>x. m = Inr x \<Longrightarrow> reports (f x)) \<Longrightarrow> reports (bindE m f)"
  by (cases m) (simp_all add: reports_def)

lemma reports_map: "(\<And>x. x \<in> set xs \<Longrightarrow> reports (f x)) \<Longrightarrow> reports (mapE f xs)"
  by (induction xs) (auto intro!: reports_bind)

lemma reports_fold: "(\<And>x s. x \<in> set xs \<Longrightarrow> reports (f s x)) \<Longrightarrow> reports (foldE f s xs)"
  by (induction xs arbitrary: s) (auto intro!: reports_bind)

lemma reports_option: "reported e \<Longrightarrow> reports (of_option e x)"
  by (cases x) simp_all

lemma reports_clean: "reports (clean_name raw)"
  by (simp add: clean_name_def Let_def)

lemma reports_check: "reports (route_check objects successes)"
  unfolding route_check_def by (intro reports_bind reports_map reports_clean) (simp add: Let_def)

lemma reports_attestation: "reports (attestation line)"
  unfolding attestation_def by (auto split: option.splits intro!: reports_bind reports_clean)

lemma reports_hashes: "reports (check_final_object_hashes sha256 s objects successes attestations candidates)"
proof -
  have final: "reports (foldE (check_final sha256 s candidates (at_by_target (foldl attest_add \<lparr> at_by_target = [], at_counts = [] \<rparr> ps))) () expected)"
    if "filter (\<lambda>name. count_of (tally observed) name = 0) expected = []" "dict_eq (tally (map fst ps)) (tally observed)" for ps observed expected
  proof (rule reports_fold)
    fix name u assume "name \<in> set expected"
    then have "0 < count (mset observed) name" using that(1) by (auto simp: filter_empty_conv count_tally)
    also have "mset observed = mset (map fst ps)" using that(2) tally_dict_eq by metis
    finally have "name \<in> set (map fst ps)" by simp
    then have "map snd (filter (\<lambda>p. fst p = name) ps) \<noteq> []" by (auto simp: filter_empty_conv)
    then obtain ds where "map_of (at_by_target (foldl attest_add \<lparr> at_by_target = [], at_counts = [] \<rparr> ps)) name = Some ds"
      using attest_added [of ps name] by (auto simp: Let_def)
    then show "reports (check_final sha256 s candidates (at_by_target (foldl attest_add \<lparr> at_by_target = [], at_counts = [] \<rparr> ps)) u name)"
      by (auto simp: check_final_def Let_def ensure_def intro!: reports_bind reports_option)
  qed
  show ?thesis
    unfolding check_final_object_hashes_def Let_def attest_all
    by (auto intro!: reports_bind reports_map reports_clean reports_attestation final simp: attest_added bindE_Inr_iff)
qed

lemma reports_load: "reports (load_names s p)"
  unfolding load_names_def by (intro reports_bind reports_option) simp_all

text \<open>
  The audit never ends with an uncaught exception, in particular not with a missing entry of the table of digests: it exits with status 0 when
  the audit that its arguments ask for passes, and with status 2 and a reason otherwise.
\<close>
theorem route_reports:
  "\<exists>out. route_main sha256 s args = Inr out \<and> (ro_status out = 0 \<longleftrightarrow> (\<exists>line. route_body sha256 s args = Inr line)) \<and>
     (ro_status out \<noteq> 0 \<longrightarrow> ro_status out = 2 \<and> ro_stdout out = [])"
proof -
  have "reports (route_body sha256 s args)"
    unfolding route_body_def
    by (auto split: option.splits prod.splits intro!: reports_bind reports_load reports_check reports_hashes)
  then show ?thesis by (cases "route_body sha256 s args") (auto simp: route_main_def elim!: reported.elims)
qed

end
