(* ===== verification/Stage4Receipt.thy ===== *)
theory Stage4Receipt
  imports Tally PurePath FileStore Json PyRegex
begin

text \<open>
  \<^verbatim>\<open>tools/ci/minic-bootstrap-stage4-2064-receipt-v1.py\<close>: the receipt over the archived artifacts of a build of Linux by the self-hosted compiler, seven
  producers of objects and the receiver that linked and booted them.  SHA-256 and the reader of JSON are arguments; the files are those of \<open>FileStore\<close>.

  Shown here: the receipt is written exactly when the receiver's table of digests is the disjoint union of the tables of the seven producers, every object
  is there with its digest and was dispatched to the compiler, and the compiler and the image are the expected ones.
\<close>

definition COMPILER_SHA :: string where
  [py_defs]: "COMPILER_SHA = ''50b3f7763bde2505e17bb545513cb00664286d4e762b3395aea3f29ce724ef31''"

definition IMAGE_SHA :: string where
  [py_defs]: "IMAGE_SHA = ''6e0d275025f71c9daf9084f87946e693a9f5da3d71db712a2b6c4348e308d667''"

definition RUN_ID :: int where
  [py_defs]: "RUN_ID = 39063287653"

section \<open>Reading\<close>

definition stage4_text :: "fs \<Rightarrow> path \<Rightarrow> py_error + string" where
  [py_defs]: "stage4_text s p = bindE (of_option (OSError (join ''/'' p)) (read_bytes s p)) (\<lambda>b. of_option (ValueError ''utf-8'') (decode_utf8 b))"

text \<open>\<^verbatim>\<open>p.is_file() and digest(p) == expected\<close>\<close>

definition has_digest :: "(byte list \<Rightarrow> string) \<Rightarrow> fs \<Rightarrow> path \<Rightarrow> string \<Rightarrow> bool" where
  [py_defs]: "has_digest sha256 s p d = (case read_bytes s p of None \<Rightarrow> False | Some b \<Rightarrow> sha256 b = d)"

definition require :: "bool \<Rightarrow> string \<Rightarrow> py_error + unit" where
  [py_defs]: "require condition problem = ensure condition (ValueError problem)"

definition hex_lower :: "char \<Rightarrow> bool" where
  [py_defs]: "hex_lower c = (let n = (of_char c :: nat) in (48 \<le> n \<and> n \<le> 57) \<or> (97 \<le> n \<and> n \<le> 102))"

text \<open>\<^verbatim>\<open>([0-9a-f]{64})  minic/(.+\.o)\<close>\<close>

definition MANIFEST_RE :: re where
  [py_defs]: "MANIFEST_RE = RSeqs [RGroup 1 (RRep 64 (RSet hex_lower)), RLit ''  minic/'', RGroup 2 (RSeq (RPlus (RSet dot)) (RLit ''.o''))]"

definition manifest_line :: "(string \<times> string) list \<Rightarrow> string \<Rightarrow> py_error + (string \<times> string) list" where
  [py_defs]: "manifest_line result line =
     (case re_fullmatch MANIFEST_RE line of
        None \<Rightarrow> Inl (ValueError (''malformed SHA manifest: '' @ take 120 line))
      | Some m \<Rightarrow>
          let name = group m 2 in
          bindE (require (name \<notin> set (keys result) \<and> ''..'' \<notin> set (path_parts name)) (''duplicate or unsafe object: '' @ name)) (\<lambda>_.
            Inr (AList.update name (group m 1) result)))"

definition stage4_manifest :: "fs \<Rightarrow> path \<Rightarrow> py_error + (string \<times> string) list" where
  [py_defs]: "stage4_manifest s p = bindE (stage4_text s p) (\<lambda>t. foldE manifest_line [] (splitlines t))"

definition stage4_owners :: "fs \<Rightarrow> path \<Rightarrow> py_error + string list" where
  [py_defs]: "stage4_owners s p =
     bindE (stage4_text s p) (\<lambda>t.
     let lines = map strip (filter (\<lambda>x. strip x \<noteq> [] \<and> \<not> startswith (lstrip x) ''#'') (splitlines t)) in
     bindE (require (distinct lines) (''duplicate owner in '' @ join ''/'' p)) (\<lambda>_.
     bindE (require (list_all (\<lambda>x. endswith x ''.o'' \<and> ''..'' \<notin> set (path_parts x)) lines) ''unexpected owner path'') (\<lambda>_. Inr lines)))"

section \<open>A producer\<close>

definition shard_expected :: "nat \<Rightarrow> nat" where
  [py_defs]: "shard_expected index = (if index = 6 then 294 else 295)"

definition PRODUCER_TAGS :: "string list" where
  [py_defs]: "PRODUCER_TAGS = [''COHORT_COMPILE=PASS objects='', ''COHORT_ABI=PASS objects='', ''COHORT_PRODUCE_ONLY=PASS objects='']"

definition removeprefix :: "string \<Rightarrow> string \<Rightarrow> string" where
  [py_defs]: "removeprefix s p = (if startswith s p then drop (length p) s else s)"

definition trace_row :: "string \<Rightarrow> py_error + string \<times> string" where
  [py_defs]: "trace_row row =
     (case split_char CHR 0x09 row of
        [a, b] \<Rightarrow> if a \<noteq> [] \<and> b \<noteq> [] then Inr (a, b) else Inl (ValueError ''malformed Stage4 QEMU compiler trace'')
      | _ \<Rightarrow> Inl (ValueError ''malformed Stage4 QEMU compiler trace''))"

definition dispatched :: "string list \<Rightarrow> string \<Rightarrow> bool" where
  [py_defs]: "dispatched outs name =
     (let expect = take (length name - 2) name @ ''.minic-stage2.s'' in list_ex (\<lambda>out. out = expect \<or> endswith out (''/'' @ expect)) outs)"

text \<open>\<^verbatim>\<open>p / "minic" / name\<close>: an absolute name, which the readers do not refuse, replaces the path before it.\<close>

definition object_path :: "path \<Rightarrow> string \<Rightarrow> path" where
  [py_defs]: "object_path p name = (if is_absolute name then path_tail name else p @ [''minic''] @ path_tail name)"

definition inspect_owner :: "(byte list \<Rightarrow> string) \<Rightarrow> fs \<Rightarrow> path \<Rightarrow> (string \<times> string) list \<Rightarrow> string list \<Rightarrow> unit \<Rightarrow> string \<Rightarrow> py_error + unit" where
  [py_defs]: "inspect_owner sha256 s p hashed outs u name =
     bindE (require (dispatched outs name) (''missing REAL QEMU Stage4 compiler dispatch for '' @ name)) (\<lambda>_.
     bindE (of_option (KeyError name) (map_of hashed name)) (\<lambda>d.
       require (has_digest sha256 s (object_path p name) d) (''object SHA not equal to attested compiler output: '' @ name)))"

definition inspect_producer :: "(byte list \<Rightarrow> string) \<Rightarrow> fs \<Rightarrow> path \<Rightarrow> nat \<Rightarrow> py_error + (string \<times> string) list \<times> string" where
  [py_defs]: "inspect_producer sha256 s p index =
     bindE (stage4_owners s (p @ [''full-objects.txt''])) (\<lambda>names.
     let expected = shard_expected index; i = str_int (int index) in
     bindE (require (length names = expected) (''shard '' @ i @ '' owner count '' @ str_int (int (length names)))) (\<lambda>_.
     bindE (stage4_manifest s (p @ [''minic-manifest.sha256''])) (\<lambda>hashed.
     bindE (require (set names = set (keys hashed)) (''shard '' @ i @ '' owner/SHA manifest mismatch'')) (\<lambda>_.
     bindE (stage4_text s (p @ [''cohort.log''])) (\<lambda>status.
     bindE (foldE (\<lambda>u tag. require (contains (tag @ str_int (int expected)) status)
        (''missing producer '' @ tag @ '' evidence shard='' @ i)) () PRODUCER_TAGS) (\<lambda>_.
     bindE (stage4_text s (p @ [''stage4-invocations.tsv''])) (\<lambda>trace.
     bindE (mapE trace_row (splitlines trace)) (\<lambda>pairs.
     bindE (foldE (inspect_owner sha256 s p hashed (map (\<lambda>x. removeprefix (snd x) ''./'') pairs)) () names) (\<lambda>_.
       Inr (hashed, ''STAGE4_LINUX2064_SHARD=PASS index='' @ i @ '' owners='' @ str_int (int expected) @ '' guest_traces='' @ str_int (int (length pairs))))))))))))"

section \<open>The receipt\<close>

text \<open>Subscripts, truth and length of JSON values.\<close>

definition item :: "json \<Rightarrow> string \<Rightarrow> py_error + json" where
  [py_defs]: "item v k = (case v of JObj d \<Rightarrow> of_option (KeyError k) (map_of d k) | _ \<Rightarrow> Inl (TypeError ''indices''))"

definition truthy :: "json \<Rightarrow> bool" where
  [py_defs]: "truthy v = (case v of JNull \<Rightarrow> False | JBool b \<Rightarrow> b | JInt i \<Rightarrow> i \<noteq> 0 | JStr t \<Rightarrow> t \<noteq> [] | JList xs \<Rightarrow> xs \<noteq> [] | JObj d \<Rightarrow> d \<noteq> [])"

definition json_len :: "json \<Rightarrow> py_error + nat" where
  [py_defs]: "json_len v = (case v of JStr t \<Rightarrow> Inr (length t) | JList xs \<Rightarrow> Inr (length xs) | JObj d \<Rightarrow> Inr (length d) | _ \<Rightarrow> Inl (TypeError ''len''))"

text \<open>The condition on the compiler; the conjuncts are evaluated in order and may raise.\<close>

definition right_compiler :: "(byte list \<Rightarrow> string) \<Rightarrow> fs \<Rightarrow> path \<Rightarrow> json \<Rightarrow> py_error + bool" where
  [py_defs]: "right_compiler sha256 s rv64 report =
     (if \<not> has_digest sha256 s rv64 COMPILER_SHA then Inr False
      else bindE (item report ''round'') (\<lambda>round. if round \<noteq> JStr ''stage4'' then Inr False
      else bindE (item report ''passed'') (\<lambda>passed. if passed \<noteq> JInt 77 then Inr False
      else bindE (item report ''failed'') (\<lambda>failed. if truthy failed then Inr False
      else bindE (item report ''linked'') (\<lambda>linked. bindE (json_len linked) (\<lambda>n. if n \<noteq> 9 then Inr False
      else bindE (item linked ''minic-cc'') (\<lambda>sha. Inr (sha = JStr COMPILER_SHA))))))))"

definition add_shard ::
  "(byte list \<Rightarrow> string) \<Rightarrow> fs \<Rightarrow> path \<Rightarrow> (string \<times> string) list \<times> (string \<times> nat) list \<times> string list \<Rightarrow> nat \<Rightarrow>
   py_error + (string \<times> string) list \<times> (string \<times> nat) list \<times> string list" where
  [py_defs]: "add_shard sha256 s producers acc index = (case acc of (combined, by_shard, printed) \<Rightarrow>
     let p = producers @ [''shard-'' @ str_int (int index)] in
     bindE (require (is_dir s p) (''missing producer artifact shard-'' @ str_int (int index))) (\<lambda>_.
     bindE (inspect_producer sha256 s p index) (\<lambda>(hashes, line).
     bindE (foldE (\<lambda>combined (owner, sha). bindE (require (owner \<notin> set (keys combined)) (''overlap among seven producer shards: '' @ owner)) (\<lambda>_.
        Inr (AList.update owner sha combined))) combined hashes) (\<lambda>combined'.
       Inr (combined', AList.update (str_int (int index)) (length hashes) by_shard, printed @ [line])))))"

definition RECEIVER_NEEDLES :: "string list" where
  [py_defs]: "RECEIVER_NEEDLES = [
     ''COHORT_SCOPE=FULL_C_UNIVERSE objects=2064'',
     ''COHORT_P1=PASS name=full_all_verified syscalls=12 python_era_oracle=PASS'',
     ''COHORT_RESULT=PASS candidate_objects=2064 scope=FULL_C_UNIVERSE same_config=true'']"

definition verdict_json :: "(string \<times> nat) list \<Rightarrow> nat \<Rightarrow> json" where
  [py_defs]: "verdict_json by_shard unique = JObj [
     (''schema'', JStr ''minic-stage4-linux2064-archive-receipt-v1''), (''result'', JStr ''PASS''), (''producer_run'', JInt RUN_ID),
     (''stage4_selfhost_run'', JInt 39058935623), (''stage4_compiler_sha256'', JStr COMPILER_SHA), (''image_sha256'', JStr IMAGE_SHA),
     (''owners'', JInt 2064), (''shards'', JObj (map (\<lambda>(k, n). (k, JInt (int n))) by_shard)), (''unique_verified_objects'', JInt (int unique)),
     (''stage4_real_guest_compiler_invocations'', JStr ''verified_per_canonical_owner''),
     (''gnu_preprocessor_assembler_linker'', JStr ''used_as_original_external_Kbuild_oracle''), (''qemu_p1'', JStr ''12/12 PASS''),
     (''recompiled_tus'', JInt 0), (''reran_qemu'', JBool False)]"

text \<open>The three groups of checks, in the order of the code.\<close>

definition stage4_compiler :: "(byte list \<Rightarrow> string) \<Rightarrow> (string \<Rightarrow> py_error + json) \<Rightarrow> fs \<Rightarrow> path \<Rightarrow> py_error + unit" where
  [py_defs]: "stage4_compiler sha256 loads s native =
     bindE (bindE (stage4_text s (native @ [''full-native'', ''stage4'', ''summary.json''])) loads) (\<lambda>report.
     bindE (right_compiler sha256 s (native @ [''full-native'', ''stage4'', ''bin'', ''minic-cc'']) report) (\<lambda>right.
       require right ''not the immutable 77-TU nine-tool Stage4 compiler''))"

definition stage4_objects ::
  "(byte list \<Rightarrow> string) \<Rightarrow> fs \<Rightarrow> path \<Rightarrow> path \<Rightarrow> py_error + (string \<times> string) list \<times> (string \<times> nat) list \<times> string list" where
  [py_defs]: "stage4_objects sha256 s proof_dir producers =
     bindE (stage4_owners s (proof_dir @ [''full-objects.txt''])) (\<lambda>real_owners.
     bindE (require (length real_owners = 2064) ''full-objects.txt has wrong REAL owner count'') (\<lambda>_.
     bindE (stage4_manifest s (proof_dir @ [''minic-manifest.sha256''])) (\<lambda>assert_manifest.
     bindE (require (length assert_manifest = 2064 \<and> set real_owners = set (keys assert_manifest)) ''receiver union owner/manifest mismatch'') (\<lambda>_.
     bindE (foldE (add_shard sha256 s producers) ([], [], []) [0..<7]) (\<lambda>acc.
     bindE (require (dict_eq (fst acc) assert_manifest) ''receiver SHA union differs from seven immutable producer objects'') (\<lambda>_. Inr acc))))))"

definition stage4_boot :: "(byte list \<Rightarrow> string) \<Rightarrow> fs \<Rightarrow> path \<Rightarrow> py_error + unit" where
  [py_defs]: "stage4_boot sha256 s proof_dir =
     bindE (stage4_text s (proof_dir @ [''cohort.log''])) (\<lambda>logs.
     bindE (foldE (\<lambda>u needle. require (contains needle logs) (''QEMU receiver verdict missing: '' @ needle)) () RECEIVER_NEEDLES) (\<lambda>_.
     bindE (require (has_digest sha256 s (proof_dir @ [''trials'', ''full_all'', ''Image'']) IMAGE_SHA) ''real Linux Image SHA mismatch'') (\<lambda>_.
     bindE (stage4_text s (proof_dir @ [''results.tsv''])) (\<lambda>results.
       require (contains (''full_all_verified'' @ [CHR 0x09] @ ''2064'' @ [CHR 0x09] @ ''PASS'' @ [CHR 0x09] @ IMAGE_SHA) results)
         ''missing full_all_verified independent Image identity''))))"

text \<open>The lines that are printed and the store with the receipt.\<close>

definition stage4_run ::
  "(byte list \<Rightarrow> string) \<Rightarrow> (string \<Rightarrow> py_error + json) \<Rightarrow> fs \<Rightarrow> path \<Rightarrow> path \<Rightarrow> path \<Rightarrow> path \<Rightarrow> py_error + string list \<times> fs" where
  [py_defs]: "stage4_run sha256 loads s receiver producers native output =
     bindE (stage4_compiler sha256 loads s native) (\<lambda>_.
     let proof_dir = receiver @ [''linux-runtime-gcc-cohort-v1''] in
     bindE (stage4_objects sha256 s proof_dir producers) (\<lambda>(combined, by_shard, printed).
     bindE (stage4_boot sha256 s proof_dir) (\<lambda>_.
     bindE (of_option (OSError (join ''/'' output)) (write_bytes (encode_utf8 (dumps False 0 (verdict_json by_shard (length combined)) @ ''\<newline>'')) output s)) (\<lambda>s'.
       Inr (printed @ [''BOOTSTRAP_STAGE4_LINUX2064=PASS stage4_compiler_sha='' @ COMPILER_SHA @ '' owners=2064/2064 shards=7/7 SHA_verified=true'' @
          '' QEMU_P1=12/12 Image_sha='' @ IMAGE_SHA @ '' recompiles=0 replay_QEMU=false''], s')))))"

text \<open>The command: the line on the error stream, the store and the status.  Every error of the checks is one that the command catches.\<close>

definition stage4_main ::
  "(byte list \<Rightarrow> string) \<Rightarrow> (string \<Rightarrow> py_error + json) \<Rightarrow> (py_error \<Rightarrow> string) \<Rightarrow> fs \<Rightarrow> path \<Rightarrow> path \<Rightarrow> path \<Rightarrow> path \<Rightarrow> string option \<times> fs \<times> int" where
  [py_defs]: "stage4_main sha256 loads exc_text s receiver producers native output =
     (case stage4_run sha256 loads s receiver producers native output of
        Inr (lines, s') \<Rightarrow> (None, s', 0)
      | Inl e \<Rightarrow> (Some (''BOOTSTRAP_STAGE4_LINUX2064=FAIL '' @ exc_text e), s, 1))"

section \<open>What the readers return\<close>

lemma require_ok [resE]: "require c t = Inr u \<longleftrightarrow> c"
  by (simp add: require_def ensure_Inr_iff)

lemma foldE_require: "foldE (\<lambda>u x. require (P x) (t x)) () xs = Inr u \<longleftrightarrow> list_all P xs"
  by (induction xs) (auto simp: resE)

lemma manifest_distinct:
  assumes "stage4_manifest s p = Inr m"
  shows "distinct (keys m)"
proof -
  from assms obtain t where "foldE manifest_line [] (splitlines t) = Inr m" by (auto simp: stage4_manifest_def resE)
  then show ?thesis
    by (rule foldE_invariant) (auto simp: manifest_line_def Let_def resE distinct_update split: option.splits)
qed

definition produced :: "(byte list \<Rightarrow> string) \<Rightarrow> fs \<Rightarrow> path \<Rightarrow> nat \<Rightarrow> (string \<times> string) list \<Rightarrow> bool" where
  "produced sha256 s p index hashed \<longleftrightarrow> (\<exists>names status trace pairs.
     stage4_owners s (p @ [''full-objects.txt'']) = Inr names \<and> length names = shard_expected index \<and>
     stage4_manifest s (p @ [''minic-manifest.sha256'']) = Inr hashed \<and> set names = set (keys hashed) \<and>
     stage4_text s (p @ [''cohort.log'']) = Inr status \<and>
     list_all (\<lambda>tag. contains (tag @ str_int (int (shard_expected index))) status) PRODUCER_TAGS \<and>
     stage4_text s (p @ [''stage4-invocations.tsv'']) = Inr trace \<and> mapE trace_row (splitlines trace) = Inr pairs \<and>
     list_all (dispatched (map (\<lambda>x. removeprefix (snd x) ''./'') pairs)) names \<and>
     list_all (\<lambda>(name, d). has_digest sha256 s (object_path p name) d) hashed)"

lemma keyed_all:
  assumes "distinct (keys d)" and "set ks = set (keys d)"
  shows "(\<forall>k \<in> set ks. \<exists>v. map_of d k = Some v \<and> P k v) \<longleftrightarrow> (\<forall>(k, v) \<in> set d. P k v)"
proof -
  have "(\<forall>k \<in> set (keys d). \<exists>v. (k, v) \<in> set d \<and> P k v) \<longleftrightarrow> (\<forall>(k, v) \<in> set d. P k v)" (is "?l \<longleftrightarrow> ?r")
  proof
    assume ?l
    then show ?r using eq_key_imp_eq_value [OF assms(1)] by fastforce
  next
    assume ?r
    then show ?l by fastforce
  qed
  then show ?thesis unfolding assms(2) using assms(1) by simp
qed

lemma inspect_owners_ok:
  assumes "distinct (keys hashed)" and "set names = set (keys hashed)"
  shows "foldE (inspect_owner sha256 s p hashed outs) () names = Inr u \<longleftrightarrow>
    list_all (dispatched outs) names \<and> list_all (\<lambda>(name, d). has_digest sha256 s (object_path p name) d) hashed"
proof -
  have "foldE (inspect_owner sha256 s p hashed outs) () names = Inr u \<longleftrightarrow>
      list_all (\<lambda>name. dispatched outs name \<and> (\<exists>d. map_of hashed name = Some d \<and> has_digest sha256 s (object_path p name) d)) names"
    by (induction names) (auto simp: resE inspect_owner_def)
  also have "\<dots> \<longleftrightarrow> list_all (dispatched outs) names \<and> list_all (\<lambda>(name, d). has_digest sha256 s (object_path p name) d) hashed"
    using keyed_all [OF assms, of "\<lambda>name d. has_digest sha256 s (object_path p name) d"] by (simp only: list_all_iff) blast
  finally show ?thesis .
qed

lemma inspect_producer_ok: "(\<exists>line. inspect_producer sha256 s p index = Inr (hashed, line)) \<longleftrightarrow> produced sha256 s p index hashed"
  unfolding inspect_producer_def produced_def Let_def
  by (auto simp: bindE_Inr_iff require_ok foldE_require inspect_owners_ok manifest_distinct simp del: set_map)

section \<open>The union of the shards\<close>

lemma union_step:
  assumes "distinct (keys hashes)"
  shows "foldE (\<lambda>combined (owner, sha). bindE (require (owner \<notin> set (keys combined)) (t owner)) (\<lambda>_. Inr (AList.update owner sha combined))) combined hashes = Inr c \<longleftrightarrow>
    set (keys combined) \<inter> set (keys hashes) = {} \<and> c = combined @ hashes"
  using assms
proof (induction hashes arbitrary: combined)
  case Nil
  then show ?case by auto
next
  case (Cons x hashes)
  obtain k v where x: "x = (k, v)" by (cases x)
  show ?case
  proof (cases "k \<in> set (keys combined)")
    case True
    then show ?thesis by (auto simp: x bindE_Inr_iff require_ok)
  next
    case False
    then have "AList.update k v combined = combined @ [(k, v)]" by (rule update_fresh)
    with False Cons show ?thesis by (auto simp: x bindE_Inr_iff require_ok)
  qed
qed

definition shard_path :: "path \<Rightarrow> nat \<Rightarrow> path" where
  "shard_path producers index = producers @ [''shard-'' @ str_int (int index)]"

lemma add_shard_ok:
  "add_shard sha256 s producers (combined, by_shard, printed) index = Inr (c, by', printed') \<longleftrightarrow>
   is_dir s (shard_path producers index) \<and>
   (\<exists>hashes line. inspect_producer sha256 s (shard_path producers index) index = Inr (hashes, line) \<and> set (keys combined) \<inter> set (keys hashes) = {} \<and>
      c = combined @ hashes \<and> by' = AList.update (str_int (int index)) (length hashes) by_shard \<and> printed' = printed @ [line])"
proof (cases "inspect_producer sha256 s (shard_path producers index) index")
  case (Inl e)
  then show ?thesis by (simp add: add_shard_def shard_path_def Let_def bindE_Inr_iff)
next
  case (Inr r)
  obtain hashes line where r: "r = (hashes, line)" by (cases r)
  have "produced sha256 s (shard_path producers index) index hashes" using inspect_producer_ok Inr r by blast
  then have "distinct (keys hashes)" using manifest_distinct by (auto simp: produced_def)
  from union_step [OF this] show ?thesis
    using Inr by (auto simp: add_shard_def shard_path_def Let_def bindE_Inr_iff require_ok r simp del: set_map)
qed


lemma produced_distinct: "produced sha256 s p index hashes \<Longrightarrow> distinct (keys hashes)"
  using manifest_distinct by (auto simp: produced_def)

lemma ex_line:
  assumes "\<And>h. (\<exists>l. A h l) \<longleftrightarrow> P h" and "\<And>h l. P h \<Longrightarrow> D h \<Longrightarrow> R h l \<longleftrightarrow> S h"
  shows "(\<exists>h l. A h l \<and> D h \<and> R h l) \<longleftrightarrow> (\<exists>h. P h \<and> D h \<and> S h)"
  using assms by blast

lemma add_shards_ok:
  assumes "distinct (keys combined)"
  shows "(\<exists>by' printed'. foldE (add_shard sha256 s producers) (combined, by_shard, printed) ixs = Inr (c, by', printed')) \<longleftrightarrow>
   list_all (\<lambda>i. is_dir s (shard_path producers i)) ixs \<and>
   (\<exists>hs. list_all2 (\<lambda>i h. produced sha256 s (shard_path producers i) i h) ixs hs \<and> c = combined @ concat hs \<and> distinct (keys c))"
  using assms
proof (induction ixs arbitrary: combined by_shard printed)
  case Nil
  then show ?case by auto
next
  case (Cons i ixs)
  let ?run = "\<lambda>d b p xs. \<exists>by' printed'. foldE (add_shard sha256 s producers) (d, b, p) xs = Inr (c, by', printed')"
  let ?rest = "\<lambda>h. list_all (\<lambda>i. is_dir s (shard_path producers i)) ixs \<and>
      (\<exists>hs. list_all2 (\<lambda>i h. produced sha256 s (shard_path producers i) i h) ixs hs \<and> c = (combined @ h) @ concat hs \<and> distinct (keys c))"
  have IH: "?run (combined @ h) b p ixs \<longleftrightarrow> ?rest h" if "distinct (keys h)" "set (keys combined) \<inter> set (keys h) = {}" for h b p
    by (rule Cons.IH) (use that Cons.prems in \<open>simp add: distinct_append\<close>)
  have "?run combined by_shard printed (i # ixs) \<longleftrightarrow> is_dir s (shard_path producers i) \<and>
      (\<exists>h line. inspect_producer sha256 s (shard_path producers i) i = Inr (h, line) \<and> set (keys combined) \<inter> set (keys h) = {} \<and>
        ?run (combined @ h) (AList.update (str_int (int i)) (length h) by_shard) (printed @ [line]) ixs)"
    by (auto simp: bindE_Inr_iff add_shard_ok simp del: set_map)
  also have "\<dots> \<longleftrightarrow> is_dir s (shard_path producers i) \<and>
      (\<exists>h. produced sha256 s (shard_path producers i) i h \<and> set (keys combined) \<inter> set (keys h) = {} \<and> ?rest h)"
    by (intro conj_cong [OF refl] ex_line inspect_producer_ok IH produced_distinct)
  also have "\<dots> \<longleftrightarrow> list_all (\<lambda>i. is_dir s (shard_path producers i)) (i # ixs) \<and>
      (\<exists>hs. list_all2 (\<lambda>i h. produced sha256 s (shard_path producers i) i h) (i # ixs) hs \<and> c = combined @ concat hs \<and> distinct (keys c))"
    (is "?l \<longleftrightarrow> ?r")
  proof
    assume ?l
    then obtain h hs where "produced sha256 s (shard_path producers i) i h" "list_all2 (\<lambda>i h. produced sha256 s (shard_path producers i) i h) ixs hs"
      "c = (combined @ h) @ concat hs" "distinct (keys c)" "list_all (\<lambda>i. is_dir s (shard_path producers i)) (i # ixs)" by auto
    then show ?r by (intro conjI exI [of _ "h # hs"]) simp_all
  next
    assume ?r
    then obtain h hs where "produced sha256 s (shard_path producers i) i h" "list_all2 (\<lambda>i h. produced sha256 s (shard_path producers i) i h) ixs hs"
      "c = combined @ h @ concat hs" "distinct (keys c)" "list_all (\<lambda>i. is_dir s (shard_path producers i)) (i # ixs)"
      by (auto simp: list_all2_Cons1)
    moreover from this have "set (keys combined) \<inter> set (keys h) = {}" by (simp only: map_append distinct_append set_append) blast
    ultimately show ?l by (intro conjI exI [of _ h] exI [of _ hs]) simp_all
  qed
  finally show ?case .
qed


section \<open>When the receipt is written\<close>

definition receipt_dir :: "path \<Rightarrow> path" where
  "receipt_dir receiver = receiver @ [''linux-runtime-gcc-cohort-v1'']"

text \<open>The compiler: its digest and the report of its build.\<close>

definition compiler_evidence :: "(byte list \<Rightarrow> string) \<Rightarrow> (string \<Rightarrow> py_error + json) \<Rightarrow> fs \<Rightarrow> path \<Rightarrow> bool" where
  "compiler_evidence sha256 loads s native \<longleftrightarrow> (\<exists>t report d linked.
     stage4_text s (native @ [''full-native'', ''stage4'', ''summary.json'']) = Inr t \<and> loads t = Inr report \<and> report = JObj d \<and>
     has_digest sha256 s (native @ [''full-native'', ''stage4'', ''bin'', ''minic-cc'']) COMPILER_SHA \<and>
     map_of d ''round'' = Some (JStr ''stage4'') \<and> map_of d ''passed'' = Some (JInt 77) \<and>
     (\<exists>v. map_of d ''failed'' = Some v \<and> \<not> truthy v) \<and>
     map_of d ''linked'' = Some (JObj linked) \<and> length linked = 9 \<and> map_of linked ''minic-cc'' = Some (JStr COMPILER_SHA))"

text \<open>The boot: the log, the image and the table of results of the receiver.\<close>

definition boot_evidence :: "(byte list \<Rightarrow> string) \<Rightarrow> fs \<Rightarrow> path \<Rightarrow> bool" where
  "boot_evidence sha256 s dir \<longleftrightarrow> (\<exists>logs results.
     stage4_text s (dir @ [''cohort.log'']) = Inr logs \<and> list_all (\<lambda>needle. contains needle logs) RECEIVER_NEEDLES \<and>
     has_digest sha256 s (dir @ [''trials'', ''full_all'', ''Image'']) IMAGE_SHA \<and> stage4_text s (dir @ [''results.tsv'']) = Inr results \<and>
     contains (''full_all_verified'' @ [CHR 0x09] @ ''2064'' @ [CHR 0x09] @ ''PASS'' @ [CHR 0x09] @ IMAGE_SHA) results)"

definition objects_evidence :: "(byte list \<Rightarrow> string) \<Rightarrow> fs \<Rightarrow> path \<Rightarrow> path \<Rightarrow> bool" where
  "objects_evidence sha256 s dir producers \<longleftrightarrow> (\<exists>owners table hs.
     stage4_owners s (dir @ [''full-objects.txt'']) = Inr owners \<and> length owners = 2064 \<and>
     stage4_manifest s (dir @ [''minic-manifest.sha256'']) = Inr table \<and> set owners = set (keys table) \<and>
     list_all (\<lambda>i. is_dir s (shard_path producers i)) [0..<7] \<and>
     list_all2 (\<lambda>i h. produced sha256 s (shard_path producers i) i h) [0..<7] hs \<and> mset (concat hs) = mset table)"

definition writable :: "fs \<Rightarrow> path \<Rightarrow> bool" where
  "writable s p \<longleftrightarrow> write_bytes [] p s \<noteq> None"

lemma write_bytes_writable: "(\<exists>s'. write_bytes b p s = Some s') \<longleftrightarrow> writable s p"
  by (auto simp: writable_def write_bytes_def split: option.splits node.splits)

lemma right_compiler_ok:
  "right_compiler sha256 s rv64 report = Inr True \<longleftrightarrow> has_digest sha256 s rv64 COMPILER_SHA \<and> (\<exists>d linked. report = JObj d \<and>
     map_of d ''round'' = Some (JStr ''stage4'') \<and> map_of d ''passed'' = Some (JInt 77) \<and> (\<exists>v. map_of d ''failed'' = Some v \<and> \<not> truthy v) \<and>
     map_of d ''linked'' = Some (JObj linked) \<and> length linked = 9 \<and> map_of linked ''minic-cc'' = Some (JStr COMPILER_SHA))"
proof -
  have item: "item v k = Inr w \<longleftrightarrow> (\<exists>d. v = JObj d \<and> map_of d k = Some w)" for v k w by (cases v) (auto simp: item_def resE)
  have linked: "(\<exists>n. json_len l = Inr n \<and> (if n \<noteq> 9 then Inr False else bindE (item l ''minic-cc'') (\<lambda>sha. Inr (sha = JStr COMPILER_SHA))) = Inr True) \<longleftrightarrow>
      (\<exists>d. l = JObj d \<and> length d = 9 \<and> map_of d ''minic-cc'' = Some (JStr COMPILER_SHA))" for l
    by (cases l) (auto simp: json_len_def bindE_Inr_iff item split: if_splits)
  show ?thesis
    unfolding right_compiler_def
    by (cases report) (auto simp: bindE_Inr_iff item linked split: if_splits)
qed

lemma union_table:
  assumes "distinct (keys table)"
  shows "distinct (keys c) \<and> dict_eq c table \<longleftrightarrow> mset c = mset table"
proof
  assume c: "distinct (keys c) \<and> dict_eq c table"
  then have "map_of c = map_of table" using dict_eq_iff assms by blast
  then have "set c = set table" using c assms by (simp add: map_of_inject_set)
  then show "mset c = mset table" using c assms by (metis distinct_map set_eq_iff_mset_eq_distinct)
next
  assume ms: "mset c = mset table"
  then have d: "distinct (keys c)" using assms by (metis mset_eq_imp_distinct_iff mset_map)
  moreover have "map_of c = map_of table" using ms d assms by (metis map_of_inject_set set_mset_mset)
  ultimately show "distinct (keys c) \<and> dict_eq c table" using dict_eq_iff [OF d assms] by blast
qed

lemma counted_table:
  assumes "distinct (keys table)" and "distinct owners" and "set owners = set (keys table)"
  shows "length table = length owners"
  using assms by (metis distinct_card length_map)

lemma owners_distinct: "stage4_owners s p = Inr names \<Longrightarrow> distinct names"
  by (auto simp: stage4_owners_def Let_def bindE_Inr_iff require_ok)

lemma compiler_ok: "stage4_compiler sha256 loads s native = Inr u \<longleftrightarrow> compiler_evidence sha256 loads s native"
proof -
  have "(\<exists>right. x = Inr right \<and> right) \<longleftrightarrow> x = Inr True" for x :: "py_error + bool" by auto
  then show ?thesis by (auto simp: stage4_compiler_def compiler_evidence_def bindE_Inr_iff require_ok right_compiler_ok)
qed

lemma boot_ok: "stage4_boot sha256 s dir = Inr u \<longleftrightarrow> boot_evidence sha256 s dir"
  unfolding stage4_boot_def boot_evidence_def bindE_Inr_iff require_ok foldE_require by blast

lemma shards_ok:
  "(\<exists>rest. foldE (add_shard sha256 s producers) ([], [], []) [0..<7] = Inr (c, rest)) \<longleftrightarrow>
      list_all (\<lambda>i. is_dir s (shard_path producers i)) [0..<7] \<and>
      (\<exists>hs. list_all2 (\<lambda>i h. produced sha256 s (shard_path producers i) i h) [0..<7] hs \<and> c = concat hs \<and> distinct (keys c))"
  using add_shards_ok [of "[]" sha256 s producers "[]" "[]" "[0..<7]" c] by simp

lemma objects_ok: "(\<exists>acc. stage4_objects sha256 s dir producers = Inr acc) \<longleftrightarrow> objects_evidence sha256 s dir producers"
proof
  assume "\<exists>acc. stage4_objects sha256 s dir producers = Inr acc"
  then obtain owners table c rest where l: "stage4_owners s (dir @ [''full-objects.txt'']) = Inr owners" "length owners = 2064"
    "stage4_manifest s (dir @ [''minic-manifest.sha256'']) = Inr table" "set owners = set (keys table)"
    "foldE (add_shard sha256 s producers) ([], [], []) [0..<7] = Inr (c, rest)" "dict_eq c table"
    unfolding stage4_objects_def bindE_Inr_iff require_ok by auto
  from shards_ok [of sha256 s producers c] l(5) obtain hs where hs: "list_all (\<lambda>i. is_dir s (shard_path producers i)) [0..<7]"
    "list_all2 (\<lambda>i h. produced sha256 s (shard_path producers i) i h) [0..<7] hs" "c = concat hs" "distinct (keys c)" by blast
  then have "mset (concat hs) = mset table" using union_table [OF manifest_distinct [OF l(3)], of c] l(6) by simp
  with l hs show "objects_evidence sha256 s dir producers" unfolding objects_evidence_def by blast
next
  assume "objects_evidence sha256 s dir producers"
  then obtain owners table hs where r: "stage4_owners s (dir @ [''full-objects.txt'']) = Inr owners" "length owners = 2064"
    "stage4_manifest s (dir @ [''minic-manifest.sha256'']) = Inr table" "set owners = set (keys table)"
    "list_all (\<lambda>i. is_dir s (shard_path producers i)) [0..<7]"
    "list_all2 (\<lambda>i h. produced sha256 s (shard_path producers i) i h) [0..<7] hs" "mset (concat hs) = mset table"
    unfolding objects_evidence_def by blast
  have c: "distinct (keys (concat hs))" "dict_eq (concat hs) table" using union_table [OF manifest_distinct [OF r(3)], of "concat hs"] r(7) by blast+
  have "length table = 2064" using counted_table [OF manifest_distinct [OF r(3)] owners_distinct [OF r(1)] r(4)] r(2) by simp
  moreover obtain rest where "foldE (add_shard sha256 s producers) ([], [], []) [0..<7] = Inr (concat hs, rest)"
    using shards_ok [of sha256 s producers "concat hs"] r(5,6) c(1) by blast
  ultimately show "\<exists>acc. stage4_objects sha256 s dir producers = Inr acc"
    unfolding stage4_objects_def bindE_Inr_iff require_ok using r(1-4) c(2) by auto
qed

text \<open>
  C16. The receipt is written exactly when its file can be written and the evidence is complete: the compiler and the report of its build are the
  expected ones; there are 2064 owners without duplicates; the seven producers, in which every owner has a dispatch to the compiler and an object with the digest of its
  table (below the directory \<^verbatim>\<open>minic\<close> of the producer, or, for an owner with an absolute name, at that name), have tables that together, entry by entry and each once, are the table of the receiver; and the boot of the image with the expected digest passed.
\<close>
theorem stage4_receipt_exact:
  "(\<exists>out. stage4_run sha256 loads s receiver producers native output = Inr out) \<longleftrightarrow>
   compiler_evidence sha256 loads s native \<and> objects_evidence sha256 s (receipt_dir receiver) producers \<and>
   boot_evidence sha256 s (receipt_dir receiver) \<and> writable s output"
proof -
  have ok: "(\<exists>u. m = Inr u) \<longleftrightarrow> m = Inr ()" for m :: "py_error + unit" by auto
  have "(\<exists>out. stage4_run sha256 loads s receiver producers native output = Inr out) \<longleftrightarrow> stage4_compiler sha256 loads s native = Inr () \<and>
      (\<exists>acc. stage4_objects sha256 s (receipt_dir receiver) producers = Inr acc) \<and> stage4_boot sha256 s (receipt_dir receiver) = Inr () \<and> writable s output"
    by (auto simp: stage4_run_def receipt_dir_def Let_def bindE_Inr_iff of_option_Inr_iff) (metis write_bytes_writable)+
  then show ?thesis by (simp only: compiler_ok objects_ok boot_ok)
qed

end
