(* ===== verification/TextPatch.thy ===== *)
theory TextPatch
  imports FileStore TextLines PyRepr
begin

text \<open>
  What the scripts that patch the C sources have in common: reading and writing a source as text, the helpers that replace one occurrence of an anchor
  (\<^verbatim>\<open>replace_once\<close>, \<^verbatim>\<open>replace_in_region\<close>), and the ways in which a script keeps itself from being applied twice.

  A script is a sequence of stages.  The locale \<open>resumable\<close> states what a stage promises; a sequence of such stages can be run again after it was
  finished, and after it was stopped by an anchor that is missing, without any effect.
\<close>

section \<open>Occurrences\<close>

text \<open>\<^verbatim>\<open>text.find(p)\<close>, with \<^const>\<open>None\<close> for -1, and \<^verbatim>\<open>text.find(p, i)\<close> for a position inside of the text.\<close>

fun find_text :: "string \<Rightarrow> string \<Rightarrow> nat option" where
  "find_text p [] = (if p = [] then Some 0 else None)"
| "find_text p (c # s) = (if startswith (c # s) p then Some 0 else map_option Suc (find_text p s))"

definition find_from :: "string \<Rightarrow> string \<Rightarrow> nat \<Rightarrow> nat option" where
  [py_defs]: "find_from p s i = map_option (\<lambda>k. i + k) (find_text p (drop i s))"

text \<open>\<^verbatim>\<open>text.count(p)\<close>: occurrences that do not overlap.\<close>

function count_text :: "string \<Rightarrow> string \<Rightarrow> nat" where
  "count_text p s =
     (if p = [] then Suc (length s)
      else case find_text p s of None \<Rightarrow> 0 | Some i \<Rightarrow> Suc (count_text p (drop (i + length p) s)))"
  by pat_completeness auto
termination
proof (relation "measure (\<lambda>(p, s). length s)")
  fix p s :: string and i assume "p \<noteq> []" "find_text p s = Some i"
  then have "s \<noteq> []" by (cases s) auto
  with \<open>p \<noteq> []\<close> show "((p, drop (i + length p) s), (p, s)) \<in> measure (\<lambda>(p, s). length s)" by simp
qed simp

declare count_text.simps [simp del]

text \<open>\<^verbatim>\<open>text.replace(old, new, 1)\<close>\<close>

definition replace_first :: "string \<Rightarrow> string \<Rightarrow> string \<Rightarrow> string" where
  [py_defs]: "replace_first old new s =
     (case find_text old s of None \<Rightarrow> s | Some i \<Rightarrow> take i s @ new @ drop (i + length old) s)"

section \<open>Files as text\<close>

definition read_text :: "path \<Rightarrow> fs \<Rightarrow> py_error + string" where
  [py_defs]: "read_text p s =
     bindE (of_option (OSError (join ''/'' p)) (read_bytes s p)) (\<lambda>b.
     bindE (of_option (ValueError ''utf-8'') (decode_utf8 b)) (\<lambda>t. Inr (universal_newlines t)))"

definition write_text :: "path \<Rightarrow> string \<Rightarrow> fs \<Rightarrow> py_error + fs" where
  [py_defs]: "write_text p t s = of_option (OSError (join ''/'' p)) (write_bytes (encode_utf8 t) p s)"

section \<open>The helpers\<close>

text \<open>\<^verbatim>\<open>replace_once\<close> on a text; \<open>problem\<close> is the message for a number of anchors.\<close>

definition replace_once :: "(string \<Rightarrow> string) \<Rightarrow> string \<Rightarrow> string \<Rightarrow> string \<Rightarrow> py_error + string" where
  [py_defs]: "replace_once problem text old new =
     (let n = count_text old text in
      if n \<noteq> 1 then Inl (SystemExit (problem (str_int (int n)))) else Inr (replace_first old new text))"

definition replace_in_region :: "string \<Rightarrow> string \<Rightarrow> string \<Rightarrow> string \<Rightarrow> string \<Rightarrow> string \<Rightarrow> py_error + string" where
  [py_defs]: "replace_in_region text opening closing old new name =
     bindE (of_option (SystemExit (''M89 '' @ name @ '' region begin missing'')) (find_text opening text)) (\<lambda>b.
     bindE (of_option (SystemExit (''M89 '' @ name @ '' region end missing'')) (find_from closing text (b + length opening))) (\<lambda>e.
     bindE (replace_once (\<lambda>n. ''M89 '' @ name @ '' region anchor count='' @ n) (drop b (take e text)) old new) (\<lambda>region.
     Inr (take b text @ region @ drop e text))))"

section \<open>Where an anchor is replaced\<close>

lemma find_text_None: "find_text p s = None \<longleftrightarrow> \<not> contains p s"
  by (induction s) auto

lemma find_text_split:
  "find_text p s = Some i \<Longrightarrow> \<exists>y. s = take i s @ p @ y \<and> i + length p \<le> length s \<and> drop (i + length p) s = y"
proof (induction s arbitrary: i)
  case (Cons c s)
  show ?case
  proof (cases "startswith (c # s) p")
    case True
    then obtain y where y: "c # s = p @ y" by (auto simp: startswith_iff)
    moreover have "i = 0" using True Cons.prems by simp
    ultimately show ?thesis using arg_cong [OF y, of length] by simp
  next
    case False
    with Cons.prems obtain k where k: "find_text p s = Some k" "i = Suc k" by auto
    from Cons.IH [OF k(1)] k(2) show ?thesis by auto
  qed
qed (auto split: if_splits)

lemma not_contains_butlast: "p \<noteq> [] \<Longrightarrow> \<not> contains p (butlast p)"
proof
  assume "p \<noteq> []" "contains p (butlast p)"
  then obtain a b where "butlast p = a @ p @ b" by (auto simp: contains_iff)
  then have "length (butlast p) = length a + length p + length b" by simp
  with \<open>p \<noteq> []\<close> show False by (cases p rule: rev_cases) auto
qed

lemma find_text_first:
  "p \<noteq> [] \<Longrightarrow> find_text p (x @ p @ y) = Some (length x) \<longleftrightarrow> \<not> contains p (x @ butlast p)"
proof (induction x)
  case Nil
  have "find_text p (p @ y) = Some 0" if "p \<noteq> []"
    using that by (cases p) (simp_all add: startswith_def)
  with not_contains_butlast Nil show ?case by simp
next
  case (Cons c x)
  have "startswith (c # x @ butlast p) p \<longleftrightarrow> startswith (c # x @ p @ y) p"
  proof -
    have "take (length p) (c # x @ butlast p) = take (length p) (c # x @ p @ y)"
      using Cons.prems by (cases p rule: rev_cases) (auto simp: take_Cons' take_append)
    then show ?thesis by (simp add: startswith_def)
  qed
  with Cons show ?case by auto
qed

lemma find_text_iff:
  assumes "p \<noteq> []"
  shows "find_text p s = Some i \<longleftrightarrow> (\<exists>x y. s = x @ p @ y \<and> i = length x \<and> \<not> contains p (x @ butlast p))"
proof
  assume "find_text p s = Some i"
  moreover from find_text_split [OF this] obtain y where "s = take i s @ p @ y" "i = length (take i s)" by auto
  ultimately show "\<exists>x y. s = x @ p @ y \<and> i = length x \<and> \<not> contains p (x @ butlast p)"
    using find_text_first [OF assms, of "take i s" y] by metis
qed (use find_text_first [OF assms] in auto)

lemma count_text_zero: "p \<noteq> [] \<Longrightarrow> count_text p s = 0 \<longleftrightarrow> \<not> contains p s"
  by (subst count_text.simps) (auto simp: find_text_None [symmetric] split: option.splits)

lemma count_text_one:
  assumes "p \<noteq> []"
  shows "count_text p s = 1 \<longleftrightarrow> (\<exists>i. find_text p s = Some i \<and> \<not> contains p (drop (i + length p) s))"
  using assms by (subst count_text.simps) (auto simp: count_text_zero split: option.splits)

text \<open>The anchor is found once: \<open>x\<close> is what stands before it, \<open>y\<close> what follows.\<close>

definition anchored :: "string \<Rightarrow> string \<Rightarrow> string \<Rightarrow> string \<Rightarrow> bool" where
  "anchored old text x y \<longleftrightarrow> text = x @ old @ y \<and> \<not> contains old (x @ butlast old) \<and> \<not> contains old y"

lemma anchored_find: "old \<noteq> [] \<Longrightarrow> anchored old text x y \<Longrightarrow> find_text old text = Some (length x)"
  by (auto simp: anchored_def find_text_first)

lemma anchored_iff:
  assumes "old \<noteq> []"
  shows "count_text old text = 1 \<longleftrightarrow> (\<exists>x y. anchored old text x y)"
proof
  assume "count_text old text = 1"
  then obtain i where i: "find_text old text = Some i" "\<not> contains old (drop (i + length old) text)"
    using count_text_one [OF assms] by auto
  then obtain x y where "text = x @ old @ y" "i = length x" "\<not> contains old (x @ butlast old)" using find_text_iff [OF assms] by auto
  with i(2) show "\<exists>x y. anchored old text x y" by (auto simp: anchored_def)
next
  assume "\<exists>x y. anchored old text x y"
  then obtain x y where a: "anchored old text x y" by auto
  with anchored_find [OF assms a] show "count_text old text = 1"
    unfolding count_text_one [OF assms] by (auto simp: anchored_def)
qed

lemma anchored_replace: "old \<noteq> [] \<Longrightarrow> anchored old text x y \<Longrightarrow> replace_first old new text = x @ new @ y"
  by (frule (1) anchored_find) (auto simp: replace_first_def anchored_def)

lemma replace_once_anchored:
  assumes "old \<noteq> []"
  shows "replace_once problem text old new = Inr t \<longleftrightarrow> (\<exists>x y. anchored old text x y \<and> t = x @ new @ y)"
proof
  assume "replace_once problem text old new = Inr t"
  then have "count_text old text = 1" "t = replace_first old new text" by (auto simp: replace_once_def Let_def split: if_splits)
  then show "\<exists>x y. anchored old text x y \<and> t = x @ new @ y" using anchored_iff [OF assms] anchored_replace [OF assms] by metis
next
  assume "\<exists>x y. anchored old text x y \<and> t = x @ new @ y"
  then obtain x y where a: "anchored old text x y" "t = x @ new @ y" by auto
  then have "count_text old text = 1" using anchored_iff [OF assms] by blast
  with a show "replace_once problem text old new = Inr t" by (simp add: replace_once_def anchored_replace [OF assms])
qed

lemma replace_once_empty: "replace_once problem text [] new = Inr t \<longleftrightarrow> text = [] \<and> t = new"
  by (auto simp: replace_once_def Let_def count_text.simps replace_first_def startswith_def)

lemma replace_once_error:
  "replace_once problem text old new = Inl e \<longleftrightarrow> count_text old text \<noteq> 1 \<and> e = SystemExit (problem (str_int (int (count_text old text))))"
  by (auto simp: replace_once_def Let_def)

section \<open>What an edit leaves in place\<close>

text \<open>\<open>apart x y\<close>: an occurrence of \<open>x\<close> and an occurrence of \<open>y\<close> in a text have no character in common.\<close>

definition meets :: "string \<Rightarrow> string \<Rightarrow> bool" where
  "meets x y \<longleftrightarrow> list_ex (\<lambda>k. startswith y (drop k x)) [0..<length x]"

definition apart :: "string \<Rightarrow> string \<Rightarrow> bool" where
  "apart x y \<longleftrightarrow> \<not> contains x y \<and> \<not> contains y x \<and> \<not> meets x y \<and> \<not> meets y x"

lemma meets_iff: "meets x y \<longleftrightarrow> (\<exists>a b c. x = a @ b \<and> b \<noteq> [] \<and> y = b @ c)"
proof
  assume "meets x y"
  then obtain k c where "k < length x" "y = drop k x @ c" by (auto simp: meets_def list_ex_iff startswith_iff)
  then have "x = take k x @ drop k x \<and> drop k x \<noteq> [] \<and> y = drop k x @ c" by simp
  then show "\<exists>a b c. x = a @ b \<and> b \<noteq> [] \<and> y = b @ c" by blast
next
  assume "\<exists>a b c. x = a @ b \<and> b \<noteq> [] \<and> y = b @ c"
  then obtain a b c where "x = a @ b" "b \<noteq> []" "y = b @ c" by auto
  then show "meets x y" by (auto simp: meets_def list_ex_iff startswith_iff intro!: bexI [of _ "length a"])
qed

lemma append_cases:
  assumes "a @ b = c @ (d :: 'a list)"
  obtains w where "c = a @ w" "b = w @ d" | w where "a = c @ w" "d = w @ b"
  using assms by (auto simp: append_eq_append_conv2)

lemma contains_context: "contains p y \<Longrightarrow> contains p (x @ y @ z)"
proof -
  assume "contains p y"
  then obtain a b where "x @ y @ z = (x @ a) @ p @ (b @ z)" by (auto simp: contains_iff)
  then show ?thesis unfolding contains_iff by blast
qed

lemma apart_survives:
  assumes "apart x old" and "contains x (u @ old @ v)"
  shows "contains x u \<or> contains x v"
proof -
  obtain a b where eq: "u @ old @ v = a @ x @ b" using assms(2) by (auto simp: contains_iff)
  have sep: "\<not> contains x old" "\<not> contains old x" "\<not> meets x old" "\<not> meets old x" using assms(1) by (auto simp: apart_def)
  from eq show ?thesis
  proof (cases rule: append_cases)
    case (1 w)
    from 1(2) show ?thesis
    proof (cases rule: append_cases)
      case (1 z)
      then show ?thesis unfolding contains_iff by blast
    next
      case (2 z)
      from 2(2) show ?thesis
      proof (cases rule: append_cases)
        case (1 y)
        with 2(1) sep(1) show ?thesis using contains_iff by blast
      next
        case y: (2 y)
        with 2(1) sep(4) have "z = []" unfolding meets_iff by blast
        with y have "v = [] @ x @ b" by simp
        then show ?thesis unfolding contains_iff by blast
      qed
    qed
  next
    case (2 w)
    from 2(2) show ?thesis
    proof (cases rule: append_cases)
      case (1 z)
      with 2(1) show ?thesis unfolding contains_iff by blast
    next
      case z: (2 z)
      from z(2) show ?thesis
      proof (cases rule: append_cases)
        case (1 y)
        with z(1) sep(2) show ?thesis using contains_iff by blast
      next
        case (2 y)
        with z(1) sep(3) have "z = []" unfolding meets_iff by blast
        with z(1) \<open>u = a @ w\<close> have "u = a @ x @ []" by simp
        then show ?thesis unfolding contains_iff by blast
      qed
    qed
  qed
qed

lemma contains_left: "contains p x \<Longrightarrow> contains p (x @ y)"
  using contains_context [of p x "[]" y] by simp

lemma contains_right: "contains p y \<Longrightarrow> contains p (x @ y)"
  using contains_context [of p y x "[]"] by simp

text \<open>
  Texts given by their lines.  What has no line feed is found within a line, and two such texts are apart when the first line of either is in no line
  of the other.
\<close>

definition unlines :: "string list \<Rightarrow> string" where
  [py_defs]: "unlines ls = concat (map (\<lambda>l. l @ ''\<newline>'') ls)"

lemma unlines_append: "unlines (xs @ ys) = unlines xs @ unlines ys"
  by (simp add: unlines_def)

lemma unlines_Cons: "unlines (l # ls) = l @ CHR 0x0A # unlines ls"
  by (simp add: unlines_def)

lemma unlines_Nil_iff: "unlines ls = [] \<longleftrightarrow> ls = []"
  by (cases ls) (simp_all add: unlines_def)

lemma unlines_clean: "list_all (\<lambda>l. CHR 0x0D \<notin> set l) ls \<Longrightarrow> CHR 0x0D \<notin> set (unlines ls)"
  by (auto simp: unlines_def list_all_iff)

lemma contains_break:
  assumes "d \<notin> set p" "p \<noteq> []"
  shows "contains p (x @ d # y) \<longleftrightarrow> contains p x \<or> contains p y"
proof
  assume "contains p (x @ d # y)"
  then obtain a b where "x @ d # y = a @ p @ b" by (auto simp: contains_iff)
  then show "contains p x \<or> contains p y"
  proof (cases rule: append_cases)
    case (1 w)
    show ?thesis
    proof (cases w)
      case Nil
      with 1 assms show ?thesis by (cases p) auto
    next
      case (Cons e v)
      with 1 have "y = v @ p @ b" by simp
      then show ?thesis unfolding contains_iff by blast
    qed
  next
    case (2 w)
    from 2(2) show ?thesis
    proof (cases rule: append_cases)
      case (1 z)
      with 2(1) show ?thesis unfolding contains_iff by blast
    next
      case (2 z)
      with assms have "z = []" by (cases z) auto
      with 2(1) \<open>x = a @ w\<close> have "x = a @ p @ []" by simp
      then show ?thesis unfolding contains_iff by blast
    qed
  qed
qed (use contains_left contains_right [of p y "x @ [d]"] in auto)

lemma contains_unlines:
  assumes "CHR 0x0A \<notin> set p" "p \<noteq> []"
  shows "contains p (unlines ls) \<longleftrightarrow> list_ex (contains p) ls"
proof (induction ls)
  case (Cons l ls)
  then show ?case using contains_break [OF assms] by (simp add: unlines_Cons)
qed (use assms(2) in \<open>simp add: unlines_def\<close>)

lemma contains_line: "l \<in> set ls \<Longrightarrow> contains p l \<Longrightarrow> contains p (unlines ls)"
proof (induction ls)
  case (Cons x ls)
  then show ?case using contains_right [of p "unlines ls" "x @ ''\<newline>''"] by (auto simp: unlines_Cons contains_left)
qed simp

lemma ends_with_break: "a @ b = unlines ls \<Longrightarrow> b \<noteq> [] \<Longrightarrow> \<exists>c. b = c @ ''\<newline>''"
proof (induction ls rule: rev_induct)
  case (snoc l ls)
  then have "last b = CHR 0x0A" by (metis append_is_Nil_conv concat.simps last_appendR last_snoc list.distinct(1) list.map unlines_Cons unlines_append unlines_def)
  with snoc.prems(2) show ?case by (metis append_butlast_last_id)
qed (simp add: unlines_def)

lemma unlines_start:
  assumes "CHR 0x0A \<notin> set l" "unlines (l # ls) = b @ c" "b = b' @ ''\<newline>''"
  shows "contains l b"
proof -
  from assms(2) have "l @ CHR 0x0A # unlines ls = b @ c" by (simp add: unlines_Cons)
  then show ?thesis
  proof (cases rule: append_cases)
    case (1 w)
    then show ?thesis by (auto simp: contains_iff intro: exI [of _ "[]"])
  next
    case (2 w)
    with assms(1,3) show ?thesis by simp
  qed
qed

lemma startswith_simps: "startswith s [] = True" "startswith [] (c # p) = False" "startswith (d # s) (c # p) = (d = c \<and> startswith s p)"
  by (auto simp: startswith_def)

lemma contains_trans: "contains k x \<Longrightarrow> contains x s \<Longrightarrow> contains k s"
  using contains_context by (force simp: contains_iff [of x s])

text \<open>\<open>k\<close> and \<open>m\<close> are pieces of the first lines by which the two texts are told apart.\<close>

lemma apart_unlines:
  assumes "CHR 0x0A \<notin> set x" "CHR 0x0A \<notin> set y" "k \<noteq> []" "m \<noteq> []"
    and key: "contains k x" "contains m y"
    and no: "list_all (\<lambda>l. \<not> contains k l) (y # ys)" "list_all (\<lambda>l. \<not> contains m l) (x # xs)"
  shows "apart (unlines (x # xs)) (unlines (y # ys))"
proof -
  have clean: "CHR 0x0A \<notin> set k" "CHR 0x0A \<notin> set m" using assms(1,2) key by (auto simp: contains_iff)
  have not_in: "\<not> contains k (unlines (y # ys))" "\<not> contains m (unlines (x # xs))"
    using no contains_unlines [OF clean(1) assms(3)] contains_unlines [OF clean(2) assms(4)] by (auto simp: list_all_iff list_ex_iff)
  have part: "\<not> contains (unlines (f # fs)) g" if "\<not> contains n g" "contains n f" for f fs g n
  proof
    assume "contains (unlines (f # fs)) g"
    moreover have "contains n (unlines (f # fs))" using that(2) by (simp add: unlines_Cons contains_left)
    ultimately show False using contains_trans that(1) by blast
  qed
  have meet: "\<not> meets (unlines (f # fs)) (unlines (g # gs))"
    if "\<not> contains n (unlines (f # fs))" "contains n g" "CHR 0x0A \<notin> set g" for f fs g gs n
  proof
    assume "meets (unlines (f # fs)) (unlines (g # gs))"
    then obtain a b c where abc: "unlines (f # fs) = a @ b" "b \<noteq> []" "unlines (g # gs) = b @ c" unfolding meets_iff by blast
    obtain b' where "b = b' @ ''\<newline>''" using ends_with_break [OF abc(1) [symmetric] abc(2)] by blast
    from unlines_start [OF that(3) abc(3) this] have "contains g (a @ b)" by (rule contains_right)
    with that(1,2) abc(1) contains_trans show False by metis
  qed
  show ?thesis
    using part [OF not_in(1) key(1)] part [OF not_in(2) key(2)] meet [OF not_in(1) key(1) assms(1)] meet [OF not_in(2) key(2) assms(2)]
    by (simp add: apart_def)
qed

lemma apart_marker:
  assumes "CHR 0x0A \<notin> set m" "k \<noteq> []" "contains k m" "list_all (\<lambda>l. \<not> contains k l) (y # ys)" "hd (unlines (y # ys)) \<notin> set m"
  shows "apart m (unlines (y # ys))"
proof -
  have "CHR 0x0A \<notin> set k" using assms(1,3) by (auto simp: contains_iff)
  then have "\<not> contains k (unlines (y # ys))" using contains_unlines assms(2,4) by (auto simp: list_all_iff list_ex_iff)
  then have "\<not> contains m (unlines (y # ys))" using contains_trans assms(3) by blast
  moreover have "\<not> contains (unlines (y # ys)) m" using assms(1) by (auto simp: contains_iff unlines_Cons)
  moreover have "\<not> meets m (unlines (y # ys))"
  proof
    assume "meets m (unlines (y # ys))"
    then obtain a b c where "m = a @ b" "b \<noteq> []" "unlines (y # ys) = b @ c" unfolding meets_iff by blast
    with assms(5) show False by (cases b) auto
  qed
  moreover have "\<not> meets (unlines (y # ys)) m"
  proof
    assume "meets (unlines (y # ys)) m"
    then obtain a b c where abc: "unlines (y # ys) = a @ b" "b \<noteq> []" "m = b @ c" unfolding meets_iff by blast
    with ends_with_break [OF abc(1) [symmetric] abc(2)] assms(1) show False by auto
  qed
  ultimately show ?thesis by (simp add: apart_def)
qed

text \<open>\<open>leaves p old new\<close>: an edit that replaces \<open>old\<close> by \<open>new\<close> keeps \<open>p\<close> in the text, because it brings it or does not touch it.\<close>

definition leaves :: "string \<Rightarrow> string \<Rightarrow> string \<Rightarrow> bool" where
  "leaves p old new \<longleftrightarrow> contains p new \<or> apart p old"

lemma leaves_replaced: "leaves p old new \<Longrightarrow> contains p (x @ old @ y) \<Longrightarrow> contains p (x @ new @ y)"
  using apart_survives [of p old x y] by (auto simp: leaves_def contains_left contains_right intro: contains_context)

text \<open>Some occurrence of \<open>old\<close> became \<open>new\<close>.\<close>

definition edited :: "string \<Rightarrow> string \<Rightarrow> string \<Rightarrow> string \<Rightarrow> bool" where
  "edited old new text t \<longleftrightarrow> (\<exists>x y. text = x @ old @ y \<and> t = x @ new @ y)"

lemma edited_leaves: "edited old new text t \<Longrightarrow> leaves p old new \<Longrightarrow> contains p text \<Longrightarrow> contains p t"
  using leaves_replaced by (auto simp: edited_def)

lemma edited_brings: "edited old new text t \<Longrightarrow> contains p new \<Longrightarrow> contains p t"
  by (auto simp: edited_def intro: contains_context)

lemma edited_set: "edited old new text t \<Longrightarrow> c \<notin> set text \<Longrightarrow> c \<notin> set new \<Longrightarrow> c \<notin> set t"
  by (auto simp: edited_def)

lemma replace_once_edited: "old \<noteq> [] \<Longrightarrow> replace_once problem text old new = Inr t \<Longrightarrow> edited old new text t"
  unfolding replace_once_anchored by (auto simp: edited_def anchored_def)

lemma edited_context: "edited old new text t \<Longrightarrow> edited old new (x @ text @ y) (x @ t @ y)"
  unfolding edited_def by (metis append.assoc)

lemma region_split:
  assumes "find_text opening text = Some b" and "find_from closing text (b + length opening) = Some e"
  shows "text = take b text @ drop b (take e text) @ drop e text"
proof -
  have "b \<le> e" using assms(2) by (auto simp: find_from_def)
  then have "take b (take e text) = take b text" by (simp add: min_absorb1)
  with append_take_drop_id [of b "take e text"] have "take b text @ drop b (take e text) = take e text" by simp
  then have "(take b text @ drop b (take e text)) @ drop e text = text" by simp
  then show ?thesis by simp
qed

lemma replace_in_region_edited:
  assumes "old \<noteq> []" and "replace_in_region text opening closing old new name = Inr t"
  shows "edited old new text t"
proof -
  obtain b e region where r: "find_text opening text = Some b" "find_from closing text (b + length opening) = Some e"
      "replace_once (\<lambda>n. ''M89 '' @ name @ '' region anchor count='' @ n) (drop b (take e text)) old new = Inr region"
      "t = take b text @ region @ drop e text"
    using assms(2) by (auto simp: replace_in_region_def resE)
  have "edited old new (take b text @ drop b (take e text) @ drop e text) t"
    unfolding r(4) by (rule edited_context [OF replace_once_edited [OF assms(1) r(3)]])
  then show ?thesis by (simp only: region_split [OF r(1,2), symmetric])
qed

section \<open>Writing a file that was read\<close>

lemma resolve_file_update:
  assumes "s q = Some (FileN b)" "q \<noteq> []"
  shows "resolve_from strict n (s(q \<mapsto> FileN c)) acc xs = resolve_from strict n s acc xs"
proof -
  define t where "t = s(q \<mapsto> FileN c)"
  have same: "node_at t x = node_at s x \<or> node_at t x = Some (FileN c) \<and> node_at s x = Some (FileN b)" for x
    using assms by (auto simp: node_at_def t_def)
  show ?thesis unfolding t_def [symmetric]
  proof (induction n arbitrary: acc xs rule: less_induct)
    case (less n)
    show ?case
    proof (induction xs arbitrary: acc)
      case Nil
      have "node_at t acc = None \<longleftrightarrow> node_at s acc = None" using same [of acc] by auto
      then show ?case by (simp only: resolve_from.simps(1))
    next
      case (Cons x xs)
      have dir: "node_at t acc = Some DirN \<longleftrightarrow> node_at s acc = Some DirN" using same [of acc] by auto
      consider "node_at t (acc @ [x]) = node_at s (acc @ [x])"
        | "node_at t (acc @ [x]) = Some (FileN c)" "node_at s (acc @ [x]) = Some (FileN b)" using same [of "acc @ [x]"] by blast
      then show ?case
        by cases (simp_all only: resolve_from.simps(2) dir Cons.IH less.IH lessI option.case node.case cong: option.case_cong node.case_cong nat.case_cong)
    qed
  qed
qed

lemma locate_file_update: "s q = Some (FileN b) \<Longrightarrow> q \<noteq> [] \<Longrightarrow> locate (s(q \<mapsto> FileN c)) p = locate s p"
  by (simp add: locate_def resolve_file_update)

lemma write_read_file:
  assumes "read_bytes s p = Some b"
  obtains t where "write_bytes c p s = Some t" "\<And>q. locate t q = locate s q"
    "\<And>q. read_bytes t q = (if locate s q = locate s p then Some c else read_bytes s q)"
proof -
  obtain f where f: "locate s p = Some f" "node_at s f = Some (FileN b)"
    using assms by (auto simp: read_bytes_def stat_def split: option.splits node.splits)
  then have at_f: "s f = Some (FileN b)" "f \<noteq> []" by (auto simp: node_at_def split: if_splits)
  define t where "t = s(f \<mapsto> FileN c)"
  have loc: "locate t q = locate s q" for q unfolding t_def by (rule locate_file_update [of s f b, OF at_f])
  moreover have "read_bytes t q = (if locate s q = locate s p then Some c else read_bytes s q)" for q
  proof -
    have "node_at t x = (if x = f then Some (FileN c) else node_at s x)" for x using at_f by (simp add: t_def node_at_def)
    then show ?thesis by (cases "locate s q") (simp_all add: read_bytes_def stat_def loc f(1))
  qed
  moreover have "write_bytes c p s = Some t" using f by (simp add: write_bytes_def t_def)
  ultimately show ?thesis using that by blast
qed

lemma read_text_alias: "read_text p s = Inr v \<Longrightarrow> read_text q s = Inr w \<Longrightarrow> locate s p = locate s q \<Longrightarrow> v = w"
  by (auto simp: read_text_def read_bytes_def stat_def resE)

lemma read_text_clean: "read_text p s = Inr t \<Longrightarrow> CHR 0x0D \<notin> set t"
  using universal_newlines_clean by (auto simp: read_text_def resE)

text \<open>Writing to a file that was read succeeds, and changes what is read through every name of that file and of no other.\<close>

lemma write_read_text:
  assumes "read_text p s = Inr text" and "CHR 0x0D \<notin> set u"
  obtains t where "write_text p u s = Inr t" "\<And>q. locate t q = locate s q"
    "\<And>q. read_text q t = (if locate s q = locate s p then Inr u else read_text q s)"
proof -
  obtain b where b: "read_bytes s p = Some b" using assms(1) by (auto simp: read_text_def resE)
  obtain t where t: "write_bytes (encode_utf8 u) p s = Some t" "\<And>q. locate t q = locate s q"
      "\<And>q. read_bytes t q = (if locate s q = locate s p then Some (encode_utf8 u) else read_bytes s q)"
    by (rule write_read_file [OF b, of "encode_utf8 u"]) blast
  have "read_text q t = (if locate s q = locate s p then Inr u else read_text q s)" for q
    using t(3) [of q] by (simp add: read_text_def decode_encode universal_newlines_id [OF assms(2)])
  with t that show ?thesis by (simp add: write_text_def)
qed

section \<open>Scripts as sequences of stages\<close>

text \<open>
  A stage reads and writes files and ends with the lines it prints, or raises.  \<open>run_stages\<close> carries the lines printed so far; the result is the
  status 0 of \<^verbatim>\<open>main\<close>.
\<close>

type_synonym stage = "(fs, py_error, string list) prog"
type_synonym script_outcome = "fs \<times> string list \<times> (py_error + int)"

fun run_stages :: "stage list \<Rightarrow> fs \<Rightarrow> string list \<Rightarrow> script_outcome" where
  "run_stages [] s out = (s, out, Inr 0)"
| "run_stages (m # ms) s out =
     (case m s of (t, Inl e) \<Rightarrow> (t, out, Inl e) | (t, Inr printed) \<Rightarrow> run_stages ms t (out @ printed))"

text \<open>A stage that reads a file, edits the text and writes it, unless a marker says that it was edited before.\<close>

definition marked_stage :: "string \<Rightarrow> path \<Rightarrow> (string \<Rightarrow> py_error + string) \<Rightarrow> string list \<Rightarrow> string list \<Rightarrow> stage" where
  [py_defs]: "marked_stage marker p edit already applied =
     bindP (readP (read_text p)) (\<lambda>text.
     if contains marker text then retP already
     else bindP (readP (\<lambda>_. edit text)) (\<lambda>u. bindP (putP (write_text p u)) (\<lambda>_. retP applied)))"

text \<open>
  What a stage promises: an exception leaves the files as they were, a finished stage has established its goal, a stage whose goal holds does
  nothing, and no stage of the script undoes the goal of another one.
\<close>

locale resumable =
  fixes stage :: "'i \<Rightarrow> stage" and goal :: "'i \<Rightarrow> fs \<Rightarrow> bool" and I :: "'i set"
  assumes raises_unchanged: "i \<in> I \<Longrightarrow> stage i s = (t, Inl e) \<Longrightarrow> t = s"
    and reaches_goal: "i \<in> I \<Longrightarrow> stage i s = (t, Inr out) \<Longrightarrow> goal i t"
    and nothing_to_do: "i \<in> I \<Longrightarrow> goal i s \<Longrightarrow> \<exists>out. stage i s = (s, Inr out)"
    and goal_stays: "i \<in> I \<Longrightarrow> j \<in> I \<Longrightarrow> goal i s \<Longrightarrow> stage j s = (t, Inr out) \<Longrightarrow> goal i t"
begin

lemma run_keeps:
  assumes "i \<in> I"
  shows "set is \<subseteq> I \<Longrightarrow> goal i s \<Longrightarrow> run_stages (map stage is) s out = (t, out', r) \<Longrightarrow> goal i t"
proof (induction "is" arbitrary: s out)
  case (Cons j "is")
  obtain u q where st: "stage j s = (u, q)" by (cases "stage j s")
  show ?case
  proof (cases q)
    case (Inl e)
    with st have "u = s" using raises_unchanged [of j s u e] Cons.prems(1) by simp
    with st Inl Cons.prems show ?thesis by simp
  next
    case (Inr printed)
    with st Cons.prems(1,2) assms have "goal i u" using goal_stays [of i j s u printed] by simp
    with st Inr Cons show ?thesis by simp
  qed
qed simp

text \<open>A second run ends as the first one did and changes no file.\<close>

theorem run_again:
  "set is \<subseteq> I \<Longrightarrow> run_stages (map stage is) s out = (t, out', r) \<Longrightarrow> \<exists>out''. run_stages (map stage is) t out2 = (t, out'', r)"
proof (induction "is" arbitrary: s out out2)
  case (Cons i "is")
  obtain u q where st: "stage i s = (u, q)" by (cases "stage i s")
  show ?case
  proof (cases q)
    case (Inl e)
    with st have "u = s" using raises_unchanged [of i s u e] Cons.prems(1) by simp
    with st Inl Cons.prems(2) show ?thesis by auto
  next
    case (Inr printed)
    with st Cons.prems have run: "run_stages (map stage is) u (out @ printed) = (t, out', r)" by simp
    have "goal i u" using reaches_goal [of i s u printed] st Inr Cons.prems(1) by simp
    then have "goal i t" using run_keeps [OF _ _ _ run] Cons.prems(1) by simp
    then obtain more where "stage i t = (t, Inr more)" using nothing_to_do Cons.prems(1) by force
    then show ?thesis using Cons.IH [OF _ run, of "out2 @ more"] Cons.prems(1) by simp
  qed
qed simp

theorem finished_goals:
  "set is \<subseteq> I \<Longrightarrow> run_stages (map stage is) s out = (t, out', Inr c) \<Longrightarrow> i \<in> set is \<Longrightarrow> goal i t"
proof (induction "is" arbitrary: s out)
  case (Cons j "is")
  obtain u printed where st: "stage j s = (u, Inr printed)" "run_stages (map stage is) u (out @ printed) = (t, out', Inr c)"
    using Cons.prems(2) by (auto split: prod.splits sum.splits)
  have "goal j u" using reaches_goal [OF _ st(1)] Cons.prems(1) by simp
  then have "goal j t" using run_keeps [OF _ _ _ st(2)] Cons.prems(1) by simp
  with Cons.IH [OF _ st(2)] Cons.prems(1,3) show ?case by auto
qed simp

end

section \<open>Stages with a marker\<close>

definition marked :: "string \<Rightarrow> path \<Rightarrow> fs \<Rightarrow> bool" where
  "marked marker p s \<longleftrightarrow> (\<exists>text. read_text p s = Inr text \<and> contains marker text)"

lemma marked_stage_cases:
  assumes "marked_stage marker p edit already applied s = (t, r)"
    and "\<And>text u. edit text = Inr u \<Longrightarrow> CHR 0x0D \<notin> set text \<Longrightarrow> CHR 0x0D \<notin> set u"
  obtains (raised) e where "r = Inl e" "t = s"
  | (before) "r = Inr already" "t = s" "marked marker p s"
  | (now) v u where "r = Inr applied" "read_text p s = Inr v" "edit v = Inr u"
      "\<And>q. read_text q t = (if locate s q = locate s p then Inr u else read_text q s)"
proof (cases "read_text p s")
  case (Inl e)
  with assms(1) raised show ?thesis by (auto simp: marked_stage_def bindP_readP)
next
  case (Inr v)
  note read = Inr
  show ?thesis
  proof (cases "contains marker v")
    case True
    with read assms(1) before show ?thesis by (auto simp: marked_stage_def bindP_readP retP_def marked_def)
  next
    case False
    show ?thesis
    proof (cases "edit v")
      case (Inl e)
      with read False assms(1) raised show ?thesis by (auto simp: marked_stage_def bindP_readP)
    next
      case (Inr u)
      have "CHR 0x0D \<notin> set u" using assms(2) [OF Inr read_text_clean [OF read]] .
      then obtain w where w: "write_text p u s = Inr w" "\<And>q. read_text q w = (if locate s q = locate s p then Inr u else read_text q s)"
        using write_read_text [OF read] by metis
      with read False Inr assms(1) have "r = Inr applied" "t = w"
        by (auto simp: marked_stage_def bindP_readP bindP_putP retP_def)
      with w Inr read now show ?thesis by blast
    qed
  qed
qed

text \<open>
  A script with one marker and one edit for each of its files.  Every edit brings the marker with it.
\<close>

locale marked_script =
  fixes marker :: string and p :: "'i \<Rightarrow> path" and edit :: "'i \<Rightarrow> string \<Rightarrow> py_error + string" and already applied :: "'i \<Rightarrow> string list"
  assumes brings_marker: "edit i text = Inr u \<Longrightarrow> contains marker u"
    and no_returns: "edit i text = Inr u \<Longrightarrow> CHR 0x0D \<notin> set text \<Longrightarrow> CHR 0x0D \<notin> set u"

sublocale marked_script \<subseteq> resumable "\<lambda>i. marked_stage marker (p i) (edit i) (already i) (applied i)" "\<lambda>i. marked marker (p i)" UNIV
proof
  fix i j s t e out
  show "t = s" if "marked_stage marker (p i) (edit i) (already i) (applied i) s = (t, Inl e)"
    using that by (rule marked_stage_cases) (use no_returns in auto)
  show "marked marker (p i) t" if "marked_stage marker (p i) (edit i) (already i) (applied i) s = (t, Inr out)"
    using that by (rule marked_stage_cases) (use no_returns brings_marker in \<open>auto simp: marked_def\<close>)
  show "\<exists>out. marked_stage marker (p i) (edit i) (already i) (applied i) s = (s, Inr out)" if "marked marker (p i) s"
    using that by (auto simp: marked_def marked_stage_def bindP_readP retP_def)
  show "marked marker (p i) t" if "marked marker (p i) s" and "marked_stage marker (p j) (edit j) (already j) (applied j) s = (t, Inr out)"
    using that(2) by (rule marked_stage_cases) (use no_returns brings_marker that(1) in \<open>auto simp: marked_def\<close>)
qed

section \<open>Stages that look for the new text itself\<close>

text \<open>
  \<^verbatim>\<open>replace_once(path, old, new)\<close> of the batches: nothing to do where the new text is there.
\<close>

definition guarded_replace :: "path \<times> string \<times> string \<Rightarrow> stage" where
  [py_defs]: "guarded_replace e = (case e of (p, old, new) \<Rightarrow>
     marked_stage new p
       (\<lambda>v. replace_once (\<lambda>n. join ''/'' p @ '': expected one anchor, found '' @ n @ '': '' @ repr_str (take 120 old)) v old new) [] [])"

text \<open>The new text of one edit stays in place whichever edit of the script comes after it.\<close>

definition compatible :: "(path \<times> string \<times> string) list \<Rightarrow> bool" where
  "compatible es \<longleftrightarrow> list_all (\<lambda>(p, old, new). old \<noteq> [] \<and> CHR 0x0D \<notin> set new \<and> list_all (\<lambda>(q, old', new'). leaves new old' new') es) es"

locale guarded_script =
  fixes edits :: "(path \<times> string \<times> string) list"
  assumes compatible_edits: "compatible edits"
begin

lemma guarded_run_cases:
  assumes "guarded_replace (p, old, new) s = (t, r)" and "(p, old, new) \<in> set edits"
  obtains (raised) e where "r = Inl e" "t = s"
  | (before) "r = Inr []" "t = s" "marked new p s"
  | (now) v u where "r = Inr []" "read_text p s = Inr v" "edited old new v u"
      "\<And>q. read_text q t = (if locate s q = locate s p then Inr u else read_text q s)"
proof -
  have old: "old \<noteq> []" "CHR 0x0D \<notin> set new" using compatible_edits assms(2) by (auto simp: compatible_def list_all_iff)
  note ed = replace_once_edited [OF old(1)]
  from assms(1) show ?thesis unfolding guarded_replace_def prod.case
    by (rule marked_stage_cases) (use ed edited_set old(2) that in blast)+
qed

end

sublocale guarded_script \<subseteq> resumable guarded_replace "\<lambda>(p, old, new). marked new p" "set edits"
proof
  fix i j :: "path \<times> string \<times> string" and s t e out
  obtain p old new where i: "i = (p, old, new)" by (cases i)
  obtain q old' new' where j: "j = (q, old', new')" by (cases j)
  show "t = s" if "i \<in> set edits" "guarded_replace i s = (t, Inl e)"
    using that(2) [unfolded i] that(1) [unfolded i] by (rule guarded_run_cases) auto
  show "(case i of (p, old, new) \<Rightarrow> marked new p) t" if "i \<in> set edits" "guarded_replace i s = (t, Inr out)"
    using that(2) [unfolded i] that(1) [unfolded i]
  proof (rule guarded_run_cases)
    fix v u assume "edited old new v u" "\<And>q. read_text q t = (if locate s q = locate s p then Inr u else read_text q s)"
    then show ?thesis using edited_brings [of old new v u new] i by (simp add: marked_def contains_iff) (metis append_Nil append_Nil2)
  qed (simp_all add: i)
  show "\<exists>out. guarded_replace i s = (s, Inr out)" if "i \<in> set edits" "(case i of (p, old, new) \<Rightarrow> marked new p) s"
    using that(2) by (auto simp: i marked_def guarded_replace_def marked_stage_def bindP_readP retP_def)
  show "(case i of (p, old, new) \<Rightarrow> marked new p) t"
    if in_i: "i \<in> set edits" and in_j: "j \<in> set edits" and goal_i: "(case i of (p, old, new) \<Rightarrow> marked new p) s"
      and run: "guarded_replace j s = (t, Inr out)"
    using run [unfolded j] in_j [unfolded j]
  proof (rule guarded_run_cases)
    fix v u assume vu: "read_text q s = Inr v" "edited old' new' v u" "\<And>x. read_text x t = (if locate s x = locate s q then Inr u else read_text x s)"
    have "leaves new old' new'" using compatible_edits in_i in_j unfolding i j by (auto simp: compatible_def list_all_iff)
    moreover obtain w where w: "read_text p s = Inr w" "contains new w" using goal_i by (auto simp: i marked_def)
    moreover have "w = v" if "locate s p = locate s q" using read_text_alias [OF w(1) vu(1) that] .
    ultimately show ?thesis using edited_leaves [OF vu(2)] vu(3) by (auto simp: i marked_def)
  qed (use goal_i in auto)
qed

section \<open>Scripts that write everything at the end\<close>

text \<open>
  An edit by the name of a file.  The texts are a dictionary; the files are written when all edits have been made.
\<close>

type_synonym named_edit = "string \<times> string \<times> string \<times> string"

definition edit_named :: "(string \<times> string) list \<Rightarrow> named_edit \<Rightarrow> py_error + (string \<times> string) list" where
  [py_defs]: "edit_named texts e = (case e of (name, old, new, label) \<Rightarrow>
     bindE (of_option (KeyError name) (map_of texts name)) (\<lambda>v.
     bindE (replace_once (\<lambda>n. label @ '': expected exactly one anchor, found '' @ n) v old new) (\<lambda>u.
     Inr (AList.update name u texts))))"

definition read_named :: "string \<times> path \<Rightarrow> (fs, py_error, string \<times> string) prog" where
  [py_defs]: "read_named e = bindP (readP (read_text (snd e))) (\<lambda>v. retP (fst e, v))"

text \<open>
  A write can fail although the file was read: the file cannot be opened, or what is written ends early and the file is left with
  the first bytes of the text.  \<open>faults\<close> says what becomes of the write to a file.
\<close>

datatype write_fault = Unopened | Torn nat

type_synonym faults = "string \<Rightarrow> write_fault option"

definition no_faults :: faults where
  [py_defs]: "no_faults name = None"

definition write_faulty :: "write_fault option \<Rightarrow> path \<Rightarrow> string \<Rightarrow> (fs, py_error, unit) prog" where
  [py_defs]: "write_faulty fault p v s =
     (case fault of
        None \<Rightarrow> putP (write_text p v) s
      | Some Unopened \<Rightarrow> (s, Inl (OSError (join ''/'' p)))
      | Some (Torn n) \<Rightarrow>
          (case write_bytes (take n (encode_utf8 v)) p s of
             None \<Rightarrow> (s, Inl (OSError (join ''/'' p)))
           | Some t \<Rightarrow> (t, Inl (OSError (join ''/'' p)))))"

definition write_named :: "faults \<Rightarrow> (string \<times> string) list \<Rightarrow> string \<times> path \<Rightarrow> (fs, py_error, unit) prog" where
  [py_defs]: "write_named faults texts e =
     bindP (readP (\<lambda>_. of_option (KeyError (fst e)) (map_of texts (fst e)))) (\<lambda>v. write_faulty (faults (fst e)) (snd e) v)"

definition transaction_with :: "faults \<Rightarrow> string \<Rightarrow> string \<Rightarrow> (string \<times> path) list \<Rightarrow> named_edit list \<Rightarrow> string list \<Rightarrow> string list \<Rightarrow> stage" where
  [py_defs]: "transaction_with faults title marker files edits already applied =
     bindP (mapP read_named files) (\<lambda>texts.
     let state = map (\<lambda>(name, v). (name, contains marker v)) texts in
     if list_all snd state then retP already
     else if list_ex snd state then failP (SystemExit (''partial '' @ title @ '' state: '' @ py_repr (JObj (map (\<lambda>(name, b). (name, JBool b)) state))))
     else
       bindP (readP (\<lambda>_. foldE edit_named texts edits)) (\<lambda>texts.
       bindP (mapP (write_named faults texts) files) (\<lambda>_. retP applied)))"

text \<open>The script when every write to a file that was read succeeds.\<close>

definition transaction :: "string \<Rightarrow> string \<Rightarrow> (string \<times> path) list \<Rightarrow> named_edit list \<Rightarrow> string list \<Rightarrow> string list \<Rightarrow> stage" where
  [py_defs]: "transaction = transaction_with no_faults"

text \<open>Every file gets the marker by one of its edits, and the later ones leave it there.\<close>

fun gets_marker :: "string \<Rightarrow> string \<Rightarrow> named_edit list \<Rightarrow> bool" where
  "gets_marker marker name [] = False"
| "gets_marker marker name ((n, old, new, label) # es) =
     (n = name \<and> contains marker new \<and> list_all (\<lambda>(n', old', new', label'). n' = name \<longrightarrow> leaves marker old' new') es \<or> gets_marker marker name es)"

definition marking :: "string \<Rightarrow> (string \<times> path) list \<Rightarrow> named_edit list \<Rightarrow> bool" where
  "marking marker files edits \<longleftrightarrow>
     list_all (\<lambda>(name, p). gets_marker marker name edits) files \<and> list_all (\<lambda>(n, old, new, label). old \<noteq> [] \<and> CHR 0x0D \<notin> set new) edits"

lemma edit_named_Inr:
  assumes "edit_named texts (name, old, new, label) = Inr out" "old \<noteq> []"
  obtains v u where "map_of texts name = Some v" "edited old new v u" "out = AList.update name u texts"
proof -
  obtain v problem u where v: "map_of texts name = Some v" "replace_once problem v old new = Inr u" "out = AList.update name u texts"
    using assms(1) unfolding edit_named_def prod.case bindE_Inr_iff of_option_Inr_iff by blast
  from replace_once_edited [OF assms(2) v(2)] v(1,3) that show ?thesis by blast
qed

lemma edits_keep:
  assumes "foldE edit_named texts edits = Inr out" and "list_all (\<lambda>(n, old, new, label). old \<noteq> []) edits"
    and "list_all (\<lambda>(n, old, new, label). n = name \<longrightarrow> leaves marker old new) edits"
    and "map_of texts name = Some v" and "contains marker v"
  shows "\<exists>w. map_of out name = Some w \<and> contains marker w"
  using assms
proof (induction edits arbitrary: texts v)
  case (Cons e edits)
  obtain n old new label where e: "e = (n, old, new, label)" by (cases e) auto
  with Cons.prems obtain mid where mid: "edit_named texts (n, old, new, label) = Inr mid" "foldE edit_named mid edits = Inr out" "old \<noteq> []"
    by (auto simp: resE)
  from mid(1,3) obtain x u where x: "map_of texts n = Some x" "edited old new x u" "mid = AList.update n u texts" by (rule edit_named_Inr)
  have "\<exists>v'. map_of mid name = Some v' \<and> contains marker v'"
    using x Cons.prems(3-5) e edited_leaves [OF x(2), of marker] by (cases "n = name") (auto simp: update_conv')
  with Cons.IH [OF mid(2)] Cons.prems(2,3) e show ?case by auto
qed auto

lemma edits_mark:
  assumes "foldE edit_named texts edits = Inr out" and "list_all (\<lambda>(n, old, new, label). old \<noteq> []) edits" and "gets_marker marker name edits"
  shows "\<exists>w. map_of out name = Some w \<and> contains marker w"
  using assms
proof (induction edits arbitrary: texts)
  case (Cons e edits)
  obtain n old new label where e: "e = (n, old, new, label)" by (cases e) auto
  with Cons.prems obtain mid where mid: "edit_named texts (n, old, new, label) = Inr mid" "foldE edit_named mid edits = Inr out" "old \<noteq> []"
    by (auto simp: resE)
  show ?case
  proof (cases "gets_marker marker name edits")
    case True
    with Cons.IH [OF mid(2)] Cons.prems(2) show ?thesis by simp
  next
    case False
    with Cons.prems(3) e have here: "n = name" "contains marker new" "list_all (\<lambda>(n, old, new, label). n = name \<longrightarrow> leaves marker old new) edits" by auto
    from mid(1,3) obtain x u where x: "map_of texts n = Some x" "edited old new x u" "mid = AList.update n u texts" by (rule edit_named_Inr)
    then have "map_of mid name = Some u" "contains marker u" using here edited_brings by (auto simp: update_conv')
    moreover have "list_all (\<lambda>(n, old, new, label). old \<noteq> []) edits" using Cons.prems(2) by (auto simp: list_all_iff)
    ultimately show ?thesis using edits_keep [OF mid(2) _ here(3)] by blast
  qed
qed simp

lemma edits_clean:
  assumes "foldE edit_named texts edits = Inr out" and "list_all (\<lambda>(n, old, new, label). old \<noteq> [] \<and> CHR 0x0D \<notin> set new) edits"
    and "\<forall>v \<in> ran (map_of texts). CHR 0x0D \<notin> set v"
  shows "\<forall>v \<in> ran (map_of out). CHR 0x0D \<notin> set v"
  using assms
proof (induction edits arbitrary: texts)
  case (Cons e edits)
  obtain n old new label where e: "e = (n, old, new, label)" by (cases e) auto
  with Cons.prems obtain mid where mid: "edit_named texts (n, old, new, label) = Inr mid" "foldE edit_named mid edits = Inr out" "old \<noteq> []"
      "CHR 0x0D \<notin> set new" by (auto simp: resE)
  from mid(1,3) obtain x u where x: "map_of texts n = Some x" "edited old new x u" "mid = AList.update n u texts" by (rule edit_named_Inr)
  have "CHR 0x0D \<notin> set x" using Cons.prems(3) x(1) by (auto simp: ran_def)
  then have "CHR 0x0D \<notin> set u" by (rule edited_set [OF x(2) _ mid(4)])
  then have "\<forall>v \<in> ran (map_of mid). CHR 0x0D \<notin> set v" using Cons.prems(3) x(3) by (auto simp: update_conv' ran_def)
  with Cons.IH [OF mid(2)] Cons.prems(2) show ?case by simp
qed simp

lemma list_all2_in_left: "list_all2 P xs ys \<Longrightarrow> x \<in> set xs \<Longrightarrow> \<exists>y \<in> set ys. P x y"
  by (induction rule: list_all2_induct) auto

lemma list_all2_in_right: "list_all2 P xs ys \<Longrightarrow> y \<in> set ys \<Longrightarrow> \<exists>x \<in> set xs. P x y"
  by (induction rule: list_all2_induct) auto

lemma read_named_Cons:
  "mapP read_named (e # files) s =
     (case read_text (snd e) s of Inl x \<Rightarrow> (s, Inl x)
      | Inr v \<Rightarrow> (case mapP read_named files s of (t, Inl x) \<Rightarrow> (t, Inl x) | (t, Inr vs) \<Rightarrow> (t, Inr ((fst e, v) # vs))))"
proof -
  have "read_named e s = (case read_text (snd e) s of Inl x \<Rightarrow> (s, Inl x) | Inr v \<Rightarrow> (s, Inr (fst e, v)))"
    by (simp add: read_named_def [of e] bindP_readP retP_def split: sum.splits)
  then show ?thesis by (simp add: bindP_def retP_def split: sum.splits prod.splits)
qed

lemma read_named_all:
  "mapP read_named files s = (t, r) \<Longrightarrow>
   t = s \<and> (\<forall>texts. r = Inr texts \<longrightarrow> map fst texts = map fst files \<and> list_all2 (\<lambda>e v. read_text (snd e) s = Inr (snd v)) files texts)"
proof (induction files arbitrary: r t)
  case (Cons e files)
  show ?case
  proof (cases "read_text (snd e) s")
    case (Inl x)
    with Cons.prems show ?thesis by (auto simp: read_named_Cons simp del: mapP.simps)
  next
    case (Inr v)
    obtain t' r' where m: "mapP read_named files s = (t', r')" by (cases "mapP read_named files s")
    from Cons.IH [OF m] m Inr Cons.prems show ?thesis
      by (cases r') (auto simp: read_named_Cons simp del: mapP.simps)
  qed
qed (simp add: retP_def)

text \<open>
  The writes came to file number \<open>i\<close>, whose write failed: the files before it have the marker, and no other file has changed than these
  and, when it could be opened, file \<open>i\<close>.  Two names can be links to one file, so files are compared by where they lie.
\<close>

definition same_place :: "fs \<Rightarrow> path \<Rightarrow> path \<Rightarrow> bool" where
  "same_place s p q \<longleftrightarrow> locate s p = locate s q"

definition interrupted :: "string \<Rightarrow> (string \<times> path) list \<Rightarrow> faults \<Rightarrow> nat \<Rightarrow> fs \<Rightarrow> fs \<Rightarrow> bool" where
  "interrupted marker files faults i s t \<longleftrightarrow> i < length files \<and> faults (fst (files ! i)) \<noteq> None \<and>
     (\<forall>j < i. same_place s (snd (files ! j)) (snd (files ! i)) \<or> marked marker (snd (files ! j)) t) \<and>
     (\<forall>q. (\<exists>k < (if faults (fst (files ! i)) = Some Unopened then i else Suc i). same_place s q (snd (files ! k))) \<or> read_bytes t q = read_bytes s q)"

lemma write_marked:
  assumes "read_text p s = Inr w" and "contains marker v" and "CHR 0x0D \<notin> set v"
  obtains t where "write_text p v s = Inr t" "\<And>q. locate t q = locate s q" "\<And>q. same_place s q p \<or> read_bytes t q = read_bytes s q"
    "\<And>q. read_text q t = (if same_place s q p then Inr v else read_text q s)"
proof -
  obtain b where b: "read_bytes s p = Some b" using assms(1) by (auto simp: read_text_def resE)
  obtain t where t: "write_bytes (encode_utf8 v) p s = Some t" "\<And>q. locate t q = locate s q"
      "\<And>q. read_bytes t q = (if locate s q = locate s p then Some (encode_utf8 v) else read_bytes s q)"
    by (rule write_read_file [OF b, of "encode_utf8 v"]) blast
  have "read_text q t = (if same_place s q p then Inr v else read_text q s)" for q
    using t(3) [of q] by (simp add: read_text_def same_place_def decode_encode universal_newlines_id [OF assms(3)])
  with t that show ?thesis by (simp add: write_text_def same_place_def)
qed

text \<open>Marked texts are written to files that were read: all of them, or up to a write that fails.\<close>

lemma write_named_all:
  assumes "\<forall>e \<in> set files. \<exists>v. map_of texts (fst e) = Some v \<and> contains marker v \<and> CHR 0x0D \<notin> set v"
  shows "\<forall>e \<in> set files. \<exists>v. read_text (snd e) s = Inr v \<Longrightarrow>
    \<exists>t. (\<exists>out. mapP (write_named faults texts) files s = (t, Inr out) \<and> (\<forall>e \<in> set files. marked marker (snd e) t) \<and> (\<forall>p. marked marker p s \<longrightarrow> marked marker p t)) \<or>
      (\<exists>e i. mapP (write_named faults texts) files s = (t, Inl e) \<and> interrupted marker files faults i s t \<and>
         (\<forall>p. marked marker p s \<longrightarrow> same_place s p (snd (files ! i)) \<or> marked marker p t))"
  using assms
proof (induction files arbitrary: s)
  case (Cons e files)
  obtain v where v: "map_of texts (fst e) = Some v" "contains marker v" "CHR 0x0D \<notin> set v" using Cons.prems(2) by auto
  obtain w where w: "read_text (snd e) s = Inr w" using Cons.prems(1) by auto
  have run: "write_named faults texts e s = write_faulty (faults (fst e)) (snd e) v s"
    using v(1) by (simp add: write_named_def bindP_readP)
  show ?case
  proof (cases "faults (fst e)")
    case (Some fault)
    obtain t err where t: "write_faulty (Some fault) (snd e) v s = (t, Inl err)"
      "\<And>q. (same_place s q (snd e) \<and> fault \<noteq> Unopened) \<or> read_bytes t q = read_bytes s q"
    proof (cases fault)
      case Unopened
      then show ?thesis using that [of s] by (simp add: write_faulty_def)
    next
      case (Torn n)
      obtain b where "read_bytes s (snd e) = Some b" using w by (auto simp: read_text_def resE)
      then obtain u where "write_bytes (take n (encode_utf8 v)) (snd e) s = Some u"
        "\<And>q. read_bytes u q = (if locate s q = locate s (snd e) then Some (take n (encode_utf8 v)) else read_bytes s q)"
        by (rule write_read_file [where c = "take n (encode_utf8 v)"]) blast
      with Torn that [of u] show ?thesis by (simp add: write_faulty_def same_place_def)
    qed
    have "mapP (write_named faults texts) (e # files) s = (t, Inl err)" using run Some t(1) by (simp add: bindP_def)
    moreover have "interrupted marker (e # files) faults 0 s t" using Some t(2) by (auto simp: interrupted_def)
    moreover have "same_place s p (snd e) \<or> marked marker p t" if "marked marker p s" for p
      using that t(2) [of p] by (auto simp: marked_def read_text_def)
    ultimately show ?thesis by (metis nth_Cons_0)
  next
    case None
    obtain t where t: "write_text (snd e) v s = Inr t" "\<And>q. locate t q = locate s q" "\<And>q. same_place s q (snd e) \<or> read_bytes t q = read_bytes s q"
        "\<And>q. read_text q t = (if same_place s q (snd e) then Inr v else read_text q s)"
      by (rule write_marked [OF w v(2,3)]) blast
    have place: "same_place t = same_place s" by (intro ext) (simp add: same_place_def t(2))
    have stays: "marked marker p t" if "marked marker p s" for p using that t(4) v(2) by (auto simp: marked_def)
    have here: "marked marker (snd e) t" using t(4) v(2) by (auto simp: marked_def same_place_def)
    have step: "mapP (write_named faults texts) (e # files) s =
        (case mapP (write_named faults texts) files t of (u, Inl x) \<Rightarrow> (u, Inl x) | (u, Inr ys) \<Rightarrow> (u, Inr (() # ys)))"
      using t(1) run None by (simp add: write_faulty_def bindP_def putP_def retP_def split: sum.splits prod.splits)
    have "\<forall>e \<in> set files. \<exists>v. read_text (snd e) t = Inr v" using Cons.prems(1) t(4) by simp
    moreover have "\<forall>e \<in> set files. \<exists>v. map_of texts (fst e) = Some v \<and> contains marker v \<and> CHR 0x0D \<notin> set v" using Cons.prems(2) by simp
    ultimately consider (all) u out where "mapP (write_named faults texts) files t = (u, Inr out)" "\<forall>e \<in> set files. marked marker (snd e) u"
        "\<forall>p. marked marker p t \<longrightarrow> marked marker p u"
      | (stop) u x i where "mapP (write_named faults texts) files t = (u, Inl x)" "interrupted marker files faults i t u"
        "\<forall>p. marked marker p t \<longrightarrow> same_place t p (snd (files ! i)) \<or> marked marker p u"
      using Cons.IH [of t] by blast
    then show ?thesis
    proof cases
      case all
      then have "mapP (write_named faults texts) (e # files) s = (u, Inr (() # out))" using step by simp
      with all stays here show ?thesis by auto
    next
      case stop
      have "mapP (write_named faults texts) (e # files) s = (u, Inl x)" using stop(1) step by simp
      moreover have "interrupted marker (e # files) faults (Suc i) s u"
      proof -
        note int = stop(2) [unfolded interrupted_def place]
        have before: "same_place s (snd ((e # files) ! j)) (snd (files ! i)) \<or> marked marker (snd ((e # files) ! j)) u" if "j < Suc i" for j
          using int stop(3) here that unfolding place by (cases j) auto
        have other: "(\<exists>k < (if faults (fst (files ! i)) = Some Unopened then Suc i else Suc (Suc i)). same_place s q (snd ((e # files) ! k))) \<or>
            read_bytes u q = read_bytes s q" for q
        proof (cases "same_place s q (snd e)")
          case True
          then show ?thesis by (intro disjI1 exI [of _ 0]) simp
        next
          case False
          then have "read_bytes t q = read_bytes s q" using t(3) by blast
          moreover have "(\<exists>k < (if faults (fst (files ! i)) = Some Unopened then i else Suc i). same_place s q (snd (files ! k))) \<or> read_bytes u q = read_bytes t q"
            using int by blast
          moreover have "(\<exists>k < (if faults (fst (files ! i)) = Some Unopened then Suc i else Suc (Suc i)). same_place s q (snd ((e # files) ! k)))"
            if "k < (if faults (fst (files ! i)) = Some Unopened then i else Suc i)" "same_place s q (snd (files ! k))" for k
            using that by (intro exI [of _ "Suc k"]) (simp split: if_splits)
          ultimately show ?thesis by auto
        qed
        show ?thesis using int before other by (simp add: interrupted_def)
      qed
      moreover have "\<forall>p. marked marker p s \<longrightarrow> same_place s p (snd ((e # files) ! Suc i)) \<or> marked marker p u"
        using stop(3) stays unfolding place by simp
      ultimately show ?thesis by blast
    qed
  qed
qed (simp add: retP_def)

locale atomic_script =
  fixes title marker :: string and files :: "(string \<times> path) list" and edits :: "named_edit list" and already applied :: "string list"
  assumes marking: "marking marker files edits"
begin

lemma transaction_with_cases:
  assumes "transaction_with faults title marker files edits already applied s = (t, r)"
  obtains (raised) e where "r = Inl e" "t = s"
  | (before) "r = Inr already" "t = s" "\<forall>e \<in> set files. marked marker (snd e) s"
  | (now) "r = Inr applied" "\<forall>e \<in> set files. marked marker (snd e) t"
  | (broken) e i where "r = Inl e" "interrupted marker files faults i s t"
proof -
  obtain s' q where rd: "mapP read_named files s = (s', q)" by (cases "mapP read_named files s")
  note all = read_named_all [OF rd]
  show ?thesis
  proof (cases q)
    case (Inl e)
    with all rd assms raised show ?thesis by (auto simp: transaction_with_def bindP_def)
  next
    case (Inr texts)
    with all have texts: "s' = s" "map fst texts = map fst files" "list_all2 (\<lambda>e v. read_text (snd e) s = Inr (snd v)) files texts" by auto
    define state where "state = map (\<lambda>(name, v). (name, contains marker v)) texts"
    note unfolded = assms [unfolded transaction_with_def bindP_def rd Inr texts(1) prod.case sum.case Let_def state_def [symmetric]]
    consider "list_all snd state" | "\<not> list_all snd state" "list_ex snd state" | "\<not> list_all snd state" "\<not> list_ex snd state" by blast
    then show ?thesis
    proof cases
      case 1
      then have "\<forall>e \<in> set files. marked marker (snd e) s"
        using list_all2_in_left [OF texts(3)] by (fastforce simp: state_def list_all_iff marked_def)
      with 1 unfolded before show ?thesis by (simp add: retP_def)
    next
      case 2
      with unfolded raised show ?thesis by (auto simp: failP_def simp del: append.simps)
    next
      case 3
      show ?thesis
      proof (cases "foldE edit_named texts edits")
        case (Inl e)
        with 3 unfolded raised show ?thesis by (auto simp: readP_def)
      next
        case (Inr out)
        have ok: "\<forall>e \<in> set files. \<exists>v. read_text (snd e) s = Inr v"
          using list_all2_in_left [OF texts(3)] by blast
        have "\<forall>v \<in> ran (map_of texts). CHR 0x0D \<notin> set v" 
        proof
          fix v assume "v \<in> ran (map_of texts)"
          then obtain n where "(n, v) \<in> set texts" using map_of_SomeD by (force simp: ran_def)
          then obtain p where "read_text p s = Inr v" using list_all2_in_right [OF texts(3)] by fastforce
          then show "CHR 0x0D \<notin> set v" by (rule read_text_clean)
        qed
        then have clean: "\<forall>v \<in> ran (map_of out). CHR 0x0D \<notin> set v"
          using edits_clean [OF Inr] marking by (simp add: marking_def)
        have "\<forall>e \<in> set files. \<exists>v. map_of out (fst e) = Some v \<and> contains marker v \<and> CHR 0x0D \<notin> set v"
        proof
          fix e assume "e \<in> set files"
          then have "gets_marker marker (fst e) edits" "list_all (\<lambda>(n, old, new, label). old \<noteq> []) edits"
            using marking by (auto simp: marking_def list_all_iff)
          then obtain v where "map_of out (fst e) = Some v" "contains marker v" using edits_mark [OF Inr] by blast
          with clean show "\<exists>v. map_of out (fst e) = Some v \<and> contains marker v \<and> CHR 0x0D \<notin> set v" by (auto simp: ran_def)
        qed
        then consider u x where "mapP (write_named faults out) files s = (u, Inr x)" "\<forall>e \<in> set files. marked marker (snd e) u"
          | u x i where "mapP (write_named faults out) files s = (u, Inl x)" "interrupted marker files faults i s u"
          using write_named_all [of files out marker s faults] ok by blast
        then show ?thesis
        proof cases
          case (1 u x)
          with 3 Inr unfolded now show ?thesis by (simp add: readP_def retP_def)
        next
          case (2 u x i)
          with 3 Inr unfolded have "r = Inl x" "t = u" by (simp_all add: readP_def)
          with 2 broken show ?thesis by blast
        qed
      qed
    qed
  qed
qed

lemma transaction_cases:
  assumes "transaction title marker files edits already applied s = (t, r)"
  obtains (raised) e where "r = Inl e" "t = s"
  | (before) "r = Inr already" "t = s" "\<forall>e \<in> set files. marked marker (snd e) s"
  | (now) "r = Inr applied" "\<forall>e \<in> set files. marked marker (snd e) t"
  using assms unfolding transaction_def
  by (cases rule: transaction_with_cases) (auto simp: interrupted_def no_faults_def)

end

sublocale atomic_script \<subseteq> resumable "\<lambda>_ :: unit. transaction title marker files edits already applied"
  "\<lambda>_ s. \<forall>e \<in> set files. marked marker (snd e) s" UNIV
proof
  fix s t e out
  show "t = s" if "transaction title marker files edits already applied s = (t, Inl e)"
    using that by (rule transaction_cases) auto
  show "\<forall>e \<in> set files. marked marker (snd e) t" if "transaction title marker files edits already applied s = (t, Inr out)"
    using that by (rule transaction_cases) auto
  show "\<exists>out. transaction title marker files edits already applied s = (s, Inr out)" if all: "\<forall>e \<in> set files. marked marker (snd e) s"
  proof -
    have "\<exists>texts. mapP read_named files s = (s, Inr texts) \<and> list_all (\<lambda>(n, v). contains marker v) texts"
      using all by (induction files) (auto simp: read_named_Cons marked_def retP_def simp del: mapP.simps(2))
    then obtain texts where texts: "mapP read_named files s = (s, Inr texts)" "list_all (\<lambda>(n, v). contains marker v) texts" by blast
    have "list_all snd (map (\<lambda>(name, v). (name, contains marker v)) texts)" using texts(2) by (auto simp: list_all_iff)
    with texts(1) show ?thesis by (simp add: transaction_def transaction_with_def bindP_def [of "mapP read_named files"] retP_def Let_def)
  qed
  show "\<forall>e \<in> set files. marked marker (snd e) t" if "transaction title marker files edits already applied s = (t, Inr out)"
    using that by (rule transaction_cases) auto
qed

end
