(* ===== verification/PatchScripts.thy ===== *)
theory PatchScripts
  imports TextPatch
begin

text \<open>
  Scripts that patch the C sources, with the texts they look for and put in place: \<^verbatim>\<open>patch-core-frontier-m84-pointer-loop-condition.py\<close>,
  \<^verbatim>\<open>-m89-empty-volatile-asm.py\<close>, \<^verbatim>\<open>-m50c-output-input-asm.py\<close> and \<^verbatim>\<open>-batch-g.py\<close> of \<^verbatim>\<open>src/tools/dev\<close>.  Paths are relative to the working
  directory, the root of the store.

  Shown here: each of them can be run again.  A second run ends as the first one did and changes nothing, also when the first one was stopped by an
  anchor that is missing, and whatever names of the same file the tree has.  M50c edits all of its files or none.
\<close>

definition CORE_IR_H :: path where
  [py_defs]: "CORE_IR_H = [''src'', ''core'', ''core_ir.h'']"

definition CORE_IR_C :: path where
  [py_defs]: "CORE_IR_C = [''src'', ''core'', ''core_ir.c'']"

definition CORE_LOWER :: path where
  [py_defs]: "CORE_LOWER = [''src'', ''core'', ''core_lower.c'']"

definition CORE_CODEGEN :: path where
  [py_defs]: "CORE_CODEGEN = [''src'', ''target'', ''riscv64'', ''core_codegen.c'']"

section \<open>M84: one file, one marker\<close>

definition M84_MARKER :: string where
  [py_defs]: "M84_MARKER = ''M84_SHARED_LOOP_CONDITION_BRANCH''"

definition m84_old_1 :: string where
  "m84_old_1 = unlines
     [''    MinicCoreBlockId preheader_block;'',
      ''    MinicCoreBlockId saved_break_target;'',
      ''    MinicCoreTerminator terminator;'',
      ''    MinicCoreValueId condition;'',
      ''    MinicCoreLowerStatus status;'']"

definition m84_new_1 :: string where
  "m84_new_1 = unlines
     [''    MinicCoreBlockId preheader_block;'',
      ''    MinicCoreBlockId saved_break_target;'',
      ''    MinicCoreLowerStatus status;'']"

definition m84_old_2 :: string where
  "m84_old_2 = unlines
     [''        if (condition_expression == NULL || !minic_type_is_integer(condition_expression->type)) {'',
      ''            return MINIC_CORE_LOWER_UNSUPPORTED;'',
      ''        }'']"

definition m84_new_2 :: string where
  "m84_new_2 = unlines
     [''        if (condition_expression == NULL ||'',
      ''            (!minic_type_is_integer(condition_expression->type) &&'',
      ''             !minic_type_is_pointer(condition_expression->type))) {'',
      ''            return MINIC_CORE_LOWER_UNSUPPORTED;'',
      ''        }'']"

definition m84_old_3 :: string where
  "m84_old_3 = unlines
     [''    } else {'',
      ''        status = lower_expression(context, statement->expression, &condition);'',
      ''        if (status != MINIC_CORE_LOWER_OK) {'',
      ''            return status;'',
      ''        }'',
      ''        if (!minic_type_is_integer(context->function->values[condition].type)) {'',
      ''            return MINIC_CORE_LOWER_ERROR;'',
      ''        }'',
      ''        (void)memset(&terminator, 0, sizeof(terminator));'',
      ''        terminator.kind = MINIC_CORE_TERMINATOR_CONDITIONAL_BRANCH;'',
      ''        terminator.span = statement->span;'',
      ''        terminator.return_value = MINIC_CORE_VALUE_INVALID;'',
      ''        terminator.conditional.condition = condition;'',
      ''        terminator.conditional.when_true = body_block;'',
      ''        terminator.conditional.when_false = exit_block;'',
      ''        if (!minic_core_function_set_terminator('',
      ''                context->function, condition_block, &terminator)) {'',
      ''            return MINIC_CORE_LOWER_ERROR;'',
      ''        }'',
      ''    }'']"

definition m84_new_3 :: string where
  "m84_new_3 = unlines
     [''    } else {'',
      ''        /* M84_SHARED_LOOP_CONDITION_BRANCH: if/while/normalized-for share one'',
      ''           scalar-condition owner. This admits pointer truth values and keeps'',
      ''           !/&&/|| short-circuit CFG construction out of the loop lowering. */'',
      ''        status = lower_condition_branch(context,'',
      ''                                        statement->expression,'',
      ''                                        statement->span,'',
      ''                                        body_block,'',
      ''                                        exit_block);'',
      ''        if (status != MINIC_CORE_LOWER_OK) {'',
      ''            return status;'',
      ''        }'',
      ''    }'']"


definition m84_replace_once :: "string \<Rightarrow> string \<Rightarrow> string \<Rightarrow> string \<Rightarrow> py_error + string" where
  [py_defs]: "m84_replace_once v old new name = replace_once (\<lambda>n. ''M84 '' @ name @ '' anchor count='' @ n) v old new"

definition m84_edit :: "string \<Rightarrow> py_error + string" where
  [py_defs]: "m84_edit v =
     bindE (m84_replace_once v m84_old_1 m84_new_1 ''remove-duplicate-condition-state'') (\<lambda>v.
     bindE (m84_replace_once v m84_old_2 m84_new_2 ''allow-pointer-condition'') (\<lambda>v.
     m84_replace_once v m84_old_3 m84_new_3 ''shared-condition-branch''))"

definition m84_stage :: stage where
  [py_defs]: "m84_stage = marked_stage M84_MARKER CORE_LOWER m84_edit
     [''M84 shared loop condition branch already applied''] [''M84 shared loop condition branch applied'']"

definition m84_main :: "fs \<Rightarrow> script_outcome" where
  [py_defs]: "m84_main s = run_stages [m84_stage] s []"

section \<open>M89: one marker in three files, one after the other\<close>

definition M89_MARKER :: string where
  [py_defs]: "M89_MARKER = ''M89_EMPTY_VOLATILE_OPAQUE_ASM''"

definition m89_old_guard :: string where
  "m89_old_guard = unlines
     [''    if (function == NULL || template_text == NULL || template_length == 0U ||'',
      ''        template_length == SIZE_MAX || inline_asm_id == NULL || !is_volatile ||'',
      ''        function->inline_asm_count >= (size_t)UINT32_MAX) {'',
      ''        return false;'',
      ''    }'',
      ''    (void)memset(&stored, 0, sizeof(stored));'',
      ''    stored.template_text = copy_name(template_text, template_length);'',
      ''    if (stored.template_text == NULL || !grow_array((void **)&function->inline_asms,'']"

definition m89_new_guard :: string where
  "m89_new_guard = unlines
     [''    /* M89_EMPTY_VOLATILE_OPAQUE_ASM: an empty volatile asm is still an'',
      ''       explicit compiler-side effect even though the target text is zero bytes.'',
      ''       Keep it in the opaque-asm table rather than erasing it or strengthening it'',
      ''       into a memory-clobber barrier. */'',
      ''    if (function == NULL || template_text == NULL || template_length == SIZE_MAX ||'',
      ''        inline_asm_id == NULL || !is_volatile ||'',
      ''        function->inline_asm_count >= (size_t)UINT32_MAX) {'',
      ''        return false;'',
      ''    }'',
      ''    (void)memset(&stored, 0, sizeof(stored));'',
      ''    if (template_length == 0U) {'',
      ''        stored.template_text = (char *)malloc(1U);'',
      ''        if (stored.template_text != NULL) {'',
      ''            stored.template_text[0] = '' @ [CHR 0x27, CHR 0x5C] @ ''0'' @ [CHR 0x27] @ '';'',
      ''        }'',
      ''    } else {'',
      ''        stored.template_text = copy_name(template_text, template_length);'',
      ''    }'',
      ''    if (stored.template_text == NULL || !grow_array((void **)&function->inline_asms,'']"

definition m89_old_verify :: string where
  "m89_old_verify = unlines
     [''        inline_asm = &function->inline_asms[instruction->value.inline_asm_id];'',
      ''        return inline_asm->template_text != NULL && inline_asm->template_length != 0U &&'',
      ''               inline_asm->is_volatile;'']"

definition m89_new_verify :: string where
  "m89_new_verify = unlines
     [''        inline_asm = &function->inline_asms[instruction->value.inline_asm_id];'',
      ''        return inline_asm->template_text != NULL && inline_asm->is_volatile;'']"

definition m89_old_callee :: string where
  "m89_old_callee = unlines
     [''        if (inline_asm->template_text == NULL || inline_asm->template_length == 0U ||'',
      ''            !inline_asm->is_volatile) {'']"

definition m89_new_callee :: string where
  "m89_new_callee = unlines
     [''        if (inline_asm->template_text == NULL || !inline_asm->is_volatile) {'']"

definition m89_anchor :: string where
  "m89_anchor = unlines
     [''    /* M59_EMPTY_SCALAR_INPUT_BARRIER: GNU barrier_data() is an empty'',
      ''       volatile asm with one scalar register input and a memory clobber. The'']"

definition m89_block :: string where
  "m89_block = unlines
     [''    /* M89_EMPTY_VOLATILE_OPAQUE_ASM: `asm volatile('' @ [CHR 0x22, CHR 0x22] @ '')` carries a'',
      ''       sequencing/volatile effect but intentionally emits no target text. Keep'',
      ''       the effect explicitly in Core; do not invent a memory clobber. */'',
      ''    if (source->is_volatile && !source->is_goto && source->template_text != NULL &&'',
      ''        source->template_length == 0U && source->output_count == 0U &&'',
      ''        source->input_count == 0U && source->label_count == 0U &&'',
      ''        source->register_clobber_count == 0U && source->clobber_count == 0U &&'',
      ''        !source->has_memory_clobber) {'',
      ''        if (!minic_core_function_add_opaque_inline_asm(context->function,'',
      ''                                                       source->template_text,'',
      ''                                                       0U,'',
      ''                                                       true,'',
      ''                                                       false,'',
      ''                                                       &inline_asm_id)) {'',
      ''            return MINIC_CORE_LOWER_ERROR;'',
      ''        }'',
      ''        (void)memset(&instruction, 0, sizeof(instruction));'',
      ''        instruction.kind = MINIC_CORE_INSTRUCTION_OPAQUE_INLINE_ASM;'',
      ''        instruction.span = statement->span;'',
      ''        instruction.type = minic_type_void();'',
      ''        instruction.result = MINIC_CORE_VALUE_INVALID;'',
      ''        instruction.value.inline_asm_id = inline_asm_id;'',
      ''        return minic_core_function_append_effect_instruction('',
      ''                   context->function, context->block_id, &instruction)'',
      ''                   ? MINIC_CORE_LOWER_OK'',
      ''                   : MINIC_CORE_LOWER_ERROR;'',
      ''    }'',
      []]"

definition m89_old :: string where
  "m89_old = unlines
     [''    inline_asm = &function->inline_asms[instruction->value.inline_asm_id];'',
      ''    if (inline_asm->template_text == NULL || inline_asm->template_length == 0U ||'',
      ''        !inline_asm->is_volatile) {'',
      ''        return false;'',
      ''    }'']"

definition m89_new :: string where
  "m89_new = unlines
     [''    inline_asm = &function->inline_asms[instruction->value.inline_asm_id];'',
      ''    /* M89_EMPTY_VOLATILE_OPAQUE_ASM: opaque volatile asm may carry zero'',
      ''       target bytes; emit_opaque_inline_asm naturally loops zero times. */'',
      ''    if (inline_asm->template_text == NULL || !inline_asm->is_volatile) {'',
      ''        return false;'',
      ''    }'']"


definition m89_ir_edit :: "string \<Rightarrow> py_error + string" where
  [py_defs]: "m89_ir_edit v =
     bindE (replace_in_region v ''bool minic_core_function_add_callee('' ''/* M83_FIRST_CLASS_INDIRECT_CALL''
       m89_old_callee m89_new_callee ''callee-inline-asm-validation'') (\<lambda>v.
     bindE (replace_in_region v ''bool minic_core_function_add_opaque_inline_asm('' ''bool minic_core_function_append_call_arguments(''
       m89_old_guard m89_new_guard ''opaque-store'') (\<lambda>v.
     replace_in_region v ''case MINIC_CORE_INSTRUCTION_OPAQUE_INLINE_ASM:'' ''case MINIC_CORE_INSTRUCTION_REGISTER_OUTPUT_INLINE_ASM:''
       m89_old_verify m89_new_verify ''opaque-instruction-verify''))"

definition m89_lower_edit :: "string \<Rightarrow> py_error + string" where
  [py_defs]: "m89_lower_edit v = replace_once (\<lambda>n. ''M89 lower anchor count='' @ n) v m89_anchor (m89_block @ m89_anchor)"

definition m89_codegen_edit :: "string \<Rightarrow> py_error + string" where
  [py_defs]: "m89_codegen_edit v =
     replace_in_region v ''static bool core_opaque_inline_asm_supported('' ''static bool core_register_output_inline_asm_supported(''
       m89_old m89_new ''opaque-codegen-support''"

datatype m89_file = Patch_ir_impl | Patch_lower | Patch_codegen

fun m89_path :: "m89_file \<Rightarrow> path" where
  "m89_path Patch_ir_impl = CORE_IR_C"
| "m89_path Patch_lower = CORE_LOWER"
| "m89_path Patch_codegen = CORE_CODEGEN"

fun m89_edit :: "m89_file \<Rightarrow> string \<Rightarrow> py_error + string" where
  "m89_edit Patch_ir_impl = m89_ir_edit"
| "m89_edit Patch_lower = m89_lower_edit"
| "m89_edit Patch_codegen = m89_codegen_edit"

definition m89_line :: "m89_file \<Rightarrow> string \<Rightarrow> string list" where
  [py_defs]: "m89_line f end_of_line = [''M89 '' @ last (m89_path f) @ end_of_line]"

definition m89_stage :: "m89_file \<Rightarrow> stage" where
  [py_defs]: "m89_stage f = marked_stage M89_MARKER (m89_path f) (m89_edit f) (m89_line f '' already applied'') (m89_line f '' applied'')"

definition m89_main :: "fs \<Rightarrow> script_outcome" where
  [py_defs]: "m89_main s = run_stages (map m89_stage [Patch_ir_impl, Patch_lower, Patch_codegen]) s []"

section \<open>M50c: four files, all or none\<close>

definition M50C_MARKER :: string where
  [py_defs]: "M50C_MARKER = ''MINIC_CORE_INSTRUCTION_REGISTER_OUTPUT_INPUT_INLINE_ASM''"

definition M50C_FILES :: "(string \<times> path) list" where
  [py_defs]: "M50C_FILES = [(''ir_h'', CORE_IR_H), (''ir_c'', CORE_IR_C), (''lower'', CORE_LOWER), (''codegen'', CORE_CODEGEN)]"

definition m50c_old_1 :: string where
  "m50c_old_1 = unlines
     [''    MINIC_CORE_INSTRUCTION_REGISTER_OUTPUT_INLINE_ASM,'',
      ''    MINIC_CORE_INSTRUCTION_SCALAR_INPUT_INLINE_ASM,'']"

definition m50c_new_1 :: string where
  "m50c_new_1 = unlines
     [''    MINIC_CORE_INSTRUCTION_REGISTER_OUTPUT_INLINE_ASM,'',
      ''    MINIC_CORE_INSTRUCTION_REGISTER_OUTPUT_INPUT_INLINE_ASM,'',
      ''    MINIC_CORE_INSTRUCTION_SCALAR_INPUT_INLINE_ASM,'']"

definition m50c_old_2 :: string where
  "m50c_old_2 = unlines
     [''        MinicCoreInlineAsmId inline_asm_id;'',
      ''        struct {'',
      ''            MinicCoreInlineAsmId inline_asm_id;'',
      ''            MinicCoreValueId operand;'',
      ''        } scalar_input_inline_asm;'']"

definition m50c_new_2 :: string where
  "m50c_new_2 = unlines
     [''        MinicCoreInlineAsmId inline_asm_id;'',
      ''        struct {'',
      ''            MinicCoreInlineAsmId inline_asm_id;'',
      ''            MinicCoreValueId operand;'',
      ''        } register_output_input_inline_asm;'',
      ''        struct {'',
      ''            MinicCoreInlineAsmId inline_asm_id;'',
      ''            MinicCoreValueId operand;'',
      ''        } scalar_input_inline_asm;'']"

definition m50c_ir_verify_anchor :: string where
  "m50c_ir_verify_anchor = unlines
     [''    case MINIC_CORE_INSTRUCTION_SCALAR_INPUT_INLINE_ASM: {'',
      ''        const MinicCoreInlineAsm *inline_asm;'',
      ''        MinicCoreValueId operand;'']"

definition m50c_ir_verify_case :: string where
  "m50c_ir_verify_case = unlines
     [''    case MINIC_CORE_INSTRUCTION_REGISTER_OUTPUT_INPUT_INLINE_ASM: {'',
      ''        const MinicCoreInlineAsm *inline_asm;'',
      ''        MinicCoreValueId operand;'',
      [],
      ''        operand = instruction->value.register_output_input_inline_asm.operand;'',
      ''        if (!instruction_result_is_valid(function, instruction) ||'',
      ''            (!minic_type_is_integer(instruction->type) &&'',
      ''             !minic_type_is_pointer(instruction->type)) ||'',
      ''            operand >= function->value_count || !available_values[operand] ||'',
      ''            (!minic_type_is_integer(function->values[operand].type) &&'',
      ''             !minic_type_is_pointer(function->values[operand].type)) ||'',
      ''            instruction->value.register_output_input_inline_asm.inline_asm_id >='',
      ''                function->inline_asm_count) {'',
      ''            return false;'',
      ''        }'',
      ''        inline_asm = &function->inline_asms['',
      ''            instruction->value.register_output_input_inline_asm.inline_asm_id];'',
      ''        return inline_asm->template_text != NULL && inline_asm->template_length != 0U &&'',
      ''               inline_asm->is_volatile;'',
      ''    }'']"

definition m50c_ir_dump_anchor :: string where
  "m50c_ir_dump_anchor = unlines
     [''    case MINIC_CORE_INSTRUCTION_SCALAR_INPUT_INLINE_ASM: {'',
      ''        const MinicCoreInlineAsm *inline_asm;'',
      ''        MinicCoreInlineAsmId inline_asm_id;'']"

definition m50c_ir_dump_case :: string where
  "m50c_ir_dump_case = unlines
     [''    case MINIC_CORE_INSTRUCTION_REGISTER_OUTPUT_INPUT_INLINE_ASM: {'',
      ''        const MinicCoreInlineAsm *inline_asm;'',
      ''        MinicCoreInlineAsmId inline_asm_id;'',
      [],
      ''        inline_asm_id = instruction->value.register_output_input_inline_asm.inline_asm_id;'',
      ''        if (function == NULL || inline_asm_id >= function->inline_asm_count) {'',
      ''            return false;'',
      ''        }'',
      ''        inline_asm = &function->inline_asms[inline_asm_id];'',
      ''        return fprintf(output,'',
      ''                       '' @ [CHR 0x22] @ ''  %%%'' @ [CHR 0x22] @ '' PRIu32 '' @ [CHR 0x22] @ '' = asm.register_output_input id=%'' @ [CHR 0x22] @ '' PRIu32'',
      ''                       '' @ [CHR 0x22] @ '' %%%'' @ [CHR 0x22] @ '' PRIu32 '' @ [CHR 0x22] @ ''%s%s'' @ [CHR 0x5C] @ ''n'' @ [CHR 0x22] @ '','',
      ''                       instruction->result,'',
      ''                       inline_asm_id,'',
      ''                       instruction->value.register_output_input_inline_asm.operand,'',
      ''                       inline_asm->is_volatile ? '' @ [CHR 0x22] @ '' volatile'' @ [CHR 0x22] @ '' : '' @ [CHR 0x22, CHR 0x22] @ '','',
      ''                       inline_asm->has_memory_clobber ? '' @ [CHR 0x22] @ '' memory'' @ [CHR 0x22] @ '' : '' @ [CHR 0x22, CHR 0x22] @ '') >= 0;'',
      ''    }'']"

definition m50c_lower_anchor :: string where
  "m50c_lower_anchor = unlines
     [''    if (source->is_volatile && !source->is_goto && source->template_text != NULL &&'',
      ''        source->template_length != 0U && source->outputs != NULL &&'',
      ''        source->output_count == 1U && source->input_count == 0U &&'']"

definition m50c_lower_case :: string where
  "m50c_lower_case = unlines
     [''    if (source->is_volatile && !source->is_goto && source->template_text != NULL &&'',
      ''        source->template_length != 0U && source->outputs != NULL && source->inputs != NULL &&'',
      ''        source->output_count == 1U && source->input_count == 1U &&'',
      ''        source->label_count == 0U && source->register_clobber_count == 0U &&'',
      ''        source->clobber_count == (source->has_memory_clobber ? 1U : 0U)) {'',
      ''        const MinicInlineAsmOperand *input;'',
      ''        const MinicInlineAsmOperand *output;'',
      ''        const MinicExpression *input_expression;'',
      ''        const MinicExpression *output_expression;'',
      ''        const MinicLocal *local;'',
      ''        MinicCoreValueId address_id;'',
      ''        MinicCoreValueId input_value;'',
      ''        MinicCoreValueId output_value;'',
      ''        MinicCoreLowerStatus status;'',
      ''        MinicType input_type;'',
      ''        MinicType output_type;'',
      ''        bool input_register_constraint;'',
      ''        bool output_register_constraint;'',
      [],
      ''        output = &source->outputs[0];'',
      ''        input = &source->inputs[0];'',
      ''        output_expression = minic_c0_program_expression(context->body->program, output->expression);'',
      ''        input_expression = minic_c0_program_expression(context->body->program, input->expression);'',
      ''        output_register_constraint ='',
      ''            output->constraint_text != NULL &&'',
      ''            ((output->constraint_length == 2U &&'',
      ''              memcmp(output->constraint_text, '' @ [CHR 0x22] @ ''=r'' @ [CHR 0x22] @ '', 2U) == 0) ||'',
      ''             (output->constraint_length == 3U &&'',
      ''              memcmp(output->constraint_text, '' @ [CHR 0x22] @ ''=&r'' @ [CHR 0x22] @ '', 3U) == 0));'',
      ''        input_register_constraint ='',
      ''            input->constraint_text != NULL &&'',
      ''            ((input->constraint_length == 1U && memcmp(input->constraint_text, '' @ [CHR 0x22] @ ''r'' @ [CHR 0x22] @ '', 1U) == 0) ||'',
      ''             (input->constraint_length == 2U && memcmp(input->constraint_text, '' @ [CHR 0x22] @ ''rK'' @ [CHR 0x22] @ '', 2U) == 0));'',
      ''        if (output->access == MINIC_INLINE_ASM_OPERAND_WRITE_ONLY &&'',
      ''            input->access == MINIC_INLINE_ASM_OPERAND_READ_ONLY &&'',
      ''            output_register_constraint && input_register_constraint &&'',
      ''            output_expression != NULL && output_expression->kind == MINIC_EXPRESSION_LOCAL &&'',
      ''            output_expression->value_category == MINIC_VALUE_LVALUE &&'',
      ''            !minic_type_is_const(output_expression->type) &&'',
      ''            !minic_type_is_volatile(output_expression->type) &&'',
      ''            minic_type_unqualified(output_expression->type, &output_type) &&'',
      ''            core_memory_scalar_type(output_type) && input_expression != NULL &&'',
      ''            core_scalar_expression_value_type(context->body, input_expression, &input_type)) {'',
      ''            local = minic_c0_program_local('',
      ''                context->body->program, output_expression->value.local_id);'',
      ''            if (local == NULL) {'',
      ''                return MINIC_CORE_LOWER_ERROR;'',
      ''            }'',
      ''            if (!local->is_array &&'',
      ''                minic_c0_program_local_fixed_register_binding('',
      ''                    context->body->program, output_expression->value.local_id) == NULL &&'',
      ''                minic_type_equal(local->type, output_expression->type)) {'',
      ''                status = lower_expression(context, input->expression, &input_value);'',
      ''                if (status != MINIC_CORE_LOWER_OK) {'',
      ''                    return status;'',
      ''                }'',
      ''                if (input_value >= context->function->value_count ||'',
      ''                    !minic_type_equal(context->function->values[input_value].type, input_type)) {'',
      ''                    return MINIC_CORE_LOWER_ERROR;'',
      ''                }'',
      ''                if (!minic_core_function_add_opaque_inline_asm(context->function,'',
      ''                                                               source->template_text,'',
      ''                                                               source->template_length,'',
      ''                                                               source->is_volatile,'',
      ''                                                               source->has_memory_clobber,'',
      ''                                                               &inline_asm_id)) {'',
      ''                    return MINIC_CORE_LOWER_ERROR;'',
      ''                }'',
      ''                (void)memset(&instruction, 0, sizeof(instruction));'',
      ''                instruction.kind = MINIC_CORE_INSTRUCTION_REGISTER_OUTPUT_INPUT_INLINE_ASM;'',
      ''                instruction.span = statement->span;'',
      ''                instruction.type = output_type;'',
      ''                instruction.result = MINIC_CORE_VALUE_INVALID;'',
      ''                instruction.value.register_output_input_inline_asm.inline_asm_id = inline_asm_id;'',
      ''                instruction.value.register_output_input_inline_asm.operand = input_value;'',
      ''                if (!minic_core_function_append_value_instruction('',
      ''                        context->function, context->block_id, &instruction, &output_value)) {'',
      ''                    return MINIC_CORE_LOWER_ERROR;'',
      ''                }'',
      ''                if (lower_address(context, output->expression, &address_id) != MINIC_CORE_LOWER_OK) {'',
      ''                    return MINIC_CORE_LOWER_ERROR;'',
      ''                }'',
      ''                (void)memset(&instruction, 0, sizeof(instruction));'',
      ''                instruction.kind = MINIC_CORE_INSTRUCTION_STORE;'',
      ''                instruction.span = statement->span;'',
      ''                instruction.type = minic_type_void();'',
      ''                instruction.result = MINIC_CORE_VALUE_INVALID;'',
      ''                instruction.value.store.address = address_id;'',
      ''                instruction.value.store.stored_value = output_value;'',
      ''                instruction.value.store.is_volatile = false;'',
      ''                return minic_core_function_append_effect_instruction('',
      ''                           context->function, context->block_id, &instruction)'',
      ''                           ? MINIC_CORE_LOWER_OK'',
      ''                           : MINIC_CORE_LOWER_ERROR;'',
      ''            }'',
      ''        }'',
      ''    }'',
      []]"

definition m50c_support_anchor :: string where
  "m50c_support_anchor = unlines
     [''static bool core_scalar_input_inline_asm_supported('',
      ''    const MinicCoreFunction *function, const MinicCoreInstruction *instruction) {'']"

definition m50c_support_helper :: string where
  "m50c_support_helper = unlines
     [''static bool core_register_output_input_inline_asm_supported('',
      ''    const MinicCoreFunction *function, const MinicCoreInstruction *instruction) {'',
      ''    const MinicCoreInlineAsm *inline_asm;'',
      ''    MinicCoreValueId operand;'',
      ''    size_t index;'',
      [],
      ''    if (function == NULL || instruction == NULL ||'',
      ''        instruction->kind != MINIC_CORE_INSTRUCTION_REGISTER_OUTPUT_INPUT_INLINE_ASM ||'',
      ''        (!minic_type_is_integer(instruction->type) && !minic_type_is_pointer(instruction->type)) ||'',
      ''        instruction->value.register_output_input_inline_asm.inline_asm_id >='',
      ''            function->inline_asm_count) {'',
      ''        return false;'',
      ''    }'',
      ''    operand = instruction->value.register_output_input_inline_asm.operand;'',
      ''    if (operand >= function->value_count ||'',
      ''        (!minic_type_is_integer(function->values[operand].type) &&'',
      ''         !minic_type_is_pointer(function->values[operand].type))) {'',
      ''        return false;'',
      ''    }'',
      ''    inline_asm = &function->inline_asms['',
      ''        instruction->value.register_output_input_inline_asm.inline_asm_id];'',
      ''    if (inline_asm->template_text == NULL || inline_asm->template_length == 0U ||'',
      ''        !inline_asm->is_volatile) {'',
      ''        return false;'',
      ''    }'',
      ''    for (index = 0U; index < inline_asm->template_length; ++index) {'',
      ''        if (inline_asm->template_text[index] != '' @ [CHR 0x27] @ ''%'' @ [CHR 0x27] @ '') {'',
      ''            continue;'',
      ''        }'',
      ''        if (index + 1U >= inline_asm->template_length ||'',
      ''            (inline_asm->template_text[index + 1U] != '' @ [CHR 0x27] @ ''%'' @ [CHR 0x27] @ '' &&'',
      ''             inline_asm->template_text[index + 1U] != '' @ [CHR 0x27] @ ''0'' @ [CHR 0x27] @ '' &&'',
      ''             inline_asm->template_text[index + 1U] != '' @ [CHR 0x27] @ ''1'' @ [CHR 0x27] @ '')) {'',
      ''            return false;'',
      ''        }'',
      ''        index += 1U;'',
      ''    }'',
      ''    return true;'',
      ''}'',
      []]"

definition m50c_old_7 :: string where
  "m50c_old_7 = unlines
     [''    case MINIC_CORE_INSTRUCTION_REGISTER_OUTPUT_INLINE_ASM:'',
      ''        return core_register_output_inline_asm_supported(function, instruction);'',
      ''    case MINIC_CORE_INSTRUCTION_SCALAR_INPUT_INLINE_ASM:'']"

definition m50c_new_7 :: string where
  "m50c_new_7 = unlines
     [''    case MINIC_CORE_INSTRUCTION_REGISTER_OUTPUT_INLINE_ASM:'',
      ''        return core_register_output_inline_asm_supported(function, instruction);'',
      ''    case MINIC_CORE_INSTRUCTION_REGISTER_OUTPUT_INPUT_INLINE_ASM:'',
      ''        return core_register_output_input_inline_asm_supported(function, instruction);'',
      ''    case MINIC_CORE_INSTRUCTION_SCALAR_INPUT_INLINE_ASM:'']"

definition m50c_emit_anchor :: string where
  "m50c_emit_anchor = unlines
     [''static bool emit_scalar_input_inline_asm('',
      ''    FILE *file,'']"

definition m50c_emit_helper :: string where
  "m50c_emit_helper = unlines
     [''static bool emit_register_output_input_inline_asm('',
      ''    FILE *file,'',
      ''    const MinicC0Program *program,'',
      ''    const MinicCoreFunction *function,'',
      ''    const MinicRiscv64CoreFrame *frame,'',
      ''    const MinicCoreInstruction *instruction) {'',
      ''    const MinicCoreInlineAsm *inline_asm;'',
      ''    size_t index;'',
      [],
      ''    if (file == NULL || frame == NULL ||'',
      ''        !core_register_output_input_inline_asm_supported(function, instruction) ||'',
      ''        !load_core_value('',
      ''            file, frame, instruction->value.register_output_input_inline_asm.operand, '' @ [CHR 0x22] @ ''t1'' @ [CHR 0x22] @ '')) {'',
      ''        return false;'',
      ''    }'',
      ''    inline_asm = &function->inline_asms['',
      ''        instruction->value.register_output_input_inline_asm.inline_asm_id];'',
      ''    if (fprintf(file, '' @ [CHR 0x22] @ ''  '' @ [CHR 0x22] @ '') < 0) {'',
      ''        return false;'',
      ''    }'',
      ''    for (index = 0U; index < inline_asm->template_length; ++index) {'',
      ''        if (inline_asm->template_text[index] != '' @ [CHR 0x27] @ ''%'' @ [CHR 0x27] @ '') {'',
      ''            if (fputc((unsigned char)inline_asm->template_text[index], file) == EOF) {'',
      ''                return false;'',
      ''            }'',
      ''            continue;'',
      ''        }'',
      ''        index += 1U;'',
      ''        if (inline_asm->template_text[index] == '' @ [CHR 0x27] @ ''%'' @ [CHR 0x27] @ '') {'',
      ''            if (fputc('' @ [CHR 0x27] @ ''%'' @ [CHR 0x27] @ '', file) == EOF) {'',
      ''                return false;'',
      ''            }'',
      ''        } else if (inline_asm->template_text[index] == '' @ [CHR 0x27] @ ''0'' @ [CHR 0x27] @ '') {'',
      ''            if (fprintf(file, '' @ [CHR 0x22] @ ''t0'' @ [CHR 0x22] @ '') < 0) {'',
      ''                return false;'',
      ''            }'',
      ''        } else if (inline_asm->template_text[index] == '' @ [CHR 0x27] @ ''1'' @ [CHR 0x27] @ '') {'',
      ''            if (fprintf(file, '' @ [CHR 0x22] @ ''t1'' @ [CHR 0x22] @ '') < 0) {'',
      ''                return false;'',
      ''            }'',
      ''        } else {'',
      ''            return false;'',
      ''        }'',
      ''    }'',
      ''    if (fputc('' @ [CHR 0x27, CHR 0x5C] @ ''n'' @ [CHR 0x27] @ '', file) == EOF ||'',
      ''        (minic_type_is_integer(instruction->type) &&'',
      ''         !minic_riscv64_emit_integer_conversion_for_program('',
      ''             file, program, instruction->type, '' @ [CHR 0x22] @ ''t0'' @ [CHR 0x22] @ ''))) {'',
      ''        return false;'',
      ''    }'',
      ''    return store_core_value(file, frame, instruction->result, '' @ [CHR 0x22] @ ''t0'' @ [CHR 0x22] @ '');'',
      ''}'',
      []]"

definition m50c_old_9 :: string where
  "m50c_old_9 = unlines
     [''    case MINIC_CORE_INSTRUCTION_REGISTER_OUTPUT_INLINE_ASM:'',
      ''        return emit_register_output_inline_asm(file, program, function, frame, instruction);'',
      ''    case MINIC_CORE_INSTRUCTION_SCALAR_INPUT_INLINE_ASM:'']"

definition m50c_new_9 :: string where
  "m50c_new_9 = unlines
     [''    case MINIC_CORE_INSTRUCTION_REGISTER_OUTPUT_INLINE_ASM:'',
      ''        return emit_register_output_inline_asm(file, program, function, frame, instruction);'',
      ''    case MINIC_CORE_INSTRUCTION_REGISTER_OUTPUT_INPUT_INLINE_ASM:'',
      ''        return emit_register_output_input_inline_asm(file, program, function, frame, instruction);'',
      ''    case MINIC_CORE_INSTRUCTION_SCALAR_INPUT_INLINE_ASM:'']"

definition M50C_EDITS :: "named_edit list" where
  [py_defs]: "M50C_EDITS =
     [(''ir_h'', m50c_old_1, m50c_new_1, ''core_ir.h instruction kind''),
      (''ir_h'', m50c_old_2, m50c_new_2, ''core_ir.h payload''),
      (''ir_c'', m50c_ir_verify_anchor, m50c_ir_verify_case @ m50c_ir_verify_anchor, ''core_ir.c verifier''),
      (''ir_c'', m50c_ir_dump_anchor, m50c_ir_dump_case @ m50c_ir_dump_anchor, ''core_ir.c dump''),
      (''lower'', m50c_lower_anchor, m50c_lower_case @ m50c_lower_anchor, ''core_lower.c output/input asm''),
      (''codegen'', m50c_support_anchor, m50c_support_helper @ m50c_support_anchor, ''core_codegen.c helper''),
      (''codegen'', m50c_old_7, m50c_new_7, ''core_codegen.c supported switch''),
      (''codegen'', m50c_emit_anchor, m50c_emit_helper @ m50c_emit_anchor, ''core_codegen.c emitter''),
      (''codegen'', m50c_old_9, m50c_new_9, ''core_codegen.c emit switch'')]"


definition m50c_stage :: "faults \<Rightarrow> stage" where
  [py_defs]: "m50c_stage faults = transaction_with faults ''M50c'' M50C_MARKER M50C_FILES M50C_EDITS
     [''M50c register-output/input inline asm already applied''] [''M50c register-output/input inline asm applied'']"

text \<open>The script with writes that may fail, and without.\<close>

definition m50c_main_with :: "faults \<Rightarrow> fs \<Rightarrow> script_outcome" where
  [py_defs]: "m50c_main_with faults s = run_stages [m50c_stage faults] s []"

definition m50c_main :: "fs \<Rightarrow> script_outcome" where
  [py_defs]: "m50c_main = m50c_main_with no_faults"

section \<open>Batch G: edits guarded by their own texts\<close>

definition batch_g_anchor :: string where
  "batch_g_anchor = unlines
     [''    if (!source->is_goto && source->template_text != NULL &&'',
      ''        source->template_length != 0U && source->output_count == 0U && source->inputs != NULL &&'',
      ''        source->input_count == 1U && source->label_count == 0U &&'',
      ''        source->register_clobber_count == 0U &&'',
      ''        source->clobber_count == (source->has_memory_clobber ? 1U : 0U)) {'']"

definition batch_g_block :: string where
  "batch_g_block = unlines
     [''    /* BATCH_G_TWO_SCALAR_OUTPUTLESS_ASM: outputless GNU asm is effectively'',
      ''       volatile (Batch F). Reuse the generic structured operand model when the'',
      ''       statement has two scalar register inputs and a memory clobber. */'',
      ''    if (!source->is_goto && source->template_text != NULL &&'',
      ''        source->template_length != 0U && source->output_count == 0U && source->inputs != NULL &&'',
      ''        source->input_count == 2U && source->label_count == 0U &&'',
      ''        source->register_clobber_count == 0U && source->has_memory_clobber &&'',
      ''        source->clobber_count == 1U) {'',
      ''        MinicCoreInstruction structured;'',
      ''        char *numeric_template = NULL;'',
      ''        size_t numeric_template_length = 0U;'',
      ''        size_t input_index;'',
      ''        bool supported_shape = true;'',
      [],
      ''        for (input_index = 0U; input_index < 2U; ++input_index) {'',
      ''            const MinicInlineAsmOperand *operand = &source->inputs[input_index];'',
      ''            const MinicExpression *input_expression = minic_c0_program_expression('',
      ''                context->body->program, operand->expression);'',
      ''            MinicType input_type;'',
      ''            bool register_constraint;'',
      [],
      ''            register_constraint ='',
      ''                operand->constraint_text != NULL &&'',
      ''                ((operand->constraint_length == 1U &&'',
      ''                  memcmp(operand->constraint_text, '' @ [CHR 0x22] @ ''r'' @ [CHR 0x22] @ '', 1U) == 0) ||'',
      ''                 (operand->constraint_length == 2U &&'',
      ''                  memcmp(operand->constraint_text, '' @ [CHR 0x22] @ ''rK'' @ [CHR 0x22] @ '', 2U) == 0));'',
      ''            if (operand->access != MINIC_INLINE_ASM_OPERAND_READ_ONLY ||'',
      ''                !register_constraint || input_expression == NULL ||'',
      ''                !core_scalar_expression_value_type(context->body, input_expression, &input_type)) {'',
      ''                supported_shape = false;'',
      ''                break;'',
      ''            }'',
      ''        }'',
      ''        if (supported_shape &&'',
      ''            core_inline_asm_numeric_template('',
      ''                source, &numeric_template, &numeric_template_length)) {'',
      ''            bool added;'',
      [],
      ''            added = numeric_template_length != 0U &&'',
      ''                    minic_core_function_add_opaque_inline_asm(context->function,'',
      ''                                                              numeric_template,'',
      ''                                                              numeric_template_length,'',
      ''                                                              true,'',
      ''                                                              true,'',
      ''                                                              &inline_asm_id);'',
      ''            free(numeric_template);'',
      ''            if (!added) {'',
      ''                return MINIC_CORE_LOWER_ERROR;'',
      ''            }'',
      ''            (void)memset(&structured, 0, sizeof(structured));'',
      ''            structured.kind = MINIC_CORE_INSTRUCTION_STRUCTURED_INLINE_ASM;'',
      ''            structured.span = statement->span;'',
      ''            structured.type = minic_type_void();'',
      ''            structured.result = MINIC_CORE_VALUE_INVALID;'',
      ''            structured.value.structured_inline_asm.inline_asm_id = inline_asm_id;'',
      ''            structured.value.structured_inline_asm.operand_count = 2U;'',
      ''            for (input_index = 0U; input_index < 2U; ++input_index) {'',
      ''                MinicCoreStructuredInlineAsmOperand *binding ='',
      ''                    &structured.value.structured_inline_asm.operands[input_index];'',
      ''                MinicCoreLowerStatus status;'',
      [],
      ''                binding->kind = MINIC_CORE_STRUCTURED_INLINE_ASM_SCALAR_INPUT;'',
      ''                binding->operand_index = input_index;'',
      ''                status = lower_expression(context, source->inputs[input_index].expression,'',
      ''                                          &binding->value);'',
      ''                if (status != MINIC_CORE_LOWER_OK) {'',
      ''                    return status;'',
      ''                }'',
      ''            }'',
      ''            return minic_core_function_append_effect_instruction('',
      ''                       context->function, context->block_id, &structured)'',
      ''                       ? MINIC_CORE_LOWER_OK'',
      ''                       : MINIC_CORE_LOWER_ERROR;'',
      ''        }'',
      ''        free(numeric_template);'',
      ''    }'',
      []]"

definition batch_g_old_1 :: string where
  "batch_g_old_1 = unlines
     [''        instruction->value.structured_inline_asm.operand_count < 3U ||'',
      ''        instruction->value.structured_inline_asm.operand_count > 5U) {'']"

definition batch_g_new_1 :: string where
  "batch_g_new_1 = unlines
     [''        instruction->value.structured_inline_asm.operand_count == 0U ||'',
      ''        instruction->value.structured_inline_asm.operand_count > 5U) {'']"

definition batch_g_old_2 :: string where
  "batch_g_old_2 = unlines
     [''    if (register_outputs != 2U || memory_readwrites != 1U || scalar_inputs > 2U ||'',
      ''        scalar_inputs + 3U != instruction->value.structured_inline_asm.operand_count) {'',
      ''        return false;'',
      ''    }'']"

definition batch_g_new_2 :: string where
  "batch_g_new_2 = unlines
     [''    if (!((register_outputs == 2U && memory_readwrites == 1U && scalar_inputs <= 2U &&'',
      ''           scalar_inputs + 3U == instruction->value.structured_inline_asm.operand_count) ||'',
      ''          (register_outputs == 0U && memory_readwrites == 0U && scalar_inputs == 2U &&'',
      ''           instruction->value.structured_inline_asm.operand_count == 2U))) {'',
      ''        return false;'',
      ''    }'']"


definition BATCH_G_EDITS :: "(path \<times> string \<times> string) list" where
  [py_defs]: "BATCH_G_EDITS =
     [(CORE_LOWER, batch_g_anchor, batch_g_block @ batch_g_anchor),
      (CORE_CODEGEN, batch_g_old_1, batch_g_new_1),
      (CORE_CODEGEN, batch_g_old_2, batch_g_new_2)]"

definition batch_g :: "fs \<Rightarrow> script_outcome" where
  [py_defs]: "batch_g s = (case run_stages (map guarded_replace BATCH_G_EDITS) s [] of
     (t, out, Inr c) \<Rightarrow> (t, out @ [''CORE_BATCH_G_PATCHED two-scalar outputless structured asm''], Inr c)
   | raised \<Rightarrow> raised)"

section \<open>Facts about the texts\<close>

text \<open>No new text has a carriage return, and no anchor is empty.\<close>

lemma m84_texts:
  "CHR 0x0D \<notin> set m84_new_1" "CHR 0x0D \<notin> set m84_new_2" "CHR 0x0D \<notin> set m84_new_3"
  "m84_old_1 \<noteq> []" "m84_old_2 \<noteq> []" "m84_old_3 \<noteq> []"
  unfolding m84_new_1_def m84_new_2_def m84_new_3_def m84_old_1_def m84_old_2_def m84_old_3_def unlines_Nil_iff
  by ((rule unlines_clean)?, simp)+

lemma m89_texts:
  "CHR 0x0D \<notin> set m89_new_callee" "CHR 0x0D \<notin> set m89_new_guard" "CHR 0x0D \<notin> set m89_new_verify"
  "CHR 0x0D \<notin> set m89_block" "CHR 0x0D \<notin> set m89_anchor" "CHR 0x0D \<notin> set m89_new"
  "m89_old_callee \<noteq> []" "m89_old_guard \<noteq> []" "m89_old_verify \<noteq> []" "m89_anchor \<noteq> []" "m89_old \<noteq> []"
  unfolding m89_new_callee_def m89_new_guard_def m89_new_verify_def m89_block_def m89_anchor_def m89_new_def
    m89_old_callee_def m89_old_guard_def m89_old_verify_def m89_old_def unlines_Nil_iff
  by ((rule unlines_clean)?, simp)+

lemma m50c_texts:
  "CHR 0x0D \<notin> set m50c_new_1" "CHR 0x0D \<notin> set m50c_new_2" "CHR 0x0D \<notin> set m50c_new_7" "CHR 0x0D \<notin> set m50c_new_9"
  "CHR 0x0D \<notin> set m50c_ir_verify_case" "CHR 0x0D \<notin> set m50c_ir_dump_case" "CHR 0x0D \<notin> set m50c_lower_case"
  "CHR 0x0D \<notin> set m50c_support_helper" "CHR 0x0D \<notin> set m50c_emit_helper"
  "CHR 0x0D \<notin> set m50c_ir_verify_anchor" "CHR 0x0D \<notin> set m50c_ir_dump_anchor" "CHR 0x0D \<notin> set m50c_lower_anchor"
  "CHR 0x0D \<notin> set m50c_support_anchor" "CHR 0x0D \<notin> set m50c_emit_anchor"
  "m50c_old_1 \<noteq> []" "m50c_old_2 \<noteq> []" "m50c_old_7 \<noteq> []" "m50c_old_9 \<noteq> []" "m50c_ir_verify_anchor \<noteq> []"
  "m50c_ir_dump_anchor \<noteq> []" "m50c_lower_anchor \<noteq> []" "m50c_support_anchor \<noteq> []" "m50c_emit_anchor \<noteq> []"
  unfolding m50c_new_1_def m50c_new_2_def m50c_new_7_def m50c_new_9_def m50c_ir_verify_case_def m50c_ir_dump_case_def m50c_lower_case_def
    m50c_support_helper_def m50c_emit_helper_def m50c_ir_verify_anchor_def m50c_ir_dump_anchor_def m50c_lower_anchor_def m50c_support_anchor_def
    m50c_emit_anchor_def m50c_old_1_def m50c_old_2_def m50c_old_7_def m50c_old_9_def unlines_Nil_iff
  by ((rule unlines_clean)?, simp)+

lemma batch_g_texts:
  "CHR 0x0D \<notin> set batch_g_block" "CHR 0x0D \<notin> set batch_g_anchor" "CHR 0x0D \<notin> set batch_g_new_1" "CHR 0x0D \<notin> set batch_g_new_2"
  "batch_g_anchor \<noteq> []" "batch_g_old_1 \<noteq> []" "batch_g_old_2 \<noteq> []"
  unfolding batch_g_block_def batch_g_anchor_def batch_g_new_1_def batch_g_new_2_def batch_g_old_1_def batch_g_old_2_def unlines_Nil_iff
  by ((rule unlines_clean)?, simp)+

text \<open>Where the markers are.\<close>

lemma marker_line: "a @ m @ b \<in> set ls \<Longrightarrow> contains m (unlines ls)"
  by (rule contains_line) (auto simp: contains_iff)

lemma m84_marker: "contains M84_MARKER m84_new_3"
  unfolding m84_new_3_def
  by (rule marker_line [of "''        /* ''" _ "'': if/while/normalized-for share one''"]) (simp add: M84_MARKER_def)

lemma m89_markers: "contains M89_MARKER m89_new_guard" "contains M89_MARKER m89_block" "contains M89_MARKER m89_new"
proof -
  show "contains M89_MARKER m89_new_guard" unfolding m89_new_guard_def
    by (rule marker_line [of "''    /* ''" _ "'': an empty volatile asm is still an''"]) (simp add: M89_MARKER_def)
  show "contains M89_MARKER m89_block" unfolding m89_block_def
    by (rule marker_line [of "''    /* ''" _ "'': `asm volatile('' @ [CHR 0x22, CHR 0x22] @ '')` carries a''"]) (simp add: M89_MARKER_def)
  show "contains M89_MARKER m89_new" unfolding m89_new_def
    by (rule marker_line [of "''    /* ''" _ "'': opaque volatile asm may carry zero''"]) (simp add: M89_MARKER_def)
qed

lemma m50c_markers: "contains M50C_MARKER m50c_new_1" "contains M50C_MARKER m50c_ir_dump_case" "contains M50C_MARKER m50c_lower_case"
  "contains M50C_MARKER m50c_new_9"
proof -
  show "contains M50C_MARKER m50c_new_1" unfolding m50c_new_1_def
    by (rule marker_line [of "''    ''" _ "'',''"]) (simp add: M50C_MARKER_def)
  show "contains M50C_MARKER m50c_ir_dump_case" unfolding m50c_ir_dump_case_def
    by (rule marker_line [of "''    case ''" _ "'': {''"]) (simp add: M50C_MARKER_def)
  show "contains M50C_MARKER m50c_lower_case" unfolding m50c_lower_case_def
    by (rule marker_line [of "''                instruction.kind = ''" _ "'';''"]) (simp add: M50C_MARKER_def)
  show "contains M50C_MARKER m50c_new_9" unfolding m50c_new_9_def
    by (rule marker_line [of "''    case ''" _ "'':''"]) (simp add: M50C_MARKER_def)
qed

text \<open>Edits that do not touch what an earlier one has put in place.\<close>

lemma m89_verify_apart: "apart M89_MARKER m89_old_verify"
  unfolding m89_old_verify_def M89_MARKER_def
  by (rule apart_marker [of _ "''M89''"]) (simp_all add: startswith_simps unlines_Cons)

lemma m50c_payload_apart: "apart M50C_MARKER m50c_old_2"
  unfolding m50c_old_2_def M50C_MARKER_def
  by (rule apart_marker [of _ "''MINIC_''"]) (simp_all add: startswith_simps unlines_Cons)

lemma batch_g_block_apart:
  "apart (batch_g_block @ batch_g_anchor) batch_g_old_1" "apart (batch_g_block @ batch_g_anchor) batch_g_old_2"
proof -
  show "apart (batch_g_block @ batch_g_anchor) batch_g_old_1"
    unfolding batch_g_block_def batch_g_anchor_def batch_g_old_1_def unlines_append [symmetric] append_Cons append_Nil
    by (rule apart_unlines [of _ _ "''BATCH_G''" "''< 3U''"]) (simp_all add: startswith_simps)
  show "apart (batch_g_block @ batch_g_anchor) batch_g_old_2"
    unfolding batch_g_block_def batch_g_anchor_def batch_g_old_2_def unlines_append [symmetric] append_Cons append_Nil
    by (rule apart_unlines [of _ _ "''BATCH_G''" "''!= 2U''"]) (simp_all add: startswith_simps)
qed

lemma batch_g_codegen_apart:
  "apart batch_g_new_1 batch_g_anchor" "apart batch_g_new_1 batch_g_old_2" "apart batch_g_new_2 batch_g_anchor" "apart batch_g_new_2 batch_g_old_1"
proof -
  show "apart batch_g_new_1 batch_g_anchor" unfolding batch_g_new_1_def batch_g_anchor_def
    by (rule apart_unlines [of _ _ "''== 0U ||''" "''is_goto''"]) (simp_all add: startswith_simps)
  show "apart batch_g_new_1 batch_g_old_2" unfolding batch_g_new_1_def batch_g_old_2_def
    by (rule apart_unlines [of _ _ "''== 0U ||''" "''!= 2U''"]) (simp_all add: startswith_simps)
  show "apart batch_g_new_2 batch_g_anchor" unfolding batch_g_new_2_def batch_g_anchor_def
    by (rule apart_unlines [of _ _ "''(!((''" "''is_goto''"]) (simp_all add: startswith_simps)
  show "apart batch_g_new_2 batch_g_old_1" unfolding batch_g_new_2_def batch_g_old_1_def
    by (rule apart_unlines [of _ _ "''(!((''" "''< 3U''"]) (simp_all add: startswith_simps)
qed

section \<open>The scripts as instances\<close>

lemma m84_edit_edited:
  assumes "m84_edit v = Inr u"
  obtains v1 v2 where "edited m84_old_1 m84_new_1 v v1" "edited m84_old_2 m84_new_2 v1 v2" "edited m84_old_3 m84_new_3 v2 u"
proof -
  obtain v1 v2 where "m84_replace_once v m84_old_1 m84_new_1 ''remove-duplicate-condition-state'' = Inr v1"
      "m84_replace_once v1 m84_old_2 m84_new_2 ''allow-pointer-condition'' = Inr v2"
      "m84_replace_once v2 m84_old_3 m84_new_3 ''shared-condition-branch'' = Inr u"
    using assms unfolding m84_edit_def bindE_Inr_iff by blast
  then show ?thesis using that m84_texts(4-6) replace_once_edited unfolding m84_replace_once_def by metis
qed

interpretation m84: marked_script M84_MARKER "\<lambda>_ :: unit. CORE_LOWER" "\<lambda>_. m84_edit"
  "\<lambda>_. [''M84 shared loop condition branch already applied'']" "\<lambda>_. [''M84 shared loop condition branch applied'']"
proof
  fix v u
  show "contains M84_MARKER u" if "m84_edit v = Inr u"
    by (rule m84_edit_edited [OF that]) (use edited_brings m84_marker in blast)
  show "CHR 0x0D \<notin> set u" if "m84_edit v = Inr u" "CHR 0x0D \<notin> set v"
    by (rule m84_edit_edited [OF that(1)]) (use edited_set m84_texts(1-3) that(2) in blast)
qed

lemma m89_ir_edited:
  assumes "m89_ir_edit v = Inr u"
  obtains v1 v2 where "edited m89_old_callee m89_new_callee v v1" "edited m89_old_guard m89_new_guard v1 v2"
    "edited m89_old_verify m89_new_verify v2 u"
proof -
  obtain v1 v2 a b c d e f where
      "replace_in_region v a b m89_old_callee m89_new_callee ''callee-inline-asm-validation'' = Inr v1"
      "replace_in_region v1 c d m89_old_guard m89_new_guard ''opaque-store'' = Inr v2"
      "replace_in_region v2 e f m89_old_verify m89_new_verify ''opaque-instruction-verify'' = Inr u"
    using assms unfolding m89_ir_edit_def bindE_Inr_iff by blast
  then show ?thesis using that m89_texts(7-9) replace_in_region_edited by metis
qed

lemma m89_edits:
  assumes "m89_edit f v = Inr u"
  shows "contains M89_MARKER u" and "CHR 0x0D \<notin> set v \<Longrightarrow> CHR 0x0D \<notin> set u"
proof -
  have "contains M89_MARKER u \<and> (CHR 0x0D \<notin> set v \<longrightarrow> CHR 0x0D \<notin> set u)"
  proof (cases f)
    case Patch_ir_impl
    with assms have "m89_ir_edit v = Inr u" by simp
    then obtain v1 v2 where e: "edited m89_old_callee m89_new_callee v v1" "edited m89_old_guard m89_new_guard v1 v2"
        "edited m89_old_verify m89_new_verify v2 u" by (rule m89_ir_edited)
    have "leaves M89_MARKER m89_old_verify m89_new_verify" using m89_verify_apart by (simp add: leaves_def)
    then have "contains M89_MARKER u" using edited_leaves [OF e(3)] edited_brings [OF e(2) m89_markers(1)] by blast
    moreover have "CHR 0x0D \<notin> set v \<longrightarrow> CHR 0x0D \<notin> set u" using e m89_texts(1-3) edited_set by metis
    ultimately show ?thesis by blast
  next
    case Patch_lower
    with assms have e: "edited m89_anchor (m89_block @ m89_anchor) v u"
      using replace_once_edited [OF m89_texts(10)] by (simp add: m89_lower_edit_def)
    have "CHR 0x0D \<notin> set (m89_block @ m89_anchor)" using m89_texts(4,5) by simp
    with edited_brings [OF e contains_left [OF m89_markers(2)]] edited_set [OF e] show ?thesis by blast
  next
    case Patch_codegen
    with assms have e: "edited m89_old m89_new v u"
      using replace_in_region_edited [OF m89_texts(11)] by (simp add: m89_codegen_edit_def)
    with edited_brings [OF e m89_markers(3)] edited_set [OF e _ m89_texts(6)] show ?thesis by blast
  qed
  then show "contains M89_MARKER u" and "CHR 0x0D \<notin> set v \<Longrightarrow> CHR 0x0D \<notin> set u" by auto
qed

interpretation m89: marked_script M89_MARKER m89_path m89_edit "\<lambda>f. m89_line f '' already applied''" "\<lambda>f. m89_line f '' applied''"
  by unfold_locales (rule m89_edits, assumption, rule m89_edits, assumption)

lemma m50c_marking: "marking M50C_MARKER M50C_FILES M50C_EDITS"
proof -
  have "leaves M50C_MARKER m50c_old_2 m50c_new_2" using m50c_payload_apart by (simp add: leaves_def)
  then have "list_all (\<lambda>(name, p). gets_marker M50C_MARKER name M50C_EDITS) M50C_FILES"
    using m50c_markers by (simp add: M50C_FILES_def M50C_EDITS_def contains_left)
  moreover have "list_all (\<lambda>(n, old, new, label). old \<noteq> [] \<and> CHR 0x0D \<notin> set new) M50C_EDITS"
    using m50c_texts by (simp add: M50C_EDITS_def)
  ultimately show ?thesis by (simp add: marking_def)
qed

interpretation m50c: atomic_script "''M50c''" M50C_MARKER M50C_FILES M50C_EDITS
  "[''M50c register-output/input inline asm already applied'']" "[''M50c register-output/input inline asm applied'']"
  by unfold_locales (rule m50c_marking)

lemma contains_refl: "contains p p"
  unfolding contains_iff by (metis append_Nil append_Nil2)

interpretation batch_g_run: guarded_script BATCH_G_EDITS
  by unfold_locales
    (use batch_g_texts batch_g_block_apart batch_g_codegen_apart in \<open>simp add: compatible_def BATCH_G_EDITS_def leaves_def contains_refl\<close>)

section \<open>Running a script again\<close>

text \<open>The second of two runs ends as the first and changes no file.\<close>

definition settles :: "(fs \<Rightarrow> script_outcome) \<Rightarrow> fs \<Rightarrow> bool" where
  "settles script s \<longleftrightarrow> (case script s of (t, out, r) \<Rightarrow> \<exists>out'. script t = (t, out', r))"

lemma m84_settles: "settles m84_main s"
  using m84.run_again [of "[()]" s "[]" _ _ _ "[]"]
  by (auto simp: settles_def m84_main_def m84_stage_def split: prod.splits simp del: run_stages.simps)

lemma m89_settles: "settles m89_main s"
proof -
  have "m89_stage = (\<lambda>f. marked_stage M89_MARKER (m89_path f) (m89_edit f) (m89_line f '' already applied'') (m89_line f '' applied''))"
    by (simp add: m89_stage_def fun_eq_iff)
  then show ?thesis
    using m89.run_again [of "[Patch_ir_impl, Patch_lower, Patch_codegen]" s "[]" _ _ _ "[]"]
    by (auto simp: settles_def m89_main_def split: prod.splits simp del: run_stages.simps list.map)
qed

lemma m50c_settles: "settles m50c_main s"
  using m50c.run_again [of "[()]" s "[]" _ _ _ "[]"]
  by (auto simp: settles_def m50c_main_def m50c_main_with_def m50c_stage_def transaction_def split: prod.splits simp del: run_stages.simps)

lemma batch_g_settles: "settles batch_g s"
proof -
  obtain t out r where run: "run_stages (map guarded_replace BATCH_G_EDITS) s [] = (t, out, r)" by (metis prod_cases3)
  then obtain out' where again: "run_stages (map guarded_replace BATCH_G_EDITS) t [] = (t, out', r)"
    using batch_g_run.run_again [OF subset_refl run, of "[]"] by blast
  from run again show ?thesis by (cases r) (simp_all add: settles_def batch_g_def)
qed

text \<open>
  C20. Each of the four scripts can be run again, from every tree: where the first run ended, finished or stopped by an anchor that is missing, by a file
  that cannot be read or by a partly edited tree, a second run changes no file and ends in the same way; a write to a file that was read succeeds here.
\<close>
theorem scripts_settle: "settles m84_main s \<and> settles m89_main s \<and> settles m50c_main s \<and> settles batch_g s"
  by (simp add: m84_settles m89_settles m50c_settles batch_g_settles)

text \<open>
  C21. M50c edits all of its files or none, as long as no write fails: whatever becomes of its writes, either it raises and no file has changed; or it returns 0 and every
  file has the marker; or the write to one of its files fails, and then it raises, the files before that one in its list have the marker, and besides them only
  that file may have changed, and only if it could be opened.
\<close>
theorem m50c_all_or_none:
  "(\<exists>out e. m50c_main_with faults s = (s, out, Inl e)) \<or>
   (\<exists>t out. m50c_main_with faults s = (t, out, Inr 0) \<and> list_all (\<lambda>(name, p). marked M50C_MARKER p t) M50C_FILES) \<or>
   (\<exists>t out e i. m50c_main_with faults s = (t, out, Inl e) \<and> interrupted M50C_MARKER M50C_FILES faults i s t)"
proof -
  obtain t r where run: "m50c_stage faults s = (t, r)" by (cases "m50c_stage faults s")
  from run [unfolded m50c_stage_def] show ?thesis
  proof (cases rule: m50c.transaction_with_cases)
    case (raised e)
    with run show ?thesis by (simp add: m50c_main_with_def)
  next
    case before
    with run show ?thesis by (auto simp: m50c_main_with_def list_all_iff)
  next
    case now
    with run show ?thesis by (auto simp: m50c_main_with_def list_all_iff)
  next
    case (broken e i)
    with run show ?thesis by (auto simp: m50c_main_with_def)
  qed
qed

text \<open>
  An edit is made where its anchor is: on a tree whose \<^verbatim>\<open>core_lower.c\<close> is the anchor of M89 and nothing else, the stage for that file puts the block before it.
\<close>

definition lower_tree :: fs where
  "lower_tree p =
     (if p \<in> {[''src''], [''src'', ''core'']} then Some DirN
      else if p = CORE_LOWER then Some (FileN (encode_utf8 m89_anchor)) else None)"

lemma lower_tree_read: "read_text CORE_LOWER lower_tree = Inr m89_anchor"
proof -
  have "locate lower_tree CORE_LOWER = Some CORE_LOWER"
    by (simp add: locate_def CORE_LOWER_def lower_tree_def resolve_from.simps node_at_def)
  moreover have "node_at lower_tree CORE_LOWER = Some (FileN (encode_utf8 m89_anchor))"
    by (simp add: CORE_LOWER_def lower_tree_def node_at_def)
  ultimately show ?thesis
    by (simp add: read_text_def read_bytes_def stat_def decode_encode universal_newlines_id [OF m89_texts(5)])
qed

lemma lower_tree_patched:
  "\<exists>t. m89_stage Patch_lower lower_tree = (t, Inr [''M89 core_lower.c applied'']) \<and> read_text CORE_LOWER t = Inr (m89_block @ m89_anchor)"
proof -
  have "anchored m89_anchor m89_anchor [] []" using m89_texts(10) not_contains_butlast by (simp add: anchored_def)
  then have edit: "m89_lower_edit m89_anchor = Inr (m89_block @ m89_anchor)"
    unfolding m89_lower_edit_def using replace_once_anchored [OF m89_texts(10)] by fastforce
  have "\<not> contains M89_MARKER m89_anchor"
    unfolding m89_anchor_def by (subst contains_unlines) (simp_all add: M89_MARKER_def startswith_simps)
  moreover have "CHR 0x0D \<notin> set (m89_block @ m89_anchor)" using m89_texts(4,5) by simp
  then obtain t where "write_text CORE_LOWER (m89_block @ m89_anchor) lower_tree = Inr t" "read_text CORE_LOWER t = Inr (m89_block @ m89_anchor)"
    using write_read_text [OF lower_tree_read] by metis
  ultimately show ?thesis
    using edit lower_tree_read by (simp add: m89_stage_def marked_stage_def bindP_readP bindP_putP retP_def m89_line_def CORE_LOWER_def)
qed

end
