(* ===== verification/Spec2Isabelle.thy ===== *)
theory Spec2Isabelle
  imports PrefixBisect ObjectSet ShardPlan ShardMerge Frontier QemuWatch CensusReport KbuildGuard CoreStrict PhaseTrace
    Frames FaultContext FirstFault Routing RuntimeBuild
    AuditAgreement SevenReceipt Regression MachineAudit SemanticOracle RouteAudit Stage4Receipt PatchScripts
begin

text \<open>
  A verification development of the Python tooling of the minic toolchain: the programs that plan,
  check, run and classify the experiments in which Linux is built with the toolchain and booted.

  \<^bold>\<open>The language.\<close>  \<open>Prelude\<close> models what the tools use of Python: exceptions as the left summand
  of a sum (\<open>bindE\<close>, \<open>mapE\<close>, \<open>foldE\<close>), \<^verbatim>\<open>str\<close> methods, \<^verbatim>\<open>int(text, base)\<close> and formatting, dictionaries as
  association lists in insertion order.  \<open>PyRegex\<close> is a backtracking matcher with the priorities of
  \<^verbatim>\<open>re\<close> (greedy, lazy, groups, \<^verbatim>\<open>search\<close>, \<^verbatim>\<open>finditer\<close>), with closed forms of runs of characters in \<open>RegexRuns\<close>; each regular expression of a source is a value of its
  type \<open>re\<close>.  \<open>PurePath\<close> is \<^verbatim>\<open>pathlib\<close>'s parsing of paths, \<open>Json\<close> is \<^verbatim>\<open>json.dumps\<close>, \<open>Shlex\<close> is \<^verbatim>\<open>shlex.split\<close>, and
  \<open>FileStore\<close> is a store of directories, files and symbolic links with the operations of \<^verbatim>\<open>os\<close> and \<^verbatim>\<open>pathlib\<close>,
  and state-passing programs (\<open>bindP\<close>, \<open>mapP\<close>) over it.  \<open>Grouping\<close> is the grouping and ranking idiom.  \<open>TextLines\<close> is
  the iteration over a file opened as text, \<open>PyRepr\<close> is
  \<^verbatim>\<open>repr\<close> and \<^verbatim>\<open>str\<close>, \<open>Captures\<close> the named groups of a match, \<open>Csv\<close> the tab-separated dialect of \<^verbatim>\<open>csv\<close> with what is
  written and read back, and \<open>Binary64\<close> the floating point numbers: exact rationals rounded to the
  nearest binary64 value, ties to even, with the compensated \<^verbatim>\<open>sum\<close> of Python 3.12, \<^verbatim>\<open>round\<close> and formatting.

  \<^bold>\<open>The components\<close> (under \<^verbatim>\<open>src/tools/ci\<close> unless said otherwise).

  \<^item> \<open>PrefixBisect\<close>: \<^verbatim>\<open>linux-runtime-prefix-bisect-v1.py\<close>.  The planner of a bisection over an ordered list of
    objects: its verdicts are explained by thresholds, an isolated object is the only explanation, a
    session ends after logarithmically many probes, and one whose baseline fails never ends.
  \<^item> \<open>ObjectSet\<close>: \<^verbatim>\<open>linux-runtime-object-set-v1.py\<close>.  Copies chosen objects into a work tree: outside of the
    tree, whatever the links, only missing directories and the manifest appear, and the manifest describes exactly what was copied.
  \<^item> \<open>ShardPlan\<close>: \<^verbatim>\<open>linux-perf-time-balanced-shard-plan-v1.py\<close>, \<^verbatim>\<open>linux_minipp_seven_balanced_plan_v1.py\<close>,
    \<^verbatim>\<open>linux_gnu_balanced_plan_v1.py\<close> and the strides of \<^verbatim>\<open>linux-runtime-gcc-shards-v1.py\<close>.  Every plan is a
    partition into seven shards.
  \<^item> \<open>ShardMerge\<close>: \<^verbatim>\<open>linux-runtime-gcc-shards-v1.py\<close>.  The merge collects the universe exactly, verifies each
    candidate before it changes anything and installs the verified bytes.
  \<^item> \<open>SymbolTable\<close> holds what the next two share, the table of \<^verbatim>\<open>nm\<close> and the nearest symbol, and states it
    as an interface (a locale) that both interpret.  \<open>Frontier\<close>: \<^verbatim>\<open>linux-runtime-frontier-v1.py\<close>, the
    classification of a boot against an accepted baseline.  \<open>QemuWatch\<close>:
    \<^verbatim>\<open>linux-runtime-qemu-watch-v1.py\<close>, the poll loop over an environment of rounds and the diagnostics of the trace.
  \<^item> \<open>CensusScan\<close> and \<open>CensusReport\<close>: \<^verbatim>\<open>src/assembler/tools/census.py\<close>.  The scanner of assembly text with its
    counters, the merge of reports, the greedy cover and the texts of the reports.
  \<^item> \<open>KbuildGuard\<close>: \<^verbatim>\<open>linux-runtime-kbuild-regeneration-guard-v1.py\<close>.  Snapshots of the generated inputs, the impact of
    changed headers, the replay of affected objects and the repair: fails closed, restores exactly.
  \<^item> \<open>CoreStrict\<close>: \<^verbatim>\<open>classify-core-strict-frontier.py\<close>.  Classes and rankings of the rows of a replay.

  \<^item> \<open>PhaseTrace\<close>: \<^verbatim>\<open>linux-perf-phase-trace-v1.py\<close>.  The readers of the compiler's phase markers: the two
    readings of a trace refine one timeline, the lookups of the report are typed, and the reported times
    are within half a microsecond.
  \<^item> \<open>Frames\<close>: the four readers of the stack-frame audit, \<^verbatim>\<open>linux-runtime-p1-frame-component-parse-v1.py\<close>, \<^verbatim>\<open>-frame-interval-\<close>,
    \<^verbatim>\<open>-frame-access-\<close> and \<^verbatim>\<open>-use-span-parse-v1.py\<close>.  A frame that passes is accounted for byte by byte, and the table one
    reader writes is read back by the next.
  \<^item> \<open>FaultContext\<close>: \<^verbatim>\<open>linux-runtime-fault-context-v1.py\<close>, and \<open>FirstFault\<close>: \<^verbatim>\<open>linux-first-fault-analyzer-v1.py\<close>.  All
    instructions before a fault in run-length blocks and the tails that are shown, and the verdict on all faults of a boot; both
    interpret the interface of \<open>SymbolTable\<close>.
  \<^item> \<open>Routing\<close>: \<^verbatim>\<open>select_runtime_owner_modes_v1.py\<close>, \<^verbatim>\<open>select_runtime_focused_owners_v1.py\<close> and
    \<^verbatim>\<open>select_miniobjcopy_elf_route_v1.py\<close>.  Which jobs a push starts: one interface for the three readers of the
    difference of two commits; no change that \<^verbatim>\<open>git diff\<close> reports loses its jobs.
  \<^item> \<open>RuntimeBuild\<close>: \<^verbatim>\<open>src/tools/runtime/build_runtime.py\<close>.  The build of the runtime library by a pool of workers: an
    archive is made of all objects only, and status 0 means complete archives.
  \<^item> \<open>OriginAudit\<close> and \<open>AuditAgreement\<close>: \<^verbatim>\<open>audit-rv64i-asm-origin.py\<close>.  The audit that tells instructions of the compiler from those of
    inline assembly, by a fast scanner of events and by a reference scanner of lines.  The recorder of findings is an interface (a locale) with two
    implementations: line numbers counted on, as in the code, and counted from the start.  The verdict is characterised, the tables agree, and on the lines
    that a compiler prints the two scanners agree; a semicolon right after a mnemonic hides its line from the fast one.
  \<^item> \<open>SevenReceipt\<close>: \<^verbatim>\<open>summarize-rv64i-seven-v1.py\<close>.  The receipt over the reports of the audits of seven shards: it passes exactly when every
    shard is complete.  Composed with the audit (below) it says what the whole check, a check of texts, establishes of the assembly files.
  \<^item> \<open>Regression\<close>: \<^verbatim>\<open>src/tools/validation/run_toolchain_regression.py\<close>.  The ledger of the regression gates: when it can be written, and the exit status.
  \<^item> \<open>MachineAudit\<close>: \<^verbatim>\<open>src/tests/compiler/c0/audit-rv64i-machine.py\<close>.  The decoder of machine words is compared with an encoder of the instructions of RV64I
    written from their formats: it accepts exactly the words that encode one.  The verdict on files is characterised over what \<^verbatim>\<open>readelf\<close> and \<^verbatim>\<open>objdump\<close> print.
  \<^item> \<open>ElfCompare\<close> and \<open>SemanticOracle\<close>: \<^verbatim>\<open>src/tests/assembler/elf_semantic_compare.py\<close> and \<^verbatim>\<open>run_semantic_oracle.py\<close>.  When two objects are called equal, in terms of
    the multisets of their symbols and relocations and of their contents with the bytes that the linker rewrites masked, and which sections a later one of the same name hides; what a run over all inputs
    establishes, in that sense of equality, of the objects that the two assemblers leave.  \<open>Tally\<close> holds counters as multisets, \<open>JsonLine\<close> the one-line JSON by which keys are sorted, and that it is injective.
  \<^item> \<open>RouteAudit\<close>: \<^verbatim>\<open>linux-runtime-minic-route-audit-v1.py\<close>.  Accepts exactly the objects whose final bytes were attested after a compilation by MiniC.
  \<^item> \<open>Stage4Receipt\<close>: \<^verbatim>\<open>minic-bootstrap-stage4-2064-receipt-v1.py\<close>.  The receipt is written exactly when the evidence of the seven producers and of the receiver is
    complete and agrees; an owner with an absolute name is read at that name.
  \<^item> \<open>TextPatch\<close> and \<open>PatchScripts\<close>: the scripts \<^verbatim>\<open>src/tools/dev/patch-core-frontier-*.py\<close> that edit the C sources by replacing anchors.  \<open>TextPatch\<close> has their
    helpers and states what a stage of a script promises as an interface (the locale \<open>resumable\<close>), with a locale for each of the three ways in which the
    scripts guard themselves: a marker, the new text itself, and edits in memory that are written at the end.  \<open>PatchScripts\<close> interprets them on four scripts with
    their texts: running one again changes nothing.  The writes of M50c may also fail: then, and only then, it leaves some of its files edited.

  This theory composes components: the build of the runtime library with the audit it starts, and the audits of the kernel's shards with
  the receipt that reads their reports.

  \<^bold>\<open>Arguments of the model.\<close>  SHA-256, \<^verbatim>\<open>zlib\<close>, the UTF-8 decoder, the JSON reader, the reader of ELF files (a record of
  what \<^verbatim>\<open>pyelftools\<close> returns), the order of a directory listing, the random part
  of temporary names, and the programs that the tools start are arguments of the definitions that use
  them.  Where a theorem relies on a law of such an argument the law is a premise, and the witness of
  the theorem instantiates it.

  \<^bold>\<open>Bounds and fuel.\<close>  Two functions take fuel, both the length of the text: \<open>finditer\<close>, whose matches are not empty, and the count of
  the occurrences of a text; neither can run out.  Loops are structural folds or have a measure: the cover
  loop the number of uncovered features, the matcher of \<^verbatim>\<open>re\<close> the length of the remaining text.  The poll
  loop of the watcher runs over the given rounds of its environment, and its theorem says in which round it
  stops.  Python integers are unbounded and are \<^typ>\<open>int\<close>; the bytes of ELF headers are words; the
  percentages of the census are rounded as IEEE binary64 division and \<^verbatim>\<open>round\<close> round them.  Characters are code points
  below 256.

  \<^bold>\<open>Not modelled.\<close>  The C programs of the toolchain (compiler, assembler, linker, preprocessor, archiver, ELF
  tools), the shell gates and workflows that start these tools, the other scripts that patch the C
  sources (they apply the helpers of \<open>TextPatch\<close> to other literal texts), the parsing of command lines by \<^verbatim>\<open>argparse\<close>, and the self tests of the tools.
  Of the modelled tools: elapsed times; the printed lines and JSON texts of the emulator's watcher, of the time-balanced plan and of the build of the runtime
  library, whose data is modelled; permissions and device failures of the file store, so that a write fails only where the model says so (paths, and the
  failing writes that \<open>PatchScripts\<close>, \<open>SemanticOracle\<close>, \<open>Regression\<close> and \<open>PrefixBisect\<close> take as arguments); and the interference of
  workers through files of the same name.  A chain of more than 40 links counts as a loop, as in the system's own path resolution.
\<close>

section \<open>The audit within the build of the runtime library\<close>

text \<open>
  \<^verbatim>\<open>build_runtime.py\<close> starts \<^verbatim>\<open>audit-rv64i-asm-origin.py\<close> on the objects of the RV64I target.  \<open>files\<close> are the files below that
  directory when it does; the options are those of the command that the build starts.
\<close>

definition build_audit_args :: "string \<Rightarrow> audit_args" where
  "build_audit_args output = \<lparr> aa_root = RuntimeBuild.under output ''objects'', aa_json_out = RuntimeBuild.under output ''rv64i-origin.json'', aa_batch_results = None,
     aa_expected_files = None, aa_require_markers = False, aa_fail_on_compiler_non_i = True, aa_opcode_tsv_out = True \<rparr>"

definition audit_status :: "(string \<Rightarrow> string) \<Rightarrow> (string list \<times> string) list \<Rightarrow> string \<Rightarrow> int" where
  "audit_status decode files output = (case origin_audit decode (build_audit_args output) files of Inr out \<Rightarrow> ao_status out | Inl e \<Rightarrow> 1)"

lemma audit_status_clean:
  assumes "audit_status decode files output = 0"
  shows "audit_paths files \<noteq> [] \<and> list_all (\<lambda>(parts, content). OriginAudit.clean decode content \<and> base_only decode content) (audit_paths files)"
proof -
  obtain out where out: "origin_audit decode (build_audit_args output) files = Inr out" "ao_status out = 0"
    using assms by (auto simp: audit_status_def split: sum.splits)
  with origin_audit_status [OF out(1)] show ?thesis by (simp add: build_audit_args_def clean_both)
qed

text \<open>
  C17. When the build of the runtime library with the MiniC back end exits with status 0 and RV64I is among its targets, and the status
  of the audit it starts is that of the audit of the files it left, then there are assembly files, their provenance markers are properly nested, and
  every instruction event outside of the user's regions is RV64I.
\<close>
theorem rv64i_build_audited:
  assumes "build_main t finish args data = Inr out" and "\<not> ba_print_sources args" and "bo_status out = 0"
    and "ba_backend args = ''minic''" and "''riscv64'' \<in> set (targets_of args data)"
    and "bt_audit t (audit_cmd (target_dir args ''riscv64'')) = audit_status decode files (target_dir args ''riscv64'')"
  shows "audit_paths files \<noteq> [] \<and> list_all (\<lambda>(parts, content). OriginAudit.clean decode content \<and> base_only decode content) (audit_paths files)"
proof -
  have "audited t args ''riscv64''" by (rule build_audited [OF assms(1-3,5)])
  with assms(4,6) have "audit_status decode files (target_dir args ''riscv64'') = 0" by (simp add: audited_def)
  then show ?thesis by (rule audit_status_clean)
qed

definition rv64i_manifest :: build_manifest where
  "rv64i_manifest = demo_manifest\<lparr>bm_targets := [(''riscv64'', \<lparr> tc_triple = ''riscv64-unknown-linux-gnu'', tc_minic_target = ''riscv64-linux'',
     tc_minic_flags = [''-march=rv64i'', ''-mabi=lp64''], tc_clang_flags = [''-march=rv64i'', ''-mabi=lp64''], tc_primitives = [''gcc/muldi3.S''] \<rparr>)]\<rparr>"

definition rv64i_tools :: build_tools where
  "rv64i_tools = demo_tools\<lparr>bt_nm := (\<lambda>argv. Some (0, [])), bt_audit := (\<lambda>argv. audit_status (\<lambda>x. x) demo_assembly ''b/minic/riscv64'')\<rparr>"

definition rv64i_build :: "py_error + build_outcome" where
  "rv64i_build = build_main rv64i_tools (\<lambda>names. names) demo_build_args rv64i_manifest"

lemma rv64i_build_passes: "\<exists>out. rv64i_build = Inr out \<and> bo_status out = 0"
proof -
  have "(case rv64i_build of Inr out \<Rightarrow> bo_status out = 0 | Inl e \<Rightarrow> False)" by code_simp
  then show ?thesis by (auto split: sum.splits)
qed

theorem rv64i_build_audited_witness:
  "list_all (\<lambda>(parts, content). OriginAudit.clean (\<lambda>x. x) content \<and> base_only (\<lambda>x. x) content) (audit_paths demo_assembly)"
proof -
  obtain out where out: "rv64i_build = Inr out" "bo_status out = 0" using rv64i_build_passes by auto
  have "\<not> ba_print_sources demo_build_args" "ba_backend demo_build_args = ''minic''" by (simp_all add: demo_build_args_def)
  moreover have "''riscv64'' \<in> set (targets_of demo_build_args rv64i_manifest)" by code_simp
  moreover have "target_dir demo_build_args ''riscv64'' = ''b/minic/riscv64''" by code_simp
  ultimately show ?thesis
    using rv64i_build_audited [of rv64i_tools "\<lambda>names. names" demo_build_args rv64i_manifest out "\<lambda>x. x" demo_assembly] out
    by (simp add: rv64i_build_def rv64i_tools_def)
qed

section \<open>From the assembly files to the receipt of the kernel\<close>

text \<open>
  C4. What the audits of the seven shards, run with the lists of their compilations, and the command that reads their reports establish together:
  the command exits with status 0 exactly when in every shard the compilations are those of the frozen range and all passed, there is one assembly
  file for each of them, the markers of every file are properly nested, and every instruction event that the scanner finds outside of the user's regions is RV64I.  This is a statement about texts: lines in which the scanner finds no event, and
  what data directives assemble to, are not covered.
\<close>
theorem seven_end_to_end:
  "(\<exists>out. seven_main exc_text json_out (shard_evidence decode args files batch) = Inr out \<and> so_status out = 0) \<longleftrightarrow>
   list_all (shard_clean decode files batch) SHARDS"
  by (simp only: seven_status shards_clean_iff)

end
